(* ===== verification/Prelude.thy ===== *)
theory Prelude
  imports Main "HOL-Library.Word" "HOL-Library.AList" "HOL-Library.Char_ord"
    "HOL-Library.List_Lexorder" "HOL-Library.Multiset"
begin

text \<open>
  Shared vocabulary of the development: the machine integers of the Go source, the instants and
  durations of its \<^verbatim>\<open>time\<close> package, its built-in maps, and the generic lemmas on these that the
  component theories use.

  \<^item> Integers. \<^verbatim>\<open>uint8\<close> \<dots> \<^verbatim>\<open>uint64\<close> that carry data from the wire are words of that width, so
    that \<open>+\<close> wraps as it does in Go. \<^verbatim>\<open>int\<close> values that are lengths or indices of slices, and the
    event counters of the \<^verbatim>\<open>Stats\<close> structures (which only ever grow by one per event), are \<open>nat\<close>.
  \<^item> Time. A \<^verbatim>\<open>time.Time\<close> is its distance in nanoseconds from Go's zero instant (January 1, year 1,
    UTC), so the zero \<^verbatim>\<open>Time\<close> is \<open>0\<close>. A \<^verbatim>\<open>time.Duration\<close> is a number of nanoseconds; \<^verbatim>\<open>Time.Sub\<close>
    saturates at the 64-bit range, and \<^verbatim>\<open>Time.UnixNano\<close> wraps outside it, as in the Go library.
  \<^item> Maps. A Go map is an association list with distinct keys: \<open>map_of\<close> reads it, \<open>AList.update\<close>
    and \<open>AList.delete\<close> write it and \<open>length\<close> is Go's \<^verbatim>\<open>len\<close>. Go leaves the iteration order of a
    map open; the list order is one such order, so a statement about a loop over a map is
    phrased with sets, multisets or sums.
\<close>

unbundle bit_operations_syntax

named_theorems go_simps \<open>defining equations of the Go primitives\<close>
named_theorems inv_intros \<open>one preservation lemma per operation, for the invariant proofs\<close>

type_synonym u8 = "8 word"
type_synonym u16 = "16 word"
type_synonym u32 = "32 word"
type_synonym u64 = "64 word"
type_synonym time = int
type_synonym duration = int
type_synonym ('k, 'v) gomap = "('k \<times> 'v) list"

section \<open>Time\<close>

definition max_int64 :: int where
  "max_int64 = 2 ^ 63 - 1"

definition min_int64 :: int where
  "min_int64 = - (2 ^ 63)"

text \<open>\<^verbatim>\<open>Time.Sub\<close>: the difference, clamped to what a \<^verbatim>\<open>Duration\<close> can hold.\<close>

definition time_Sub :: "time \<Rightarrow> time \<Rightarrow> duration" where
  "time_Sub t u = max min_int64 (min max_int64 (t - u))"

definition time_IsZero :: "time \<Rightarrow> bool" where
  "time_IsZero t \<longleftrightarrow> t = 0"

definition second_ns :: duration where
  "second_ns = 1000000000"

definition millisecond_ns :: duration where
  "millisecond_ns = 1000000"

text \<open>The Unix epoch on this scale: 62135596800 seconds after Go's zero instant.\<close>

definition unix_epoch :: time where
  "unix_epoch = 62135596800 * 1000000000"

definition time_Unix :: "int \<Rightarrow> int \<Rightarrow> time" where
  "time_Unix secs nsecs = unix_epoch + secs * 1000000000 + nsecs"

text \<open>\<^verbatim>\<open>Time.UnixNano\<close> is computed in \<^verbatim>\<open>int64\<close> arithmetic, which wraps.\<close>

definition UnixNano :: "time \<Rightarrow> int" where
  "UnixNano t = sint (word_of_int (t - unix_epoch) :: 64 word)"

text \<open>Go's integer division truncates towards zero.\<close>

definition go_div :: "int \<Rightarrow> int \<Rightarrow> int" where
  "go_div a b = sgn a * sgn b * (\<bar>a\<bar> div \<bar>b\<bar>)"

lemmas time_defs = time_Sub_def time_IsZero_def second_ns_def millisecond_ns_def
  max_int64_def min_int64_def

lemma time_Sub_self [simp]: "time_Sub t t = 0"
  by (simp add: time_defs)

lemma time_Sub_le_iff:
  "min_int64 \<le> d \<Longrightarrow> d < max_int64 \<Longrightarrow> time_Sub t u \<le> d \<longleftrightarrow> t - u \<le> d"
  by (auto simp: time_defs)

lemma time_Sub_mono: "t \<le> t' \<Longrightarrow> time_Sub t u \<le> time_Sub t' u"
  by (auto simp: time_defs)

lemma time_Sub_le: "time_Sub t u \<le> d \<Longrightarrow> d < max_int64 \<Longrightarrow> t - u \<le> d"
  by (auto simp: time_defs)

section \<open>Go maps\<close>

text \<open>The well-formedness of a Go map: no key occurs twice.\<close>

definition gomap_wf :: "('k, 'v) gomap \<Rightarrow> bool" where
  "gomap_wf m \<longleftrightarrow> distinct (map fst m)"

definition gomap_keys :: "('k, 'v) gomap \<Rightarrow> 'k list" where
  "gomap_keys m = map fst m"

lemma gomap_wf_Nil [simp]: "gomap_wf []"
  by (simp add: gomap_wf_def)

lemma gomap_wf_update [simp]: "gomap_wf (AList.update k v m) \<longleftrightarrow> gomap_wf m"
proof
  show "gomap_wf m \<Longrightarrow> gomap_wf (AList.update k v m)"
    by (simp add: gomap_wf_def distinct_update)
  show "gomap_wf (AList.update k v m) \<Longrightarrow> gomap_wf m"
    by (induction m) (auto simp: gomap_wf_def update_keys split: if_splits)
qed

lemma gomap_wf_delete [simp]: "gomap_wf m \<Longrightarrow> gomap_wf (AList.delete k m)"
  by (simp add: gomap_wf_def distinct_delete)

lemma gomap_wf_filter [simp]: "gomap_wf m \<Longrightarrow> gomap_wf (filter P m)"
  by (simp add: gomap_wf_def distinct_map_filter)

lemma map_of_None_iff: "map_of m k = None \<longleftrightarrow> k \<notin> fst ` set m"
  by (simp add: map_of_eq_None_iff)

lemma length_update_new [simp]:
  "map_of m k = None \<Longrightarrow> length (AList.update k v m) = Suc (length m)"
  by (induction m) (auto split: if_splits)

lemma length_update_old [simp]:
  "map_of m k = Some w \<Longrightarrow> length (AList.update k v m) = length m"
  by (induction m) (auto split: if_splits)

lemma length_update_le: "length (AList.update k v m) \<le> Suc (length m)"
  by (induction m) auto

lemma update_new_append: "map_of m k = None \<Longrightarrow> AList.update k v m = m @ [(k, v)]"
  by (induction m) (auto split: if_splits)

lemma delete_notin [simp]: "map_of m k = None \<Longrightarrow> AList.delete k m = m"
  by (induction m) (auto split: if_splits)

lemma length_delete_wf:
  "gomap_wf m \<Longrightarrow> map_of m k = Some v \<Longrightarrow> Suc (length (AList.delete k m)) = length m"
proof (induction m)
  case Nil
  then show ?case by simp
next
  case (Cons p m)
  show ?case
  proof (cases "fst p = k")
    case True
    with Cons.prems have "map_of m k = None"
      by (auto simp: gomap_wf_def map_of_None_iff)
    with True show ?thesis by simp
  next
    case False
    with Cons show ?thesis by (auto simp: gomap_wf_def)
  qed
qed

lemma map_of_mem_wf: "gomap_wf m \<Longrightarrow> (k, v) \<in> set m \<Longrightarrow> map_of m k = Some v"
  by (simp add: gomap_wf_def map_of_eq_Some_iff)

lemma map_of_delete_conv: "map_of (AList.delete k m) = (map_of m)(k := None)"
  by (rule delete_conv')

lemma map_of_update_conv: "map_of (AList.update k v m) = (map_of m)(k \<mapsto> v)"
  by (rule update_conv')

lemmas gomap_simps = map_of_update_conv map_of_delete_conv update_keys delete_keys

lemma set_delete: "set (AList.delete k m) = {p \<in> set m. fst p \<noteq> k}"
  by (induction m) auto

lemma fst_set_delete: "fst ` set (AList.delete k m) = fst ` set m - {k}"
  by (auto simp: set_delete image_iff)

lemma fst_set_update: "fst ` set (AList.update k v m) = insert k (fst ` set m)"
  by (induction m) auto

lemma set_update_subset: "set (AList.update k v m) \<subseteq> insert (k, v) (set m)"
  by (induction m) auto

lemma ball_update:
  "(\<forall>(k', v')\<in>set m. P k' v') \<Longrightarrow> P k v \<Longrightarrow> \<forall>(k', v')\<in>set (AList.update k v m). P k' v'"
  using set_update_subset [of k v m] by blast

lemma gomap_card: "gomap_wf m \<Longrightarrow> card (fst ` set m) = length m"
  by (metis distinct_card gomap_wf_def length_map set_map)

lemma update_same: "map_of m k = Some v \<Longrightarrow> AList.update k v m = m"
  by (induction m) (auto split: if_splits)

lemma update_map:
  "gomap_wf m \<Longrightarrow> map_of m k = Some w \<Longrightarrow>
   AList.update k v m = map (\<lambda>(k', v'). (k', if k' = k then v else v')) m"
proof (induction m)
  case (Cons p m)
  show ?case
  proof (cases "fst p = k")
    case True
    then have "\<forall>q\<in>set m. fst q \<noteq> k" using Cons.prems(1) by (metis gomap_wf_def image_eqI list.set_map distinct.simps(2) list.simps(9))
    then have "map (\<lambda>(k', v'). (k', if k' = k then v else v')) m = m"
      by (intro map_idI) (auto simp: split_beta)
    with True show ?thesis by (cases p) simp
  next
    case False
    with Cons show ?thesis by (cases p) (auto simp: gomap_wf_def)
  qed
qed simp

text \<open>Summing a quantity over the values of a map.\<close>

definition msum :: "('k \<Rightarrow> 'v \<Rightarrow> 'a::comm_monoid_add) \<Rightarrow> ('k, 'v) gomap \<Rightarrow> 'a" where
  "msum f m = (\<Sum>(k, v)\<leftarrow>m. f k v)"

lemma msum_Nil [simp]: "msum f [] = 0"
  by (simp add: msum_def)

lemma msum_Cons [simp]: "msum f (p # m) = f (fst p) (snd p) + msum f m"
  by (simp add: msum_def split_beta)

lemma msum_append [simp]: "msum f (m @ n) = msum f m + msum f n"
  by (simp add: msum_def)

lemma msum_update_new:
  "map_of m k = None \<Longrightarrow> msum f (AList.update k v m) = msum f m + f k v"
  by (simp add: update_new_append)

lemma msum_update_old:
  assumes "gomap_wf m" "map_of m k = Some w"
  shows "msum f (AList.update k v m) + f k w = msum f m + f k v"
  using assms
proof (induction m)
  case Nil
  then show ?case by simp
next
  case (Cons p m)
  show ?case
  proof (cases "fst p = k")
    case True
    with Cons.prems show ?thesis
      by (cases p) (simp add: algebra_simps)
  next
    case False
    with Cons have "msum f (AList.update k v m) + f k w = msum f m + f k v"
      by (cases p) (auto simp: gomap_wf_def)
    with False show ?thesis
      by (cases p) (simp add: algebra_simps)
  qed
qed

lemma msum_delete:
  assumes "gomap_wf m" "map_of m k = Some w"
  shows "msum f (AList.delete k m) + f k w = msum f m"
  using assms
proof (induction m)
  case Nil
  then show ?case by simp
next
  case (Cons p m)
  show ?case
  proof (cases "fst p = k")
    case True
    with Cons.prems have "map_of m k = None"
      by (auto simp: gomap_wf_def map_of_None_iff)
    with True Cons.prems show ?thesis
      by (cases p) (simp add: algebra_simps)
  next
    case False
    with Cons have "msum f (AList.delete k m) + f k w = msum f m"
      by (cases p) (auto simp: gomap_wf_def)
    with False show ?thesis
      by (cases p) (simp add: algebra_simps)
  qed
qed

lemma msum_filter_split:
  "msum f (filter P m) + msum f (filter (\<lambda>x. \<not> P x) m) = msum f m"
  by (induction m) (auto simp: algebra_simps)

section \<open>Lists\<close>

lemma length_removeAll_distinct:
  "distinct xs \<Longrightarrow> x \<in> set xs \<Longrightarrow> Suc (length (removeAll x xs)) = length xs"
  by (induction xs) auto

lemma sum_list_map_add:
  "(\<Sum>x\<leftarrow>xs. f x + g x) = (\<Sum>x\<leftarrow>xs. f x) + (\<Sum>x\<leftarrow>xs. g x :: 'a::comm_monoid_add)"
  by (induction xs) (auto simp: algebra_simps)

lemma sum_list_filter_split:
  "(\<Sum>x\<leftarrow>filter P xs. f x) + (\<Sum>x\<leftarrow>filter (\<lambda>x. \<not> P x) xs. f x) = (\<Sum>x\<leftarrow>xs. f x :: 'a::comm_monoid_add)"
  by (induction xs) (auto simp: algebra_simps)

section \<open>Step relations\<close>

text \<open>A predicate that every step of a relation keeps, and so every run of it.\<close>

locale kept_by_steps =
  fixes step :: "'s \<Rightarrow> 's \<Rightarrow> bool" and ok :: "'s \<Rightarrow> bool"
  assumes kept: "step s s' \<Longrightarrow> ok s \<Longrightarrow> ok s'"
begin

lemma kept_run: "step\<^sup>*\<^sup>* s s' \<Longrightarrow> ok s \<Longrightarrow> ok s'"
  by (induction rule: rtranclp_induct) (auto intro: kept)

end

end
