(* ===== verification/NetAddr.thy ===== *)
theory NetAddr
  imports Prelude
begin

text \<open>
  The part of Go's standard packages \<^verbatim>\<open>net/netip\<close>, \<^verbatim>\<open>encoding/binary\<close> and \<^verbatim>\<open>strconv\<close> that the flow
  pipeline is written against: addresses with their order, classification predicates, textual
  form and parser, prefixes with containment, and big-endian integers.

  A \<^verbatim>\<open>netip.Addr\<close> is the invalid zero value, an IPv4 address, or an IPv6 address with a zone (empty
  for none). \<^verbatim>\<open>Addr.Compare\<close> is total, so the type is an instance of \<open>linorder\<close> and the order
  lemmas of the library apply to every comparison the source makes.
\<close>

section \<open>Big-endian integers\<close>

definition be_uint :: "u8 list \<Rightarrow> 'a::len word" where
  "be_uint bs = foldl (\<lambda>v x. push_bit 8 v OR ucast x) 0 bs"

fun be_bytes :: "nat \<Rightarrow> 'a::len word \<Rightarrow> u8 list" where
  "be_bytes 0 w = []"
| "be_bytes (Suc n) w = be_bytes n (drop_bit 8 w) @ [ucast w]"

lemma length_be_bytes [simp]: "length (be_bytes n w) = n"
  by (induction n w rule: be_bytes.induct) auto

section \<open>Addresses\<close>

datatype addr = AddrNone | AddrV4 u32 | AddrV6 "128 word" string

fun addr_IsValid :: "addr \<Rightarrow> bool" where
  "addr_IsValid AddrNone = False"
| "addr_IsValid _ = True"

fun addr_Is4 :: "addr \<Rightarrow> bool" where
  "addr_Is4 (AddrV4 _) = True"
| "addr_Is4 _ = False"

fun addr_Is6 :: "addr \<Rightarrow> bool" where
  "addr_Is6 (AddrV6 _ _) = True"
| "addr_Is6 _ = False"

text \<open>An IPv4-mapped IPv6 address is \<^verbatim>\<open>::ffff:0:0/96\<close>; \<^verbatim>\<open>Unmap\<close> gives its IPv4 form.\<close>

fun addr_Is4In6 :: "addr \<Rightarrow> bool" where
  "addr_Is4In6 (AddrV6 w _) = (drop_bit 32 w = 65535)"
| "addr_Is4In6 _ = False"

fun addr_Unmap :: "addr \<Rightarrow> addr" where
  "addr_Unmap (AddrV6 w z) = (if drop_bit 32 w = 65535 then AddrV4 (ucast w) else AddrV6 w z)"
| "addr_Unmap a = a"

fun addr_BitLen :: "addr \<Rightarrow> nat" where
  "addr_BitLen AddrNone = 0"
| "addr_BitLen (AddrV4 _) = 32"
| "addr_BitLen (AddrV6 _ _) = 128"

fun addr_val :: "addr \<Rightarrow> nat" where
  "addr_val AddrNone = 0"
| "addr_val (AddrV4 w) = unat w"
| "addr_val (AddrV6 w _) = unat w"

fun addr_Zone :: "addr \<Rightarrow> string" where
  "addr_Zone (AddrV6 _ z) = z"
| "addr_Zone _ = []"

definition cmp3 :: "'a::linorder \<Rightarrow> 'a \<Rightarrow> int" where
  "cmp3 x y = (if x < y then - 1 else if y < x then 1 else 0)"

definition addr_Compare :: "addr \<Rightarrow> addr \<Rightarrow> int" where
  "addr_Compare a b =
     (if addr_BitLen a \<noteq> addr_BitLen b then cmp3 (addr_BitLen a) (addr_BitLen b)
      else if addr_val a \<noteq> addr_val b then cmp3 (addr_val a) (addr_val b)
      else cmp3 (addr_Zone a) (addr_Zone b))"

instantiation addr :: linorder
begin

definition less_eq_addr :: "addr \<Rightarrow> addr \<Rightarrow> bool" where
  "a \<le> b \<longleftrightarrow> addr_Compare a b \<le> 0"

definition less_addr :: "addr \<Rightarrow> addr \<Rightarrow> bool" where
  "a < b \<longleftrightarrow> addr_Compare a b < 0"

instance
proof
  fix a b c :: addr
  show "(a < b) = (a \<le> b \<and> \<not> b \<le> a)"
    by (auto simp: less_addr_def less_eq_addr_def addr_Compare_def cmp3_def split: if_splits)
  show "a \<le> a"
    by (simp add: less_eq_addr_def addr_Compare_def cmp3_def)
  show "a \<le> b \<Longrightarrow> b \<le> c \<Longrightarrow> a \<le> c"
    by (auto simp: less_eq_addr_def addr_Compare_def cmp3_def split: if_splits)
  show "a \<le> b \<Longrightarrow> b \<le> a \<Longrightarrow> a = b"
    by (cases a; cases b) (auto dest: word_unat_eq_iff [THEN iffD2] simp: less_eq_addr_def addr_Compare_def cmp3_def split: if_splits)
  show "a \<le> b \<or> b \<le> a"
    by (auto simp: less_eq_addr_def addr_Compare_def cmp3_def split: if_splits)
qed

end

lemma addr_Compare_eq0 [simp]: "addr_Compare a b = 0 \<longleftrightarrow> a = b"
  by (cases a; cases b) (auto dest: word_unat_eq_iff [THEN iffD2] simp: addr_Compare_def cmp3_def split: if_splits)

lemma addr_Compare_less: "addr_Compare a b < 0 \<longleftrightarrow> a < b"
  by (simp add: less_addr_def)

lemma addr_Unmap_idem [simp]: "addr_Unmap (addr_Unmap a) = addr_Unmap a"
  by (cases a) auto

lemma addr_IsValid_Unmap [simp]: "addr_IsValid (addr_Unmap a) = addr_IsValid a"
  by (cases a) auto

lemma addr_Unmap_not_4in6: "\<not> addr_Is4In6 a \<Longrightarrow> addr_Unmap a = a"
  by (cases a) auto

lemma addr_Is4In6_Unmap [simp]: "\<not> addr_Is4In6 (addr_Unmap a)"
  by (cases a) auto

subsection \<open>Classification\<close>

text \<open>The predicates look through an IPv4-mapped address, except \<^verbatim>\<open>IsUnspecified\<close>.\<close>

definition addr_IsUnspecified :: "addr \<Rightarrow> bool" where
  "addr_IsUnspecified a \<longleftrightarrow> a = AddrV4 0 \<or> a = AddrV6 0 []"

definition addr_IsLoopback :: "addr \<Rightarrow> bool" where
  "addr_IsLoopback a \<longleftrightarrow> (case addr_Unmap a of AddrNone \<Rightarrow> False
     | AddrV4 w \<Rightarrow> drop_bit 24 w = 127 | AddrV6 w z \<Rightarrow> w = 1)"

definition addr_IsMulticast :: "addr \<Rightarrow> bool" where
  "addr_IsMulticast a \<longleftrightarrow> (case addr_Unmap a of AddrNone \<Rightarrow> False
     | AddrV4 w \<Rightarrow> drop_bit 28 w = 14 | AddrV6 w z \<Rightarrow> drop_bit 120 w = 255)"

definition addr_IsLinkLocalUnicast :: "addr \<Rightarrow> bool" where
  "addr_IsLinkLocalUnicast a \<longleftrightarrow> (case addr_Unmap a of AddrNone \<Rightarrow> False
     | AddrV4 w \<Rightarrow> drop_bit 16 w = 43518 | AddrV6 w z \<Rightarrow> drop_bit 118 w = 1018)"

definition addr_IsLinkLocalMulticast :: "addr \<Rightarrow> bool" where
  "addr_IsLinkLocalMulticast a \<longleftrightarrow> (case addr_Unmap a of AddrNone \<Rightarrow> False
     | AddrV4 w \<Rightarrow> drop_bit 8 w = 14680064
     | AddrV6 w z \<Rightarrow> drop_bit 112 w AND 65295 = 65282)"

definition addr_IsInterfaceLocalMulticast :: "addr \<Rightarrow> bool" where
  "addr_IsInterfaceLocalMulticast a \<longleftrightarrow> (case a of
       AddrV6 w z \<Rightarrow> \<not> addr_Is4In6 a \<and> drop_bit 112 w AND 65295 = 65281
     | _ \<Rightarrow> False)"

definition addr_IsPrivate :: "addr \<Rightarrow> bool" where
  "addr_IsPrivate a \<longleftrightarrow> (case addr_Unmap a of AddrNone \<Rightarrow> False
     | AddrV4 w \<Rightarrow> drop_bit 24 w = 10 \<or> drop_bit 20 w = 2753 \<or> drop_bit 16 w = 49320
     | AddrV6 w z \<Rightarrow> drop_bit 121 w = 126)"

subsection \<open>From bytes\<close>

text \<open>\<^verbatim>\<open>netip.AddrFromSlice\<close> accepts exactly 4 or 16 bytes.\<close>

definition AddrFromSlice :: "u8 list \<Rightarrow> addr option" where
  "AddrFromSlice b =
     (if length b = 4 then Some (AddrV4 (be_uint b))
      else if length b = 16 then Some (AddrV6 (be_uint b) [])
      else None)"

fun addr_As16 :: "addr \<Rightarrow> u8 list" where
  "addr_As16 AddrNone = replicate 16 0"
| "addr_As16 (AddrV4 w) = replicate 10 0 @ [255, 255] @ be_bytes 4 w"
| "addr_As16 (AddrV6 w z) = be_bytes 16 w"

fun addr_As4 :: "addr \<Rightarrow> u8 list option" where
  "addr_As4 (AddrV4 w) = Some (be_bytes 4 w)"
| "addr_As4 (AddrV6 w z) =
     (if addr_Is4In6 (AddrV6 w z) then Some (be_bytes 4 (ucast w :: u32)) else None)"
| "addr_As4 AddrNone = None"

section \<open>Decimal and hexadecimal text\<close>

fun itoa :: "nat \<Rightarrow> string" where
  "itoa n = (if n < 10 then [char_of (48 + n)] else itoa (n div 10) @ [char_of (48 + n mod 10)])"

declare itoa.simps [simp del]

fun hex_digit :: "nat \<Rightarrow> char" where
  "hex_digit n = char_of (if n < 10 then 48 + n else 87 + n)"

fun itoa16 :: "nat \<Rightarrow> string" where
  "itoa16 n = (if n < 16 then [hex_digit n] else itoa16 (n div 16) @ [hex_digit (n mod 16)])"

declare itoa16.simps [simp del]

definition is_digit :: "char \<Rightarrow> bool" where
  "is_digit c \<longleftrightarrow> 48 \<le> (of_char c :: nat) \<and> (of_char c :: nat) \<le> 57"

definition digit_val :: "char \<Rightarrow> nat" where
  "digit_val c = of_char c - 48"

text \<open>\<^verbatim>\<open>strconv.ParseUint(s, 10, bits)\<close>: digits only, at least one, value below \<open>2 ^ bits\<close>.\<close>

definition ParseUint :: "nat \<Rightarrow> string \<Rightarrow> nat option" where
  "ParseUint bits s =
     (if s = [] \<or> \<not> list_all is_digit s then None
      else let v = foldl (\<lambda>a c. 10 * a + digit_val c) 0 s
           in if v < 2 ^ bits then Some v else None)"

section \<open>Textual addresses\<close>

text \<open>\<^verbatim>\<open>strings.Split\<close> on a one-character separator.\<close>

fun split_on :: "char \<Rightarrow> string \<Rightarrow> string list" where
  "split_on c [] = [[]]"
| "split_on c (x # xs) =
     (if x = c then [] # split_on c xs
      else case split_on c xs of [] \<Rightarrow> [[x]] | w # ws \<Rightarrow> (x # w) # ws)"

definition join_with :: "string \<Rightarrow> string list \<Rightarrow> string" where
  "join_with sep ws = (case ws of [] \<Rightarrow> [] | w # ws' \<Rightarrow> w @ concat (map (\<lambda>v. sep @ v) ws'))"

definition v4_String :: "u32 \<Rightarrow> string" where
  "v4_String w = join_with ''.'' (map (\<lambda>b. itoa (unat b)) (be_bytes 4 w))"

text \<open>The eight 16-bit groups of an IPv6 address, most significant first.\<close>

definition v6_groups :: "128 word \<Rightarrow> nat list" where
  "v6_groups w = map (\<lambda>i. unat (drop_bit (112 - 16 * i) w AND 65535)) [0..<8]"

fun zero_run :: "nat list \<Rightarrow> nat" where
  "zero_run [] = 0"
| "zero_run (g # gs) = (if g = 0 then Suc (zero_run gs) else 0)"

text \<open>The first longest run of at least two zero groups: its start and length.\<close>

fun best_run :: "nat \<Rightarrow> nat list \<Rightarrow> nat \<times> nat \<Rightarrow> nat \<times> nat" where
  "best_run i [] best = best"
| "best_run i (g # gs) (s, l) =
     (let r = zero_run (g # gs)
      in best_run (Suc i) gs (if 2 \<le> r \<and> l < r then (i, r) else (s, l)))"

definition v6_hex :: "nat list \<Rightarrow> string" where
  "v6_hex gs = join_with '':'' (map itoa16 gs)"

definition v6_String :: "128 word \<Rightarrow> string" where
  "v6_String w =
     (let gs = v6_groups w; (s, l) = best_run 0 gs (0, 0)
      in if l = 0 then v6_hex gs
         else v6_hex (take s gs) @ ''::'' @ v6_hex (drop (s + l) gs))"

definition zone_suffix :: "string \<Rightarrow> string" where
  "zone_suffix z = (if z = [] then [] else ''%'' @ z)"

fun addr_String :: "addr \<Rightarrow> string" where
  "addr_String AddrNone = ''invalid IP''"
| "addr_String (AddrV4 w) = v4_String w"
| "addr_String (AddrV6 w z) =
     (if drop_bit 32 w = 65535 then ''::ffff:'' @ v4_String (ucast w) else v6_String w)
     @ zone_suffix z"

subsection \<open>Parsing\<close>

definition parse_octet :: "string \<Rightarrow> nat option" where
  "parse_octet s =
     (case ParseUint 8 s of
        None \<Rightarrow> None
      | Some v \<Rightarrow> if 1 < length s \<and> hd s = CHR ''0'' then None else Some v)"

definition parseIPv4 :: "string \<Rightarrow> u32 option" where
  "parseIPv4 s =
     (case map parse_octet (split_on CHR ''.'' s) of
        [Some a, Some b, Some c, Some d] \<Rightarrow>
          Some (of_nat (((a * 256 + b) * 256 + c) * 256 + d))
      | _ \<Rightarrow> None)"

definition hex_val :: "char \<Rightarrow> nat option" where
  "hex_val c =
     (let n = of_char c in
      if 48 \<le> n \<and> n \<le> 57 then Some (n - 48)
      else if 97 \<le> n \<and> n \<le> 102 then Some (n - 87)
      else if 65 \<le> n \<and> n \<le> 70 then Some (n - 55)
      else None)"

fun hex_span :: "string \<Rightarrow> string" where
  "hex_span [] = []"
| "hex_span (c # cs) = (if hex_val c = None then [] else c # hex_span cs)"

definition hex_num :: "string \<Rightarrow> nat" where
  "hex_num s = foldl (\<lambda>a c. 16 * a + the (hex_val c)) 0 s"

text \<open>
  The group loop of \<^verbatim>\<open>netip.parseIPv6\<close>. \<open>gs\<close> is the bytes read so far, \<open>el\<close> the position of the
  ellipsis in them; the fuel is the number of groups there is room for, two bytes each.
\<close>

fun v6_loop :: "nat \<Rightarrow> string \<Rightarrow> u8 list \<Rightarrow> nat option \<Rightarrow> (string \<times> u8 list \<times> nat option) option" where
  "v6_loop 0 s gs el = Some (s, gs, el)"
| "v6_loop (Suc n) s gs el =
     (let h = hex_span s; rest = drop (length h) s in
      if h = [] \<or> 4 < length h then None
      else if rest \<noteq> [] \<and> hd rest = CHR ''.'' then
        (if el = None \<and> length gs \<noteq> 12 then None
         else if 16 < length gs + 4 then None
         else case parseIPv4 s of None \<Rightarrow> None
              | Some w \<Rightarrow> Some ([], gs @ be_bytes 4 w, el))
      else
        let gs' = gs @ be_bytes 2 (of_nat (hex_num h) :: u16) in
        (if rest = [] then Some ([], gs', el)
         else if hd rest \<noteq> CHR '':'' \<or> length rest = 1 then None
         else let s' = tl rest in
           if hd s' = CHR '':'' then
             (if el \<noteq> None then None
              else if tl s' = [] then Some ([], gs', Some (length gs'))
              else v6_loop n (tl s') gs' (Some (length gs')))
           else v6_loop n s' gs' el))"

definition parseIPv6 :: "string \<Rightarrow> addr option" where
  "parseIPv6 input =
     (let s = takeWhile (\<lambda>c. c \<noteq> CHR ''%'') input;
          z = drop (Suc (length s)) input
      in if length s < length input \<and> z = [] then None
         else
           let (s1, el0) = (if take 2 s = ''::'' then (drop 2 s, Some 0) else (s, None)) in
           if el0 = Some 0 \<and> s1 = [] then Some (AddrV6 0 z)
           else case v6_loop 8 s1 [] el0 of
             None \<Rightarrow> None
           | Some (s2, gs, el) \<Rightarrow>
               if s2 \<noteq> [] then None
               else if length gs < 16 then
                 (case el of None \<Rightarrow> None
                  | Some e \<Rightarrow> Some (AddrV6 (be_uint
                      (take e gs @ replicate (16 - length gs) 0 @ drop e gs)) z))
               else if el \<noteq> None then None
               else Some (AddrV6 (be_uint gs) z))"

text \<open>\<^verbatim>\<open>netip.ParseAddr\<close> decides the family by the first dot, colon or percent sign.\<close>

definition ParseAddr :: "string \<Rightarrow> addr option" where
  "ParseAddr s =
     (case find (\<lambda>c. c = CHR ''.'' \<or> c = CHR '':'' \<or> c = CHR ''%'') s of
        Some c \<Rightarrow> (if c = CHR ''.'' then map_option AddrV4 (parseIPv4 s)
                   else if c = CHR '':'' then parseIPv6 s else None)
      | None \<Rightarrow> None)"

lemmas parse_text = ParseAddr_def parseIPv4_def parse_octet_def ParseUint_def is_digit_def digit_val_def

section \<open>Prefixes\<close>

text \<open>A prefix is an address without zone and a length; \<open>None\<close> is the invalid prefix.\<close>

record prefix =
  pfx_addr :: addr
  pfx_bits :: "nat option"

definition prefix_IsValid :: "prefix \<Rightarrow> bool" where
  "prefix_IsValid p \<longleftrightarrow> pfx_bits p \<noteq> None"

definition prefix_Contains :: "prefix \<Rightarrow> addr \<Rightarrow> bool" where
  "prefix_Contains p ip =
     (case pfx_bits p of None \<Rightarrow> False
      | Some n \<Rightarrow> addr_Zone ip = [] \<and>
         (case (pfx_addr p, ip) of
            (AddrV4 a, AddrV4 b) \<Rightarrow> drop_bit (32 - n) (a XOR b) = 0
          | (AddrV6 a _, AddrV6 b _) \<Rightarrow> drop_bit (128 - n) (a XOR b) = 0
          | _ \<Rightarrow> False))"

definition prefix_Masked :: "prefix \<Rightarrow> prefix" where
  "prefix_Masked p =
     (case pfx_bits p of None \<Rightarrow> \<lparr>pfx_addr = AddrNone, pfx_bits = None\<rparr>
      | Some n \<Rightarrow> p\<lparr>pfx_addr := (case pfx_addr p of
            AddrNone \<Rightarrow> AddrNone
          | AddrV4 a \<Rightarrow> AddrV4 (push_bit (32 - n) (drop_bit (32 - n) a))
          | AddrV6 a z \<Rightarrow> AddrV6 (push_bit (128 - n) (drop_bit (128 - n) a)) [])\<rparr>)"

end
