(* ===== verification/NetflowTypes.thy ===== *)
theory NetflowTypes
  imports NetAddr "HOL-Library.Monad_Syntax"
begin

text \<open>
  The data contract of package \<^verbatim>\<open>internal/flow/netflow\<close> (\<^verbatim>\<open>types.go\<close>): decoded records and datagrams,
  the decoder's counters and errors, the element numbers it models, and the bounded report of
  what it stepped over.

  A slice expression or an integer read that would leave its slice panics in Go. Here it is
  \<open>None\<close> of the option monad, so a function of type \<open>\<dots> option\<close> returns \<open>Some\<close> exactly when the Go
  code neither panics nor loops forever.
\<close>

declare Option.bind_cong [fundef_cong]

section \<open>Checked slice access\<close>

definition slice :: "nat \<Rightarrow> nat \<Rightarrow> 'a list \<Rightarrow> 'a list option" where
  "slice i j b = (if i \<le> j \<and> j \<le> length b then Some (take (j - i) (drop i b)) else None)"

definition Uint16 :: "u8 list \<Rightarrow> nat \<Rightarrow> u16 option" where
  "Uint16 b i = (if i + 2 \<le> length b then Some (be_uint (take 2 (drop i b))) else None)"

definition Uint32 :: "u8 list \<Rightarrow> nat \<Rightarrow> u32 option" where
  "Uint32 b i = (if i + 4 \<le> length b then Some (be_uint (take 4 (drop i b))) else None)"

definition index :: "nat \<Rightarrow> 'a list \<Rightarrow> 'a option" where
  "index i b = (if i < length b then Some (b ! i) else None)"

lemma slice_Some [simp]: "i \<le> j \<Longrightarrow> j \<le> length b \<Longrightarrow> slice i j b = Some (take (j - i) (drop i b))"
  by (simp add: slice_def)

lemma Uint16_Some [simp]: "i + 2 \<le> length b \<Longrightarrow> Uint16 b i = Some (be_uint (take 2 (drop i b)))"
  by (simp add: Uint16_def)

lemma Uint32_Some [simp]: "i + 4 \<le> length b \<Longrightarrow> Uint32 b i = Some (be_uint (take 4 (drop i b)))"
  by (simp add: Uint32_def)

lemma index_Some [simp]: "i < length b \<Longrightarrow> index i b = Some (b ! i)"
  by (simp add: index_def)

section \<open>Records and datagrams\<close>

datatype Version = V5 | V9

record NFRecord =
  nf_Proto :: u8
  nf_SrcAddr :: addr
  nf_DstAddr :: addr
  nf_SrcPort :: u16
  nf_DstPort :: u16
  nf_Bytes :: u64
  nf_Packets :: u64
  nf_InIfIndex :: u32
  nf_OutIfIndex :: u32
  nf_First :: time
  nf_Last :: time
  nf_TCPFlags :: u8
  nf_VLANID :: u16
  nf_DSCP :: u8
  nf_ECN :: u8
  nf_SrcMask :: u8
  nf_DstMask :: u8
  nf_NextHop :: addr
  nf_TemplateID :: u16

text \<open>The zero value a Go \<^verbatim>\<open>var rec Record\<close> starts from.\<close>

definition NFRecord_zero :: NFRecord where
  "NFRecord_zero = \<lparr>nf_Proto = 0, nf_SrcAddr = AddrNone, nf_DstAddr = AddrNone, nf_SrcPort = 0,
     nf_DstPort = 0, nf_Bytes = 0, nf_Packets = 0, nf_InIfIndex = 0, nf_OutIfIndex = 0,
     nf_First = 0, nf_Last = 0, nf_TCPFlags = 0, nf_VLANID = 0, nf_DSCP = 0, nf_ECN = 0,
     nf_SrcMask = 0, nf_DstMask = 0, nf_NextHop = AddrNone, nf_TemplateID = 0\<rparr>"

datatype UnidentifiedKind = UnidentifiedField | UnidentifiedOptions | UnidentifiedFlowset

record Unidentified =
  un_Kind :: UnidentifiedKind
  un_Detail :: u16

record Datagram =
  dg_Version :: Version
  dg_SourceID :: u32
  dg_Sequence :: u32
  dg_ExportTime :: time
  dg_Records :: "NFRecord list"
  dg_Unidentified :: "Unidentified list"

definition maxUnidentifiedPerDatagram :: nat where
  "maxUnidentifiedPerDatagram = 32"

definition dg_note :: "Unidentified \<Rightarrow> Datagram \<Rightarrow> Datagram" where
  "dg_note u dg =
     (if u \<in> set (dg_Unidentified dg) \<or> maxUnidentifiedPerDatagram \<le> length (dg_Unidentified dg)
      then dg
      else dg\<lparr>dg_Unidentified := dg_Unidentified dg @ [u]\<rparr>)"

text \<open>The report stays a duplicate-free sample of bounded size.\<close>

definition unidentified_ok :: "Datagram \<Rightarrow> bool" where
  "unidentified_ok dg \<longleftrightarrow> distinct (dg_Unidentified dg) \<and>
     length (dg_Unidentified dg) \<le> maxUnidentifiedPerDatagram"

lemma note_ok [inv_intros]: "unidentified_ok dg \<Longrightarrow> unidentified_ok (dg_note u dg)"
  by (auto simp: dg_note_def unidentified_ok_def)

lemma fold_note_ok [inv_intros]: "unidentified_ok dg \<Longrightarrow> unidentified_ok (fold dg_note us dg)"
  by (induction us arbitrary: dg) (auto intro: note_ok)

lemma note_frame [simp]:
  "dg_Records (dg_note u dg) = dg_Records dg" "dg_SourceID (dg_note u dg) = dg_SourceID dg"
  "dg_ExportTime (dg_note u dg) = dg_ExportTime dg" "dg_Version (dg_note u dg) = dg_Version dg"
  "dg_Sequence (dg_note u dg) = dg_Sequence dg"
  by (simp_all add: dg_note_def)

lemma fold_note_frame [simp]:
  "dg_Records (fold dg_note us dg) = dg_Records dg" "dg_SourceID (fold dg_note us dg) = dg_SourceID dg"
  "dg_ExportTime (fold dg_note us dg) = dg_ExportTime dg"
  "dg_Version (fold dg_note us dg) = dg_Version dg"
  "dg_Sequence (fold dg_note us dg) = dg_Sequence dg"
  by (induction us arbitrary: dg) auto

section \<open>Counters and errors\<close>

record Stats =
  st_Datagrams :: nat
  st_Records :: nat
  st_NoTemplate :: nat
  st_Malformed :: nat
  st_UnsupportedVersion :: nat
  st_VarLenRejected :: nat
  st_TemplatesLearned :: nat
  st_TemplatesReplaced :: nat
  st_TemplatesEvicted :: nat
  st_UnexpectedOutBytes :: nat
  st_UnexpectedSrcAS :: nat
  st_UnexpectedDstAS :: nat
  st_UnknownFields :: nat
  st_OptionsTemplates :: nat
  st_UnknownFlowsets :: nat

definition Stats_zero :: Stats where
  "Stats_zero = \<lparr>st_Datagrams = 0, st_Records = 0, st_NoTemplate = 0, st_Malformed = 0,
     st_UnsupportedVersion = 0, st_VarLenRejected = 0, st_TemplatesLearned = 0,
     st_TemplatesReplaced = 0, st_TemplatesEvicted = 0, st_UnexpectedOutBytes = 0,
     st_UnexpectedSrcAS = 0, st_UnexpectedDstAS = 0, st_UnknownFields = 0,
     st_OptionsTemplates = 0, st_UnknownFlowsets = 0\<rparr>"

datatype nf_error = ErrShortPacket | ErrUnsupportedVersion | ErrMalformed | ErrVariableLength

section \<open>Element numbers\<close>

definition FieldInBytes :: u16 where
  "FieldInBytes = 1"

definition FieldInPkts :: u16 where
  "FieldInPkts = 2"

definition FieldProtocol :: u16 where
  "FieldProtocol = 4"

definition FieldSrcTOS :: u16 where
  "FieldSrcTOS = 5"

definition FieldTCPFlags :: u16 where
  "FieldTCPFlags = 6"

definition FieldL4SrcPort :: u16 where
  "FieldL4SrcPort = 7"

definition FieldIPv4SrcAddr :: u16 where
  "FieldIPv4SrcAddr = 8"

definition FieldSrcMask :: u16 where
  "FieldSrcMask = 9"

definition FieldInputSNMP :: u16 where
  "FieldInputSNMP = 10"

definition FieldL4DstPort :: u16 where
  "FieldL4DstPort = 11"

definition FieldIPv4DstAddr :: u16 where
  "FieldIPv4DstAddr = 12"

definition FieldDstMask :: u16 where
  "FieldDstMask = 13"

definition FieldOutputSNMP :: u16 where
  "FieldOutputSNMP = 14"

definition FieldIPv4NextHop :: u16 where
  "FieldIPv4NextHop = 15"

definition FieldSrcAS :: u16 where
  "FieldSrcAS = 16"

definition FieldDstAS :: u16 where
  "FieldDstAS = 17"

definition FieldLastSwitched :: u16 where
  "FieldLastSwitched = 21"

definition FieldFirstSwitched :: u16 where
  "FieldFirstSwitched = 22"

definition FieldOutBytes :: u16 where
  "FieldOutBytes = 23"

definition FieldOutPkts :: u16 where
  "FieldOutPkts = 24"

definition FieldIPv6SrcAddr :: u16 where
  "FieldIPv6SrcAddr = 27"

definition FieldIPv6DstAddr :: u16 where
  "FieldIPv6DstAddr = 28"

definition FieldSrcVLAN :: u16 where
  "FieldSrcVLAN = 58"

definition FieldDstVLAN :: u16 where
  "FieldDstVLAN = 59"

definition FieldDirection :: u16 where
  "FieldDirection = 61"

definition FieldIPv6NextHop :: u16 where
  "FieldIPv6NextHop = 62"

lemmas field_defs =
  FieldInBytes_def FieldInPkts_def FieldProtocol_def FieldSrcTOS_def FieldTCPFlags_def
  FieldL4SrcPort_def FieldIPv4SrcAddr_def FieldSrcMask_def FieldInputSNMP_def FieldL4DstPort_def
  FieldIPv4DstAddr_def FieldDstMask_def FieldOutputSNMP_def FieldIPv4NextHop_def FieldSrcAS_def
  FieldDstAS_def FieldLastSwitched_def FieldFirstSwitched_def FieldOutBytes_def FieldOutPkts_def
  FieldIPv6SrcAddr_def FieldIPv6DstAddr_def FieldSrcVLAN_def FieldDstVLAN_def FieldDirection_def
  FieldIPv6NextHop_def

definition modelledFields :: "u16 list" where
  "modelledFields = [FieldInBytes, FieldInPkts, FieldProtocol, FieldTCPFlags, FieldL4SrcPort,
     FieldL4DstPort, FieldIPv4SrcAddr, FieldIPv4DstAddr, FieldIPv6SrcAddr, FieldIPv6DstAddr,
     FieldInputSNMP, FieldOutputSNMP, FieldSrcAS, FieldDstAS, FieldFirstSwitched,
     FieldLastSwitched, FieldOutBytes, FieldOutPkts, FieldSrcVLAN, FieldDstVLAN, FieldSrcTOS,
     FieldSrcMask, FieldDstMask, FieldIPv4NextHop, FieldIPv6NextHop]"

end
