(* ===== verification/TemplateCache.thy ===== *)
theory TemplateCache
  imports NetflowTypes "HOL-Library.While_Combinator"
begin

text \<open>
  The NetFlow v9 template cache (\<^verbatim>\<open>internal/flow/netflow/template.go\<close> and the state of \<^verbatim>\<open>Decoder\<close> in
  \<^verbatim>\<open>decode.go\<close>): a map from (exporter, source id, template id) to templates, an LRU list of its
  keys and a running total of cached fields. \<^verbatim>\<open>Decoder.order\<close> is a \<^verbatim>\<open>container/list\<close> whose nodes hold
  the keys; a template's \<^verbatim>\<open>elem\<close> pointer is the node of its own key, so the list of keys, front
  first, stands for both.

  The eviction loops of \<^verbatim>\<open>store\<close> call \<^verbatim>\<open>evictLRU\<close>, which does nothing on an empty cache, so they need
  an argument to end: they are \<open>while_option\<close> here, \<open>None\<close> would be the endless loop, and
  \<open>make_room_spec\<close> shows that under the invariant it never is.
\<close>

section \<open>State\<close>

record templateKey =
  tk_exporter :: addr
  tk_sourceID :: u32
  tk_id :: u16

record templateField =
  tf_typ :: u16
  tf_length :: u16

record template =
  t_fields :: "templateField list"
  t_recLen :: nat

record Decoder =
  d_templates :: "(templateKey, template) gomap"
  d_order :: "templateKey list"
  d_templateFields :: int
  d_stats :: Stats

definition Decoder_New :: Decoder where
  "Decoder_New = \<lparr>d_templates = [], d_order = [], d_templateFields = 0, d_stats = Stats_zero\<rparr>"

definition maxCachedTemplates :: nat where
  "maxCachedTemplates = 4096"

definition maxFieldsPerTemplate :: nat where
  "maxFieldsPerTemplate = 256"

definition maxCachedTemplateFields :: int where
  "maxCachedTemplateFields = 65536"

definition varLenSentinel :: u16 where
  "varLenSentinel = 65535"

definition firstDataFlowsetID :: u16 where
  "firstDataFlowsetID = 256"

lemmas cache_limits = maxCachedTemplates_def maxFieldsPerTemplate_def maxCachedTemplateFields_def

section \<open>Operations\<close>

definition sameShape :: "template \<Rightarrow> template \<Rightarrow> bool" where
  "sameShape t u \<longleftrightarrow> length (t_fields t) = length (t_fields u) \<and>
     list_all2 (=) (t_fields t) (t_fields u)"

definition removeTemplate :: "templateKey \<Rightarrow> bool \<Rightarrow> Decoder \<Rightarrow> Decoder" where
  "removeTemplate k evicted d =
     (case map_of (d_templates d) k of
        None \<Rightarrow> d
      | Some t \<Rightarrow>
          let d1 = d\<lparr>d_order := remove1 k (d_order d),
                     d_templateFields := d_templateFields d - int (length (t_fields t)),
                     d_templates := AList.delete k (d_templates d)\<rparr>
          in if evicted then d_stats_update (st_TemplatesEvicted_update Suc) d1 else d1)"

definition evictLRU :: "Decoder \<Rightarrow> Decoder" where
  "evictLRU d = (if d_order d = [] then d else removeTemplate (last (d_order d)) True d)"

definition moveToFront :: "templateKey \<Rightarrow> Decoder \<Rightarrow> Decoder" where
  "moveToFront k d = d\<lparr>d_order := k # remove1 k (d_order d)\<rparr>"

definition cachePut :: "templateKey \<Rightarrow> template \<Rightarrow> Decoder \<Rightarrow> Decoder" where
  "cachePut k t d = d\<lparr>d_order := k # d_order d,
     d_templates := AList.update k t (d_templates d),
     d_templateFields := d_templateFields d + int (length (t_fields t))\<rparr>"

definition store :: "templateKey \<Rightarrow> template \<Rightarrow> Decoder \<Rightarrow> (Decoder \<times> bool) option" where
  "store k t d =
     (case map_of (d_templates d) k of
        None \<Rightarrow> do {
          d1 \<leftarrow> while_option
                 (\<lambda>d. maxCachedTemplates \<le> length (d_templates d) \<or>
                      maxCachedTemplateFields < d_templateFields d + int (length (t_fields t)))
                 evictLRU d;
          Some (cachePut k t (d_stats_update (st_TemplatesLearned_update Suc) d1), True)
        }
      | Some old \<Rightarrow>
          if sameShape old t then Some (moveToFront k d, False)
          else do {
            d1 \<leftarrow> while_option
                   (\<lambda>d. maxCachedTemplateFields < d_templateFields d + int (length (t_fields t)))
                   evictLRU
                   (removeTemplate k False (d_stats_update (st_TemplatesReplaced_update Suc) d));
            Some (cachePut k t d1, True)
          })"

definition lookup :: "addr \<Rightarrow> u32 \<Rightarrow> u16 \<Rightarrow> Decoder \<Rightarrow> Decoder \<times> template option" where
  "lookup exporter sourceID tid d =
     (let k = \<lparr>tk_exporter = exporter, tk_sourceID = sourceID, tk_id = tid\<rparr> in
      case map_of (d_templates d) k of
        None \<Rightarrow> (d, None)
      | Some t \<Rightarrow> (moveToFront k d, Some t))"

text \<open>The element loop of one template definition, from element \<open>i\<close> on.\<close>

fun readFields :: "u8 list \<Rightarrow> nat \<Rightarrow> nat \<Rightarrow> (nf_error + templateField list) option" where
  "readFields b i 0 = Some (Inr [])"
| "readFields b i (Suc n) = do {
     typ \<leftarrow> Uint16 b (i * 4);
     len \<leftarrow> Uint16 b (i * 4 + 2);
     if len = varLenSentinel then Some (Inl ErrVariableLength)
     else if len = 0 then Some (Inl ErrMalformed)
     else do {
       r \<leftarrow> readFields b (Suc i) n;
       Some (map_sum id (\<lambda>fs. \<lparr>tf_typ = typ, tf_length = len\<rparr> # fs) r)
     }
   }"

definition fieldsWidth :: "templateField list \<Rightarrow> nat" where
  "fieldsWidth fs = (\<Sum>f\<leftarrow>fs. unat (tf_length f))"

definition unknownFields :: "templateField list \<Rightarrow> Unidentified list" where
  "unknownFields fs = map (\<lambda>f. \<lparr>un_Kind = UnidentifiedField, un_Detail = tf_typ f\<rparr>)
     (filter (\<lambda>f. tf_typ f \<notin> set modelledFields) fs)"

function learnLoop ::
  "u8 list \<Rightarrow> addr \<Rightarrow> u32 \<Rightarrow> Unidentified list \<Rightarrow> Decoder
   \<Rightarrow> (Decoder \<times> (nf_error + Unidentified list)) option" where
  "learnLoop b exporter sourceID unknown d =
     (if length b < 4 then Some (d, Inr unknown)
      else do {
        tid \<leftarrow> Uint16 b 0;
        cnt \<leftarrow> Uint16 b 2;
        let count = unat cnt;
        let b1 = drop 4 b;
        if count = 0 then Some (d, Inl ErrMalformed)
        else if maxFieldsPerTemplate < count then Some (d, Inl ErrMalformed)
        else if length b1 < count * 4 then Some (d, Inl ErrMalformed)
        else do {
          r \<leftarrow> readFields b1 0 count;
          case r of
            Inl e \<Rightarrow> Some (d, Inl e)
          | Inr fs \<Rightarrow>
              if tid < firstDataFlowsetID then Some (d, Inl ErrMalformed)
              else do {
                (d1, taken) \<leftarrow> store \<lparr>tk_exporter = exporter, tk_sourceID = sourceID, tk_id = tid\<rparr>
                   \<lparr>t_fields = fs, t_recLen = fieldsWidth fs\<rparr> d;
                let us = (if taken then unknownFields fs else []);
                learnLoop (drop (count * 4) b1) exporter sourceID (unknown @ us)
                  (d_stats_update (st_UnknownFields_update (\<lambda>n. n + length us)) d1)
              }
        }
      })"
  by pat_completeness auto
termination
  by (relation "measure (\<lambda>(b, _). length b)") auto

declare learnLoop.simps [simp del]

definition learnTemplates ::
  "u8 list \<Rightarrow> addr \<Rightarrow> u32 \<Rightarrow> Decoder \<Rightarrow> (Decoder \<times> (nf_error + Unidentified list)) option" where
  "learnTemplates b exporter sourceID d = learnLoop b exporter sourceID [] d"

section \<open>The invariant\<close>

definition template_wf :: "template \<Rightarrow> bool" where
  "template_wf t \<longleftrightarrow> t_fields t \<noteq> [] \<and> length (t_fields t) \<le> maxFieldsPerTemplate \<and>
     (\<forall>f\<in>set (t_fields t). tf_length f \<noteq> 0 \<and> tf_length f \<noteq> varLenSentinel) \<and>
     t_recLen t = fieldsWidth (t_fields t)"

definition fieldCount :: "(templateKey, template) gomap \<Rightarrow> int" where
  "fieldCount m = msum (\<lambda>k t. int (length (t_fields t))) m"

definition cache_inv :: "Decoder \<Rightarrow> bool" where
  "cache_inv d \<longleftrightarrow> gomap_wf (d_templates d) \<and> distinct (d_order d) \<and>
     set (d_order d) = fst ` set (d_templates d) \<and>
     d_templateFields d = fieldCount (d_templates d) \<and>
     length (d_templates d) \<le> maxCachedTemplates \<and>
     d_templateFields d \<le> maxCachedTemplateFields \<and>
     (\<forall>(k, t)\<in>set (d_templates d). template_wf t \<and> firstDataFlowsetID \<le> tk_id k)"

text \<open>What a sequence of evictions may change: it only takes entries away.\<close>

definition cache_le :: "Decoder \<Rightarrow> Decoder \<Rightarrow> bool" where
  "cache_le d' d \<longleftrightarrow> map_of (d_templates d') \<subseteq>\<^sub>m map_of (d_templates d)"

text \<open>The counters the cache operations leave alone.\<close>

definition outcome_counts :: "Stats \<Rightarrow> nat \<times> nat \<times> nat \<times> nat \<times> nat" where
  "outcome_counts st = (st_Datagrams st, st_Records st, st_Malformed st,
     st_UnsupportedVersion st, st_VarLenRejected st)"

lemma fieldCount_delete:
  "gomap_wf m \<Longrightarrow> map_of m k = Some t \<Longrightarrow>
   fieldCount (AList.delete k m) = fieldCount m - int (length (t_fields t))"
  using msum_delete [of m k t "\<lambda>k t. int (length (t_fields t))"] by (simp add: fieldCount_def)

lemma fieldCount_put:
  "map_of m k = None \<Longrightarrow> fieldCount (AList.update k t m) = fieldCount m + int (length (t_fields t))"
  by (simp add: fieldCount_def msum_update_new)

lemma fieldCount_nonneg [simp]: "0 \<le> fieldCount m"
  by (induction m) (auto simp: fieldCount_def)

lemma template_wf_recLen: "template_wf t \<Longrightarrow> 0 < t_recLen t"
  by (cases "t_fields t") (auto simp: template_wf_def fieldsWidth_def unat_gt_0)

lemma sameShape_iff: "sameShape t u \<longleftrightarrow> t_fields t = t_fields u"
  by (auto simp: sameShape_def list.rel_eq)

lemma sameShape_eq: "template_wf t \<Longrightarrow> template_wf u \<Longrightarrow> sameShape t u \<Longrightarrow> t = u"
  by (cases t; cases u) (auto simp: sameShape_iff template_wf_def)

lemma cache_inv_New [simp]: "cache_inv Decoder_New"
  by (simp add: cache_inv_def Decoder_New_def fieldCount_def cache_limits)

lemma cache_inv_stats [simp]: "cache_inv (d_stats_update f d) = cache_inv d"
  by (simp add: cache_inv_def)

lemma cache_inv_template:
  "cache_inv d \<Longrightarrow> map_of (d_templates d) k = Some t \<Longrightarrow> template_wf t \<and> firstDataFlowsetID \<le> tk_id k"
  by (auto simp: cache_inv_def dest!: map_of_SomeD)

lemma cache_le_refl [simp]: "cache_le d d"
  by (simp add: cache_le_def)

lemma cache_le_trans: "cache_le a b \<Longrightarrow> cache_le b c \<Longrightarrow> cache_le a c"
  by (auto simp: cache_le_def intro: map_le_trans)

lemma cache_inv_remove [inv_intros]:
  assumes "cache_inv d"
  shows "cache_inv (removeTemplate k e d)"
proof (cases "map_of (d_templates d) k")
  case None
  with assms show ?thesis by (simp add: removeTemplate_def)
next
  case (Some t)
  let ?m = "d_templates d"
  have wf: "gomap_wf ?m" and sum: "d_templateFields d = fieldCount ?m"
    using assms by (simp_all add: cache_inv_def)
  have "fieldCount (AList.delete k ?m) = d_templateFields d - int (length (t_fields t))"
    by (simp add: fieldCount_delete [OF wf Some] sum)
  moreover have "length (AList.delete k ?m) \<le> length ?m"
    by (rule length_delete_le)
  ultimately show ?thesis using assms Some
    by (auto simp: cache_inv_def removeTemplate_def Let_def fst_set_delete set_delete)
qed

lemma cache_le_remove: "cache_le (removeTemplate k e d) d"
  by (cases "map_of (d_templates d) k")
     (auto simp: cache_le_def removeTemplate_def Let_def map_of_delete_conv map_le_def)

lemma cache_le_length:
  assumes "cache_inv d'" "cache_inv d" "cache_le d' d"
  shows "length (d_templates d') \<le> length (d_templates d)"
proof -
  have "fst ` set (d_templates d') \<subseteq> fst ` set (d_templates d)"
    using map_le_implies_dom_le [of "map_of (d_templates d')" "map_of (d_templates d)"] assms(3)
    by (simp add: cache_le_def dom_map_of_conv_image_fst)
  then have "card (set (map fst (d_templates d'))) \<le> card (set (map fst (d_templates d)))"
    by (intro card_mono) auto
  then show ?thesis
    using assms(1,2) by (simp add: cache_inv_def gomap_wf_def distinct_card del: set_map)
qed

lemma evictLRU_inv [inv_intros]: "cache_inv d \<Longrightarrow> cache_inv (evictLRU d)"
  by (simp add: evictLRU_def cache_inv_remove)

lemma evictLRU_le: "cache_le (evictLRU d) d"
  by (simp add: evictLRU_def cache_le_remove)

lemma evictLRU_shrinks:
  assumes "cache_inv d" "d_templates d \<noteq> []"
  shows "length (d_templates (evictLRU d)) < length (d_templates d)"
proof -
  have keys: "set (d_order d) = fst ` set (d_templates d)"
    using assms(1) by (simp add: cache_inv_def)
  with assms(2) have ne: "d_order d \<noteq> []"
    by auto
  then have mem: "last (d_order d) \<in> fst ` set (d_templates d)"
    using last_in_set keys by blast
  then obtain t where t: "map_of (d_templates d) (last (d_order d)) = Some t"
    using map_of_None_iff [of "d_templates d"] by fastforce
  have "Suc (length (AList.delete (last (d_order d)) (d_templates d))) = length (d_templates d)"
    using assms(1) t by (intro length_delete_wf) (simp_all add: cache_inv_def)
  then show ?thesis using ne t
    by (simp add: evictLRU_def removeTemplate_def Let_def)
qed

lemma outcome_counts_remove [simp]:
  "outcome_counts (d_stats (removeTemplate k e d)) = outcome_counts (d_stats d)"
  by (simp add: removeTemplate_def outcome_counts_def Let_def split: option.split)

lemma outcome_counts_cache [simp]:
  "outcome_counts (st_TemplatesReplaced_update f s) = outcome_counts s"
  "outcome_counts (st_TemplatesLearned_update f s) = outcome_counts s"
  "outcome_counts (st_UnknownFields_update f s) = outcome_counts s"
  by (simp_all add: outcome_counts_def)

lemma outcome_counts_evict [simp]:
  "outcome_counts (d_stats (evictLRU d)) = outcome_counts (d_stats d)"
  by (simp add: evictLRU_def)

text \<open>
  The eviction loop ends, because every pass takes an entry away and an empty cache always has
  room for one template.
\<close>

lemma make_room_spec:
  assumes inv: "cache_inv d"
    and room: "\<And>e. d_templates e = [] \<Longrightarrow> d_templateFields e = 0 \<Longrightarrow> \<not> full e"
  obtains d' where "while_option full evictLRU d = Some d'" "\<not> full d'" "cache_inv d'"
    "cache_le d' d" "outcome_counts (d_stats d') = outcome_counts (d_stats d)"
proof -
  let ?P = "\<lambda>e. cache_inv e \<and> cache_le e d \<and> outcome_counts (d_stats e) = outcome_counts (d_stats d)"
  have keep: "?P (evictLRU e)" if "?P e" for e
    using that evictLRU_inv [of e] cache_le_trans [OF evictLRU_le, of e d] by simp
  have "\<exists>d'. while_option full evictLRU d = Some d'"
  proof (rule measure_while_option_Some [where P = ?P and f = "\<lambda>e. length (d_templates e)"])
    fix e assume e: "?P e" "full e"
    then have "d_templates e \<noteq> []"
      using room [of e] by (auto simp: cache_inv_def fieldCount_def)
    with e keep show "?P (evictLRU e) \<and> length (d_templates (evictLRU e)) < length (d_templates e)"
      by (simp add: evictLRU_shrinks)
  qed (simp add: inv)
  then obtain d' where d': "while_option full evictLRU d = Some d'" by blast
  have "?P d'"
    by (rule while_option_rule [where P = ?P, OF _ d']) (use keep inv in simp_all)
  with d' while_option_stop [OF d'] that show thesis by blast
qed

lemma cachePut_inv:
  assumes "cache_inv d" "map_of (d_templates d) k = None" "template_wf t"
    and "firstDataFlowsetID \<le> tk_id k"
    and "length (d_templates d) < maxCachedTemplates"
    and "d_templateFields d + int (length (t_fields t)) \<le> maxCachedTemplateFields"
  shows "cache_inv (cachePut k t d)"
proof -
  have "k \<notin> fst ` set (d_templates d)"
    using assms(2) by (simp add: map_of_None_iff)
  with assms show ?thesis
    by (auto simp: cache_inv_def cachePut_def fieldCount_put fst_set_update
        dest!: set_mp [OF set_update_subset])
qed

lemma removeTemplate_get:
  "map_of (d_templates (removeTemplate k e d)) = (map_of (d_templates d))(k := None)"
  by (auto simp: removeTemplate_def Let_def map_of_delete_conv split: option.split)

lemma removeTemplate_length:
  assumes "cache_inv d" "map_of (d_templates d) k = Some t"
  shows "Suc (length (d_templates (removeTemplate k e d))) = length (d_templates d)"
  using assms length_delete_wf [of "d_templates d" k t]
  by (simp add: removeTemplate_def Let_def cache_inv_def)

lemma moveToFront_inv [inv_intros]:
  "cache_inv d \<Longrightarrow> map_of (d_templates d) k = Some t \<Longrightarrow> cache_inv (moveToFront k d)"
  by (auto simp: cache_inv_def moveToFront_def set_remove1_eq dest: map_of_SomeD intro: rev_image_eqI)

text \<open>
  What \<^verbatim>\<open>store\<close> promises: it returns, keeps the invariant and the outcome counters, the stored key
  answers with the stored template and is the most recently used, and every other key either
  answers as before or was evicted.
\<close>

definition store_post :: "templateKey \<Rightarrow> template \<Rightarrow> Decoder \<Rightarrow> Decoder \<Rightarrow> bool" where
  "store_post k t d d' \<longleftrightarrow> cache_inv d' \<and> map_of (d_templates d') k = Some t \<and>
     hd (d_order d') = k \<and>
     (\<forall>k'. k' \<noteq> k \<longrightarrow> map_of (d_templates d') k' \<in> {None, map_of (d_templates d) k'}) \<and>
     outcome_counts (d_stats d') = outcome_counts (d_stats d)"

lemma cachePut_post:
  assumes "cache_inv d1" "map_of (d_templates d1) k = None" "template_wf t"
    and "firstDataFlowsetID \<le> tk_id k"
    and "length (d_templates d1) < maxCachedTemplates"
    and "d_templateFields d1 + int (length (t_fields t)) \<le> maxCachedTemplateFields"
    and le: "map_of (d_templates d1) \<subseteq>\<^sub>m map_of (d_templates d)"
    and oc: "outcome_counts (d_stats d1) = outcome_counts (d_stats d)"
  shows "store_post k t d (cachePut k t d1)"
proof -
  have "cache_inv (cachePut k t d1)"
    by (rule cachePut_inv) fact+
  moreover have "map_of (d_templates d1) k' \<in> {None, map_of (d_templates d) k'}" for k'
    using le by (cases "map_of (d_templates d1) k'") (auto simp: map_le_def dom_def)
  ultimately show ?thesis
    using oc by (simp add: store_post_def cachePut_def map_of_update_conv)
qed

lemma store_new:
  assumes inv: "cache_inv d" and t: "template_wf t" and k: "firstDataFlowsetID \<le> tk_id k"
    and new: "map_of (d_templates d) k = None"
  shows "\<exists>d'. store k t d = Some (d', True) \<and> store_post k t d d'"
proof -
  let ?full = "\<lambda>d. maxCachedTemplates \<le> length (d_templates d) \<or>
     maxCachedTemplateFields < d_templateFields d + int (length (t_fields t))"
  obtain d1 where d1: "while_option ?full evictLRU d = Some d1" "\<not> ?full d1" "cache_inv d1"
    "cache_le d1 d" "outcome_counts (d_stats d1) = outcome_counts (d_stats d)"
    by (rule make_room_spec [OF inv, of ?full]) (use t in \<open>auto simp: template_wf_def cache_limits\<close>)
  have none: "map_of (d_templates d1) k = None"
    using d1(4) new by (auto simp: cache_le_def map_le_def dom_def)
  let ?d2 = "d_stats_update (st_TemplatesLearned_update Suc) d1"
  have "store_post k t d (cachePut k t ?d2)"
    using d1 none t k by (intro cachePut_post) (auto simp: cache_le_def)
  then show ?thesis using new d1(1) by (simp add: store_def)
qed

lemma store_replace:
  assumes inv: "cache_inv d" and t: "template_wf t" and k: "firstDataFlowsetID \<le> tk_id k"
    and old: "map_of (d_templates d) k = Some u" and diff: "\<not> sameShape u t"
  shows "\<exists>d'. store k t d = Some (d', True) \<and> store_post k t d d'"
proof -
  let ?full = "\<lambda>d. maxCachedTemplateFields < d_templateFields d + int (length (t_fields t))"
  let ?d0 = "removeTemplate k False (d_stats_update (st_TemplatesReplaced_update Suc) d)"
  have inv0: "cache_inv ?d0"
    using inv by (simp add: cache_inv_remove)
  have len0: "length (d_templates ?d0) < maxCachedTemplates"
    using removeTemplate_length [of "d_stats_update (st_TemplatesReplaced_update Suc) d" k u False]
      inv old by (auto simp: cache_inv_def)
  obtain d1 where d1: "while_option ?full evictLRU ?d0 = Some d1" "\<not> ?full d1" "cache_inv d1"
    "cache_le d1 ?d0" "outcome_counts (d_stats d1) = outcome_counts (d_stats ?d0)"
    by (rule make_room_spec [OF inv0, of ?full])
       (use t in \<open>auto simp: template_wf_def cache_limits\<close>)
  have le: "map_of (d_templates d1) \<subseteq>\<^sub>m (map_of (d_templates d))(k := None)"
    using d1(4) by (simp add: cache_le_def removeTemplate_get)
  have "length (d_templates d1) \<le> length (d_templates ?d0)"
    using cache_le_length [OF d1(3) inv0 d1(4)] .
  moreover have "map_of (d_templates d1) k = None"
    using le by (auto simp: map_le_def dom_def)
  moreover have "map_of (d_templates d1) \<subseteq>\<^sub>m map_of (d_templates d)"
    using le by (rule map_le_trans) (auto simp: map_le_def)
  ultimately have "store_post k t d (cachePut k t d1)"
    using d1 t k len0 by (intro cachePut_post) auto
  then show ?thesis using old diff d1(1) by (simp add: store_def)
qed

lemma store_refresh:
  assumes inv: "cache_inv d" and t: "template_wf t"
    and old: "map_of (d_templates d) k = Some u" and same: "sameShape u t"
  shows "\<exists>d'. store k t d = Some (d', False) \<and> store_post k t d d'"
proof -
  have "u = t"
    using cache_inv_template [OF inv old] t same by (blast intro: sameShape_eq)
  then have "store_post k t d (moveToFront k d)"
    using moveToFront_inv [OF inv old] old by (simp add: store_post_def moveToFront_def)
  with old same show ?thesis by (simp add: store_def)
qed

lemma store_spec:
  assumes "cache_inv d" "template_wf t" "firstDataFlowsetID \<le> tk_id k"
  obtains d' b where "store k t d = Some (d', b)" "store_post k t d d'"
  using store_new [OF assms] store_replace [OF assms] store_refresh [OF assms(1,2)]
  by (cases "map_of (d_templates d) k") blast+

text \<open>Victims are taken from the least recently used end only.\<close>

lemma remove1_last: "distinct xs \<Longrightarrow> xs \<noteq> [] \<Longrightarrow> remove1 (last xs) xs = butlast xs"
  by (induction xs) auto

lemma butlast_take_take: "butlast (take n xs) = take (min n (length xs) - 1) xs"
  by (simp add: butlast_conv_take min.commute)

lemma evictLRU_order:
  assumes "cache_inv d"
  shows "d_order (evictLRU d) = butlast (d_order d)"
proof (cases "d_order d = []")
  case False
  then have "last (d_order d) \<in> fst ` set (d_templates d)"
    using assms last_in_set by (metis cache_inv_def)
  then obtain t where "map_of (d_templates d) (last (d_order d)) = Some t"
    using map_of_None_iff [of "d_templates d"] by fastforce
  with False assms show ?thesis
    by (simp add: evictLRU_def removeTemplate_def Let_def cache_inv_def remove1_last)
qed (simp add: evictLRU_def)

lemma make_room_order:
  assumes "cache_inv d" "while_option full evictLRU d = Some d'"
  shows "\<exists>n. d_order d' = take n (d_order d)"
proof -
  let ?P = "\<lambda>e. cache_inv e \<and> (\<exists>n. d_order e = take n (d_order d))"
  have "?P d'"
    by (rule while_option_rule [where P = ?P, OF _ assms(2)])
       (use assms(1) in \<open>auto simp: evictLRU_inv evictLRU_order butlast_take_take intro: exI [of _ "length (d_order d)"]\<close>)
  then show ?thesis by blast
qed

lemma store_order:
  assumes inv: "cache_inv d" and s: "store k t d = Some (d', b)"
  shows "\<exists>n. d_order d' = k # take n (remove1 k (d_order d))"
proof (cases "map_of (d_templates d) k")
  case None
  then have notin: "k \<notin> set (d_order d)"
    using inv by (simp add: cache_inv_def map_of_None_iff)
  from None s inv show ?thesis
    by (auto simp: store_def cachePut_def bind_eq_Some_conv remove1_idem [OF notin] dest: make_room_order)
next
  case (Some u)
  let ?d0 = "removeTemplate k False (d_stats_update (st_TemplatesReplaced_update Suc) d)"
  have "cache_inv ?d0" "d_order ?d0 = remove1 k (d_order d)"
    using inv Some by (simp add: cache_inv_remove) (simp add: removeTemplate_def Some Let_def)
  with Some s show ?thesis
    using make_room_order [of ?d0]
    by (auto simp: store_def cachePut_def moveToFront_def bind_eq_Some_conv split: if_splits
        intro: exI [of _ "length (remove1 k (d_order d))"])
qed

lemma templateKey_collapse:
  "\<lparr>tk_exporter = tk_exporter k, tk_sourceID = tk_sourceID k, tk_id = tk_id k\<rparr> = k"
  by (cases k) simp

lemma lookup_get: "snd (lookup e i t d) = map_of (d_templates d) \<lparr>tk_exporter = e, tk_sourceID = i, tk_id = t\<rparr>"
  by (simp add: lookup_def Let_def split: option.split)

lemma lookup_templates [simp]: "d_templates (fst (lookup e i t d)) = d_templates d"
  by (simp add: lookup_def Let_def moveToFront_def split: option.split)

lemma lookup_inv [inv_intros]: "cache_inv d \<Longrightarrow> cache_inv (fst (lookup e i t d))"
  by (auto simp: lookup_def Let_def intro: moveToFront_inv split: option.split)

lemma lookup_stats [simp]: "d_stats (fst (lookup e i t d)) = d_stats d"
  by (simp add: lookup_def Let_def moveToFront_def split: option.split)

section \<open>The interface the decoder relies on\<close>

text \<open>
  A bounded store of values under keys. Whatever it evicts, a value it answers with was put
  under exactly that key: no sequence of operations can make one sender's template answer for
  another's. \<open>ok\<close> is what the provider requires of a key and a value.
\<close>

datatype ('k, 'v) cache_op = CPut 'k 'v | CTouch 'k

locale keyed_cache =
  fixes inv :: "'s \<Rightarrow> bool"
    and get :: "'s \<Rightarrow> 'k \<Rightarrow> 'v option"
    and put :: "'k \<Rightarrow> 'v \<Rightarrow> 's \<Rightarrow> ('s \<times> bool) option"
    and touch :: "'k \<Rightarrow> 's \<Rightarrow> 's \<times> 'v option"
    and ok :: "'k \<Rightarrow> 'v \<Rightarrow> bool"
  assumes put_returns: "inv s \<Longrightarrow> ok k v \<Longrightarrow> \<exists>s' b. put k v s = Some (s', b)"
    and put_inv: "inv s \<Longrightarrow> ok k v \<Longrightarrow> put k v s = Some (s', b) \<Longrightarrow> inv s'"
    and put_get: "inv s \<Longrightarrow> ok k v \<Longrightarrow> put k v s = Some (s', b) \<Longrightarrow> get s' k = Some v"
    and put_other: "inv s \<Longrightarrow> ok k v \<Longrightarrow> put k v s = Some (s', b) \<Longrightarrow> k' \<noteq> k \<Longrightarrow>
          get s' k' \<in> {None, get s k'}"
    and touch_get: "snd (touch k s) = get s k"
    and touch_inv: "inv s \<Longrightarrow> inv (fst (touch k s))"
    and touch_same: "get (fst (touch k s)) = get s"
begin

fun op_ok :: "('k, 'v) cache_op \<Rightarrow> bool" where
  "op_ok (CPut k v) = ok k v"
| "op_ok (CTouch k) = True"

fun run :: "('k, 'v) cache_op list \<Rightarrow> 's \<Rightarrow> 's option" where
  "run [] s = Some s"
| "run (CPut k v # ops) s = (case put k v s of None \<Rightarrow> None | Some (s', _) \<Rightarrow> run ops s')"
| "run (CTouch k # ops) s = run ops (fst (touch k s))"

lemma run_returns: "inv s \<Longrightarrow> list_all op_ok ops \<Longrightarrow> \<exists>s'. run ops s = Some s' \<and> inv s'"
proof (induction ops s rule: run.induct)
  case (2 k v ops s)
  then obtain s' b where "put k v s = Some (s', b)"
    using put_returns [of s k v] by auto
  with 2 show ?case by (auto dest: put_inv)
qed (auto intro: touch_inv)

lemma run_origin:
  "inv s \<Longrightarrow> list_all op_ok ops \<Longrightarrow> run ops s = Some s' \<Longrightarrow> get s' k = Some v \<Longrightarrow>
   get s k = Some v \<or> CPut k v \<in> set ops"
proof (induction ops s rule: run.induct)
  case (2 k' v' ops s)
  then obtain s1 b where s1: "put k' v' s = Some (s1, b)" "run ops s1 = Some s'"
    by (auto split: option.splits)
  have "get s1 k = Some v \<or> CPut k v \<in> set ops"
    using "2.IH" [OF s1(1) refl] "2.prems" s1 put_inv [of s k' v' s1 b] by simp
  moreover have "get s k = Some v \<or> CPut k v \<in> set (CPut k' v' # ops)" if "get s1 k = Some v"
    using that put_get [of s k' v' s1 b] put_other [of s k' v' s1 b k] "2.prems" s1(1)
    by (cases "k = k'") auto
  ultimately show ?case by auto
qed (auto simp: touch_inv touch_same)

end

definition template_ok :: "templateKey \<Rightarrow> template \<Rightarrow> bool" where
  "template_ok k t \<longleftrightarrow> template_wf t \<and> firstDataFlowsetID \<le> tk_id k"

definition lookupKey :: "templateKey \<Rightarrow> Decoder \<Rightarrow> Decoder \<times> template option" where
  "lookupKey k d = lookup (tk_exporter k) (tk_sourceID k) (tk_id k) d"

interpretation lru: keyed_cache cache_inv "\<lambda>d. map_of (d_templates d)" store lookupKey template_ok
proof
  fix d d' k k' t b
  assume d: "cache_inv d" and ok: "template_ok k t"
  obtain d1 c where d1: "store k t d = Some (d1, c)" "store_post k t d d1"
    using store_spec [OF d, of t k] ok by (auto simp: template_ok_def)
  then show "\<exists>d' b. store k t d = Some (d', b)" by blast
  assume "store k t d = Some (d', b)"
  with d1 have post: "store_post k t d d'" by simp
  then show "cache_inv d'" "map_of (d_templates d') k = Some t"
    by (simp_all add: store_post_def)
  show "k' \<noteq> k \<Longrightarrow> map_of (d_templates d') k' \<in> {None, map_of (d_templates d) k'}"
    using post by (simp add: store_post_def)
qed (simp_all add: lookupKey_def lookup_get lookup_inv templateKey_collapse)

section \<open>Learning templates\<close>

lemma readFields_spec:
  "(i + n) * 4 \<le> length b \<Longrightarrow> \<exists>r. readFields b i n = Some r \<and>
     (\<forall>fs. r = Inr fs \<longrightarrow> length fs = n \<and>
        (\<forall>f\<in>set fs. tf_length f \<noteq> 0 \<and> tf_length f \<noteq> varLenSentinel))"
proof (induction b i n rule: readFields.induct)
  case (2 b i n)
  let ?len = "be_uint (take 2 (drop (i * 4 + 2) b)) :: u16"
  show ?case
  proof (cases "?len = varLenSentinel \<or> ?len = 0")
    case True
    with "2.prems" show ?thesis by auto
  next
    case False
    have "\<exists>r. readFields b (Suc i) n = Some r \<and> (\<forall>fs. r = Inr fs \<longrightarrow> length fs = n \<and>
        (\<forall>f\<in>set fs. tf_length f \<noteq> 0 \<and> tf_length f \<noteq> varLenSentinel))"
      using "2.prems" False by (intro "2.IH") (auto simp: Uint16_def split: if_splits)
    then obtain r where "readFields b (Suc i) n = Some r" "\<forall>fs. r = Inr fs \<longrightarrow> length fs = n \<and>
        (\<forall>f\<in>set fs. tf_length f \<noteq> 0 \<and> tf_length f \<noteq> varLenSentinel)"
      by blast
    with False "2.prems" show ?thesis by (cases r) auto
  qed
qed simp

text \<open>
  Learning touches only templates of the sender it is called for: a key of any other exporter or
  observation domain answers as before or was evicted.
\<close>

definition foreign_kept :: "addr \<Rightarrow> u32 \<Rightarrow> Decoder \<Rightarrow> Decoder \<Rightarrow> bool" where
  "foreign_kept exporter sourceID d d' \<longleftrightarrow>
     (\<forall>k. (tk_exporter k, tk_sourceID k) \<noteq> (exporter, sourceID) \<longrightarrow>
        map_of (d_templates d') k \<in> {None, map_of (d_templates d) k})"

definition learn_post :: "addr \<Rightarrow> u32 \<Rightarrow> Decoder \<Rightarrow> Decoder \<Rightarrow> bool" where
  "learn_post exporter sourceID d d' \<longleftrightarrow> cache_inv d' \<and>
     outcome_counts (d_stats d') = outcome_counts (d_stats d) \<and> foreign_kept exporter sourceID d d'"

lemma foreign_kept_refl [simp]: "foreign_kept e i d d"
  by (simp add: foreign_kept_def)

lemma foreign_kept_trans:
  "foreign_kept e i a b \<Longrightarrow> foreign_kept e i b c \<Longrightarrow> foreign_kept e i a c"
  by (fastforce simp: foreign_kept_def)

lemma foreign_kept_cong:
  "d_templates a = d_templates d \<Longrightarrow> d_templates b = d_templates d' \<Longrightarrow>
   foreign_kept e i a b = foreign_kept e i d d'"
  by (simp add: foreign_kept_def)

lemma learn_post_refl: "cache_inv d \<Longrightarrow> learn_post e i d d"
  by (simp add: learn_post_def)

lemma learn_post_trans: "learn_post e i a b \<Longrightarrow> learn_post e i b c \<Longrightarrow> learn_post e i a c"
  by (auto simp: learn_post_def intro: foreign_kept_trans)

lemma learn_post_store:
  assumes "store_post \<lparr>tk_exporter = e, tk_sourceID = i, tk_id = t\<rparr> tm d d'"
  shows "learn_post e i d (d_stats_update (st_UnknownFields_update f) d')"
proof -
  have "k \<noteq> \<lparr>tk_exporter = e, tk_sourceID = i, tk_id = t\<rparr>"
    if "(tk_exporter k, tk_sourceID k) \<noteq> (e, i)" for k
    using that by (cases k) auto
  with assms show ?thesis
    by (simp add: store_post_def learn_post_def foreign_kept_def)
qed

lemma learned_template_wf:
  assumes "length fs = unat n" "n \<noteq> 0" "unat n \<le> maxFieldsPerTemplate"
    and "\<forall>f\<in>set fs. tf_length f \<noteq> 0 \<and> tf_length f \<noteq> varLenSentinel"
  shows "template_wf \<lparr>t_fields = fs, t_recLen = fieldsWidth fs\<rparr>"
  using assms by (auto simp: template_wf_def unat_eq_0)

lemma learnLoop_spec:
  "cache_inv d \<Longrightarrow> \<exists>d' r. learnLoop b e i us d = Some (d', r) \<and> learn_post e i d d'"
proof (induction b e i us d rule: learnLoop.induct)
  case (1 b e i us d)
  let ?tid = "be_uint (take 2 b) :: u16" and ?cnt = "be_uint (take 2 (drop 2 b)) :: u16"
  let ?n = "unat ?cnt" and ?b1 = "drop 4 b"
  show ?case
  proof (cases "length b < 4 \<or> ?n = 0 \<or> maxFieldsPerTemplate < ?n \<or> length ?b1 < ?n * 4")
    case True
    then show ?thesis
      using "1.prems" by (subst learnLoop.simps) (auto simp: Let_def learn_post_refl)
  next
    case False
    then obtain r where r: "readFields ?b1 0 ?n = Some r" "\<And>fs. r = Inr fs \<Longrightarrow> length fs = ?n \<and>
        (\<forall>f\<in>set fs. tf_length f \<noteq> 0 \<and> tf_length f \<noteq> varLenSentinel)"
      using readFields_spec [of 0 ?n ?b1] by auto
    show ?thesis
    proof (cases "\<exists>fs. r = Inr fs \<and> firstDataFlowsetID \<le> ?tid")
      case bad: False
      with False r "1.prems" show ?thesis
        by (cases r; subst learnLoop.simps) (auto simp: Let_def learn_post_refl)
    next
      case True
      then obtain fs where fs: "r = Inr fs" "firstDataFlowsetID \<le> ?tid" by blast
      let ?k = "\<lparr>tk_exporter = e, tk_sourceID = i, tk_id = ?tid\<rparr>"
      let ?t = "\<lparr>t_fields = fs, t_recLen = fieldsWidth fs\<rparr>"
      have "template_wf ?t"
        using r(2) [OF fs(1)] False by (intro learned_template_wf [of _ ?cnt]) auto
      then obtain d1 taken where s: "store ?k ?t d = Some (d1, taken)" "store_post ?k ?t d d1"
        using store_spec [OF "1.prems", of ?t ?k] fs(2) by auto
      let ?us = "if taken then unknownFields fs else []"
      let ?d2 = "d_stats_update (st_UnknownFields_update (\<lambda>n. n + length ?us)) d1"
      have post: "learn_post e i d ?d2"
        using s(2) by (rule learn_post_store)
      then have "cache_inv ?d2" by (simp add: learn_post_def)
      then obtain d' q where d': "learnLoop (drop (?n * 4) ?b1) e i (us @ ?us) ?d2 = Some (d', q)"
        "learn_post e i ?d2 d'"
        using "1.IH" [of ?tid ?cnt ?n ?b1 r fs "(d1, taken)" d1 taken ?us] False r(1) fs s(1)
        by (auto simp: not_less)
      have "learnLoop b e i us d = learnLoop (drop (?n * 4) ?b1) e i (us @ ?us) ?d2"
        using False r(1) fs s(1) by (subst learnLoop.simps) (auto simp: Let_def not_less)
      with d' post show ?thesis by (auto intro: learn_post_trans)
    qed
  qed
qed

lemma learnTemplates_spec:
  assumes "cache_inv d"
  obtains d' r where "learnTemplates b e i d = Some (d', r)" "learn_post e i d d'"
  using learnLoop_spec [OF assms, of b e i "[]"] by (auto simp: learnTemplates_def)

section \<open>Properties\<close>

text \<open>
  Storing a well-formed template into a well-formed cache always returns: the cache keeps its
  bounds (at most 4096 templates and 65536 fields) and its key, order and field-count
  bookkeeping, and the stored key answers with the stored template. Its recency order is the new
  key followed by a prefix of the old order, so victims come from the least recently used end
  only, and every other key answers as before or not at all.
\<close>

theorem store_keeps_lru:
  assumes "cache_inv d" and "template_wf t" and "firstDataFlowsetID \<le> tk_id k"
  shows "\<exists>d' b n. store k t d = Some (d', b) \<and> cache_inv d' \<and>
     map_of (d_templates d') k = Some t \<and> d_order d' = k # take n (remove1 k (d_order d)) \<and>
     (\<forall>k'. k' \<noteq> k \<longrightarrow> map_of (d_templates d') k' \<in> {None, map_of (d_templates d) k'})"
proof -
  obtain d' b where "store k t d = Some (d', b)" "store_post k t d d'"
    using store_spec [OF assms] .
  with store_order [OF assms(1)] show ?thesis by (fastforce simp: store_post_def)
qed

theorem store_keeps_lru_witness:
  defines "k \<equiv> \<lparr>tk_exporter = AddrV4 1, tk_sourceID = 0, tk_id = 256\<rparr>"
    and "t \<equiv> \<lparr>t_fields = [\<lparr>tf_typ = 1, tf_length = 4\<rparr>], t_recLen = 4\<rparr>"
  shows "cache_inv Decoder_New \<and> template_wf t \<and>
     (\<exists>d' b n. store k t Decoder_New = Some (d', b) \<and> cache_inv d' \<and> map_of (d_templates d') k = Some t)"
proof -
  have "template_wf t"
    by (simp add: t_def template_wf_def maxFieldsPerTemplate_def varLenSentinel_def fieldsWidth_def)
  moreover have "firstDataFlowsetID \<le> tk_id k" by (simp add: k_def firstDataFlowsetID_def)
  ultimately show ?thesis
    using store_keeps_lru [of Decoder_New t k] by auto
qed

end
