(* ===== verification/NetflowDecode.thy ===== *)
theory NetflowDecode
  imports TemplateCache
begin

text \<open>
  The NetFlow decoder (\<^verbatim>\<open>internal/flow/netflow/decode.go\<close>): \<^verbatim>\<open>Decode\<close> and everything below it. The
  mutex of \<^verbatim>\<open>Decoder\<close> covers a whole decode, so a call is a function from the decoder state to the
  new state and the result. The result is \<open>None\<close> when the Go code would panic on a slice bound or
  loop forever, \<open>Some (d, Inl e)\<close> when it returns the error \<open>e\<close> and \<open>Some (d, Inr dg)\<close> when it
  returns the datagram \<open>dg\<close>.
\<close>

section \<open>Scalars\<close>

definition maxIntWidth :: nat where
  "maxIntWidth = 8"

definition v9HeaderLen :: nat where
  "v9HeaderLen = 20"

definition v5HeaderLen :: nat where
  "v5HeaderLen = 24"

definition v5RecordLen :: nat where
  "v5RecordLen = 48"

definition maxRecordsPerDatagram :: nat where
  "maxRecordsPerDatagram = 4096"

definition flowsetTemplate :: u16 where
  "flowsetTemplate = 0"

definition flowsetOptionsTemplate :: u16 where
  "flowsetOptionsTemplate = 1"

lemmas wire_lens = v9HeaderLen_def v5HeaderLen_def v5RecordLen_def

definition num :: "u8 list \<Rightarrow> u64" where
  "num b = (if maxIntWidth < length b then 0
            else foldl (\<lambda>v x. push_bit 8 v OR ucast x) 0 b)"

definition addrOf :: "u8 list \<Rightarrow> addr option" where
  "addrOf b = map_option addr_Unmap (AddrFromSlice b)"

definition switchedAt :: "time \<Rightarrow> u32 \<Rightarrow> u32 \<Rightarrow> time" where
  "switchedAt exportTime sysUpTime switched =
     (if sysUpTime \<le> switched then exportTime
      else exportTime - uint (sysUpTime - switched) * millisecond_ns)"

definition exportTimeOf :: "u32 \<Rightarrow> u32 \<Rightarrow> time \<Rightarrow> time" where
  "exportTimeOf secs nsecs now = (if secs = 0 then now else time_Unix (uint secs) (uint nsecs))"

section \<open>One v9 record\<close>

text \<open>The local variables of \<^verbatim>\<open>readRecord\<close>.\<close>

record readState =
  rs_rec :: NFRecord
  rs_first :: u32
  rs_last :: u32
  rs_haveFirst :: bool
  rs_haveLast :: bool
  rs_outUnexpected :: bool
  rs_srcASUnexpected :: bool
  rs_dstASUnexpected :: bool

definition readState_zero :: readState where
  "readState_zero = \<lparr>rs_rec = NFRecord_zero, rs_first = 0, rs_last = 0, rs_haveFirst = False,
     rs_haveLast = False, rs_outUnexpected = False, rs_srcASUnexpected = False,
     rs_dstASUnexpected = False\<rparr>"

text \<open>The \<^verbatim>\<open>switch f.typ\<close> of the element loop.\<close>

definition readField :: "u16 \<Rightarrow> u8 list \<Rightarrow> readState \<Rightarrow> readState" where
  "readField typ v s =
     (if typ = FieldInBytes then s\<lparr>rs_rec := (rs_rec s)\<lparr>nf_Bytes := num v\<rparr>\<rparr>
      else if typ = FieldInPkts then s\<lparr>rs_rec := (rs_rec s)\<lparr>nf_Packets := num v\<rparr>\<rparr>
      else if typ = FieldProtocol then s\<lparr>rs_rec := (rs_rec s)\<lparr>nf_Proto := ucast (num v)\<rparr>\<rparr>
      else if typ = FieldTCPFlags then s\<lparr>rs_rec := (rs_rec s)\<lparr>nf_TCPFlags := ucast (num v)\<rparr>\<rparr>
      else if typ = FieldL4SrcPort then s\<lparr>rs_rec := (rs_rec s)\<lparr>nf_SrcPort := ucast (num v)\<rparr>\<rparr>
      else if typ = FieldL4DstPort then s\<lparr>rs_rec := (rs_rec s)\<lparr>nf_DstPort := ucast (num v)\<rparr>\<rparr>
      else if typ = FieldIPv4SrcAddr \<or> typ = FieldIPv6SrcAddr then
        (case addrOf v of Some a \<Rightarrow> s\<lparr>rs_rec := (rs_rec s)\<lparr>nf_SrcAddr := a\<rparr>\<rparr> | None \<Rightarrow> s)
      else if typ = FieldIPv4DstAddr \<or> typ = FieldIPv6DstAddr then
        (case addrOf v of Some a \<Rightarrow> s\<lparr>rs_rec := (rs_rec s)\<lparr>nf_DstAddr := a\<rparr>\<rparr> | None \<Rightarrow> s)
      else if typ = FieldInputSNMP then s\<lparr>rs_rec := (rs_rec s)\<lparr>nf_InIfIndex := ucast (num v)\<rparr>\<rparr>
      else if typ = FieldOutputSNMP then s\<lparr>rs_rec := (rs_rec s)\<lparr>nf_OutIfIndex := ucast (num v)\<rparr>\<rparr>
      else if typ = FieldSrcAS \<or> typ = FieldDstAS then
        (if num v \<noteq> 0 then
           (if typ = FieldSrcAS then s\<lparr>rs_srcASUnexpected := True\<rparr>
            else s\<lparr>rs_dstASUnexpected := True\<rparr>)
         else s)
      else if typ = FieldFirstSwitched then s\<lparr>rs_first := ucast (num v), rs_haveFirst := True\<rparr>
      else if typ = FieldLastSwitched then s\<lparr>rs_last := ucast (num v), rs_haveLast := True\<rparr>
      else if typ = FieldOutBytes \<or> typ = FieldOutPkts then
        (if num v \<noteq> 0 then s\<lparr>rs_outUnexpected := True\<rparr> else s)
      else if typ = FieldSrcTOS then
        (let b = (ucast (num v) :: u8) in
         s\<lparr>rs_rec := (rs_rec s)\<lparr>nf_DSCP := drop_bit 2 b, nf_ECN := b AND 3\<rparr>\<rparr>)
      else if typ = FieldSrcMask then s\<lparr>rs_rec := (rs_rec s)\<lparr>nf_SrcMask := ucast (num v)\<rparr>\<rparr>
      else if typ = FieldDstMask then s\<lparr>rs_rec := (rs_rec s)\<lparr>nf_DstMask := ucast (num v)\<rparr>\<rparr>
      else if typ = FieldIPv4NextHop \<or> typ = FieldIPv6NextHop then
        (case addrOf v of
           Some a \<Rightarrow> if \<not> addr_IsUnspecified a then s\<lparr>rs_rec := (rs_rec s)\<lparr>nf_NextHop := a\<rparr>\<rparr> else s
         | None \<Rightarrow> s)
      else if typ = FieldSrcVLAN \<or> typ = FieldDstVLAN then
        (if typ = FieldSrcVLAN \<or> nf_VLANID (rs_rec s) = 0
         then s\<lparr>rs_rec := (rs_rec s)\<lparr>nf_VLANID := ucast (num v)\<rparr>\<rparr> else s)
      else s)"

text \<open>The element loop, at offset \<open>off\<close> of the record.\<close>

fun readElements :: "u8 list \<Rightarrow> nat \<Rightarrow> templateField list \<Rightarrow> readState \<Rightarrow> readState option" where
  "readElements buf off [] s = Some s"
| "readElements buf off (f # fs) s = do {
     v \<leftarrow> slice off (off + unat (tf_length f)) buf;
     readElements buf (off + unat (tf_length f)) fs (readField (tf_typ f) v s)
   }"

definition bump :: "bool \<Rightarrow> nat \<Rightarrow> nat" where
  "bump b n = (if b then Suc n else n)"

definition readRecord ::
  "u8 list \<Rightarrow> template \<Rightarrow> time \<Rightarrow> u32 \<Rightarrow> Decoder \<Rightarrow> (Decoder \<times> NFRecord) option" where
  "readRecord buf t exportTime sysUpTime d = do {
     s \<leftarrow> readElements buf 0 (t_fields t) readState_zero;
     let d1 = d_stats_update (\<lambda>st. st\<lparr>
           st_UnexpectedOutBytes := bump (rs_outUnexpected s) (st_UnexpectedOutBytes st),
           st_UnexpectedSrcAS := bump (rs_srcASUnexpected s) (st_UnexpectedSrcAS st),
           st_UnexpectedDstAS := bump (rs_dstASUnexpected s) (st_UnexpectedDstAS st)\<rparr>) d;
     let r1 = (if rs_haveFirst s
               then (rs_rec s)\<lparr>nf_First := switchedAt exportTime sysUpTime (rs_first s)\<rparr>
               else rs_rec s);
     let r2 = (if rs_haveLast s
               then r1\<lparr>nf_Last := switchedAt exportTime sysUpTime (rs_last s)\<rparr> else r1);
     Some (d1, r2)
   }"

section \<open>Flowsets\<close>

text \<open>
  The record loop of \<^verbatim>\<open>readDataFlowset\<close>. With a record length of zero it would never leave its
  condition: that is \<open>None\<close>.
\<close>

partial_function (option) dataLoop ::
  "template \<Rightarrow> u16 \<Rightarrow> u32 \<Rightarrow> u8 list \<Rightarrow> Datagram \<Rightarrow> Decoder \<Rightarrow> (Decoder \<times> Datagram) option" where
  "dataLoop t fid sysUpTime fs dg d =
     (if length fs < t_recLen t then Some (d, dg)
      else do {
        buf \<leftarrow> slice 0 (t_recLen t) fs;
        (d1, rec) \<leftarrow> readRecord buf t (dg_ExportTime dg) sysUpTime d;
        dataLoop t fid sysUpTime (drop (t_recLen t) fs)
          (dg\<lparr>dg_Records := dg_Records dg @ [rec\<lparr>nf_TemplateID := fid\<rparr>]\<rparr>) d1
      })"

definition readDataFlowset ::
  "Datagram \<Rightarrow> u8 list \<Rightarrow> addr \<Rightarrow> u16 \<Rightarrow> u32 \<Rightarrow> Decoder
   \<Rightarrow> (Decoder \<times> (nf_error + Datagram)) option" where
  "readDataFlowset dg fs exporter fid sysUpTime d =
     (case lookup exporter (dg_SourceID dg) fid d of
        (d1, None) \<Rightarrow> Some (d_stats_update (st_NoTemplate_update Suc) d1, Inr dg)
      | (d1, Some t) \<Rightarrow>
          if t_recLen t \<le> 0 then Some (d_stats_update (st_Malformed_update Suc) d1, Inr dg)
          else if maxRecordsPerDatagram < length (dg_Records dg) + length fs div t_recLen t
          then Some (d1, Inl ErrMalformed)
          else do {
            (d2, dg2) \<leftarrow> dataLoop t fid sysUpTime fs dg d1;
            Some (d2, Inr dg2)
          })"

definition countMalformed :: "Decoder \<Rightarrow> Decoder" where
  "countMalformed d = d_stats_update (st_Malformed_update Suc) d"

text \<open>The flowset loop of \<^verbatim>\<open>decodeV9\<close>.\<close>

function flowsetLoop ::
  "u8 list \<Rightarrow> addr \<Rightarrow> u32 \<Rightarrow> Datagram \<Rightarrow> Decoder \<Rightarrow> (Decoder \<times> (nf_error + Datagram)) option" where
  "flowsetLoop body exporter sysUpTime dg d =
     (if length body < 4 then Some (d, Inr dg)
      else do {
        fid \<leftarrow> Uint16 body 0;
        len \<leftarrow> Uint16 body 2;
        let l = unat len;
        if l < 4 \<or> length body < l then Some (countMalformed d, Inl ErrMalformed)
        else do {
          fs \<leftarrow> slice 4 l body;
          if fid = flowsetTemplate then do {
            (d1, r) \<leftarrow> learnTemplates fs exporter (dg_SourceID dg) d;
            case r of
              Inl e \<Rightarrow>
                if e = ErrVariableLength
                then Some (d_stats_update (st_VarLenRejected_update Suc) d1, Inl e)
                else Some (countMalformed d1, Inl e)
            | Inr unknown \<Rightarrow>
                flowsetLoop (drop l body) exporter sysUpTime (fold dg_note unknown dg) d1
          }
          else if fid = flowsetOptionsTemplate then
            flowsetLoop (drop l body) exporter sysUpTime
              (dg_note \<lparr>un_Kind = UnidentifiedOptions, un_Detail = fid\<rparr> dg)
              (d_stats_update (st_OptionsTemplates_update Suc) d)
          else if fid < firstDataFlowsetID then
            flowsetLoop (drop l body) exporter sysUpTime
              (dg_note \<lparr>un_Kind = UnidentifiedFlowset, un_Detail = fid\<rparr> dg)
              (d_stats_update (st_UnknownFlowsets_update Suc) d)
          else do {
            (d1, r) \<leftarrow> readDataFlowset dg fs exporter fid sysUpTime d;
            case r of
              Inl e \<Rightarrow> Some (countMalformed d1, Inl e)
            | Inr dg1 \<Rightarrow> flowsetLoop (drop l body) exporter sysUpTime dg1 d1
          }
        }
      })"
  by pat_completeness auto
termination
  by (relation "measure (\<lambda>(b, _). length b)") auto

declare flowsetLoop.simps [simp del]

definition countDatagram :: "Datagram \<Rightarrow> Decoder \<Rightarrow> Decoder" where
  "countDatagram dg d = d_stats_update (\<lambda>st. st\<lparr>st_Datagrams := Suc (st_Datagrams st),
     st_Records := st_Records st + length (dg_Records dg)\<rparr>) d"

definition decodeV9 ::
  "u8 list \<Rightarrow> addr \<Rightarrow> time \<Rightarrow> Decoder \<Rightarrow> (Decoder \<times> (nf_error + Datagram)) option" where
  "decodeV9 payload exporter now d =
     (if length payload < v9HeaderLen then Some (countMalformed d, Inl ErrShortPacket)
      else do {
        sysUpTime \<leftarrow> Uint32 payload 4;
        sequence \<leftarrow> Uint32 payload 12;
        sourceID \<leftarrow> Uint32 payload 16;
        secs \<leftarrow> Uint32 payload 8;
        let dg = \<lparr>dg_Version = V9, dg_SourceID = sourceID, dg_Sequence = sequence,
                  dg_ExportTime = exportTimeOf secs 0 now, dg_Records = [], dg_Unidentified = []\<rparr>;
        (d1, r) \<leftarrow> flowsetLoop (drop v9HeaderLen payload) exporter sysUpTime dg d;
        case r of
          Inl e \<Rightarrow> Some (d1, Inl e)
        | Inr dg1 \<Rightarrow> Some (countDatagram dg1 d1, Inr dg1)
      })"

section \<open>Version 5\<close>

definition readV5Record :: "u8 list \<Rightarrow> time \<Rightarrow> u32 \<Rightarrow> NFRecord option" where
  "readV5Record r exportTime sysUpTime = do {
     inIf \<leftarrow> Uint16 r 12;
     outIf \<leftarrow> Uint16 r 14;
     packets \<leftarrow> Uint32 r 16;
     bytes \<leftarrow> Uint32 r 20;
     srcPort \<leftarrow> Uint16 r 32;
     dstPort \<leftarrow> Uint16 r 34;
     tcpFlags \<leftarrow> index 37 r;
     proto \<leftarrow> index 38 r;
     first \<leftarrow> Uint32 r 24;
     last \<leftarrow> Uint32 r 28;
     src \<leftarrow> slice 0 4 r;
     dst \<leftarrow> slice 4 8 r;
     let rec = NFRecord_zero\<lparr>nf_InIfIndex := ucast inIf, nf_OutIfIndex := ucast outIf,
                 nf_Packets := ucast packets, nf_Bytes := ucast bytes,
                 nf_SrcPort := srcPort, nf_DstPort := dstPort,
                 nf_TCPFlags := tcpFlags, nf_Proto := proto,
                 nf_First := switchedAt exportTime sysUpTime first,
                 nf_Last := switchedAt exportTime sysUpTime last\<rparr>;
     let rec = (case addrOf src of Some a \<Rightarrow> rec\<lparr>nf_SrcAddr := a\<rparr> | None \<Rightarrow> rec);
     Some (case addrOf dst of Some a \<Rightarrow> rec\<lparr>nf_DstAddr := a\<rparr> | None \<Rightarrow> rec)
   }"

text \<open>The record loop of \<^verbatim>\<open>decodeV5\<close>, from record \<open>i\<close> with \<open>n\<close> records to go.\<close>

fun v5Loop :: "u8 list \<Rightarrow> time \<Rightarrow> u32 \<Rightarrow> nat \<Rightarrow> nat \<Rightarrow> NFRecord list option" where
  "v5Loop body exportTime sysUpTime i 0 = Some []"
| "v5Loop body exportTime sysUpTime i (Suc n) = do {
     r \<leftarrow> slice (i * v5RecordLen) ((i + 1) * v5RecordLen) body;
     rec \<leftarrow> readV5Record r exportTime sysUpTime;
     rs \<leftarrow> v5Loop body exportTime sysUpTime (Suc i) n;
     Some (rec # rs)
   }"

definition decodeV5 :: "u8 list \<Rightarrow> time \<Rightarrow> Decoder \<Rightarrow> (Decoder \<times> (nf_error + Datagram)) option" where
  "decodeV5 payload now d =
     (if length payload < v5HeaderLen then Some (countMalformed d, Inl ErrShortPacket)
      else do {
        cnt \<leftarrow> Uint16 payload 2;
        sysUpTime \<leftarrow> Uint32 payload 4;
        sequence \<leftarrow> Uint32 payload 16;
        secs \<leftarrow> Uint32 payload 8;
        nsecs \<leftarrow> Uint32 payload 12;
        let exportTime = exportTimeOf secs nsecs now;
        let body = drop v5HeaderLen payload;
        let count = unat cnt;
        if length body < count * v5RecordLen then Some (countMalformed d, Inl ErrMalformed)
        else do {
          recs \<leftarrow> v5Loop body exportTime sysUpTime 0 count;
          let dg = \<lparr>dg_Version = V5, dg_SourceID = 0, dg_Sequence = sequence,
                    dg_ExportTime = exportTime, dg_Records = recs, dg_Unidentified = []\<rparr>;
          Some (countDatagram dg d, Inr dg)
        }
      })"

definition Decode ::
  "u8 list \<Rightarrow> addr \<Rightarrow> time \<Rightarrow> Decoder \<Rightarrow> (Decoder \<times> (nf_error + Datagram)) option" where
  "Decode payload exporter now d =
     (if length payload < 2 then Some (countMalformed d, Inl ErrShortPacket)
      else do {
        version \<leftarrow> Uint16 payload 0;
        if version = 9 then decodeV9 payload exporter now d
        else if version = 5 then decodeV5 payload now d
        else Some (d_stats_update (st_UnsupportedVersion_update Suc) d, Inl ErrUnsupportedVersion)
      })"

text \<open>A sequence of datagrams through one decoder, with the results in order.\<close>

fun decodeAll ::
  "(u8 list \<times> addr \<times> time) list \<Rightarrow> Decoder \<Rightarrow> (Decoder \<times> (nf_error + Datagram) list) option" where
  "decodeAll [] d = Some (d, [])"
| "decodeAll ((payload, exporter, now) # ps) d = do {
     (d1, r) \<leftarrow> Decode payload exporter now d;
     (d2, rs) \<leftarrow> decodeAll ps d1;
     Some (d2, r # rs)
   }"

section \<open>The element loop stays inside its record\<close>

lemma readElements_returns:
  "off + fieldsWidth fs \<le> length buf \<Longrightarrow> \<exists>s'. readElements buf off fs s = Some s'"
  by (induction buf off fs s rule: readElements.induct) (auto simp: fieldsWidth_def)

lemma outcome_counts_decode [simp]:
  "outcome_counts (st_NoTemplate_update f s) = outcome_counts s"
  "outcome_counts (st_OptionsTemplates_update f s) = outcome_counts s"
  "outcome_counts (st_UnknownFlowsets_update f s) = outcome_counts s"
  "outcome_counts (st_UnexpectedOutBytes_update f s) = outcome_counts s"
  "outcome_counts (st_UnexpectedSrcAS_update f s) = outcome_counts s"
  "outcome_counts (st_UnexpectedDstAS_update f s) = outcome_counts s"
  by (simp_all add: outcome_counts_def)

text \<open>Reading records changes neither the cache nor the outcome counters.\<close>

definition same_cache :: "Decoder \<Rightarrow> Decoder \<Rightarrow> bool" where
  "same_cache d d' \<longleftrightarrow> d_templates d' = d_templates d \<and> d_order d' = d_order d \<and>
     d_templateFields d' = d_templateFields d \<and>
     outcome_counts (d_stats d') = outcome_counts (d_stats d)"

lemma same_cache_refl [simp]: "same_cache d d"
  by (simp add: same_cache_def)

lemma same_cache_trans: "same_cache a b \<Longrightarrow> same_cache b c \<Longrightarrow> same_cache a c"
  by (simp add: same_cache_def)

lemma same_cache_inv: "same_cache d d' \<Longrightarrow> cache_inv d' = cache_inv d"
  by (simp add: same_cache_def cache_inv_def)

lemma readRecord_spec:
  assumes "template_wf t" "length buf = t_recLen t"
  obtains d' r where "readRecord buf t et up d = Some (d', r)" "same_cache d d'"
proof -
  obtain s where "readElements buf 0 (t_fields t) readState_zero = Some s"
    using readElements_returns [of 0 "t_fields t" buf] assms by (auto simp: template_wf_def)
  with that show thesis
    by (simp add: readRecord_def Let_def same_cache_def)
qed

text \<open>
  The record loop takes exactly as many records off a flowset as fit, whatever the padding
  behind the last one, and touches nothing else of the datagram.
\<close>

lemma dataLoop_spec:
  assumes "template_wf t"
  shows "\<exists>d' rs. dataLoop t fid up b dg d = Some (d', dg\<lparr>dg_Records := dg_Records dg @ rs\<rparr>) \<and>
     length rs = length b div t_recLen t \<and> (\<forall>r\<in>set rs. nf_TemplateID r = fid) \<and> same_cache d d'"
proof (induction "length b" arbitrary: b dg d rule: less_induct)
  case less
  have pos: "0 < t_recLen t" using assms by (rule template_wf_recLen)
  show ?case
  proof (cases "length b < t_recLen t")
    case True
    then show ?thesis by (subst dataLoop.simps) (auto intro: exI [of _ "[]"])
  next
    case False
    let ?buf = "take (t_recLen t) b" and ?rest = "drop (t_recLen t) b"
    obtain d1 r where r: "readRecord ?buf t (dg_ExportTime dg) up d = Some (d1, r)"
      "same_cache d d1"
      using readRecord_spec [OF assms, of ?buf "dg_ExportTime dg" up d] False by auto
    have shorter: "length ?rest < length b" using False pos by auto
    let ?r = "r\<lparr>nf_TemplateID := fid\<rparr>" and ?dg = "dg\<lparr>dg_Records := dg_Records dg @ [r\<lparr>nf_TemplateID := fid\<rparr>]\<rparr>"
    obtain d' rs where IH: "dataLoop t fid up ?rest ?dg d1
        = Some (d', ?dg\<lparr>dg_Records := dg_Records ?dg @ rs\<rparr>)" "length rs = length ?rest div t_recLen t"
      "\<forall>r\<in>set rs. nf_TemplateID r = fid" "same_cache d1 d'"
      using less [OF shorter, of ?dg d1] by blast
    have "dataLoop t fid up b dg d = Some (d', dg\<lparr>dg_Records := dg_Records dg @ (?r # rs)\<rparr>)"
      using False r(1) IH(1) by (subst dataLoop.simps) simp
    moreover have "length (?r # rs) = length b div t_recLen t"
      using False pos IH(2) by (simp add: le_div_geq not_less)
    ultimately show ?thesis
      using IH(3,4) r(2) same_cache_trans by (intro exI [of _ d'] exI [of _ "?r # rs"]) auto
  qed
qed

section \<open>Every datagram has an answer\<close>

text \<open>Each call of \<^verbatim>\<open>Decode\<close> is counted under exactly one outcome, and a decoded datagram by its records.\<close>

fun outcome_add :: "nf_error + Datagram \<Rightarrow> nat \<times> nat \<times> nat \<times> nat \<times> nat \<Rightarrow> nat \<times> nat \<times> nat \<times> nat \<times> nat" where
  "outcome_add (Inr dg) (g, r, m, u, v) = (Suc g, r + length (dg_Records dg), m, u, v)"
| "outcome_add (Inl ErrUnsupportedVersion) (g, r, m, u, v) = (g, r, m, Suc u, v)"
| "outcome_add (Inl ErrVariableLength) (g, r, m, u, v) = (g, r, m, u, Suc v)"
| "outcome_add (Inl _) (g, r, m, u, v) = (g, r, Suc m, u, v)"

definition datagram_ok :: "Datagram \<Rightarrow> bool" where
  "datagram_ok dg \<longleftrightarrow> unidentified_ok dg \<and> length (dg_Records dg) \<le> maxRecordsPerDatagram"

text \<open>What the flowset loop promises of its result, relative to the state it started in.\<close>

definition loop_post :: "addr \<Rightarrow> u32 \<Rightarrow> Decoder \<Rightarrow> Decoder \<times> (nf_error + Datagram) \<Rightarrow> bool" where
  "loop_post e i d p \<longleftrightarrow> (case p of (d', r) \<Rightarrow> cache_inv d' \<and> foreign_kept e i d d' \<and>
     (case r of
        Inl err \<Rightarrow> err \<noteq> ErrUnsupportedVersion \<and>
          outcome_counts (d_stats d') = outcome_add (Inl err) (outcome_counts (d_stats d))
      | Inr dg \<Rightarrow> datagram_ok dg \<and> dg_SourceID dg = i \<and> dg_Version dg = V9 \<and>
          outcome_counts (d_stats d') = outcome_counts (d_stats d)))"

lemma loop_post_step:
  assumes "learn_post e i d d1" "loop_post e i d1 p"
  shows "loop_post e i d p"
  using assms foreign_kept_trans [of e i d d1]
  by (auto simp: loop_post_def learn_post_def split: sum.splits)

lemma learn_post_same_cache:
  assumes "cache_inv d" "same_cache d d'"
  shows "learn_post e i d d'"
  using assms same_cache_inv [of d d'] by (simp add: learn_post_def same_cache_def foreign_kept_def)

lemma countMalformed_post:
  assumes "learn_post e i d d1" "err \<in> {ErrMalformed, ErrShortPacket}"
  shows "loop_post e i d (countMalformed d1, Inl err)"
  using assms by (auto simp: loop_post_def learn_post_def countMalformed_def outcome_counts_def
      foreign_kept_def)

lemma varLen_post:
  assumes "learn_post e i d d1"
  shows "loop_post e i d (d_stats_update (st_VarLenRejected_update Suc) d1, Inl ErrVariableLength)"
  using assms by (auto simp: loop_post_def learn_post_def outcome_counts_def foreign_kept_def)

text \<open>\<^verbatim>\<open>learnTemplates\<close> and \<^verbatim>\<open>readDataFlowset\<close> report only the errors their callers expect.\<close>

lemma readFields_err: "readFields b i n = Some (Inl e) \<Longrightarrow> e \<in> {ErrMalformed, ErrVariableLength}"
  by (induction b i n rule: readFields.induct)
     (auto split: if_splits bind_splits simp: map_sum_def split: sum.splits)

lemma learnLoop_err:
  "learnLoop b e i us d = Some (d', Inl err) \<Longrightarrow> err \<in> {ErrMalformed, ErrVariableLength}"
proof (induction b e i us d rule: learnLoop.induct)
  case (1 b e i us d)
  from "1.prems" show ?case
    by (subst (asm) learnLoop.simps)
       (force split: if_splits bind_splits sum.splits prod.splits simp: Let_def
          dest: readFields_err "1.IH")
qed

lemma learnTemplates_err:
  "learnTemplates b e i d = Some (d', Inl err) \<Longrightarrow> err \<in> {ErrMalformed, ErrVariableLength}"
  by (auto simp: learnTemplates_def dest: learnLoop_err)

lemma readDataFlowset_spec:
  assumes inv: "cache_inv d" and dg: "datagram_ok dg" "dg_Version dg = V9"
  obtains d' r where "readDataFlowset dg b e fid up d = Some (d', r)"
    "learn_post e (dg_SourceID dg) d d'"
    "case r of Inl err \<Rightarrow> err = ErrMalformed
       | Inr dg' \<Rightarrow> datagram_ok dg' \<and> dg_SourceID dg' = dg_SourceID dg \<and> dg_Version dg' = V9"
proof -
  let ?l = "lookup e (dg_SourceID dg) fid d"
  let ?k = "\<lparr>tk_exporter = e, tk_sourceID = dg_SourceID dg, tk_id = fid\<rparr>"
  have post: "learn_post e (dg_SourceID dg) d (fst ?l)"
    using lookup_inv [OF inv] by (simp add: learn_post_def foreign_kept_def)
  show thesis
  proof (cases "snd ?l")
    case None
    then show thesis using post dg that
      by (cases ?l) (simp add: readDataFlowset_def learn_post_def foreign_kept_def)
  next
    case (Some t)
    then have t: "template_wf t"
      using cache_inv_template [OF inv, of ?k t] by (simp add: lookup_get)
    have pos: "0 < t_recLen t" using t by (rule template_wf_recLen)
    show thesis
    proof (cases "maxRecordsPerDatagram < length (dg_Records dg) + length b div t_recLen t")
      case True
      then show thesis using Some pos post dg that by (cases ?l) (simp add: readDataFlowset_def)
    next
      case False
      obtain d' rs where d': "dataLoop t fid up b dg (fst ?l)
          = Some (d', dg\<lparr>dg_Records := dg_Records dg @ rs\<rparr>)"
        "length rs = length b div t_recLen t" "same_cache (fst ?l) d'"
        using dataLoop_spec [OF t] by blast
      have "cache_inv (fst ?l)" using post by (simp add: learn_post_def)
      then have "learn_post e (dg_SourceID dg) d d'"
        using post d'(3) learn_post_trans learn_post_same_cache by blast
      then show thesis using Some pos False d' dg that
        by (cases ?l) (simp add: readDataFlowset_def datagram_ok_def unidentified_ok_def)
    qed
  qed
qed

text \<open>One pass of the flowset loop over a well-delimited flowset.\<close>

lemma flowsetLoop_pass:
  assumes "4 \<le> length body" "fid = be_uint (take 2 body)"
    and "l = unat (be_uint (take 2 (drop 2 body)) :: u16)" "4 \<le> l" "l \<le> length body"
    and "fs = take (l - 4) (drop 4 body)"
  shows "flowsetLoop body e up dg d =
     (if fid = flowsetTemplate then do {
        (d1, r) \<leftarrow> learnTemplates fs e (dg_SourceID dg) d;
        case r of
          Inl err \<Rightarrow> if err = ErrVariableLength
             then Some (d_stats_update (st_VarLenRejected_update Suc) d1, Inl err)
             else Some (countMalformed d1, Inl err)
        | Inr us \<Rightarrow> flowsetLoop (drop l body) e up (fold dg_note us dg) d1
      }
      else if fid = flowsetOptionsTemplate then
        flowsetLoop (drop l body) e up
          (dg_note \<lparr>un_Kind = UnidentifiedOptions, un_Detail = fid\<rparr> dg)
          (d_stats_update (st_OptionsTemplates_update Suc) d)
      else if fid < firstDataFlowsetID then
        flowsetLoop (drop l body) e up
          (dg_note \<lparr>un_Kind = UnidentifiedFlowset, un_Detail = fid\<rparr> dg)
          (d_stats_update (st_UnknownFlowsets_update Suc) d)
      else do {
        (d1, r) \<leftarrow> readDataFlowset dg fs e fid up d;
        case r of
          Inl err \<Rightarrow> Some (countMalformed d1, Inl err)
        | Inr dg1 \<Rightarrow> flowsetLoop (drop l body) e up dg1 d1
      })"
  using assms by (subst flowsetLoop.simps) (simp add: Let_def)

definition flow_returns ::
  "addr \<Rightarrow> u32 \<Rightarrow> Decoder \<Rightarrow> (Decoder \<times> (nf_error + Datagram)) option \<Rightarrow> bool" where
  "flow_returns e i d X \<longleftrightarrow> (\<exists>p. X = Some p \<and> loop_post e i d p)"

lemma flow_returns_step: "learn_post e i d d1 \<Longrightarrow> flow_returns e i d1 X \<Longrightarrow> flow_returns e i d X"
  using loop_post_step by (auto simp: flow_returns_def)

lemma flow_returns_err:
  assumes "learn_post e i d d1"
  shows "err \<in> {ErrMalformed, ErrShortPacket} \<Longrightarrow> flow_returns e i d (Some (countMalformed d1, Inl err))"
    and "flow_returns e i d
           (Some (d_stats_update (st_VarLenRejected_update Suc) d1, Inl ErrVariableLength))"
  using assms by (simp_all only: flow_returns_def) (blast intro: countMalformed_post varLen_post)+

lemma flowsetLoop_stop:
  assumes "cache_inv d" "datagram_ok dg" "dg_Version dg = V9"
    and "length body < 4 \<or> unat (be_uint (take 2 (drop 2 body)) :: u16) < 4 \<or>
         length body < unat (be_uint (take 2 (drop 2 body)) :: u16)"
  shows "flow_returns e (dg_SourceID dg) d (flowsetLoop body e up dg d)"
proof (cases "length body < 4")
  case True
  then have "flowsetLoop body e up dg d = Some (d, Inr dg)" by (subst flowsetLoop.simps) simp
  with assms(1-3) show ?thesis by (simp add: flow_returns_def loop_post_def)
next
  case False
  with assms(4) have "flowsetLoop body e up dg d = Some (countMalformed d, Inl ErrMalformed)"
    by (subst flowsetLoop.simps) (simp add: Let_def)
  with assms(1) show ?thesis by (simp add: flow_returns_err(1) learn_post_refl)
qed

lemma flowsetLoop_spec:
  "cache_inv d \<Longrightarrow> datagram_ok dg \<Longrightarrow> dg_Version dg = V9 \<Longrightarrow>
   flow_returns e (dg_SourceID dg) d (flowsetLoop body e up dg d)"
proof (induction "length body" arbitrary: body dg d rule: less_induct)
  case less
  define fid where "fid = (be_uint (take 2 body) :: u16)"
  define l where "l = unat (be_uint (take 2 (drop 2 body)) :: u16)"
  define fs where "fs = take (l - 4) (drop 4 body)"
  let ?i = "dg_SourceID dg"
  show ?case
  proof (cases "length body < 4 \<or> l < 4 \<or> length body < l")
    case True
    then show ?thesis using less.prems by (intro flowsetLoop_stop) (simp_all add: l_def)
  next
    case False
    then have shorter: "length (drop l body) < length body" by auto
    have go_on: "flow_returns e ?i d (flowsetLoop (drop l body) e up dg' d')"
      if "learn_post e ?i d d'" "datagram_ok dg'" "dg_Version dg' = V9" "dg_SourceID dg' = ?i" for dg' d'
      using less.hyps [OF shorter, of d' dg'] that by (auto simp: learn_post_def intro: flow_returns_step)
    have keep: "learn_post e ?i d (d_stats_update f d)"
      if "outcome_counts (f (d_stats d)) = outcome_counts (d_stats d)" for f
      using that less.prems(1) by (simp add: learn_post_def foreign_kept_def)
    obtain d1 r where l1: "learnTemplates fs e ?i d = Some (d1, r)" "learn_post e ?i d d1"
      using learnTemplates_spec [OF less.prems(1)] by blast
    obtain d2 q where l2: "readDataFlowset dg fs e fid up d = Some (d2, q)" "learn_post e ?i d d2"
      "case q of Inl err \<Rightarrow> err = ErrMalformed
       | Inr dg' \<Rightarrow> datagram_ok dg' \<and> dg_SourceID dg' = ?i \<and> dg_Version dg' = V9"
      using readDataFlowset_spec [OF less.prems] by blast
    have noted: "datagram_ok (dg_note u dg)" "datagram_ok (fold dg_note us dg)" for u us
      using less.prems(2) by (simp_all add: datagram_ok_def note_ok fold_note_ok)
    have tmpl: "flow_returns e ?i d (case r of
          Inl err \<Rightarrow> if err = ErrVariableLength
             then Some (d_stats_update (st_VarLenRejected_update Suc) d1, Inl err)
             else Some (countMalformed d1, Inl err)
        | Inr us \<Rightarrow> flowsetLoop (drop l body) e up (fold dg_note us dg) d1)"
      using learnTemplates_err [of fs e ?i d d1] l1 noted less.prems(3)
      by (auto simp: flow_returns_err split: sum.split intro: go_on)
    have data: "flow_returns e ?i d (case q of
          Inl err \<Rightarrow> Some (countMalformed d2, Inl err)
        | Inr dg1 \<Rightarrow> flowsetLoop (drop l body) e up dg1 d2)"
      using l2(2,3) by (auto simp: flow_returns_err intro: go_on split: sum.splits)
    have ctl: "flow_returns e ?i d (flowsetLoop (drop l body) e up (dg_note u dg) (d_stats_update f d))"
      if "outcome_counts (f (d_stats d)) = outcome_counts (d_stats d)" for f u
      using that less.prems(3) by (simp add: go_on keep noted)
    show ?thesis
      using False tmpl data
      by (subst flowsetLoop_pass [OF _ fid_def l_def _ _ fs_def]) (simp_all add: l1(1) l2(1) ctl)
  qed
qed

section \<open>The decoder as a whole\<close>

definition exporter_kept :: "addr \<Rightarrow> Decoder \<Rightarrow> Decoder \<Rightarrow> bool" where
  "exporter_kept exporter d d' \<longleftrightarrow> (\<forall>k. tk_exporter k \<noteq> exporter \<longrightarrow>
     map_of (d_templates d') k \<in> {None, map_of (d_templates d) k})"

text \<open>The records a datagram of \<open>n\<close> bytes may carry: the cap of version 9, the payload for version 5.\<close>

definition records_bounded :: "nat \<Rightarrow> Datagram \<Rightarrow> bool" where
  "records_bounded n dg \<longleftrightarrow> (case dg_Version dg of
       V9 \<Rightarrow> length (dg_Records dg) \<le> maxRecordsPerDatagram
     | V5 \<Rightarrow> v5HeaderLen + v5RecordLen * length (dg_Records dg) \<le> n)"

definition decode_post ::
  "u8 list \<Rightarrow> addr \<Rightarrow> Decoder \<Rightarrow> Decoder \<times> (nf_error + Datagram) \<Rightarrow> bool" where
  "decode_post payload e d p \<longleftrightarrow> (case p of (d', r) \<Rightarrow> cache_inv d' \<and> exporter_kept e d d' \<and>
     outcome_counts (d_stats d') = outcome_add r (outcome_counts (d_stats d)) \<and>
     (case r of Inl _ \<Rightarrow> True
        | Inr dg \<Rightarrow> unidentified_ok dg \<and> records_bounded (length payload) dg))"

lemma exporter_kept_foreign: "foreign_kept e i d d' \<Longrightarrow> exporter_kept e d d'"
  by (simp add: foreign_kept_def exporter_kept_def)

lemma exporter_kept_count [simp]: "exporter_kept e d (countDatagram dg d') = exporter_kept e d d'"
  by (simp add: exporter_kept_def countDatagram_def)

lemma exporter_kept_refl [simp]:
  "exporter_kept e d (d_stats_update f d)"
  "exporter_kept e d (countMalformed d)" "exporter_kept e d d"
  by (simp_all add: exporter_kept_def countMalformed_def)

lemma countMalformed_simps [simp]:
  "cache_inv (countMalformed d) = cache_inv d" "cache_inv (countDatagram dg d) = cache_inv d"
  "d_templates (countDatagram dg d) = d_templates d"
  "outcome_counts (d_stats (countMalformed d)) = outcome_add (Inl ErrMalformed) (outcome_counts (d_stats d))"
  "outcome_counts (d_stats (countDatagram dg d)) = outcome_add (Inr dg) (outcome_counts (d_stats d))"
  by (simp_all add: countMalformed_def countDatagram_def outcome_counts_def)

lemma outcome_add_short [simp]: "outcome_add (Inl ErrShortPacket) = outcome_add (Inl ErrMalformed)"
  by (rule ext) (auto simp: split_paired_all)

lemma decodeV9_spec:
  assumes "cache_inv d"
  shows "\<exists>p. decodeV9 b e now d = Some p \<and> decode_post b e d p"
proof (cases "length b < v9HeaderLen")
  case True
  with assms show ?thesis by (simp add: decodeV9_def decode_post_def)
next
  case False
  let ?dg = "\<lparr>dg_Version = V9, dg_SourceID = be_uint (take 4 (drop 16 b)),
    dg_Sequence = be_uint (take 4 (drop 12 b)),
    dg_ExportTime = exportTimeOf (be_uint (take 4 (drop 8 b))) 0 now, dg_Records = [], dg_Unidentified = []\<rparr>"
  let ?up = "be_uint (take 4 (drop 4 b)) :: u32"
  obtain d1 r where f: "flowsetLoop (drop v9HeaderLen b) e ?up ?dg d = Some (d1, r)"
    "loop_post e (dg_SourceID ?dg) d (d1, r)"
    using flowsetLoop_spec [OF assms, of ?dg e "drop v9HeaderLen b" ?up]
    by (auto simp: flow_returns_def datagram_ok_def unidentified_ok_def)
  then show ?thesis
    using False
    by (cases r) (auto simp: decodeV9_def v9HeaderLen_def Let_def loop_post_def decode_post_def
        datagram_ok_def records_bounded_def intro: exporter_kept_foreign)
qed

lemma readV5Record_returns: "length r = v5RecordLen \<Longrightarrow> \<exists>rec. readV5Record r et up = Some rec"
  by (simp add: readV5Record_def wire_lens Let_def)

lemma v5Loop_returns:
  "(i + n) * v5RecordLen \<le> length b \<Longrightarrow> \<exists>rs. v5Loop b et up i n = Some rs \<and> length rs = n"
proof (induction n arbitrary: i)
  case (Suc n)
  let ?r = "take v5RecordLen (drop (i * v5RecordLen) b)"
  have "length ?r = v5RecordLen" using Suc.prems by (simp add: wire_lens)
  then obtain rec where "readV5Record ?r et up = Some rec" using readV5Record_returns by blast
  moreover obtain rs where "v5Loop b et up (Suc i) n = Some rs" "length rs = n"
    using Suc.IH [of "Suc i"] Suc.prems by auto
  ultimately show ?case using Suc.prems by (simp add: algebra_simps)
qed simp

lemma decodeV5_spec:
  assumes "cache_inv d"
  shows "\<exists>p. decodeV5 b now d = Some p \<and> decode_post b e d p"
proof (cases "length b < v5HeaderLen \<or>
    length b - v5HeaderLen < unat (be_uint (take 2 (drop 2 b)) :: u16) * v5RecordLen")
  case True
  with assms show ?thesis
    by (auto simp: decodeV5_def decode_post_def Let_def v5HeaderLen_def)
next
  case False
  let ?n = "unat (be_uint (take 2 (drop 2 b)) :: u16)"
  let ?et = "exportTimeOf (be_uint (take 4 (drop 8 b))) (be_uint (take 4 (drop 12 b))) now"
  obtain rs where "v5Loop (drop v5HeaderLen b) ?et (be_uint (take 4 (drop 4 b))) 0 ?n = Some rs"
    "length rs = ?n"
    using v5Loop_returns [of 0 ?n "drop v5HeaderLen b" ?et] False by auto
  with False assms show ?thesis
    by (auto simp: decodeV5_def decode_post_def Let_def wire_lens unidentified_ok_def records_bounded_def)
qed

lemma Decode_spec:
  assumes "cache_inv d"
  shows "\<exists>p. Decode b e now d = Some p \<and> decode_post b e d p"
proof -
  have short: "decode_post b e d (countMalformed d, Inl ErrShortPacket)"
    using assms by (simp add: decode_post_def)
  have unsup: "decode_post b e d
      (d_stats_update (st_UnsupportedVersion_update Suc) d, Inl ErrUnsupportedVersion)"
    using assms by (simp add: decode_post_def outcome_counts_def)
  show ?thesis
    using decodeV9_spec [OF assms, of b e now] decodeV5_spec [OF assms, of b now e] short unsup
    by (simp add: Decode_def)
qed

lemma decodeAll_spec:
  "cache_inv d \<Longrightarrow> \<exists>d' rs. decodeAll ps d = Some (d', rs) \<and> cache_inv d' \<and> length rs = length ps \<and>
     outcome_counts (d_stats d') = fold outcome_add rs (outcome_counts (d_stats d))"
proof (induction ps arbitrary: d)
  case (Cons p ps)
  obtain b e now where p: "p = (b, e, now)" by (cases p)
  obtain d1 r where d1: "Decode b e now d = Some (d1, r)" "decode_post b e d (d1, r)"
    using Decode_spec [OF Cons.prems] by (metis surj_pair)
  then show ?case
    using Cons.IH [of d1] p by (auto simp: decode_post_def)
qed simp

section \<open>Round trips\<close>

lemma be_uint_snoc: "be_uint (bs @ [x]) = (push_bit 8 (be_uint bs) OR ucast x :: 'a::len word)"
  by (simp add: be_uint_def)

lemma be_uint_be_bytes_take: "be_uint (be_bytes n w) = (take_bit (8 * n) w :: 'a::len word)"
proof (induction n w rule: be_bytes.induct)
  case (1 w)
  then show ?case by (simp add: be_uint_def)
next
  case (2 n w)
  have "push_bit 8 (take_bit (8 * n) (drop_bit 8 w)) OR ucast (ucast w :: u8) = take_bit (8 * Suc n) w"
    by (rule bit_eqI) (auto simp: bit_simps)
  with 2 show ?case by (simp add: be_uint_snoc)
qed

lemma be_uint_be_bytes [simp]:
  "LENGTH('a::len) \<le> 8 * n \<Longrightarrow> be_uint (be_bytes n w) = (w :: 'a word)"
  unfolding be_uint_be_bytes_take by (rule bit_eqI) (auto simp: bit_simps dest: bit_imp_le_length)

lemma num_be_bytes:
  assumes "n \<le> maxIntWidth"
  shows "num (be_bytes n (w :: u64)) = take_bit (8 * n) w"
  using assms be_uint_be_bytes_take [of n w] by (simp add: num_def be_uint_def)

subsection \<open>Version 5\<close>

text \<open>A version 5 datagram as the sender lays it out, and the record each entry stands for.\<close>

record V5Wire =
  vw_src :: u32
  vw_dst :: u32
  vw_inIf :: u16
  vw_outIf :: u16
  vw_packets :: u32
  vw_bytes :: u32
  vw_first :: u32
  vw_last :: u32
  vw_srcPort :: u16
  vw_dstPort :: u16
  vw_flags :: u8
  vw_proto :: u8

definition encodeV5Record :: "V5Wire \<Rightarrow> u8 list" where
  "encodeV5Record w = be_bytes 4 (vw_src w) @ be_bytes 4 (vw_dst w) @ replicate 4 0 @
     be_bytes 2 (vw_inIf w) @ be_bytes 2 (vw_outIf w) @ be_bytes 4 (vw_packets w) @
     be_bytes 4 (vw_bytes w) @ be_bytes 4 (vw_first w) @ be_bytes 4 (vw_last w) @
     be_bytes 2 (vw_srcPort w) @ be_bytes 2 (vw_dstPort w) @ [0, vw_flags w, vw_proto w, 0] @
     replicate 8 0"

definition encodeV5 :: "u32 \<Rightarrow> u32 \<Rightarrow> u32 \<Rightarrow> u32 \<Rightarrow> V5Wire list \<Rightarrow> u8 list" where
  "encodeV5 up secs nsecs sequence ws =
     be_bytes 2 (5 :: u16) @ be_bytes 2 (of_nat (length ws) :: u16) @ be_bytes 4 up @
     be_bytes 4 secs @ be_bytes 4 nsecs @ be_bytes 4 sequence @ replicate 4 0 @
     concat (map encodeV5Record ws)"

definition v5Record :: "time \<Rightarrow> u32 \<Rightarrow> V5Wire \<Rightarrow> NFRecord" where
  "v5Record et up w = NFRecord_zero\<lparr>nf_SrcAddr := AddrV4 (vw_src w), nf_DstAddr := AddrV4 (vw_dst w),
     nf_InIfIndex := ucast (vw_inIf w), nf_OutIfIndex := ucast (vw_outIf w),
     nf_Packets := ucast (vw_packets w), nf_Bytes := ucast (vw_bytes w),
     nf_SrcPort := vw_srcPort w, nf_DstPort := vw_dstPort w, nf_TCPFlags := vw_flags w,
     nf_Proto := vw_proto w, nf_First := switchedAt et up (vw_first w),
     nf_Last := switchedAt et up (vw_last w)\<rparr>"

lemma length_encodeV5Record [simp]: "length (encodeV5Record w) = v5RecordLen"
  by (simp add: encodeV5Record_def v5RecordLen_def)

lemma length_concat_encodeV5 [simp]:
  "length (concat (map encodeV5Record ws)) = length ws * v5RecordLen"
  by (induction ws) auto

lemma readV5Record_encode: "readV5Record (encodeV5Record w) et up = Some (v5Record et up w)"
  by (simp add: readV5Record_def encodeV5Record_def v5Record_def addrOf_def AddrFromSlice_def
      NFRecord_zero_def nth_append)

lemma v5Loop_encode:
  "v5Loop (concat (map encodeV5Record (us @ ws)) @ junk) et up (length us) (length ws)
     = Some (map (v5Record et up) ws)"
proof (induction ws arbitrary: us)
  case (Cons w ws)
  have "slice (length us * v5RecordLen) ((length us + 1) * v5RecordLen)
      (concat (map encodeV5Record (us @ w # ws)) @ junk) = Some (encodeV5Record w)"
    by (simp add: slice_def)
  with Cons.IH [of "us @ [w]"] show ?case by (simp add: readV5Record_encode)
qed simp

lemma decodeV5_encode:
  assumes "length ws < 2 ^ 16"
  shows "Decode (encodeV5 up secs nsecs sequence ws @ junk) e now d =
     (let et = exportTimeOf secs nsecs now;
          dg = \<lparr>dg_Version = V5, dg_SourceID = 0, dg_Sequence = sequence, dg_ExportTime = et,
                dg_Records = map (v5Record et up) ws, dg_Unidentified = []\<rparr>
      in Some (countDatagram dg d, Inr dg))"
proof -
  have n: "unat (of_nat (length ws) :: u16) = length ws"
    using assms by (simp add: unat_of_nat take_bit_nat_eq_self)
  show ?thesis
    using n v5Loop_encode [of "[]" ws junk "exportTimeOf secs nsecs now" up]
    by (simp add: Decode_def decodeV5_def encodeV5_def wire_lens Let_def)
qed

subsection \<open>Version 9 templates and records\<close>

definition encodeTemplate :: "u16 \<Rightarrow> templateField list \<Rightarrow> u8 list" where
  "encodeTemplate tid fs = be_bytes 2 tid @ be_bytes 2 (of_nat (length fs) :: u16) @
     concat (map (\<lambda>f. be_bytes 2 (tf_typ f) @ be_bytes 2 (tf_length f)) fs)"

lemma length_encodeFields [simp]:
  "length (concat (map (\<lambda>f. be_bytes 2 (tf_typ f) @ be_bytes 2 (tf_length f)) fs)) = length fs * 4"
  by (induction fs) auto

lemma readFields_encode:
  "\<forall>f\<in>set fs. tf_length f \<noteq> 0 \<and> tf_length f \<noteq> varLenSentinel \<Longrightarrow>
   readFields (concat (map (\<lambda>f. be_bytes 2 (tf_typ f) @ be_bytes 2 (tf_length f)) (us @ fs)) @ junk)
     (length us) (length fs) = Some (Inr fs)"
proof (induction fs arbitrary: us)
  case (Cons f fs)
  let ?b = "concat (map (\<lambda>f. be_bytes 2 (tf_typ f) @ be_bytes 2 (tf_length f)) (us @ f # fs)) @ junk"
  have "Uint16 ?b (length us * 4) = Some (tf_typ f)" "Uint16 ?b (length us * 4 + 2) = Some (tf_length f)"
    by (simp_all add: Uint16_def)
  with Cons.prems Cons.IH [of "us @ [f]"] show ?case by simp
qed simp

text \<open>
  A record laid out by its template: every element is read from exactly its own bytes, at
  whatever widths the template declares.
\<close>

lemma readElements_append:
  "list_all2 (\<lambda>f v. length v = unat (tf_length f)) fs vs \<Longrightarrow>
   readElements (pre @ concat vs @ junk) (length pre) fs s
     = Some (fold (\<lambda>(f, v). readField (tf_typ f) v) (zip fs vs) s)"
proof (induction fs vs arbitrary: pre s rule: list_all2_induct)
  case (Cons f fs v vs)
  have "slice (length pre) (length pre + unat (tf_length f)) (pre @ concat (v # vs) @ junk) = Some v"
    using Cons.hyps by (simp add: slice_def)
  with Cons.IH [of "pre @ v"] Cons.hyps show ?case by simp
qed simp

lemma learnTemplates_encode:
  assumes inv: "cache_inv d" and t: "template_wf \<lparr>t_fields = fs, t_recLen = fieldsWidth fs\<rparr>"
    and tid: "firstDataFlowsetID \<le> tid" and pad: "length pad < 4"
  shows "\<exists>d' us. learnTemplates (encodeTemplate tid fs @ pad) e i d = Some (d', Inr us) \<and>
     store_post \<lparr>tk_exporter = e, tk_sourceID = i, tk_id = tid\<rparr>
       \<lparr>t_fields = fs, t_recLen = fieldsWidth fs\<rparr> d d' \<and> set us \<subseteq> set (unknownFields fs)"
proof -
  let ?k = "\<lparr>tk_exporter = e, tk_sourceID = i, tk_id = tid\<rparr>"
  let ?t = "\<lparr>t_fields = fs, t_recLen = fieldsWidth fs\<rparr>"
  let ?enc = "concat (map (\<lambda>f. be_bytes 2 (tf_typ f) @ be_bytes 2 (tf_length f)) fs)"
  let ?b = "encodeTemplate tid fs @ pad"
  have fs: "fs \<noteq> []" "length fs \<le> maxFieldsPerTemplate"
    "\<forall>f\<in>set fs. tf_length f \<noteq> 0 \<and> tf_length f \<noteq> varLenSentinel"
    using t by (simp_all add: template_wf_def)
  have n: "unat (of_nat (length fs) :: u16) = length fs"
    using fs(2) by (simp add: unat_of_nat take_bit_nat_eq_self maxFieldsPerTemplate_def)
  obtain d1 b where s: "store ?k ?t d = Some (d1, b)" "store_post ?k ?t d d1"
    using store_spec [OF inv t, of ?k] tid by auto
  let ?us = "if b then unknownFields fs else []"
  let ?d2 = "d_stats_update (st_UnknownFields_update (\<lambda>n. n + length ?us)) d1"
  have "learnLoop ?b e i [] d = learnLoop pad e i ?us ?d2"
    using fs n readFields_encode [of fs "[]" pad] tid s(1)
    by (subst learnLoop.simps) (auto simp: encodeTemplate_def Let_def not_less)
  also have "\<dots> = Some (?d2, Inr ?us)"
    using pad by (subst learnLoop.simps) simp
  finally show ?thesis
    using s(2) by (auto simp: learnTemplates_def store_post_def)
qed

section \<open>Where cached templates come from\<close>

text \<open>
  The wire's own grammar of announcements: a template definition among the definitions of a template flowset,
  and a flowset among the flowsets of a version 9 datagram with its source id.
\<close>

inductive hasTemplate :: "u16 \<Rightarrow> templateField list \<Rightarrow> u8 list \<Rightarrow> bool" for tid fs where
  ht_here: "hasTemplate tid fs (encodeTemplate tid fs @ rest)"
| ht_later: "hasTemplate tid fs rest \<Longrightarrow> hasTemplate tid fs (encodeTemplate tid' fs' @ rest)"

inductive hasFlowset :: "u16 \<Rightarrow> u8 list \<Rightarrow> u8 list \<Rightarrow> bool" for fid c where
  hf_here: "length c + 4 < 65536 \<Longrightarrow> hasFlowset fid c (be_bytes 2 fid @ be_bytes 2 (of_nat (length c + 4) :: u16) @ c @ rest)"
| hf_later: "length c' + 4 < 65536 \<Longrightarrow> hasFlowset fid c rest \<Longrightarrow>
    hasFlowset fid c (be_bytes 2 (fid' :: u16) @ be_bytes 2 (of_nat (length c' + 4) :: u16) @ c' @ rest)"

definition announces :: "u8 list \<Rightarrow> templateKey \<Rightarrow> template \<Rightarrow> bool" where
  "announces b k t \<longleftrightarrow> Uint16 b 0 = Some 9 \<and> Uint32 b 16 = Some (tk_sourceID k) \<and>
     (\<exists>c. hasFlowset flowsetTemplate c (drop v9HeaderLen b) \<and> hasTemplate (tk_id k) (t_fields t) c)"

lemma be_bytes_be_uint: "length bs = 2 \<Longrightarrow> be_bytes 2 (be_uint bs :: u16) = bs"
proof -
  assume "length bs = 2"
  then obtain x y where bs: "bs = [x, y]" by (auto simp: length_Suc_conv numeral_2_eq_2)
  have "ucast (push_bit 8 (ucast x) OR ucast y :: u16) = y" "ucast (drop_bit 8 (push_bit 8 (ucast x) OR ucast y :: u16)) = x"
    by (rule bit_eqI; auto simp: bit_simps dest: bit_imp_le_length)+
  then show ?thesis by (simp add: bs be_uint_def numeral_2_eq_2)
qed

lemma readFields_bytes:
  "readFields b i n = Some (Inr fs) \<Longrightarrow> (i + n) * 4 \<le> length b \<Longrightarrow>
   take (n * 4) (drop (i * 4) b) = concat (map (\<lambda>f. be_bytes 2 (tf_typ f) @ be_bytes 2 (tf_length f)) fs)"
proof (induction b i n arbitrary: fs rule: readFields.induct)
  case (2 b i n)
  obtain ty ln gs where g: "ty = (be_uint (take 2 (drop (i * 4) b)) :: u16)" "ln = (be_uint (take 2 (drop (i * 4 + 2) b)) :: u16)"
    "readFields b (Suc i) n = Some (Inr gs)" "fs = \<lparr>tf_typ = ty, tf_length = ln\<rparr> # gs" "ln \<noteq> varLenSentinel" "ln \<noteq> 0"
    using "2.prems" by (cases "readFields b (Suc i) n"; cases "the (readFields b (Suc i) n)") (auto simp: Uint16_def split: if_splits)
  have u: "Uint16 b (i * 4) = Some ty" "Uint16 b (i * 4 + 2) = Some ln" using g(1,2) "2.prems"(2) by (simp_all add: Uint16_def)
  have "take (n * 4) (drop (Suc i * 4) b) = concat (map (\<lambda>f. be_bytes 2 (tf_typ f) @ be_bytes 2 (tf_length f)) gs)"
    using "2.IH" [OF u g(5,6,3)] "2.prems"(2) by simp
  moreover have "take (Suc n * 4) (drop (i * 4) b) = take 2 (drop (i * 4) b) @ take 2 (drop (i * 4 + 2) b) @ take (n * 4) (drop (Suc i * 4) b)"
    using take_add [of 2 "2 + n * 4" "drop (i * 4) b"] take_add [of 2 "n * 4" "drop (i * 4 + 2) b"] by (simp add: numeral_eq_Suc)
  ultimately show ?case using be_bytes_be_uint [of "take 2 (drop (i * 4) b)"] be_bytes_be_uint [of "take 2 (drop (i * 4 + 2) b)"] g "2.prems"(2) by simp
qed simp


lemma template_bytes:
  assumes "4 \<le> length b" "n = unat (be_uint (take 2 (drop 2 b)) :: u16)" "n * 4 \<le> length (drop 4 b)" "readFields (drop 4 b) 0 n = Some (Inr fs)"
  shows "b = encodeTemplate (be_uint (take 2 b)) fs @ drop (n * 4) (drop 4 b)"
proof -
  have "length fs = n" using readFields_spec [of 0 n "drop 4 b"] assms(3,4) by auto
  then have "(of_nat (length fs) :: u16) = be_uint (take 2 (drop 2 b))" using assms(2) by simp
  then have "encodeTemplate (be_uint (take 2 b)) fs = take 2 b @ take 2 (drop 2 b) @ take (n * 4) (drop 4 b)"
    using readFields_bytes [OF assms(4)] assms(1,3) be_bytes_be_uint [of "take 2 b"] be_bytes_be_uint [of "take 2 (drop 2 b)"] by (simp add: encodeTemplate_def)
  moreover have "b = take 2 b @ take 2 (drop 2 b) @ take (n * 4) (drop 4 b) @ drop (n * 4) (drop 4 b)"
    using append_take_drop_id [of 2 b] append_take_drop_id [of 2 "drop 2 b"] append_take_drop_id [of "n * 4" "drop 4 b"] by (simp add: drop_drop)
  ultimately show ?thesis by simp
qed

text \<open>Every template the cache has gained was announced by the bytes it learned from, for that sender.\<close>

definition gained :: "(templateKey \<Rightarrow> template \<Rightarrow> bool) \<Rightarrow> Decoder \<Rightarrow> Decoder \<Rightarrow> bool" where
  "gained P d d' \<longleftrightarrow> (\<forall>k t. map_of (d_templates d') k = Some t \<longrightarrow> map_of (d_templates d) k = Some t \<or> P k t)"

lemma gained_refl [simp]: "d_templates d' = d_templates d \<Longrightarrow> gained P d d'"
  by (simp add: gained_def)

lemma gained_trans: "gained P a b \<Longrightarrow> gained Q b c \<Longrightarrow> (\<And>k t. P k t \<Longrightarrow> R k t) \<Longrightarrow> (\<And>k t. Q k t \<Longrightarrow> R k t) \<Longrightarrow> gained R a c"
  unfolding gained_def by blast

definition learntFrom :: "u8 list \<Rightarrow> addr \<Rightarrow> u32 \<Rightarrow> templateKey \<Rightarrow> template \<Rightarrow> bool" where
  "learntFrom b e i k t \<longleftrightarrow> tk_exporter k = e \<and> tk_sourceID k = i \<and> hasTemplate (tk_id k) (t_fields t) b"

lemma store_gained:
  "store_post k t d d' \<Longrightarrow> P k t \<Longrightarrow> d_templates d'' = d_templates d' \<Longrightarrow> gained P d d''"
  unfolding gained_def store_post_def
proof (intro allI impI)
  fix k' t'
  assume post: "cache_inv d' \<and> map_of (d_templates d') k = Some t \<and> hd (d_order d') = k \<and>
      (\<forall>k'. k' \<noteq> k \<longrightarrow> map_of (d_templates d') k' \<in> {None, map_of (d_templates d) k'}) \<and>
      outcome_counts (d_stats d') = outcome_counts (d_stats d)" and P: "P k t"
    and "d_templates d'' = d_templates d'" "map_of (d_templates d'') k' = Some t'"
  then have t': "map_of (d_templates d') k' = Some t'" by simp
  show "map_of (d_templates d) k' = Some t' \<or> P k' t'"
  proof (cases "k' = k")
    case True
    then show ?thesis using t' post P by simp
  next
    case False
    then have "map_of (d_templates d') k' \<in> {None, map_of (d_templates d) k'}" using post by blast
    then show ?thesis using t' by simp
  qed
qed

lemma learnLoop_gained:
  "cache_inv d \<Longrightarrow> learnLoop b e i us d = Some (d', r) \<Longrightarrow> gained (learntFrom b e i) d d'"
proof (induction b e i us d rule: learnLoop.induct)
  case (1 b e i us d)
  let ?tid = "be_uint (take 2 b) :: u16" and ?cnt = "be_uint (take 2 (drop 2 b)) :: u16"
  let ?n = "unat ?cnt" and ?b1 = "drop 4 b"
  show ?case
  proof (cases "length b < 4 \<or> ?n = 0 \<or> maxFieldsPerTemplate < ?n \<or> length ?b1 < ?n * 4 \<or> (\<nexists>fs. readFields ?b1 0 ?n = Some (Inr fs)) \<or> ?tid < firstDataFlowsetID")
    case True
    from "1.prems"(2) show ?thesis
      by (subst (asm) learnLoop.simps) (use True in \<open>cases "readFields ?b1 0 ?n"; cases "the (readFields ?b1 0 ?n)"; auto simp: Let_def split: if_splits\<close>)
  next
    case False
    then obtain fs where fs: "readFields ?b1 0 ?n = Some (Inr fs)" by blast
    let ?k = "\<lparr>tk_exporter = e, tk_sourceID = i, tk_id = ?tid\<rparr>"
    let ?t = "\<lparr>t_fields = fs, t_recLen = fieldsWidth fs\<rparr>"
    have tid: "firstDataFlowsetID \<le> ?tid" using False by (meson not_less)
    have "length fs = ?n \<and> (\<forall>f\<in>set fs. tf_length f \<noteq> 0 \<and> tf_length f \<noteq> varLenSentinel)"
      using readFields_spec [of 0 ?n ?b1] fs False by auto
    then have "template_wf ?t" using False by (intro learned_template_wf [of _ ?cnt]) auto
    then obtain d1 taken where s: "store ?k ?t d = Some (d1, taken)" "store_post ?k ?t d d1"
      using store_spec [OF "1.prems"(1), of ?t ?k] tid by auto
    let ?us = "if taken then unknownFields fs else []"
    let ?d2 = "d_stats_update (st_UnknownFields_update (\<lambda>n. n + length ?us)) d1"
    have inv: "cache_inv ?d2" using s(2) by (simp add: store_post_def)
    have run: "learnLoop b e i us d = learnLoop (drop (?n * 4) ?b1) e i (us @ ?us) ?d2"
      using False fs s(1) by (subst learnLoop.simps) (auto simp: Let_def not_less)
    have IH: "gained (learntFrom (drop (?n * 4) ?b1) e i) ?d2 d'"
      using "1.IH" [of ?tid ?cnt ?n ?b1 "Inr fs" fs "(d1, taken)" d1 taken ?us] False fs s(1) inv "1.prems"(2) run
      by (auto simp: not_less)
    have b: "b = encodeTemplate ?tid fs @ drop (?n * 4) ?b1" using template_bytes [OF _ refl _ fs] False by simp
    have "learntFrom b e i ?k ?t" using ht_here [of ?tid fs "drop (?n * 4) ?b1"] b by (simp add: learntFrom_def)
    then have "gained (learntFrom b e i) d ?d2" using store_gained [OF s(2)] by simp
    moreover have "learntFrom (drop (?n * 4) ?b1) e i k t \<Longrightarrow> learntFrom b e i k t" for k t
      using b ht_later [of "tk_id k" "t_fields t" "drop (?n * 4) ?b1" ?tid fs] unfolding learntFrom_def by metis
    ultimately show ?thesis using gained_trans [OF _ IH] by blast
  qed
qed

lemma learnTemplates_gained:
  "cache_inv d \<Longrightarrow> learnTemplates b e i d = Some (d', r) \<Longrightarrow> gained (learntFrom b e i) d d'"
  by (auto simp: learnTemplates_def intro: learnLoop_gained)

lemma readDataFlowset_templates:
  assumes "cache_inv d" "readDataFlowset dg b e fid up d = Some (d', r)"
  shows "d_templates d' = d_templates d"
proof -
  let ?l = "lookup e (dg_SourceID dg) fid d"
  show ?thesis
  proof (cases "snd ?l")
    case None
    then show ?thesis using assms(2) lookup_templates [of e "dg_SourceID dg" fid d] by (cases ?l) (auto simp: readDataFlowset_def)
  next
    case (Some t)
    then have t: "template_wf t" using cache_inv_template [OF assms(1)] by (simp add: lookup_get)
    obtain d2 rs where "dataLoop t fid up b dg (fst ?l) = Some (d2, dg\<lparr>dg_Records := dg_Records dg @ rs\<rparr>)" "same_cache (fst ?l) d2"
      using dataLoop_spec [OF t] by blast
    then show ?thesis using Some assms(2) lookup_templates [of e "dg_SourceID dg" fid d]
      by (cases ?l) (auto simp: readDataFlowset_def same_cache_def split: if_splits)
  qed
qed

definition announcedIn :: "u8 list \<Rightarrow> addr \<Rightarrow> u32 \<Rightarrow> templateKey \<Rightarrow> template \<Rightarrow> bool" where
  "announcedIn body e i k t \<longleftrightarrow> tk_exporter k = e \<and> tk_sourceID k = i \<and>
     (\<exists>c. hasFlowset flowsetTemplate c body \<and> hasTemplate (tk_id k) (t_fields t) c)"

lemma flowset_bytes:
  assumes "4 \<le> length body" "l = unat (be_uint (take 2 (drop 2 body)) :: u16)" "4 \<le> l" "l \<le> length body"
  shows "body = be_bytes 2 (be_uint (take 2 body) :: u16) @ be_bytes 2 (of_nat (length (take (l - 4) (drop 4 body)) + 4) :: u16) @
    take (l - 4) (drop 4 body) @ drop l body" "length (take (l - 4) (drop 4 body)) + 4 < 65536"
proof -
  have l: "length (take (l - 4) (drop 4 body)) + 4 = l" using assms(3,4) by simp
  show "length (take (l - 4) (drop 4 body)) + 4 < 65536" using l assms(2) unsigned_less [of "be_uint (take 2 (drop 2 body)) :: u16", where ?'a = nat] by simp
  have "(of_nat l :: u16) = be_uint (take 2 (drop 2 body))" using assms(2) by simp
  moreover have "body = take 2 body @ take 2 (drop 2 body) @ take (l - 4) (drop 4 body) @ drop l body"
    using append_take_drop_id [of 2 body] append_take_drop_id [of 2 "drop 2 body"] append_take_drop_id [of "l - 4" "drop 4 body"] assms(3)
    by (simp add: drop_drop)
  ultimately show "body = be_bytes 2 (be_uint (take 2 body) :: u16) @ be_bytes 2 (of_nat (length (take (l - 4) (drop 4 body)) + 4) :: u16) @
    take (l - 4) (drop 4 body) @ drop l body"
    unfolding l using be_bytes_be_uint [of "take 2 body"] be_bytes_be_uint [of "take 2 (drop 2 body)"] assms(1) by simp
qed

lemma flowsetLoop_gained:
  "cache_inv d \<Longrightarrow> datagram_ok dg \<Longrightarrow> dg_Version dg = V9 \<Longrightarrow> flowsetLoop body e up dg d = Some (d', r) \<Longrightarrow>
   gained (announcedIn body e (dg_SourceID dg)) d d'"
proof (induction "length body" arbitrary: body dg d rule: less_induct)
  case less
  define fid where "fid = (be_uint (take 2 body) :: u16)"
  define l where "l = unat (be_uint (take 2 (drop 2 body)) :: u16)"
  define fs where "fs = take (l - 4) (drop 4 body)"
  let ?i = "dg_SourceID dg"
  show ?case
  proof (cases "length body < 4 \<or> l < 4 \<or> length body < l")
    case True
    from less.prems(4) show ?thesis
      by (subst (asm) flowsetLoop.simps) (use True in \<open>auto simp: Let_def l_def countMalformed_def split: if_splits\<close>)
  next
    case False
    then have shorter: "length (drop l body) < length body" by auto
    have body: "body = be_bytes 2 fid @ be_bytes 2 (of_nat (length fs + 4) :: u16) @ fs @ drop l body" "length fs + 4 < 65536"
      using flowset_bytes [OF _ l_def] False unfolding fid_def fs_def not_less de_Morgan_disj by blast+
    have later: "announcedIn (drop l body) e ?i k t \<Longrightarrow> announcedIn body e ?i k t" for k t
      using hf_later [OF body(2), of flowsetTemplate _ "drop l body" fid] body(1) unfolding announcedIn_def by metis
    have here: "fid = flowsetTemplate \<Longrightarrow> learntFrom fs e ?i k t \<Longrightarrow> announcedIn body e ?i k t" for k t
      using hf_here [OF body(2), of fid "drop l body"] body(1) unfolding announcedIn_def learntFrom_def by metis
    have go_on: "gained (announcedIn body e ?i) d1 d'"
      if "flowsetLoop (drop l body) e up dg1 d1 = Some (d', r)" "cache_inv d1" "datagram_ok dg1" "dg_Version dg1 = V9" "dg_SourceID dg1 = ?i" for dg1 d1
      using less.hyps [OF shorter that(2-4,1)] that(5) later by (auto simp: gained_def)
    obtain d1 q where l1: "learnTemplates fs e ?i d = Some (d1, q)" "learn_post e ?i d d1"
      by (rule learnTemplates_spec [OF less.prems(1), of fs e ?i])
    have l1g: "gained (announcedIn body e ?i) d d1" if "fid = flowsetTemplate"
      using learnTemplates_gained [OF less.prems(1) l1(1)] here [OF that] unfolding gained_def by blast
    obtain d2 q2 where l2: "readDataFlowset dg fs e fid up d = Some (d2, q2)" "learn_post e ?i d d2"
      "case q2 of Inl err \<Rightarrow> err = ErrMalformed | Inr dg' \<Rightarrow> datagram_ok dg' \<and> dg_SourceID dg' = ?i \<and> dg_Version dg' = V9"
      by (rule readDataFlowset_spec [OF less.prems(1-3), of fs e fid up])
    note l2t = readDataFlowset_templates [OF less.prems(1) l2(1)]
    have noted: "datagram_ok (dg_note u dg)" "datagram_ok (fold dg_note us dg)" "dg_Version (fold dg_note us dg) = V9" "dg_SourceID (fold dg_note us dg) = ?i" for u us
      using less.prems(2,3) by (simp_all add: datagram_ok_def note_ok fold_note_ok)
    have inv: "cache_inv d1" "cache_inv d2" using l1(2) l2(2) by (simp_all add: learn_post_def)
    have step: "gained (announcedIn body e ?i) d0 d' \<Longrightarrow> gained (announcedIn body e ?i) d d0 \<Longrightarrow> gained (announcedIn body e ?i) d d'" for d0
      using gained_trans by blast
    consider "fid = flowsetTemplate" | "fid \<noteq> flowsetTemplate" "fid = flowsetOptionsTemplate \<or> fid < firstDataFlowsetID"
      | "fid \<noteq> flowsetTemplate" "fid \<noteq> flowsetOptionsTemplate" "\<not> fid < firstDataFlowsetID" by blast
    then show ?thesis
    proof cases
      case 1
      then show ?thesis
      proof (cases q)
        case (Inl err)
        then have "d_templates d' = d_templates d1"
          using less.prems(4) False 1 l1(1)
          by (subst (asm) flowsetLoop_pass [OF _ fid_def l_def _ _ fs_def]) (auto simp: countMalformed_def split: if_splits)
        then show ?thesis using l1g [OF 1] by (simp add: gained_def)
      next
        case (Inr us)
        then have "flowsetLoop (drop l body) e up (fold dg_note us dg) d1 = Some (d', r)"
          using less.prems(4) False 1 l1(1) by (subst (asm) flowsetLoop_pass [OF _ fid_def l_def _ _ fs_def]) auto
        then show ?thesis using step [OF go_on] l1g [OF 1] inv noted by simp
      qed
    next
      case 2
      have "\<exists>u f. flowsetLoop (drop l body) e up (dg_note u dg) (d_stats_update f d) = Some (d', r)"
        using less.prems(4) False 2 by (subst (asm) flowsetLoop_pass [OF _ fid_def l_def _ _ fs_def]) (auto split: if_splits)
      then obtain u f where "flowsetLoop (drop l body) e up (dg_note u dg) (d_stats_update f d) = Some (d', r)" by blast
      then show ?thesis using step [OF go_on] less.prems(1,3) noted by simp
    next
      case 3
      then show ?thesis
      proof (cases q2)
        case (Inl err)
        then have "d_templates d' = d_templates d2"
          using less.prems(4) False 3 l2(1) by (subst (asm) flowsetLoop_pass [OF _ fid_def l_def _ _ fs_def]) (auto simp: countMalformed_def)
        then show ?thesis using l2t by simp
      next
        case (Inr dg1)
        then have "flowsetLoop (drop l body) e up dg1 d2 = Some (d', r)"
          using less.prems(4) False 3 l2(1) by (subst (asm) flowsetLoop_pass [OF _ fid_def l_def _ _ fs_def]) auto
        then show ?thesis using step [OF go_on] l2(3) l2t Inr inv by simp
      qed
    qed
  qed
qed


lemma decodeV9_gained:
  assumes "cache_inv d" "decodeV9 b e now d = Some (d', r)" "Uint16 b 0 = Some 9"
  shows "gained (\<lambda>k t. tk_exporter k = e \<and> announces b k t) d d'"
proof (cases "length b < v9HeaderLen")
  case True
  then show ?thesis using assms(2) by (auto simp: decodeV9_def countMalformed_def)
next
  case False
  let ?i = "be_uint (take 4 (drop 16 b)) :: u32"
  let ?dg = "\<lparr>dg_Version = V9, dg_SourceID = ?i, dg_Sequence = be_uint (take 4 (drop 12 b)),
    dg_ExportTime = exportTimeOf (be_uint (take 4 (drop 8 b))) 0 now, dg_Records = [], dg_Unidentified = []\<rparr>"
  have i: "Uint32 b 16 = Some ?i" using False by (simp add: Uint32_def v9HeaderLen_def)
  obtain d1 q where run: "flowsetLoop (drop v9HeaderLen b) e (be_uint (take 4 (drop 4 b))) ?dg d = Some (d1, q)"
    "d_templates d' = d_templates d1"
    using assms(2) False
    by (cases "flowsetLoop (drop v9HeaderLen b) e (be_uint (take 4 (drop 4 b))) ?dg d"; cases r)
      (auto simp: decodeV9_def Uint32_def v9HeaderLen_def Let_def countDatagram_def split: sum.splits)
  have "datagram_ok ?dg" by (simp add: datagram_ok_def unidentified_ok_def)
  from flowsetLoop_gained [OF assms(1) this _ run(1)]
  have "gained (announcedIn (drop v9HeaderLen b) e ?i) d d1" by simp
  then show ?thesis using run(2) i assms(3) unfolding gained_def announcedIn_def announces_def by metis
qed

lemma Decode_gained:
  assumes "cache_inv d" "Decode b e now d = Some (d', r)"
  shows "gained (\<lambda>k t. tk_exporter k = e \<and> announces b k t) d d'"
proof (cases "Uint16 b 0 = Some 9")
  case True
  then show ?thesis using assms by (intro decodeV9_gained) (auto simp: Decode_def Uint16_def countMalformed_def split: if_splits)
next
  case False
  then show ?thesis using assms(2)
    by (auto simp: Decode_def decodeV5_def countMalformed_def countDatagram_def Let_def bind_eq_Some_conv split: if_splits)
qed

lemma decodeAll_gained:
  "cache_inv d \<Longrightarrow> decodeAll ps d = Some (d', rs) \<Longrightarrow>
   gained (\<lambda>k t. \<exists>b now. (b, tk_exporter k, now) \<in> set ps \<and> announces b k t) d d'"
proof (induction ps arbitrary: d rs)
  case (Cons p ps)
  obtain b e now where p: "p = (b, e, now)" by (cases p)
  obtain d1 r where d1: "Decode b e now d = Some (d1, r)" "cache_inv d1"
    using Decode_spec [OF Cons.prems(1), of b e now] by (auto simp: decode_post_def)
  with Cons.prems p obtain rs' where rest: "decodeAll ps d1 = Some (d', rs')"
    by (auto simp: bind_eq_Some_conv)
  show ?case
    by (rule gained_trans [OF Decode_gained [OF Cons.prems(1) d1(1)] Cons.IH [OF d1(2) rest]]) (auto simp: p)
qed simp

section \<open>Properties\<close>

lemma fold_outcome_add:
  "fold outcome_add rs (g, r, m, u, v) = (g', r', m', u', v') \<Longrightarrow>
     g' = g + length (filter (\<lambda>x. \<not> isl x) rs) \<and>
     r' = r + (\<Sum>x\<leftarrow>rs. case x of Inr dg \<Rightarrow> length (dg_Records dg) | Inl _ \<Rightarrow> 0) \<and>
     m' = m + length (filter (\<lambda>x. x = Inl ErrMalformed \<or> x = Inl ErrShortPacket) rs) \<and>
     u' = u + length (filter (\<lambda>x. x = Inl ErrUnsupportedVersion) rs) \<and>
     v' = v + length (filter (\<lambda>x. x = Inl ErrVariableLength) rs)"
proof (induction rs arbitrary: g r m u v)
  case (Cons x rs)
  show ?case
  proof (cases x)
    case (Inl err)
    with Cons.prems show ?thesis by (cases err) (auto dest!: Cons.IH)
  next
    case (Inr dg)
    with Cons.prems show ?thesis by (auto dest!: Cons.IH)
  qed
qed simp

text \<open>
  (C2) No input can crash or wedge the decoder: whatever datagrams arrive, from whomever and in
  whatever order, every \<^verbatim>\<open>Decode\<close> call returns, and the template cache is within its bounds and
  consistent afterwards.
\<close>

theorem decoder_never_fails:
  "\<exists>d rs. decodeAll ps Decoder_New = Some (d, rs) \<and> length rs = length ps \<and> cache_inv d"
  using decodeAll_spec [of Decoder_New ps] by auto

text \<open>
  (C3) Every datagram is counted under exactly one outcome and every decoded record once: after
  any history the counters equal the numbers of results of each kind.
\<close>

theorem decoder_accounts:
  "\<exists>d rs. decodeAll ps Decoder_New = Some (d, rs) \<and>
     st_Datagrams (d_stats d) = length (filter (\<lambda>x. \<not> isl x) rs) \<and>
     st_Records (d_stats d) = (\<Sum>x\<leftarrow>rs. case x of Inr dg \<Rightarrow> length (dg_Records dg) | Inl _ \<Rightarrow> 0) \<and>
     st_Malformed (d_stats d) = length (filter (\<lambda>x. x = Inl ErrMalformed \<or> x = Inl ErrShortPacket) rs) \<and>
     st_UnsupportedVersion (d_stats d) = length (filter (\<lambda>x. x = Inl ErrUnsupportedVersion) rs) \<and>
     st_VarLenRejected (d_stats d) = length (filter (\<lambda>x. x = Inl ErrVariableLength) rs)"
proof -
  obtain d rs where d: "decodeAll ps Decoder_New = Some (d, rs)"
    "outcome_counts (d_stats d) = fold outcome_add rs (outcome_counts (d_stats Decoder_New))"
    using decodeAll_spec [of Decoder_New ps] by auto
  have "fold outcome_add rs (0, 0, 0, 0, 0) = outcome_counts (d_stats d)"
    using d(2) by (simp add: outcome_counts_def Decoder_New_def Stats_zero_def)
  with d(1) show ?thesis
    by (auto simp: outcome_counts_def dest!: fold_outcome_add)
qed

definition sample_v9 :: "u8 list" where
  "sample_v9 = [0,9, 0,1] @ replicate 4 0 @ [0,0,0,60] @ replicate 8 0 @ [0,0, 0,12, 1,0, 0,1, 0,1, 0,4]"

text \<open>
  (C6) One exporter cannot plant a template for another: after any history, every cached
  template was announced, with its id and its very field list, in a template flowset of a
  version 9 datagram that the exporter it answers for sent, under the source id it is keyed by.
\<close>

theorem template_isolation:
  assumes "decodeAll ps Decoder_New = Some (d, rs)" and "map_of (d_templates d) k = Some t"
  shows "\<exists>b now. (b, tk_exporter k, now) \<in> set ps \<and> announces b k t"
  using decodeAll_gained [OF cache_inv_New assms(1)] assms(2) by (auto simp: gained_def Decoder_New_def)

theorem template_isolation_witness:
  "\<exists>d rs. decodeAll [(sample_v9, AddrV4 1, 0), ([], AddrV4 2, 0)] Decoder_New = Some (d, rs) \<and>
     map_of (d_templates d) \<lparr>tk_exporter = AddrV4 1, tk_sourceID = 0, tk_id = 256\<rparr>
       = Some \<lparr>t_fields = [\<lparr>tf_typ = 1, tf_length = 4\<rparr>], t_recLen = 4\<rparr> \<and>
     announces sample_v9 \<lparr>tk_exporter = AddrV4 1, tk_sourceID = 0, tk_id = 256\<rparr>
       \<lparr>t_fields = [\<lparr>tf_typ = 1, tf_length = 4\<rparr>], t_recLen = 4\<rparr>"
proof -
  let ?k = "\<lparr>tk_exporter = AddrV4 1, tk_sourceID = 0, tk_id = 256\<rparr>"
  let ?t = "\<lparr>t_fields = [\<lparr>tf_typ = 1, tf_length = 4\<rparr>], t_recLen = 4\<rparr>"
  let ?ps = "[(sample_v9, AddrV4 1, 0 :: time), ([], AddrV4 2, 0)]"
  obtain d rs where d: "decodeAll ?ps Decoder_New = Some (d, rs)"
    using decodeAll_spec [of Decoder_New ?ps] by auto
  have "map_option (\<lambda>(d, rs). map_of (d_templates d) ?k) (decodeAll ?ps Decoder_New) = Some (Some ?t)"
    by code_simp
  with d have t: "map_of (d_templates d) ?k = Some ?t" by simp
  with d template_isolation [OF d t] show ?thesis by auto
qed

text \<open>
  What one datagram can make the decoder retain is bounded: the report of what it stepped
  over is duplicate-free with at most 32 entries, a version 9 datagram yields at most 4096
  records, and a version 5 datagram no more than its bytes can hold.
\<close>

theorem datagram_bounded:
  assumes "cache_inv d" and "Decode b e now d = Some (d', Inr dg)"
  shows "distinct (dg_Unidentified dg) \<and> length (dg_Unidentified dg) \<le> 32 \<and>
     (case dg_Version dg of V9 \<Rightarrow> length (dg_Records dg) \<le> 4096
        | V5 \<Rightarrow> 24 + 48 * length (dg_Records dg) \<le> length b)"
  using Decode_spec [OF assms(1), of b e now] assms(2)
  by (auto simp: decode_post_def unidentified_ok_def maxUnidentifiedPerDatagram_def
      records_bounded_def maxRecordsPerDatagram_def wire_lens split: Version.splits)

theorem datagram_bounded_witness:
  "\<exists>d' dg. Decode sample_v9 (AddrV4 1) 0 Decoder_New = Some (d', Inr dg) \<and>
     length (dg_Unidentified dg) \<le> 32"
proof -
  obtain d' r where d': "Decode sample_v9 (AddrV4 1) 0 Decoder_New = Some (d', r)"
    using Decode_spec [of Decoder_New sample_v9 "AddrV4 1" 0] by auto
  have "map_option (\<lambda>(d, r). \<not> isl r) (Decode sample_v9 (AddrV4 1) 0 Decoder_New) = Some True"
    by code_simp
  with d' obtain dg where "r = Inr dg" by (cases r) auto
  with d' datagram_bounded [of Decoder_New sample_v9 "AddrV4 1" 0 d' dg] show ?thesis by simp
qed

text \<open>
  Flow instants are never in the future: a switched time is at or before the export instant
  and within one period of the 32-bit millisecond uptime counter of it, and it is exact when
  the uptime has not wrapped.
\<close>

theorem switchedAt_bounds:
  "switchedAt et up sw \<le> et \<and> et - switchedAt et up sw < 2 ^ 32 * millisecond_ns \<and>
   (et - switchedAt et up sw) div millisecond_ns = max 0 (uint up - uint sw)"
proof -
  have sub: "uint (up - sw) = uint up - uint sw" if "\<not> up \<le> sw"
    using that uint_minus_simple_alt [of sw up] by (metis linear)
  have up: "uint up < 4294967296" using uint_bounded [of up] by simp
  show ?thesis
  proof (cases "up \<le> sw")
    case True
    then show ?thesis by (simp add: switchedAt_def millisecond_ns_def word_le_def)
  next
    case False
    then have "et - switchedAt et up sw = (uint up - uint sw) * 1000000" "uint sw < uint up"
      using sub by (simp_all add: switchedAt_def millisecond_ns_def word_le_def)
    moreover have "(a - b) * 1000000 < 4294967296 * 1000000" if "a < 4294967296" "0 \<le> b" for a b :: int
      using that by (intro mult_strict_right_mono) auto
    from this [OF up uint_nonnegative [of sw]]
    have "(uint up - uint sw) * 1000000 < 4294967296 * 1000000" .
    ultimately show ?thesis by (simp add: millisecond_ns_def)
  qed
qed

text \<open>
  A record laid out by its template is read without ever losing alignment: each element is
  interpreted from exactly its own bytes, at whatever widths the template declares and whatever
  follows the record.
\<close>

theorem record_layout:
  assumes "list_all2 (\<lambda>f v. length v = unat (tf_length f)) fs vs"
  shows "readElements (concat vs @ rest) 0 fs s =
     Some (fold (\<lambda>(f, v). readField (tf_typ f) v) (zip fs vs) s)"
  using readElements_append [OF assms, of "[]" rest s] by simp

theorem record_layout_witness:
  "map_option (\<lambda>s. (nf_Bytes (rs_rec s), nf_SrcPort (rs_rec s)))
     (readElements (concat [[1, 0, 2], [7], [1, 187 :: u8]] @ [9]) 0
        [\<lparr>tf_typ = 1, tf_length = 3\<rparr>, \<lparr>tf_typ = 99, tf_length = 1\<rparr>, \<lparr>tf_typ = 7, tf_length = 2\<rparr>]
        readState_zero) = Some (65538, 443)"
  by (subst record_layout) (simp_all add: readField_def field_defs num_def maxIntWidth_def)

text \<open>
  (C7) Version 5 round trip: decoding what a sender encodes gives back every record in order, with
  the header's sequence number and clock, and counts the datagram and its records. Bytes behind
  the counted records are ignored.
\<close>

theorem decode_v5_roundtrip:
  assumes "length ws < 2 ^ 16"
  shows "\<exists>d'. Decode (encodeV5 up secs nsecs sequence ws @ junk) e now d = Some (d', Inr
       \<lparr>dg_Version = V5, dg_SourceID = 0, dg_Sequence = sequence,
        dg_ExportTime = exportTimeOf secs nsecs now,
        dg_Records = map (v5Record (exportTimeOf secs nsecs now) up) ws, dg_Unidentified = []\<rparr>) \<and>
     st_Records (d_stats d') = st_Records (d_stats d) + length ws"
  using decodeV5_encode [OF assms] by (simp add: Let_def countDatagram_def)

definition sample_v5 :: V5Wire where
  "sample_v5 = \<lparr>vw_src = 1, vw_dst = 2, vw_inIf = 3, vw_outIf = 4, vw_packets = 5, vw_bytes = 6,
     vw_first = 7, vw_last = 8, vw_srcPort = 9, vw_dstPort = 10, vw_flags = 11, vw_proto = 17\<rparr>"

theorem decode_v5_roundtrip_witness:
  "\<exists>d'. Decode (encodeV5 100 60 0 7 [sample_v5] @ [1, 2]) AddrNone 0 Decoder_New = Some (d', Inr
       \<lparr>dg_Version = V5, dg_SourceID = 0, dg_Sequence = 7, dg_ExportTime = exportTimeOf 60 0 0,
        dg_Records = [v5Record (exportTimeOf 60 0 0) 100 sample_v5], dg_Unidentified = []\<rparr>)"
  using decode_v5_roundtrip [of "[sample_v5]" 100 60 0 7 "[1, 2]" AddrNone 0 Decoder_New] by auto

text \<open>
  Template round trip: learning an encoded template definition, with up to three bytes of
  padding behind it, leaves the cache answering the sender's key with exactly those fields and
  their total width, as the most recently used entry.
\<close>

theorem template_roundtrip:
  assumes "cache_inv d" and "template_wf \<lparr>t_fields = fs, t_recLen = fieldsWidth fs\<rparr>"
    and "firstDataFlowsetID \<le> tid" and "length pad < 4"
  shows "\<exists>d' us. learnTemplates (encodeTemplate tid fs @ pad) e i d = Some (d', Inr us) \<and>
     cache_inv d' \<and> snd (lookup e i tid d') = Some \<lparr>t_fields = fs, t_recLen = fieldsWidth fs\<rparr> \<and>
     hd (d_order d') = \<lparr>tk_exporter = e, tk_sourceID = i, tk_id = tid\<rparr>"
  using learnTemplates_encode [OF assms, of e i] unfolding store_post_def lookup_get by blast

theorem template_roundtrip_witness:
  "\<exists>d' us. learnTemplates (encodeTemplate 300 [\<lparr>tf_typ = 1, tf_length = 4\<rparr>] @ [0]) AddrNone 5 Decoder_New
       = Some (d', Inr us) \<and>
     snd (lookup AddrNone 5 300 d') = Some \<lparr>t_fields = [\<lparr>tf_typ = 1, tf_length = 4\<rparr>], t_recLen = 4\<rparr>"
proof -
  let ?fs = "[\<lparr>tf_typ = 1, tf_length = 4\<rparr>]"
  have t: "template_wf \<lparr>t_fields = ?fs, t_recLen = fieldsWidth ?fs\<rparr>" "fieldsWidth ?fs = 4"
    by (simp_all add: template_wf_def fieldsWidth_def maxFieldsPerTemplate_def varLenSentinel_def)
  have tid: "firstDataFlowsetID \<le> 300" and pad: "length [0 :: u8] < 4"
    by (simp_all add: firstDataFlowsetID_def)
  obtain d' us where
    "learnTemplates (encodeTemplate 300 ?fs @ [0]) AddrNone 5 Decoder_New = Some (d', Inr us)"
    "snd (lookup AddrNone 5 300 d') = Some \<lparr>t_fields = ?fs, t_recLen = fieldsWidth ?fs\<rparr>"
    using template_roundtrip [OF cache_inv_New t(1) tid pad, of AddrNone 5] by blast
  then show ?thesis unfolding t(2) by blast
qed

text \<open>
  A data flowset whose template is cached yields exactly as many records as fit in it, all
  stamped with the flowset's template id, and is refused as malformed exactly when that would
  take the datagram over its record cap; without a template it is skipped and counted.
\<close>

theorem data_flowset_records:
  assumes "cache_inv d"
  shows "case snd (lookup e (dg_SourceID dg) fid d) of
       None \<Rightarrow> readDataFlowset dg b e fid up d = Some (d_stats_update (st_NoTemplate_update Suc) d, Inr dg)
     | Some t \<Rightarrow> if maxRecordsPerDatagram < length (dg_Records dg) + length b div t_recLen t
         then \<exists>d'. readDataFlowset dg b e fid up d = Some (d', Inl ErrMalformed)
         else \<exists>d' rs. readDataFlowset dg b e fid up d = Some (d', Inr (dg\<lparr>dg_Records := dg_Records dg @ rs\<rparr>)) \<and>
                length rs = length b div t_recLen t \<and> nf_TemplateID ` set rs \<subseteq> {fid}"
proof (cases "snd (lookup e (dg_SourceID dg) fid d)")
  case None
  then have "lookup e (dg_SourceID dg) fid d = (d, None)"
    by (simp add: lookup_def Let_def split: option.splits)
  with None show ?thesis by (simp add: readDataFlowset_def)
next
  case (Some t)
  let ?l = "lookup e (dg_SourceID dg) fid d"
  have t: "template_wf t" using cache_inv_template [OF assms] Some by (auto simp: lookup_get)
  have pos: "0 < t_recLen t" using t by (rule template_wf_recLen)
  obtain d' rs where "dataLoop t fid up b dg (fst ?l) = Some (d', dg\<lparr>dg_Records := dg_Records dg @ rs\<rparr>)"
    "length rs = length b div t_recLen t" "\<forall>r\<in>set rs. nf_TemplateID r = fid"
    using dataLoop_spec [OF t] by blast
  with Some pos show ?thesis
    by (cases ?l) (auto simp: readDataFlowset_def)
qed

definition sample_decoder :: Decoder where
  "sample_decoder = \<lparr>d_templates = [(\<lparr>tk_exporter = AddrNone, tk_sourceID = 0, tk_id = 256\<rparr>,
       \<lparr>t_fields = [\<lparr>tf_typ = 1, tf_length = 4\<rparr>], t_recLen = 4\<rparr>)],
     d_order = [\<lparr>tk_exporter = AddrNone, tk_sourceID = 0, tk_id = 256\<rparr>],
     d_templateFields = 1, d_stats = Stats_zero\<rparr>"

definition sample_datagram :: Datagram where
  "sample_datagram = \<lparr>dg_Version = V9, dg_SourceID = 0, dg_Sequence = 0, dg_ExportTime = 0,
     dg_Records = [], dg_Unidentified = []\<rparr>"

theorem data_flowset_records_witness:
  "cache_inv sample_decoder \<and>
   (\<exists>d' rs. readDataFlowset sample_datagram [0, 0, 0, 1, 0, 0, 0, 2, 0] AddrNone 256 0 sample_decoder
       = Some (d', Inr (sample_datagram\<lparr>dg_Records := rs\<rparr>)) \<and> length rs = 2)"
proof -
  have inv: "cache_inv sample_decoder"
    by (simp add: sample_decoder_def cache_inv_def gomap_wf_def fieldCount_def template_wf_def
        fieldsWidth_def cache_limits varLenSentinel_def firstDataFlowsetID_def)
  show ?thesis
    using inv data_flowset_records [where d = sample_decoder and e = AddrNone and dg = sample_datagram
        and fid = 256 and b = "[0, 0, 0, 1, 0, 0, 0, 2, 0]" and up = 0, OF inv]
    by (auto simp: lookup_get sample_decoder_def sample_datagram_def maxRecordsPerDatagram_def)
qed

end
