(* ===== verification/Listener.thy ===== *)
theory Listener
  imports NetflowDecode
begin

text \<open>
  The NetFlow receiver (\<^verbatim>\<open>internal/flow/netflow/listener.go\<close>): one goroutine reads datagrams into a bounded
  channel, a pool of workers decodes them and hands the results on. Their interleaving is the step
  relation \<open>lstep\<close>: a datagram arrives, a read fails, \<^verbatim>\<open>Close\<close> is called, an idle worker takes a job,
  a busy worker finishes one. The decoder's mutex makes a decode one step. What the handler is
  given is the list of datagrams, in the order it is given them. Socket set-up and the rate-limited
  notices are not modelled.
\<close>

section \<open>State\<close>

definition defaultWorkers :: int where
  "defaultWorkers = 4"

definition defaultQueueSize :: int where
  "defaultQueueSize = 1024"

record ListenerConfig =
  lc_AllowedPeers :: "prefix list"
  lc_Workers :: int
  lc_QueueSize :: int

record job =
  jb_payload :: "u8 list"
  jb_peer :: addr

record Listener =
  li_cfg :: ListenerConfig
  li_dec :: Decoder
  li_work :: "job list"
  li_busy :: "job list"
  li_reading :: bool
  li_closing :: bool
  li_datagrams :: nat
  li_bytes :: nat
  li_peerRejected :: nat
  li_queueDropped :: nat
  li_readErrs :: nat
  li_decErrs :: nat
  li_handled :: "Datagram list"

record ListenerStats =
  ls_Datagrams :: nat
  ls_Bytes :: nat
  ls_PeerRejected :: nat
  ls_QueueDropped :: nat
  ls_ReadErrors :: nat
  ls_DecodeErrors :: nat

definition NewListener :: "ListenerConfig \<Rightarrow> Decoder \<Rightarrow> Listener" where
  "NewListener cfg dec =
     \<lparr>li_cfg = cfg\<lparr>lc_Workers := (if lc_Workers cfg \<le> 0 then defaultWorkers else lc_Workers cfg),
                   lc_QueueSize := (if lc_QueueSize cfg \<le> 0 then defaultQueueSize else lc_QueueSize cfg)\<rparr>,
      li_dec = dec, li_work = [], li_busy = [], li_reading = True, li_closing = False, li_datagrams = 0, li_bytes = 0,
      li_peerRejected = 0, li_queueDropped = 0, li_readErrs = 0, li_decErrs = 0, li_handled = []\<rparr>"

definition allowed :: "Listener \<Rightarrow> addr \<Rightarrow> bool" where
  "allowed l peer \<longleftrightarrow> lc_AllowedPeers (li_cfg l) = [] \<or> list_ex (\<lambda>p. prefix_Contains p peer) (lc_AllowedPeers (li_cfg l))"

section \<open>Steps\<close>

text \<open>One turn of the read loop: the peer is checked, and a full channel drops the datagram.\<close>

definition receive :: "u8 list \<Rightarrow> addr \<Rightarrow> Listener \<Rightarrow> Listener" where
  "receive payload sender l =
     (let peer = addr_Unmap sender in
      if \<not> allowed l peer then li_peerRejected_update Suc l
      else
        let l1 = l\<lparr>li_datagrams := Suc (li_datagrams l), li_bytes := li_bytes l + length payload\<rparr> in
        if int (length (li_work l1)) < lc_QueueSize (li_cfg l1)
        then l1\<lparr>li_work := li_work l1 @ [\<lparr>jb_payload = payload, jb_peer = peer\<rparr>]\<rparr>
        else li_queueDropped_update Suc l1)"

text \<open>A failed read ends the loop; it is an error unless the socket is being closed.\<close>

definition readFailed :: "Listener \<Rightarrow> Listener" where
  "readFailed l = l\<lparr>li_reading := False, li_readErrs := (if li_closing l then li_readErrs l else Suc (li_readErrs l))\<rparr>"

definition Listener_Close :: "Listener \<Rightarrow> Listener" where
  "Listener_Close l = l\<lparr>li_closing := True\<rparr>"

text \<open>A worker's turn on the job it has: \<open>None\<close> where the decoder would not return.\<close>

definition runJob :: "job \<Rightarrow> time \<Rightarrow> Listener \<Rightarrow> Listener option" where
  "runJob j recv l =
     (case Decode (jb_payload j) (jb_peer j) recv (li_dec l) of
        None \<Rightarrow> None
      | Some (d, res) \<Rightarrow>
          let l1 = l\<lparr>li_dec := d, li_busy := remove1 j (li_busy l)\<rparr> in
          Some (case res of
                  Inl _ \<Rightarrow> li_decErrs_update Suc l1
                | Inr dg \<Rightarrow> l1\<lparr>li_handled := li_handled l1 @ [dg]\<rparr>))"

inductive lstep :: "Listener \<Rightarrow> Listener \<Rightarrow> bool" where
  Receive: "li_reading l \<Longrightarrow> lstep l (receive payload sender l)"
| ReadFails: "li_reading l \<Longrightarrow> lstep l (readFailed l)"
| Close: "lstep l (Listener_Close l)"
| Take: "li_work l = j # js \<Longrightarrow> int (length (li_busy l)) < lc_Workers (li_cfg l) \<Longrightarrow>
     lstep l (l\<lparr>li_work := js, li_busy := li_busy l @ [j]\<rparr>)"
| Finish: "j \<in> set (li_busy l) \<Longrightarrow> runJob j recv l = Some l' \<Longrightarrow> lstep l l'"

inductive_cases lstepE: "lstep l l'"

definition Listener_Stats :: "Listener \<Rightarrow> ListenerStats" where
  "Listener_Stats l = \<lparr>ls_Datagrams = li_datagrams l, ls_Bytes = li_bytes l, ls_PeerRejected = li_peerRejected l,
     ls_QueueDropped = li_queueDropped l, ls_ReadErrors = li_readErrs l, ls_DecodeErrors = li_decErrs l\<rparr>"

section \<open>Reachable states\<close>

definition listening :: "ListenerConfig \<Rightarrow> Listener \<Rightarrow> bool" where
  "listening cfg l \<longleftrightarrow> lstep\<^sup>*\<^sup>* (NewListener cfg Decoder_New) l"

definition recordsIn :: "Datagram list \<Rightarrow> nat" where
  "recordsIn dgs = (\<Sum>dg\<leftarrow>dgs. length (dg_Records dg))"

definition listener_inv :: "Listener \<Rightarrow> bool" where
  "listener_inv l \<longleftrightarrow> cache_inv (li_dec l) \<and> 1 \<le> lc_Workers (li_cfg l) \<and> 1 \<le> lc_QueueSize (li_cfg l) \<and>
     int (length (li_work l)) \<le> lc_QueueSize (li_cfg l) \<and> int (length (li_busy l)) \<le> lc_Workers (li_cfg l) \<and>
     li_datagrams l = li_queueDropped l + length (li_work l) + length (li_busy l) + li_decErrs l + length (li_handled l) \<and>
     st_Datagrams (d_stats (li_dec l)) = length (li_handled l) \<and> st_Records (d_stats (li_dec l)) = recordsIn (li_handled l)"

lemma outcome_ok:
  assumes "outcome_counts s' = outcome_add r (outcome_counts s)"
  shows "st_Datagrams s' = st_Datagrams s + (case r of Inl _ \<Rightarrow> 0 | Inr dg \<Rightarrow> 1) \<and>
     st_Records s' = st_Records s + (case r of Inl _ \<Rightarrow> 0 | Inr dg \<Rightarrow> length (dg_Records dg))"
proof (cases r)
  case (Inl e)
  then show ?thesis using assms by (cases e) (auto simp: outcome_counts_def)
qed (use assms in \<open>auto simp: outcome_counts_def\<close>)

lemma runJob_spec:
  assumes inv: "listener_inv l" and j: "j \<in> set (li_busy l)"
  shows "\<exists>l'. runJob j recv l = Some l' \<and> listener_inv l' \<and> li_work l' = li_work l \<and> length (li_busy l') < length (li_busy l) \<and>
    li_datagrams l' = li_datagrams l \<and> li_queueDropped l' = li_queueDropped l"
proof -
  have ne: "0 < length (li_busy l)" using j by (cases "li_busy l") auto
  obtain d r where d: "Decode (jb_payload j) (jb_peer j) recv (li_dec l) = Some (d, r)" "cache_inv d"
      "outcome_counts (d_stats d) = outcome_add r (outcome_counts (d_stats (li_dec l)))"
    using Decode_spec [of "li_dec l" "jb_payload j" "jb_peer j" recv] inv by (auto simp: listener_inv_def decode_post_def)
  note o' = outcome_ok [OF d(3)]
  show ?thesis
  proof (cases r)
    case (Inl e)
    then show ?thesis using inv j ne d o' by (auto simp: runJob_def listener_inv_def length_remove1)
  next
    case (Inr dg)
    then show ?thesis using inv j ne d o' by (auto simp: runJob_def listener_inv_def length_remove1 recordsIn_def)
  qed
qed

lemma lstep_inv: "lstep l l' \<Longrightarrow> listener_inv l \<Longrightarrow> listener_inv l'"
proof (induction rule: lstep.induct)
  case (Receive l payload sender)
  then show ?case by (auto simp: receive_def listener_inv_def Let_def)
next
  case (ReadFails l)
  then show ?case by (simp add: readFailed_def listener_inv_def)
next
  case (Close l)
  then show ?case by (simp add: Listener_Close_def listener_inv_def)
next
  case (Take l j js)
  then show ?case by (auto simp: listener_inv_def)
next
  case (Finish j l recv l')
  then show ?case using runJob_spec [of l j recv] by auto
qed

lemma NewListener_inv: "listener_inv (NewListener cfg Decoder_New)"
  by (simp add: listener_inv_def NewListener_def defaultWorkers_def defaultQueueSize_def recordsIn_def)
    (simp add: Decoder_New_def Stats_zero_def)

interpretation receiver: kept_by_steps lstep listener_inv
  by unfold_locales (rule lstep_inv)

lemma listening_inv: "listening cfg l \<Longrightarrow> listener_inv l"
  unfolding listening_def by (erule receiver.kept_run) (rule NewListener_inv)

text \<open>
  (C4) The receiver accounts for every datagram it reads, in every state any interleaving of arrivals and
  workers can reach: each accepted datagram is dropped at a full queue, waiting, with a worker,
  counted as a decode error or handed on. The queue and the workers stay within their bounds, and
  the decoder's own counters are those of the datagrams handed on.
\<close>

theorem listener_accounts:
  assumes "listening cfg l"
  shows "let s = Listener_Stats l in
    ls_Datagrams s = ls_QueueDropped s + length (li_work l) + length (li_busy l) + ls_DecodeErrors s + length (li_handled l) \<and>
    int (length (li_work l)) \<le> lc_QueueSize (li_cfg l) \<and> int (length (li_busy l)) \<le> lc_Workers (li_cfg l) \<and>
    st_Datagrams (d_stats (li_dec l)) = length (li_handled l) \<and>
    st_Records (d_stats (li_dec l)) = (\<Sum>dg\<leftarrow>li_handled l. length (dg_Records dg))"
  using listening_inv [OF assms] by (simp add: listener_inv_def Listener_Stats_def Let_def recordsIn_def)

definition oneDatagram :: Listener where
  "oneDatagram = receive [0, 9] (AddrV4 1) (NewListener \<lparr>lc_AllowedPeers = [], lc_Workers = 1, lc_QueueSize = 1\<rparr> Decoder_New)"

lemma oneDatagram_listening: "listening \<lparr>lc_AllowedPeers = [], lc_Workers = 1, lc_QueueSize = 1\<rparr> oneDatagram"
  unfolding listening_def oneDatagram_def by (rule r_into_rtranclp) (rule lstep.Receive, simp add: NewListener_def)

theorem listener_accounts_witness:
  "ls_Datagrams (Listener_Stats oneDatagram) = 1 \<and> length (li_work oneDatagram) = 1 \<and> ls_QueueDropped (Listener_Stats oneDatagram) = 0"
proof -
  have d: "ls_Datagrams (Listener_Stats oneDatagram) = 1" "length (li_work oneDatagram) = 1"
    by (simp_all add: oneDatagram_def receive_def NewListener_def allowed_def Listener_Stats_def Let_def)
  with listener_accounts [OF oneDatagram_listening] show ?thesis by (simp add: Let_def)
qed

section \<open>Shutdown\<close>

text \<open>Once reading has stopped, workers can always make progress until nothing is left.\<close>

lemma drain_step:
  assumes inv: "listener_inv l" and left: "li_work l \<noteq> [] \<or> li_busy l \<noteq> []"
  shows "\<exists>l'. lstep l l' \<and> listener_inv l' \<and> li_datagrams l' = li_datagrams l \<and> li_queueDropped l' = li_queueDropped l \<and>
    2 * length (li_work l') + length (li_busy l') < 2 * length (li_work l) + length (li_busy l)"
proof (cases "li_busy l")
  case Nil
  then obtain j js where w: "li_work l = j # js" using left by (cases "li_work l") auto
  have "int (length (li_busy l)) < lc_Workers (li_cfg l)" using Nil inv by (simp add: listener_inv_def)
  from lstep.Take [OF w this] have "lstep l (l\<lparr>li_work := js, li_busy := li_busy l @ [j]\<rparr>)" .
  then show ?thesis using lstep_inv [OF _ inv] w
    by (intro exI [of _ "l\<lparr>li_work := js, li_busy := li_busy l @ [j]\<rparr>"]) simp
next
  case (Cons j js)
  then have j: "j \<in> set (li_busy l)" by simp
  obtain l' where l': "runJob j 0 l = Some l'" "listener_inv l'" "li_work l' = li_work l" "length (li_busy l') < length (li_busy l)"
      "li_datagrams l' = li_datagrams l" "li_queueDropped l' = li_queueDropped l"
    using runJob_spec [OF inv j, of 0] by blast
  then show ?thesis using lstep.Finish [OF j l'(1)] by auto
qed

lemma drains_all:
  "listener_inv l \<Longrightarrow> \<exists>l'. lstep\<^sup>*\<^sup>* l l' \<and> listener_inv l' \<and> li_work l' = [] \<and> li_busy l' = [] \<and>
     li_datagrams l' = li_datagrams l \<and> li_queueDropped l' = li_queueDropped l"
proof (induction "2 * length (li_work l) + length (li_busy l)" arbitrary: l rule: less_induct)
  case less
  show ?case
  proof (cases "li_work l = [] \<and> li_busy l = []")
    case True
    then show ?thesis using less.prems by blast
  next
    case False
    then obtain l1 where 1: "lstep l l1" "listener_inv l1" "li_datagrams l1 = li_datagrams l" "li_queueDropped l1 = li_queueDropped l"
        "2 * length (li_work l1) + length (li_busy l1) < 2 * length (li_work l) + length (li_busy l)"
      using drain_step [OF less.prems] by blast
    from less.hyps [OF 1(5,2)] 1 show ?thesis by (metis converse_rtranclp_into_rtranclp)
  qed
qed

text \<open>With reading stopped, no step but a repeated close leaves the amount of work as it was.\<close>

lemma work_decreases:
  assumes "lstep l l'" "\<not> li_reading l" "listener_inv l"
  shows "l' = Listener_Close l \<or> 2 * length (li_work l') + length (li_busy l') < 2 * length (li_work l) + length (li_busy l)"
  using assms
proof (cases rule: lstep.cases)
  case (Finish j recv)
  then show ?thesis using runJob_spec [OF assms(3), of j recv] by auto
qed auto

text \<open>
  (C5) Shutdown ends and loses nothing: when reading has stopped, every further step is a close or
  reduces the work left, so the workers cannot run for ever; and from any reachable state they can
  finish everything, at which point every accepted datagram was dropped at a full queue, counted as
  a decode error or handed on.
\<close>

theorem listener_drains:
  assumes "listening cfg l" "\<not> li_reading l"
  shows "(lstep l m \<longrightarrow> m = Listener_Close l \<or>
       2 * length (li_work m) + length (li_busy m) < 2 * length (li_work l) + length (li_busy l)) \<and>
    (\<exists>l'. lstep\<^sup>*\<^sup>* l l' \<and> li_work l' = [] \<and> li_busy l' = [] \<and>
       li_datagrams l = li_queueDropped l + li_decErrs l' + length (li_handled l'))"
proof
  show "lstep l m \<longrightarrow> m = Listener_Close l \<or> 2 * length (li_work m) + length (li_busy m) < 2 * length (li_work l) + length (li_busy l)"
    using work_decreases [OF _ assms(2) listening_inv [OF assms(1)]] by blast
  show "\<exists>l'. lstep\<^sup>*\<^sup>* l l' \<and> li_work l' = [] \<and> li_busy l' = [] \<and> li_datagrams l = li_queueDropped l + li_decErrs l' + length (li_handled l')"
    using drains_all [OF listening_inv [OF assms(1)]] by (auto simp: listener_inv_def)
qed

theorem listener_drains_witness:
  "\<exists>l'. lstep\<^sup>*\<^sup>* (readFailed oneDatagram) l' \<and> li_work l' = [] \<and> li_busy l' = [] \<and> li_decErrs l' + length (li_handled l') = 1"
proof -
  have r: "li_reading oneDatagram" by (simp add: oneDatagram_def receive_def NewListener_def Let_def allowed_def)
  have "listening \<lparr>lc_AllowedPeers = [], lc_Workers = 1, lc_QueueSize = 1\<rparr> (readFailed oneDatagram)"
    using oneDatagram_listening lstep.ReadFails [OF r] unfolding listening_def by (rule rtranclp.rtrancl_into_rtrancl)
  from listener_drains [OF this, of "readFailed oneDatagram"] show ?thesis
    by (auto simp: readFailed_def oneDatagram_def receive_def NewListener_def Let_def allowed_def)
qed

end
