(* ===== verification/FlowRecord.thy ===== *)
theory FlowRecord
  imports NetAddr "HOL-Library.Product_Lexorder"
begin

text \<open>
  The normalized flow record (\<^verbatim>\<open>internal/flow/record.go\<close>) with its labels, its geolocation data
  (the structures of \<^verbatim>\<open>geo.go\<close>), the direction-independent conversation tuple, and the
  community-id v1 hash over it (\<^verbatim>\<open>communityid.go\<close>), with SHA-1 and base64 written out.
\<close>

section \<open>Labels\<close>

datatype Source = SourceUnknown | SourceNetflow | SourceZenarmor | SourceMerged

fun Source_String :: "Source \<Rightarrow> string" where
  "Source_String SourceNetflow = ''netflow''"
| "Source_String SourceZenarmor = ''zenarmor''"
| "Source_String SourceMerged = ''merged''"
| "Source_String SourceUnknown = ''unknown''"

datatype Direction = DirectionUnknown | DirectionInbound | DirectionOutbound | DirectionInternal

fun Direction_String :: "Direction \<Rightarrow> string" where
  "Direction_String DirectionInbound = ''inbound''"
| "Direction_String DirectionOutbound = ''outbound''"
| "Direction_String DirectionInternal = ''internal''"
| "Direction_String DirectionUnknown = ''unknown''"

datatype Verdict = VerdictUnknown | VerdictPass | VerdictBlock

fun Verdict_String :: "Verdict \<Rightarrow> string" where
  "Verdict_String VerdictPass = ''pass''"
| "Verdict_String VerdictBlock = ''block''"
| "Verdict_String VerdictUnknown = []"

section \<open>Volume, interfaces and metadata\<close>

record Counters =
  c_TxBytes :: u64
  c_RxBytes :: u64
  c_TxPackets :: u64
  c_RxPackets :: u64
  c_Present :: bool

definition Counters_zero :: Counters where
  "Counters_zero = \<lparr>c_TxBytes = 0, c_RxBytes = 0, c_TxPackets = 0, c_RxPackets = 0, c_Present = False\<rparr>"

definition Counters_Bytes :: "Counters \<Rightarrow> u64" where
  "Counters_Bytes c = c_TxBytes c + c_RxBytes c"

definition Counters_Packets :: "Counters \<Rightarrow> u64" where
  "Counters_Packets c = c_TxPackets c + c_RxPackets c"

record Iface =
  if_Device :: string
  if_Name :: string
  if_Index :: u32
  if_Corrected :: bool
  if_Unresolved :: bool

definition Iface_zero :: Iface where
  "Iface_zero = \<lparr>if_Device = [], if_Name = [], if_Index = 0, if_Corrected = False, if_Unresolved = False\<rparr>"

definition UnresolvedInterfaceLabel :: string where
  "UnresolvedInterfaceLabel = ''unresolved''"

definition Iface_Label :: "Iface \<Rightarrow> string" where
  "Iface_Label i =
     (if if_Name i \<noteq> [] then if_Name i
      else if if_Unresolved i \<and> if_Device i \<noteq> [] then UnresolvedInterfaceLabel
      else if_Device i)"

record L7 =
  l7_AppName :: string
  l7_AppProto :: string
  l7_AppCategory :: string
  l7_DomainCat :: string
  l7_Encryption :: string

definition L7_zero :: L7 where
  "L7_zero = \<lparr>l7_AppName = [], l7_AppProto = [], l7_AppCategory = [], l7_DomainCat = [], l7_Encryption = []\<rparr>"

record Enrichment =
  en_SrcHostname :: string
  en_DstHostname :: string
  en_SrcScope :: string
  en_DstScope :: string
  en_DstService :: string
  en_DstDomain :: string

definition Enrichment_zero :: Enrichment where
  "Enrichment_zero = \<lparr>en_SrcHostname = [], en_DstHostname = [], en_SrcScope = [], en_DstScope = [],
     en_DstService = [], en_DstDomain = []\<rparr>"

record Repairs =
  rp_PayloadByteFallback :: bool
  rp_VLANSubnetAttributed :: bool
  rp_PolicyRouteCorrected :: bool
  rp_ZenBytesArePayload :: bool
  rp_WindowPartial :: bool

definition Repairs_zero :: Repairs where
  "Repairs_zero = \<lparr>rp_PayloadByteFallback = False, rp_VLANSubnetAttributed = False,
     rp_PolicyRouteCorrected = False, rp_ZenBytesArePayload = False, rp_WindowPartial = False\<rparr>"

definition Repairs_merge :: "Repairs \<Rightarrow> Repairs \<Rightarrow> Repairs" where
  "Repairs_merge o' r =
     \<lparr>rp_PayloadByteFallback = (rp_PayloadByteFallback r \<or> rp_PayloadByteFallback o'),
      rp_VLANSubnetAttributed = (rp_VLANSubnetAttributed r \<or> rp_VLANSubnetAttributed o'),
      rp_PolicyRouteCorrected = (rp_PolicyRouteCorrected r \<or> rp_PolicyRouteCorrected o'),
      rp_ZenBytesArePayload = (rp_ZenBytesArePayload r \<or> rp_ZenBytesArePayload o'),
      rp_WindowPartial = (rp_WindowPartial r \<or> rp_WindowPartial o')\<rparr>"

record GeoEndpoint =
  g_Country :: string
  g_Continent :: string
  g_City :: string
  g_Region :: string
  g_ASN :: nat
  g_ASOrg :: string
  g_CountrySource :: string
  g_CitySource :: string
  g_ZenCountry :: string
  g_ZenContinent :: string
  g_ZenCity :: string
  g_ZenRegion :: string

definition GeoEndpoint_zero :: GeoEndpoint where
  "GeoEndpoint_zero = \<lparr>g_Country = [], g_Continent = [], g_City = [], g_Region = [], g_ASN = 0,
     g_ASOrg = [], g_CountrySource = [], g_CitySource = [], g_ZenCountry = [], g_ZenContinent = [],
     g_ZenCity = [], g_ZenRegion = []\<rparr>"

record GeoInfo =
  geo_Src :: GeoEndpoint
  geo_Dst :: GeoEndpoint

definition GeoInfo_zero :: GeoInfo where
  "GeoInfo_zero = \<lparr>geo_Src = GeoEndpoint_zero, geo_Dst = GeoEndpoint_zero\<rparr>"

section \<open>The record\<close>

record Record =
  r_Source :: Source
  r_Start :: time
  r_End :: time
  r_Observed :: time
  r_Proto :: u8
  r_SrcAddr :: addr
  r_DstAddr :: addr
  r_SrcPort :: u16
  r_DstPort :: u16
  r_CommunityID :: string
  r_NF :: Counters
  r_Zen :: Counters
  r_Fragments :: nat
  r_TCPFlags :: u8
  r_DSCP :: u8
  r_ECN :: u8
  r_SrcMask :: u8
  r_DstMask :: u8
  r_In :: Iface
  r_Out :: Iface
  r_Direction :: Direction
  r_VLANID :: string
  r_Verdict :: Verdict
  r_L7 :: L7
  r_Enrich :: Enrichment
  r_Repairs :: Repairs
  r_Geo :: GeoInfo

definition Record_zero :: Record where
  "Record_zero = \<lparr>r_Source = SourceUnknown, r_Start = 0, r_End = 0, r_Observed = 0, r_Proto = 0,
     r_SrcAddr = AddrNone, r_DstAddr = AddrNone, r_SrcPort = 0, r_DstPort = 0, r_CommunityID = [],
     r_NF = Counters_zero, r_Zen = Counters_zero, r_Fragments = 0, r_TCPFlags = 0, r_DSCP = 0,
     r_ECN = 0, r_SrcMask = 0, r_DstMask = 0, r_In = Iface_zero, r_Out = Iface_zero,
     r_Direction = DirectionUnknown, r_VLANID = [], r_Verdict = VerdictUnknown, r_L7 = L7_zero,
     r_Enrich = Enrichment_zero, r_Repairs = Repairs_zero, r_Geo = GeoInfo_zero\<rparr>"

section \<open>The conversation tuple\<close>

record Tuple =
  tp_Proto :: u8
  tp_AAddr :: addr
  tp_BAddr :: addr
  tp_APort :: u16
  tp_BPort :: u16

definition endpointLess :: "addr \<Rightarrow> u16 \<Rightarrow> addr \<Rightarrow> u16 \<Rightarrow> bool" where
  "endpointLess a ap b bp =
     (let c = addr_Compare a b in if c \<noteq> 0 then c < 0 else ap < bp)"

definition CanonicalTuple :: "Record \<Rightarrow> Tuple" where
  "CanonicalTuple r =
     (let a = addr_Unmap (r_SrcAddr r); ap = r_SrcPort r;
          b = addr_Unmap (r_DstAddr r); bp = r_DstPort r;
          (a, ap, b, bp) = (if \<not> endpointLess a ap b bp then (b, bp, a, ap) else (a, ap, b, bp))
      in \<lparr>tp_Proto = r_Proto r, tp_AAddr = a, tp_BAddr = b, tp_APort = ap, tp_BPort = bp\<rparr>)"

section \<open>Community id\<close>

subsection \<open>SHA-1\<close>

definition sha1_pad :: "u8 list \<Rightarrow> u8 list" where
  "sha1_pad m = m @ [128] @ replicate ((119 - length m mod 64) mod 64) 0 @
     be_bytes 8 (of_nat (8 * length m) :: u64)"

text \<open>The message schedule of a block, most recent word first.\<close>

fun sha1_extend :: "nat \<Rightarrow> u32 list \<Rightarrow> u32 list" where
  "sha1_extend 0 ws = ws"
| "sha1_extend (Suc n) ws =
     sha1_extend n (word_rotl 1 (ws ! 2 XOR ws ! 7 XOR ws ! 13 XOR ws ! 15) # ws)"

definition sha1_schedule :: "u8 list \<Rightarrow> u32 list" where
  "sha1_schedule b = rev (sha1_extend 64 (rev (map (\<lambda>i. be_uint (take 4 (drop (4 * i) b))) [0..<16])))"

type_synonym sha1_state = "u32 \<times> u32 \<times> u32 \<times> u32 \<times> u32"

definition sha1_round :: "nat \<times> u32 \<Rightarrow> sha1_state \<Rightarrow> sha1_state" where
  "sha1_round tw s = (case tw of (t, w) \<Rightarrow> case s of (a, b, c, d, e) \<Rightarrow>
     let (f, k) = (if t < 20 then ((b AND c) OR (NOT b AND d), 0x5A827999)
                   else if t < 40 then (b XOR c XOR d, 0x6ED9EBA1)
                   else if t < 60 then ((b AND c) OR (b AND d) OR (c AND d), 0x8F1BBCDC)
                   else (b XOR c XOR d, 0xCA62C1D6))
     in (word_rotl 5 a + f + e + k + w, a, word_rotl 30 b, c, d))"

definition sha1_block :: "u8 list \<Rightarrow> sha1_state \<Rightarrow> sha1_state" where
  "sha1_block blk s =
     (case (s, fold sha1_round (enumerate 0 (sha1_schedule blk)) s) of
        ((a, b, c, d, e), (a', b', c', d', e')) \<Rightarrow> (a + a', b + b', c + c', d + d', e + e'))"

definition sha1_init :: sha1_state where
  "sha1_init = (0x67452301, 0xEFCDAB89, 0x98BADCFE, 0x10325476, 0xC3D2E1F0)"

definition sha1 :: "u8 list \<Rightarrow> u8 list" where
  "sha1 m =
     (let p = sha1_pad m;
          (a, b, c, d, e) = fold (\<lambda>i. sha1_block (take 64 (drop (64 * i) p))) [0..<length p div 64] sha1_init
      in be_bytes 4 a @ be_bytes 4 b @ be_bytes 4 c @ be_bytes 4 d @ be_bytes 4 e)"

subsection \<open>Base64\<close>

definition b64_char :: "nat \<Rightarrow> char" where
  "b64_char n = ''ABCDEFGHIJKLMNOPQRSTUVWXYZabcdefghijklmnopqrstuvwxyz0123456789+/'' ! n"

definition b64_quad :: "nat \<Rightarrow> string" where
  "b64_quad v = [b64_char (v div 262144 mod 64), b64_char (v div 4096 mod 64),
     b64_char (v div 64 mod 64), b64_char (v mod 64)]"

fun base64 :: "u8 list \<Rightarrow> string" where
  "base64 [] = []"
| "base64 [x] = take 2 (b64_quad (unat x * 65536)) @ ''==''"
| "base64 [x, y] = take 3 (b64_quad (unat x * 65536 + unat y * 256)) @ ''=''"
| "base64 (x # y # z # r) = b64_quad (unat x * 65536 + unat y * 256 + unat z) @ base64 r"

subsection \<open>The hash\<close>

definition communityIDVersion :: string where
  "communityIDVersion = ''1:''"

text \<open>The bytes written into the hash.\<close>

definition communityBytes :: "Tuple \<Rightarrow> u16 \<Rightarrow> u8 list" where
  "communityBytes t seed =
     be_bytes 2 seed @
     (if addr_Is4 (tp_AAddr t) \<and> addr_Is4 (tp_BAddr t)
      then the (addr_As4 (tp_AAddr t)) @ the (addr_As4 (tp_BAddr t))
      else addr_As16 (tp_AAddr t) @ addr_As16 (tp_BAddr t)) @
     [tp_Proto t, 0] @ be_bytes 2 (tp_APort t) @ be_bytes 2 (tp_BPort t)"

definition CommunityID :: "Tuple \<Rightarrow> u16 \<Rightarrow> string" where
  "CommunityID t seed = communityIDVersion @ base64 (sha1 (communityBytes t seed))"

section \<open>Properties\<close>

lemma endpointLess_iff: "endpointLess a ap b bp \<longleftrightarrow> a < b \<or> a = b \<and> ap < bp"
  by (auto simp: endpointLess_def Let_def addr_Compare_less)

text \<open>A record's two endpoints as the tuple sees them.\<close>

definition srcEnd :: "Record \<Rightarrow> addr \<times> u16" where
  "srcEnd r = (addr_Unmap (r_SrcAddr r), r_SrcPort r)"

definition dstEnd :: "Record \<Rightarrow> addr \<times> u16" where
  "dstEnd r = (addr_Unmap (r_DstAddr r), r_DstPort r)"

definition reversed :: "Record \<Rightarrow> Record" where
  "reversed r = r\<lparr>r_SrcAddr := r_DstAddr r, r_DstAddr := r_SrcAddr r,
     r_SrcPort := r_DstPort r, r_DstPort := r_SrcPort r\<rparr>"

lemma CanonicalTuple_cases:
  "CanonicalTuple r =
     (if srcEnd r < dstEnd r
      then \<lparr>tp_Proto = r_Proto r, tp_AAddr = fst (srcEnd r), tp_BAddr = fst (dstEnd r),
            tp_APort = snd (srcEnd r), tp_BPort = snd (dstEnd r)\<rparr>
      else \<lparr>tp_Proto = r_Proto r, tp_AAddr = fst (dstEnd r), tp_BAddr = fst (srcEnd r),
            tp_APort = snd (dstEnd r), tp_BPort = snd (srcEnd r)\<rparr>)"
  by (auto simp: CanonicalTuple_def endpointLess_iff srcEnd_def dstEnd_def less_prod_def Let_def)

lemma CanonicalTuple_iff:
  "CanonicalTuple r = CanonicalTuple r' \<longleftrightarrow> r_Proto r = r_Proto r' \<and>
     ((srcEnd r, dstEnd r) = (srcEnd r', dstEnd r') \<or> (srcEnd r, dstEnd r) = (dstEnd r', srcEnd r'))"
  by (cases "srcEnd r"; cases "dstEnd r"; cases "srcEnd r'"; cases "dstEnd r'")
     (auto simp: CanonicalTuple_cases)

text \<open>
  The conversation tuple identifies a conversation exactly up to direction: two records have the
  same tuple if and only if they carry the same protocol and the same two endpoints, in either
  order, with IPv4-mapped addresses identified with their IPv4 form. Hence both directions of a
  conversation hash to one community id.
\<close>

theorem canonical_tuple_direction_free:
  "(CanonicalTuple r = CanonicalTuple r' \<longleftrightarrow> r_Proto r = r_Proto r' \<and>
      ((srcEnd r, dstEnd r) = (srcEnd r', dstEnd r') \<or> (srcEnd r, dstEnd r) = (dstEnd r', srcEnd r'))) \<and>
   CommunityID (CanonicalTuple (reversed r)) seed = CommunityID (CanonicalTuple r) seed"
proof -
  have "CanonicalTuple (reversed r) = CanonicalTuple r"
    unfolding CanonicalTuple_iff by (simp add: reversed_def srcEnd_def dstEnd_def)
  then show ?thesis using CanonicalTuple_iff [of r r'] by simp
qed

end
