(* ===== verification/Enrich.thy ===== *)
theory Enrich
  imports FlowRecord
begin

text \<open>
  Enrichment. The immutable snapshot of the box's own tables (\<^verbatim>\<open>internal/logship/enrich/snapshot.go\<close>),
  the service table (\<^verbatim>\<open>services.go\<close>), the address classifier of \<^verbatim>\<open>internal/geoip/geoip.go\<close>, and the
  geolocation precedence and merge rules of \<^verbatim>\<open>internal/flow/geo.go\<close>.

  The geolocation database behind \<^verbatim>\<open>geoip.Lookup\<close> is third-party data: it is a parameter, the
  field \<open>ge_lk\<close> of the enricher. The snapshot pointer of \<^verbatim>\<open>Cache\<close> is an argument. \<^verbatim>\<open>strings.ToUpper\<close>
  and \<^verbatim>\<open>strings.TrimSpace\<close> are modelled on ASCII text.
\<close>

section \<open>The snapshot\<close>

record IfaceInfo =
  ii_Device :: string
  ii_Name :: string
  ii_Identifier :: string
  ii_VlanTag :: string
  ii_VlanParent :: string
  ii_Addrs :: "addr list"
  ii_Prefixes :: "prefix list"
  ii_IsWAN :: bool

definition IfaceInfo_IsVLAN :: "IfaceInfo \<Rightarrow> bool" where
  "IfaceInfo_IsVLAN i \<longleftrightarrow> ii_VlanTag i \<noteq> [] \<or> ii_VlanParent i \<noteq> []"

record Snapshot =
  sn_RuleLabels :: "(string, string) gomap"
  sn_IfaceNames :: "(string, string) gomap"
  sn_Hostnames :: "(string, string) gomap"
  sn_MACs :: "(string, string) gomap"
  sn_LocalNets :: "prefix list"
  sn_SelfIPs :: "(addr, bool) gomap"
  sn_LastRefresh :: "(string, time) gomap"
  sn_Ifaces :: "IfaceInfo list"
  sn_IfaceOrder :: "string list"
  sn_IfaceStatedIndex :: "(string, u32) gomap"
  sn_Tunnels :: "(string, string) gomap"
  sn_VPNInstances :: "(string, string) gomap"

definition emptySnapshot :: Snapshot where
  "emptySnapshot = \<lparr>sn_RuleLabels = [], sn_IfaceNames = [], sn_Hostnames = [], sn_MACs = [],
     sn_LocalNets = [], sn_SelfIPs = [], sn_LastRefresh = [], sn_Ifaces = [], sn_IfaceOrder = [],
     sn_IfaceStatedIndex = [], sn_Tunnels = [], sn_VPNInstances = []\<rparr>"

text \<open>A string-valued lookup: the value with Go's presence flag, where an empty value is a miss.\<close>

definition lookupText :: "(string, string) gomap \<Rightarrow> string \<Rightarrow> string \<times> bool" where
  "lookupText m k = (case map_of m k of None \<Rightarrow> ([], False) | Some v \<Rightarrow> (v, v \<noteq> []))"

definition Snapshot_RuleLabel :: "Snapshot \<Rightarrow> string \<Rightarrow> string \<times> bool" where
  "Snapshot_RuleLabel s rid = lookupText (sn_RuleLabels s) rid"

definition Snapshot_InterfaceName :: "Snapshot \<Rightarrow> string \<Rightarrow> string \<times> bool" where
  "Snapshot_InterfaceName s dev = lookupText (sn_IfaceNames s) dev"

definition Snapshot_Tunnel :: "Snapshot \<Rightarrow> string \<Rightarrow> string \<times> bool" where
  "Snapshot_Tunnel s uuid = lookupText (sn_Tunnels s) uuid"

definition Snapshot_VPNInstance :: "Snapshot \<Rightarrow> string \<Rightarrow> string \<times> bool" where
  "Snapshot_VPNInstance s uuid = lookupText (sn_VPNInstances s) uuid"

definition Snapshot_Hostname :: "Snapshot \<Rightarrow> string \<Rightarrow> string \<times> bool" where
  "Snapshot_Hostname s ip = lookupText (sn_Hostnames s) ip"

definition Snapshot_MAC :: "Snapshot \<Rightarrow> string \<Rightarrow> string \<times> bool" where
  "Snapshot_MAC s ip = lookupText (sn_MACs s) ip"

definition Snapshot_Scope :: "Snapshot \<Rightarrow> string \<Rightarrow> string" where
  "Snapshot_Scope s ip =
     (case ParseAddr ip of
        None \<Rightarrow> []
      | Some a \<Rightarrow>
          let addr = addr_Unmap a in
          if length (sn_SelfIPs s) = 0 \<and> length (sn_LocalNets s) = 0 then []
          else if map_of (sn_SelfIPs s) addr = Some True then ''self''
          else if list_ex (\<lambda>p. prefix_Contains p addr) (sn_LocalNets s) then ''local''
          else ''remote'')"

text \<open>\<^verbatim>\<open>clone\<close> copies every table and a fresh \<^verbatim>\<open>LastRefresh\<close> entry by entry.\<close>

definition Snapshot_clone :: "Snapshot \<Rightarrow> Snapshot" where
  "Snapshot_clone s = \<lparr>sn_RuleLabels = sn_RuleLabels s, sn_IfaceNames = sn_IfaceNames s,
     sn_Hostnames = sn_Hostnames s, sn_MACs = sn_MACs s, sn_LocalNets = sn_LocalNets s,
     sn_SelfIPs = sn_SelfIPs s,
     sn_LastRefresh = fold (\<lambda>(k, v). AList.update k v) (sn_LastRefresh s) [],
     sn_Ifaces = sn_Ifaces s, sn_IfaceOrder = sn_IfaceOrder s,
     sn_IfaceStatedIndex = sn_IfaceStatedIndex s, sn_Tunnels = sn_Tunnels s,
     sn_VPNInstances = sn_VPNInstances s\<rparr>"

text \<open>\<^verbatim>\<open>Cache.Load\<close> and \<^verbatim>\<open>Cache.Store\<close> on the pointer the cache holds; \<open>None\<close> is \<^verbatim>\<open>nil\<close>.\<close>

definition Cache_Load :: "Snapshot option \<Rightarrow> Snapshot" where
  "Cache_Load p = (case p of Some s \<Rightarrow> s | None \<Rightarrow> emptySnapshot)"

definition Cache_Store :: "Snapshot option \<Rightarrow> Snapshot option" where
  "Cache_Store s = Some (case s of Some s \<Rightarrow> s | None \<Rightarrow> emptySnapshot)"

section \<open>Services\<close>

definition services :: "(string, string) gomap" where
  "services =
     [(''22/tcp'', ''ssh''), (''23/tcp'', ''telnet''), (''3389/tcp'', ''rdp''), (''5900/tcp'', ''vnc''),
      (''53/tcp'', ''domain''), (''53/udp'', ''domain''), (''853/tcp'', ''dns-over-tls''),
      (''5353/udp'', ''mdns''), (''137/udp'', ''netbios-ns''), (''138/udp'', ''netbios-dgm''),
      (''139/tcp'', ''netbios-ssn''), (''445/tcp'', ''smb''),
      (''80/tcp'', ''http''), (''443/tcp'', ''https''), (''443/udp'', ''quic''),
      (''8080/tcp'', ''http-alt''), (''8443/tcp'', ''https-alt''),
      (''25/tcp'', ''smtp''), (''110/tcp'', ''pop3''), (''143/tcp'', ''imap''), (''465/tcp'', ''smtps''),
      (''587/tcp'', ''submission''), (''993/tcp'', ''imaps''), (''995/tcp'', ''pop3s''),
      (''67/udp'', ''dhcp''), (''68/udp'', ''dhcp''), (''69/udp'', ''tftp''), (''123/udp'', ''ntp''),
      (''161/udp'', ''snmp''), (''162/udp'', ''snmp-trap''), (''514/udp'', ''syslog''),
      (''514/tcp'', ''syslog''), (''546/udp'', ''dhcpv6''), (''547/udp'', ''dhcpv6''),
      (''389/tcp'', ''ldap''), (''636/tcp'', ''ldaps''), (''88/tcp'', ''kerberos''),
      (''1812/udp'', ''radius''), (''1813/udp'', ''radius-acct''),
      (''500/udp'', ''isakmp''), (''4500/udp'', ''ipsec-nat-t''), (''1194/udp'', ''openvpn''),
      (''1701/udp'', ''l2tp''), (''1723/tcp'', ''pptp''), (''51820/udp'', ''wireguard''),
      (''3306/tcp'', ''mysql''), (''5432/tcp'', ''postgresql''), (''6379/tcp'', ''redis''),
      (''27017/tcp'', ''mongodb''), (''11211/tcp'', ''memcached''), (''9200/tcp'', ''elasticsearch''),
      (''21/tcp'', ''ftp''), (''179/tcp'', ''bgp''), (''631/tcp'', ''ipp''), (''1900/udp'', ''ssdp''),
      (''3128/tcp'', ''http-proxy''), (''5060/udp'', ''sip''), (''5060/tcp'', ''sip''),
      (''9100/tcp'', ''jetdirect'')]"

definition ascii_lower :: "char \<Rightarrow> char" where
  "ascii_lower c = (let n = (of_char c :: nat) in if 65 \<le> n \<and> n \<le> 90 then char_of (n + 32) else c)"

definition ascii_upper :: "char \<Rightarrow> char" where
  "ascii_upper c = (let n = (of_char c :: nat) in if 97 \<le> n \<and> n \<le> 122 then char_of (n - 32) else c)"

definition ascii_space :: "char \<Rightarrow> bool" where
  "ascii_space c \<longleftrightarrow> (let n = (of_char c :: nat) in n = 32 \<or> 9 \<le> n \<and> n \<le> 13)"

definition ToLower :: "string \<Rightarrow> string" where
  "ToLower s = map ascii_lower s"

definition ToUpper :: "string \<Rightarrow> string" where
  "ToUpper s = map ascii_upper s"

definition TrimSpace :: "string \<Rightarrow> string" where
  "TrimSpace s = rev (dropWhile ascii_space (rev (dropWhile ascii_space s)))"

definition ServiceName :: "string \<Rightarrow> string \<Rightarrow> string \<times> bool" where
  "ServiceName port proto =
     (if port = [] \<or> proto = [] then ([], False)
      else case map_of services (port @ ''/'' @ ToLower proto) of
        None \<Rightarrow> ([], False) | Some v \<Rightarrow> (v, True))"

section \<open>Address classification\<close>

definition IsGloballyRoutable :: "addr \<Rightarrow> bool" where
  "IsGloballyRoutable a0 =
     (let a = addr_Unmap a0 in
      if \<not> addr_IsValid a then False
      else \<not> addr_IsLoopback a \<and> \<not> addr_IsUnspecified a \<and> \<not> addr_IsPrivate a \<and>
           \<not> addr_IsLinkLocalUnicast a \<and> \<not> addr_IsLinkLocalMulticast a \<and>
           \<not> addr_IsInterfaceLocalMulticast a \<and> \<not> addr_IsMulticast a)"

definition cgnat :: prefix where
  "cgnat = \<lparr>pfx_addr = AddrV4 0x64400000, pfx_bits = Some 10\<rparr>"

text \<open>\<^verbatim>\<open>netip.Addr.IsGlobalUnicast\<close>.\<close>

definition addr_IsGlobalUnicast :: "addr \<Rightarrow> bool" where
  "addr_IsGlobalUnicast a0 =
     (let a = addr_Unmap a0 in
      addr_IsValid a \<and> a \<noteq> AddrV4 0 \<and> a \<noteq> AddrV4 0xFFFFFFFF \<and> a \<noteq> AddrV6 0 [] \<and>
      \<not> addr_IsLoopback a \<and> \<not> addr_IsMulticast a \<and> \<not> addr_IsLinkLocalUnicast a)"

definition Enrichable :: "addr \<Rightarrow> bool" where
  "Enrichable a0 =
     (if \<not> addr_IsValid a0 then False
      else let a = addr_Unmap a0 in
        if \<not> IsGloballyRoutable a \<or> prefix_Contains cgnat a then False
        else addr_IsGlobalUnicast a)"

section \<open>Geolocation\<close>

record GeoResult =
  gr_CountryISO :: string
  gr_ContinentCode :: string
  gr_City :: string
  gr_RegionISO :: string
  gr_ASN :: nat
  gr_ASOrg :: string

definition GeoResult_zero :: GeoResult where
  "GeoResult_zero = \<lparr>gr_CountryISO = [], gr_ContinentCode = [], gr_City = [], gr_RegionISO = [],
     gr_ASN = 0, gr_ASOrg = []\<rparr>"

definition GeoSourceMaxMind :: string where
  "GeoSourceMaxMind = ''maxmind''"

definition GeoSourceZenarmor :: string where
  "GeoSourceZenarmor = ''zenarmor''"

record GeoEnricher =
  ge_lk :: "(addr \<Rightarrow> GeoResult \<times> bool) option"
  ge_metricDims :: bool
  ge_enriched :: nat
  ge_agreements :: nat
  ge_disagreements :: nat
  ge_mergeMismatches :: nat

definition NewGeoEnricher :: "(addr \<Rightarrow> GeoResult \<times> bool) option \<Rightarrow> bool \<Rightarrow> GeoEnricher" where
  "NewGeoEnricher lk metricDims = \<lparr>ge_lk = lk, ge_metricDims = metricDims, ge_enriched = 0,
     ge_agreements = 0, ge_disagreements = 0, ge_mergeMismatches = 0\<rparr>"

text \<open>The resolution of one end's fields from the lookup result.\<close>

definition geoCountry :: "GeoResult \<Rightarrow> bool \<Rightarrow> GeoEndpoint \<Rightarrow> GeoEndpoint" where
  "geoCountry res private g =
     (if gr_CountryISO res \<noteq> [] then g\<lparr>g_Country := gr_CountryISO res, g_CountrySource := GeoSourceMaxMind\<rparr>
      else if g_ZenCountry g \<noteq> [] \<and> \<not> private
      then g\<lparr>g_Country := g_ZenCountry g, g_CountrySource := GeoSourceZenarmor\<rparr>
      else g)"

definition geoContinent :: "GeoResult \<Rightarrow> bool \<Rightarrow> GeoEndpoint \<Rightarrow> GeoEndpoint" where
  "geoContinent res private g =
     (if gr_ContinentCode res \<noteq> [] then g\<lparr>g_Continent := gr_ContinentCode res\<rparr>
      else if g_ZenContinent g \<noteq> [] \<and> \<not> private then g\<lparr>g_Continent := g_ZenContinent g\<rparr>
      else g)"

definition geoCity :: "GeoResult \<Rightarrow> bool \<Rightarrow> GeoEndpoint \<Rightarrow> GeoEndpoint" where
  "geoCity res private g =
     (if gr_City res \<noteq> [] \<or> gr_RegionISO res \<noteq> []
      then g\<lparr>g_City := gr_City res, g_Region := gr_RegionISO res, g_CitySource := GeoSourceMaxMind\<rparr>
      else if (g_ZenCity g \<noteq> [] \<or> g_ZenRegion g \<noteq> []) \<and> \<not> private
      then g\<lparr>g_City := g_ZenCity g, g_Region := g_ZenRegion g, g_CitySource := GeoSourceZenarmor\<rparr>
      else g)"

definition geoCount :: "GeoResult \<Rightarrow> GeoEndpoint \<Rightarrow> GeoEnricher \<Rightarrow> GeoEnricher" where
  "geoCount res g e =
     (if gr_CountryISO res \<noteq> [] \<and> g_ZenCountry g \<noteq> [] then
        (if gr_CountryISO res = g_ZenCountry g then ge_agreements_update Suc e
         else ge_disagreements_update Suc e)
      else e)"

definition geo_endpoint ::
  "(addr \<Rightarrow> GeoResult \<times> bool) \<Rightarrow> addr \<Rightarrow> GeoEndpoint \<Rightarrow> GeoEnricher \<Rightarrow> GeoEndpoint \<times> bool \<times> GeoEnricher" where
  "geo_endpoint lk addr g e =
     (let g = g\<lparr>g_ZenCountry := ToUpper (TrimSpace (g_ZenCountry g)),
                g_ZenContinent := ToUpper (TrimSpace (g_ZenContinent g))\<rparr>;
          (res, hit) = (if addr_IsValid addr then lk addr else (GeoResult_zero, False));
          private = (\<not> IsGloballyRoutable addr);
          g = geoCountry res private g;
          g = geoContinent res private g;
          g = geoCity res private g;
          g = g\<lparr>g_ASN := gr_ASN res, g_ASOrg := gr_ASOrg res\<rparr>
      in (g, hit, geoCount res g e))"

text \<open>\<^verbatim>\<open>Enrich\<close> on a possibly nil enricher.\<close>

definition Geo_Enrich :: "Record \<Rightarrow> GeoEnricher option \<Rightarrow> Record \<times> GeoEnricher option" where
  "Geo_Enrich r eo =
     (case eo of
        None \<Rightarrow> (r, None)
      | Some e \<Rightarrow>
          (case ge_lk e of
             None \<Rightarrow> (r, Some e)
           | Some lk \<Rightarrow>
               let (src, srcHit, e1) = geo_endpoint lk (r_SrcAddr r) (geo_Src (r_Geo r)) e;
                   (dst, dstHit, e2) = geo_endpoint lk (r_DstAddr r) (geo_Dst (r_Geo r)) e1
               in (r\<lparr>r_Geo := \<lparr>geo_Src = src, geo_Dst = dst\<rparr>\<rparr>,
                   Some (if srcHit \<or> dstHit then ge_enriched_update Suc e2 else e2))))"

definition MetricCountry :: "GeoEnricher option \<Rightarrow> Record \<Rightarrow> string" where
  "MetricCountry eo r =
     (case eo of
        None \<Rightarrow> []
      | Some e \<Rightarrow>
          if \<not> ge_metricDims e then []
          else if en_DstScope (r_Enrich r) = ''remote'' then g_Country (geo_Dst (r_Geo r))
          else if en_SrcScope (r_Enrich r) = ''remote'' then g_Country (geo_Src (r_Geo r))
          else if en_SrcScope (r_Enrich r) = [] \<and> en_DstScope (r_Enrich r) = [] then
            (if g_Country (geo_Dst (r_Geo r)) \<noteq> [] then g_Country (geo_Dst (r_Geo r))
             else g_Country (geo_Src (r_Geo r)))
          else [])"

definition sameEndpointAddr :: "addr \<Rightarrow> addr \<Rightarrow> bool" where
  "sameEndpointAddr a b =
     (if \<not> addr_IsValid a \<or> \<not> addr_IsValid b then False else addr_Unmap a = addr_Unmap b)"

definition mergeGeoEndpoint :: "GeoEndpoint \<Rightarrow> GeoEndpoint \<Rightarrow> GeoEndpoint" where
  "mergeGeoEndpoint dst zen =
     (let dst = dst\<lparr>g_ZenCountry := g_ZenCountry zen, g_ZenContinent := g_ZenContinent zen,
                    g_ZenCity := g_ZenCity zen, g_ZenRegion := g_ZenRegion zen\<rparr>;
          dst = (if g_CountrySource dst \<noteq> GeoSourceMaxMind \<and> g_Country zen \<noteq> []
                 then dst\<lparr>g_Country := g_Country zen, g_CountrySource := g_CountrySource zen\<rparr> else dst);
          dst = (if g_Continent dst = [] then dst\<lparr>g_Continent := g_Continent zen\<rparr> else dst)
      in if g_CitySource dst \<noteq> GeoSourceMaxMind \<and> g_City zen \<noteq> []
         then dst\<lparr>g_City := g_City zen, g_Region := g_Region zen, g_CitySource := g_CitySource zen\<rparr>
         else dst)"

definition countMergeMismatch :: "GeoEnricher option \<Rightarrow> GeoEnricher option" where
  "countMergeMismatch eo = map_option (ge_mergeMismatches_update Suc) eo"

definition MergeGeo :: "Record \<Rightarrow> Record \<Rightarrow> GeoEnricher option \<Rightarrow> Record \<times> GeoEnricher option" where
  "MergeGeo dst zen eo =
     (if sameEndpointAddr (r_SrcAddr zen) (r_SrcAddr dst) \<and> sameEndpointAddr (r_DstAddr zen) (r_DstAddr dst)
      then (dst\<lparr>r_Geo := \<lparr>geo_Src = mergeGeoEndpoint (geo_Src (r_Geo dst)) (geo_Src (r_Geo zen)),
                          geo_Dst = mergeGeoEndpoint (geo_Dst (r_Geo dst)) (geo_Dst (r_Geo zen))\<rparr>\<rparr>, eo)
      else if sameEndpointAddr (r_SrcAddr zen) (r_DstAddr dst) \<and> sameEndpointAddr (r_DstAddr zen) (r_SrcAddr dst)
      then (dst\<lparr>r_Geo := \<lparr>geo_Src = mergeGeoEndpoint (geo_Src (r_Geo dst)) (geo_Dst (r_Geo zen)),
                          geo_Dst = mergeGeoEndpoint (geo_Dst (r_Geo dst)) (geo_Src (r_Geo zen))\<rparr>\<rparr>, eo)
      else (dst, countMergeMismatch eo))"

section \<open>Precedence and provenance\<close>

text \<open>The fields a private address must never carry.\<close>

definition unresolved :: "GeoEndpoint \<Rightarrow> bool" where
  "unresolved g \<longleftrightarrow> g_Country g = [] \<and> g_Continent g = [] \<and> g_City g = [] \<and> g_Region g = [] \<and>
     g_CountrySource g = [] \<and> g_CitySource g = []"

text \<open>
  The documented contract of \<^verbatim>\<open>geoip.Lookup\<close>: an address that is not globally routable is never
  looked up and yields the empty result.
\<close>

definition lookup_contract :: "(addr \<Rightarrow> GeoResult \<times> bool) \<Rightarrow> bool" where
  "lookup_contract lk \<longleftrightarrow> (\<forall>a. \<not> IsGloballyRoutable a \<longrightarrow> lk a = (GeoResult_zero, False))"

lemma geo_endpoint_private:
  assumes "lookup_contract lk" "\<not> IsGloballyRoutable a" "unresolved g"
  shows "unresolved (fst (geo_endpoint lk a g e))"
  using assms
  by (auto simp: geo_endpoint_def Let_def lookup_contract_def geoCountry_def geoContinent_def
      geoCity_def GeoResult_zero_def unresolved_def split: if_splits)

lemma mergeGeoEndpoint_unresolved:
  "unresolved g \<Longrightarrow> unresolved z \<Longrightarrow> unresolved (mergeGeoEndpoint g z)"
  by (simp add: mergeGeoEndpoint_def unresolved_def Let_def)

lemma sameEndpoint_routable:
  "sameEndpointAddr a b \<Longrightarrow> IsGloballyRoutable a = IsGloballyRoutable b"
  by (simp add: sameEndpointAddr_def IsGloballyRoutable_def split: if_splits)

lemma sameEndpointAddr_sym: "sameEndpointAddr a b = sameEndpointAddr b a"
  by (auto simp: sameEndpointAddr_def)

lemma Geo_Enrich_frame [simp]:
  "r_SrcAddr (fst (Geo_Enrich r eo)) = r_SrcAddr r" "r_DstAddr (fst (Geo_Enrich r eo)) = r_DstAddr r"
  by (simp_all add: Geo_Enrich_def Let_def split_beta split: option.split)

lemma Geo_Enrich_ends:
  assumes "eo = Some e" "ge_lk e = Some lk"
  shows "\<exists>e1 e2. geo_Src (r_Geo (fst (Geo_Enrich r eo))) = fst (geo_endpoint lk (r_SrcAddr r) (geo_Src (r_Geo r)) e1) \<and>
     geo_Dst (r_Geo (fst (Geo_Enrich r eo))) = fst (geo_endpoint lk (r_DstAddr r) (geo_Dst (r_Geo r)) e2)"
  using assms by (auto simp: Geo_Enrich_def Let_def split_beta)

lemma MergeGeo_src:
  assumes "sameEndpointAddr (r_SrcAddr zen) (r_SrcAddr dst) \<Longrightarrow> P (mergeGeoEndpoint (geo_Src (r_Geo dst)) (geo_Src (r_Geo zen)))"
    and "sameEndpointAddr (r_DstAddr zen) (r_SrcAddr dst) \<Longrightarrow> P (mergeGeoEndpoint (geo_Src (r_Geo dst)) (geo_Dst (r_Geo zen)))"
    and "P (geo_Src (r_Geo dst))"
  shows "P (geo_Src (r_Geo (fst (MergeGeo dst zen eo))))"
  using assms by (simp add: MergeGeo_def)

text \<open>
  A private or reserved address never carries a resolved location, whichever source would have
  supplied one: neither in a lane's own enrichment nor after the two lanes' records are merged,
  in either orientation, although the raw Zenarmor values travel along.
\<close>

theorem private_never_geolocated:
  assumes lk: "ge_lk e = Some lk" "lookup_contract lk"
    and fresh: "unresolved (geo_Src (r_Geo nf))" "unresolved (geo_Src (r_Geo zen))" "unresolved (geo_Dst (r_Geo zen))"
    and priv: "\<not> IsGloballyRoutable (r_SrcAddr nf)"
  shows "unresolved (geo_Src (r_Geo (fst (Geo_Enrich nf (Some e))))) \<and>
     unresolved (geo_Src (r_Geo (fst (MergeGeo (fst (Geo_Enrich nf (Some e))) (fst (Geo_Enrich zen (Some e))) eo))))"
proof -
  let ?n = "fst (Geo_Enrich nf (Some e))" and ?z = "fst (Geo_Enrich zen (Some e))"
  have n: "unresolved (geo_Src (r_Geo ?n))"
    using Geo_Enrich_ends [OF refl lk(1), of nf] geo_endpoint_private [OF lk(2) priv fresh(1)] by auto
  have src: "unresolved (geo_Src (r_Geo ?z))" if "sameEndpointAddr (r_SrcAddr zen) (r_SrcAddr nf)"
    using Geo_Enrich_ends [OF refl lk(1), of zen] geo_endpoint_private [OF lk(2) _ fresh(2)]
      sameEndpoint_routable [OF that] priv by auto
  have dst: "unresolved (geo_Dst (r_Geo ?z))" if "sameEndpointAddr (r_DstAddr zen) (r_SrcAddr nf)"
    using Geo_Enrich_ends [OF refl lk(1), of zen] geo_endpoint_private [OF lk(2) _ fresh(3)]
      sameEndpoint_routable [OF that] priv by auto
  have "unresolved (geo_Src (r_Geo (fst (MergeGeo ?n ?z eo))))"
    by (rule MergeGeo_src) (simp_all add: n src dst mergeGeoEndpoint_unresolved)
  with n show ?thesis by blast
qed

definition sample_lk :: "addr \<Rightarrow> GeoResult \<times> bool" where
  "sample_lk a = (if IsGloballyRoutable a then (GeoResult_zero\<lparr>gr_CountryISO := ''GB''\<rparr>, True)
     else (GeoResult_zero, False))"

definition sample_zen :: Record where
  "sample_zen = Record_zero\<lparr>r_SrcAddr := AddrV4 0x0A000001, r_DstAddr := AddrV4 0x08080808,
     r_Geo := \<lparr>geo_Src = GeoEndpoint_zero\<lparr>g_ZenCountry := ''ca'', g_ZenCity := ''Toronto''\<rparr>,
               geo_Dst = GeoEndpoint_zero\<rparr>\<rparr>"

theorem private_never_geolocated_witness:
  "unresolved (geo_Src (r_Geo (fst (MergeGeo
     (fst (Geo_Enrich (sample_zen\<lparr>r_Geo := GeoInfo_zero\<rparr>) (Some (NewGeoEnricher (Some sample_lk) True))))
     (fst (Geo_Enrich sample_zen (Some (NewGeoEnricher (Some sample_lk) True)))) None))))"
proof -
  let ?e = "NewGeoEnricher (Some sample_lk) True"
  have "ge_lk ?e = Some sample_lk" "lookup_contract sample_lk"
    by (simp_all add: NewGeoEnricher_def lookup_contract_def sample_lk_def)
  moreover have "unresolved (geo_Src (r_Geo (sample_zen\<lparr>r_Geo := GeoInfo_zero\<rparr>)))"
    "unresolved (geo_Src (r_Geo sample_zen))" "unresolved (geo_Dst (r_Geo sample_zen))"
    "\<not> IsGloballyRoutable (r_SrcAddr (sample_zen\<lparr>r_Geo := GeoInfo_zero\<rparr>))"
    by (simp_all add: sample_zen_def GeoInfo_zero_def GeoEndpoint_zero_def unresolved_def
        IsGloballyRoutable_def addr_IsPrivate_def)
  ultimately show ?thesis
    using private_never_geolocated [of ?e sample_lk "sample_zen\<lparr>r_Geo := GeoInfo_zero\<rparr>" sample_zen None]
    by blast
qed

lemma geo_endpoint_ours:
  assumes "addr_IsValid a" "gr_CountryISO (fst (lk a)) \<noteq> []"
  shows "g_Country (fst (geo_endpoint lk a g e)) = gr_CountryISO (fst (lk a)) \<and>
     g_CountrySource (fst (geo_endpoint lk a g e)) = GeoSourceMaxMind"
  using assms
  by (simp add: geo_endpoint_def Let_def split_beta geoCountry_def geoContinent_def geoCity_def)

lemma mergeGeoEndpoint_ours:
  "g_CountrySource g = GeoSourceMaxMind \<Longrightarrow>
   g_Country (mergeGeoEndpoint g z) = g_Country g \<and> g_CountrySource (mergeGeoEndpoint g z) = GeoSourceMaxMind"
  by (simp add: mergeGeoEndpoint_def Let_def)

text \<open>
  Our database wins on country: where the lookup answers for a record's source address, the
  enriched record carries that country with its provenance, and merging any second-lane record
  into it, in either orientation or neither, leaves both untouched.
\<close>

theorem our_country_wins:
  assumes "ge_lk e = Some lk" and "addr_IsValid (r_SrcAddr nf)"
    and "gr_CountryISO (fst (lk (r_SrcAddr nf))) \<noteq> []"
  shows "let g = geo_Src (r_Geo (fst (MergeGeo (fst (Geo_Enrich nf (Some e))) zen eo)))
     in g_Country g = gr_CountryISO (fst (lk (r_SrcAddr nf))) \<and> g_CountrySource g = GeoSourceMaxMind"
proof -
  let ?g = "geo_Src (r_Geo (fst (Geo_Enrich nf (Some e))))"
  have "g_Country ?g = gr_CountryISO (fst (lk (r_SrcAddr nf))) \<and> g_CountrySource ?g = GeoSourceMaxMind"
    using Geo_Enrich_ends [OF refl assms(1), of nf] geo_endpoint_ours [of "r_SrcAddr nf" lk] assms(2,3) by auto
  then show ?thesis
    by (auto simp: Let_def MergeGeo_def mergeGeoEndpoint_ours)
qed

theorem our_country_wins_witness:
  "g_Country (geo_Src (r_Geo (fst (MergeGeo (fst (Geo_Enrich (reversed sample_zen)
      (Some (NewGeoEnricher (Some sample_lk) True)))) sample_zen None)))) = ''GB''"
proof -
  have "ge_lk (NewGeoEnricher (Some sample_lk) True) = Some sample_lk"
    "addr_IsValid (r_SrcAddr (reversed sample_zen))"
    by (simp_all add: NewGeoEnricher_def reversed_def sample_zen_def)
  moreover have gb: "gr_CountryISO (fst (sample_lk (r_SrcAddr (reversed sample_zen)))) = ''GB''"
    by code_simp
  ultimately show ?thesis
    using our_country_wins [of "NewGeoEnricher (Some sample_lk) True" sample_lk "reversed sample_zen" sample_zen None]
    by (simp add: Let_def)
qed

text \<open>
  Scope never guesses: it answers with one of four closed values, a snapshot that knows neither
  the box's own addresses nor its subnets classifies nothing, and an address the box holds is
  never called remote.
\<close>

lemma scope_closed:
  "Snapshot_Scope s ip \<in> {[], ''self'', ''local'', ''remote''} \<and>
   (Snapshot_Scope s ip = ''remote'' \<longleftrightarrow>
      (\<exists>a. ParseAddr ip = Some a \<and> (sn_SelfIPs s \<noteq> [] \<or> sn_LocalNets s \<noteq> []) \<and>
           map_of (sn_SelfIPs s) (addr_Unmap a) \<noteq> Some True \<and>
           \<not> list_ex (\<lambda>p. prefix_Contains p (addr_Unmap a)) (sn_LocalNets s)))"
  by (auto simp: Snapshot_Scope_def Let_def split: option.split)

end
