(* ===== verification/Accumulator.thy ===== *)
theory Accumulator
  imports Prelude
begin

text \<open>
  What the bounded accumulators of the flow pipeline share: the deterministic ranking behind
  \<^verbatim>\<open>sort.Slice\<close>, and the contract of an accumulator that loses nothing.
\<close>

section \<open>Ranking\<close>

text \<open>
  \<^verbatim>\<open>sort.Slice\<close> with a comparison that orders the elements totally has exactly one possible
  result, the sorted rearrangement; insertion sort computes it.
\<close>

fun insert_by :: "('a \<Rightarrow> 'a \<Rightarrow> bool) \<Rightarrow> 'a \<Rightarrow> 'a list \<Rightarrow> 'a list" where
  "insert_by lt x [] = [x]"
| "insert_by lt x (y # ys) = (if lt y x then y # insert_by lt x ys else x # y # ys)"

definition sort_Slice :: "('a \<Rightarrow> 'a \<Rightarrow> bool) \<Rightarrow> 'a list \<Rightarrow> 'a list" where
  "sort_Slice lt xs = foldr (insert_by lt) xs []"

lemma mset_insert_by [simp]: "mset (insert_by lt x ys) = add_mset x (mset ys)"
  by (induction ys) auto

lemma mset_sort_Slice [simp]: "mset (sort_Slice lt xs) = mset xs"
  by (induction xs) (auto simp: sort_Slice_def)

lemma set_sort_Slice [simp]: "set (sort_Slice lt xs) = set xs"
  by (metis mset_sort_Slice set_mset_mset)

lemma length_sort_Slice [simp]: "length (sort_Slice lt xs) = length xs"
  by (metis mset_sort_Slice size_mset)

lemma sum_list_sort_Slice:
  "(\<Sum>x\<leftarrow>sort_Slice lt xs. f x) = (\<Sum>x\<leftarrow>xs. f x :: 'a::comm_monoid_add)"
  by (metis mset_map mset_sort_Slice sum_mset_sum_list)

lemma insert_by_map:
  "(\<And>y. y \<in> set ys \<Longrightarrow> lt (g y) (g x) = lt' y x) \<Longrightarrow>
   insert_by lt (g x) (map g ys) = map g (insert_by lt' x ys)"
  by (induction ys) auto

lemma sort_Slice_map:
  assumes "\<And>x y. x \<in> set xs \<Longrightarrow> y \<in> set xs \<Longrightarrow> lt (g x) (g y) = lt' x y"
  shows "sort_Slice lt (map g xs) = map g (sort_Slice lt' xs)"
  using assms
proof (induction xs)
  case (Cons x xs)
  have "sort_Slice lt (map g (x # xs)) = insert_by lt (g x) (map g (sort_Slice lt' xs))"
    using Cons by (simp add: sort_Slice_def)
  also have "\<dots> = map g (insert_by lt' x (sort_Slice lt' xs))"
    using Cons.prems by (intro insert_by_map) simp
  finally show ?case by (simp add: sort_Slice_def)
qed (simp add: sort_Slice_def)

text \<open>A comparison that orders the members of a list totally.\<close>

definition ranks :: "('a \<Rightarrow> 'a \<Rightarrow> bool) \<Rightarrow> 'a set \<Rightarrow> bool" where
  "ranks lt A \<longleftrightarrow> transp_on A lt \<and> asymp_on A lt \<and> totalp_on A lt"

lemma ranks_subset: "ranks lt A \<Longrightarrow> B \<subseteq> A \<Longrightarrow> ranks lt B"
  unfolding ranks_def by (blast intro: transp_on_subset asymp_on_subset totalp_on_subset)

lemma sorted_insert_by:
  assumes "ranks lt A" "insert x (set ys) \<subseteq> A" "x \<notin> set ys" "sorted_wrt lt ys"
  shows "sorted_wrt lt (insert_by lt x ys)"
  using assms(2-4)
proof (induction ys)
  case (Cons y ys)
  show ?case
  proof (cases "lt y x")
    case True
    then show ?thesis using Cons
      by (auto simp flip: set_mset_mset)
  next
    case False
    then have "lt x y"
      using Cons.prems(1,2) assms(1) by (auto simp: ranks_def totalp_on_def)
    moreover have "lt x z" if "z \<in> set ys" for z
      using that calculation Cons.prems assms(1) transp_onD [of A lt x y z] by (auto simp: ranks_def)
    ultimately show ?thesis using False Cons.prems by auto
  qed
qed simp

lemma sorted_sort_Slice:
  assumes "ranks lt (set xs)" "distinct xs"
  shows "sorted_wrt lt (sort_Slice lt xs)"
  using assms
proof (induction xs)
  case (Cons x xs)
  have sub: "ranks lt (set xs)"
    using Cons.prems(1) by (rule ranks_subset) auto
  have "sorted_wrt lt (insert_by lt x (sort_Slice lt xs))"
    by (rule sorted_insert_by [OF Cons.prems(1)]) (use Cons sub in auto)
  then show ?case by (simp add: sort_Slice_def)
qed (simp add: sort_Slice_def)

lemma sorted_wrt_unique:
  assumes "ranks lt (set xs)" "sorted_wrt lt xs" "sorted_wrt lt ys" "mset xs = mset ys"
  shows "xs = ys"
  using assms
proof (induction xs arbitrary: ys)
  case (Cons x xs)
  obtain y ys' where ys: "ys = y # ys'"
    using Cons.prems(4) by (cases ys) auto
  have sets: "set (x # xs) = set ys"
    using Cons.prems(4) by (metis set_mset_mset)
  have "x = y"
  proof (rule ccontr)
    assume "x \<noteq> y"
    then have "lt x y" "lt y x"
      using sets ys Cons.prems(2,3) by auto
    then show False
      using Cons.prems(1) sets ys by (auto simp: ranks_def dest: asymp_onD)
  qed
  moreover have "ranks lt (set xs)"
    using Cons.prems(1) by (rule ranks_subset) auto
  ultimately show ?case
    using Cons.IH [of ys'] Cons.prems ys by auto
qed simp

text \<open>Go's map iteration order does not show in a ranking.\<close>

lemma sort_Slice_order_free:
  assumes "ranks lt (set xs)" "distinct xs" "mset xs = mset ys"
  shows "sort_Slice lt xs = sort_Slice lt ys"
proof -
  have "set xs = set ys" "distinct ys"
    using assms(2,3) by (metis set_mset_mset, metis mset_eq_imp_distinct_iff)
  with assms show ?thesis
    by (intro sorted_wrt_unique [of lt]) (auto intro: sorted_sort_Slice)
qed

section \<open>Accumulators that lose nothing\<close>

text \<open>
  \<open>step\<close> is one operation of the accumulator and \<open>inv\<close> what every operation keeps; \<open>total\<close> is what
  it accounts for and \<open>weight\<close> what an operation brings in. Over any history the total is exactly
  the sum of the weights.
\<close>

locale stepping =
  fixes inv :: "'s \<Rightarrow> bool"
    and step :: "'op \<Rightarrow> 's \<Rightarrow> 's"
  assumes step_inv: "inv s \<Longrightarrow> inv (step op s)"
begin

lemma run_inv: "inv s \<Longrightarrow> inv (fold step ops s)"
  by (induction ops arbitrary: s) (auto intro: step_inv)

end

locale conserving = stepping inv step
  for inv :: "'s \<Rightarrow> bool" and step :: "'op \<Rightarrow> 's \<Rightarrow> 's" +
  fixes total :: "'s \<Rightarrow> 'm::comm_monoid_add"
    and weight :: "'op \<Rightarrow> 'm"
  assumes step_total: "inv s \<Longrightarrow> total (step op s) = total s + weight op"
begin

lemma run_total: "inv s \<Longrightarrow> total (fold step ops s) = total s + (\<Sum>op\<leftarrow>ops. weight op)"
  by (induction ops arbitrary: s) (auto simp: step_inv step_total algebra_simps)

end

end
