(* ===== verification/Rollup.thy ===== *)
theory Rollup
  imports Enrich Accumulator
begin

text \<open>
  The bounded flow accumulator (\<^verbatim>\<open>internal/flow/rollup.go\<close>): volume per label set, at most
  \<^verbatim>\<open>maxKeys\<close> live keys and \<^verbatim>\<open>topN\<close> emitted series, with everything else folded into one
  remainder per source. The process-wide geolocation enricher the label set reads is an
  argument.
\<close>

section \<open>Keys and entries\<close>

definition OtherLabel :: string where
  "OtherLabel = ''__other__''"

record RollupKey =
  rk_Interface :: string
  rk_Direction :: string
  rk_Transport :: string
  rk_Category :: string
  rk_Action :: string
  rk_Source :: string
  rk_Scope :: string
  rk_Country :: string

definition RollupKey_Values :: "RollupKey \<Rightarrow> string list" where
  "RollupKey_Values k = [rk_Interface k, rk_Direction k, rk_Transport k, rk_Category k, rk_Action k,
     rk_Source k, rk_Scope k, rk_Country k]"

record RollupEntry =
  re_Key :: RollupKey
  re_Bytes :: u64
  re_Packets :: u64
  re_Flows :: u64

definition RollupEntry_add :: "u64 \<Rightarrow> u64 \<Rightarrow> u64 \<Rightarrow> RollupEntry \<Rightarrow> RollupEntry" where
  "RollupEntry_add b p n e = e\<lparr>re_Bytes := re_Bytes e + b, re_Packets := re_Packets e + p,
     re_Flows := re_Flows e + n\<rparr>"

record rollupCell =
  rc_cum :: RollupEntry
  rc_folded :: RollupEntry

record Rollup =
  ro_cells :: "(RollupKey, rollupCell) gomap"
  ro_other :: "(string, RollupEntry) gomap"
  ro_topN :: int
  ro_maxKeys :: int
  ro_capped :: nat
  ro_foldedKeys :: nat

record RollupStats =
  rs_Keys :: nat
  rs_MaxKeys :: int
  rs_TopN :: int
  rs_FoldedKeys :: nat
  rs_Capped :: nat

definition NewRollup :: "int \<Rightarrow> int \<Rightarrow> Rollup" where
  "NewRollup topN maxKeys = \<lparr>ro_cells = [], ro_other = [], ro_topN = topN, ro_maxKeys = maxKeys,
     ro_capped = 0, ro_foldedKeys = 0\<rparr>"

definition SetBounds :: "int \<Rightarrow> int \<Rightarrow> Rollup \<Rightarrow> Rollup" where
  "SetBounds topN maxKeys r = r\<lparr>ro_topN := topN, ro_maxKeys := maxKeys\<rparr>"

text \<open>The zero values of Go for a key and an entry.\<close>

definition RollupKey_zero :: RollupKey where
  "RollupKey_zero = \<lparr>rk_Interface = [], rk_Direction = [], rk_Transport = [], rk_Category = [],
     rk_Action = [], rk_Source = [], rk_Scope = [], rk_Country = []\<rparr>"

definition RollupEntry_new :: "RollupKey \<Rightarrow> RollupEntry" where
  "RollupEntry_new k = \<lparr>re_Key = k, re_Bytes = 0, re_Packets = 0, re_Flows = 0\<rparr>"

definition otherKey :: "string \<Rightarrow> RollupKey" where
  "otherKey source = \<lparr>rk_Interface = OtherLabel, rk_Direction = OtherLabel, rk_Transport = OtherLabel,
     rk_Category = OtherLabel, rk_Action = OtherLabel, rk_Source = source, rk_Scope = OtherLabel,
     rk_Country = OtherLabel\<rparr>"

definition transportName :: "u8 \<Rightarrow> string" where
  "transportName p =
     (if p = 1 then ''icmp'' else if p = 6 then ''tcp'' else if p = 17 then ''udp''
      else if p = 47 then ''gre'' else if p = 50 then ''esp'' else if p = 58 then ''icmpv6''
      else if p = 132 then ''sctp'' else ''other'')"

definition volumeOf :: "Record \<Rightarrow> u64 \<times> u64" where
  "volumeOf rec =
     (if c_Present (r_NF rec) then (Counters_Bytes (r_NF rec), Counters_Packets (r_NF rec))
      else (Counters_Bytes (r_Zen rec), Counters_Packets (r_Zen rec)))"

text \<open>\<^verbatim>\<open>interfaceLabel\<close> of \<^verbatim>\<open>processor.go\<close>.\<close>

definition interfaceLabel :: "Record \<Rightarrow> string" where
  "interfaceLabel r =
     (if r_Direction r = DirectionInbound then
        (let lbl = Iface_Label (r_In r) in if lbl \<noteq> [] then lbl else Iface_Label (r_Out r))
      else
        (let lbl = Iface_Label (r_Out r) in if lbl \<noteq> [] then lbl else Iface_Label (r_In r)))"

definition keyFor :: "GeoEnricher option \<Rightarrow> Record \<Rightarrow> RollupKey" where
  "keyFor geo rec = \<lparr>rk_Interface = interfaceLabel rec, rk_Direction = Direction_String (r_Direction rec),
     rk_Transport = transportName (r_Proto rec), rk_Category = l7_AppCategory (r_L7 rec),
     rk_Action = Verdict_String (r_Verdict rec), rk_Source = Source_String (r_Source rec),
     rk_Scope = en_DstScope (r_Enrich rec), rk_Country = MetricCountry geo rec\<rparr>"

text \<open>The comparison loop of \<^verbatim>\<open>lessKey\<close>.\<close>

fun lessValues :: "string list \<Rightarrow> string list \<Rightarrow> bool" where
  "lessValues (a # av) (b # bv) = (if a \<noteq> b then a < b else lessValues av bv)"
| "lessValues _ _ = False"

definition lessKey :: "RollupKey \<Rightarrow> RollupKey \<Rightarrow> bool" where
  "lessKey a b = lessValues (RollupKey_Values a) (RollupKey_Values b)"

section \<open>Operations\<close>

definition otherFor :: "string \<Rightarrow> Rollup \<Rightarrow> RollupEntry" where
  "otherFor source r = (case map_of (ro_other r) source of
      Some e \<Rightarrow> e | None \<Rightarrow> RollupEntry_new (otherKey source))"

definition addOther :: "string \<Rightarrow> u64 \<Rightarrow> u64 \<Rightarrow> u64 \<Rightarrow> Rollup \<Rightarrow> Rollup" where
  "addOther source b p n r =
     r\<lparr>ro_other := AList.update source (RollupEntry_add b p n (otherFor source r)) (ro_other r)\<rparr>"

definition newCell :: "RollupKey \<Rightarrow> rollupCell" where
  "newCell k = \<lparr>rc_cum = RollupEntry_new k, rc_folded = RollupEntry_new RollupKey_zero\<rparr>"

definition Rollup_Observe :: "GeoEnricher option \<Rightarrow> Record \<Rightarrow> Rollup \<Rightarrow> Rollup" where
  "Rollup_Observe geo rec r =
     (let k = keyFor geo rec; (b, p) = volumeOf rec in
      case map_of (ro_cells r) k of
        None \<Rightarrow>
          if 0 < ro_maxKeys r \<and> ro_maxKeys r \<le> int (length (ro_cells r))
          then ro_capped_update Suc (addOther (rk_Source k) b p 1 r)
          else r\<lparr>ro_cells := AList.update k (rc_cum_update (RollupEntry_add b p 1) (newCell k)) (ro_cells r)\<rparr>
      | Some c \<Rightarrow> r\<lparr>ro_cells := AList.update k (rc_cum_update (RollupEntry_add b p 1) c) (ro_cells r)\<rparr>)"

definition rankLess :: "rollupCell \<Rightarrow> rollupCell \<Rightarrow> bool" where
  "rankLess c d =
     (if re_Bytes (rc_cum c) \<noteq> re_Bytes (rc_cum d) then re_Bytes (rc_cum d) < re_Bytes (rc_cum c)
      else lessKey (re_Key (rc_cum c)) (re_Key (rc_cum d)))"

text \<open>What a cell still has to show: its total less what the remainder already holds.\<close>

definition cellEntry :: "rollupCell \<Rightarrow> RollupEntry" where
  "cellEntry c = \<lparr>re_Key = re_Key (rc_cum c), re_Bytes = re_Bytes (rc_cum c) - re_Bytes (rc_folded c),
     re_Packets = re_Packets (rc_cum c) - re_Packets (rc_folded c),
     re_Flows = re_Flows (rc_cum c) - re_Flows (rc_folded c)\<rparr>"

text \<open>Fold one cell's delta into its source's remainder and advance the watermark.\<close>

definition foldCell :: "rollupCell \<Rightarrow> Rollup \<Rightarrow> Rollup" where
  "foldCell c r =
     (let d = cellEntry c;
          r1 = addOther (rk_Source (re_Key (rc_cum c))) (re_Bytes d) (re_Packets d) (re_Flows d) r
      in r1\<lparr>ro_cells := AList.update (re_Key (rc_cum c)) (c\<lparr>rc_folded := rc_cum c\<rparr>) (ro_cells r1)\<rparr>)"

text \<open>The ranking and the number of cells to emit.\<close>

definition ranked :: "Rollup \<Rightarrow> rollupCell list" where
  "ranked r = sort_Slice rankLess (map snd (ro_cells r))"

definition cutOf :: "Rollup \<Rightarrow> nat" where
  "cutOf r = (let n = length (ro_cells r) in
     if 0 < ro_topN r \<and> ro_topN r < int n then nat (ro_topN r) else n)"

definition Rollup_Snapshot :: "Rollup \<Rightarrow> Rollup \<times> RollupEntry list" where
  "Rollup_Snapshot r =
     (let rs = ranked r; cut = cutOf r;
          out = map cellEntry (take cut rs);
          r1 = fold foldCell (drop cut rs) (r\<lparr>ro_foldedKeys := length rs - cut\<rparr>);
          rem = sort_Slice (\<lambda>a b. rk_Source (re_Key a) < rk_Source (re_Key b)) (map snd (ro_other r1))
      in (r1, out @ rem))"

definition Rollup_Stats :: "Rollup \<Rightarrow> RollupStats" where
  "Rollup_Stats r = \<lparr>rs_Keys = length (ro_cells r), rs_MaxKeys = ro_maxKeys r, rs_TopN = ro_topN r,
     rs_FoldedKeys = ro_foldedKeys r, rs_Capped = ro_capped r\<rparr>"

section \<open>Conservation\<close>

text \<open>The three quantities the accumulator carries, of an entry and of a record.\<close>

datatype quantity = QBytes | QPackets | QFlows

fun entryQ :: "quantity \<Rightarrow> RollupEntry \<Rightarrow> u64" where
  "entryQ QBytes e = re_Bytes e"
| "entryQ QPackets e = re_Packets e"
| "entryQ QFlows e = re_Flows e"

fun recordQ :: "quantity \<Rightarrow> Record \<Rightarrow> u64" where
  "recordQ QBytes rec = fst (volumeOf rec)"
| "recordQ QPackets rec = snd (volumeOf rec)"
| "recordQ QFlows rec = 1"

text \<open>A history of the accumulator.\<close>

datatype rollup_op = RObserve "GeoEnricher option" Record | RSnapshot | is_RSetBounds: RSetBounds int int

fun rollup_step :: "rollup_op \<Rightarrow> Rollup \<Rightarrow> Rollup" where
  "rollup_step (RObserve geo rec) r = Rollup_Observe geo rec r"
| "rollup_step RSnapshot r = fst (Rollup_Snapshot r)"
| "rollup_step (RSetBounds topN maxKeys) r = SetBounds topN maxKeys r"

fun rollup_weight :: "quantity \<Rightarrow> string \<Rightarrow> rollup_op \<Rightarrow> u64" where
  "rollup_weight q src (RObserve geo rec) = (if Source_String (r_Source rec) = src then recordQ q rec else 0)"
| "rollup_weight q src _ = 0"

definition rollup_inv :: "Rollup \<Rightarrow> bool" where
  "rollup_inv r \<longleftrightarrow> gomap_wf (ro_cells r) \<and> gomap_wf (ro_other r) \<and>
     (\<forall>(k, c)\<in>set (ro_cells r). re_Key (rc_cum c) = k) \<and>
     (\<forall>(s, e)\<in>set (ro_other r). re_Key e = otherKey s)"

definition live :: "quantity \<Rightarrow> string \<Rightarrow> RollupKey \<Rightarrow> rollupCell \<Rightarrow> u64" where
  "live q src k c = (if rk_Source k = src then entryQ q (rc_cum c) - entryQ q (rc_folded c) else 0)"

definition rest :: "quantity \<Rightarrow> string \<Rightarrow> Rollup \<Rightarrow> u64" where
  "rest q src r = (case map_of (ro_other r) src of None \<Rightarrow> 0 | Some e \<Rightarrow> entryQ q e)"

definition rollup_total :: "quantity \<Rightarrow> string \<Rightarrow> Rollup \<Rightarrow> u64" where
  "rollup_total q src r = msum (live q src) (ro_cells r) + rest q src r"

fun pick3 :: "quantity \<Rightarrow> u64 \<Rightarrow> u64 \<Rightarrow> u64 \<Rightarrow> u64" where
  "pick3 QBytes b p n = b"
| "pick3 QPackets b p n = p"
| "pick3 QFlows b p n = n"

lemma entryQ_add [simp]: "entryQ q (RollupEntry_add b p n e) = entryQ q e + pick3 q b p n"
  by (cases q) (simp_all add: RollupEntry_add_def)

lemma entryQ_new [simp]: "entryQ q (RollupEntry_new k) = 0"
  by (cases q) (simp_all add: RollupEntry_new_def)

lemma entryQ_cellEntry: "entryQ q (cellEntry c) = entryQ q (rc_cum c) - entryQ q (rc_folded c)"
  by (cases q) (simp_all add: cellEntry_def)

lemma pick3_entry: "pick3 q (re_Bytes e) (re_Packets e) (re_Flows e) = entryQ q e"
  by (cases q) simp_all

lemma pick3_volume: "volumeOf rec = (b, p) \<Longrightarrow> pick3 q b p 1 = recordQ q rec"
  by (cases q) simp_all

lemma re_Key_add [simp]: "re_Key (RollupEntry_add b p n e) = re_Key e"
  by (simp add: RollupEntry_add_def)

lemma rest_addOther:
  "rest q src (addOther s b p n r) = rest q src r + (if s = src then pick3 q b p n else 0)"
  by (simp add: rest_def addOther_def otherFor_def map_of_update_conv split: option.split)

lemma addOther_frame [simp]: "ro_cells (addOther s b p n r) = ro_cells r"
  by (simp add: addOther_def)

lemma rollup_inv_addOther [inv_intros]:
  assumes "rollup_inv r"
  shows "rollup_inv (addOther s b p n r)"
proof -
  have "re_Key (otherFor s r) = otherKey s"
    using assms by (auto simp: otherFor_def RollupEntry_new_def rollup_inv_def dest!: map_of_SomeD split: option.split)
  then show ?thesis
    using assms ball_update [of "ro_other r" "\<lambda>s e. re_Key e = otherKey s" s "RollupEntry_add b p n (otherFor s r)"]
    by (simp add: rollup_inv_def addOther_def)
qed

lemma rollup_inv_putCell:
  "rollup_inv r \<Longrightarrow> re_Key (rc_cum c) = k \<Longrightarrow> rollup_inv (r\<lparr>ro_cells := AList.update k c (ro_cells r)\<rparr>)"
  using ball_update [of "ro_cells r" "\<lambda>k c. re_Key (rc_cum c) = k" k c] by (simp add: rollup_inv_def)

lemma rollup_inv_cell: "rollup_inv r \<Longrightarrow> map_of (ro_cells r) k = Some c \<Longrightarrow> re_Key (rc_cum c) = k"
  by (auto simp: rollup_inv_def dest!: map_of_SomeD)

lemma rest_cells [simp]: "rest q src (ro_cells_update f r) = rest q src r"
  by (simp add: rest_def)

lemma rest_frame [simp]:
  "rest q src (ro_capped_update f r) = rest q src r" "rest q src (ro_foldedKeys_update g r) = rest q src r"
  by (simp_all add: rest_def)

lemma rollup_inv_frame [simp]:
  "rollup_inv (ro_capped_update f r) = rollup_inv r" "rollup_inv (ro_foldedKeys_update f r) = rollup_inv r"
  "rollup_inv (SetBounds t m r) = rollup_inv r"
  by (simp_all add: rollup_inv_def SetBounds_def)

lemma Observe_inv [inv_intros]: "rollup_inv r \<Longrightarrow> rollup_inv (Rollup_Observe geo rec r)"
  by (auto simp: Rollup_Observe_def Let_def split_beta newCell_def RollupEntry_new_def rollup_inv_cell
      intro!: rollup_inv_addOther rollup_inv_putCell split: option.split)

lemma live_add:
  "live q src k (rc_cum_update (RollupEntry_add b p n) c) =
   live q src k c + (if rk_Source k = src then pick3 q b p n else 0)"
  by (simp add: live_def)

lemma live_newCell [simp]: "live q src k (newCell k) = 0"
  by (simp add: live_def newCell_def)

lemma Observe_total:
  assumes "rollup_inv r"
  shows "rollup_total q src (Rollup_Observe geo rec r) =
     rollup_total q src r + (if Source_String (r_Source rec) = src then recordQ q rec else 0)"
proof -
  obtain b p where v: "volumeOf rec = (b, p)" by (cases "volumeOf rec")
  let ?k = "keyFor geo rec"
  have src: "rk_Source ?k = Source_String (r_Source rec)" by (simp add: keyFor_def)
  show ?thesis
  proof (cases "map_of (ro_cells r) ?k")
    case None
    then show ?thesis
      using v src pick3_volume [OF v, of q]
      by (simp add: Rollup_Observe_def rollup_total_def Let_def rest_addOther msum_update_new live_add)
  next
    case (Some c)
    have wf: "gomap_wf (ro_cells r)" using assms by (simp add: rollup_inv_def)
    show ?thesis
      using v src pick3_volume [OF v, of q] Some
        msum_update_old [OF wf Some, of "live q src" "rc_cum_update (RollupEntry_add b p 1) c"]
      by (simp add: Rollup_Observe_def rollup_total_def Let_def live_add algebra_simps)
  qed
qed

text \<open>Folding a cell of the map moves its live part into the remainder.\<close>

lemma foldCell_inv [inv_intros]: "rollup_inv r \<Longrightarrow> rollup_inv (foldCell c r)"
  unfolding foldCell_def Let_def by (rule rollup_inv_putCell) (auto intro: rollup_inv_addOther)

lemma foldCell_total:
  assumes "rollup_inv r" "map_of (ro_cells r) (re_Key (rc_cum c)) = Some c"
  shows "rollup_total q src (foldCell c r) = rollup_total q src r"
proof -
  have wf: "gomap_wf (ro_cells r)" using assms by (simp add: rollup_inv_def)
  show ?thesis
    using msum_update_old [OF wf assms(2), of "live q src" "c\<lparr>rc_folded := rc_cum c\<rparr>"]
    by (auto simp: foldCell_def Let_def rollup_total_def rest_addOther pick3_entry entryQ_cellEntry
        live_def algebra_simps)
qed

text \<open>Folding cells one after the other: each is still in the map, unchanged, when its turn comes.\<close>

definition cell_of :: "Rollup \<Rightarrow> rollupCell \<Rightarrow> bool" where
  "cell_of r c \<longleftrightarrow> map_of (ro_cells r) (re_Key (rc_cum c)) = Some c"

lemma foldCell_map:
  "map_of (ro_cells (foldCell c r)) = (map_of (ro_cells r))(re_Key (rc_cum c) \<mapsto> c\<lparr>rc_folded := rc_cum c\<rparr>)"
  by (simp add: foldCell_def Let_def map_of_update_conv)

lemma cell_of_foldCell:
  assumes "list_all (cell_of r) (c # cs)" "distinct (map (\<lambda>c. re_Key (rc_cum c)) (c # cs))"
  shows "list_all (cell_of (foldCell c r)) cs"
proof -
  have "cell_of (foldCell c r) x" if "x \<in> set cs" for x
  proof -
    have "re_Key (rc_cum x) \<noteq> re_Key (rc_cum c)" using that assms(2) by (simp add: image_iff) metis
    moreover have "cell_of r x" using that assms(1) by (simp add: list_all_iff)
    ultimately show ?thesis by (simp add: cell_of_def foldCell_map)
  qed
  then show ?thesis by (simp add: list_all_iff)
qed

lemma fold_foldCell:
  "rollup_inv r \<Longrightarrow> list_all (cell_of r) cs \<Longrightarrow> distinct (map (\<lambda>c. re_Key (rc_cum c)) cs) \<Longrightarrow>
   rollup_inv (fold foldCell cs r) \<and> rollup_total q src (fold foldCell cs r) = rollup_total q src r"
proof (induction cs arbitrary: r)
  case (Cons c cs)
  have "list_all (cell_of (foldCell c r)) cs"
    using Cons.prems(2,3) by (rule cell_of_foldCell)
  moreover have "rollup_total q src (foldCell c r) = rollup_total q src r"
    using Cons.prems(1,2) foldCell_total [of r c q src] by (simp add: cell_of_def)
  ultimately show ?case
    using Cons.IH [of "foldCell c r"] Cons.prems by (simp add: foldCell_inv)
qed simp

lemma ranked_cells:
  assumes "rollup_inv r"
  shows "list_all (cell_of r) (ranked r)" "distinct (map (\<lambda>c. re_Key (rc_cum c)) (ranked r))"
    "mset (ranked r) = mset (map snd (ro_cells r))"
proof -
  have wf: "gomap_wf (ro_cells r)" and key: "\<forall>(k, c)\<in>set (ro_cells r). re_Key (rc_cum c) = k"
    using assms by (simp_all add: rollup_inv_def)
  show m: "mset (ranked r) = mset (map snd (ro_cells r))" by (simp add: ranked_def)
  show "list_all (cell_of r) (ranked r)"
    using key map_of_mem_wf [OF wf] by (fastforce simp: ranked_def list_all_iff cell_of_def)
  have "mset (map (\<lambda>c. re_Key (rc_cum c)) (ranked r)) = mset (map (\<lambda>c. re_Key (rc_cum c)) (map snd (ro_cells r)))"
    using m by (metis mset_map)
  also have "map (\<lambda>c. re_Key (rc_cum c)) (map snd (ro_cells r)) = map fst (ro_cells r)"
    using key by auto
  finally show "distinct (map (\<lambda>c. re_Key (rc_cum c)) (ranked r))"
    using wf by (metis gomap_wf_def mset_eq_imp_distinct_iff)
qed

lemma Snapshot_fold:
  assumes "rollup_inv r"
  shows "rollup_inv (fst (Rollup_Snapshot r)) \<and>
     rollup_total q src (fst (Rollup_Snapshot r)) = rollup_total q src r"
proof -
  let ?r0 = "r\<lparr>ro_foldedKeys := length (ranked r) - cutOf r\<rparr>" and ?cs = "drop (cutOf r) (ranked r)"
  have "list_all (cell_of ?r0) ?cs" "distinct (map (\<lambda>c. re_Key (rc_cum c)) ?cs)"
    using ranked_cells(1,2) [OF assms]
    by (auto simp: list_all_iff cell_of_def drop_map [symmetric] dest: in_set_dropD)
  then show ?thesis
    using fold_foldCell [of ?r0 ?cs q src] assms
    by (simp add: Rollup_Snapshot_def Let_def rollup_total_def)
qed

interpretation rollup: conserving rollup_inv rollup_step "rollup_total q src" "rollup_weight q src"
  for q src
proof
  fix r op
  assume r: "rollup_inv r"
  show "rollup_inv (rollup_step op r)"
    using r Snapshot_fold [OF r] by (cases op) (auto simp: Observe_inv)
  show "rollup_total q src (rollup_step op r) = rollup_total q src r + rollup_weight q src op"
    using Observe_total [OF r] Snapshot_fold [OF r]
    by (cases op) (auto simp: rollup_total_def SetBounds_def rest_def)
qed

section \<open>What a snapshot shows\<close>

definition shown :: "quantity \<Rightarrow> string \<Rightarrow> RollupEntry list \<Rightarrow> u64" where
  "shown q src es = (\<Sum>e\<leftarrow>es. if rk_Source (re_Key e) = src then entryQ q e else 0)"

abbreviation liveCell :: "quantity \<Rightarrow> string \<Rightarrow> rollupCell \<Rightarrow> u64" where
  "liveCell q src c \<equiv> live q src (re_Key (rc_cum c)) c"

lemma re_Key_cellEntry [simp]: "re_Key (cellEntry c) = re_Key (rc_cum c)"
  by (simp add: cellEntry_def)

lemma shown_cells: "shown q src (map cellEntry cs) = (\<Sum>c\<leftarrow>cs. liveCell q src c)"
  by (induction cs) (auto simp: shown_def live_def entryQ_cellEntry)

lemma rest_fold: "rest q src (fold foldCell cs r) = rest q src r + (\<Sum>c\<leftarrow>cs. liveCell q src c)"
proof (induction cs arbitrary: r)
  case (Cons c cs)
  have "rest q src (foldCell c r) = rest q src r + liveCell q src c"
    by (simp add: foldCell_def Let_def rest_addOther pick3_entry entryQ_cellEntry live_def)
  with Cons show ?case by (simp add: algebra_simps)
qed simp

lemma shown_other:
  "gomap_wf m \<Longrightarrow> \<forall>(s, e)\<in>set m. re_Key e = otherKey s \<Longrightarrow>
   shown q src (map snd m) = (case map_of m src of None \<Rightarrow> 0 | Some e \<Rightarrow> entryQ q e)"
proof (induction m)
  case (Cons p m)
  obtain s e where p: "p = (s, e)" by (cases p)
  have "map_of m s = None"
    using Cons.prems(1) p by (simp add: gomap_wf_def map_of_None_iff)
  moreover have "shown q src (map snd m) = (case map_of m src of None \<Rightarrow> 0 | Some e \<Rightarrow> entryQ q e)"
    using Cons by (simp add: gomap_wf_def)
  moreover have "rk_Source (re_Key e) = s"
    using Cons.prems(2) p by (simp add: otherKey_def)
  ultimately show ?case
    by (auto simp: p shown_def)
qed (simp add: shown_def)

lemma shown_sort [simp]: "shown q src (sort_Slice lt es) = shown q src es"
  by (simp add: shown_def sum_list_sort_Slice)

lemma shown_append [simp]: "shown q src (es @ fs) = shown q src es + shown q src fs"
  by (simp add: shown_def)

lemma msum_live:
  assumes "rollup_inv r"
  shows "msum (live q src) (ro_cells r) = (\<Sum>c\<leftarrow>ranked r. liveCell q src c)"
proof -
  have "msum (live q src) (ro_cells r) = (\<Sum>c\<leftarrow>map snd (ro_cells r). liveCell q src c)"
    using assms by (fastforce simp: msum_def rollup_inv_def comp_def intro!: arg_cong [where f = sum_list])
  then show ?thesis by (simp add: ranked_def sum_list_sort_Slice)
qed

lemma Snapshot_shows_total:
  assumes "rollup_inv r"
  shows "shown q src (snd (Rollup_Snapshot r)) = rollup_total q src r"
proof -
  let ?r0 = "r\<lparr>ro_foldedKeys := length (ranked r) - cutOf r\<rparr>"
  let ?in = "take (cutOf r) (ranked r)" and ?out = "drop (cutOf r) (ranked r)"
  let ?r1 = "fold foldCell ?out ?r0"
  have "?r1 = fst (Rollup_Snapshot r)" by (simp add: Rollup_Snapshot_def Let_def)
  then have "rollup_inv ?r1" using Snapshot_fold [OF assms] by simp
  then have "shown q src (map snd (ro_other ?r1)) = rest q src ?r1"
    by (simp add: shown_other rollup_inv_def rest_def)
  also have "\<dots> = rest q src r + (\<Sum>c\<leftarrow>?out. liveCell q src c)"
    by (simp add: rest_fold)
  finally have "shown q src (snd (Rollup_Snapshot r)) =
      (\<Sum>c\<leftarrow>?in. liveCell q src c) + (rest q src r + (\<Sum>c\<leftarrow>?out. liveCell q src c))"
    by (simp add: Rollup_Snapshot_def Let_def shown_cells)
  also have "\<dots> = rest q src r + (\<Sum>c\<leftarrow>?in @ ?out. liveCell q src c)"
    by (simp only: map_append sum_list_append) (simp add: algebra_simps)
  finally show ?thesis
    by (simp add: rollup_total_def msum_live [OF assms] algebra_simps)
qed

lemma rollup_inv_New [simp]: "rollup_inv (NewRollup topN maxKeys)"
  by (simp add: rollup_inv_def NewRollup_def)

lemma rollup_total_New [simp]: "rollup_total q src (NewRollup topN maxKeys) = 0"
  by (simp add: rollup_total_def NewRollup_def rest_def)

section \<open>Idempotence\<close>

definition mark :: "rollupCell \<Rightarrow> rollupCell" where
  "mark c = c\<lparr>rc_folded := rc_cum c\<rparr>"

lemma mark_simps [simp]: "rc_cum (mark c) = rc_cum c" "mark (mark c) = mark c"
  by (simp_all add: mark_def)

lemma cellEntry_mark:
  "re_Bytes (cellEntry (mark c)) = 0" "re_Packets (cellEntry (mark c)) = 0" "re_Flows (cellEntry (mark c)) = 0"
  by (simp_all add: cellEntry_def mark_def)

lemma RollupEntry_add_0 [simp]: "RollupEntry_add 0 0 0 e = e"
  by (simp add: RollupEntry_add_def)

text \<open>A folded cell whose source has a remainder folds to nothing.\<close>

definition settled :: "Rollup \<Rightarrow> rollupCell \<Rightarrow> bool" where
  "settled r c \<longleftrightarrow> mark c = c \<and> cell_of r c \<and> map_of (ro_other r) (rk_Source (re_Key (rc_cum c))) \<noteq> None"

lemma foldCell_settled: "settled r c \<Longrightarrow> foldCell c r = r"
  using cellEntry_mark [of c]
  by (auto simp: settled_def foldCell_def Let_def addOther_def otherFor_def cell_of_def update_same mark_def)

lemma fold_settled: "list_all (settled r) cs \<Longrightarrow> fold foldCell cs r = r"
  by (induction cs) (auto simp: foldCell_settled)

lemma fold_settles:
  assumes "distinct (map (\<lambda>c. re_Key (rc_cum c)) cs)" "c \<in> set cs"
  shows "settled (fold foldCell cs r) (mark c)"
  using assms
proof (induction cs rule: rev_induct)
  case (snoc d cs)
  let ?r = "fold foldCell cs r"
  have other: "map_of (ro_other (foldCell d ?r)) s \<noteq> None" if "map_of (ro_other ?r) s \<noteq> None" for s
    using that by (auto simp: foldCell_def Let_def addOther_def map_of_update_conv)
  show ?case
  proof (cases "c = d")
    case True
    then show ?thesis
      by (simp add: settled_def cell_of_def foldCell_map flip: mark_def)
         (simp add: foldCell_def Let_def addOther_def map_of_update_conv)
  next
    case False
    then have c: "c \<in> set cs" "re_Key (rc_cum c) \<noteq> re_Key (rc_cum d)"
      using snoc.prems by (auto simp: image_iff)
    with snoc.IH snoc.prems(1) have "settled ?r (mark c)" by simp
    with c(2) other show ?thesis by (simp add: settled_def cell_of_def foldCell_map)
  qed
qed simp

definition markIn :: "rollupCell set \<Rightarrow> rollupCell \<Rightarrow> rollupCell" where
  "markIn A c = (if c \<in> A then mark c else c)"

lemma cell_unique:
  assumes "rollup_inv r" "cell_of r c" "(k, d) \<in> set (ro_cells r)"
  shows "k = re_Key (rc_cum c) \<longleftrightarrow> d = c"
  using assms map_of_mem_wf [of "ro_cells r" k d] by (auto simp: rollup_inv_def cell_of_def)

lemma foldCell_cells:
  assumes "rollup_inv r" "cell_of r c"
  shows "ro_cells (foldCell c r) = map (\<lambda>(k, d). (k, markIn {c} d)) (ro_cells r)"
proof -
  have "ro_cells (foldCell c r) = AList.update (re_Key (rc_cum c)) (mark c) (ro_cells r)"
    by (simp add: foldCell_def Let_def mark_def)
  also have "\<dots> = map (\<lambda>(k, d). (k, if k = re_Key (rc_cum c) then mark c else d)) (ro_cells r)"
    using assms by (intro update_map) (auto simp: rollup_inv_def cell_of_def)
  also have "\<dots> = map (\<lambda>(k, d). (k, markIn {c} d)) (ro_cells r)"
    using cell_unique [OF assms] by (auto simp: markIn_def)
  finally show ?thesis .
qed

lemma fold_cells:
  "rollup_inv r \<Longrightarrow> list_all (cell_of r) cs \<Longrightarrow> distinct (map (\<lambda>c. re_Key (rc_cum c)) cs) \<Longrightarrow>
   ro_cells (fold foldCell cs r) = map (\<lambda>(k, d). (k, markIn (set cs) d)) (ro_cells r)"
proof (induction cs arbitrary: r)
  case Nil
  then show ?case by (simp add: markIn_def split_beta)
next
  case (Cons c cs)
  have "mark c \<notin> set cs" using Cons.prems(3) by (auto simp: image_iff dest: arg_cong [of _ _ rc_cum])
  then have comp: "markIn (set cs) (markIn {c} d) = markIn (set (c # cs)) d" for d
    by (auto simp: markIn_def)
  have "ro_cells (fold foldCell (c # cs) r) = map (\<lambda>(k, d). (k, markIn (set cs) d)) (ro_cells (foldCell c r))"
    using Cons.IH [of "foldCell c r"] cell_of_foldCell [OF Cons.prems(2,3)] Cons.prems
    by (simp add: foldCell_inv)
  also have "\<dots> = map (\<lambda>(k, d). (k, markIn (set (c # cs)) d)) (ro_cells r)"
    using foldCell_cells [of r c] Cons.prems(1,2) comp by (simp add: comp_def split_beta)
  finally show ?case .
qed

lemma ranked_markIn:
  assumes "map snd (ro_cells r') = map (markIn A) (map snd (ro_cells r))"
  shows "ranked r' = map (markIn A) (ranked r)"
  unfolding ranked_def assms
  by (rule sort_Slice_map) (simp add: rankLess_def markIn_def)

lemma Snapshot_idem:
  assumes "rollup_inv r"
  shows "Rollup_Snapshot (fst (Rollup_Snapshot r)) = Rollup_Snapshot r"
proof -
  let ?r0 = "r\<lparr>ro_foldedKeys := length (ranked r) - cutOf r\<rparr>" and ?cut = "cutOf r"
  let ?in = "take ?cut (ranked r)" and ?out = "drop ?cut (ranked r)"
  define r1 where "r1 = fold foldCell ?out ?r0"
  have fst1: "fst (Rollup_Snapshot r) = r1" by (simp add: Rollup_Snapshot_def Let_def r1_def)
  have out: "list_all (cell_of ?r0) ?out" "distinct (map (\<lambda>c. re_Key (rc_cum c)) ?out)"
    using ranked_cells(1,2) [OF assms]
    by (auto simp: list_all_iff cell_of_def drop_map [symmetric] dest: in_set_dropD)
  have dist: "distinct (ranked r)" using ranked_cells(2) [OF assms] by (simp add: distinct_map)
  have cells: "ro_cells r1 = map (\<lambda>(k, d). (k, markIn (set ?out) d)) (ro_cells r)"
    using fold_cells [OF _ out] assms by (simp add: r1_def)
  then have ranked1: "ranked r1 = map (markIn (set ?out)) (ranked r)"
    by (intro ranked_markIn) (simp add: comp_def split_beta)
  have frame: "ro_topN (fold foldCell cs x) = ro_topN x \<and> ro_foldedKeys (fold foldCell cs x) = ro_foldedKeys x" for cs x
    by (induction cs arbitrary: x) (auto simp: foldCell_def addOther_def Let_def)
  have "ro_topN r1 = ro_topN r" "ro_foldedKeys r1 = length (ranked r) - ?cut"
    using frame [of ?out ?r0] by (simp_all add: r1_def)
  then have cut: "cutOf r1 = ?cut" "ro_foldedKeys r1 = length (ranked r1) - ?cut"
    by (simp_all add: cutOf_def [of r1] cutOf_def [of r, symmetric] cells ranked1 Let_def) (simp add: cutOf_def Let_def)
  have "set ?in \<inter> set ?out = {}"
    using dist by (metis append_take_drop_id distinct_append)
  then have "map (markIn (set ?out)) ?in = ?in"
    by (intro map_idI) (auto simp: markIn_def)
  then have take1: "take ?cut (ranked r1) = ?in" by (simp add: ranked1 take_map)
  have "settled r1 (mark c)" if "c \<in> set ?out" for c
    using fold_settles [OF out(2) that] by (simp add: r1_def)
  then have "list_all (settled r1) (drop ?cut (ranked r1))"
    by (auto simp: ranked1 drop_map list_all_iff markIn_def)
  then have "fold foldCell (drop ?cut (ranked r1)) r1 = r1" by (rule fold_settled)
  moreover have "r1\<lparr>ro_foldedKeys := length (ranked r1) - ?cut\<rparr> = r1"
    unfolding cut(2) [symmetric] by simp
  ultimately show ?thesis
    unfolding fst1 using cut(1) take1 by (simp add: Rollup_Snapshot_def Let_def flip: r1_def)
qed

section \<open>Bounds\<close>

lemma foldCell_other:
  "fst ` set (ro_other (foldCell c r)) = insert (rk_Source (re_Key (rc_cum c))) (fst ` set (ro_other r))"
  by (simp add: foldCell_def Let_def addOther_def fst_set_update)

definition sources :: "string set" where
  "sources = range Source_String"

definition rollup_sized :: "int \<Rightarrow> Rollup \<Rightarrow> bool" where
  "rollup_sized n r \<longleftrightarrow> rollup_inv r \<and> ro_maxKeys r = n \<and> int (length (ro_cells r)) \<le> n \<and>
     fst ` set (ro_other r) \<subseteq> sources \<and> rk_Source ` fst ` set (ro_cells r) \<subseteq> sources"

lemma sources_finite: "finite sources" "card sources \<le> 4"
proof -
  have "sources \<subseteq> {''netflow'', ''zenarmor'', ''merged'', ''unknown''}"
    by (auto simp: sources_def) (metis Source_String.simps Source.exhaust)
  then show "finite sources" "card sources \<le> 4"
    by (auto intro: finite_subset dest: card_mono [rotated])
qed

lemma Observe_sized:
  assumes "rollup_sized n r" "0 < n"
  shows "rollup_sized n (Rollup_Observe geo rec r)"
proof -
  have src: "rk_Source (keyFor geo rec) \<in> sources" by (simp add: keyFor_def sources_def)
  have inv: "rollup_inv (Rollup_Observe geo rec r)"
    using assms(1) by (simp add: rollup_sized_def Observe_inv)
  obtain b p where v: "volumeOf rec = (b, p)" by (cases "volumeOf rec")
  show ?thesis
  proof (cases "map_of (ro_cells r) (keyFor geo rec)")
    case None
    with assms src inv v show ?thesis
      by (auto simp: rollup_sized_def Rollup_Observe_def Let_def addOther_def fst_set_update not_le)
  next
    case (Some c)
    then have "keyFor geo rec \<in> fst ` set (ro_cells r)" by (metis map_of_None_iff option.distinct(1))
    with Some assms src inv v show ?thesis
      by (auto simp: rollup_sized_def Rollup_Observe_def Let_def fst_set_update)
  qed
qed

lemma fold_foldCell_frame:
  "ro_maxKeys (fold foldCell cs r) = ro_maxKeys r \<and> ro_topN (fold foldCell cs r) = ro_topN r \<and>
   fst ` set (ro_other (fold foldCell cs r)) = (\<lambda>c. rk_Source (re_Key (rc_cum c))) ` set cs \<union> fst ` set (ro_other r)"
proof (induction cs arbitrary: r)
  case (Cons c cs)
  have "ro_maxKeys (foldCell c r) = ro_maxKeys r" "ro_topN (foldCell c r) = ro_topN r"
    by (simp_all add: foldCell_def Let_def addOther_def)
  with Cons show ?case by (auto simp: foldCell_other)
qed simp

lemma Snapshot_sized:
  assumes "rollup_sized n r"
  shows "rollup_sized n (fst (Rollup_Snapshot r))"
proof -
  let ?r0 = "r\<lparr>ro_foldedKeys := length (ranked r) - cutOf r\<rparr>" and ?out = "drop (cutOf r) (ranked r)"
  have inv: "rollup_inv r" using assms by (simp add: rollup_sized_def)
  have out: "list_all (cell_of ?r0) ?out" "distinct (map (\<lambda>c. re_Key (rc_cum c)) ?out)"
    using ranked_cells(1,2) [OF inv]
    by (auto simp: list_all_iff cell_of_def drop_map [symmetric] dest: in_set_dropD)
  have "re_Key (rc_cum c) \<in> fst ` set (ro_cells r)" if "c \<in> set ?out" for c
    using out(1) that by (simp add: list_all_iff cell_of_def) (metis map_of_None_iff option.distinct(1))
  then have src: "(\<lambda>c. rk_Source (re_Key (rc_cum c))) ` set ?out \<subseteq> sources"
    using assms by (auto simp: rollup_sized_def)
  have "ro_cells (fold foldCell ?out ?r0) = map (\<lambda>(k, d). (k, markIn (set ?out) d)) (ro_cells r)"
    using fold_cells [OF _ out] inv by simp
  then show ?thesis
    using assms src fold_foldCell_frame [of ?out ?r0] Snapshot_fold [OF inv]
    by (simp add: rollup_sized_def Rollup_Snapshot_def Let_def image_image split_beta)
qed

lemma Snapshot_length:
  assumes "rollup_sized n r" "0 < ro_topN r"
  shows "length (snd (Rollup_Snapshot r)) \<le> nat (ro_topN r) + 4"
proof -
  let ?r1 = "fst (Rollup_Snapshot r)"
  have r1: "rollup_sized n ?r1" using assms(1) by (rule Snapshot_sized)
  then have "length (ro_other ?r1) = card (fst ` set (ro_other ?r1))"
    by (simp add: rollup_sized_def rollup_inv_def gomap_card)
  also have "\<dots> \<le> 4"
    using r1 sources_finite card_mono [of sources "fst ` set (ro_other ?r1)"]
    by (simp add: rollup_sized_def)
  finally have "length (ro_other ?r1) \<le> 4" .
  moreover have "cutOf r \<le> nat (ro_topN r)" using assms(2) by (auto simp: cutOf_def Let_def)
  ultimately show ?thesis by (simp add: Rollup_Snapshot_def Let_def)
qed

section \<open>Properties\<close>

text \<open>
  (C14) The rollup never loses or invents volume. After any history of observations, snapshots and
  retunings of the bounds, the bytes, packets and flows a snapshot shows for a source, its
  remainder series included, are exactly those of the observed records of that source (in the
  64-bit arithmetic of the counters).
\<close>

theorem rollup_conserves:
  "shown q src (snd (Rollup_Snapshot (fold rollup_step ops (NewRollup topN maxKeys)))) =
     (\<Sum>op\<leftarrow>ops. rollup_weight q src op)"
proof -
  let ?r = "fold rollup_step ops (NewRollup topN maxKeys)"
  have "rollup_inv ?r" by (rule rollup.run_inv) simp
  then have "shown q src (snd (Rollup_Snapshot ?r)) = rollup_total q src ?r"
    by (rule Snapshot_shows_total)
  also have "\<dots> = (\<Sum>op\<leftarrow>ops. rollup_weight q src op)"
    using rollup.run_total [where q = q and src = src and s = "NewRollup topN maxKeys" and ops = ops] by simp
  finally show ?thesis .
qed

text \<open>
  A snapshot with no observation since the last one shows the same series and changes
  nothing, at any point of any history.
\<close>

theorem rollup_snapshot_idempotent:
  "let r = fold rollup_step ops (NewRollup topN maxKeys)
   in Rollup_Snapshot (fst (Rollup_Snapshot r)) = Rollup_Snapshot r"
  using Snapshot_idem [OF rollup.run_inv [OF rollup_inv_New]] by (simp add: Let_def)

text \<open>
  Both bounds hold at all times: with positive bounds and any sequence of observations and
  snapshots the live map never exceeds \<^verbatim>\<open>maxKeys\<close> keys, and a snapshot emits at most \<^verbatim>\<open>topN\<close> series
  and four remainders, one per source.
\<close>

theorem rollup_bounded:
  assumes "0 < maxKeys" and "0 < topN" and "list_all (\<lambda>op. \<not> is_RSetBounds op) ops"
  shows "let r = fold rollup_step ops (NewRollup topN maxKeys)
     in int (length (ro_cells r)) \<le> maxKeys \<and> int (length (snd (Rollup_Snapshot r))) \<le> topN + 4"
proof -
  have "rollup_sized maxKeys r \<and> ro_topN r = topN \<Longrightarrow>
    rollup_sized maxKeys (fold rollup_step ops r) \<and> ro_topN (fold rollup_step ops r) = topN" for r
    using assms(3)
  proof (induction ops arbitrary: r)
    case (Cons op ops)
    have "ro_topN (rollup_step op r) = ro_topN r"
      using Cons.prems(2) fold_foldCell_frame
      by (cases op) (auto simp: Rollup_Observe_def Let_def split_beta addOther_def Rollup_Snapshot_def split: option.split)
    moreover have "rollup_sized maxKeys (rollup_step op r)"
      using Cons.prems assms(1) by (cases op) (auto intro: Observe_sized Snapshot_sized)
    ultimately show ?case using Cons by simp
  qed simp
  moreover have "rollup_sized maxKeys (NewRollup topN maxKeys)"
    using assms(1) rollup_inv_New [of topN maxKeys] by (simp add: rollup_sized_def NewRollup_def)
  ultimately have r: "rollup_sized maxKeys (fold rollup_step ops (NewRollup topN maxKeys))"
    "ro_topN (fold rollup_step ops (NewRollup topN maxKeys)) = topN"
    by (simp_all add: NewRollup_def)
  then show ?thesis
    using Snapshot_length [OF r(1)] assms(2) by (simp add: Let_def rollup_sized_def)
qed

theorem rollup_bounded_witness:
  "int (length (ro_cells (fold rollup_step [RObserve None Record_zero, RSnapshot] (NewRollup 1 1)))) \<le> 1"
  using rollup_bounded [of 1 1 "[RObserve None Record_zero, RSnapshot]"] by (simp add: Let_def)

end
