(* ===== verification/IfMap.thy ===== *)
theory IfMap
  imports Enrich
begin

text \<open>
  The interface map (\<^verbatim>\<open>internal/flow/ifmap.go\<close>): from the box's interface enumeration, interface
  metadata and operator overrides to the interfaces NetFlow indices name, the WAN addresses, the
  VLAN trunks and the subnets of their children. The map is immutable and swapped whole; a nil
  map is \<open>None\<close>. The counter of lookups that found nothing is shared between successive maps, so
  it is an argument and a result of the lookup.
\<close>

section \<open>Structures\<close>

definition LocalOriginName :: string where
  "LocalOriginName = ''locally-originated''"

definition vlanInfix :: string where
  "vlanInfix = ''_vlan''"

record childNet =
  cn_prefix :: prefix
  cn_iface :: Iface
  cn_parent :: string

record IfMap =
  im_byIndex :: "(u32, Iface) gomap"
  im_byDevice :: "(string, Iface) gomap"
  im_wanAddr :: "(addr, Iface) gomap"
  im_wanDev :: "string list"
  im_parents :: "(string, string) gomap"
  im_trunks :: "string list"
  im_childNets :: "childNet list"
  im_stated :: "(string, u32) gomap"
  im_overriddenIdx :: "u32 list"
  im_built :: time
  im_overridden :: nat
  im_conflictsDiffering :: nat
  im_conflictsAbsent :: nat
  im_disagreements :: nat
  im_unlisted :: nat
  im_named :: nat

record IfMapInput =
  in_Order :: "string list"
  in_Ifaces :: "IfaceInfo list"
  in_Stated :: "(string, u32) gomap"
  in_Override :: "(u32, string) gomap"
  in_Built :: time

section \<open>VLAN parents\<close>

text \<open>\<^verbatim>\<open>strings.LastIndex\<close>: the greatest position at which \<open>sub\<close> occurs.\<close>

definition LastIndex :: "string \<Rightarrow> string \<Rightarrow> nat option" where
  "LastIndex s sub =
     (case filter (\<lambda>i. take (length sub) (drop i s) = sub) [0..<Suc (length s)] of
        [] \<Rightarrow> None | is \<Rightarrow> Some (last is))"

definition parseVLANParent :: "string \<Rightarrow> string" where
  "parseVLANParent device =
     (case LastIndex device vlanInfix of
        None \<Rightarrow> []
      | Some i \<Rightarrow>
          if i = 0 then []
          else let tag = drop (i + length vlanInfix) device in
            if tag = [] then []
            else if \<not> list_all is_digit tag then []
            else take i device)"

definition parentOfIface :: "IfaceInfo \<Rightarrow> string" where
  "parentOfIface info = (if ii_VlanParent info \<noteq> [] then ii_VlanParent info else parseVLANParent (ii_Device info))"

section \<open>Building the map\<close>

text \<open>The first loop: topology and metadata, in interface order.\<close>

record ifMetaState =
  ms_map :: IfMap
  ms_meta :: "(string, IfaceInfo) gomap"
  ms_ready :: bool

definition ifMetaStep :: "IfaceInfo \<Rightarrow> ifMetaState \<Rightarrow> ifMetaState" where
  "ifMetaStep info s =
     (let parent = parentOfIface info;
          m = (if parent \<noteq> [] then (ms_map s)\<lparr>im_parents := AList.update (ii_Device info) parent (im_parents (ms_map s)),
                                             im_trunks := List.insert parent (im_trunks (ms_map s))\<rparr>
               else ms_map s)
      in if ii_Device info = [] then s\<lparr>ms_map := m\<rparr>
         else s\<lparr>ms_map := (if ii_IsWAN info then m\<lparr>im_wanDev := List.insert (ii_Device info) (im_wanDev m)\<rparr> else m),
                ms_meta := AList.update (ii_Device info) info (ms_meta s),
                ms_ready := (if ii_Name info \<noteq> [] then True else ms_ready s)\<rparr>)"

text \<open>The addresses of a WAN interface; the first interface to claim an address keeps it.\<close>

definition wanAddrs :: "Iface \<Rightarrow> addr list \<Rightarrow> (addr, Iface) gomap \<Rightarrow> (addr, Iface) gomap" where
  "wanAddrs iface addrs m = fold (\<lambda>a m. let a = addr_Unmap a in
     if \<not> addr_IsValid a then m
     else if map_of m a \<noteq> None then m else AList.update a iface m) addrs m"

text \<open>The second loop: the enumeration. \<open>byName\<close> is local to \<^verbatim>\<open>BuildIfMap\<close>.\<close>

definition ifOrderStep ::
  "(string, IfaceInfo) gomap \<Rightarrow> bool \<Rightarrow> (string, u32) gomap \<Rightarrow> nat \<times> string
   \<Rightarrow> IfMap \<times> (string, Iface) gomap \<Rightarrow> IfMap \<times> (string, Iface) gomap" where
  "ifOrderStep meta ready stated p s = (case (p, s) of ((i, device), (m, byName)) \<Rightarrow>
     let idx = (of_nat (i + 1) :: u32) in
     if device = [] then s
     else
       let m1 = (case map_of stated device of
                   Some st \<Rightarrow> if st \<noteq> 0 \<and> st \<noteq> idx then im_disagreements_update Suc m else m
                 | None \<Rightarrow> m);
           info = map_of meta device;
           name = (case info of Some x \<Rightarrow> ii_Name x | None \<Rightarrow> []);
           iface = Iface_zero\<lparr>if_Device := device, if_Name := name, if_Index := idx,
                              if_Unresolved := (\<not> ready \<and> name = [])\<rparr>;
           byName1 = (if name \<noteq> [] \<and> map_of byName name = None then AList.update name iface byName else byName)
       in (m1\<lparr>im_byIndex := AList.update idx iface (im_byIndex m1),
              im_byDevice := AList.update device iface (im_byDevice m1),
              im_wanAddr := (case info of
                 Some x \<Rightarrow> if ii_IsWAN x then wanAddrs iface (ii_Addrs x) (im_wanAddr m1) else im_wanAddr m1
               | None \<Rightarrow> im_wanAddr m1)\<rparr>, byName1))"

text \<open>The subnets of the VLAN children.\<close>

definition childNetsOf :: "IfMap \<Rightarrow> IfaceInfo \<Rightarrow> childNet list" where
  "childNetsOf m info =
     (if ii_Device info = [] \<or> ii_Prefixes info = [] then []
      else case map_of (im_parents m) (ii_Device info) of
        None \<Rightarrow> []
      | Some parent \<Rightarrow>
          if parent = [] then []
          else
            let iface = (case map_of (im_byDevice m) (ii_Device info) of
                   Some f \<Rightarrow> f
                 | None \<Rightarrow> Iface_zero\<lparr>if_Device := ii_Device info, if_Name := ii_Name info\<rparr>)
            in map (\<lambda>pfx. \<lparr>cn_prefix = prefix_Masked pfx, cn_iface = iface, cn_parent = parent\<rparr>)
                 (filter prefix_IsValid (ii_Prefixes info)))"

text \<open>One operator override.\<close>

definition resolveOverride :: "(string, Iface) gomap \<Rightarrow> (string, Iface) gomap \<Rightarrow> u32 \<Rightarrow> string \<Rightarrow> Iface" where
  "resolveOverride byDevice byName idx value =
     (let f = (case map_of byDevice value of
                 Some f \<Rightarrow> f
               | None \<Rightarrow> (case map_of byName value of Some f \<Rightarrow> f | None \<Rightarrow> Iface_zero\<lparr>if_Name := value\<rparr>));
          f = f\<lparr>if_Index := idx\<rparr>
      in if if_Name f \<noteq> [] then f\<lparr>if_Unresolved := False\<rparr> else f)"

definition overrideStep :: "(string, Iface) gomap \<Rightarrow> u32 \<times> string \<Rightarrow> IfMap \<Rightarrow> IfMap" where
  "overrideStep byName p m = (case p of (idx, raw) \<Rightarrow>
     let value = TrimSpace raw in
     if value = [] then m
     else
       let resolved = resolveOverride (im_byDevice m) byName idx value;
           m1 = (case map_of (im_byIndex m) idx of
                   None \<Rightarrow> im_conflictsAbsent_update Suc m
                 | Some prev \<Rightarrow> if if_Device prev \<noteq> if_Device resolved \<or> if_Name prev \<noteq> if_Name resolved
                     then im_conflictsDiffering_update Suc m else m)
       in m1\<lparr>im_byIndex := AList.update idx resolved (im_byIndex m1),
             im_overriddenIdx := List.insert idx (im_overriddenIdx m1),
             im_overridden := Suc (im_overridden m1)\<rparr>)"

definition IfMap_empty :: "IfMapInput \<Rightarrow> IfMap" where
  "IfMap_empty i = \<lparr>im_byIndex = [(0, Iface_zero\<lparr>if_Name := LocalOriginName\<rparr>)], im_byDevice = [],
     im_wanAddr = [], im_wanDev = [], im_parents = [], im_trunks = [], im_childNets = [],
     im_stated = in_Stated i, im_overriddenIdx = [], im_built = in_Built i, im_overridden = 0,
     im_conflictsDiffering = 0, im_conflictsAbsent = 0, im_disagreements = 0, im_unlisted = 0, im_named = 0\<rparr>"

definition ifMetaPhase :: "IfMapInput \<Rightarrow> ifMetaState" where
  "ifMetaPhase i = fold ifMetaStep (in_Ifaces i) \<lparr>ms_map = IfMap_empty i, ms_meta = [], ms_ready = False\<rparr>"

definition ifOrderPhase :: "IfMapInput \<Rightarrow> IfMap \<times> (string, Iface) gomap" where
  "ifOrderPhase i = (let s = ifMetaPhase i in
     fold (ifOrderStep (ms_meta s) (ms_ready s) (in_Stated i)) (enumerate 0 (in_Order i)) (ms_map s, []))"

definition BuildIfMap :: "IfMapInput \<Rightarrow> IfMap" where
  "BuildIfMap i =
     (let (m1, byName) = ifOrderPhase i;
          m2 = m1\<lparr>im_unlisted := length (filter (\<lambda>(d, _). d \<notin> set (in_Order i)) (ms_meta (ifMetaPhase i)))\<rparr>;
          m3 = m2\<lparr>im_childNets := concat (map (childNetsOf m2) (in_Ifaces i))\<rparr>;
          m4 = fold (overrideStep byName) (in_Override i) m3
      in m4\<lparr>im_named := length (filter (\<lambda>(idx, f). idx \<noteq> 0 \<and> if_Name f \<noteq> []) (im_byIndex m4))\<rparr>)"

section \<open>Lookups\<close>

definition IfMap_Iface :: "IfMap option \<Rightarrow> u32 \<Rightarrow> nat \<Rightarrow> Iface \<times> nat" where
  "IfMap_Iface mo idx unmapped =
     (case mo of
        None \<Rightarrow> (Iface_zero, unmapped)
      | Some m \<Rightarrow> (case map_of (im_byIndex m) idx of
            Some f \<Rightarrow> (f, unmapped) | None \<Rightarrow> (Iface_zero, Suc unmapped)))"

definition IfMap_WANFor :: "IfMap option \<Rightarrow> addr \<Rightarrow> Iface option" where
  "IfMap_WANFor mo a =
     (case mo of None \<Rightarrow> None
      | Some m \<Rightarrow> let a = addr_Unmap a in if \<not> addr_IsValid a then None else map_of (im_wanAddr m) a)"

definition IfMap_IsWAN :: "IfMap option \<Rightarrow> string \<Rightarrow> bool" where
  "IfMap_IsWAN mo device =
     (case mo of None \<Rightarrow> False | Some m \<Rightarrow> device \<noteq> [] \<and> device \<in> set (im_wanDev m))"

definition IfMap_IfaceForDevice :: "IfMap option \<Rightarrow> string \<Rightarrow> Iface option" where
  "IfMap_IfaceForDevice mo device =
     (case mo of None \<Rightarrow> None | Some m \<Rightarrow> if device = [] then None else map_of (im_byDevice m) device)"

definition IfMap_ParentOf :: "IfMap option \<Rightarrow> string \<Rightarrow> string option" where
  "IfMap_ParentOf mo device =
     (case mo of None \<Rightarrow> None
      | Some m \<Rightarrow> if device = [] then None
          else (case map_of (im_parents m) device of Some p \<Rightarrow> if p \<noteq> [] then Some p else None | None \<Rightarrow> None))"

definition IfMap_HasVLANChildren :: "IfMap option \<Rightarrow> string \<Rightarrow> bool" where
  "IfMap_HasVLANChildren mo device =
     (case mo of None \<Rightarrow> False | Some m \<Rightarrow> device \<noteq> [] \<and> device \<in> set (im_trunks m))"

text \<open>The scan of \<^verbatim>\<open>VLANChildFor\<close>: \<open>None\<close> is its early return on an ambiguous address.\<close>

fun childScan :: "string \<Rightarrow> addr \<Rightarrow> childNet list \<Rightarrow> Iface \<times> string \<Rightarrow> Iface option" where
  "childScan parent a [] (found, device) = (if if_Device found = [] then None else Some found)"
| "childScan parent a (cn # cns) (found, device) =
     (if \<not> prefix_Contains (cn_prefix cn) a then childScan parent a cns (found, device)
      else if device \<noteq> [] \<and> if_Device (cn_iface cn) \<noteq> device then None
      else childScan parent a cns
        (if cn_parent cn \<noteq> parent then Iface_zero else cn_iface cn, if_Device (cn_iface cn)))"

definition IfMap_VLANChildFor :: "IfMap option \<Rightarrow> string \<Rightarrow> addr \<Rightarrow> Iface option" where
  "IfMap_VLANChildFor mo parent a =
     (case mo of None \<Rightarrow> None
      | Some m \<Rightarrow> if parent = [] \<or> \<not> addr_IsValid a then None
          else childScan parent (addr_Unmap a) (im_childNets m) (Iface_zero, []))"

definition IfMap_Age :: "IfMap option \<Rightarrow> time \<Rightarrow> duration" where
  "IfMap_Age mo now =
     (case mo of None \<Rightarrow> 0
      | Some m \<Rightarrow> if time_IsZero (im_built m) then 0
          else let d = time_Sub now (im_built m) in if d < 0 then 0 else d)"

record IfaceEntry =
  ie_Index :: u32
  ie_Device :: string
  ie_Name :: string
  ie_Overridden :: bool
  ie_Stated :: u32
  ie_Disagrees :: bool

definition IfMap_Entries :: "IfMap option \<Rightarrow> IfaceEntry list" where
  "IfMap_Entries mo =
     (case mo of None \<Rightarrow> []
      | Some m \<Rightarrow> sort_key ie_Index (map (\<lambda>(idx, f).
          let st = (case map_of (im_stated m) (if_Device f) of Some s \<Rightarrow> s | None \<Rightarrow> 0)
          in \<lparr>ie_Index = idx, ie_Device = if_Device f, ie_Name = if_Name f,
              ie_Overridden = (idx \<in> set (im_overriddenIdx m)), ie_Stated = st,
              ie_Disagrees = (st \<noteq> 0 \<and> st \<noteq> idx)\<rparr>) (im_byIndex m)))"

section \<open>The index law\<close>

text \<open>The interface the enumeration gives a position.\<close>

definition orderIface :: "(string, IfaceInfo) gomap \<Rightarrow> bool \<Rightarrow> string \<Rightarrow> u32 \<Rightarrow> Iface" where
  "orderIface meta ready device idx =
     (let name = (case map_of meta device of Some x \<Rightarrow> ii_Name x | None \<Rightarrow> [])
      in Iface_zero\<lparr>if_Device := device, if_Name := name, if_Index := idx, if_Unresolved := (\<not> ready \<and> name = [])\<rparr>)"

lemma ifOrderStep_byIndex:
  "im_byIndex (fst (ifOrderStep meta ready stated (i, device) s)) =
     (if device = [] then im_byIndex (fst s)
      else AList.update (of_nat (i + 1)) (orderIface meta ready device (of_nat (i + 1))) (im_byIndex (fst s)))"
  by (cases s) (simp add: ifOrderStep_def orderIface_def Let_def split: option.split)

lemma unat_of_nat_less: "n < 2 ^ 32 \<Longrightarrow> unat (of_nat n :: u32) = n"
  by (simp add: unat_of_nat take_bit_nat_eq_self)

lemma fold_ifOrder_byIndex:
  assumes "n + length ds < 2 ^ 32"
  shows "map_of (im_byIndex (fst (fold (ifOrderStep meta ready stated) (enumerate n ds) s))) idx =
     (if n < unat idx \<and> unat idx \<le> n + length ds \<and> ds ! (unat idx - n - 1) \<noteq> []
      then Some (orderIface meta ready (ds ! (unat idx - n - 1)) idx)
      else map_of (im_byIndex (fst s)) idx)"
  using assms
proof (induction ds arbitrary: n s)
  case (Cons d ds)
  let ?s = "ifOrderStep meta ready stated (n, d) s"
  have un: "unat (of_nat (n + 1) :: u32) = n + 1" using Cons.prems by (intro unat_of_nat_less) simp
  have IH: "map_of (im_byIndex (fst (fold (ifOrderStep meta ready stated) (enumerate (Suc n) ds) ?s))) idx =
      (if Suc n < unat idx \<and> unat idx \<le> Suc n + length ds \<and> ds ! (unat idx - Suc n - 1) \<noteq> []
       then Some (orderIface meta ready (ds ! (unat idx - Suc n - 1)) idx)
       else map_of (im_byIndex (fst ?s)) idx)"
    using Cons.prems by (intro Cons.IH) simp
  show ?case
  proof (cases "unat idx = n + 1")
    case True
    then have "idx = of_nat (n + 1)" using un by (metis word_unat_eq_iff)
    with True IH show ?thesis by (simp add: ifOrderStep_byIndex map_of_update_conv)
  next
    case False
    then have ne: "idx \<noteq> of_nat (n + 1)" using un by auto
    show ?thesis
    proof (cases "unat idx \<le> n")
      case True
      with IH ne show ?thesis by (simp add: ifOrderStep_byIndex map_of_update_conv)
    next
      case False
      with \<open>unat idx \<noteq> n + 1\<close> have gt: "Suc n < unat idx" by simp
      then have "(d # ds) ! (unat idx - n - 1) = ds ! (unat idx - Suc n - 1)"
        by (cases "unat idx - n - 1") auto
      with IH ne gt show ?thesis by (simp add: ifOrderStep_byIndex map_of_update_conv)
    qed
  qed
qed auto

lemma overrideStep_frame [simp]:
  "im_byDevice (overrideStep byName p m) = im_byDevice m"
  "im_childNets (overrideStep byName p m) = im_childNets m" "im_parents (overrideStep byName p m) = im_parents m"
  by (simp_all add: overrideStep_def Let_def split: prod.split option.split)

lemma fold_override_frame [simp]:
  "im_byDevice (fold (overrideStep byName) ov m) = im_byDevice m"
  "im_childNets (fold (overrideStep byName) ov m) = im_childNets m"
  "im_parents (fold (overrideStep byName) ov m) = im_parents m"
  by (induction ov arbitrary: m) auto

lemma fold_override_byIndex:
  "gomap_wf ov \<Longrightarrow> map_of (im_byIndex (fold (overrideStep byName) ov m)) idx =
     (case map_of ov idx of
        Some raw \<Rightarrow> if TrimSpace raw \<noteq> []
          then Some (resolveOverride (im_byDevice m) byName idx (TrimSpace raw)) else map_of (im_byIndex m) idx
      | None \<Rightarrow> map_of (im_byIndex m) idx)"
proof (induction ov arbitrary: m)
  case (Cons p ov)
  obtain i raw where p: "p = (i, raw)" by (cases p)
  have "map_of ov i = None" using Cons.prems p by (simp add: gomap_wf_def map_of_None_iff)
  with Cons p show ?case
    by (auto simp: overrideStep_def Let_def map_of_update_conv gomap_wf_def split: option.split)
qed simp

definition named_by :: "(string, Iface) gomap \<Rightarrow> (Iface \<Rightarrow> string) \<Rightarrow> bool" where
  "named_by m f \<longleftrightarrow> (\<forall>(k, i)\<in>set m. f i = k)"

lemma named_by_update: "named_by m f \<Longrightarrow> f i = k \<Longrightarrow> named_by (AList.update k i m) f"
  unfolding named_by_def by (rule ball_update)

lemma named_by_get: "named_by m f \<Longrightarrow> map_of m k = Some i \<Longrightarrow> f i = k"
  by (auto simp: named_by_def dest!: map_of_SomeD)

lemma ifOrderStep_named:
  assumes "named_by (im_byDevice (fst s)) if_Device \<and> named_by (snd s) if_Name"
  shows "named_by (im_byDevice (fst (ifOrderStep meta ready stated p s))) if_Device \<and>
     named_by (snd (ifOrderStep meta ready stated p s)) if_Name"
  using assms by (cases s; cases p)
    (auto simp: ifOrderStep_def Let_def intro!: named_by_update split: option.split)

lemma fold_ifOrder_named:
  "named_by (im_byDevice (fst s)) if_Device \<and> named_by (snd s) if_Name \<Longrightarrow>
   named_by (im_byDevice (fst (fold (ifOrderStep meta ready stated) xs s))) if_Device \<and>
   named_by (snd (fold (ifOrderStep meta ready stated) xs s)) if_Name"
proof (induction xs arbitrary: s)
  case (Cons x xs)
  from ifOrderStep_named [OF Cons.prems] show ?case using Cons.IH by simp
qed simp

lemma ifMetaStep_frame [simp]:
  "im_byIndex (ms_map (ifMetaStep info s)) = im_byIndex (ms_map s)"
  "im_byDevice (ms_map (ifMetaStep info s)) = im_byDevice (ms_map s)"
  by (simp_all add: ifMetaStep_def Let_def)

lemma fold_ifMeta_frame [simp]:
  "im_byIndex (ms_map (fold ifMetaStep infos s)) = im_byIndex (ms_map s)"
  "im_byDevice (ms_map (fold ifMetaStep infos s)) = im_byDevice (ms_map s)"
  by (induction infos arbitrary: s) auto

lemma resolveOverride_states:
  assumes "named_by byDevice if_Device" "named_by byName if_Name"
  shows "if_Index (resolveOverride byDevice byName idx v) = idx \<and>
     (if_Device (resolveOverride byDevice byName idx v) = v \<or> if_Name (resolveOverride byDevice byName idx v) = v)"
proof (cases "map_of byDevice v")
  case None
  show ?thesis
  proof (cases "map_of byName v")
    case (Some f)
    with None named_by_get [OF assms(2) Some] show ?thesis by (simp add: resolveOverride_def Let_def)
  qed (use None in \<open>simp add: resolveOverride_def Let_def\<close>)
next
  case (Some f)
  with named_by_get [OF assms(1) Some] show ?thesis by (simp add: resolveOverride_def Let_def)
qed

text \<open>The parts of a built map.\<close>

lemma ifOrderPhase_named:
  "named_by (im_byDevice (fst (ifOrderPhase i))) if_Device \<and> named_by (snd (ifOrderPhase i)) if_Name"
  unfolding ifOrderPhase_def Let_def
  by (rule fold_ifOrder_named) (simp add: ifMetaPhase_def IfMap_empty_def named_by_def)

text \<open>What the enumeration alone says about an index.\<close>

definition enumerated :: "IfMapInput \<Rightarrow> u32 \<Rightarrow> Iface option" where
  "enumerated i idx =
     (if 0 < unat idx \<and> unat idx \<le> length (in_Order i) \<and> in_Order i ! (unat idx - 1) \<noteq> []
      then Some (orderIface (ms_meta (ifMetaPhase i)) (ms_ready (ifMetaPhase i)) (in_Order i ! (unat idx - 1)) idx)
      else if idx = 0 then Some (Iface_zero\<lparr>if_Name := LocalOriginName\<rparr>) else None)"

lemma ifOrderPhase_byIndex:
  assumes "length (in_Order i) < 2 ^ 32"
  shows "map_of (im_byIndex (fst (ifOrderPhase i))) idx = enumerated i idx"
  using fold_ifOrder_byIndex [of 0 "in_Order i"] assms
  by (simp add: ifOrderPhase_def Let_def enumerated_def ifMetaPhase_def IfMap_empty_def)

lemma BuildIfMap_byIndex:
  assumes "length (in_Order i) < 2 ^ 32" "gomap_wf (in_Override i)"
  shows "map_of (im_byIndex (BuildIfMap i)) idx =
      (case map_of (in_Override i) idx of
         Some raw \<Rightarrow> if TrimSpace raw \<noteq> []
           then Some (resolveOverride (im_byDevice (fst (ifOrderPhase i))) (snd (ifOrderPhase i)) idx (TrimSpace raw))
           else enumerated i idx
       | None \<Rightarrow> enumerated i idx)"
  using ifOrderPhase_byIndex [OF assms(1)]
  by (simp add: BuildIfMap_def Let_def split_beta fold_override_byIndex [OF assms(2)] split: option.split)

section \<open>VLAN children\<close>

definition owners :: "addr \<Rightarrow> childNet list \<Rightarrow> childNet list" where
  "owners a cns = filter (\<lambda>cn. prefix_Contains (cn_prefix cn) a) cns"

abbreviation cn_device :: "childNet \<Rightarrow> string" where
  "cn_device cn \<equiv> if_Device (cn_iface cn)"

lemma childScan_known:
  "\<forall>cn\<in>set cns. cn_device cn \<noteq> [] \<Longrightarrow> d \<noteq> [] \<Longrightarrow>
   childScan parent a cns (found, d) =
     (if \<forall>cn\<in>set (owners a cns). cn_device cn = d
      then (if owners a cns = [] then (if if_Device found = [] then None else Some found)
            else if cn_parent (last (owners a cns)) = parent then Some (cn_iface (last (owners a cns))) else None)
      else None)"
proof (induction cns arbitrary: found)
  case (Cons cn cns)
  then show ?case by (auto simp: owners_def Iface_zero_def)
qed (simp add: owners_def)

lemma childScan_owners:
  assumes "\<forall>cn\<in>set cns. cn_device cn \<noteq> []"
  shows "childScan parent a cns (Iface_zero, []) =
     (case owners a cns of
        [] \<Rightarrow> None
      | o' # os \<Rightarrow> if (\<forall>cn\<in>set os. cn_device cn = cn_device o') \<and> cn_parent (last (o' # os)) = parent
          then Some (cn_iface (last (o' # os))) else None)"
  using assms
proof (induction cns)
  case (Cons cn cns)
  show ?case
  proof (cases "prefix_Contains (cn_prefix cn) a")
    case False
    with Cons show ?thesis by (simp add: owners_def)
  next
    case True
    then have "childScan parent a (cn # cns) (Iface_zero, []) =
        childScan parent a cns (if cn_parent cn \<noteq> parent then Iface_zero else cn_iface cn, cn_device cn)"
      by simp
    also have "\<dots> = (if \<forall>x\<in>set (owners a cns). cn_device x = cn_device cn
        then (if owners a cns = [] then (if cn_parent cn = parent then Some (cn_iface cn) else None)
              else if cn_parent (last (owners a cns)) = parent then Some (cn_iface (last (owners a cns))) else None)
        else None)"
      using Cons.prems by (simp add: childScan_known Iface_zero_def)
    finally show ?thesis using True by (simp add: owners_def)
  qed
qed (simp add: owners_def Iface_zero_def)

text \<open>In a built map the parent of a child subnet is a function of its device.\<close>

lemma childNetsOf_wf:
  assumes "named_by (im_byDevice m) if_Device" "cn \<in> set (childNetsOf m info)"
  shows "cn_device cn = ii_Device info \<and> ii_Device info \<noteq> [] \<and>
     map_of (im_parents m) (ii_Device info) = Some (cn_parent cn) \<and> cn_parent cn \<noteq> []"
  using assms named_by_get [OF assms(1), of "ii_Device info"]
  by (auto simp: childNetsOf_def Let_def split: if_splits option.splits)

lemma BuildIfMap_childNets:
  assumes "cn \<in> set (im_childNets (BuildIfMap i))"
  shows "cn_device cn \<noteq> [] \<and> IfMap_ParentOf (Some (BuildIfMap i)) (cn_device cn) = Some (cn_parent cn)"
proof -
  define m where "m = (fst (ifOrderPhase i))\<lparr>im_unlisted :=
    length (filter (\<lambda>(d, _). d \<notin> set (in_Order i)) (ms_meta (ifMetaPhase i)))\<rparr>"
  have named: "named_by (im_byDevice m) if_Device"
    using ifOrderPhase_named [of i] by (simp add: m_def)
  have built: "im_childNets (BuildIfMap i) = concat (map (childNetsOf m) (in_Ifaces i))"
    "im_parents (BuildIfMap i) = im_parents m"
    by (simp_all add: BuildIfMap_def Let_def split_beta m_def)
  then obtain info where "cn \<in> set (childNetsOf m info)" using assms by auto
  from childNetsOf_wf [OF named this] built(2) show ?thesis
    by (auto simp: IfMap_ParentOf_def)
qed

section \<open>Naming of VLAN children\<close>

lemma last_filter_upt:
  assumes "P k" "k < n" "\<And>i. k < i \<Longrightarrow> i < n \<Longrightarrow> \<not> P i"
  shows "\<exists>is. filter P [0..<n] = is @ [k]"
proof -
  have "[0..<n] = [0..<k] @ k # [Suc k..<n]"
    using assms(2) by (metis le_add_diff_inverse less_imp_le_nat upt_add_eq_append upt_conv_Cons zero_le)
  moreover have "filter P [Suc k..<n] = []" using assms(3) by (auto simp: filter_empty_conv)
  ultimately show ?thesis using assms(1) by simp
qed

lemma LastIndex_infix:
  assumes "list_all is_digit tag"
  shows "LastIndex (p @ vlanInfix @ tag) vlanInfix = Some (length p)"
proof -
  let ?s = "p @ vlanInfix @ tag"
  let ?P = "\<lambda>i. take (length vlanInfix) (drop i ?s) = vlanInfix"
  have "\<not> ?P i" if "length p < i" for i
  proof
    assume P: "?P i"
    let ?t = "''vlan'' @ tag"
    define d where "d = drop (i - length p - 1) ?t"
    have "drop i ?s = d"
      using that by (cases "i - length p") (auto simp: vlanInfix_def d_def)
    with P have "take (length vlanInfix) d = vlanInfix" by (simp only:)
    then obtain r where "d = CHR ''_'' # r" by (cases d) (auto simp: vlanInfix_def)
    then have "CHR ''_'' \<in> set ?t" unfolding d_def by (metis in_set_dropD list.set_intros(1))
    then have "CHR ''_'' \<in> set tag" by simp
    then show False using assms by (auto simp: list_all_iff is_digit_def)
  qed
  then obtain is' where "filter ?P [0..<Suc (length ?s)] = is' @ [length p]"
    using last_filter_upt [of ?P "length p" "Suc (length ?s)"] by auto
  then show ?thesis unfolding LastIndex_def by (cases is') auto
qed

lemma VLANChildFor_iff:
  "IfMap_VLANChildFor (Some (BuildIfMap i)) parent a = Some f \<longleftrightarrow>
     parent \<noteq> [] \<and> addr_IsValid a \<and>
     (let os = owners (addr_Unmap a) (im_childNets (BuildIfMap i)) in
        os \<noteq> [] \<and> f = cn_iface (last os) \<and> list_all (\<lambda>cn. cn_device cn = if_Device f) os \<and>
        IfMap_ParentOf (Some (BuildIfMap i)) (if_Device f) = Some parent)"
proof -
  let ?cns = "im_childNets (BuildIfMap i)"
  let ?os = "owners (addr_Unmap a) ?cns"
  have dev: "\<forall>cn\<in>set ?cns. cn_device cn \<noteq> []" using BuildIfMap_childNets by blast
  have par: "IfMap_ParentOf (Some (BuildIfMap i)) (cn_device (last ?os)) = Some (cn_parent (last ?os))"
    if "?os \<noteq> []"
  proof -
    have "last ?os \<in> set ?os" using that by simp
    then have "last ?os \<in> set ?cns" by (simp add: owners_def)
    then show ?thesis using BuildIfMap_childNets by blast
  qed
  define l where "l = last ?os"
  have scan: "childScan parent (addr_Unmap a) ?cns (Iface_zero, []) =
      (if ?os \<noteq> [] \<and> list_all (\<lambda>cn. cn_device cn = cn_device l) ?os \<and> cn_parent l = parent
       then Some (cn_iface l) else None)"
  proof (cases ?os)
    case (Cons o' os)
    have "(\<forall>cn\<in>set os. cn_device cn = cn_device o') \<longleftrightarrow> list_all (\<lambda>cn. cn_device cn = cn_device l) ?os"
      using last_in_set [of "o' # os"] unfolding l_def Cons by (auto simp: list_all_iff)
    then show ?thesis unfolding childScan_owners [OF dev] Cons list.case l_def by simp
  qed (simp add: childScan_owners [OF dev])
  show ?thesis
    using par unfolding l_def [symmetric] Let_def
    by (auto simp: IfMap_VLANChildFor_def scan)
qed

section \<open>Properties\<close>

definition overrideOf :: "IfMapInput \<Rightarrow> u32 \<Rightarrow> string" where
  "overrideOf i idx = (case map_of (in_Override i) idx of Some raw \<Rightarrow> TrimSpace raw | None \<Rightarrow> [])"

text \<open>
  The index law: position \<open>n\<close> of the box's enumeration is what NetFlow index \<open>n\<close> names, an operator
  override wins where it says anything, index 0 is the firewall itself, and any other index
  names nothing: the empty interface is answered and the miss counted, never a guess.
\<close>

theorem ifindex_law:
  assumes "length (in_Order i) < 2 ^ 32" and "gomap_wf (in_Override i)"
    and "IfMap_Iface (Some (BuildIfMap i)) idx c = (f, c')"
  shows "if overrideOf i idx \<noteq> [] then if_Index f = idx \<and> c' = c \<and>
           (if_Device f = overrideOf i idx \<or> if_Name f = overrideOf i idx)
     else if 0 < unat idx \<and> unat idx \<le> length (in_Order i) \<and> in_Order i ! (unat idx - 1) \<noteq> []
       then if_Device f = in_Order i ! (unat idx - 1) \<and> if_Index f = idx \<and> c' = c
     else if idx = 0 then f = Iface_zero\<lparr>if_Name := LocalOriginName\<rparr> \<and> c' = c
     else f = Iface_zero \<and> c' = Suc c"
proof -
  let ?o = "ifOrderPhase i"
  have res: "if_Index (resolveOverride (im_byDevice (fst ?o)) (snd ?o) idx v) = idx \<and>
      (if_Device (resolveOverride (im_byDevice (fst ?o)) (snd ?o) idx v) = v \<or>
       if_Name (resolveOverride (im_byDevice (fst ?o)) (snd ?o) idx v) = v)" for v
    using resolveOverride_states ifOrderPhase_named by blast
  show ?thesis
  proof (cases "overrideOf i idx = []")
    case True
    then have "map_of (im_byIndex (BuildIfMap i)) idx = enumerated i idx"
      using BuildIfMap_byIndex [OF assms(1,2)] by (auto simp: overrideOf_def split: option.splits)
    with True assms(3) show ?thesis
      by (auto simp: IfMap_Iface_def enumerated_def orderIface_def Let_def split: if_splits)
  next
    case False
    then have "map_of (im_byIndex (BuildIfMap i)) idx =
        Some (resolveOverride (im_byDevice (fst ?o)) (snd ?o) idx (overrideOf i idx))"
      using BuildIfMap_byIndex [OF assms(1,2)] by (auto simp: overrideOf_def split: option.splits)
    with False assms(3) res show ?thesis by (auto simp: IfMap_Iface_def)
  qed
qed

theorem ifindex_law_witness:
  "fst (IfMap_Iface (Some (BuildIfMap \<lparr>in_Order = [''igb0'', ''igb1''], in_Ifaces = [], in_Stated = [],
      in_Override = [], in_Built = 0\<rparr>)) 3 0) = Iface_zero"
proof -
  let ?i = "\<lparr>in_Order = [''igb0'', ''igb1''], in_Ifaces = [], in_Stated = [], in_Override = [], in_Built = 0\<rparr>"
  obtain f c where fc: "IfMap_Iface (Some (BuildIfMap ?i)) 3 0 = (f, c)" by fastforce
  then show ?thesis using ifindex_law [of ?i 3 0 f c] by (simp add: overrideOf_def)
qed

text \<open>
  A trunk record is attributed to a VLAN child only on unambiguous evidence: the lookup answers
  exactly when some configured child subnet contains the address, every such subnet belongs to
  one device, and that device's parent is the trunk asked about.
\<close>

theorem vlan_child_unambiguous:
  "IfMap_VLANChildFor (Some (BuildIfMap i)) parent a = Some f \<longleftrightarrow>
     parent \<noteq> [] \<and> addr_IsValid a \<and>
     (let os = owners (addr_Unmap a) (im_childNets (BuildIfMap i)) in
        os \<noteq> [] \<and> f = cn_iface (last os) \<and> list_all (\<lambda>cn. cn_device cn = if_Device f) os \<and>
        IfMap_ParentOf (Some (BuildIfMap i)) (if_Device f) = Some parent)"
  by (rule VLANChildFor_iff)

text \<open>
  Parent names are recovered from VLAN device names: a device named by its parent, the infix
  \<^verbatim>\<open>_vlan\<close> and a numeric tag parses back to that parent, whatever the parent is called.
\<close>

theorem vlan_parent_roundtrip:
  assumes "parent \<noteq> []" and "tag \<noteq> []" and "list_all is_digit tag"
  shows "parseVLANParent (parent @ ''_vlan'' @ tag) = parent"
  using LastIndex_infix [OF assms(3), of parent] assms
  by (simp add: parseVLANParent_def Let_def vlanInfix_def)

theorem vlan_parent_roundtrip_witness: "parseVLANParent (''ixl0'' @ ''_vlan'' @ ''50'') = ''ixl0''"
  by (rule vlan_parent_roundtrip) (simp_all add: is_digit_def)

end
