(* ===== verification/PfTables.thy ===== *)
theory PfTables
  imports NetAddr
begin

text \<open>
  The two tables built from pf's state rows: the policy-routing egress of a conversation
  (\<^verbatim>\<open>routetable.go\<close>) and its address translation (\<^verbatim>\<open>nattable.go\<close>). Both are immutable and rebuilt on
  every poll, carrying over what the previous table saw within the retention window; a nil
  table is \<open>None\<close>.
\<close>

section \<open>Rows and keys\<close>

record StateRow =
  sr_Proto :: string
  sr_Direction :: string
  sr_SrcAddr :: string
  sr_SrcPort :: string
  sr_DstAddr :: string
  sr_DstPort :: string
  sr_RouteToDevice :: string
  sr_NatAddr :: string
  sr_NatPort :: string

record routeKey =
  k_proto :: u8
  k_src :: addr
  k_dst :: addr
  k_sport :: u16
  k_dport :: u16

definition protoNumbers :: "(string, u8) gomap" where
  "protoNumbers = [(''icmp'', 1), (''igmp'', 2), (''ipencap'', 4), (''tcp'', 6), (''udp'', 17), (''gre'', 47),
     (''esp'', 50), (''ah'', 51), (''ipv6-icmp'', 58), (''icmpv6'', 58), (''ospf'', 89), (''sctp'', 132)]"

definition parseTuple :: "u8 \<Rightarrow> string \<Rightarrow> string \<Rightarrow> string \<Rightarrow> string \<Rightarrow> routeKey option" where
  "parseTuple proto srcAddr srcPort dstAddr dstPort =
     (case ParseAddr srcAddr of None \<Rightarrow> None | Some src \<Rightarrow>
      case ParseAddr dstAddr of None \<Rightarrow> None | Some dst \<Rightarrow>
      case ParseUint 16 srcPort of None \<Rightarrow> None | Some sport \<Rightarrow>
      case ParseUint 16 dstPort of None \<Rightarrow> None | Some dport \<Rightarrow>
        Some \<lparr>k_proto = proto, k_src = addr_Unmap src, k_dst = addr_Unmap dst,
              k_sport = of_nat sport, k_dport = of_nat dport\<rparr>)"

text \<open>\<^verbatim>\<open>keyOfState\<close> repeats the parsing of \<^verbatim>\<open>parseTuple\<close> after the protocol lookup.\<close>

definition keyOfState :: "StateRow \<Rightarrow> routeKey option" where
  "keyOfState row =
     (case map_of protoNumbers (sr_Proto row) of None \<Rightarrow> None | Some proto \<Rightarrow>
      case ParseAddr (sr_SrcAddr row) of None \<Rightarrow> None | Some src \<Rightarrow>
      case ParseAddr (sr_DstAddr row) of None \<Rightarrow> None | Some dst \<Rightarrow>
      case ParseUint 16 (sr_SrcPort row) of None \<Rightarrow> None | Some sport \<Rightarrow>
      case ParseUint 16 (sr_DstPort row) of None \<Rightarrow> None | Some dport \<Rightarrow>
        Some \<lparr>k_proto = proto, k_src = addr_Unmap src, k_dst = addr_Unmap dst,
              k_sport = of_nat sport, k_dport = of_nat dport\<rparr>)"

definition reverseKey :: "routeKey \<Rightarrow> routeKey" where
  "reverseKey k = \<lparr>k_proto = k_proto k, k_src = k_dst k, k_dst = k_src k,
     k_sport = k_dport k, k_dport = k_sport k\<rparr>"

section \<open>Policy routing\<close>

record routeEntry =
  rt_device :: string
  rt_lastSeen :: time

record RouteTableStats =
  rts_Entries :: nat
  rts_PolicyRouted :: nat
  rts_Skipped :: nat
  rts_Conflicts :: nat
  rts_Carried :: nat

record RouteTable =
  rt_byTuple :: "(routeKey, routeEntry) gomap"
  rt_built :: time
  rt_stats :: RouteTableStats

record RouteTableInput =
  ri_Rows :: "StateRow list"
  ri_Built :: time
  ri_Previous :: "RouteTable option"
  ri_Retain :: duration

definition RouteTableStats_zero :: RouteTableStats where
  "RouteTableStats_zero = \<lparr>rts_Entries = 0, rts_PolicyRouted = 0, rts_Skipped = 0, rts_Conflicts = 0, rts_Carried = 0\<rparr>"

definition countPolicyRouted :: "string \<Rightarrow> RouteTableStats \<Rightarrow> RouteTableStats" where
  "countPolicyRouted device s = (if device \<noteq> [] then rts_PolicyRouted_update Suc s else s)"

definition routeRow :: "time \<Rightarrow> StateRow \<Rightarrow> RouteTable \<Rightarrow> RouteTable" where
  "routeRow built row t =
     (if sr_Direction row \<noteq> ''in'' then t
      else case keyOfState row of
        None \<Rightarrow> rt_stats_update (rts_Skipped_update Suc) t
      | Some key \<Rightarrow>
          if map_of (rt_byTuple t) key \<noteq> None then rt_stats_update (rts_Conflicts_update Suc) t
          else t\<lparr>rt_byTuple := AList.update key \<lparr>rt_device = sr_RouteToDevice row, rt_lastSeen = built\<rparr> (rt_byTuple t),
                 rt_stats := countPolicyRouted (sr_RouteToDevice row) (rt_stats t)\<rparr>)"

definition routeCarry :: "time \<Rightarrow> duration \<Rightarrow> routeKey \<times> routeEntry \<Rightarrow> RouteTable \<Rightarrow> RouteTable" where
  "routeCarry built retain p t = (case p of (key, prev) \<Rightarrow>
     if map_of (rt_byTuple t) key \<noteq> None then t
     else if retain < time_Sub built (rt_lastSeen prev) then t
     else t\<lparr>rt_byTuple := AList.update key prev (rt_byTuple t),
            rt_stats := countPolicyRouted (rt_device prev) (rts_Carried_update Suc (rt_stats t))\<rparr>)"

definition BuildRouteTable :: "RouteTableInput \<Rightarrow> RouteTable" where
  "BuildRouteTable i =
     (let t = fold (routeRow (ri_Built i)) (ri_Rows i)
                \<lparr>rt_byTuple = [], rt_built = ri_Built i, rt_stats = RouteTableStats_zero\<rparr>;
          t = (case ri_Previous i of
                 Some prev \<Rightarrow> if 0 < ri_Retain i
                   then fold (routeCarry (ri_Built i) (ri_Retain i)) (rt_byTuple prev) t else t
               | None \<Rightarrow> t)
      in rt_stats_update (rts_Entries_update (\<lambda>_. length (rt_byTuple t))) t)"

definition RouteTable_Egress :: "RouteTable option \<Rightarrow> u8 \<Rightarrow> addr \<Rightarrow> u16 \<Rightarrow> addr \<Rightarrow> u16 \<Rightarrow> string option" where
  "RouteTable_Egress t proto src sport dst dport =
     (case t of None \<Rightarrow> None
      | Some t \<Rightarrow> map_option rt_device (map_of (rt_byTuple t)
          \<lparr>k_proto = proto, k_src = addr_Unmap src, k_dst = addr_Unmap dst, k_sport = sport, k_dport = dport\<rparr>))"

definition RouteTable_Age :: "RouteTable option \<Rightarrow> time \<Rightarrow> duration" where
  "RouteTable_Age t now =
     (case t of None \<Rightarrow> 0
      | Some t \<Rightarrow> if time_IsZero (rt_built t) then 0
          else let d = time_Sub now (rt_built t) in if 0 < d then d else 0)"

section \<open>Translation\<close>

record natEntry =
  ne_canon :: routeKey
  ne_lastSeen :: time

record NATTableStats =
  nts_Entries :: nat
  nts_Skipped :: nat
  nts_Conflicts :: nat
  nts_Carried :: nat

record NATTable =
  nt_byPost :: "(routeKey, natEntry) gomap"
  nt_byPre :: "routeKey list"
  nt_built :: time
  nt_stats :: NATTableStats

record NATTableInput =
  ni_Rows :: "StateRow list"
  ni_Built :: time
  ni_Previous :: "NATTable option"
  ni_Retain :: duration

definition NATTable_put :: "routeKey \<Rightarrow> routeKey \<Rightarrow> time \<Rightarrow> NATTable \<Rightarrow> NATTable" where
  "NATTable_put post pre at t =
     (case map_of (nt_byPost t) post of
        Some existing \<Rightarrow> if ne_canon existing \<noteq> pre then nt_stats_update (nts_Conflicts_update Suc) t else t
      | None \<Rightarrow> t\<lparr>nt_byPost := AList.update post \<lparr>ne_canon = pre, ne_lastSeen = at\<rparr> (nt_byPost t),
                  nt_byPre := List.insert pre (nt_byPre t)\<rparr>)"

definition natRow :: "time \<Rightarrow> StateRow \<Rightarrow> NATTable \<Rightarrow> NATTable" where
  "natRow built row t =
     (if sr_Direction row \<noteq> ''out'' \<or> sr_NatAddr row = [] \<or> sr_NatPort row = [] then t
      else case map_of protoNumbers (sr_Proto row) of
        None \<Rightarrow> nt_stats_update (nts_Skipped_update Suc) t
      | Some proto \<Rightarrow>
      case parseTuple proto (sr_SrcAddr row) (sr_SrcPort row) (sr_DstAddr row) (sr_DstPort row) of
        None \<Rightarrow> nt_stats_update (nts_Skipped_update Suc) t
      | Some post \<Rightarrow>
      case parseTuple proto (sr_NatAddr row) (sr_NatPort row) (sr_DstAddr row) (sr_DstPort row) of
        None \<Rightarrow> nt_stats_update (nts_Skipped_update Suc) t
      | Some pre \<Rightarrow>
          if post = pre then t
          else NATTable_put (reverseKey post) (reverseKey pre) built (NATTable_put post pre built t))"

definition natCarry :: "time \<Rightarrow> duration \<Rightarrow> routeKey \<times> natEntry \<Rightarrow> NATTable \<Rightarrow> NATTable" where
  "natCarry built retain p t = (case p of (key, prev) \<Rightarrow>
     if map_of (nt_byPost t) key \<noteq> None then t
     else if retain < time_Sub built (ne_lastSeen prev) then t
     else t\<lparr>nt_byPost := AList.update key prev (nt_byPost t),
            nt_byPre := List.insert (ne_canon prev) (nt_byPre t),
            nt_stats := nts_Carried_update Suc (nt_stats t)\<rparr>)"

definition BuildNATTable :: "NATTableInput \<Rightarrow> NATTable" where
  "BuildNATTable i =
     (let t = fold (natRow (ni_Built i)) (ni_Rows i)
                \<lparr>nt_byPost = [], nt_byPre = [], nt_built = ni_Built i,
                 nt_stats = \<lparr>nts_Entries = 0, nts_Skipped = 0, nts_Conflicts = 0, nts_Carried = 0\<rparr>\<rparr>;
          t = (case ni_Previous i of
                 Some prev \<Rightarrow> if 0 < ni_Retain i
                   then fold (natCarry (ni_Built i) (ni_Retain i)) (nt_byPost prev) t else t
               | None \<Rightarrow> t)
      in nt_stats_update (nts_Entries_update (\<lambda>_. length (nt_byPost t))) t)"

definition NATTable_IsTranslatedPre :: "NATTable option \<Rightarrow> routeKey \<Rightarrow> bool" where
  "NATTable_IsTranslatedPre t pre = (case t of None \<Rightarrow> False | Some t \<Rightarrow> pre \<in> set (nt_byPre t))"

definition NATTable_Canonical :: "NATTable option \<Rightarrow> routeKey \<Rightarrow> routeKey option" where
  "NATTable_Canonical t post =
     (case t of None \<Rightarrow> None | Some t \<Rightarrow> map_option ne_canon (map_of (nt_byPost t) post))"

definition NATTable_Age :: "NATTable option \<Rightarrow> time \<Rightarrow> duration" where
  "NATTable_Age t now =
     (case t of None \<Rightarrow> 0
      | Some t \<Rightarrow> if time_IsZero (nt_built t) then 0 else time_Sub now (nt_built t))"

section \<open>The rolling union\<close>

text \<open>
  What both tables promise: a build answers from its own rows where they state the key, and
  otherwise from the previous table while the answer is within the retention window. Over a
  series of builds an answer is the one of the latest build that stated the key, and that
  build is recent.
\<close>

locale rolling =
  fixes build :: "'i \<Rightarrow> 't option \<Rightarrow> 't"
    and get :: "'t \<Rightarrow> 'k \<Rightarrow> 'e option"
    and fresh :: "'i \<Rightarrow> 'k \<Rightarrow> 'e option"
    and seen :: "'e \<Rightarrow> time"
    and at :: "'i \<Rightarrow> time"
    and retain :: "'i \<Rightarrow> duration"
    and wf :: "'t \<Rightarrow> bool"
  assumes build_wf: "wf (build i p)"
    and fresh_seen: "fresh i k = Some e \<Longrightarrow> seen e = at i"
    and build_get: "(\<And>t. p = Some t \<Longrightarrow> wf t) \<Longrightarrow> get (build i p) k =
          (case fresh i k of
             Some e \<Rightarrow> Some e
           | None \<Rightarrow> (case p of
                 None \<Rightarrow> None
               | Some t \<Rightarrow> if 0 < retain i then
                   (case get t k of
                      None \<Rightarrow> None
                    | Some e \<Rightarrow> if retain i < time_Sub (at i) (seen e) then None else Some e)
                   else None))"
begin

fun builds :: "'i list \<Rightarrow> 't option \<Rightarrow> 't option" where
  "builds [] p = p"
| "builds (i # is) p = builds is (Some (build i p))"

lemma builds_snoc: "builds (is @ [i]) p = Some (build i (builds is p))"
  by (induction "is" arbitrary: p) auto

lemma builds_wf: "(\<And>t. p = Some t \<Longrightarrow> wf t) \<Longrightarrow> builds is p = Some t \<Longrightarrow> wf t"
  by (induction "is" arbitrary: p) (auto intro: build_wf)

lemma builds_origin:
  assumes "builds (is @ [l]) None = Some t" "get t k = Some e"
  shows "\<exists>as i bs. is @ [l] = as @ i # bs \<and> fresh i k = Some e \<and> (\<forall>j\<in>set bs. fresh j k = None) \<and>
     (i = l \<or> time_Sub (at l) (at i) \<le> retain l)"
  using assms
proof (induction "is" arbitrary: l t rule: rev_induct)
  case Nil
  then have "fresh l k = Some e"
    using build_get [of None l k] by (auto split: option.splits)
  then show ?case by (intro exI [of _ "[]"]) auto
next
  case (snoc m ms)
  obtain t' where t': "builds (ms @ [m]) None = Some t'" by (simp add: builds_snoc)
  have wf: "wf t'" using builds_wf [OF _ t'] by simp
  have t: "t = build l (Some t')"
    using snoc.prems(1) t' builds_snoc [of "ms @ [m]" l None] by simp
  show ?case
  proof (cases "fresh l k")
    case (Some e')
    then have "e' = e"
      using snoc.prems(2) t build_get [of "Some t'" l k] wf by simp
    with Some show ?thesis
      by (intro exI [of _ "ms @ [m]"] exI [of _ l] exI [of _ "[]"]) simp
  next
    case None
    then have old: "get t' k = Some e" "time_Sub (at l) (seen e) \<le> retain l"
      using snoc.prems(2) t build_get [of "Some t'" l k] wf by (auto split: option.splits if_splits)
    obtain as i bs where o: "ms @ [m] = as @ i # bs" "fresh i k = Some e" "\<forall>j\<in>set bs. fresh j k = None"
      using snoc.IH [OF t' old(1)] by blast
    with None old(2) fresh_seen [OF o(2)] show ?thesis
      by (intro exI [of _ as] exI [of _ i] exI [of _ "bs @ [l]"]) auto
  qed
qed

end

section \<open>The tables implement it\<close>

definition routeFresh :: "RouteTableInput \<Rightarrow> routeKey \<Rightarrow> routeEntry option" where
  "routeFresh i k = map_option (\<lambda>row. \<lparr>rt_device = sr_RouteToDevice row, rt_lastSeen = ri_Built i\<rparr>)
     (find (\<lambda>row. sr_Direction row = ''in'' \<and> keyOfState row = Some k) (ri_Rows i))"

lemma routeRow_get:
  "map_of (rt_byTuple (routeRow built row t)) k =
     (case map_of (rt_byTuple t) k of
        Some e \<Rightarrow> Some e
      | None \<Rightarrow> if sr_Direction row = ''in'' \<and> keyOfState row = Some k
               then Some \<lparr>rt_device = sr_RouteToDevice row, rt_lastSeen = built\<rparr> else None)"
  by (auto simp: routeRow_def map_of_update_conv split: option.split)

lemma fold_routeRow_get:
  "map_of (rt_byTuple (fold (routeRow built) rows t)) k =
     (case map_of (rt_byTuple t) k of
        Some e \<Rightarrow> Some e
      | None \<Rightarrow> map_option (\<lambda>row. \<lparr>rt_device = sr_RouteToDevice row, rt_lastSeen = built\<rparr>)
          (find (\<lambda>row. sr_Direction row = ''in'' \<and> keyOfState row = Some k) rows))"
  by (induction rows arbitrary: t) (auto simp: routeRow_get split: option.split)

lemma routeRow_wf: "gomap_wf (rt_byTuple t) \<Longrightarrow> gomap_wf (rt_byTuple (routeRow built row t))"
  by (simp add: routeRow_def split: option.split)

lemma fold_routeRow_wf: "gomap_wf (rt_byTuple t) \<Longrightarrow> gomap_wf (rt_byTuple (fold (routeRow built) rows t))"
  by (induction rows arbitrary: t) (auto simp: routeRow_wf)

lemma fold_routeCarry_get:
  "gomap_wf m \<Longrightarrow> map_of (rt_byTuple (fold (routeCarry built retain) m t)) k =
     (case map_of (rt_byTuple t) k of
        Some e \<Rightarrow> Some e
      | None \<Rightarrow> (case map_of m k of None \<Rightarrow> None
          | Some e \<Rightarrow> if retain < time_Sub built (rt_lastSeen e) then None else Some e))"
proof (induction m arbitrary: t)
  case (Cons p m)
  obtain k' e' where p: "p = (k', e')" by (cases p)
  have "map_of m k' = None" using Cons.prems p by (simp add: gomap_wf_def map_of_None_iff)
  with Cons p show ?case
    by (auto simp: routeCarry_def map_of_update_conv gomap_wf_def split: option.split)
qed (auto split: option.split)

lemma fold_routeCarry_wf:
  "gomap_wf (rt_byTuple t) \<Longrightarrow> gomap_wf (rt_byTuple (fold (routeCarry built retain) m t))"
  by (induction m arbitrary: t) (auto simp: routeCarry_def split: prod.split)

interpretation route: rolling "\<lambda>i p. BuildRouteTable (i\<lparr>ri_Previous := p\<rparr>)" "\<lambda>t. map_of (rt_byTuple t)"
  routeFresh rt_lastSeen ri_Built ri_Retain "\<lambda>t. gomap_wf (rt_byTuple t)"
proof
  fix i p k e
  show "gomap_wf (rt_byTuple (BuildRouteTable (i\<lparr>ri_Previous := p\<rparr>)))"
    by (simp add: BuildRouteTable_def Let_def fold_routeRow_wf fold_routeCarry_wf split: option.split)
  show "routeFresh i k = Some e \<Longrightarrow> rt_lastSeen e = ri_Built i"
    by (auto simp: routeFresh_def)
  assume "\<And>t. p = Some t \<Longrightarrow> gomap_wf (rt_byTuple t)"
  then show "map_of (rt_byTuple (BuildRouteTable (i\<lparr>ri_Previous := p\<rparr>))) k =
      (case routeFresh i k of Some e \<Rightarrow> Some e
       | None \<Rightarrow> (case p of None \<Rightarrow> None
           | Some t \<Rightarrow> if 0 < ri_Retain i then
               (case map_of (rt_byTuple t) k of None \<Rightarrow> None
                | Some e \<Rightarrow> if ri_Retain i < time_Sub (ri_Built i) (rt_lastSeen e) then None else Some e)
               else None))"
    by (auto simp: BuildRouteTable_def Let_def routeFresh_def fold_routeRow_get fold_routeCarry_get
        split: option.split)
qed

text \<open>The translations a row states, in both directions.\<close>

definition natPairs :: "StateRow \<Rightarrow> (routeKey \<times> routeKey) list" where
  "natPairs row =
     (if sr_Direction row \<noteq> ''out'' \<or> sr_NatAddr row = [] \<or> sr_NatPort row = [] then []
      else case map_of protoNumbers (sr_Proto row) of None \<Rightarrow> [] | Some proto \<Rightarrow>
      case (parseTuple proto (sr_SrcAddr row) (sr_SrcPort row) (sr_DstAddr row) (sr_DstPort row),
            parseTuple proto (sr_NatAddr row) (sr_NatPort row) (sr_DstAddr row) (sr_DstPort row)) of
        (Some post, Some pre) \<Rightarrow>
          if post = pre then [] else [(post, pre), (reverseKey post, reverseKey pre)]
      | _ \<Rightarrow> [])"

definition natFresh :: "NATTableInput \<Rightarrow> routeKey \<Rightarrow> natEntry option" where
  "natFresh i k = map_option (\<lambda>pre. \<lparr>ne_canon = pre, ne_lastSeen = ni_Built i\<rparr>)
     (map_of (concat (map natPairs (ni_Rows i))) k)"

lemma NATTable_put_get:
  "map_of (nt_byPost (NATTable_put post pre at t)) k =
     (case map_of (nt_byPost t) k of
        Some e \<Rightarrow> Some e
      | None \<Rightarrow> if k = post then Some \<lparr>ne_canon = pre, ne_lastSeen = at\<rparr> else None)"
  by (auto simp: NATTable_put_def map_of_update_conv split: option.split)

lemma natRow_get:
  "map_of (nt_byPost (natRow built row t)) k =
     (case map_of (nt_byPost t) k of
        Some e \<Rightarrow> Some e
      | None \<Rightarrow> map_option (\<lambda>pre. \<lparr>ne_canon = pre, ne_lastSeen = built\<rparr>) (map_of (natPairs row) k))"
  by (auto simp: natRow_def natPairs_def NATTable_put_get split: option.split)

lemma fold_natRow_get:
  "map_of (nt_byPost (fold (natRow built) rows t)) k =
     (case map_of (nt_byPost t) k of
        Some e \<Rightarrow> Some e
      | None \<Rightarrow> map_option (\<lambda>pre. \<lparr>ne_canon = pre, ne_lastSeen = built\<rparr>)
          (map_of (concat (map natPairs rows)) k))"
  by (induction rows arbitrary: t) (auto simp: natRow_get map_add_def split: option.split)

text \<open>\<^verbatim>\<open>byPre\<close> is the image of \<^verbatim>\<open>byPost\<close>.\<close>

definition nat_wf :: "NATTable \<Rightarrow> bool" where
  "nat_wf t \<longleftrightarrow> gomap_wf (nt_byPost t) \<and> set (nt_byPre t) = ne_canon ` ran (map_of (nt_byPost t))"

lemma ran_fun_upd_None: "m k = None \<Longrightarrow> ran (m(k \<mapsto> v)) = insert v (ran m)"
  by (rule ran_map_upd)

lemma nat_wf_put [inv_intros]: "nat_wf t \<Longrightarrow> nat_wf (NATTable_put post pre at t)"
  by (auto simp: nat_wf_def NATTable_put_def map_of_update_conv ran_fun_upd_None split: option.split)

lemma nat_wf_stats [simp]: "nat_wf (nt_stats_update f t) = nat_wf t"
  by (simp add: nat_wf_def)

lemma nat_wf_row [inv_intros]: "nat_wf t \<Longrightarrow> nat_wf (natRow built row t)"
  by (auto simp: natRow_def nat_wf_put split: option.split)

lemma nat_wf_rows: "nat_wf t \<Longrightarrow> nat_wf (fold (natRow built) rows t)"
  by (induction rows arbitrary: t) (auto simp: nat_wf_row)

lemma nat_wf_carry [inv_intros]: "nat_wf t \<Longrightarrow> nat_wf (natCarry built retain p t)"
  by (cases p) (auto simp: natCarry_def nat_wf_def map_of_update_conv ran_fun_upd_None)

lemma nat_wf_carries: "nat_wf t \<Longrightarrow> nat_wf (fold (natCarry built retain) m t)"
  by (induction m arbitrary: t) (auto simp: nat_wf_carry)

lemma fold_natCarry_get:
  "gomap_wf m \<Longrightarrow> map_of (nt_byPost (fold (natCarry built retain) m t)) k =
     (case map_of (nt_byPost t) k of
        Some e \<Rightarrow> Some e
      | None \<Rightarrow> (case map_of m k of None \<Rightarrow> None
          | Some e \<Rightarrow> if retain < time_Sub built (ne_lastSeen e) then None else Some e))"
proof (induction m arbitrary: t)
  case (Cons p m)
  obtain k' e' where p: "p = (k', e')" by (cases p)
  have "map_of m k' = None" using Cons.prems p by (simp add: gomap_wf_def map_of_None_iff)
  with Cons p show ?case
    by (auto simp: natCarry_def map_of_update_conv gomap_wf_def split: option.split)
qed (auto split: option.split)

interpretation nat: rolling "\<lambda>i p. BuildNATTable (i\<lparr>ni_Previous := p\<rparr>)" "\<lambda>t. map_of (nt_byPost t)"
  natFresh ne_lastSeen ni_Built ni_Retain nat_wf
proof
  fix i p k e
  show "nat_wf (BuildNATTable (i\<lparr>ni_Previous := p\<rparr>))"
    by (auto simp: BuildNATTable_def Let_def intro!: nat_wf_rows nat_wf_carries split: option.split)
       (auto simp: nat_wf_def)
  show "natFresh i k = Some e \<Longrightarrow> ne_lastSeen e = ni_Built i"
    by (auto simp: natFresh_def)
  assume "\<And>t. p = Some t \<Longrightarrow> nat_wf t"
  then show "map_of (nt_byPost (BuildNATTable (i\<lparr>ni_Previous := p\<rparr>))) k =
      (case natFresh i k of Some e \<Rightarrow> Some e
       | None \<Rightarrow> (case p of None \<Rightarrow> None
           | Some t \<Rightarrow> if 0 < ni_Retain i then
               (case map_of (nt_byPost t) k of None \<Rightarrow> None
                | Some e \<Rightarrow> if ni_Retain i < time_Sub (ni_Built i) (ne_lastSeen e) then None else Some e)
               else None))"
    by (auto simp: BuildNATTable_def Let_def natFresh_def fold_natRow_get fold_natCarry_get nat_wf_def
        split: option.split)
qed

section \<open>Both directions of a translation\<close>

lemma reverseKey_idem [simp]: "reverseKey (reverseKey k) = k"
  by (simp add: reverseKey_def)

lemma reverseKey_inject [simp]: "reverseKey a = reverseKey b \<longleftrightarrow> a = b"
  by (metis reverseKey_idem)

lemma natPairs_reverse:
  "map_of (natPairs row @ rest) k = Some v \<Longrightarrow> reverseKey k \<noteq> k \<Longrightarrow>
   (\<And>v. map_of rest k = Some v \<Longrightarrow> map_of rest (reverseKey k) = Some (reverseKey v)) \<Longrightarrow>
   map_of (natPairs row @ rest) (reverseKey k) = Some (reverseKey v)"
  by (auto simp: natPairs_def map_add_def split: option.splits if_splits)

lemma natFresh_reverse:
  assumes "natFresh i k = Some e" "reverseKey k \<noteq> k"
  shows "natFresh i (reverseKey k) = Some (e\<lparr>ne_canon := reverseKey (ne_canon e)\<rparr>)"
proof -
  have "map_of (concat (map natPairs rows)) k = Some v \<Longrightarrow>
      map_of (concat (map natPairs rows)) (reverseKey k) = Some (reverseKey v)" for rows v
  proof (induction rows arbitrary: v)
    case (Cons row rows)
    then show ?case using natPairs_reverse [of row "concat (map natPairs rows)" k v] assms(2) by simp
  qed simp
  with assms(1) show ?thesis by (auto simp: natFresh_def)
qed

definition nat_sym :: "NATTable \<Rightarrow> bool" where
  "nat_sym t \<longleftrightarrow> (\<forall>k e. map_of (nt_byPost t) k = Some e \<longrightarrow> reverseKey k \<noteq> k \<longrightarrow>
     map_of (nt_byPost t) (reverseKey k) = Some (e\<lparr>ne_canon := reverseKey (ne_canon e)\<rparr>))"

lemma BuildNATTable_sym:
  assumes "\<And>t. p = Some t \<Longrightarrow> nat_wf t \<and> nat_sym t"
  shows "nat_sym (BuildNATTable (i\<lparr>ni_Previous := p\<rparr>))"
  unfolding nat_sym_def
proof (intro allI impI)
  fix k e
  let ?t = "BuildNATTable (i\<lparr>ni_Previous := p\<rparr>)"
  assume get: "map_of (nt_byPost ?t) k = Some e" and ne: "reverseKey k \<noteq> k"
  note law = nat.build_get [of p i] and wf = assms
  have none: "natFresh i (reverseKey k) = None" if "natFresh i k = None"
    using that natFresh_reverse [of i "reverseKey k"] ne by (cases "natFresh i (reverseKey k)") auto
  show "map_of (nt_byPost ?t) (reverseKey k) = Some (e\<lparr>ne_canon := reverseKey (ne_canon e)\<rparr>)"
  proof (cases "natFresh i k")
    case (Some e')
    with get law [of k] wf have "e' = e" by simp
    with natFresh_reverse [OF Some ne] law [of "reverseKey k"] wf show ?thesis by simp
  next
    case None
    with get law [of k] wf obtain t where t: "p = Some t" "0 < ni_Retain i" "map_of (nt_byPost t) k = Some e"
      "\<not> ni_Retain i < time_Sub (ni_Built i) (ne_lastSeen e)"
      by (auto split: option.splits if_splits)
    with wf ne have "map_of (nt_byPost t) (reverseKey k) = Some (e\<lparr>ne_canon := reverseKey (ne_canon e)\<rparr>)"
      by (auto simp: nat_sym_def)
    with t none [OF None] law [of "reverseKey k"] wf show ?thesis by simp
  qed
qed

lemma builds_sym: "nat.builds is None = Some t \<Longrightarrow> nat_wf t \<and> nat_sym t"
proof (induction "is" arbitrary: t rule: rev_induct)
  case (snoc i "is")
  then have t: "t = BuildNATTable (i\<lparr>ni_Previous := nat.builds is None\<rparr>)"
    by (simp add: nat.builds_snoc)
  with snoc.IH show ?case
    using BuildNATTable_sym [of "nat.builds is None" i] nat.build_wf by auto
qed simp

section \<open>Properties\<close>

text \<open>A series of polls, each build superseding the one before.\<close>

definition routePolls :: "RouteTableInput list \<Rightarrow> RouteTable option" where
  "routePolls is = fold (\<lambda>i p. Some (BuildRouteTable (i\<lparr>ri_Previous := p\<rparr>))) is None"

definition natPolls :: "NATTableInput list \<Rightarrow> NATTable option" where
  "natPolls is = fold (\<lambda>i p. Some (BuildNATTable (i\<lparr>ni_Previous := p\<rparr>))) is None"

lemma routePolls_builds: "routePolls is = route.builds is None"
proof -
  have "fold (\<lambda>i p. Some (BuildRouteTable (i\<lparr>ri_Previous := p\<rparr>))) is p = route.builds is p" for p
    by (induction "is" arbitrary: p) auto
  then show ?thesis by (simp add: routePolls_def)
qed

lemma natPolls_builds: "natPolls is = nat.builds is None"
proof -
  have "fold (\<lambda>i p. Some (BuildNATTable (i\<lparr>ni_Previous := p\<rparr>))) is p = nat.builds is p" for p
    by (induction "is" arbitrary: p) auto
  then show ?thesis by (simp add: natPolls_def)
qed

definition states_route :: "routeKey \<Rightarrow> StateRow \<Rightarrow> bool" where
  "states_route k row \<longleftrightarrow> sr_Direction row = ''in'' \<and> keyOfState row = Some k"

text \<open>
  An egress answer is pf's own latest word: after any series of polls, the device answered
  for a tuple was stated by an inbound state row of that tuple, in the latest poll that stated
  the tuple at all, and that poll is the current one or within the retention window of it.
\<close>

theorem egress_latest_within_retention:
  assumes "RouteTable_Egress (routePolls (is @ [l])) proto src sport dst dport = Some dev"
    and "k = \<lparr>k_proto = proto, k_src = addr_Unmap src, k_dst = addr_Unmap dst, k_sport = sport, k_dport = dport\<rparr>"
  shows "\<exists>as i bs row. is @ [l] = as @ i # bs \<and> row \<in> set (ri_Rows i) \<and> states_route k row \<and>
     dev = sr_RouteToDevice row \<and> list_all (\<lambda>j. \<not> list_ex (states_route k) (ri_Rows j)) bs \<and>
     (i = l \<or> time_Sub (ri_Built l) (ri_Built i) \<le> ri_Retain l)"
proof -
  obtain t where t: "route.builds (is @ [l]) None = Some t" by (simp add: route.builds_snoc)
  then obtain e where e: "map_of (rt_byTuple t) k = Some e" "dev = rt_device e"
    using assms by (auto simp: RouteTable_Egress_def routePolls_builds)
  obtain as i bs where o: "is @ [l] = as @ i # bs" "routeFresh i k = Some e"
    "\<forall>j\<in>set bs. routeFresh j k = None" "i = l \<or> time_Sub (ri_Built l) (ri_Built i) \<le> ri_Retain l"
    using route.builds_origin [OF t e(1)] by blast
  obtain row where row: "row \<in> set (ri_Rows i)" "states_route k row" "sr_RouteToDevice row = dev"
    using o(2) e(2) by (auto simp: routeFresh_def states_route_def find_Some_iff) (metis nth_mem)
  have "list_all (\<lambda>j. \<not> list_ex (states_route k) (ri_Rows j)) bs"
    using o(3) by (auto simp: list_all_iff list_ex_iff routeFresh_def states_route_def find_None_iff)
  with o(1,4) row show ?thesis by blast
qed

definition sample_row :: StateRow where
  "sample_row = \<lparr>sr_Proto = ''tcp'', sr_Direction = ''in'', sr_SrcAddr = ''10.0.0.5'', sr_SrcPort = ''40000'',
     sr_DstAddr = ''192.0.2.9'', sr_DstPort = ''443'', sr_RouteToDevice = ''igb1'', sr_NatAddr = [], sr_NatPort = []\<rparr>"

definition sample_poll :: "StateRow list \<Rightarrow> time \<Rightarrow> RouteTableInput" where
  "sample_poll rows at = \<lparr>ri_Rows = rows, ri_Built = at, ri_Previous = None, ri_Retain = 100\<rparr>"

theorem egress_latest_within_retention_witness:
  "\<exists>as i bs row. [sample_poll [sample_row] 10] @ [sample_poll [] 60] = as @ i # bs \<and>
     row \<in> set (ri_Rows i) \<and> sr_RouteToDevice row = ''igb1''"
proof -
  have "RouteTable_Egress (routePolls ([sample_poll [sample_row] 10] @ [sample_poll [] 60]))
      6 (AddrV4 0x0A000005) 40000 (AddrV4 0xC0000209) 443 = Some ''igb1''"
    by (simp add: routePolls_def RouteTable_Egress_def BuildRouteTable_def routeRow_def routeCarry_def
        sample_poll_def sample_row_def keyOfState_def protoNumbers_def parse_text time_defs Let_def)
  from egress_latest_within_retention [OF this refl] show ?thesis
    by (elim exE conjE) (intro exI conjI, assumption+, erule sym)
qed

text \<open>
  Translations are known in both directions or not at all: after any series of polls, a
  post-NAT tuple that maps to a pre-NAT tuple has its reverse mapped to the reverse, unless the
  tuple is its own reverse, so an upload is never de-duplicated without its download. The set of
  translated pre-NAT tuples is exactly the image of the mapping.
\<close>

theorem nat_both_directions:
  assumes "NATTable_Canonical (natPolls is) post = Some pre" and "reverseKey post \<noteq> post"
  shows "NATTable_Canonical (natPolls is) (reverseKey post) = Some (reverseKey pre) \<and>
     (\<forall>k. NATTable_IsTranslatedPre (natPolls is) k \<longleftrightarrow> (\<exists>p. NATTable_Canonical (natPolls is) p = Some k))"
proof -
  obtain t e where t: "nat.builds is None = Some t" "map_of (nt_byPost t) post = Some e" "ne_canon e = pre"
    using assms(1) by (auto simp: NATTable_Canonical_def natPolls_builds split: option.splits)
  have "nat_wf t" "nat_sym t" using builds_sym [OF t(1)] by simp_all
  with t assms(2) show ?thesis
    by (auto simp: natPolls_builds NATTable_Canonical_def NATTable_IsTranslatedPre_def nat_sym_def nat_wf_def ran_def)
qed

theorem nat_both_directions_witness:
  "NATTable_Canonical (natPolls [\<lparr>ni_Rows = [sample_row\<lparr>sr_Direction := ''out'', sr_SrcAddr := ''198.51.100.1'',
       sr_NatAddr := ''10.0.0.5'', sr_NatPort := ''40000''\<rparr>], ni_Built = 10, ni_Previous = None, ni_Retain = 0\<rparr>])
     \<lparr>k_proto = 6, k_src = AddrV4 0xC0000209, k_dst = AddrV4 0xC6336401, k_sport = 443, k_dport = 40000\<rparr>
   = Some \<lparr>k_proto = 6, k_src = AddrV4 0xC0000209, k_dst = AddrV4 0x0A000005, k_sport = 443, k_dport = 40000\<rparr>"
proof -
  let ?is = "[\<lparr>ni_Rows = [sample_row\<lparr>sr_Direction := ''out'', sr_SrcAddr := ''198.51.100.1'',
       sr_NatAddr := ''10.0.0.5'', sr_NatPort := ''40000''\<rparr>], ni_Built = 10, ni_Previous = None, ni_Retain = 0\<rparr>]"
  let ?post = "\<lparr>k_proto = 6, k_src = AddrV4 0xC6336401, k_dst = AddrV4 0xC0000209, k_sport = 40000, k_dport = 443\<rparr>"
  have "NATTable_Canonical (natPolls ?is) ?post = Some
      \<lparr>k_proto = 6, k_src = AddrV4 0x0A000005, k_dst = AddrV4 0xC0000209, k_sport = 40000, k_dport = 443\<rparr>"
    by (simp add: natPolls_def NATTable_Canonical_def BuildNATTable_def natRow_def NATTable_put_def
        reverseKey_def sample_row_def parseTuple_def protoNumbers_def parse_text Let_def)
  moreover have "reverseKey ?post \<noteq> ?post" by (simp add: reverseKey_def)
  ultimately show ?thesis
    using nat_both_directions [of ?is ?post] by (simp add: reverseKey_def)
qed

end
