(* ===== verification/OrderQueue.thy ===== *)
theory OrderQueue
  imports Prelude
begin

text \<open>
  The shape the repair stage's tables share: a map beside a slice holding its keys in insertion
  order, of which the slots before a head index are consumed. The two scans over the live part
  of that slice, the invariant that ties it to the map, and what the scans do to it.
\<close>

section \<open>Scans\<close>

text \<open>
  The expiry scan: consume slots until a live entry is met, deleting the entries passed over.
  The results are the number of slots consumed, the map left and the number of entries deleted.
\<close>

fun sweepHead :: "('v \<Rightarrow> bool) \<Rightarrow> 'k list \<Rightarrow> ('k, 'v) gomap \<Rightarrow> nat \<times> ('k, 'v) gomap \<times> nat" where
  "sweepHead live [] m = (0, m, 0)"
| "sweepHead live (k # ks) m =
     (case map_of m k of
        Some e \<Rightarrow> if live e then (0, m, 0)
          else (case sweepHead live ks (AList.delete k m) of (n, m', d) \<Rightarrow> (Suc n, m', Suc d))
      | None \<Rightarrow> (case sweepHead live ks m of (n, m', d) \<Rightarrow> (Suc n, m', d)))"

text \<open>The eviction scan: consume slots up to and including the first that still names an entry.\<close>

fun dropHead :: "'k list \<Rightarrow> ('k, 'v) gomap \<Rightarrow> nat \<times> ('k, 'v) gomap" where
  "dropHead [] m = (0, m)"
| "dropHead (k # ks) m =
     (if map_of m k \<noteq> None then (1, AList.delete k m)
      else (case dropHead ks m of (n, m') \<Rightarrow> (Suc n, m')))"

section \<open>The invariant\<close>

text \<open>Every key of the map has a slot in the live part of the slice.\<close>

definition queued :: "'k list \<Rightarrow> ('k, 'v) gomap \<Rightarrow> bool" where
  "queued ks m \<longleftrightarrow> gomap_wf m \<and> fst ` set m \<subseteq> set ks"

lemma queued_wf: "queued ks m \<Longrightarrow> gomap_wf m"
  by (simp add: queued_def)

lemma queued_Nil [simp]: "queued ks []"
  by (simp add: queued_def)

lemma queued_no_slots: "queued [] m \<Longrightarrow> m = []"
  by (simp add: queued_def)

lemma queued_update: "queued ks m \<Longrightarrow> queued (ks @ [k]) (AList.update k v m)"
  by (auto simp: queued_def fst_set_update)

lemma queued_replace: "queued ks m \<Longrightarrow> map_of m k \<noteq> None \<Longrightarrow> queued ks (AList.update k v m)"
  by (auto simp: queued_def fst_set_update map_of_None_iff)

lemma queued_delete: "queued ks m \<Longrightarrow> queued ks (AList.delete k m)"
  by (auto simp: queued_def fst_set_delete)

lemma queued_tail: "queued (k # ks) m \<Longrightarrow> queued ks (AList.delete k m)"
  by (auto simp: queued_def fst_set_delete)

lemma queued_skip: "queued (k # ks) m \<Longrightarrow> map_of m k = None \<Longrightarrow> queued ks m"
  by (auto simp: queued_def map_of_None_iff)

lemma sweepHead_queued:
  assumes "queued ks m" "sweepHead live ks m = (n, m', d)"
  shows "n \<le> length ks \<and> queued (drop n ks) m' \<and> length m' + d = length m"
  using assms
proof (induction ks arbitrary: m n m' d)
  case (Cons k ks)
  show ?case
  proof (cases "map_of m k")
    case None
    obtain n1 m1 d1 where r: "sweepHead live ks m = (n1, m1, d1)" by (metis prod_cases3)
    from Cons.IH [OF queued_skip [OF Cons.prems(1) None] r] Cons.prems(2) None r show ?thesis by auto
  next
    case (Some e)
    obtain n1 m1 d1 where r: "sweepHead live ks (AList.delete k m) = (n1, m1, d1)" by (metis prod_cases3)
    have len: "Suc (length (AList.delete k m)) = length m"
      using length_delete_wf [OF queued_wf [OF Cons.prems(1)] Some] .
    from Cons.IH [OF queued_tail [OF Cons.prems(1)] r] Cons.prems Some r len show ?thesis
      by (auto split: if_splits)
  qed
qed simp

lemma sweepHead_sub: "sweepHead live ks m = (n, m', d) \<Longrightarrow> set m' \<subseteq> set m"
proof (induction ks arbitrary: m n m' d)
  case (Cons k ks)
  then show ?case
    by (fastforce simp: set_delete split: option.splits if_splits prod.splits)
qed simp

lemma dropHead_queued:
  assumes "queued ks m" "m \<noteq> []" "dropHead ks m = (n, m')"
  shows "n \<le> length ks \<and> queued (drop n ks) m' \<and> Suc (length m') = length m"
  using assms
proof (induction ks arbitrary: n m')
  case Nil
  then show ?case using queued_no_slots by blast
next
  case (Cons k ks)
  show ?case
  proof (cases "map_of m k")
    case None
    obtain n1 m1 where r: "dropHead ks m = (n1, m1)" by (metis surj_pair)
    from Cons.IH [OF queued_skip [OF Cons.prems(1) None] Cons.prems(2) r] Cons.prems(3) None r
    show ?thesis by auto
  next
    case (Some e)
    have "Suc (length (AList.delete k m)) = length m"
      using length_delete_wf [OF queued_wf [OF Cons.prems(1)] Some] .
    then show ?thesis using Cons.prems Some queued_tail [OF Cons.prems(1)] by auto
  qed
qed

lemma dropHead_sub: "dropHead ks m = (n, m') \<Longrightarrow> set m' \<subseteq> set m"
  by (induction ks arbitrary: n m') (auto simp: set_delete split: if_splits prod.splits)

end
