(* ===== verification/Repair.thy ===== *)
theory Repair
  imports Rollup IfMap PfTables OrderQueue
begin

text \<open>
  The repair stage (\<^verbatim>\<open>internal/flow/repair.go\<close>): VLAN/parent de-duplication with its hold
  buffer and instance table, egress and policy-route correction, direction inference and NAT-pair
  de-duplication. Operations are explicit functions on the \<open>Repairer\<close> state; the mutex makes each
  locked section atomic and the sections of one call run in the order written.
\<close>

section \<open>Topology\<close>

text \<open>
  The interface \<^verbatim>\<open>ifTopology\<close> the repairs ask, with the two optional interfaces a topology may
  implement besides it (\<^verbatim>\<open>wanKnower\<close>, \<^verbatim>\<open>deviceResolver\<close>) as optional members.
\<close>

record ifTopology =
  t_WANFor :: "addr \<Rightarrow> Iface option"
  t_ParentOf :: "string \<Rightarrow> string option"
  t_HasVLANChildren :: "string \<Rightarrow> bool"
  t_VLANChildFor :: "string \<Rightarrow> addr \<Rightarrow> Iface option"
  t_IsWAN :: "(string \<Rightarrow> bool) option"
  t_IfaceForDevice :: "(string \<Rightarrow> Iface option) option"

text \<open>The interface map as a topology; it implements both optional interfaces.\<close>

definition topologyOf :: "IfMap \<Rightarrow> ifTopology" where
  "topologyOf m = \<lparr>t_WANFor = IfMap_WANFor (Some m), t_ParentOf = IfMap_ParentOf (Some m),
     t_HasVLANChildren = IfMap_HasVLANChildren (Some m), t_VLANChildFor = IfMap_VLANChildFor (Some m),
     t_IsWAN = Some (IfMap_IsWAN (Some m)), t_IfaceForDevice = Some (IfMap_IfaceForDevice (Some m))\<rparr>"

section \<open>State\<close>

definition dedupeTTL :: duration where
  "dedupeTTL = 120 * second_ns"

definition vlanHoldWindow :: duration where
  "vlanHoldWindow = 2 * second_ns"

definition natConversationTTL :: duration where
  "natConversationTTL = 900 * second_ns"

definition natConvSweepInterval :: duration where
  "natConvSweepInterval = second_ns"

record instanceKey =
  ik_proto :: u8
  ik_src :: addr
  ik_dst :: addr
  ik_sport :: u16
  ik_dport :: u16
  ik_first :: int
  ik_last :: int
  ik_bytes :: u64
  ik_packets :: u64

definition keyOf :: "Record \<Rightarrow> instanceKey" where
  "keyOf rec = (let (bytes, packets) = volumeOf rec in
     \<lparr>ik_proto = r_Proto rec, ik_src = addr_Unmap (r_SrcAddr rec), ik_dst = addr_Unmap (r_DstAddr rec),
      ik_sport = r_SrcPort rec, ik_dport = r_DstPort rec, ik_first = UnixNano (r_Start rec),
      ik_last = UnixNano (r_End rec), ik_bytes = bytes, ik_packets = packets\<rparr>)"

record dedupeEntry =
  de_in :: string
  de_out :: string
  de_seen :: time

record heldRecord =
  h_rec :: Record
  h_m :: "ifTopology option"
  h_snap :: "Snapshot option"
  h_arrived :: time

definition deadline :: "heldRecord \<Rightarrow> time" where
  "deadline h = h_arrived h + vlanHoldWindow"

record natKey =
  nk_canon :: routeKey
  nk_bytes :: u64
  nk_pkts :: u64

datatype natRole = natRolePre | natRolePost

record natSeenEntry =
  ns_role :: natRole
  ns_seen :: time

datatype RepairVerdict = RepairEmit | RepairDrop | RepairHold

record Repairer =
  rr_seen :: "(instanceKey, dedupeEntry) gomap"
  rr_order :: "instanceKey list"
  rr_head :: nat
  rr_held :: "(instanceKey, heldRecord) gomap"
  rr_holdOrder :: "instanceKey list"
  rr_holdHead :: nat
  rr_dueEarly :: "heldRecord list"
  rr_routes :: "RouteTable option"
  rr_nats :: "NATTable option"
  rr_natSeen :: "(natKey, natSeenEntry) gomap"
  rr_natOrder :: "natKey list"
  rr_natHead :: nat
  rr_natCapped :: nat
  rr_natConv :: "(routeKey, time) gomap"
  rr_natConvSwept :: time
  rr_natConvCapped :: nat
  rr_maxEntries :: int
  rr_maxHeld :: int
  rr_vlanDropped :: nat
  rr_egressCorrected :: nat
  rr_evicted :: nat
  rr_capped :: nat
  rr_childPreferred :: nat
  rr_holdOverflow :: nat
  rr_subnetAttrib :: nat
  rr_lateChildCopies :: nat
  rr_policyRouteCorrected :: nat
  rr_policyRouteNoState :: nat
  rr_policyRouteUnresolved :: nat
  rr_policyRouteNoStateBy :: "(string, nat) gomap"
  rr_policyRouteUnresolvedBy :: "(string, nat) gomap"
  rr_natDuplicates :: nat
  rr_natConvDuplicates :: nat
  rr_natUnpaired :: nat
  rr_natLatePreCopies :: nat
  rr_prNotWANEgress :: nat
  rr_prPostNAT :: nat
  rr_prFIBAgreed :: nat
  rr_prAlreadyOnWAN :: nat

definition NewRepairer :: "int \<Rightarrow> int \<Rightarrow> Repairer" where
  "NewRepairer maxDedupeEntries maxHeld =
     \<lparr>rr_seen = [], rr_order = [], rr_head = 0, rr_held = [], rr_holdOrder = [], rr_holdHead = 0,
      rr_dueEarly = [], rr_routes = None, rr_nats = None, rr_natSeen = [], rr_natOrder = [],
      rr_natHead = 0, rr_natCapped = 0, rr_natConv = [], rr_natConvSwept = 0, rr_natConvCapped = 0,
      rr_maxEntries = maxDedupeEntries, rr_maxHeld = maxHeld, rr_vlanDropped = 0,
      rr_egressCorrected = 0, rr_evicted = 0, rr_capped = 0, rr_childPreferred = 0,
      rr_holdOverflow = 0, rr_subnetAttrib = 0, rr_lateChildCopies = 0,
      rr_policyRouteCorrected = 0, rr_policyRouteNoState = 0, rr_policyRouteUnresolved = 0,
      rr_policyRouteNoStateBy = [], rr_policyRouteUnresolvedBy = [], rr_natDuplicates = 0,
      rr_natConvDuplicates = 0, rr_natUnpaired = 0, rr_natLatePreCopies = 0, rr_prNotWANEgress = 0,
      rr_prPostNAT = 0, rr_prFIBAgreed = 0, rr_prAlreadyOnWAN = 0\<rparr>"

definition SetRouteTable :: "RouteTable option \<Rightarrow> Repairer \<Rightarrow> Repairer" where
  "SetRouteTable t r = r\<lparr>rr_routes := t\<rparr>"

definition SetNATTable :: "NATTable option \<Rightarrow> Repairer \<Rightarrow> Repairer" where
  "SetNATTable t r = r\<lparr>rr_nats := t\<rparr>"

text \<open>A nil counter map and an empty one are the same association list.\<close>

definition bumpByInterface :: "(string, nat) gomap \<Rightarrow> Iface \<Rightarrow> (string, nat) gomap" where
  "bumpByInterface counts iface =
     (let name = (if if_Name iface = [] then ''unresolved'' else if_Name iface)
      in AList.update name (Suc (case map_of counts name of Some n \<Rightarrow> n | None \<Rightarrow> 0)) counts)"

section \<open>Comparing two copies\<close>

definition isChildOf :: "string \<Rightarrow> string \<Rightarrow> ifTopology option \<Rightarrow> bool" where
  "isChildOf child parent mo =
     (case mo of None \<Rightarrow> False
      | Some m \<Rightarrow> if child = [] \<or> parent = [] \<or> child = parent then False
          else t_ParentOf m child = Some parent)"

definition isVLANPair :: "string \<Rightarrow> string \<Rightarrow> ifTopology option \<Rightarrow> bool" where
  "isVLANPair a b mo =
     (case mo of None \<Rightarrow> False
      | Some m \<Rightarrow> if a = [] \<or> b = [] \<or> a = b then False
          else if t_ParentOf m a = Some b then True
          else t_ParentOf m b = Some a)"

definition sideMatches :: "string \<Rightarrow> string \<Rightarrow> ifTopology option \<Rightarrow> bool" where
  "sideMatches a b m \<longleftrightarrow> a = b \<or> isVLANPair a b m"

definition isDuplicateOf :: "string \<Rightarrow> string \<Rightarrow> string \<Rightarrow> string \<Rightarrow> ifTopology option \<Rightarrow> bool" where
  "isDuplicateOf aIn aOut bIn bOut m \<longleftrightarrow> sideMatches aIn bIn m \<and> sideMatches aOut bOut m"

definition moreSpecific :: "string \<Rightarrow> string \<Rightarrow> string \<Rightarrow> string \<Rightarrow> ifTopology option \<Rightarrow> bool" where
  "moreSpecific aIn aOut bIn bOut m =
     (let better = isChildOf aIn bIn m \<or> isChildOf aOut bOut m;
          worse = isChildOf bIn aIn m \<or> isChildOf bOut aOut m
      in better \<and> \<not> worse)"

definition canBeBeaten :: "ifTopology option \<Rightarrow> string \<Rightarrow> string \<Rightarrow> bool" where
  "canBeBeaten mo inD outD =
     (case mo of None \<Rightarrow> False | Some m \<Rightarrow> t_HasVLANChildren m inD \<or> t_HasVLANChildren m outD)"

definition HasSuffix :: "string \<Rightarrow> string \<Rightarrow> bool" where
  "HasSuffix s suffix \<longleftrightarrow> length suffix \<le> length s \<and> drop (length s - length suffix) s = suffix"

definition isVLANParentCopy :: "Record \<Rightarrow> ifTopology option \<Rightarrow> bool" where
  "isVLANParentCopy rec mo =
     (case mo of None \<Rightarrow> False
      | Some m \<Rightarrow>
          let tag = r_VLANID rec; dev = if_Device (r_In rec) in
          if tag = [] \<or> tag = ''0'' \<or> dev = [] then False
          else let suffix = vlanInfix @ tag in
            if HasSuffix dev suffix then False
            else t_ParentOf m (dev @ suffix) = Some dev)"

text \<open>
  \<^verbatim>\<open>attributeSide\<close> relabels one side: the new interface of that side, or \<open>None\<close> where it leaves the
  record alone.
\<close>

definition attributeSide :: "Iface \<Rightarrow> addr \<Rightarrow> ifTopology \<Rightarrow> Iface option" where
  "attributeSide side a m =
     (if if_Device side = [] \<or> \<not> addr_IsValid a \<or> \<not> t_HasVLANChildren m (if_Device side) then None
      else case t_VLANChildFor m (if_Device side) a of
        None \<Rightarrow> None
      | Some child \<Rightarrow> if if_Device child = if_Device side then None else Some child)"

definition markAttributed :: "Record \<Rightarrow> Record" where
  "markAttributed rec = r_Repairs_update (rp_VLANSubnetAttributed_update (\<lambda>_. True)) rec"

definition attributeBySubnet :: "Record \<Rightarrow> ifTopology option \<Rightarrow> Record \<times> bool" where
  "attributeBySubnet rec mo =
     (case mo of None \<Rightarrow> (rec, False)
      | Some m \<Rightarrow>
          let ingress = attributeSide (r_In rec) (r_SrcAddr rec) m;
              rec1 = (case ingress of Some f \<Rightarrow> markAttributed (rec\<lparr>r_In := f\<rparr>) | None \<Rightarrow> rec);
              egress = attributeSide (r_Out rec1) (r_DstAddr rec1) m;
              rec2 = (case egress of Some f \<Rightarrow> markAttributed (rec1\<lparr>r_Out := f\<rparr>) | None \<Rightarrow> rec1)
          in (rec2, ingress \<noteq> None \<or> egress \<noteq> None))"

section \<open>The instance table\<close>

definition compactRep :: "Repairer \<Rightarrow> Repairer" where
  "compactRep r =
     (if rr_head r = 0 then r
      else if rr_head r < length (rr_order r) div 2 \<and> rr_head r < 1024 then r
      else r\<lparr>rr_order := drop (rr_head r) (rr_order r), rr_head := 0\<rparr>)"

definition expire :: "time \<Rightarrow> Repairer \<Rightarrow> Repairer" where
  "expire now r =
     (let cutoff = now - dedupeTTL;
          (n, m, d) = sweepHead (\<lambda>e. cutoff < de_seen e) (drop (rr_head r) (rr_order r)) (rr_seen r)
      in compactRep (r\<lparr>rr_seen := m, rr_head := rr_head r + n, rr_evicted := rr_evicted r + d\<rparr>))"

definition dropOldest :: "Repairer \<Rightarrow> Repairer" where
  "dropOldest r =
     (let (n, m) = dropHead (drop (rr_head r) (rr_order r)) (rr_seen r)
      in r\<lparr>rr_seen := m, rr_head := rr_head r + n\<rparr>)"

definition insertRep :: "instanceKey \<Rightarrow> string \<Rightarrow> string \<Rightarrow> time \<Rightarrow> Repairer \<Rightarrow> Repairer" where
  "insertRep k inD outD now r =
     (let r1 = (if 0 < rr_maxEntries r \<and> rr_maxEntries r \<le> int (length (rr_seen r))
                then rr_capped_update Suc (dropOldest r) else r)
      in r1\<lparr>rr_seen := AList.update k \<lparr>de_in = inD, de_out = outD, de_seen = now\<rparr> (rr_seen r1),
            rr_order := rr_order r1 @ [k]\<rparr>)"

section \<open>The hold buffer\<close>

text \<open>A held record leaves the buffer for the instance table.\<close>

definition settleHeld :: "instanceKey \<Rightarrow> heldRecord \<Rightarrow> Repairer \<Rightarrow> Repairer" where
  "settleHeld k h r =
     insertRep k (if_Device (r_In (h_rec h))) (if_Device (r_Out (h_rec h))) (h_arrived h)
       (rr_held_update (AList.delete k) r)"

fun oldestHeldLoop :: "instanceKey list \<Rightarrow> Repairer \<Rightarrow> Repairer" where
  "oldestHeldLoop [] r = r"
| "oldestHeldLoop (k # ks) r =
     (let r1 = rr_holdHead_update Suc r in
      case map_of (rr_held r1) k of
        None \<Rightarrow> oldestHeldLoop ks r1
      | Some h \<Rightarrow> let r2 = settleHeld k h r1 in
          r2\<lparr>rr_dueEarly := rr_dueEarly r2 @ [h], rr_holdOverflow := Suc (rr_holdOverflow r2)\<rparr>)"

definition releaseOldestHeld :: "Repairer \<Rightarrow> Repairer" where
  "releaseOldestHeld r = oldestHeldLoop (drop (rr_holdHead r) (rr_holdOrder r)) r"

definition compactHold :: "Repairer \<Rightarrow> Repairer" where
  "compactHold r =
     (if rr_holdHead r = 0 then r
      else if rr_holdHead r < length (rr_holdOrder r) div 2 \<and> rr_holdHead r < 1024 then r
      else r\<lparr>rr_holdOrder := drop (rr_holdHead r) (rr_holdOrder r), rr_holdHead := 0\<rparr>)"

definition hold :: "instanceKey \<Rightarrow> Record \<Rightarrow> ifTopology option \<Rightarrow> Snapshot option \<Rightarrow> time \<Rightarrow> Repairer \<Rightarrow> Repairer" where
  "hold k rec m snap now r =
     (let r1 = (if 0 < rr_maxHeld r \<and> rr_maxHeld r \<le> int (length (rr_held r))
                then releaseOldestHeld r else r)
      in r1\<lparr>rr_held := AList.update k \<lparr>h_rec = rec, h_m = m, h_snap = snap, h_arrived = now\<rparr> (rr_held r1),
            rr_holdOrder := rr_holdOrder r1 @ [k]\<rparr>)"

text \<open>
  The scan of \<^verbatim>\<open>release\<close> over the live part of the hold order; \<open>all\<close> is a flush.
\<close>

fun releaseLoop :: "time \<Rightarrow> bool \<Rightarrow> instanceKey list \<Rightarrow> heldRecord list \<Rightarrow> Repairer \<Rightarrow> heldRecord list \<times> Repairer" where
  "releaseLoop now all [] due r = (due, r)"
| "releaseLoop now all (k # ks) due r =
     (case map_of (rr_held r) k of
        None \<Rightarrow> releaseLoop now all ks due (rr_holdHead_update Suc r)
      | Some h \<Rightarrow> if \<not> all \<and> now < deadline h then (due, r)
          else releaseLoop now all ks (due @ [h]) (settleHeld k h (rr_holdHead_update Suc r)))"

section \<open>Repair 1: which copy of an instance to keep\<close>

text \<open>The decision under the lock, for the copy as it is labelled after subnet attribution.\<close>

definition admitCopy ::
  "Record \<Rightarrow> ifTopology option \<Rightarrow> Snapshot option \<Rightarrow> time \<Rightarrow> Repairer \<Rightarrow> RepairVerdict \<times> Repairer" where
  "admitCopy rec m snap now r =
     (let key = keyOf rec; inD = if_Device (r_In rec); outD = if_Device (r_Out rec) in
      case map_of (rr_held r) key of
        Some h \<Rightarrow>
          let hIn = if_Device (r_In (h_rec h)); hOut = if_Device (r_Out (h_rec h)) in
          if \<not> isDuplicateOf hIn hOut inD outD m then (RepairEmit, r)
          else let r1 = rr_vlanDropped_update Suc r in
            (RepairDrop,
             if moreSpecific inD outD hIn hOut m
             then r1\<lparr>rr_held := AList.update key (h\<lparr>h_rec := rec, h_m := m, h_snap := snap\<rparr>) (rr_held r1),
                     rr_childPreferred := Suc (rr_childPreferred r1)\<rparr>
             else r1)
      | None \<Rightarrow>
      case map_of (rr_seen r) key of
        Some prev \<Rightarrow>
          if isDuplicateOf (de_in prev) (de_out prev) inD outD m
          then let r1 = rr_vlanDropped_update Suc r in
            (RepairDrop,
             if moreSpecific inD outD (de_in prev) (de_out prev) m
             then rr_lateChildCopies_update Suc r1 else r1)
          else (RepairEmit, r)
      | None \<Rightarrow>
          if canBeBeaten m inD outD then (RepairHold, hold key rec m snap now r)
          else (RepairEmit, insertRep key inD outD now r))"

definition admit ::
  "Record \<Rightarrow> ifTopology option \<Rightarrow> Snapshot option \<Rightarrow> time \<Rightarrow> Repairer \<Rightarrow> RepairVerdict \<times> Record \<times> Repairer" where
  "admit rec m snap now r =
     (let r1 = expire now r in
      if isVLANParentCopy rec m then (RepairDrop, rec, rr_vlanDropped_update Suc r1)
      else
        let (rec', attributed) = attributeBySubnet rec m;
            r2 = (if attributed then rr_subnetAttrib_update Suc r1 else r1);
            (v, r3) = admitCopy rec' m snap now r2
        in (v, rec', r3))"

section \<open>Repair 5: translated copies\<close>

definition natCompact :: "Repairer \<Rightarrow> Repairer" where
  "natCompact r =
     (if rr_natHead r = 0 then r
      else if rr_natHead r < length (rr_natOrder r) div 2 then r
      else r\<lparr>rr_natOrder := drop (rr_natHead r) (rr_natOrder r), rr_natHead := 0\<rparr>)"

definition natExpire :: "time \<Rightarrow> Repairer \<Rightarrow> Repairer" where
  "natExpire now r =
     (let cutoff = now - dedupeTTL;
          (n, m, d) = sweepHead (\<lambda>e. cutoff < ns_seen e) (drop (rr_natHead r) (rr_natOrder r)) (rr_natSeen r)
      in natCompact (r\<lparr>rr_natSeen := m, rr_natHead := rr_natHead r + n\<rparr>))"

definition natDropOldest :: "Repairer \<Rightarrow> Repairer" where
  "natDropOldest r =
     (let (n, m) = dropHead (drop (rr_natHead r) (rr_natOrder r)) (rr_natSeen r)
      in r\<lparr>rr_natSeen := m, rr_natHead := rr_natHead r + n\<rparr>)"

definition natRemember :: "natKey \<Rightarrow> natRole \<Rightarrow> time \<Rightarrow> Repairer \<Rightarrow> Repairer" where
  "natRemember k role now r =
     (if map_of (rr_natSeen r) k \<noteq> None then r
      else let r1 = (if 0 < rr_maxEntries r \<and> rr_maxEntries r \<le> int (length (rr_natSeen r))
                     then rr_natCapped_update Suc (natDropOldest r) else r)
      in r1\<lparr>rr_natSeen := AList.update k \<lparr>ns_role = role, ns_seen = now\<rparr> (rr_natSeen r1),
            rr_natOrder := rr_natOrder r1 @ [k]\<rparr>)"

definition natConvRemember :: "routeKey \<Rightarrow> time \<Rightarrow> Repairer \<Rightarrow> Repairer" where
  "natConvRemember canon now r =
     (if map_of (rr_natConv r) canon = None \<and> 0 < rr_maxEntries r \<and>
         rr_maxEntries r \<le> int (length (rr_natConv r))
      then rr_natConvCapped_update Suc r
      else r\<lparr>rr_natConv := AList.update canon now (rr_natConv r)\<rparr>)"

definition natConvExpire :: "time \<Rightarrow> Repairer \<Rightarrow> Repairer" where
  "natConvExpire now r =
     (if length (rr_natConv r) = 0 then r
      else if \<not> time_IsZero (rr_natConvSwept r) \<and> time_Sub now (rr_natConvSwept r) < natConvSweepInterval then r
      else let cutoff = now - natConversationTTL
        in r\<lparr>rr_natConvSwept := now, rr_natConv := filter (\<lambda>(k, seen). cutoff < seen) (rr_natConv r)\<rparr>)"

definition couldBeTranslated :: "Record \<Rightarrow> bool" where
  "couldBeTranslated rec \<longleftrightarrow>
     addr_IsPrivate (addr_Unmap (r_SrcAddr rec)) \<noteq> addr_IsPrivate (addr_Unmap (r_DstAddr rec))"

definition tupleOfRecord :: "Record \<Rightarrow> routeKey option" where
  "tupleOfRecord rec =
     (let src = addr_Unmap (r_SrcAddr rec); dst = addr_Unmap (r_DstAddr rec) in
      if \<not> addr_IsValid src \<or> \<not> addr_IsValid dst then None
      else Some \<lparr>k_proto = r_Proto rec, k_src = src, k_dst = dst, k_sport = r_SrcPort rec, k_dport = r_DstPort rec\<rparr>)"

definition natAdmit :: "Record \<Rightarrow> time \<Rightarrow> Repairer \<Rightarrow> bool \<times> Repairer" where
  "natAdmit rec now r0 =
     (case rr_nats r0 of None \<Rightarrow> (True, r0) | Some t \<Rightarrow>
      case tupleOfRecord rec of None \<Rightarrow> (True, r0) | Some own \<Rightarrow>
      let (bytes, packets) = volumeOf rec;
          r = natConvExpire now (natExpire now r0)
      in case NATTable_Canonical (Some t) own of
        Some canon \<Rightarrow>
          let k = \<lparr>nk_canon = canon, nk_bytes = bytes, nk_pkts = packets\<rparr> in
          if map_option ns_role (map_of (rr_natSeen r) k) = Some natRolePre
          then (False, r\<lparr>rr_natSeen := AList.delete k (rr_natSeen r), rr_natDuplicates := Suc (rr_natDuplicates r)\<rparr>)
          else if map_of (rr_natConv r) canon \<noteq> None then (False, rr_natConvDuplicates_update Suc r)
          else (True, rr_natUnpaired_update Suc (natRemember k natRolePost now r))
      | None \<Rightarrow>
          if \<not> couldBeTranslated rec then (True, r)
          else
            let r1 = (if NATTable_IsTranslatedPre (Some t) own then natConvRemember own now r else r);
                k = \<lparr>nk_canon = own, nk_bytes = bytes, nk_pkts = packets\<rparr> in
            if map_option ns_role (map_of (rr_natSeen r1) k) = Some natRolePost
            then (True, r1\<lparr>rr_natSeen := AList.delete k (rr_natSeen r1), rr_natLatePreCopies := Suc (rr_natLatePreCopies r1)\<rparr>)
            else (True, natRemember k natRolePre now r1))"

section \<open>Repairs 2 and 4: the egress interface\<close>

definition sameIface :: "Iface \<Rightarrow> Iface \<Rightarrow> bool" where
  "sameIface observed deduced =
     (if if_Device observed \<noteq> [] \<and> if_Device deduced \<noteq> [] then if_Device observed = if_Device deduced
      else if_Index observed \<noteq> 0 \<and> if_Index observed = if_Index deduced)"

definition correctEgress :: "Record \<Rightarrow> ifTopology option \<Rightarrow> Repairer \<Rightarrow> Record \<times> Repairer" where
  "correctEgress rec mo r =
     (case mo of None \<Rightarrow> (rec, r)
      | Some m \<Rightarrow> if \<not> addr_IsValid (r_SrcAddr rec) then (rec, r)
          else (case t_WANFor m (r_SrcAddr rec) of
              None \<Rightarrow> (rec, r)
            | Some wan \<Rightarrow> if sameIface (r_Out rec) wan then (rec, r)
                else (rec\<lparr>r_Out := wan\<lparr>if_Corrected := True\<rparr>\<rparr>, rr_egressCorrected_update Suc r)))"

definition ifaceIsWAN :: "ifTopology option \<Rightarrow> Iface \<Rightarrow> addr \<Rightarrow> bool" where
  "ifaceIsWAN mo ifc selfAddr =
     (if if_Corrected ifc then True
      else case mo of None \<Rightarrow> False
      | Some m \<Rightarrow> if if_Device ifc = [] then False
          else (case t_IsWAN m of
              Some isWAN \<Rightarrow> isWAN (if_Device ifc)
            | None \<Rightarrow> if \<not> addr_IsValid selfAddr then False
                else (case t_WANFor m selfAddr of
                    None \<Rightarrow> False
                  | Some w \<Rightarrow> if_Device w \<noteq> [] \<and> if_Device w = if_Device ifc)))"

definition correctPolicyRoute :: "Record \<Rightarrow> ifTopology option \<Rightarrow> Repairer \<Rightarrow> Record \<times> Repairer" where
  "correctPolicyRoute rec mo r =
     (case (rr_routes r, mo) of
        (Some table, Some m) \<Rightarrow>
          if \<not> addr_IsValid (r_SrcAddr rec) then (rec, r)
          else if \<not> ifaceIsWAN (Some m) (r_Out rec) (r_SrcAddr rec) then (rec, rr_prNotWANEgress_update Suc r)
          else if t_WANFor m (r_SrcAddr rec) \<noteq> None then (rec, rr_prPostNAT_update Suc r)
          else (case RouteTable_Egress (Some table) (r_Proto rec) (r_SrcAddr rec) (r_SrcPort rec)
                       (r_DstAddr rec) (r_DstPort rec) of
              None \<Rightarrow> (rec, r\<lparr>rr_policyRouteNoState := Suc (rr_policyRouteNoState r),
                             rr_policyRouteNoStateBy := bumpByInterface (rr_policyRouteNoStateBy r) (r_Out rec)\<rparr>)
            | Some device \<Rightarrow>
                if device = [] then (rec, rr_prFIBAgreed_update Suc r)
                else if device = if_Device (r_Out rec) then (rec, rr_prAlreadyOnWAN_update Suc r)
                else (case t_IfaceForDevice m of
                    None \<Rightarrow> (rec, r)
                  | Some resolve \<Rightarrow> (case resolve device of
                      None \<Rightarrow> (rec, r\<lparr>rr_policyRouteUnresolved := Suc (rr_policyRouteUnresolved r),
                                     rr_policyRouteUnresolvedBy := bumpByInterface (rr_policyRouteUnresolvedBy r) (r_Out rec)\<rparr>)
                    | Some iface \<Rightarrow>
                        (r_Repairs_update (rp_PolicyRouteCorrected_update (\<lambda>_. True)) (rec\<lparr>r_Out := iface\<rparr>),
                         rr_policyRouteCorrected_update Suc r))))
      | _ \<Rightarrow> (rec, r))"

section \<open>Repair 3: direction\<close>

definition netflowDirection :: "Record \<Rightarrow> ifTopology option \<Rightarrow> Direction" where
  "netflowDirection rec m =
     (let dst = r_DstAddr rec; remote = ''remote'';
          src = en_SrcScope (r_Enrich rec); dstScope = en_DstScope (r_Enrich rec) in
      if addr_IsMulticast dst \<or> addr_IsLinkLocalUnicast dst \<or> addr_IsLinkLocalMulticast dst \<or> addr_IsUnspecified dst
      then DirectionInternal
      else if src \<noteq> [] \<and> dstScope \<noteq> [] \<and> src \<noteq> remote \<and> dstScope \<noteq> remote then DirectionInternal
      else if ifaceIsWAN m (r_Out rec) (r_SrcAddr rec) then DirectionOutbound
      else if ifaceIsWAN m (r_In rec) (r_DstAddr rec) then DirectionInbound
      else if src \<noteq> [] \<and> dstScope \<noteq> [] \<and> dstScope = remote \<and> src \<noteq> remote then DirectionOutbound
      else if src \<noteq> [] \<and> dstScope \<noteq> [] \<and> src = remote \<and> dstScope \<noteq> remote then DirectionInbound
      else DirectionUnknown)"

definition setDirection :: "Record \<Rightarrow> ifTopology option \<Rightarrow> Snapshot option \<Rightarrow> Record" where
  "setDirection rec m so =
     (let rec1 = (case so of None \<Rightarrow> rec
        | Some snap \<Rightarrow> r_Enrich_update (\<lambda>e.
            let e1 = (if en_SrcScope e = [] then e\<lparr>en_SrcScope := Snapshot_Scope snap (addr_String (r_SrcAddr rec))\<rparr> else e)
            in if en_DstScope e1 = [] then e1\<lparr>en_DstScope := Snapshot_Scope snap (addr_String (r_DstAddr rec))\<rparr> else e1) rec)
      in rec1\<lparr>r_Direction := netflowDirection rec1 m\<rparr>)"

section \<open>The stage\<close>

text \<open>What happens to a record once it is decided that it may be emitted.\<close>

definition finishRepair ::
  "Record \<Rightarrow> ifTopology option \<Rightarrow> Snapshot option \<Rightarrow> Repairer \<Rightarrow> Record \<times> Repairer" where
  "finishRepair rec m snap r =
     (let (rec1, r1) = correctEgress rec m r;
          (rec2, r2) = correctPolicyRoute rec1 m r1
      in (setDirection rec2 m snap, r2))"

definition repairWith ::
  "Record option \<Rightarrow> ifTopology option \<Rightarrow> Snapshot option \<Rightarrow> time \<Rightarrow> Repairer
   \<Rightarrow> RepairVerdict \<times> Record option \<times> Repairer" where
  "repairWith ro m snap now r =
     (case ro of None \<Rightarrow> (RepairDrop, None, r)
      | Some rec0 \<Rightarrow>
          (case admit rec0 m snap now r of
             (RepairEmit, rec, r1) \<Rightarrow>
               let (ok, r2) = natAdmit rec now r1 in
               if \<not> ok then (RepairDrop, Some rec, r2)
               else let (rec', r3) = finishRepair rec m snap r2 in (RepairEmit, Some rec', r3)
           | (v, rec, r1) \<Rightarrow> (v, Some rec, r1)))"

definition Repair ::
  "Record option \<Rightarrow> IfMap option \<Rightarrow> Snapshot option \<Rightarrow> time \<Rightarrow> Repairer
   \<Rightarrow> RepairVerdict \<times> Record option \<times> Repairer" where
  "Repair rec m snap now r = repairWith rec (map_option topologyOf m) snap now r"

fun emitDue :: "time \<Rightarrow> heldRecord list \<Rightarrow> Repairer \<Rightarrow> Record list \<times> Repairer" where
  "emitDue now [] r = ([], r)"
| "emitDue now (h # hs) r =
     (let (ok, r1) = natAdmit (h_rec h) now r in
      if \<not> ok then emitDue now hs r1
      else let (rec', r2) = finishRepair (h_rec h) (h_m h) (h_snap h) r1;
               (out, r3) = emitDue now hs r2
           in (rec' # out, r3))"

definition releaseRep :: "time \<Rightarrow> bool \<Rightarrow> Repairer \<Rightarrow> Record list \<times> Repairer" where
  "releaseRep now all r =
     (let (due, r1) = releaseLoop now all (drop (rr_holdHead r) (rr_holdOrder r)) (rr_dueEarly r) (r\<lparr>rr_dueEarly := []\<rparr>)
      in emitDue now due (compactHold r1))"

definition Repairer_Release :: "time \<Rightarrow> Repairer \<Rightarrow> Record list \<times> Repairer" where
  "Repairer_Release now r = releaseRep now False r"

definition Repairer_Flush :: "Repairer \<Rightarrow> Record list \<times> Repairer" where
  "Repairer_Flush r = releaseRep 0 True r"

section \<open>Accounting\<close>

record RepairStats =
  rst_VLANDuplicatesDropped :: nat
  rst_EgressCorrected :: nat
  rst_VLANChildPreferred :: nat
  rst_VLANSubnetAttributed :: nat
  rst_VLANLateChildCopies :: nat
  rst_HeldEntries :: nat
  rst_HoldOverflow :: nat
  rst_DedupeEntries :: nat
  rst_DedupeEvicted :: nat
  rst_PolicyRouteCorrected :: nat
  rst_PolicyRouteNoState :: nat
  rst_PolicyRouteNoStateByInterface :: "(string, nat) gomap"
  rst_PolicyRouteSkippedNotWANEgress :: nat
  rst_PolicyRouteSkippedPostNAT :: nat
  rst_PolicyRouteSkippedFIBAgreed :: nat
  rst_PolicyRouteSkippedAlreadyOnWAN :: nat
  rst_PolicyRouteUnresolvedDevice :: nat
  rst_PolicyRouteUnresolvedDeviceByInterface :: "(string, nat) gomap"
  rst_RouteTableEntries :: nat
  rst_RouteTablePolicyRouted :: nat
  rst_RouteTableSkipped :: nat
  rst_RouteTableConflicts :: nat
  rst_RouteTableCarried :: nat
  rst_RouteTableAge :: duration
  rst_NATDuplicatesDropped :: nat
  rst_NATLatePreNATCopies :: nat
  rst_NATConversationDuplicates :: nat
  rst_NATUnpaired :: nat
  rst_NATSeenEntries :: nat
  rst_NATSeenCapped :: nat
  rst_NATConversationEntries :: nat
  rst_NATConversationCapped :: nat
  rst_NATTableEntries :: nat
  rst_NATTableCarried :: nat
  rst_NATTableConflicts :: nat
  rst_NATTableSkipped :: nat
  rst_DedupeCapped :: nat

definition copyCounts :: "(string, nat) gomap \<Rightarrow> (string, nat) gomap" where
  "copyCounts counts = (if length counts = 0 then [] else fold (\<lambda>(k, v). AList.update k v) counts [])"

definition StatsAt :: "time \<Rightarrow> Repairer \<Rightarrow> RepairStats" where
  "StatsAt now r =
     (let rt = (case rr_routes r of Some t \<Rightarrow> rt_stats t | None \<Rightarrow> RouteTableStats_zero);
          nt = (case rr_nats r of Some t \<Rightarrow> nt_stats t
                | None \<Rightarrow> \<lparr>nts_Entries = 0, nts_Skipped = 0, nts_Conflicts = 0, nts_Carried = 0\<rparr>)
      in \<lparr>rst_VLANDuplicatesDropped = rr_vlanDropped r, rst_EgressCorrected = rr_egressCorrected r,
          rst_VLANChildPreferred = rr_childPreferred r, rst_VLANSubnetAttributed = rr_subnetAttrib r,
          rst_VLANLateChildCopies = rr_lateChildCopies r,
          rst_HeldEntries = length (rr_held r) + length (rr_dueEarly r),
          rst_HoldOverflow = rr_holdOverflow r, rst_DedupeEntries = length (rr_seen r),
          rst_DedupeEvicted = rr_evicted r, rst_PolicyRouteCorrected = rr_policyRouteCorrected r,
          rst_PolicyRouteNoState = rr_policyRouteNoState r,
          rst_PolicyRouteNoStateByInterface = copyCounts (rr_policyRouteNoStateBy r),
          rst_PolicyRouteSkippedNotWANEgress = rr_prNotWANEgress r,
          rst_PolicyRouteSkippedPostNAT = rr_prPostNAT r,
          rst_PolicyRouteSkippedFIBAgreed = rr_prFIBAgreed r,
          rst_PolicyRouteSkippedAlreadyOnWAN = rr_prAlreadyOnWAN r,
          rst_PolicyRouteUnresolvedDevice = rr_policyRouteUnresolved r,
          rst_PolicyRouteUnresolvedDeviceByInterface = copyCounts (rr_policyRouteUnresolvedBy r),
          rst_RouteTableEntries = rts_Entries rt, rst_RouteTablePolicyRouted = rts_PolicyRouted rt,
          rst_RouteTableSkipped = rts_Skipped rt, rst_RouteTableConflicts = rts_Conflicts rt,
          rst_RouteTableCarried = rts_Carried rt, rst_RouteTableAge = RouteTable_Age (rr_routes r) now,
          rst_NATDuplicatesDropped = rr_natDuplicates r, rst_NATLatePreNATCopies = rr_natLatePreCopies r,
          rst_NATConversationDuplicates = rr_natConvDuplicates r, rst_NATUnpaired = rr_natUnpaired r,
          rst_NATSeenEntries = length (rr_natSeen r), rst_NATSeenCapped = rr_natCapped r,
          rst_NATConversationEntries = length (rr_natConv r), rst_NATConversationCapped = rr_natConvCapped r,
          rst_NATTableEntries = nts_Entries nt, rst_NATTableCarried = nts_Carried nt,
          rst_NATTableConflicts = nts_Conflicts nt, rst_NATTableSkipped = nts_Skipped nt,
          rst_DedupeCapped = rr_capped r\<rparr>)"

end
