(* ===== verification/RepairLaws.thy ===== *)
theory RepairLaws
  imports Repair
begin

text \<open>
  What the repair stage keeps: the invariant of its tables and their bounds over any history, the
  books that balance, the evidence behind every suppressed translated copy, the choice between
  the two copies of a VLAN export, and what may relabel a record's egress.
\<close>

section \<open>Which fields an operation leaves alone\<close>

definition seenView :: "Repairer \<Rightarrow> (instanceKey, dedupeEntry) gomap \<times> instanceKey list \<times> nat \<times> int" where
  "seenView r = (rr_seen r, rr_order r, rr_head r, rr_maxEntries r)"

definition holdView :: "Repairer \<Rightarrow> (instanceKey, heldRecord) gomap \<times> instanceKey list \<times> nat \<times> heldRecord list \<times> int" where
  "holdView r = (rr_held r, rr_holdOrder r, rr_holdHead r, rr_dueEarly r, rr_maxHeld r)"

definition natView :: "Repairer \<Rightarrow> (natKey, natSeenEntry) gomap \<times> natKey list \<times> nat \<times> (routeKey, time) gomap \<times> int" where
  "natView r = (rr_natSeen r, rr_natOrder r, rr_natHead r, rr_natConv r, rr_maxEntries r)"

definition suppressions :: "Repairer \<Rightarrow> nat \<times> nat \<times> nat" where
  "suppressions r = (rr_vlanDropped r, rr_natDuplicates r, rr_natConvDuplicates r)"

definition tables :: "Repairer \<Rightarrow> RouteTable option \<times> NATTable option" where
  "tables r = (rr_routes r, rr_nats r)"

lemmas view_defs = seenView_def holdView_def natView_def suppressions_def tables_def

lemma view_updates [simp]:
  "seenView (rr_natSeen_update f r) = seenView r" "holdView (rr_natSeen_update f r) = holdView r"
  "tables (rr_natSeen_update f r) = tables r" "suppressions (rr_natSeen_update f r) = suppressions r"
  "seenView (rr_natDuplicates_update g r) = seenView r" "holdView (rr_natDuplicates_update g r) = holdView r"
  "tables (rr_natDuplicates_update g r) = tables r" "natView (rr_natDuplicates_update g r) = natView r"
  "seenView (rr_natConvDuplicates_update g r) = seenView r" "holdView (rr_natConvDuplicates_update g r) = holdView r"
  "tables (rr_natConvDuplicates_update g r) = tables r" "natView (rr_natConvDuplicates_update g r) = natView r"
  "seenView (rr_natUnpaired_update g r) = seenView r" "holdView (rr_natUnpaired_update g r) = holdView r"
  "tables (rr_natUnpaired_update g r) = tables r" "natView (rr_natUnpaired_update g r) = natView r"
  "suppressions (rr_natUnpaired_update g r) = suppressions r"
  "seenView (rr_natLatePreCopies_update g r) = seenView r" "holdView (rr_natLatePreCopies_update g r) = holdView r"
  "tables (rr_natLatePreCopies_update g r) = tables r" "natView (rr_natLatePreCopies_update g r) = natView r"
  "suppressions (rr_natLatePreCopies_update g r) = suppressions r"
  "seenView (rr_vlanDropped_update g r) = seenView r" "holdView (rr_vlanDropped_update g r) = holdView r"
  "tables (rr_vlanDropped_update g r) = tables r" "natView (rr_vlanDropped_update g r) = natView r"
  "seenView (rr_subnetAttrib_update g r) = seenView r" "holdView (rr_subnetAttrib_update g r) = holdView r"
  "tables (rr_subnetAttrib_update g r) = tables r" "natView (rr_subnetAttrib_update g r) = natView r"
  "suppressions (rr_subnetAttrib_update g r) = suppressions r"
  "seenView (rr_lateChildCopies_update g r) = seenView r" "holdView (rr_lateChildCopies_update g r) = holdView r"
  "tables (rr_lateChildCopies_update g r) = tables r" "natView (rr_lateChildCopies_update g r) = natView r"
  "suppressions (rr_lateChildCopies_update g r) = suppressions r"
  "seenView (rr_childPreferred_update g r) = seenView r" "holdView (rr_childPreferred_update g r) = holdView r"
  "tables (rr_childPreferred_update g r) = tables r" "natView (rr_childPreferred_update g r) = natView r"
  "suppressions (rr_childPreferred_update g r) = suppressions r"
  "seenView (rr_held_update e r) = seenView r" "tables (rr_held_update e r) = tables r"
  "natView (rr_held_update e r) = natView r" "suppressions (rr_held_update e r) = suppressions r"
  by (simp_all add: view_defs)

lemma expire_frame [simp]:
  "holdView (expire now r) = holdView r" "natView (expire now r) = natView r"
  "suppressions (expire now r) = suppressions r" "tables (expire now r) = tables r"
  by (simp_all add: view_defs expire_def compactRep_def Let_def split_beta)

lemma insertRep_frame [simp]:
  "holdView (insertRep k i ou now r) = holdView r" "natView (insertRep k i ou now r) = natView r"
  "suppressions (insertRep k i ou now r) = suppressions r" "tables (insertRep k i ou now r) = tables r"
  by (simp_all add: view_defs insertRep_def dropOldest_def Let_def split_beta)

lemma settleHeld_frame [simp]:
  "natView (settleHeld k h r) = natView r" "suppressions (settleHeld k h r) = suppressions r"
  "tables (settleHeld k h r) = tables r"
  "holdView (settleHeld k h r) = holdView (rr_held_update (AList.delete k) r)"
  by (simp_all add: settleHeld_def)

lemma oldestHeldLoop_frame [simp]:
  "natView (oldestHeldLoop ks r) = natView r \<and> suppressions (oldestHeldLoop ks r) = suppressions r \<and>
   tables (oldestHeldLoop ks r) = tables r"
proof (induction ks arbitrary: r)
  case (Cons k ks)
  show ?case
  proof (cases "map_of (rr_held r) k")
    case None
    then show ?thesis using Cons by (simp add: view_defs)
  next
    case (Some h)
    then show ?thesis
      using settleHeld_frame [of k h "rr_holdHead_update Suc r"] by (simp add: view_defs Let_def)
  qed
qed simp

lemma hold_frame [simp]:
  "natView (hold k rec m snap now r) = natView r" "suppressions (hold k rec m snap now r) = suppressions r"
  "tables (hold k rec m snap now r) = tables r"
  using oldestHeldLoop_frame [of "drop (rr_holdHead r) (rr_holdOrder r)" r]
  by (simp_all add: hold_def releaseOldestHeld_def view_defs Let_def)

lemma nat_frames [simp]:
  "seenView (natExpire now r) = seenView r" "holdView (natExpire now r) = holdView r"
  "suppressions (natExpire now r) = suppressions r" "tables (natExpire now r) = tables r"
  "seenView (natConvExpire now r) = seenView r" "holdView (natConvExpire now r) = holdView r"
  "suppressions (natConvExpire now r) = suppressions r" "tables (natConvExpire now r) = tables r"
  "seenView (natRemember k role now r) = seenView r" "holdView (natRemember k role now r) = holdView r"
  "suppressions (natRemember k role now r) = suppressions r" "tables (natRemember k role now r) = tables r"
  "seenView (natConvRemember c now r) = seenView r" "holdView (natConvRemember c now r) = holdView r"
  "suppressions (natConvRemember c now r) = suppressions r" "tables (natConvRemember c now r) = tables r"
  by (simp_all add: view_defs natExpire_def natCompact_def natConvExpire_def natRemember_def
      natDropOldest_def natConvRemember_def Let_def split_beta)

lemma finishRepair_frame [simp]:
  "seenView (snd (finishRepair rec m snap r)) = seenView r"
  "holdView (snd (finishRepair rec m snap r)) = holdView r"
  "natView (snd (finishRepair rec m snap r)) = natView r"
  "suppressions (snd (finishRepair rec m snap r)) = suppressions r"
  "tables (snd (finishRepair rec m snap r)) = tables r"
  by (simp_all add: view_defs finishRepair_def correctEgress_def correctPolicyRoute_def Let_def split_beta
      split: option.split)

lemma natAdmit_frame [simp]:
  "seenView (snd (natAdmit rec now r)) = seenView r" "holdView (snd (natAdmit rec now r)) = holdView r"
  "tables (snd (natAdmit rec now r)) = tables r"
  by (simp_all add: natAdmit_def Let_def split_beta split: option.split)

text \<open>The records suppressed so far, over the three reasons there are.\<close>

definition suppressed :: "Repairer \<Rightarrow> nat" where
  "suppressed r = rr_vlanDropped r + rr_natDuplicates r + rr_natConvDuplicates r"

definition pendingHeld :: "Repairer \<Rightarrow> nat" where
  "pendingHeld r = length (rr_held r) + length (rr_dueEarly r)"

lemma suppressed_view: "suppressed r = (case suppressions r of (a, b, c) \<Rightarrow> a + b + c)"
  by (simp add: suppressed_def suppressions_def)

lemma natAdmit_suppressed:
  "suppressed (snd (natAdmit rec now r)) = suppressed r + (if fst (natAdmit rec now r) then 0 else 1)"
proof -
  have 1: "suppressed (natConvExpire now (natExpire now r)) = suppressed r"
    by (simp add: suppressed_view)
  have 2: "suppressed (x\<lparr>rr_natSeen := f, rr_natDuplicates := Suc (rr_natDuplicates x)\<rparr>) = Suc (suppressed x)"
    "suppressed (rr_natConvDuplicates_update Suc x) = Suc (suppressed x)" for x f
    by (simp_all add: suppressed_def)
  have 3: "suppressed (rr_natSeen_update f x) = suppressed x" "suppressed (rr_natUnpaired_update g x) = suppressed x"
    "suppressed (rr_natLatePreCopies_update g x) = suppressed x" "suppressed (natRemember k ro now x) = suppressed x"
    "suppressed (natConvRemember c now x) = suppressed x" for f g x k ro c
    by (simp_all add: suppressed_view)
  show ?thesis
    by (simp add: natAdmit_def Let_def split_beta 1 2 3 split: option.split)
qed

section \<open>The invariant of the stage\<close>

definition seen_ok :: "Repairer \<Rightarrow> bool" where
  "seen_ok r \<longleftrightarrow> rr_head r \<le> length (rr_order r) \<and> queued (drop (rr_head r) (rr_order r)) (rr_seen r) \<and>
     (0 < rr_maxEntries r \<longrightarrow> int (length (rr_seen r)) \<le> rr_maxEntries r)"

definition hold_queued :: "Repairer \<Rightarrow> bool" where
  "hold_queued r \<longleftrightarrow> rr_holdHead r \<le> length (rr_holdOrder r) \<and>
     queued (drop (rr_holdHead r) (rr_holdOrder r)) (rr_held r)"

definition hold_ok :: "Repairer \<Rightarrow> bool" where
  "hold_ok r \<longleftrightarrow> hold_queued r \<and> (0 < rr_maxHeld r \<longrightarrow> int (length (rr_held r)) \<le> rr_maxHeld r)"

definition nat_ok :: "Repairer \<Rightarrow> bool" where
  "nat_ok r \<longleftrightarrow> rr_natHead r \<le> length (rr_natOrder r) \<and> queued (drop (rr_natHead r) (rr_natOrder r)) (rr_natSeen r) \<and>
     gomap_wf (rr_natConv r) \<and>
     (0 < rr_maxEntries r \<longrightarrow> int (length (rr_natSeen r)) \<le> rr_maxEntries r \<and>
        int (length (rr_natConv r)) \<le> rr_maxEntries r)"

definition rep_ok :: "Repairer \<Rightarrow> bool" where
  "rep_ok r \<longleftrightarrow> seen_ok r \<and> hold_ok r \<and> nat_ok r"

lemma ok_cong:
  "seenView r = seenView r' \<Longrightarrow> seen_ok r = seen_ok r'"
  "holdView r = holdView r' \<Longrightarrow> hold_ok r = hold_ok r'"
  "holdView r = holdView r' \<Longrightarrow> hold_queued r = hold_queued r'"
  "natView r = natView r' \<Longrightarrow> nat_ok r = nat_ok r'"
  by (simp_all add: seen_ok_def hold_ok_def hold_queued_def nat_ok_def view_defs)

lemma compactRep_ok: "seen_ok r \<Longrightarrow> seen_ok (compactRep r)"
  by (auto simp: seen_ok_def compactRep_def)

lemma compactHold_ok: "hold_ok r \<Longrightarrow> hold_ok (compactHold r)"
  by (auto simp: hold_ok_def hold_queued_def compactHold_def)

lemma natCompact_ok: "nat_ok r \<Longrightarrow> nat_ok (natCompact r)"
  by (auto simp: nat_ok_def natCompact_def)

lemma expire_ok:
  assumes "seen_ok r" shows "seen_ok (expire now r)"
proof -
  obtain n m d where s: "sweepHead (\<lambda>e. now - dedupeTTL < de_seen e) (drop (rr_head r) (rr_order r)) (rr_seen r) = (n, m, d)"
    by (metis prod_cases3)
  have "seen_ok (r\<lparr>rr_seen := m, rr_head := rr_head r + n, rr_evicted := rr_evicted r + d\<rparr>)"
    using assms sweepHead_queued [OF _ s] by (auto simp: seen_ok_def add.commute)
  then show ?thesis by (simp add: expire_def s compactRep_ok)
qed

lemma insertRep_ok:
  assumes "seen_ok r" shows "seen_ok (insertRep k i ou now r)"
proof (cases "0 < rr_maxEntries r \<and> rr_maxEntries r \<le> int (length (rr_seen r))")
  case False
  have "length (AList.update k v (rr_seen r)) \<le> Suc (length (rr_seen r))" for v by (rule length_update_le)
  with False assms show ?thesis
    by (auto simp: insertRep_def seen_ok_def Let_def not_le intro!: queued_update
        intro: order_trans [OF of_nat_mono [OF length_update_le]])
next
  case True
  obtain n m where s: "dropHead (drop (rr_head r) (rr_order r)) (rr_seen r) = (n, m)" by (metis surj_pair)
  have "rr_seen r \<noteq> []" using True by auto
  from dropHead_queued [OF _ this s] assms
  have "n \<le> length (rr_order r) - rr_head r" "queued (drop n (drop (rr_head r) (rr_order r))) m"
    "Suc (length m) = length (rr_seen r)" by (simp_all add: seen_ok_def)
  moreover have "length (AList.update k v m) \<le> Suc (length m)" for v by (rule length_update_le)
  ultimately show ?thesis using True assms
    by (auto simp: insertRep_def dropOldest_def seen_ok_def Let_def s add.commute intro!: queued_update
        intro: order_trans [OF of_nat_mono [OF length_update_le]])
qed

lemma natExpire_ok:
  assumes "nat_ok r" shows "nat_ok (natExpire now r)"
proof -
  obtain n m d where s: "sweepHead (\<lambda>e. now - dedupeTTL < ns_seen e) (drop (rr_natHead r) (rr_natOrder r)) (rr_natSeen r) = (n, m, d)"
    by (metis prod_cases3)
  have "nat_ok (r\<lparr>rr_natSeen := m, rr_natHead := rr_natHead r + n\<rparr>)"
    using assms sweepHead_queued [OF _ s] by (auto simp: nat_ok_def add.commute)
  then show ?thesis by (simp add: natExpire_def s natCompact_ok)
qed

lemma natConvExpire_ok: "nat_ok r \<Longrightarrow> nat_ok (natConvExpire now r)"
  by (auto simp: nat_ok_def natConvExpire_def Let_def intro: order_trans [OF of_nat_mono [OF length_filter_le]])

lemma natConvRemember_ok:
  assumes "nat_ok r" shows "nat_ok (natConvRemember c now r)"
proof (cases "map_of (rr_natConv r) c")
  case None
  then show ?thesis using assms by (auto simp: nat_ok_def natConvRemember_def)
next
  case (Some t)
  then show ?thesis using assms by (auto simp: nat_ok_def natConvRemember_def)
qed

lemma natRemember_ok:
  assumes "nat_ok r" shows "nat_ok (natRemember k role now r)"
proof (cases "map_of (rr_natSeen r) k = None \<and> 0 < rr_maxEntries r \<and> rr_maxEntries r \<le> int (length (rr_natSeen r))")
  case False
  with assms show ?thesis
    by (auto simp: natRemember_def nat_ok_def Let_def not_le intro!: queued_update)
next
  case True
  obtain n m where s: "dropHead (drop (rr_natHead r) (rr_natOrder r)) (rr_natSeen r) = (n, m)" by (metis surj_pair)
  have "rr_natSeen r \<noteq> []" using True by auto
  from dropHead_queued [OF _ this s] assms
  have "n \<le> length (rr_natOrder r) - rr_natHead r" "queued (drop n (drop (rr_natHead r) (rr_natOrder r))) m"
    "Suc (length m) = length (rr_natSeen r)" by (simp_all add: nat_ok_def)
  then show ?thesis using True assms
    by (auto simp: natRemember_def natDropOldest_def nat_ok_def Let_def s add.commute intro!: queued_update
        intro: order_trans [OF of_nat_mono [OF length_update_le]])
qed

lemma natSeen_delete_ok: "nat_ok r \<Longrightarrow> nat_ok (rr_natSeen_update (\<lambda>_. AList.delete k (rr_natSeen r)) r)"
  by (auto simp: nat_ok_def intro: queued_delete order_trans [OF of_nat_mono [OF length_delete_le]])

lemma nat_counters_ok [simp]:
  "nat_ok (rr_natDuplicates_update g r) = nat_ok r" "nat_ok (rr_natConvDuplicates_update g r) = nat_ok r"
  "nat_ok (rr_natUnpaired_update g r) = nat_ok r" "nat_ok (rr_natLatePreCopies_update g r) = nat_ok r"
  by (simp_all add: nat_ok_def)

lemma natAdmit_ok:
  assumes "nat_ok r" shows "nat_ok (snd (natAdmit rec now r))"
  using assms
  by (simp add: natAdmit_def Let_def split_beta natExpire_ok natConvExpire_ok natRemember_ok
      natConvRemember_ok natSeen_delete_ok split: option.split)

lemma settleHeld_ok: "seen_ok r \<Longrightarrow> seen_ok (settleHeld k h r)"
  unfolding settleHeld_def by (rule insertRep_ok) (simp add: seen_ok_def)

lemma settleHeld_hold [simp]:
  "rr_held (settleHeld k h r) = AList.delete k (rr_held r)" "rr_holdOrder (settleHeld k h r) = rr_holdOrder r"
  "rr_holdHead (settleHeld k h r) = rr_holdHead r" "rr_dueEarly (settleHeld k h r) = rr_dueEarly r"
  "rr_maxHeld (settleHeld k h r) = rr_maxHeld r"
  using settleHeld_frame(4) [of k h r] by (simp_all add: holdView_def)

lemma seen_ok_head [simp]: "seen_ok (rr_holdHead_update f r) = seen_ok r"
  by (simp add: seen_ok_def)

lemma drop_Suc_of: "drop n xs = k # ks \<Longrightarrow> drop (Suc n) xs = ks \<and> n < length xs"
  by (metis Cons_nth_drop_Suc drop_eq_Nil2 leI list.inject list.distinct(1))

lemma oldestHeldLoop_spec:
  assumes "hold_queued r" "rr_held r \<noteq> []" "seen_ok r" "drop (rr_holdHead r) (rr_holdOrder r) = ks"
  shows "let r' = oldestHeldLoop ks r in hold_queued r' \<and> seen_ok r' \<and> rr_maxHeld r' = rr_maxHeld r \<and>
    Suc (length (rr_held r')) = length (rr_held r) \<and> pendingHeld r' = pendingHeld r"
  using assms
proof (induction ks arbitrary: r)
  case Nil
  then show ?case using queued_no_slots by (auto simp: hold_queued_def)
next
  case (Cons k ks)
  note sl = drop_Suc_of [OF Cons.prems(4)]
  show ?case
  proof (cases "map_of (rr_held r) k")
    case None
    have "hold_queued (rr_holdHead_update Suc r)"
      using Cons.prems sl None queued_skip [of k ks] by (auto simp: hold_queued_def)
    from Cons.IH [OF this] Cons.prems sl None show ?thesis by (simp add: pendingHeld_def)
  next
    case (Some h)
    have "Suc (length (AList.delete k (rr_held r))) = length (rr_held r)"
      using Cons.prems(1) Some by (intro length_delete_wf) (auto simp: hold_queued_def queued_def)
    moreover have "queued ks (AList.delete k (rr_held r))"
      using Cons.prems(1,4) queued_tail by (auto simp: hold_queued_def)
    moreover have "seen_ok (settleHeld k h (rr_holdHead_update Suc r))"
      using Cons.prems(3) by (intro settleHeld_ok) simp
    ultimately show ?thesis using Some sl
      by (simp add: Let_def hold_queued_def pendingHeld_def seen_ok_def)
  qed
qed

lemma oldestHeldLoop_sub: "fst ` set (rr_held (oldestHeldLoop ks r)) \<subseteq> fst ` set (rr_held r)"
proof (induction ks arbitrary: r)
  case (Cons k ks)
  then show ?case using Cons [of "rr_holdHead_update Suc r"]
    by (auto simp: Let_def set_delete split: option.split)
qed simp

lemma hold_spec:
  assumes "hold_ok r" "seen_ok r" "map_of (rr_held r) k = None"
  shows "hold_ok (hold k rec m snap now r) \<and> seen_ok (hold k rec m snap now r) \<and>
    pendingHeld (hold k rec m snap now r) = Suc (pendingHeld r)"
proof (cases "0 < rr_maxHeld r \<and> rr_maxHeld r \<le> int (length (rr_held r))")
  case False
  then show ?thesis using assms
    by (auto simp: hold_def hold_ok_def hold_queued_def seen_ok_def pendingHeld_def intro: queued_update)
next
  case True
  let ?r = "releaseOldestHeld r"
  have ne: "rr_held r \<noteq> []" using True by auto
  have sp: "hold_queued ?r \<and> seen_ok ?r \<and> rr_maxHeld ?r = rr_maxHeld r \<and>
      Suc (length (rr_held ?r)) = length (rr_held r) \<and> pendingHeld ?r = pendingHeld r"
    using oldestHeldLoop_spec [OF _ ne assms(2) refl] assms(1)
    by (simp add: releaseOldestHeld_def hold_ok_def Let_def)
  have new: "map_of (rr_held ?r) k = None"
    using oldestHeldLoop_sub assms(3) by (fastforce simp: releaseOldestHeld_def map_of_None_iff)
  let ?r' = "?r\<lparr>rr_held := AList.update k \<lparr>h_rec = rec, h_m = m, h_snap = snap, h_arrived = now\<rparr> (rr_held ?r),
            rr_holdOrder := rr_holdOrder ?r @ [k]\<rparr>"
  have eq: "hold k rec m snap now r = ?r'" using True by (simp add: hold_def Let_def)
  have "seen_ok ?r'" "pendingHeld ?r' = Suc (pendingHeld r)" "hold_queued ?r'" "length (rr_held ?r') = length (rr_held r)"
    using sp new by (auto simp: seen_ok_def pendingHeld_def hold_queued_def intro: queued_update)
  then show ?thesis using assms(1) sp unfolding eq hold_ok_def by simp
qed

lemma releaseLoop_spec:
  assumes "hold_queued r" "seen_ok r" "drop (rr_holdHead r) (rr_holdOrder r) = ks"
    "releaseLoop now all ks due r = (due', r')"
  shows "hold_queued r' \<and> seen_ok r' \<and> rr_maxHeld r' = rr_maxHeld r \<and>
    length (rr_held r') + length due' = length (rr_held r) + length due \<and> length (rr_held r') \<le> length (rr_held r) \<and>
    rr_dueEarly r' = rr_dueEarly r \<and> (all \<longrightarrow> rr_held r' = []) \<and>
    natView r' = natView r \<and> suppressions r' = suppressions r \<and> tables r' = tables r"
  using assms
proof (induction ks arbitrary: r due)
  case Nil
  then show ?case using queued_no_slots by (auto simp: hold_queued_def)
next
  case (Cons k ks)
  note sl = drop_Suc_of [OF Cons.prems(3)]
  have fr: "natView (rr_holdHead_update Suc r) = natView r" "suppressions (rr_holdHead_update Suc r) = suppressions r"
    "tables (rr_holdHead_update Suc r) = tables r" by (simp_all add: view_defs)
  show ?case
  proof (cases "map_of (rr_held r) k")
    case None
    have "hold_queued (rr_holdHead_update Suc r)"
      using Cons.prems sl None queued_skip [of k ks] by (auto simp: hold_queued_def)
    from Cons.IH [OF this] Cons.prems sl None fr show ?thesis by auto
  next
    case (Some h)
    let ?r = "settleHeld k h (rr_holdHead_update Suc r)"
    have len: "Suc (length (AList.delete k (rr_held r))) = length (rr_held r)"
      using Cons.prems(1) Some by (intro length_delete_wf) (auto simp: hold_queued_def queued_def)
    have q: "hold_queued ?r" using Cons.prems(1,3) queued_tail sl by (auto simp: hold_queued_def)
    have s: "seen_ok ?r" using Cons.prems(2) by (intro settleHeld_ok) simp
    show ?thesis
    proof (cases "\<not> all \<and> now < deadline h")
      case True
      then show ?thesis using Cons.prems Some by auto
    next
      case False
      then have "releaseLoop now all ks (due @ [h]) ?r = (due', r')" using Cons.prems(4) Some by auto
      from Cons.IH [OF q s _ this] sl len fr show ?thesis by auto
    qed
  qed
qed

lemma rep_ok_cong:
  "seenView r' = seenView r \<Longrightarrow> holdView r' = holdView r \<Longrightarrow> natView r' = natView r \<Longrightarrow> rep_ok r' = rep_ok r"
  unfolding rep_ok_def using ok_cong [of r' r] by blast

text \<open>What one admission does to the books: the record is emitted, suppressed or held.\<close>

definition booked :: "RepairVerdict \<Rightarrow> Repairer \<Rightarrow> Repairer \<Rightarrow> bool" where
  "booked v r r' \<longleftrightarrow> suppressed r' = suppressed r + (if v = RepairDrop then 1 else 0) \<and>
     pendingHeld r' = pendingHeld r + (if v = RepairHold then 1 else 0)"

lemma pendingHeld_view: "holdView r = holdView r' \<Longrightarrow> pendingHeld r = pendingHeld r'"
  by (simp add: pendingHeld_def holdView_def)

lemma suppressed_cong: "suppressions r = suppressions r' \<Longrightarrow> suppressed r = suppressed r'"
  by (simp add: suppressed_view)

lemma counters_ok [simp]:
  "rep_ok (rr_vlanDropped_update g r) = rep_ok r" "rep_ok (rr_subnetAttrib_update g r) = rep_ok r"
  "rep_ok (rr_lateChildCopies_update g r) = rep_ok r" "rep_ok (rr_childPreferred_update g r) = rep_ok r"
  by (rule rep_ok_cong; simp)+

lemma held_replace_ok:
  "rep_ok r \<Longrightarrow> map_of (rr_held r) k \<noteq> None \<Longrightarrow> rep_ok (rr_held_update (\<lambda>_. AList.update k h (rr_held r)) r)"
  by (auto simp: rep_ok_def seen_ok_def hold_ok_def hold_queued_def nat_ok_def intro!: queued_replace)

lemma expire_rep_ok: "rep_ok r \<Longrightarrow> rep_ok (expire now r)"
  using ok_cong [of "expire now r" r] by (simp add: rep_ok_def expire_ok)

lemma insertRep_rep_ok: "rep_ok r \<Longrightarrow> rep_ok (insertRep k i ou now r)"
  using ok_cong [of "insertRep k i ou now r" r] by (simp add: rep_ok_def insertRep_ok)

lemma hold_rep_ok: "rep_ok r \<Longrightarrow> map_of (rr_held r) k = None \<Longrightarrow> rep_ok (hold k rec m snap now r)"
  using ok_cong(4) [of "hold k rec m snap now r" r] hold_spec [of r k] by (simp add: rep_ok_def)

lemma admitCopy_spec:
  assumes ok: "rep_ok r" and a: "admitCopy rec m snap now r = (v, r')"
  shows "rep_ok r' \<and> booked v r r' \<and> natView r' = natView r \<and> tables r' = tables r"
proof (cases "map_of (rr_held r) (keyOf rec)")
  case (Some h)
  then have "length (AList.update (keyOf rec) h' (rr_held r)) = length (rr_held r)" for h' by simp
  with Some show ?thesis using a ok held_replace_ok [of "rr_vlanDropped_update Suc r" "keyOf rec"]
    by (auto simp: admitCopy_def Let_def booked_def suppressed_def pendingHeld_def split: if_splits)
next
  case held: None
  show ?thesis
  proof (cases "map_of (rr_seen r) (keyOf rec)")
    case (Some e)
    with held show ?thesis using a ok
      by (auto simp: admitCopy_def Let_def booked_def suppressed_def pendingHeld_def split: if_splits)
  next
    case None
    have "booked RepairEmit r (insertRep k i ou now r)" for k i ou
      using pendingHeld_view [of r "insertRep k i ou now r"] suppressed_cong [of r "insertRep k i ou now r"]
      by (simp add: booked_def)
    moreover have "booked RepairHold r (hold (keyOf rec) rec m snap now r)"
      using ok held hold_spec [of r "keyOf rec" rec m snap now] suppressed_cong [of r "hold (keyOf rec) rec m snap now r"]
      by (simp add: booked_def rep_ok_def)
    ultimately show ?thesis using held None a ok
      by (auto simp: admitCopy_def Let_def insertRep_rep_ok hold_rep_ok split: if_splits)
  qed
qed

lemma admit_spec:
  assumes ok: "rep_ok r" and a: "admit rec m snap now r = (v, rec', r')"
  shows "rep_ok r' \<and> booked v r r' \<and> natView r' = natView r \<and> tables r' = tables r"
proof -
  have base: "rep_ok (expire now r)" "suppressed (expire now r) = suppressed r" "pendingHeld (expire now r) = pendingHeld r"
    using expire_rep_ok [OF ok] by (auto intro!: suppressed_cong pendingHeld_view)
  show ?thesis
  proof (cases "isVLANParentCopy rec m")
    case True
    then show ?thesis using a base
      by (auto simp: admit_def booked_def suppressed_def pendingHeld_def)
  next
    case False
    define r2 where "r2 = (if snd (attributeBySubnet rec m) then rr_subnetAttrib_update Suc (expire now r) else expire now r)"
    have 2: "rep_ok r2" "suppressed r2 = suppressed r" "pendingHeld r2 = pendingHeld r" "natView r2 = natView r" "tables r2 = tables r"
      using base by (simp_all add: r2_def suppressed_def pendingHeld_def)
    from False a have "admitCopy rec' m snap now r2 = (v, r')"
      by (auto simp: admit_def r2_def Let_def split: prod.splits)
    from admitCopy_spec [OF 2(1) this] 2 show ?thesis by (simp add: booked_def)
  qed
qed

lemma emitDue_spec:
  assumes "rep_ok r" "emitDue now hs r = (out, r')"
  shows "rep_ok r' \<and> holdView r' = holdView r \<and> tables r' = tables r \<and>
    length out + suppressed r' = suppressed r + length hs"
  using assms
proof (induction hs arbitrary: r out r')
  case (Cons h hs)
  obtain ok r1 where n: "natAdmit (h_rec h) now r = (ok, r1)" by fastforce
  have v1: "seenView r1 = seenView r" "holdView r1 = holdView r" "tables r1 = tables r"
    using natAdmit_frame [of "h_rec h" now r] n by simp_all
  have "nat_ok r1" using natAdmit_ok [of r "h_rec h" now] Cons.prems(1) n by (simp add: rep_ok_def)
  then have ok1: "rep_ok r1" using Cons.prems(1) ok_cong(1) [OF v1(1)] ok_cong(2) [OF v1(2)] by (simp add: rep_ok_def)
  have s1: "suppressed r1 = suppressed r + (if ok then 0 else 1)" using natAdmit_suppressed [of "h_rec h" now r] n by simp
  show ?case
  proof (cases ok)
    case False
    then have "emitDue now hs r1 = (out, r')" using Cons.prems(2) n by simp
    from Cons.IH [OF ok1 this] v1 s1 False show ?thesis by simp
  next
    case True
    obtain rec2 r2 where f: "finishRepair (h_rec h) (h_m h) (h_snap h) r1 = (rec2, r2)" by fastforce
    have v2: "seenView r2 = seenView r1" "holdView r2 = holdView r1" "natView r2 = natView r1" "suppressions r2 = suppressions r1"
      "tables r2 = tables r1" using finishRepair_frame [of "h_rec h" "h_m h" "h_snap h" r1] f by simp_all
    obtain out2 r3 where e: "emitDue now hs r2 = (out2, r3)" by fastforce
    have "rep_ok r2" using ok1 rep_ok_cong [OF v2(1-3)] by simp
    from Cons.IH [OF this e] v1 v2 s1 True n f e Cons.prems(2) suppressed_cong [OF v2(4)] show ?thesis by auto
  qed
qed simp

lemma compactHold_frame [simp]:
  "seenView (compactHold r) = seenView r" "natView (compactHold r) = natView r" "suppressions (compactHold r) = suppressions r"
  "tables (compactHold r) = tables r" "rr_held (compactHold r) = rr_held r" "rr_dueEarly (compactHold r) = rr_dueEarly r"
  by (simp_all add: view_defs compactHold_def)

lemma releaseRep_spec:
  assumes ok: "rep_ok r" and a: "releaseRep now all r = (out, r')"
  shows "rep_ok r' \<and> tables r' = tables r \<and>
    length out + suppressed r' + pendingHeld r' = suppressed r + pendingHeld r \<and> rr_dueEarly r' = [] \<and>
    (all \<longrightarrow> pendingHeld r' = 0)"
proof -
  let ?r0 = "r\<lparr>rr_dueEarly := []\<rparr>"
  obtain due r1 where l: "releaseLoop now all (drop (rr_holdHead r) (rr_holdOrder r)) (rr_dueEarly r) ?r0 = (due, r1)" by fastforce
  have 0: "hold_queued ?r0" "seen_ok ?r0" using ok by (simp_all add: rep_ok_def hold_ok_def hold_queued_def seen_ok_def)
  have 1: "hold_queued r1 \<and> seen_ok r1 \<and> rr_maxHeld r1 = rr_maxHeld r \<and>
      length (rr_held r1) + length due = pendingHeld r \<and> length (rr_held r1) \<le> length (rr_held r) \<and> rr_dueEarly r1 = [] \<and> (all \<longrightarrow> rr_held r1 = []) \<and>
      natView r1 = natView r \<and> suppressions r1 = suppressions r \<and> tables r1 = tables r"
    using releaseLoop_spec [OF 0 _ l] by (simp add: pendingHeld_def view_defs)
  have "int (length (rr_held r1)) \<le> rr_maxHeld r" if "0 < rr_maxHeld r"
    using that ok 1 by (auto simp: rep_ok_def hold_ok_def)
  then have "hold_ok r1" "nat_ok r1" using 1 ok ok_cong(4) [of r1 r] by (auto simp: hold_ok_def rep_ok_def)
  then have "rep_ok (compactHold r1)"
    using 1 ok_cong(1) [of "compactHold r1" r1] ok_cong(4) [of "compactHold r1" r1] compactHold_ok
    by (simp add: rep_ok_def)
  from emitDue_spec [OF this, of now due out r'] a l have e: "rep_ok r' \<and> holdView r' = holdView (compactHold r1) \<and>
      tables r' = tables r1 \<and> length out + suppressed r' = suppressed (compactHold r1) + length due"
    by (simp add: releaseRep_def)
  moreover have "suppressed (compactHold r1) = suppressed r" using 1 by (auto intro: suppressed_cong)
  moreover have "pendingHeld r' = length (rr_held r1)" using e 1 by (simp add: pendingHeld_def holdView_def)
  moreover have "rr_dueEarly r' = []" using e 1 by (simp add: holdView_def)
  ultimately show ?thesis using 1 by auto
qed

section \<open>Histories\<close>

text \<open>
  What the rest of the exporter does to the stage, and the records it emits, in order. Pollers
  publish tables at any point between records.
\<close>

datatype repairOp =
  DoRepair Record "IfMap option" "Snapshot option" time
| DoRelease time
| DoFlush
| DoRoutes "RouteTable option"
| DoNATs "NATTable option"

fun repStep :: "repairOp \<Rightarrow> Repairer \<times> Record list \<Rightarrow> Repairer \<times> Record list" where
  "repStep (DoRepair rec m snap now) (r, log) =
     (case Repair (Some rec) m snap now r of
        (RepairEmit, Some rec', r') \<Rightarrow> (r', log @ [rec'])
      | (_, _, r') \<Rightarrow> (r', log))"
| "repStep (DoRelease now) (r, log) = (case Repairer_Release now r of (out, r') \<Rightarrow> (r', log @ out))"
| "repStep DoFlush (r, log) = (case Repairer_Flush r of (out, r') \<Rightarrow> (r', log @ out))"
| "repStep (DoRoutes t) (r, log) = (SetRouteTable t r, log)"
| "repStep (DoNATs t) (r, log) = (SetNATTable t r, log)"

fun isRepair :: "repairOp \<Rightarrow> bool" where
  "isRepair (DoRepair rec m snap now) \<longleftrightarrow> True"
| "isRepair _ \<longleftrightarrow> False"

lemma repairWith_spec:
  assumes ok: "rep_ok r" and a: "repairWith (Some rec) m snap now r = (v, rec', r')"
  shows "rep_ok r' \<and> booked v r r' \<and> tables r' = tables r \<and> rec' \<noteq> None"
proof -
  obtain v1 rec1 r1 where ad: "admit rec m snap now r = (v1, rec1, r1)" by (metis prod_cases3)
  note s1 = admit_spec [OF ok ad]
  show ?thesis
  proof (cases v1)
    case RepairEmit
    obtain b r2 where n: "natAdmit rec1 now r1 = (b, r2)" by fastforce
    have v2: "seenView r2 = seenView r1" "holdView r2 = holdView r1" "tables r2 = tables r1"
      using natAdmit_frame [of rec1 now r1] n by simp_all
    have "nat_ok r2" using natAdmit_ok [of r1 rec1 now] s1 n by (simp add: rep_ok_def)
    then have ok2: "rep_ok r2" using s1 ok_cong(1) [OF v2(1)] ok_cong(2) [OF v2(2)] by (simp add: rep_ok_def)
    have b2: "suppressed r2 = suppressed r1 + (if b then 0 else 1)" "pendingHeld r2 = pendingHeld r1"
      using natAdmit_suppressed [of rec1 now r1] n pendingHeld_view [OF v2(2)] by simp_all
    obtain rec3 r3 where f: "finishRepair rec1 m snap r2 = (rec3, r3)" by fastforce
    have v3: "seenView r3 = seenView r2" "holdView r3 = holdView r2" "natView r3 = natView r2" "suppressions r3 = suppressions r2"
      "tables r3 = tables r2" using finishRepair_frame [of rec1 m snap r2] f by simp_all
    show ?thesis using s1 v2 v3 ok2 rep_ok_cong [OF v3(1-3)] b2 suppressed_cong [OF v3(4)] pendingHeld_view [OF v3(2)]
        a ad n f RepairEmit by (auto simp: repairWith_def booked_def split: if_splits)
  qed (use s1 a ad in \<open>auto simp: repairWith_def booked_def\<close>)
qed

definition run_ok :: "Repairer \<times> Record list \<Rightarrow> bool" where
  "run_ok s \<longleftrightarrow> rep_ok (fst s)"

definition accounted :: "Repairer \<times> Record list \<Rightarrow> nat" where
  "accounted s = length (snd s) + suppressed (fst s) + pendingHeld (fst s)"

definition enters :: "repairOp \<Rightarrow> nat" where
  "enters op = (if isRepair op then 1 else 0)"

lemma repStep_spec: "run_ok s \<Longrightarrow> run_ok (repStep op s) \<and> accounted (repStep op s) = accounted s + enters op"
proof (cases op)
  case (DoRepair rec m snap now)
  assume ok: "run_ok s"
  obtain v rec' r' where a: "repairWith (Some rec) (map_option topologyOf m) snap now (fst s) = (v, rec', r')" by (metis prod_cases3)
  from repairWith_spec [OF _ a] ok have "rep_ok r'" "booked v (fst s) r'" "rec' \<noteq> None" by (auto simp: run_ok_def)
  then show ?thesis using a DoRepair
    by (cases s; cases v) (auto simp: Repair_def run_ok_def accounted_def enters_def booked_def)
next
  case (DoRelease now)
  assume ok: "run_ok s"
  obtain out r' where a: "releaseRep now False (fst s) = (out, r')" by fastforce
  from releaseRep_spec [OF _ a] ok show ?thesis using a DoRelease
    by (cases s) (auto simp: Repairer_Release_def run_ok_def accounted_def enters_def)
next
  case DoFlush
  assume ok: "run_ok s"
  obtain out r' where a: "releaseRep 0 True (fst s) = (out, r')" by fastforce
  from releaseRep_spec [OF _ a] ok show ?thesis using a DoFlush
    by (cases s) (auto simp: Repairer_Flush_def run_ok_def accounted_def enters_def)
next
  case (DoRoutes t)
  assume "run_ok s"
  then show ?thesis using DoRoutes
    by (cases s) (auto simp: SetRouteTable_def run_ok_def accounted_def enters_def suppressed_def pendingHeld_def
        rep_ok_def seen_ok_def hold_ok_def hold_queued_def nat_ok_def)
next
  case (DoNATs t)
  assume "run_ok s"
  then show ?thesis using DoNATs
    by (cases s) (auto simp: SetNATTable_def run_ok_def accounted_def enters_def suppressed_def pendingHeld_def
        rep_ok_def seen_ok_def hold_ok_def hold_queued_def nat_ok_def)
qed

interpretation repairs: conserving run_ok repStep accounted enters
  by unfold_locales (use repStep_spec in auto)

definition repRun :: "int \<Rightarrow> int \<Rightarrow> repairOp list \<Rightarrow> Repairer \<times> Record list" where
  "repRun maxE maxH ops = fold repStep ops (NewRepairer maxE maxH, [])"

lemma New_ok: "run_ok (NewRepairer maxE maxH, [])"
  by (simp add: run_ok_def rep_ok_def seen_ok_def hold_ok_def hold_queued_def nat_ok_def NewRepairer_def)

lemma repRun_ok: "rep_ok (fst (repRun maxE maxH ops))"
  using repairs.run_inv [OF New_ok] by (simp add: repRun_def run_ok_def)

lemma sum_list_enters: "(\<Sum>op\<leftarrow>ops. enters op) = length (filter isRepair ops)"
  by (induction ops) (auto simp: enters_def)

text \<open>
  (C8) The stage loses nothing silently: over any history, the records given to it are exactly
  those it emitted, those it counted as suppressed (a VLAN copy, or a translated copy proven by
  export or by conversation) and those its gauge reports as still held. After a flush nothing is
  held.
\<close>

theorem repair_accounts:
  "case repRun maxE maxH ops of (r, log) \<Rightarrow>
     length log + rst_VLANDuplicatesDropped (StatsAt now r) + rst_NATDuplicatesDropped (StatsAt now r) +
       rst_NATConversationDuplicates (StatsAt now r) + rst_HeldEntries (StatsAt now r) = length (filter isRepair ops) \<and>
     rst_HeldEntries (StatsAt now (snd (Repairer_Flush r))) = 0"
proof -
  obtain r log where run: "repRun maxE maxH ops = (r, log)" by fastforce
  have "accounted (r, log) = length (filter isRepair ops)"
    using repairs.run_total [OF New_ok [of maxE maxH], of ops] run
    by (simp add: repRun_def sum_list_enters) (simp add: accounted_def NewRepairer_def suppressed_def pendingHeld_def)
  moreover have "pendingHeld (snd (Repairer_Flush r)) = 0"
    using releaseRep_spec [of r 0 True "fst (Repairer_Flush r)" "snd (Repairer_Flush r)"] repRun_ok [of maxE maxH ops] run
    by (simp add: Repairer_Flush_def)
  ultimately show ?thesis unfolding run
    by (simp add: accounted_def StatsAt_def Let_def suppressed_def pendingHeld_def)
qed

section \<open>Bounds\<close>

definition limits :: "Repairer \<Rightarrow> int \<times> int" where
  "limits r = (rr_maxEntries r, rr_maxHeld r)"

lemma limits_views:
  "holdView r = holdView r' \<Longrightarrow> natView r = natView r' \<Longrightarrow> limits r = limits r'"
  "holdView r = holdView r' \<Longrightarrow> seenView r = seenView r' \<Longrightarrow> limits r = limits r'"
  by (simp_all add: view_defs limits_def)

lemma limits_basic [simp]:
  "limits (expire now r) = limits r" "limits (insertRep k i ou now r) = limits r"
  "limits (snd (natAdmit rec now r)) = limits r" "limits (snd (finishRepair rec m snap r)) = limits r"
  using limits_views(1) [of "expire now r" r] limits_views(1) [of "insertRep k i ou now r" r]
    limits_views(2) [of "snd (natAdmit rec now r)" r] limits_views(2) [of "snd (finishRepair rec m snap r)" r]
  by simp_all

lemma limits_updates [simp]:
  "limits (rr_vlanDropped_update g r) = limits r" "limits (rr_subnetAttrib_update g r) = limits r"
  "limits (rr_lateChildCopies_update g r) = limits r" "limits (rr_childPreferred_update g r) = limits r"
  "limits (rr_held_update e r) = limits r" "limits (rr_holdHead_update g r) = limits r"
  "limits (rr_dueEarly_update d r) = limits r" "limits (rr_holdOverflow_update g r) = limits r"
  "limits (rr_holdOrder_update d2 r) = limits r" "limits (rr_routes_update t r) = limits r"
  "limits (rr_nats_update u r) = limits r"
  by (simp_all add: limits_def)

lemma settleHeld_limits [simp]: "limits (settleHeld k h r) = limits r"
  by (simp add: settleHeld_def)

lemma oldestHeldLoop_limits [simp]: "limits (oldestHeldLoop ks r) = limits r"
  by (induction ks arbitrary: r) (auto simp: Let_def split: option.split)

lemma hold_limits [simp]: "limits (hold k rec m snap now r) = limits r"
  by (simp add: hold_def releaseOldestHeld_def Let_def)

lemma admit_limits [simp]: "limits (snd (snd (admit rec m snap now r))) = limits r"
  by (simp add: admit_def admitCopy_def Let_def split_beta split: option.split)

lemma repairWith_limits [simp]: "limits (snd (snd (repairWith rec m snap now r))) = limits r"
proof (cases rec)
  case (Some x)
  obtain v rec1 r1 where ad: "admit x m snap now r = (v, rec1, r1)" by (metis prod_cases3)
  then have "limits r1 = limits r" using admit_limits [of x m snap now r] by simp
  with ad Some show ?thesis by (cases v) (auto simp: repairWith_def split_beta Let_def)
qed (simp add: repairWith_def)

lemma releaseLoop_limits [simp]: "limits (snd (releaseLoop now all ks due r)) = limits r"
  by (induction ks arbitrary: due r) (auto split: option.split)

lemma emitDue_limits [simp]: "limits (snd (emitDue now hs r)) = limits r"
  by (induction hs arbitrary: r) (auto simp: Let_def split_beta)

lemma releaseRep_limits [simp]: "limits (snd (releaseRep now all r)) = limits r"
  by (simp add: releaseRep_def split_beta) (simp add: compactHold_def)

lemma repStep_limits: "limits (fst (repStep op s)) = limits (fst s)"
proof (cases "(op, s)" rule: repStep.cases)
  case (1 rec m snap now r log)
  then show ?thesis using repairWith_limits [of "Some rec" "map_option topologyOf m" snap now r]
    by (auto simp: Repair_def simp del: repairWith_limits split: prod.split RepairVerdict.split option.split)
qed (auto simp: Repairer_Release_def Repairer_Flush_def SetRouteTable_def SetNATTable_def split_beta)

lemma repRun_limits: "limits (fst (repRun maxE maxH ops)) = (maxE, maxH)"
proof -
  have "limits (fst (fold repStep ops s)) = limits (fst s)" for s
    by (induction ops arbitrary: s) (auto simp: repStep_limits)
  then show ?thesis by (simp add: repRun_def limits_def NewRepairer_def)
qed

text \<open>
  Memory is bounded whatever arrives: with positive limits the instance table, both
  translation tables and the hold buffer never hold more entries than configured, over any
  history of records, releases and table swaps.
\<close>

theorem repair_bounded:
  assumes "0 < maxE" "0 < maxH" "repRun maxE maxH ops = (r, log)"
  shows "int (length (rr_seen r)) \<le> maxE \<and> int (length (rr_natSeen r)) \<le> maxE \<and>
     int (length (rr_natConv r)) \<le> maxE \<and> int (length (rr_held r)) \<le> maxH"
  using repRun_ok [of maxE maxH ops] repRun_limits [of maxE maxH ops] assms
  by (simp add: rep_ok_def seen_ok_def hold_ok_def nat_ok_def limits_def)

theorem repair_bounded_witness:
  "int (length (rr_seen (fst (repRun 1 1 [DoRepair Record_zero None None 0,
     DoRepair (Record_zero\<lparr>r_SrcPort := 1\<rparr>) None None 1])))) \<le> 1"
  using repair_bounded [of 1 1 "[DoRepair Record_zero None None 0, DoRepair (Record_zero\<lparr>r_SrcPort := 1\<rparr>) None None 1]"]
  by (metis prod.collapse zero_less_one)

section \<open>Evidence for a suppressed translation\<close>

definition emittedAs :: "Record list \<Rightarrow> routeKey \<Rightarrow> bool" where
  "emittedAs log c \<longleftrightarrow> list_ex (\<lambda>x. tupleOfRecord x = Some c) log"

definition nat_backed :: "Repairer \<Rightarrow> Record list \<Rightarrow> bool" where
  "nat_backed r log \<longleftrightarrow>
     (\<forall>(k, e)\<in>set (rr_natSeen r). ns_role e = natRolePre \<longrightarrow>
        list_ex (\<lambda>x. tupleOfRecord x = Some (nk_canon k) \<and> volumeOf x = (nk_bytes k, nk_pkts k)) log) \<and>
     (\<forall>(c, t)\<in>set (rr_natConv r). emittedAs log c)"

lemma nat_backed_view: "natView r = natView r' \<Longrightarrow> nat_backed r log = nat_backed r' log"
  by (simp add: nat_backed_def natView_def)

lemma nat_backed_mono: "nat_backed r log \<Longrightarrow> nat_backed r (log @ out)"
  unfolding nat_backed_def emittedAs_def by fastforce

lemma nat_backed_sub:
  "nat_backed r log \<Longrightarrow> set (rr_natSeen r') \<subseteq> set (rr_natSeen r) \<Longrightarrow> set (rr_natConv r') \<subseteq> set (rr_natConv r) \<Longrightarrow>
   nat_backed r' log"
  unfolding nat_backed_def by blast

lemma natExpire_backed: "nat_backed r log \<Longrightarrow> nat_backed (natExpire now r) log"
proof (erule nat_backed_sub)
  obtain n m d where s: "sweepHead (\<lambda>e. now - dedupeTTL < ns_seen e) (drop (rr_natHead r) (rr_natOrder r)) (rr_natSeen r) = (n, m, d)"
    by (metis prod_cases3)
  then show "set (rr_natSeen (natExpire now r)) \<subseteq> set (rr_natSeen r)"
    using sweepHead_sub [OF s] by (simp add: natExpire_def natCompact_def)
  show "set (rr_natConv (natExpire now r)) \<subseteq> set (rr_natConv r)"
    using s by (simp add: natExpire_def natCompact_def)
qed

lemma natConvExpire_backed: "nat_backed r log \<Longrightarrow> nat_backed (natConvExpire now r) log"
  by (erule nat_backed_sub) (auto simp: natConvExpire_def Let_def)

lemma natConvRemember_backed:
  assumes "nat_backed r log" "emittedAs log c" shows "nat_backed (natConvRemember c now r) log"
  using assms set_update_subset [of c now "rr_natConv r"]
  by (fastforce simp: nat_backed_def natConvRemember_def)

lemma natRemember_backed:
  assumes "nat_backed r log"
    and "role = natRolePre \<Longrightarrow> list_ex (\<lambda>x. tupleOfRecord x = Some (nk_canon k) \<and> volumeOf x = (nk_bytes k, nk_pkts k)) log"
  shows "nat_backed (natRemember k role now r) log"
proof -
  obtain n m where s: "dropHead (drop (rr_natHead r) (rr_natOrder r)) (rr_natSeen r) = (n, m)" by (metis surj_pair)
  have "set (rr_natSeen (natRemember k role now r)) \<subseteq> insert (k, \<lparr>ns_role = role, ns_seen = now\<rparr>) (set (rr_natSeen r))"
    using dropHead_sub [OF s] set_update_subset [of k "\<lparr>ns_role = role, ns_seen = now\<rparr>"]
    by (auto simp: natRemember_def natDropOldest_def s Let_def)
  moreover have "rr_natConv (natRemember k role now r) = rr_natConv r"
    by (simp add: natRemember_def natDropOldest_def s Let_def)
  ultimately show ?thesis using assms unfolding nat_backed_def by fastforce
qed

lemma nat_backed_counters [simp]:
  "nat_backed (rr_natDuplicates_update g r) log = nat_backed r log"
  "nat_backed (rr_natConvDuplicates_update g r) log = nat_backed r log"
  "nat_backed (rr_natUnpaired_update g r) log = nat_backed r log"
  "nat_backed (rr_natLatePreCopies_update g r) log = nat_backed r log"
  by (simp_all add: nat_backed_def)

lemma natSeen_delete_backed: "nat_backed r log \<Longrightarrow> nat_backed (rr_natSeen_update (\<lambda>_. AList.delete k (rr_natSeen r)) r) log"
  by (erule nat_backed_sub) (auto simp: set_delete)

lemma natAdmit_pre:
  assumes "nat_backed r (log @ [x])" "tupleOfRecord x = tupleOfRecord rec" "volumeOf x = volumeOf rec"
    "fst (natAdmit rec now r)"
  shows "nat_backed (snd (natAdmit rec now r)) (log @ [x])"
proof -
  have 1: "nat_backed (natConvExpire now (natExpire now r)) (log @ [x])"
    using assms(1) by (intro natConvExpire_backed natExpire_backed)
  have 2: "emittedAs (log @ [x]) own" if "tupleOfRecord rec = Some own" for own
    using that assms(2) by (simp add: emittedAs_def)
  have 3: "list_ex (\<lambda>y. tupleOfRecord y = Some own \<and> volumeOf y = (fst (volumeOf rec), snd (volumeOf rec))) (log @ [x])"
    if "tupleOfRecord rec = Some own" for own
    using that assms(2,3) by simp
  show ?thesis using assms
    by (auto simp: natAdmit_def Let_def split_beta
        intro!: natSeen_delete_backed natRemember_backed natConvRemember_backed 1 2 3 split: option.splits if_splits)
qed

lemma natAdmit_suppress:
  assumes "nat_backed r log" "natAdmit rec now r = (False, r')"
  shows "nat_backed r' log \<and> (\<exists>own canon. tupleOfRecord rec = Some own \<and>
    NATTable_Canonical (rr_nats r) own = Some canon \<and> emittedAs log canon)"
proof -
  let ?r = "natConvExpire now (natExpire now r)"
  have b: "nat_backed ?r log" using assms(1) by (intro natConvExpire_backed natExpire_backed)
  obtain t own canon where t: "rr_nats r = Some t" "tupleOfRecord rec = Some own" "NATTable_Canonical (Some t) own = Some canon"
    using assms(2) by (auto simp: natAdmit_def Let_def split_beta split: option.splits if_splits)
  let ?k = "\<lparr>nk_canon = canon, nk_bytes = fst (volumeOf rec), nk_pkts = snd (volumeOf rec)\<rparr>"
  consider (exact) e where "map_of (rr_natSeen ?r) ?k = Some e" "ns_role e = natRolePre"
      "r' = ?r\<lparr>rr_natSeen := AList.delete ?k (rr_natSeen ?r), rr_natDuplicates := Suc (rr_natDuplicates ?r)\<rparr>"
    | (conv) e where "map_of (rr_natConv ?r) canon = Some e" "r' = rr_natConvDuplicates_update Suc ?r"
    using assms(2) t by (auto simp: natAdmit_def Let_def split_beta split: if_splits)
  then have "nat_backed r' log \<and> emittedAs log canon"
  proof cases
    case exact
    have "(?k, e) \<in> set (rr_natSeen ?r)" by (rule map_of_SomeD [OF exact(1)])
    with b exact(2) have "emittedAs log canon"
      unfolding nat_backed_def emittedAs_def by (fastforce simp: list_ex_iff)
    moreover have "nat_backed r' log" unfolding exact(3) using natSeen_delete_backed [OF b, of ?k] by simp
    ultimately show ?thesis by simp
  next
    case conv
    have "(canon, e) \<in> set (rr_natConv ?r)" by (rule map_of_SomeD [OF conv(1)])
    with b conv(2) show ?thesis unfolding nat_backed_def by fastforce
  qed
  with t show ?thesis by auto
qed

lemma finishRepair_keeps:
  "tupleOfRecord (fst (finishRepair rec m snap r)) = tupleOfRecord rec"
  "volumeOf (fst (finishRepair rec m snap r)) = volumeOf rec"
  by (auto simp: tupleOfRecord_def volumeOf_def finishRepair_def setDirection_def correctEgress_def
      correctPolicyRoute_def Let_def split_beta split: option.split)

lemma natAdmit_finish_backed:
  assumes b: "nat_backed r log" and n: "natAdmit rec now r = (True, r1)" and f: "finishRepair rec m snap r1 = (rec', r2)"
  shows "nat_backed r2 (log @ [rec'])"
proof -
  have "tupleOfRecord rec' = tupleOfRecord rec" "volumeOf rec' = volumeOf rec"
    using finishRepair_keeps [of rec m snap r1] f by simp_all
  from natAdmit_pre [OF nat_backed_mono [OF b] this, of now] n have "nat_backed r1 (log @ [rec'])" by simp
  then show ?thesis using nat_backed_view [of r2 r1] finishRepair_frame(3) [of rec m snap r1] f by simp
qed

lemma emitDue_backed:
  "nat_backed r log \<Longrightarrow> emitDue now hs r = (out, r') \<Longrightarrow> nat_backed r' (log @ out)"
proof (induction hs arbitrary: r log out)
  case (Cons h hs)
  obtain ok r1 where n: "natAdmit (h_rec h) now r = (ok, r1)" by fastforce
  show ?case
  proof (cases ok)
    case False
    then have "nat_backed r1 log" "emitDue now hs r1 = (out, r')"
      using Cons.prems n natAdmit_suppress [OF Cons.prems(1), of "h_rec h" now r1] by simp_all
    then show ?thesis by (rule Cons.IH)
  next
    case True
    obtain rec2 r2 where f: "finishRepair (h_rec h) (h_m h) (h_snap h) r1 = (rec2, r2)" by fastforce
    obtain out2 r3 where e: "emitDue now hs r2 = (out2, r3)" by fastforce
    have "out = rec2 # out2" "r' = r3" using Cons.prems(2) n True f e by auto
    moreover have "nat_backed r2 (log @ [rec2])" using natAdmit_finish_backed [OF Cons.prems(1) _ f] n True by simp
    ultimately show ?thesis using Cons.IH [of r2 "log @ [rec2]" out2] e by simp
  qed
qed simp

lemma releaseRep_backed:
  assumes "rep_ok r" "nat_backed r log" "releaseRep now all r = (out, r')"
  shows "nat_backed r' (log @ out)"
proof -
  let ?r0 = "r\<lparr>rr_dueEarly := []\<rparr>"
  obtain due r1 where l: "releaseLoop now all (drop (rr_holdHead r) (rr_holdOrder r)) (rr_dueEarly r) ?r0 = (due, r1)" by fastforce
  have "hold_queued ?r0" "seen_ok ?r0" using assms(1) by (simp_all add: rep_ok_def hold_ok_def hold_queued_def seen_ok_def)
  from releaseLoop_spec [OF this _ l] have "natView r1 = natView r" by (simp add: view_defs)
  then have "natView (compactHold r1) = natView r" by simp
  then have "nat_backed (compactHold r1) log" using assms(2) nat_backed_view by blast
  then show ?thesis using emitDue_backed [of "compactHold r1" log now due out r'] l assms(3) by (simp add: releaseRep_def)
qed

definition run_backed :: "Repairer \<times> Record list \<Rightarrow> bool" where
  "run_backed s \<longleftrightarrow> run_ok s \<and> nat_backed (fst s) (snd s)"

lemma repStep_backed:
  assumes "run_backed s" shows "run_backed (repStep op s)"
proof -
  obtain r log where s: "s = (r, log)" by fastforce
  have ok: "rep_ok r" and b: "nat_backed r log" using assms s by (auto simp: run_backed_def run_ok_def)
  have "nat_backed (fst (repStep op s)) (snd (repStep op s))"
  proof (cases op)
    case (DoRepair rec m snap now)
    obtain v rec1 r1 where ad: "admit rec (map_option topologyOf m) snap now r = (v, rec1, r1)" by (metis prod_cases3)
    have b1: "nat_backed r1 log" using admit_spec [OF ok ad] nat_backed_view b by blast
    obtain okb r2 where n: "natAdmit rec1 now r1 = (okb, r2)" by fastforce
    obtain rec3 r3 where f: "finishRepair rec1 (map_option topologyOf m) snap r2 = (rec3, r3)" by fastforce
    show ?thesis using s DoRepair ad n f b1 natAdmit_suppress [OF b1, of rec1 now r2] natAdmit_finish_backed [OF b1 _ f, of now]
      by (cases v; cases okb) (auto simp: Repair_def repairWith_def)
  next
    case (DoRelease now)
    then show ?thesis using s releaseRep_backed [OF ok b] by (auto simp: Repairer_Release_def split: prod.split)
  next
    case DoFlush
    then show ?thesis using s releaseRep_backed [OF ok b] by (auto simp: Repairer_Flush_def split: prod.split)
  next
    case (DoRoutes t)
    then show ?thesis using s b by (simp add: SetRouteTable_def nat_backed_def)
  next
    case (DoNATs t)
    then show ?thesis using s b by (simp add: SetNATTable_def nat_backed_def)
  qed
  then show ?thesis using assms repStep_spec by (simp add: run_backed_def)
qed

interpretation backed: stepping run_backed repStep
  by unfold_locales (rule repStep_backed)

text \<open>
  (C9) Only the translated copy of a conversation is ever suppressed, and only on evidence: at any
  point of any history, when the NAT stage refuses a record, pf's current translations name the
  record's tuple as the translated side of a conversation, and a record of that conversation's
  untranslated side has already been emitted. A record pf does not know as translated always
  passes.
\<close>

theorem nat_suppression_justified:
  assumes "repRun maxE maxH ops = (r, log)" and "\<not> fst (natAdmit rec now r)"
  shows "\<exists>own canon. tupleOfRecord rec = Some own \<and> NATTable_Canonical (rr_nats r) own = Some canon \<and>
     list_ex (\<lambda>x. tupleOfRecord x = Some canon) log"
proof -
  have "run_backed (repRun maxE maxH ops)"
    unfolding repRun_def by (rule backed.run_inv)
      (use New_ok in \<open>simp add: run_backed_def nat_backed_def NewRepairer_def\<close>)
  then have "nat_backed r log" using assms(1) by (simp add: run_backed_def)
  moreover obtain r' where "natAdmit rec now r = (False, r')" using assms(2) by (metis (full_types) prod.collapse)
  ultimately show ?thesis using natAdmit_suppress by (simp add: emittedAs_def)
qed

definition nat_pre_rec :: Record where
  "nat_pre_rec = Record_zero\<lparr>r_Proto := 6, r_SrcAddr := AddrV4 0x0A000005, r_DstAddr := AddrV4 0x08080808,
     r_SrcPort := 1000, r_DstPort := 443\<rparr>"

definition nat_post_rec :: Record where
  "nat_post_rec = Record_zero\<lparr>r_Proto := 6, r_SrcAddr := AddrV4 0x01020304, r_DstAddr := AddrV4 0x08080808,
     r_SrcPort := 2000, r_DstPort := 443\<rparr>"

definition nat_sample :: NATTable where
  "nat_sample = \<lparr>nt_byPost = [(\<lparr>k_proto = 6, k_src = AddrV4 0x01020304, k_dst = AddrV4 0x08080808, k_sport = 2000, k_dport = 443\<rparr>,
      \<lparr>ne_canon = \<lparr>k_proto = 6, k_src = AddrV4 0x0A000005, k_dst = AddrV4 0x08080808, k_sport = 1000, k_dport = 443\<rparr>, ne_lastSeen = 0\<rparr>)],
     nt_byPre = [\<lparr>k_proto = 6, k_src = AddrV4 0x0A000005, k_dst = AddrV4 0x08080808, k_sport = 1000, k_dport = 443\<rparr>],
     nt_built = 0, nt_stats = \<lparr>nts_Entries = 1, nts_Skipped = 0, nts_Conflicts = 0, nts_Carried = 0\<rparr>\<rparr>"

theorem nat_suppression_justified_witness:
  "list_ex (\<lambda>x. r_SrcPort x = 1000) (snd (repRun 10 10 [DoNATs (Some nat_sample), DoRepair nat_pre_rec None None 1])) \<and>
   \<not> fst (natAdmit nat_post_rec 2 (fst (repRun 10 10 [DoNATs (Some nat_sample), DoRepair nat_pre_rec None None 1])))"
proof -
  let ?run = "repRun 10 10 [DoNATs (Some nat_sample), DoRepair nat_pre_rec None None 1]"
  have sup: "\<not> fst (natAdmit nat_post_rec 2 (fst ?run))" by code_simp
  have nats: "rr_nats (fst ?run) = Some nat_sample" by code_simp
  obtain own canon where "tupleOfRecord nat_post_rec = Some own" "NATTable_Canonical (Some nat_sample) own = Some canon"
      "list_ex (\<lambda>x. tupleOfRecord x = Some canon) (snd ?run)"
    using nat_suppression_justified [of 10 10 "[DoNATs (Some nat_sample), DoRepair nat_pre_rec None None 1]" "fst ?run" "snd ?run" nat_post_rec 2]
      sup unfolding nats by auto
  moreover from this(1,2) have "k_sport canon = 1000"
    by (auto simp: tupleOfRecord_def nat_post_rec_def Record_zero_def NATTable_Canonical_def nat_sample_def)
  ultimately show ?thesis using sup
    by (auto simp: list_ex_iff tupleOfRecord_def Let_def split: if_splits)
qed

section \<open>What a topology promises\<close>

text \<open>
  The contract the VLAN repairs rely on: the parent of a VLAN device is known as a trunk, and a
  subnet lookup answers with a child of the trunk it was asked about. The choice between two
  copies of one export is made inside it.
\<close>

locale vlan_topology =
  fixes m :: ifTopology
  assumes parent_is_trunk: "t_ParentOf m d = Some p \<Longrightarrow> d \<noteq> [] \<and> t_HasVLANChildren m p"
    and child_of_trunk: "t_VLANChildFor m p a = Some f \<Longrightarrow> t_ParentOf m (if_Device f) = Some p"
begin

lemma beaten_can_be_beaten:
  "moreSpecific aIn aOut bIn bOut (Some m) \<Longrightarrow> canBeBeaten (Some m) bIn bOut"
  by (auto simp: moreSpecific_def Let_def isChildOf_def canBeBeaten_def dest: parent_is_trunk split: if_splits)

lemma attributed_side: "attributeSide side a m = Some f \<Longrightarrow> isChildOf (if_Device f) (if_Device side) (Some m)"
  using child_of_trunk parent_is_trunk
  by (fastforce simp: attributeSide_def isChildOf_def split: if_splits option.splits)

end

lemma isVLANPair_sym: "isVLANPair a b m = isVLANPair b a m"
  by (auto simp: isVLANPair_def split: option.split)

lemma isDuplicateOf_sym: "isDuplicateOf aIn aOut bIn bOut m = isDuplicateOf bIn bOut aIn aOut m"
  by (auto simp: isDuplicateOf_def sideMatches_def isVLANPair_sym)

lemma moreSpecific_asym: "moreSpecific aIn aOut bIn bOut m \<Longrightarrow> \<not> moreSpecific bIn bOut aIn aOut m"
  by (auto simp: moreSpecific_def Let_def)

definition trunks_cover :: "IfMap \<Rightarrow> bool" where
  "trunks_cover m \<longleftrightarrow> (\<forall>(d, p)\<in>set (im_parents m). p \<in> set (im_trunks m))"

lemma ifMetaStep_trunks:
  assumes "trunks_cover (ms_map s)" shows "trunks_cover (ms_map (ifMetaStep info s))"
  using assms set_update_subset [of "ii_Device info" "parentOfIface info" "im_parents (ms_map s)"]
  by (auto simp: trunks_cover_def ifMetaStep_def Let_def)

lemma ifOrderStep_frame [simp]:
  "im_parents (fst (ifOrderStep meta ready stated p s)) = im_parents (fst s)"
  "im_trunks (fst (ifOrderStep meta ready stated p s)) = im_trunks (fst s)"
  by (cases p; cases s; simp add: ifOrderStep_def Let_def split: option.split)+

lemma overrideStep_topology [simp]:
  "im_trunks (overrideStep byName p m) = im_trunks m"
  "im_wanAddr (overrideStep byName p m) = im_wanAddr m"
  by (simp_all add: overrideStep_def Let_def split_beta split: option.split)

lemma fold_ifOrder_frame [simp]:
  "im_parents (fst (fold (ifOrderStep meta ready stated) ps s)) = im_parents (fst s)"
  "im_trunks (fst (fold (ifOrderStep meta ready stated) ps s)) = im_trunks (fst s)"
  by (induction ps arbitrary: s) simp_all

lemma fold_override_topology [simp]:
  "im_trunks (fold (overrideStep byName) qs m) = im_trunks m"
  "im_wanAddr (fold (overrideStep byName) qs m) = im_wanAddr m"
  by (induction qs arbitrary: m) simp_all

lemma BuildIfMap_trunks: "trunks_cover (BuildIfMap i)"
proof -
  have "trunks_cover (ms_map (fold ifMetaStep infos s))" if "trunks_cover (ms_map s)" for infos s
    using that by (induction infos arbitrary: s) (auto intro: ifMetaStep_trunks)
  then have "trunks_cover (ms_map (ifMetaPhase i))"
    by (simp add: ifMetaPhase_def IfMap_empty_def trunks_cover_def)
  then show ?thesis
    by (simp add: BuildIfMap_def ifOrderPhase_def Let_def split_beta trunks_cover_def)
qed

interpretation built: vlan_topology "topologyOf (BuildIfMap i)" for i
proof
  show "d \<noteq> [] \<and> t_HasVLANChildren (topologyOf (BuildIfMap i)) p"
    if "t_ParentOf (topologyOf (BuildIfMap i)) d = Some p" for d p
    using that BuildIfMap_trunks [of i]
    by (force simp: topologyOf_def IfMap_ParentOf_def IfMap_HasVLANChildren_def trunks_cover_def
        dest: map_of_SomeD split: if_splits option.splits)
  show "t_ParentOf (topologyOf (BuildIfMap i)) (if_Device f) = Some p"
    if "t_VLANChildFor (topologyOf (BuildIfMap i)) p a = Some f" for p a f
    using that by (auto simp: topologyOf_def VLANChildFor_iff Let_def)
qed

section \<open>Two copies of one export\<close>

text \<open>
  The records that two copies of one export leave to be emitted: each copy the stage lets through
  at once, and the one it still holds under their key.
\<close>

definition twoCopies ::
  "Record \<Rightarrow> Record \<Rightarrow> ifTopology option \<Rightarrow> Snapshot option \<Rightarrow> time \<Rightarrow> time \<Rightarrow> Repairer \<Rightarrow> Record list" where
  "twoCopies x y m snap t1 t2 r =
     (let (v1, x', r1) = admit x m snap t1 r; (v2, y', r2) = admit y m snap t2 r1
      in (if v1 = RepairEmit then [x'] else []) @ (if v2 = RepairEmit then [y'] else []) @
         (case map_of (rr_held r2) (keyOf x) of Some h \<Rightarrow> [h_rec h] | None \<Rightarrow> []))"

lemma sweepHead_keeps:
  assumes "sweepHead alive ks m = (n, m', d)" "map_of m k = Some e" "alive e"
  shows "map_of m' k = Some e"
  using assms(1,2)
proof (induction ks arbitrary: m n d)
  case (Cons a ks)
  have "map_of (AList.delete a m) k = Some e" if "map_of m a = Some x" "\<not> alive x" for x
    using that Cons.prems(2) assms(3) by (auto simp: map_of_delete_conv)
  then show ?case using Cons by (auto split: option.splits if_splits prod.splits)
qed simp

lemma sweepHead_absent:
  "sweepHead alive ks m = (n, m', d) \<Longrightarrow> map_of m k = None \<Longrightarrow> map_of m' k = None"
  by (induction ks arbitrary: m n d)
    (auto simp: map_of_delete_conv split: option.splits if_splits prod.splits)

lemma expire_get:
  "map_of (rr_seen r) k = None \<Longrightarrow> map_of (rr_seen (expire now r)) k = None"
  "map_of (rr_seen r) k = Some e \<Longrightarrow> now - dedupeTTL < de_seen e \<Longrightarrow> map_of (rr_seen (expire now r)) k = Some e"
  using sweepHead_absent [of "\<lambda>e. now - dedupeTTL < de_seen e" "drop (rr_head r) (rr_order r)" "rr_seen r"]
    sweepHead_keeps [of "\<lambda>e. now - dedupeTTL < de_seen e" "drop (rr_head r) (rr_order r)" "rr_seen r"]
  by (auto simp: expire_def compactRep_def Let_def split: prod.split)

lemma expire_held [simp]: "rr_held (expire now r) = rr_held r"
  using expire_frame(1) [of now r] by (simp add: holdView_def)

lemma insertRep_held [simp]: "rr_held (insertRep k i ou now r) = rr_held r"
  using insertRep_frame(1) [of k i ou now r] by (simp add: holdView_def)

lemma insertRep_get [simp]: "map_of (rr_seen (insertRep k i ou now r)) k = Some \<lparr>de_in = i, de_out = ou, de_seen = now\<rparr>"
  by (simp add: insertRep_def Let_def map_of_update_conv)

lemma hold_get [simp]:
  "map_of (rr_held (hold k rec m snap now r)) k = Some \<lparr>h_rec = rec, h_m = m, h_snap = snap, h_arrived = now\<rparr>"
  by (simp add: hold_def Let_def map_of_update_conv)

lemma keyOf_attributed [simp]: "keyOf (fst (attributeBySubnet rec m)) = keyOf rec"
  by (simp add: keyOf_def attributeBySubnet_def markAttributed_def volumeOf_def Let_def split_beta split: option.split)

text \<open>The devices a record names.\<close>

abbreviation inDev :: "Record \<Rightarrow> string" where "inDev x \<equiv> if_Device (r_In x)"
abbreviation outDev :: "Record \<Rightarrow> string" where "outDev x \<equiv> if_Device (r_Out x)"

text \<open>The first copy of a fresh instance, and what the second one meets.\<close>

lemma admit_fresh:
  assumes "\<not> isVLANParentCopy x mo" "map_of (rr_held r) (keyOf x) = None" "map_of (rr_seen r) (keyOf x) = None"
    "x' = fst (attributeBySubnet x mo)"
  shows "\<exists>r'. if canBeBeaten mo (inDev x') (outDev x')
     then admit x mo snap t r = (RepairHold, x', r') \<and>
       map_of (rr_held r') (keyOf x) = Some \<lparr>h_rec = x', h_m = mo, h_snap = snap, h_arrived = t\<rparr>
     else admit x mo snap t r = (RepairEmit, x', r') \<and> map_of (rr_held r') (keyOf x) = None \<and>
       map_of (rr_seen r') (keyOf x) = Some \<lparr>de_in = inDev x', de_out = outDev x', de_seen = t\<rparr>"
proof -
  define r2 where "r2 = (if snd (attributeBySubnet x mo) then rr_subnetAttrib_update Suc (expire t r) else expire t r)"
  have k: "keyOf x' = keyOf x" using assms(4) by simp
  have "map_of (rr_held r2) (keyOf x) = None" "map_of (rr_seen r2) (keyOf x) = None"
    using assms(2) expire_get(1) [OF assms(3)] by (simp_all add: r2_def)
  moreover have "admit x mo snap t r = (case admitCopy x' mo snap t r2 of (v, r3) \<Rightarrow> (v, x', r3))"
    using assms(1,4) by (simp add: admit_def r2_def Let_def split_beta)
  ultimately show ?thesis
    by (cases "canBeBeaten mo (inDev x') (outDev x')") (simp_all add: admitCopy_def Let_def k)
qed

lemma admit_against_held:
  assumes "\<not> isVLANParentCopy y mo" "map_of (rr_held r) (keyOf y) = Some h" "y' = fst (attributeBySubnet y mo)"
    "isDuplicateOf (inDev (h_rec h)) (outDev (h_rec h)) (inDev y') (outDev y') mo"
  shows "\<exists>r' h'. admit y mo snap t r = (RepairDrop, y', r') \<and> map_of (rr_held r') (keyOf y) = Some h' \<and>
     h_rec h' = (if moreSpecific (inDev y') (outDev y') (inDev (h_rec h)) (outDev (h_rec h)) mo then y' else h_rec h)"
proof -
  define r2 where "r2 = (if snd (attributeBySubnet y mo) then rr_subnetAttrib_update Suc (expire t r) else expire t r)"
  have k: "keyOf y' = keyOf y" using assms(3) by simp
  have "map_of (rr_held r2) (keyOf y) = Some h" using assms(2) by (simp add: r2_def)
  moreover have "admit y mo snap t r = (case admitCopy y' mo snap t r2 of (v, r3) \<Rightarrow> (v, y', r3))"
    using assms(1,3) by (simp add: admit_def r2_def Let_def split_beta)
  ultimately show ?thesis using assms(4) by (auto simp: admitCopy_def Let_def k map_of_update_conv)
qed

lemma admit_against_seen:
  assumes "\<not> isVLANParentCopy y mo" "map_of (rr_held r) (keyOf y) = None" "map_of (rr_seen r) (keyOf y) = Some e"
    "y' = fst (attributeBySubnet y mo)" "t - dedupeTTL < de_seen e"
    "isDuplicateOf (de_in e) (de_out e) (inDev y') (outDev y') mo"
  shows "\<exists>r'. admit y mo snap t r = (RepairDrop, y', r') \<and> map_of (rr_held r') (keyOf y) = None"
proof -
  define r2 where "r2 = (if snd (attributeBySubnet y mo) then rr_subnetAttrib_update Suc (expire t r) else expire t r)"
  have k: "keyOf y' = keyOf y" using assms(4) by simp
  have "map_of (rr_held r2) (keyOf y) = None" "map_of (rr_seen r2) (keyOf y) = Some e"
    using assms(2) expire_get(2) [OF assms(3,5)] by (simp_all add: r2_def)
  moreover have "admit y mo snap t r = (case admitCopy y' mo snap t r2 of (v, r3) \<Rightarrow> (v, y', r3))"
    using assms(1,4) by (simp add: admit_def r2_def Let_def split_beta)
  ultimately show ?thesis using assms(6) by (auto simp: admitCopy_def Let_def k)
qed

context vlan_topology
begin

lemma specific_copy_survives:
  assumes tags: "\<not> isVLANParentCopy a (Some m)" "\<not> isVLANParentCopy b (Some m)"
    and lab: "a' = fst (attributeBySubnet a (Some m))" "b' = fst (attributeBySubnet b (Some m))"
    and key: "keyOf a = keyOf b"
    and dup: "isDuplicateOf (inDev a') (outDev a') (inDev b') (outDev b') (Some m)"
    and spec: "moreSpecific (inDev a') (outDev a') (inDev b') (outDev b') (Some m)"
    and fresh: "map_of (rr_held r) (keyOf a) = None" "map_of (rr_seen r) (keyOf a) = None"
    and t: "t2 - dedupeTTL < t1"
  shows "twoCopies a b (Some m) snap t1 t2 r = [a'] \<and> twoCopies b a (Some m) snap t1 t2 r = [a']"
proof
  have dup': "isDuplicateOf (inDev b') (outDev b') (inDev a') (outDev a') (Some m)" using dup isDuplicateOf_sym by blast
  note nspec = moreSpecific_asym [OF spec]
  show "twoCopies b a (Some m) snap t1 t2 r = [a']"
  proof -
    obtain r1 where b: "admit b (Some m) snap t1 r = (RepairHold, b', r1)"
        "map_of (rr_held r1) (keyOf a) = Some \<lparr>h_rec = b', h_m = Some m, h_snap = snap, h_arrived = t1\<rparr>"
      using admit_fresh [OF tags(2) _ _ lab(2), of r snap t1] fresh key beaten_can_be_beaten [OF spec] by auto
    obtain r2 h where "admit a (Some m) snap t2 r1 = (RepairDrop, a', r2)" "map_of (rr_held r2) (keyOf a) = Some h" "h_rec h = a'"
      using admit_against_held [OF tags(1) b(2) lab(1), of snap t2] dup' spec by auto
    with b key show ?thesis by (simp add: twoCopies_def)
  qed
  show "twoCopies a b (Some m) snap t1 t2 r = [a']"
  proof (cases "canBeBeaten (Some m) (inDev a') (outDev a')")
    case True
    obtain r1 where a: "admit a (Some m) snap t1 r = (RepairHold, a', r1)"
        "map_of (rr_held r1) (keyOf b) = Some \<lparr>h_rec = a', h_m = Some m, h_snap = snap, h_arrived = t1\<rparr>"
      using admit_fresh [OF tags(1) _ _ lab(1), of r snap t1] fresh key True by auto
    obtain r2 h where "admit b (Some m) snap t2 r1 = (RepairDrop, b', r2)" "map_of (rr_held r2) (keyOf b) = Some h" "h_rec h = a'"
      using admit_against_held [OF tags(2) a(2) lab(2), of snap t2] dup nspec by auto
    with a key show ?thesis by (simp add: twoCopies_def)
  next
    case False
    obtain r1 where a: "admit a (Some m) snap t1 r = (RepairEmit, a', r1)" "map_of (rr_held r1) (keyOf b) = None"
        "map_of (rr_seen r1) (keyOf b) = Some \<lparr>de_in = inDev a', de_out = outDev a', de_seen = t1\<rparr>"
      using admit_fresh [OF tags(1) _ _ lab(1), of r snap t1] fresh key False by auto
    obtain r2 where "admit b (Some m) snap t2 r1 = (RepairDrop, b', r2)" "map_of (rr_held r2) (keyOf b) = None"
      using admit_against_seen [OF tags(2) a(2,3) lab(2), of t2 snap] dup t by auto
    with a key show ?thesis by (simp add: twoCopies_def)
  qed
qed

end


definition vlan_input :: IfMapInput where
  "vlan_input = \<lparr>in_Order = [''ixl0'', ''igb0'', ''ixl0_vlan50''],
     in_Ifaces = [\<lparr>ii_Device = ''ixl0_vlan50'', ii_Name = ''IOT'', ii_Identifier = [], ii_VlanTag = [], ii_VlanParent = [],
       ii_Addrs = [], ii_Prefixes = [], ii_IsWAN = False\<rparr>],
     in_Stated = [], in_Override = [], in_Built = 0\<rparr>"

definition copyOn :: "string \<Rightarrow> Record" where
  "copyOn dev = Record_zero\<lparr>r_In := Iface_zero\<lparr>if_Device := dev\<rparr>, r_Out := Iface_zero\<lparr>if_Device := ''igb0''\<rparr>\<rparr>"


section \<open>The egress interface\<close>

definition wan_named :: "(addr, Iface) gomap \<Rightarrow> bool" where
  "wan_named wa \<longleftrightarrow> (\<forall>(a, f)\<in>set wa. if_Device f \<noteq> [])"

lemma wanAddrs_named: "wan_named wa \<Longrightarrow> if_Device iface \<noteq> [] \<Longrightarrow> wan_named (wanAddrs iface addrs wa)"
proof (induction addrs arbitrary: wa)
  case (Cons a addrs)
  have "wan_named (AList.update (addr_Unmap a) iface wa)"
    using ball_update [of wa "\<lambda>_ f. if_Device f \<noteq> []"] Cons.prems unfolding wan_named_def by blast
  with Cons show ?case by (simp add: wanAddrs_def Let_def)
qed (simp add: wanAddrs_def)

lemma ifOrderStep_wan:
  "wan_named (im_wanAddr (fst s)) \<Longrightarrow> wan_named (im_wanAddr (fst (ifOrderStep meta ready stated p s)))"
  by (cases p; cases s)
    (auto simp: ifOrderStep_def Let_def Iface_zero_def intro!: wanAddrs_named split: option.splits if_splits)

lemma fold_ifOrder_wan:
  "wan_named (im_wanAddr (fst s)) \<Longrightarrow> wan_named (im_wanAddr (fst (fold (ifOrderStep meta ready stated) ps s)))"
proof (induction ps arbitrary: s)
  case (Cons p ps)
  show ?case using Cons.IH [OF ifOrderStep_wan [OF Cons.prems]] by simp
qed simp

lemma BuildIfMap_wan: "wan_named (im_wanAddr (BuildIfMap i))"
proof -
  have "im_wanAddr (ms_map (fold ifMetaStep infos s)) = im_wanAddr (ms_map s)" for infos s
    by (induction infos arbitrary: s) (simp_all add: ifMetaStep_def Let_def)
  then have "wan_named (im_wanAddr (fst (ifOrderPhase i)))"
    unfolding ifOrderPhase_def Let_def
    by (intro fold_ifOrder_wan) (simp add: ifMetaPhase_def wan_named_def IfMap_empty_def)
  then show ?thesis by (simp add: BuildIfMap_def Let_def split_beta)
qed

lemma WANFor_named: "IfMap_WANFor (Some (BuildIfMap i)) a = Some wan \<Longrightarrow> if_Device wan \<noteq> []"
  using BuildIfMap_wan [of i] by (auto simp: IfMap_WANFor_def wan_named_def Let_def dest: map_of_SomeD split: if_splits)

lemma IfaceForDevice_named: "IfMap_IfaceForDevice (Some (BuildIfMap i)) d = Some f \<Longrightarrow> if_Device f = d"
  using ifOrderPhase_named [of i]
  by (auto simp: IfMap_IfaceForDevice_def BuildIfMap_def Let_def split_beta dest: named_by_get split: if_splits)

text \<open>
  The egress interface follows the evidence, in order of strength. When the repairs are done with
  a record, one whose source address the firewall holds on a WAN names that WAN; one leaving by a
  WAN whose tuple pf's state table policy-routed through a known device names that device; every
  other record names the interface it came with. Nothing else about the record's identity moves:
  its tuple, its volume and its ingress are those it came with.
\<close>

theorem egress_follows_evidence:
  "let m = BuildIfMap i; src = r_SrcAddr rec; rec' = fst (finishRepair rec (Some (topologyOf m)) snap r) in
   (case IfMap_WANFor (Some m) src of
      Some wan \<Rightarrow> sameIface (r_Out rec') wan
    | None \<Rightarrow> (case RouteTable_Egress (rr_routes r) (r_Proto rec) src (r_SrcPort rec) (r_DstAddr rec) (r_DstPort rec) of
          Some d \<Rightarrow> if addr_IsValid src \<and> d \<noteq> [] \<and> IfMap_IfaceForDevice (Some m) d \<noteq> None \<and>
                       (if_Corrected (r_Out rec) \<or> IfMap_IsWAN (Some m) (if_Device (r_Out rec)))
                    then if_Device (r_Out rec') = d else r_Out rec' = r_Out rec
        | None \<Rightarrow> r_Out rec' = r_Out rec)) \<and>
   tupleOfRecord rec' = tupleOfRecord rec \<and> volumeOf rec' = volumeOf rec \<and> r_In rec' = r_In rec"
proof -
  let ?m = "BuildIfMap i"
  let ?mo = "Some (topologyOf ?m)"
  let ?rec = "fst (finishRepair rec ?mo snap r)"
  have out: "r_Out ?rec = r_Out (fst (correctPolicyRoute (fst (correctEgress rec ?mo r)) ?mo (snd (correctEgress rec ?mo r))))"
    by (simp add: finishRepair_def setDirection_def Let_def split_beta split: option.split)
  have inn: "r_In ?rec = r_In rec"
    by (simp add: finishRepair_def setDirection_def correctEgress_def correctPolicyRoute_def Let_def split_beta split: option.split)
  have topo: "t_WANFor (topologyOf ?m) = IfMap_WANFor (Some ?m)" "t_IsWAN (topologyOf ?m) = Some (IfMap_IsWAN (Some ?m))"
    "t_IfaceForDevice (topologyOf ?m) = Some (IfMap_IfaceForDevice (Some ?m))" by (simp_all add: topologyOf_def)
  show ?thesis
  proof (cases "IfMap_WANFor (Some ?m) (r_SrcAddr rec)")
    case (Some wan)
    have valid: "addr_IsValid (r_SrcAddr rec)"
      using Some by (cases "r_SrcAddr rec") (auto simp: IfMap_WANFor_def Let_def split: if_splits)
    have "sameIface (r_Out (fst (correctEgress rec ?mo r))) wan"
      using Some valid WANFor_named [OF Some] by (auto simp: correctEgress_def topo sameIface_def)
    moreover have "fst (correctPolicyRoute rec1 ?mo r1) = rec1" if "r_SrcAddr rec1 = r_SrcAddr rec" for rec1 r1
      using that Some by (simp add: correctPolicyRoute_def topo split: option.split)
    moreover have "r_SrcAddr (fst (correctEgress rec ?mo r)) = r_SrcAddr rec"
      by (simp add: correctEgress_def split: option.split)
    ultimately show ?thesis using Some inn out finishRepair_keeps [of rec ?mo snap r] by (simp add: Let_def)
  next
    case None
    then have eg: "correctEgress rec ?mo r = (rec, r)" by (simp add: correctEgress_def topo)
    let ?eg = "RouteTable_Egress (rr_routes r) (r_Proto rec) (r_SrcAddr rec) (r_SrcPort rec) (r_DstAddr rec) (r_DstPort rec)"
    have wan: "ifaceIsWAN ?mo (r_Out rec) a \<longleftrightarrow> if_Corrected (r_Out rec) \<or> IfMap_IsWAN (Some ?m) (if_Device (r_Out rec))" for a
      by (auto simp: ifaceIsWAN_def topo IfMap_IsWAN_def)
    have pr: "r_Out (fst (correctPolicyRoute rec ?mo r)) = (case ?eg of None \<Rightarrow> r_Out rec
        | Some d \<Rightarrow> if addr_IsValid (r_SrcAddr rec) \<and> ifaceIsWAN ?mo (r_Out rec) (r_SrcAddr rec) \<and> d \<noteq> [] \<and> d \<noteq> if_Device (r_Out rec)
            then (case IfMap_IfaceForDevice (Some ?m) d of Some f \<Rightarrow> f | None \<Rightarrow> r_Out rec) else r_Out rec)"
    proof (cases "rr_routes r")
      case (Some table)
      with None show ?thesis by (simp add: correctPolicyRoute_def topo split: option.split)
    qed (simp add: correctPolicyRoute_def RouteTable_Egress_def)
    have o': "r_Out ?rec = r_Out (fst (correctPolicyRoute rec ?mo r))" using out eg by simp
    show ?thesis
    proof (cases ?eg)
      case (Some d)
      then show ?thesis
        using None inn finishRepair_keeps [of rec ?mo snap r] IfaceForDevice_named [of i d]
        by (cases "IfMap_IfaceForDevice (Some ?m) d") (auto simp: Let_def o' pr wan)
    qed (use None inn finishRepair_keeps [of rec ?mo snap r] in \<open>simp add: Let_def o' pr\<close>)
  qed
qed

end
