(* ===== verification/DNSCache.thy ===== *)
theory DNSCache
  imports NetAddr Accumulator
begin

text \<open>
  The DNS answer cache (\<^verbatim>\<open>internal/flow/dnscache.go\<close>): (client, answer) to query name, bounded by a
  hard entry cap that refuses new keys and by an age checked lazily. \<^verbatim>\<open>nextExpiry\<close> spares the cache a
  scan on every refused insert; the invariant is that it is never later than the first expiry.
\<close>

section \<open>The cache\<close>

record dnsKey =
  dk_client :: addr
  dk_answer :: addr

record dnsEntry =
  de_qname :: string
  de_added :: time

record DNSCache =
  dc_entries :: "(dnsKey, dnsEntry) gomap"
  dc_size :: int
  dc_ttl :: duration
  dc_nextExpiry :: time
  dc_hits :: nat
  dc_misses :: nat
  dc_rejected :: nat

definition NewDNSCache :: "int \<Rightarrow> duration \<Rightarrow> DNSCache" where
  "NewDNSCache sz ttl = \<lparr>dc_entries = [], dc_size = sz, dc_ttl = ttl, dc_nextExpiry = 0,
     dc_hits = 0, dc_misses = 0, dc_rejected = 0\<rparr>"

definition dnsKeyOf :: "addr \<Rightarrow> addr \<Rightarrow> dnsKey" where
  "dnsKeyOf client answer = \<lparr>dk_client = addr_Unmap client, dk_answer = addr_Unmap answer\<rparr>"

definition expired :: "duration \<Rightarrow> time \<Rightarrow> dnsEntry \<Rightarrow> bool" where
  "expired ttl now e \<longleftrightarrow> ttl < time_Sub now (de_added e)"

text \<open>The \<^verbatim>\<open>nextExpiry\<close> update: keep the earlier of the two, where the zero time means none.\<close>

definition earlier :: "time \<Rightarrow> time \<Rightarrow> time" where
  "earlier expires next = (if time_IsZero next \<or> expires < next then expires else next)"

text \<open>The reclaiming scan of a full cache.\<close>

definition reclaim :: "time \<Rightarrow> DNSCache \<Rightarrow> DNSCache" where
  "reclaim now d =
     (let keep = filter (\<lambda>(k, e). \<not> expired (dc_ttl d) now e) (dc_entries d)
      in d\<lparr>dc_entries := keep,
           dc_nextExpiry := fold (\<lambda>(k, e). earlier (de_added e + dc_ttl d)) keep 0\<rparr>)"

definition DNSCache_Put :: "addr \<Rightarrow> addr \<Rightarrow> string \<Rightarrow> time \<Rightarrow> DNSCache \<Rightarrow> DNSCache" where
  "DNSCache_Put client answer qname now d =
     (if dc_size d \<le> 0 then d
      else
        let key = dnsKeyOf client answer;
            full = (map_of (dc_entries d) key = None \<and> dc_size d \<le> int (length (dc_entries d)));
            d1 = (if full \<and> dc_nextExpiry d < now then reclaim now d else d)
        in if full \<and> dc_size d \<le> int (length (dc_entries d1)) then dc_rejected_update Suc d1
           else d1\<lparr>dc_entries := AList.update key \<lparr>de_qname = qname, de_added = now\<rparr> (dc_entries d1),
                   dc_nextExpiry := earlier (now + dc_ttl d) (dc_nextExpiry d1)\<rparr>)"

definition DNSCache_Lookup :: "addr \<Rightarrow> addr \<Rightarrow> time \<Rightarrow> DNSCache \<Rightarrow> DNSCache \<times> string option" where
  "DNSCache_Lookup client answer now d =
     (if dc_size d \<le> 0 then (d, None)
      else
        let key = dnsKeyOf client answer in
        case map_of (dc_entries d) key of
          None \<Rightarrow> (dc_misses_update Suc d, None)
        | Some e \<Rightarrow>
            if expired (dc_ttl d) now e
            then (dc_misses_update Suc (d\<lparr>dc_entries := AList.delete key (dc_entries d)\<rparr>), None)
            else (dc_hits_update Suc d, Some (de_qname e)))"

record DNSCacheStats =
  ds_Entries :: nat
  ds_Size :: int
  ds_Hits :: nat
  ds_Misses :: nat
  ds_Rejected :: nat

definition DNSCache_Stats :: "DNSCache \<Rightarrow> DNSCacheStats" where
  "DNSCache_Stats d = \<lparr>ds_Entries = length (dc_entries d), ds_Size = dc_size d, ds_Hits = dc_hits d,
     ds_Misses = dc_misses d, ds_Rejected = dc_rejected d\<rparr>"

section \<open>The invariant\<close>

text \<open>
  Instants are after Go's zero time and a time to live is a non-negative \<^verbatim>\<open>Duration\<close> below its
  maximum, as for every configured cache.
\<close>

definition dns_inv :: "DNSCache \<Rightarrow> bool" where
  "dns_inv d \<longleftrightarrow> gomap_wf (dc_entries d) \<and> int (length (dc_entries d)) \<le> max 0 (dc_size d) \<and>
     0 \<le> dc_ttl d \<and> dc_ttl d < max_int64 \<and> (dc_nextExpiry d = 0 \<longrightarrow> dc_entries d = []) \<and>
     (\<forall>(k, e)\<in>set (dc_entries d). 0 < de_added e \<and> dc_nextExpiry d \<le> de_added e + dc_ttl d)"

lemma earlier_le: "0 < x \<Longrightarrow> earlier x n \<le> x" "n \<noteq> 0 \<Longrightarrow> earlier x n \<le> n"
  by (auto simp: earlier_def time_IsZero_def)

lemma earlier_pos: "0 < x \<Longrightarrow> earlier x n \<noteq> 0"
  by (auto simp: earlier_def time_IsZero_def)

lemma fold_earlier_le:
  "\<forall>(k, e)\<in>set m. 0 < f e \<Longrightarrow> fold (\<lambda>(k, e). earlier (f e)) m n \<le> n \<or> n = 0"
proof (induction m arbitrary: n)
  case (Cons p m)
  have "0 < f (snd p)" using Cons.prems by (cases p) auto
  then have "earlier (f (snd p)) n \<le> n \<or> n = 0" "earlier (f (snd p)) n \<noteq> 0"
    using earlier_le(2) [of n "f (snd p)"] earlier_pos [of "f (snd p)" n] by auto
  with Cons.IH [of "earlier (f (snd p)) n"] Cons.prems show ?case
    by (cases p) (auto intro: order_trans)
qed simp

lemma fold_earlier_bound:
  "\<forall>(k, e)\<in>set m. 0 < f e \<Longrightarrow> (k, e) \<in> set m \<Longrightarrow> fold (\<lambda>(k, e). earlier (f e)) m n \<le> f e"
proof (induction m arbitrary: n)
  case (Cons p m)
  show ?case
  proof (cases "(k, e) \<in> set m")
    case True
    with Cons show ?thesis by (cases p) auto
  next
    case False
    with Cons.prems have p: "p = (k, e)" by simp
    with Cons.prems have "0 < f e" by simp
    then have "earlier (f e) n \<le> f e" "earlier (f e) n \<noteq> 0"
      by (simp_all add: earlier_le earlier_pos)
    with fold_earlier_le [of m f "earlier (f e) n"] Cons.prems p show ?thesis by auto
  qed
qed simp

lemma fold_earlier_pos:
  "\<forall>(k, e)\<in>set m. 0 < f e \<Longrightarrow> m \<noteq> [] \<or> n \<noteq> 0 \<Longrightarrow> fold (\<lambda>(k, e). earlier (f e)) m n \<noteq> 0"
proof (induction m arbitrary: n)
  case (Cons p m)
  then show ?case using earlier_pos [of "f (snd p)" n] by (cases p) auto
qed simp

lemma reclaim_inv [inv_intros]:
  assumes d: "dns_inv d"
  shows "dns_inv (reclaim now d)"
proof -
  let ?keep = "filter (\<lambda>(k, e). \<not> expired (dc_ttl d) now e) (dc_entries d)"
  have pos: "\<forall>(k, e)\<in>set ?keep. 0 < de_added e + dc_ttl d" using d by (auto simp: dns_inv_def)
  have "fold (\<lambda>(k, e). earlier (de_added e + dc_ttl d)) ?keep 0 \<le> de_added e + dc_ttl d"
    if "(k, e) \<in> set ?keep" for k e
    using fold_earlier_bound [OF pos that] .
  moreover have "fold (\<lambda>(k, e). earlier (de_added e + dc_ttl d)) ?keep 0 = 0 \<longrightarrow> ?keep = []"
    using fold_earlier_pos [OF pos] by blast
  moreover have "int (length ?keep) \<le> int (length (dc_entries d))" by simp
  then have "int (length ?keep) \<le> max 0 (dc_size d)"
    using d unfolding dns_inv_def by (blast intro: order_trans)
  ultimately show ?thesis using d by (auto simp: dns_inv_def reclaim_def Let_def)
qed

lemma reclaim_frame [simp]: "dc_size (reclaim now d) = dc_size d" "dc_ttl (reclaim now d) = dc_ttl d"
  by (simp_all add: reclaim_def Let_def)

lemma dns_inv_insert:
  assumes d: "dns_inv d" and now: "0 < now"
    and room: "int (length (AList.update k e (dc_entries d))) \<le> max 0 (dc_size d)"
    and added: "de_added e = now"
  shows "dns_inv (d\<lparr>dc_entries := AList.update k e (dc_entries d),
     dc_nextExpiry := earlier (now + dc_ttl d) (dc_nextExpiry d)\<rparr>)"
proof -
  let ?n = "earlier (now + dc_ttl d) (dc_nextExpiry d)"
  have pos: "0 < now + dc_ttl d" using d now by (simp add: dns_inv_def)
  have "\<forall>(k', e')\<in>set (AList.update k e (dc_entries d)). 0 < de_added e' \<and> ?n \<le> de_added e' + dc_ttl d"
  proof (rule ball_update)
    show "\<forall>(k', e')\<in>set (dc_entries d). 0 < de_added e' \<and> ?n \<le> de_added e' + dc_ttl d"
      using d earlier_le(2) [of "dc_nextExpiry d" "now + dc_ttl d"]
      by (cases "dc_nextExpiry d = 0") (fastforce simp: dns_inv_def)+
    show "0 < de_added e \<and> ?n \<le> de_added e + dc_ttl d"
      using now added earlier_le(1) [OF pos] by simp
  qed
  moreover have "?n \<noteq> 0" using pos by (rule earlier_pos)
  ultimately show ?thesis using d room by (simp add: dns_inv_def)
qed

lemma Put_inv [inv_intros]:
  assumes d: "dns_inv d" and now: "0 < now"
  shows "dns_inv (DNSCache_Put client answer qname now d)"
proof (cases "dc_size d \<le> 0")
  case True
  with d show ?thesis by (simp add: DNSCache_Put_def)
next
  case False
  define key where "key = dnsKeyOf client answer"
  define full where "full \<longleftrightarrow> map_of (dc_entries d) key = None \<and> dc_size d \<le> int (length (dc_entries d))"
  define d1 where "d1 = (if full \<and> dc_nextExpiry d < now then reclaim now d else d)"
  let ?e = "\<lparr>de_qname = qname, de_added = now\<rparr>"
  have put: "DNSCache_Put client answer qname now d =
      (if full \<and> dc_size d \<le> int (length (dc_entries d1)) then dc_rejected_update Suc d1
       else d1\<lparr>dc_entries := AList.update key ?e (dc_entries d1),
               dc_nextExpiry := earlier (now + dc_ttl d1) (dc_nextExpiry d1)\<rparr>)"
    using False by (auto simp: DNSCache_Put_def Let_def key_def full_def d1_def)
  have d1: "dns_inv d1" using d by (simp add: d1_def reclaim_inv)
  have size1: "dc_size d1 = dc_size d" by (simp add: d1_def)
  show ?thesis
  proof (cases "full \<and> dc_size d \<le> int (length (dc_entries d1))")
    case True
    with put d1 show ?thesis by (simp add: dns_inv_def)
  next
    case room: False
    have "int (length (AList.update key ?e (dc_entries d1))) \<le> max 0 (dc_size d1)"
    proof (cases "map_of (dc_entries d1) key")
      case None
      have "int (length (dc_entries d1)) < dc_size d"
        using room None by (auto simp: full_def d1_def split: if_splits)
      with None size1 show ?thesis by simp
    next
      case (Some e)
      with d1 show ?thesis by (simp add: dns_inv_def)
    qed
    from dns_inv_insert [OF d1 now this] room put show ?thesis by auto
  qed
qed

lemma Lookup_inv [inv_intros]: "dns_inv d \<Longrightarrow> dns_inv (fst (DNSCache_Lookup client answer now d))"
  using length_delete_le [of "dnsKeyOf client answer" "dc_entries d"]
  by (auto simp: DNSCache_Lookup_def Let_def dns_inv_def set_delete split: option.split)

section \<open>Histories\<close>

datatype dns_op = DPut addr addr string time | DLookup addr addr time

text \<open>A receiver's clock is past the zero time: an operation with another is none of a history.\<close>

fun dns_step :: "dns_op \<Rightarrow> DNSCache \<Rightarrow> DNSCache" where
  "dns_step (DPut client answer qname now) d = (if 0 < now then DNSCache_Put client answer qname now d else d)"
| "dns_step (DLookup client answer now) d = fst (DNSCache_Lookup client answer now d)"

interpretation dns: stepping dns_inv dns_step
proof
  fix d op
  assume "dns_inv d"
  then show "dns_inv (dns_step op d)" by (cases op) (auto simp: Put_inv Lookup_inv)
qed

text \<open>Where a cached answer comes from: the last put of its key.\<close>


definition put_of :: "dns_op list \<Rightarrow> dnsKey \<Rightarrow> dnsEntry \<Rightarrow> bool" where
  "put_of ops k e \<longleftrightarrow> (\<exists>client answer. DPut client answer (de_qname e) (de_added e) \<in> set ops \<and>
     dnsKeyOf client answer = k)"

lemma set_entries_Put:
  "set (dc_entries (DNSCache_Put client answer qname now d)) \<subseteq>
   insert (dnsKeyOf client answer, \<lparr>de_qname = qname, de_added = now\<rparr>) (set (dc_entries d))"
  by (auto simp: DNSCache_Put_def Let_def reclaim_def dest!: subsetD [OF set_update_subset])

lemma entries_origin:
  "(k, e) \<in> set (dc_entries (fold dns_step ops (NewDNSCache sz ttl))) \<Longrightarrow> put_of ops k e"
proof (induction ops arbitrary: k e rule: rev_induct)
  case (snoc op ops)
  let ?d = "fold dns_step ops (NewDNSCache sz ttl)"
  have "(k, e) \<in> set (dc_entries ?d) \<or> put_of [op] k e"
  proof (cases op)
    case (DPut client answer qname now)
    with snoc.prems set_entries_Put [of client answer qname now ?d] show ?thesis
      by (auto simp: put_of_def split: if_splits)
  next
    case (DLookup client answer now)
    with snoc.prems show ?thesis
      by (auto simp: DNSCache_Lookup_def Let_def set_delete split: if_splits option.splits)
  qed
  then have "put_of ops k e \<or> put_of [op] k e" using snoc.IH by blast
  then show ?case unfolding put_of_def by fastforce
qed (simp add: NewDNSCache_def)

lemma Lookup_Some:
  "snd (DNSCache_Lookup client answer now d) = Some q \<Longrightarrow>
   \<exists>e. (dnsKeyOf client answer, e) \<in> set (dc_entries d) \<and> de_qname e = q \<and> \<not> expired (dc_ttl d) now e"
  by (auto simp: DNSCache_Lookup_def Let_def dest: map_of_SomeD split: if_splits option.splits)

lemma dns_step_frame: "dc_ttl (dns_step op d) = dc_ttl d \<and> dc_size (dns_step op d) = dc_size d"
  by (cases op) (auto simp: DNSCache_Put_def DNSCache_Lookup_def Let_def split: option.split)

lemma run_frame: "dc_ttl (fold dns_step ops d) = dc_ttl d \<and> dc_size (fold dns_step ops d) = dc_size d"
  by (induction ops arbitrary: d) (auto simp: dns_step_frame)

lemma not_expired_early:
  assumes "dns_inv d" "(k, e) \<in> set (dc_entries d)" "now \<le> dc_nextExpiry d"
  shows "\<not> expired (dc_ttl d) now e"
proof -
  have "now - de_added e \<le> dc_ttl d" "0 \<le> dc_ttl d" "dc_ttl d < max_int64"
    using assms by (auto simp: dns_inv_def)
  then show ?thesis by (auto simp: expired_def time_defs)
qed

section \<open>Properties\<close>

text \<open>
  The cache never answers with a stale or foreign name, and never grows past its cap: after
  any history, a hit for a client and an answer names a query put for exactly that client and
  answer (IPv4-mapped forms identified) no longer than the time to live ago.
\<close>

theorem dns_never_stale:
  assumes "0 \<le> ttl" and "ttl < max_int64"
    and "snd (DNSCache_Lookup client answer now (fold dns_step ops (NewDNSCache sz ttl))) = Some q"
  shows "(\<exists>client' answer' t. DPut client' answer' q t \<in> set ops \<and> time_Sub now t \<le> ttl \<and>
       addr_Unmap client' = addr_Unmap client \<and> addr_Unmap answer' = addr_Unmap answer) \<and>
     int (length (dc_entries (fold dns_step ops (NewDNSCache sz ttl)))) \<le> max 0 sz"
proof -
  let ?new = "NewDNSCache sz ttl"
  let ?d = "fold dns_step ops ?new"
  have "dns_inv ?d" by (rule dns.run_inv) (use assms(1,2) in \<open>simp add: dns_inv_def NewDNSCache_def\<close>)
  then have "int (length (dc_entries ?d)) \<le> max 0 sz"
    using run_frame [of ops ?new] by (simp add: dns_inv_def NewDNSCache_def)
  moreover obtain e where e: "(dnsKeyOf client answer, e) \<in> set (dc_entries ?d)" "de_qname e = q"
    "\<not> expired (dc_ttl ?d) now e"
    using Lookup_Some [OF assms(3)] by blast
  moreover have "put_of ops (dnsKeyOf client answer) e" using e(1) by (rule entries_origin)
  moreover have "dc_ttl ?d = ttl" using run_frame [of ops ?new] by (simp add: NewDNSCache_def)
  ultimately show ?thesis
    by (force simp: put_of_def expired_def dnsKeyOf_def not_less)
qed

theorem dns_never_stale_witness:
  "\<exists>client' answer' t. DPut client' answer' ''a.example'' t \<in> set [DPut (AddrV4 1) (AddrV4 2) ''a.example'' 5] \<and>
     time_Sub 9 t \<le> 10"
proof -
  have "snd (DNSCache_Lookup (AddrV4 1) (AddrV4 2) 9
      (fold dns_step [DPut (AddrV4 1) (AddrV4 2) ''a.example'' 5] (NewDNSCache 3 10))) = Some ''a.example''"
    by code_simp
  moreover have "(10 :: int) < max_int64" by (simp add: max_int64_def)
  ultimately show ?thesis
    using dns_never_stale [of 10 "AddrV4 1" "AddrV4 2" 9 "[DPut (AddrV4 1) (AddrV4 2) ''a.example'' 5]" 3] by auto
qed

text \<open>
  The conservative \<^verbatim>\<open>nextExpiry\<close> never costs a slot: at every point of every history an
  insert is refused exactly when its key is new and unexpired answers alone fill the cache, as if
  every refusal scanned the whole cache.
\<close>

theorem dns_reject_only_when_live:
  assumes "0 \<le> ttl" and "ttl < max_int64" and "0 < sz"
  shows "let d = fold dns_step ops (NewDNSCache sz ttl)
     in dc_rejected (DNSCache_Put client answer q now d) =
        (if map_of (dc_entries d) (dnsKeyOf client answer) = None \<and>
            sz \<le> int (length (filter (\<lambda>(k, e). time_Sub now (de_added e) \<le> ttl) (dc_entries d)))
         then Suc (dc_rejected d) else dc_rejected d)"
proof -
  let ?new = "NewDNSCache sz ttl"
  define d where "d = fold dns_step ops ?new"
  have inv: "dns_inv d"
    unfolding d_def by (rule dns.run_inv) (use assms in \<open>simp add: dns_inv_def NewDNSCache_def\<close>)
  have fr: "dc_ttl d = ttl" "dc_size d = sz"
    using run_frame [of ops ?new] by (simp_all add: d_def NewDNSCache_def)
  define alive where "alive = filter (\<lambda>(k, e). time_Sub now (de_added e) \<le> ttl) (dc_entries d)"
  have live: "filter (\<lambda>(k, e). \<not> expired ttl now e) (dc_entries d) = alive"
    by (simp add: expired_def alive_def not_less)
  have le: "length alive \<le> length (dc_entries d)" by (simp add: alive_def)
  have early: "alive = dc_entries d" if "now \<le> dc_nextExpiry d"
    unfolding live [symmetric]
    by (rule filter_True) (use not_expired_early [OF inv _ that] fr in auto)
  show ?thesis
    unfolding Let_def d_def [symmetric] alive_def [symmetric]
    using assms(3) le early
    by (auto simp: DNSCache_Put_def Let_def fr reclaim_def live not_less)
qed

theorem dns_reject_only_when_live_witness:
  "dc_rejected (DNSCache_Put (AddrV4 1) (AddrV4 3) ''b.example'' 9
     (fold dns_step [DPut (AddrV4 1) (AddrV4 2) ''a.example'' 5] (NewDNSCache 1 10))) = 1"
proof -
  have "(10 :: int) < max_int64" by (simp add: max_int64_def)
  moreover have "dc_entries (fold dns_step [DPut (AddrV4 1) (AddrV4 2) ''a.example'' 5] (NewDNSCache 1 10))
      = [(dnsKeyOf (AddrV4 1) (AddrV4 2), \<lparr>de_qname = ''a.example'', de_added = 5\<rparr>)]"
    "dc_rejected (fold dns_step [DPut (AddrV4 1) (AddrV4 2) ''a.example'' 5] (NewDNSCache 1 10)) = 0"
    by code_simp+
  ultimately show ?thesis
    using dns_reject_only_when_live [of 10 1 "[DPut (AddrV4 1) (AddrV4 2) ''a.example'' 5]" "AddrV4 1" "AddrV4 3" "''b.example''" 9]
    by (simp add: Let_def dnsKeyOf_def time_defs)
qed

end
