(* ===== verification/Processor.thy ===== *)
theory Processor
  imports RepairLaws DNSCache NetflowTypes
begin

text \<open>
  The NetFlow pipeline (\<^verbatim>\<open>internal/flow/processor.go\<close>): normalize, repair, enrich, hand to the sink.
  The processor owns the repair stage, the interface map and the DNS answer cache; the
  process-wide GeoIP enricher, which the enrichment step updates, is threaded with them. What a
  non-nil sink is given is the list of records an operation returns, in order. The counters are
  unbounded naturals, the gauge of held records an integer.
\<close>

section \<open>Normalization\<close>

definition vlanString :: "u16 \<Rightarrow> string" where
  "vlanString tag = (if tag = 0 then [] else itoa (unat tag))"

definition normalizeNetflow :: "NFRecord \<Rightarrow> time \<Rightarrow> Record option" where
  "normalizeNetflow nr now =
     (if \<not> addr_IsValid (nf_SrcAddr nr) \<or> \<not> addr_IsValid (nf_DstAddr nr) then None
      else
        let r = Record_zero\<lparr>r_Source := SourceNetflow, r_Observed := now, r_Start := nf_First nr, r_End := nf_Last nr,
                  r_Proto := nf_Proto nr, r_SrcAddr := addr_Unmap (nf_SrcAddr nr), r_DstAddr := addr_Unmap (nf_DstAddr nr),
                  r_SrcPort := nf_SrcPort nr, r_DstPort := nf_DstPort nr, r_VLANID := vlanString (nf_VLANID nr),
                  r_NF := Counters_zero\<lparr>c_TxBytes := nf_Bytes nr, c_TxPackets := nf_Packets nr, c_Present := True\<rparr>,
                  r_TCPFlags := nf_TCPFlags nr, r_DSCP := nf_DSCP nr, r_ECN := nf_ECN nr,
                  r_SrcMask := nf_SrcMask nr, r_DstMask := nf_DstMask nr, r_Fragments := 1\<rparr>;
            r1 = (if time_IsZero (r_End r) then r\<lparr>r_End := r_Start r\<rparr> else r)
        in Some (r1\<lparr>r_CommunityID := CommunityID (CanonicalTuple r1) 0\<rparr>))"

section \<open>Enrichment\<close>

definition markColdInterface :: "Iface \<Rightarrow> Iface" where
  "markColdInterface f =
     (if if_Name f \<noteq> [] then f\<lparr>if_Unresolved := False\<rparr>
      else if if_Device f \<noteq> [] then f\<lparr>if_Unresolved := True\<rparr>
      else f)"

definition resolveInterface :: "Snapshot \<Rightarrow> Iface \<Rightarrow> Iface" where
  "resolveInterface snap f =
     (let f1 = (if if_Device f \<noteq> [] \<and> if_Name f = []
                then (case Snapshot_InterfaceName snap (if_Device f) of (name, ok) \<Rightarrow> if ok then f\<lparr>if_Name := name\<rparr> else f)
                else f)
      in if if_Device f1 \<noteq> [] \<or> if_Name f1 \<noteq> [] then f1\<lparr>if_Unresolved := False\<rparr> else f1)"

definition protoName :: "u8 \<Rightarrow> string" where
  "protoName p = (if p = 6 then ''tcp'' else if p = 17 then ''udp'' else if p = 132 then ''sctp'' else [])"

text \<open>The domain the client looked up, on a possibly nil cache.\<close>

definition enrichDomain :: "time \<Rightarrow> Record \<Rightarrow> DNSCache option \<Rightarrow> Record \<times> DNSCache option" where
  "enrichDomain now r dns =
     (case dns of
        None \<Rightarrow> (r, None)
      | Some d \<Rightarrow>
          if en_DstDomain (r_Enrich r) \<noteq> [] then (r, Some d)
          else (case DNSCache_Lookup (r_SrcAddr r) (r_DstAddr r) now d of
                  (d', Some name) \<Rightarrow> (r\<lparr>r_Enrich := (r_Enrich r)\<lparr>en_DstDomain := name\<rparr>\<rparr>, Some d')
                | (d', None) \<Rightarrow> (r, Some d')))"

definition enrichHostnames :: "Snapshot \<Rightarrow> Record \<Rightarrow> Enrichment \<Rightarrow> Enrichment" where
  "enrichHostnames snap r e =
     (let e1 = (case Snapshot_Hostname snap (addr_String (r_SrcAddr r)) of (h, ok) \<Rightarrow> if ok then e\<lparr>en_SrcHostname := h\<rparr> else e)
      in case Snapshot_Hostname snap (addr_String (r_DstAddr r)) of (h, ok) \<Rightarrow> if ok then e1\<lparr>en_DstHostname := h\<rparr> else e1)"

definition enrichService :: "Record \<Rightarrow> Enrichment \<Rightarrow> Enrichment" where
  "enrichService r e =
     (if r_DstPort r \<noteq> 0
      then (case ServiceName (itoa (unat (r_DstPort r))) (protoName (r_Proto r)) of
              (svc, ok) \<Rightarrow> if ok then e\<lparr>en_DstService := svc\<rparr> else e)
      else e)"

definition enrichSnapshot :: "Snapshot \<Rightarrow> Record \<Rightarrow> Record" where
  "enrichSnapshot snap r =
     r\<lparr>r_Enrich := enrichService r (enrichHostnames snap r
         ((r_Enrich r)\<lparr>en_SrcScope := Snapshot_Scope snap (addr_String (r_SrcAddr r)),
                       en_DstScope := Snapshot_Scope snap (addr_String (r_DstAddr r))\<rparr>))\<rparr>"

definition enrichRecord :: "Record \<Rightarrow> Snapshot option \<Rightarrow> DNSCache option \<Rightarrow> time \<Rightarrow> GeoEnricher option
    \<Rightarrow> Record \<times> DNSCache option \<times> GeoEnricher option" where
  "enrichRecord r0 snap dns now g =
     (let (r1, dns') = enrichDomain now r0 dns;
          metadataReady = (case snap of Some s \<Rightarrow> sn_IfaceNames s \<noteq> [] | None \<Rightarrow> False);
          r2 = (if \<not> metadataReady then r1\<lparr>r_In := markColdInterface (r_In r1), r_Out := markColdInterface (r_Out r1)\<rparr> else r1)
      in case snap of
           None \<Rightarrow> (let (r', g') = Geo_Enrich r2 g in (r', dns', g'))
         | Some s \<Rightarrow>
             (let r3 = (if metadataReady then r2\<lparr>r_In := resolveInterface s (r_In r2), r_Out := resolveInterface s (r_Out r2)\<rparr> else r2);
                  (r', g') = Geo_Enrich (enrichSnapshot s r3) g
              in (r', dns', g')))"

section \<open>The processor\<close>

record Processor =
  pr_sink :: bool
  pr_rep :: "Repairer option"
  pr_cache :: "Snapshot option option"
  pr_ifmap :: "IfMap option"
  pr_dnsCache :: "DNSCache option"
  pr_ifmapCounters :: nat
  pr_datagrams :: nat
  pr_recordsIn :: nat
  pr_emitted :: nat
  pr_dropped :: nat
  pr_noAddress :: nat
  pr_noIfaceMap :: nat
  pr_held :: int
  pr_geo :: "GeoEnricher option"

record ProcessorStats =
  ps_Datagrams :: nat
  ps_RecordsIn :: nat
  ps_RecordsEmitted :: nat
  ps_RecordsDropped :: nat
  ps_RecordsNoAddr :: nat
  ps_RecordsUnmapped :: nat
  ps_RecordsHeld :: int

definition NewProcessor :: "bool \<Rightarrow> Repairer option \<Rightarrow> Snapshot option option \<Rightarrow> GeoEnricher option \<Rightarrow> Processor" where
  "NewProcessor sink rep cache geo = \<lparr>pr_sink = sink, pr_rep = rep, pr_cache = cache, pr_ifmap = None, pr_dnsCache = None,
     pr_ifmapCounters = 0, pr_datagrams = 0, pr_recordsIn = 0, pr_emitted = 0, pr_dropped = 0, pr_noAddress = 0,
     pr_noIfaceMap = 0, pr_held = 0, pr_geo = geo\<rparr>"

text \<open>
  Publishing a map adopts it into the processor's own counter of failed lookups: the counter is a
  field of the processor and survives the map.
\<close>

definition SetIfMap :: "IfMap option \<Rightarrow> Processor \<Rightarrow> Processor" where
  "SetIfMap m p = p\<lparr>pr_ifmap := m\<rparr>"

definition SetDNSCache :: "DNSCache option \<Rightarrow> Processor \<Rightarrow> Processor" where
  "SetDNSCache c p = p\<lparr>pr_dnsCache := c\<rparr>"

definition snapOf :: "Processor \<Rightarrow> Snapshot option" where
  "snapOf p = map_option Cache_Load (pr_cache p)"

definition emit :: "Record \<Rightarrow> Snapshot option \<Rightarrow> time \<Rightarrow> Processor \<Rightarrow> Record list \<times> Processor" where
  "emit rec snap now p =
     (let (rec', dns, g) = enrichRecord rec snap (pr_dnsCache p) now (pr_geo p)
      in (if pr_sink p then [rec'] else [],
          p\<lparr>pr_dnsCache := dns, pr_geo := g, pr_emitted := Suc (pr_emitted p)\<rparr>))"

fun emitLoop :: "Record list \<Rightarrow> Snapshot option \<Rightarrow> time \<Rightarrow> Processor \<Rightarrow> Record list \<times> Processor" where
  "emitLoop [] snap now p = ([], p)"
| "emitLoop (rec # recs) snap now p =
     (let (out, p1) = emit rec snap now (p\<lparr>pr_held := pr_held p - 1\<rparr>);
          (outs, p2) = emitLoop recs snap now p1
      in (out @ outs, p2))"

definition emitReleased :: "Record list \<Rightarrow> time \<Rightarrow> Processor \<Rightarrow> Record list \<times> Processor" where
  "emitReleased recs now p = (if recs = [] then ([], p) else emitLoop recs (snapOf p) now p)"

definition releaseDue :: "time \<Rightarrow> Processor \<Rightarrow> Record list \<times> Processor" where
  "releaseDue now p =
     (case pr_rep p of
        None \<Rightarrow> ([], p)
      | Some rep \<Rightarrow> let (recs, rep') = Repairer_Release now rep in emitReleased recs now (p\<lparr>pr_rep := Some rep'\<rparr>))"

definition Processor_Flush :: "time \<Rightarrow> Processor \<Rightarrow> Record list \<times> Processor" where
  "Processor_Flush now p =
     (case pr_rep p of
        None \<Rightarrow> ([], p)
      | Some rep \<Rightarrow> let (recs, rep') = Repairer_Flush rep in emitReleased recs now (p\<lparr>pr_rep := Some rep'\<rparr>))"

text \<open>The interfaces of a record, where a map has been published.\<close>

definition nameInterfaces :: "NFRecord \<Rightarrow> IfMap option \<Rightarrow> Record \<Rightarrow> Processor \<Rightarrow> Record \<times> Processor" where
  "nameInterfaces nr m rec p =
     (let (rec1, p1) = (case m of
            None \<Rightarrow> (rec, p)
          | Some _ \<Rightarrow>
              let (i, c1) = IfMap_Iface m (nf_InIfIndex nr) (pr_ifmapCounters p);
                  (ou, c2) = IfMap_Iface m (nf_OutIfIndex nr) c1
              in (rec\<lparr>r_In := i, r_Out := ou\<rparr>, p\<lparr>pr_ifmapCounters := c2\<rparr>))
      in (rec1, if if_Device (r_In rec1) = [] \<and> if_Device (r_Out rec1) = [] then pr_noIfaceMap_update Suc p1 else p1))"

definition observeRecord :: "IfMap option \<Rightarrow> Snapshot option \<Rightarrow> time \<Rightarrow> NFRecord \<Rightarrow> Processor \<Rightarrow> Record list \<times> Processor" where
  "observeRecord m snap now nr p0 =
     (let p = pr_recordsIn_update Suc p0 in
      case normalizeNetflow nr now of
        None \<Rightarrow> ([], pr_noAddress_update Suc p)
      | Some rec0 \<Rightarrow>
          let (rec, p1) = nameInterfaces nr m rec0 p in
          (case pr_rep p1 of
             None \<Rightarrow> emit rec snap now p1
           | Some rep \<Rightarrow>
               (case Repair (Some rec) m snap now rep of
                  (RepairDrop, _, rep') \<Rightarrow> ([], p1\<lparr>pr_rep := Some rep', pr_dropped := Suc (pr_dropped p1)\<rparr>)
                | (RepairHold, _, rep') \<Rightarrow> ([], p1\<lparr>pr_rep := Some rep', pr_held := pr_held p1 + 1\<rparr>)
                | (RepairEmit, rec', rep') \<Rightarrow>
                    emit (case rec' of Some r \<Rightarrow> r | None \<Rightarrow> rec) snap now (p1\<lparr>pr_rep := Some rep'\<rparr>))))"

fun observeLoop :: "IfMap option \<Rightarrow> Snapshot option \<Rightarrow> time \<Rightarrow> NFRecord list \<Rightarrow> Processor \<Rightarrow> Record list \<times> Processor" where
  "observeLoop m snap now [] p = ([], p)"
| "observeLoop m snap now (nr # nrs) p =
     (let (out, p1) = observeRecord m snap now nr p;
          (outs, p2) = observeLoop m snap now nrs p1
      in (out @ outs, p2))"

definition ObserveDatagram :: "Datagram option \<Rightarrow> time \<Rightarrow> Processor \<Rightarrow> Record list \<times> Processor" where
  "ObserveDatagram dgo now p =
     (case dgo of
        None \<Rightarrow> ([], p)
      | Some dg \<Rightarrow>
          let p1 = pr_datagrams_update Suc p;
              (out, p2) = observeLoop (pr_ifmap p1) (snapOf p1) now (dg_Records dg) p1;
              (rel, p3) = releaseDue now p2
          in (out @ rel, p3))"

definition ReleaseDue :: "time \<Rightarrow> Processor \<Rightarrow> Record list \<times> Processor" where
  "ReleaseDue now p = releaseDue now p"

definition Processor_Stats :: "Processor \<Rightarrow> ProcessorStats" where
  "Processor_Stats p = \<lparr>ps_Datagrams = pr_datagrams p, ps_RecordsIn = pr_recordsIn p, ps_RecordsEmitted = pr_emitted p,
     ps_RecordsDropped = pr_dropped p, ps_RecordsNoAddr = pr_noAddress p, ps_RecordsUnmapped = pr_noIfaceMap p,
     ps_RecordsHeld = pr_held p\<rparr>"

section \<open>Accounting\<close>

text \<open>
  The books of the processor: every record that entered is emitted, dropped, without address or
  held; and what the repair stage holds or has suppressed is what the processor holds or dropped.
\<close>

definition proc_inv :: "Processor \<Rightarrow> bool" where
  "proc_inv p \<longleftrightarrow> (\<exists>r. pr_rep p = Some r \<and> rep_ok r \<and>
     int (pr_dropped p) + pr_held p = int (suppressed r) + int (pendingHeld r)) \<and> pr_sink p \<and>
     int (pr_recordsIn p) = int (pr_emitted p) + int (pr_dropped p) + int (pr_noAddress p) + pr_held p"

definition proc_step :: "nat \<Rightarrow> Processor \<Rightarrow> Record list \<Rightarrow> Processor \<Rightarrow> bool" where
  "proc_step n p out p' \<longleftrightarrow> proc_inv p' \<and> pr_recordsIn p' = pr_recordsIn p + n \<and> pr_emitted p' = pr_emitted p + length out"

lemma proc_step_trans:
  "proc_step m p out p1 \<Longrightarrow> proc_step n p1 out' p2 \<Longrightarrow> proc_step (m + n) p (out @ out') p2"
  by (simp add: proc_step_def)

lemma proc_step_refl [simp]: "proc_step 0 p [] p \<longleftrightarrow> proc_inv p"
  by (simp add: proc_step_def)

lemma emit_fields:
  assumes "emit rec snap now p = (out, p')"
  shows "pr_rep p' = pr_rep p" "pr_sink p' = pr_sink p" "pr_recordsIn p' = pr_recordsIn p" "pr_emitted p' = Suc (pr_emitted p)"
    "pr_dropped p' = pr_dropped p" "pr_noAddress p' = pr_noAddress p" "pr_held p' = pr_held p"
    "pr_sink p \<Longrightarrow> length out = 1"
  using assms by (auto simp: emit_def Let_def split: prod.splits)

lemma emitLoop_fields:
  assumes "emitLoop recs snap now p = (out, p')"
  shows "pr_rep p' = pr_rep p \<and> pr_sink p' = pr_sink p \<and> pr_recordsIn p' = pr_recordsIn p \<and>
    pr_emitted p' = pr_emitted p + length recs \<and> pr_dropped p' = pr_dropped p \<and> pr_noAddress p' = pr_noAddress p \<and>
    pr_held p' = pr_held p - int (length recs) \<and> (pr_sink p \<longrightarrow> length out = length recs)"
  using assms
proof (induction recs arbitrary: p out p')
  case (Cons rec recs)
  obtain o1 p1 where e: "emit rec snap now (p\<lparr>pr_held := pr_held p - 1\<rparr>) = (o1, p1)" by fastforce
  obtain o2 p2 where l: "emitLoop recs snap now p1 = (o2, p2)" by fastforce
  from Cons.prems e l Cons.IH [OF l] emit_fields [OF e] show ?case by auto
qed simp

lemma emitReleased_fields:
  assumes "emitReleased recs now p = (out, p')"
  shows "pr_rep p' = pr_rep p \<and> pr_sink p' = pr_sink p \<and> pr_recordsIn p' = pr_recordsIn p \<and>
    pr_emitted p' = pr_emitted p + length recs \<and> pr_dropped p' = pr_dropped p \<and> pr_noAddress p' = pr_noAddress p \<and>
    pr_held p' = pr_held p - int (length recs) \<and> (pr_sink p \<longrightarrow> length out = length recs)"
  using assms emitLoop_fields [of recs "snapOf p" now p out p'] by (auto simp: emitReleased_def split: if_splits)

lemma released_step:
  assumes ok: "proc_inv p" and rep: "pr_rep p = Some r" and rel: "releaseRep t all r = (recs, r')"
    and em: "emitReleased recs now (p\<lparr>pr_rep := Some r'\<rparr>) = (out, p')"
  shows "proc_step 0 p out p' \<and> pr_rep p' = Some r'"
proof -
  have "rep_ok r" using ok rep by (simp add: proc_inv_def)
  from releaseRep_spec [OF this rel] emitReleased_fields [OF em] ok rep
  show ?thesis by (auto simp: proc_inv_def proc_step_def)
qed

lemma releaseDue_step:
  assumes "proc_inv p" "releaseDue now p = (out, p')"
  shows "proc_step 0 p out p'"
proof -
  obtain r where r: "pr_rep p = Some r" using assms(1) by (auto simp: proc_inv_def)
  obtain recs r' where f: "releaseRep now False r = (recs, r')" by fastforce
  have "emitReleased recs now (p\<lparr>pr_rep := Some r'\<rparr>) = (out, p')"
    using assms(2) r f by (simp add: releaseDue_def Repairer_Release_def)
  from released_step [OF assms(1) r f this] show ?thesis by simp
qed

lemma Processor_Flush_step:
  assumes "proc_inv p" "Processor_Flush now p = (out, p')"
  shows "proc_step 0 p out p' \<and> (\<exists>r. pr_rep p' = Some r \<and> pendingHeld r = 0)"
proof -
  obtain r where r: "pr_rep p = Some r" "rep_ok r" using assms(1) by (auto simp: proc_inv_def)
  obtain recs r' where f: "releaseRep 0 True r = (recs, r')" by fastforce
  have "emitReleased recs now (p\<lparr>pr_rep := Some r'\<rparr>) = (out, p')"
    using assms(2) r f by (simp add: Processor_Flush_def Repairer_Flush_def)
  from released_step [OF assms(1) r(1) f this] releaseRep_spec [OF r(2) f] show ?thesis by simp
qed

lemma nameInterfaces_fields:
  assumes "nameInterfaces nr m rec p = (rec', p')"
  shows "pr_rep p' = pr_rep p" "pr_sink p' = pr_sink p" "pr_recordsIn p' = pr_recordsIn p" "pr_emitted p' = pr_emitted p"
    "pr_dropped p' = pr_dropped p" "pr_noAddress p' = pr_noAddress p" "pr_held p' = pr_held p"
  using assms by (auto simp: nameInterfaces_def Let_def split: option.splits prod.splits if_splits)

lemma observeRecord_step:
  assumes ok: "proc_inv p" and a: "observeRecord m snap now nr p = (out, p')"
  shows "proc_step 1 p out p'"
proof (cases "normalizeNetflow nr now")
  case None
  then show ?thesis using ok a by (auto simp: observeRecord_def proc_step_def proc_inv_def)
next
  case (Some rec0)
  obtain rec p1 where n: "nameInterfaces nr m rec0 (pr_recordsIn_update Suc p) = (rec, p1)" by fastforce
  note nf = nameInterfaces_fields [OF n]
  obtain r where r: "pr_rep p1 = Some r" "rep_ok r" using ok nf(1) by (auto simp: proc_inv_def)
  obtain v rec' r' where rw: "repairWith (Some rec) (map_option topologyOf m) snap now r = (v, rec', r')" by (metis prod_cases3)
  note rs = repairWith_spec [OF r(2) rw]
  show ?thesis
  proof (cases v)
    case RepairEmit
    obtain rec2 where rec2: "rec' = Some rec2" using rs by auto
    have "emit rec2 snap now (p1\<lparr>pr_rep := Some r'\<rparr>) = (out, p')"
      using a Some n r rw RepairEmit rec2 by (simp add: observeRecord_def Repair_def)
    from emit_fields [OF this] show ?thesis using ok nf r rs RepairEmit
      by (auto simp: proc_step_def proc_inv_def booked_def)
  qed (use a Some n r rw ok nf rs in \<open>auto simp: observeRecord_def Repair_def proc_step_def proc_inv_def booked_def\<close>)
qed

lemma observeLoop_step:
  "proc_inv p \<Longrightarrow> observeLoop m snap now nrs p = (out, p') \<Longrightarrow> proc_step (length nrs) p out p'"
proof (induction nrs arbitrary: p out p')
  case (Cons nr nrs)
  obtain o1 p1 where e: "observeRecord m snap now nr p = (o1, p1)" by fastforce
  obtain o2 p2 where l: "observeLoop m snap now nrs p1 = (o2, p2)" by fastforce
  have 1: "proc_step 1 p o1 p1" using observeRecord_step [OF Cons.prems(1) e] .
  have "proc_inv p1" using 1 by (simp add: proc_step_def)
  from proc_step_trans [OF 1 Cons.IH [OF this l]] Cons.prems(2) e l show ?case by simp
qed simp

lemma ObserveDatagram_step:
  assumes ok: "proc_inv p" and a: "ObserveDatagram dgo now p = (out, p')"
  shows "proc_step (case dgo of Some dg \<Rightarrow> length (dg_Records dg) | None \<Rightarrow> 0) p out p'"
proof (cases dgo)
  case None
  then show ?thesis using ok a by (simp add: ObserveDatagram_def)
next
  case (Some dg)
  let ?p1 = "pr_datagrams_update Suc p"
  obtain o1 p1 where l: "observeLoop (pr_ifmap ?p1) (snapOf ?p1) now (dg_Records dg) ?p1 = (o1, p1)" by fastforce
  obtain o2 p2 where r: "releaseDue now p1 = (o2, p2)" by fastforce
  have i: "proc_inv ?p1" using ok by (simp add: proc_inv_def)
  have 1: "proc_step (length (dg_Records dg)) ?p1 o1 p1" by (rule observeLoop_step [OF i l])
  then have "proc_inv p1" by (simp add: proc_step_def)
  from proc_step_trans [OF 1 releaseDue_step [OF this r]] show ?thesis
    using a Some l r by (auto simp: ObserveDatagram_def proc_step_def)
qed

section \<open>Histories\<close>

text \<open>
  What the lane and its pollers do to the processor, at any point between two calls: datagrams,
  the ticker, shutdown, a new interface map, DNS cache, enrichment snapshot, route or NAT table.
\<close>

datatype procOp =
  PDatagram "Datagram option" time
| PRelease time
| PFlush time
| PIfMap "IfMap option"
| PDNSCache "DNSCache option"
| PSnapshot "Snapshot option"
| PRoutes "RouteTable option"
| PNATs "NATTable option"

type_synonym procRun = "Processor \<times> Record list"

definition logged :: "(Processor \<Rightarrow> Record list \<times> Processor) \<Rightarrow> procRun \<Rightarrow> procRun" where
  "logged f s = (let (out, p') = f (fst s) in (p', snd s @ out))"

fun procStep :: "procOp \<Rightarrow> procRun \<Rightarrow> procRun" where
  "procStep (PDatagram dg now) s = logged (ObserveDatagram dg now) s"
| "procStep (PRelease now) s = logged (ReleaseDue now) s"
| "procStep (PFlush now) s = logged (Processor_Flush now) s"
| "procStep (PIfMap m) (p, log) = (SetIfMap m p, log)"
| "procStep (PDNSCache d) (p, log) = (SetDNSCache d p, log)"
| "procStep (PSnapshot so) (p, log) = (p\<lparr>pr_cache := map_option (\<lambda>_. Cache_Store so) (pr_cache p)\<rparr>, log)"
| "procStep (PRoutes t) (p, log) = (p\<lparr>pr_rep := map_option (SetRouteTable t) (pr_rep p)\<rparr>, log)"
| "procStep (PNATs t) (p, log) = (p\<lparr>pr_rep := map_option (SetNATTable t) (pr_rep p)\<rparr>, log)"

fun recordsOf :: "procOp \<Rightarrow> nat" where
  "recordsOf (PDatagram (Some dg) now) = length (dg_Records dg)"
| "recordsOf _ = 0"

definition procInv :: "procRun \<Rightarrow> bool" where
  "procInv s \<longleftrightarrow> proc_inv (fst s) \<and> pr_emitted (fst s) = length (snd s)"

definition procIn :: "procRun \<Rightarrow> nat" where
  "procIn s = pr_recordsIn (fst s)"

lemma logged_step:
  assumes "\<And>out p'. f (fst s) = (out, p') \<Longrightarrow> proc_step n (fst s) out p'" "procInv s"
  shows "procInv (logged f s) \<and> procIn (logged f s) = procIn s + n"
proof -
  obtain out p' where f: "f (fst s) = (out, p')" by fastforce
  from assms(1) [OF f] assms(2) f show ?thesis by (simp add: procInv_def procIn_def logged_def proc_step_def)
qed

lemma set_tables_ok:
  "rep_ok r \<Longrightarrow> rep_ok (SetRouteTable t r) \<and> suppressed (SetRouteTable t r) = suppressed r \<and> pendingHeld (SetRouteTable t r) = pendingHeld r"
  "rep_ok r \<Longrightarrow> rep_ok (SetNATTable t' r) \<and> suppressed (SetNATTable t' r) = suppressed r \<and> pendingHeld (SetNATTable t' r) = pendingHeld r"
  by (auto simp: SetRouteTable_def SetNATTable_def suppressed_def pendingHeld_def rep_ok_def seen_ok_def hold_ok_def hold_queued_def nat_ok_def)

lemma procStep_spec: "procInv s \<Longrightarrow> procInv (procStep op s) \<and> procIn (procStep op s) = procIn s + recordsOf op"
proof -
  assume inv: "procInv s"
  then have ok: "proc_inv (fst s)" by (simp add: procInv_def)
  note keep = procInv_def procIn_def proc_inv_def SetIfMap_def SetDNSCache_def
  show ?thesis
  proof (cases op)
    case (PDatagram dgo now)
    then show ?thesis using logged_step [of "ObserveDatagram dgo now", OF ObserveDatagram_step [OF ok] inv] by (cases dgo) simp_all
  next
    case (PRelease now)
    then show ?thesis using logged_step [of "releaseDue now", OF releaseDue_step [OF ok] inv] by (simp add: ReleaseDue_def [abs_def])
  next
    case (PFlush now)
    then show ?thesis
      using logged_step [of "Processor_Flush now" s 0, OF conjunct1 [OF Processor_Flush_step [OF ok]] inv] by simp
  next
    case (PRoutes t)
    then show ?thesis using inv set_tables_ok(1) by (cases s) (auto simp: keep)
  next
    case (PNATs t)
    then show ?thesis using inv set_tables_ok(2) by (cases s) (auto simp: keep)
  qed (use inv in \<open>cases s; simp add: keep\<close>)+
qed

interpretation proc: conserving procInv procStep procIn recordsOf
  by unfold_locales (use procStep_spec in auto)

definition procRunOf :: "int \<Rightarrow> int \<Rightarrow> Snapshot option option \<Rightarrow> GeoEnricher option \<Rightarrow> procOp list \<Rightarrow> procRun" where
  "procRunOf maxE maxH cache geo ops = fold procStep ops (NewProcessor True (Some (NewRepairer maxE maxH)) cache geo, [])"

lemma procInv_New: "procInv (NewProcessor True (Some (NewRepairer maxE maxH)) cache geo, [])"
  using New_ok [of maxE maxH]
  by (simp add: procInv_def proc_inv_def NewProcessor_def run_ok_def) (simp add: NewRepairer_def suppressed_def pendingHeld_def)

lemma procRunOf_inv: "procInv (procRunOf maxE maxH cache geo ops)"
  unfolding procRunOf_def by (rule proc.run_inv [OF procInv_New])

text \<open>
  (C10) The pipeline's published identity holds over every history: the records of all datagrams are
  exactly those emitted, dropped, without address and held, and the emitted ones are those the
  sink was given. The gauge of held records counts those in the repair stage's buffer and, for
  ever, those the stage suppressed when it released them: no operation takes these off it.
\<close>

theorem processor_accounts:
  "case procRunOf maxE maxH cache geo ops of (p, log) \<Rightarrow> case pr_rep p of None \<Rightarrow> False | Some r \<Rightarrow>
     (let s = Processor_Stats p; rs = StatsAt now r;
          suppressed = rst_VLANDuplicatesDropped rs + rst_NATDuplicatesDropped rs + rst_NATConversationDuplicates rs in
      ps_RecordsIn s = (\<Sum>op\<leftarrow>ops. recordsOf op) \<and>
      int (ps_RecordsIn s) = int (ps_RecordsEmitted s) + int (ps_RecordsDropped s) + int (ps_RecordsNoAddr s) + ps_RecordsHeld s \<and>
      ps_RecordsEmitted s = length log \<and>
      ps_RecordsHeld s = int (rst_HeldEntries rs) + (int suppressed - int (ps_RecordsDropped s)))"
proof -
  obtain p log where run: "procRunOf maxE maxH cache geo ops = (p, log)" by fastforce
  have inv: "procInv (p, log)" using procRunOf_inv [of maxE maxH cache geo ops] run by simp
  have "pr_recordsIn p = (\<Sum>op\<leftarrow>ops. recordsOf op)"
    using proc.run_total [OF procInv_New, of ops maxE maxH cache geo] run
    by (simp add: procRunOf_def procIn_def) (simp add: NewProcessor_def)
  then show ?thesis using inv unfolding run
    by (auto simp: procInv_def proc_inv_def Processor_Stats_def StatsAt_def Let_def suppressed_def pendingHeld_def)
qed

section \<open>The held gauge\<close>

definition exported :: "u32 \<Rightarrow> u32 \<Rightarrow> u16 \<Rightarrow> NFRecord" where
  "exported src inIf sport = NFRecord_zero\<lparr>nf_Proto := 6, nf_SrcAddr := AddrV4 src, nf_DstAddr := AddrV4 0x08080808,
     nf_SrcPort := sport, nf_DstPort := 443, nf_InIfIndex := inIf, nf_OutIfIndex := 2\<rparr>"

definition natDatagram :: Datagram where
  "natDatagram = \<lparr>dg_Version = V9, dg_SourceID = 0, dg_Sequence = 0, dg_ExportTime = 0,
     dg_Records = [exported 0x0A000005 2 1000, exported 0x01020304 1 2000], dg_Unidentified = []\<rparr>"

definition seenOn :: "u32 \<Rightarrow> string \<Rightarrow> u32 \<Rightarrow> u16 \<Rightarrow> string \<Rightarrow> Record" where
  "seenOn src dev idx sport cid = Record_zero\<lparr>r_Source := SourceNetflow, r_Observed := 1, r_Proto := 6, r_SrcAddr := AddrV4 src,
     r_DstAddr := AddrV4 0x08080808, r_SrcPort := sport, r_DstPort := 443,
     r_NF := Counters_zero\<lparr>c_Present := True\<rparr>, r_Fragments := 1, r_CommunityID := cid,
     r_In := Iface_zero\<lparr>if_Device := dev, if_Index := idx\<rparr>, r_Out := Iface_zero\<lparr>if_Device := ''igb0'', if_Index := 2\<rparr>\<rparr>"

lemma natStage:
  "case Repair (Some (seenOn 0x0A000005 ''igb0'' 2 1000 c)) (Some (BuildIfMap vlan_input)) None 1 (SetNATTable (Some nat_sample) (NewRepairer 10 10)) of
     (v1, x1, r1) \<Rightarrow> case Repair (Some (seenOn 0x01020304 ''ixl0'' 1 2000 d)) (Some (BuildIfMap vlan_input)) None 1 r1 of
     (v2, x2, r2) \<Rightarrow> case Repairer_Release 1 r2 of (out1, r3) \<Rightarrow> case Repairer_Flush r3 of (out2, r4) \<Rightarrow>
       v1 = RepairEmit \<and> v2 = RepairHold \<and> out1 = [] \<and> out2 = [] \<and> rst_HeldEntries (StatsAt 2 r4) = 0"
  by code_simp

lemma natInterfaces: "IfMap_Iface (Some (BuildIfMap vlan_input)) 1 n = (Iface_zero\<lparr>if_Device := ''ixl0'', if_Index := 1\<rparr>, n)"
   "IfMap_Iface (Some (BuildIfMap vlan_input)) 2 n = (Iface_zero\<lparr>if_Device := ''igb0'', if_Index := 2\<rparr>, n)"
  by code_simp+

lemma exported_named:
  "\<exists>rec0 cid. normalizeNetflow (exported src 1 sport) 1 = Some rec0 \<and>
     nameInterfaces (exported src 1 sport) (Some (BuildIfMap vlan_input)) rec0 p = (seenOn src ''ixl0'' 1 sport cid, p)"
  "\<exists>rec0 cid. normalizeNetflow (exported src 2 sport) 1 = Some rec0 \<and>
     nameInterfaces (exported src 2 sport) (Some (BuildIfMap vlan_input)) rec0 p = (seenOn src ''igb0'' 2 sport cid, p)"
  by (simp_all add: normalizeNetflow_def exported_def NFRecord_zero_def nameInterfaces_def natInterfaces seenOn_def vlanString_def
      Let_def Record_zero_def Counters_zero_def Iface_zero_def time_IsZero_def)

text \<open>
  A record held and then suppressed as a translated copy stays on the gauge: after the flush of a
  shutdown the repair stage holds nothing and the processor reports one record held.
\<close>

theorem held_gauge_leaks:
  "case procRunOf 10 10 None None [PNATs (Some nat_sample), PIfMap (Some (BuildIfMap vlan_input)),
       PDatagram (Some natDatagram) 1, PFlush 2] of (p, log) \<Rightarrow>
     ps_RecordsHeld (Processor_Stats p) = 1 \<and> map_option (\<lambda>r. rst_HeldEntries (StatsAt 2 r)) (pr_rep p) = Some 0"
proof -
  let ?m = "Some (BuildIfMap vlan_input)"
  define p0 where "p0 = (NewProcessor True (Some (SetNATTable (Some nat_sample) (NewRepairer 10 10))) None None)\<lparr>pr_ifmap := ?m\<rparr>"
  let ?q0 = "pr_recordsIn_update Suc (pr_datagrams_update Suc p0)"
  obtain a0 c where a: "normalizeNetflow (exported 0x0A000005 2 1000) 1 = Some a0"
      "nameInterfaces (exported 0x0A000005 2 1000) ?m a0 ?q0 = (seenOn 0x0A000005 ''igb0'' 2 1000 c, ?q0)"
    using exported_named(2) by blast
  obtain x1 r1 where r1: "Repair (Some (seenOn 0x0A000005 ''igb0'' 2 1000 c)) ?m None 1
      (SetNATTable (Some nat_sample) (NewRepairer 10 10)) = (RepairEmit, x1, r1)"
    using natStage [where c = c and d = c] by (auto split: prod.splits)
  obtain o1 p1 where e: "emit (case x1 of Some r \<Rightarrow> r | None \<Rightarrow> seenOn 0x0A000005 ''igb0'' 2 1000 c) None 1 (?q0\<lparr>pr_rep := Some r1\<rparr>) = (o1, p1)" by fastforce
  let ?q1 = "pr_recordsIn_update Suc p1"
  obtain b0 d where b: "normalizeNetflow (exported 0x01020304 1 2000) 1 = Some b0"
      "nameInterfaces (exported 0x01020304 1 2000) ?m b0 ?q1 = (seenOn 0x01020304 ''ixl0'' 1 2000 d, ?q1)"
    using exported_named(1) by blast
  obtain x2 r2 r3 r4 where r2: "Repair (Some (seenOn 0x01020304 ''ixl0'' 1 2000 d)) ?m None 1 r1 = (RepairHold, x2, r2)"
      "Repairer_Release 1 r2 = ([], r3)" "Repairer_Flush r3 = ([], r4)" "rst_HeldEntries (StatsAt 2 r4) = 0"
    using natStage [where c = c and d = d] r1 by (auto split: prod.splits)
  have p0: "pr_ifmap p0 = ?m" "snapOf p0 = None" "pr_rep p0 = Some (SetNATTable (Some nat_sample) (NewRepairer 10 10))" "pr_held p0 = 0"
    by (simp_all add: p0_def NewProcessor_def snapOf_def)
  have "observeRecord ?m None 1 (exported 0x0A000005 2 1000) (pr_datagrams_update Suc p0) = (o1, p1)"
    using a r1 e p0 by (simp add: observeRecord_def)
  moreover have "observeRecord ?m None 1 (exported 0x01020304 1 2000) p1 = ([], p1\<lparr>pr_recordsIn := Suc (pr_recordsIn p1), pr_rep := Some r2, pr_held := pr_held p1 + 1\<rparr>)"
    using b r2(1) emit_fields [OF e] by (simp add: observeRecord_def)
  moreover have "snapOf (pr_datagrams_update Suc p0) = None" using p0 by (simp add: snapOf_def)
  ultimately have "\<exists>p2. ObserveDatagram (Some natDatagram) 1 p0 = (o1, p2) \<and> pr_rep p2 = Some r3 \<and> pr_held p2 = 1"
    using p0 r2(2) emit_fields [OF e] by (simp add: ObserveDatagram_def natDatagram_def releaseDue_def emitReleased_def)
  then obtain p2 where p2: "ObserveDatagram (Some natDatagram) 1 p0 = (o1, p2)" "pr_rep p2 = Some r3" "pr_held p2 = 1" by blast
  have "Processor_Flush 2 p2 = ([], p2\<lparr>pr_rep := Some r4\<rparr>)"
    using p2 r2(3) by (simp add: Processor_Flush_def emitReleased_def)
  moreover have "procRunOf 10 10 None None [PNATs (Some nat_sample), PIfMap ?m, PDatagram (Some natDatagram) 1, PFlush 2] =
      logged (Processor_Flush 2) (logged (ObserveDatagram (Some natDatagram) 1) (p0, []))"
    by (simp add: procRunOf_def p0_def SetIfMap_def NewProcessor_def)
  ultimately show ?thesis using p2 r2(4) by (simp add: logged_def Processor_Stats_def)
qed

end
