(* ===== verification/Talkers.thy ===== *)
theory Talkers
  imports Rollup
begin

text \<open>
  The smaller accumulators that sit beside the rollup: the top-talker ranking
  (\<^verbatim>\<open>toptalkers.go\<close>), the last-seen times (\<^verbatim>\<open>lastseen.go\<close>), the distinct-destination sets
  (\<^verbatim>\<open>distinctdests.go\<close>) and the fan-out of one record to several sinks (\<^verbatim>\<open>tee.go\<close>).
\<close>

section \<open>Top talkers\<close>

record talkerKey =
  tk_host :: string
  tk_direction :: string

record talkerCell =
  tc_cum :: u64
  tc_folded :: u64

record TalkerEntry =
  te_Host :: string
  te_Direction :: string
  te_Bytes :: u64

record TopTalkers =
  ta_enabled :: bool
  ta_primary :: Source
  ta_cells :: "(talkerKey, talkerCell) gomap"
  ta_other :: "(string, u64) gomap"
  ta_topN :: int
  ta_maxKeys :: int
  ta_capped :: nat

definition defaultTopTalkerTopN :: int where
  "defaultTopTalkerTopN = 100"

definition defaultTopTalkerMaxKeys :: int where
  "defaultTopTalkerMaxKeys = 10000"

definition NewTopTalkers :: TopTalkers where
  "NewTopTalkers = \<lparr>ta_enabled = False, ta_primary = SourceUnknown, ta_cells = [], ta_other = [],
     ta_topN = defaultTopTalkerTopN, ta_maxKeys = defaultTopTalkerMaxKeys, ta_capped = 0\<rparr>"

definition TopTalkers_Configure :: "bool \<Rightarrow> Source \<Rightarrow> TopTalkers \<Rightarrow> TopTalkers" where
  "TopTalkers_Configure enabled primary t = t\<lparr>ta_enabled := enabled, ta_primary := primary\<rparr>"

definition isLocalScope :: "string \<Rightarrow> bool" where
  "isLocalScope s \<longleftrightarrow> s = ''local'' \<or> s = ''self''"

definition talkerOf :: "Record \<Rightarrow> (string \<times> string) option" where
  "talkerOf r =
     (if isLocalScope (en_SrcScope (r_Enrich r)) \<and> addr_IsValid (r_SrcAddr r)
      then Some (addr_String (r_SrcAddr r), Direction_String (r_Direction r))
      else if isLocalScope (en_DstScope (r_Enrich r)) \<and> addr_IsValid (r_DstAddr r)
      then Some (addr_String (r_DstAddr r), Direction_String (r_Direction r))
      else None)"

definition talkerOther :: "string \<Rightarrow> u64 \<Rightarrow> TopTalkers \<Rightarrow> TopTalkers" where
  "talkerOther dir b t = t\<lparr>ta_other := AList.update dir
     ((case map_of (ta_other t) dir of Some v \<Rightarrow> v | None \<Rightarrow> 0) + b) (ta_other t)\<rparr>"

definition TopTalkers_Observe :: "Record \<Rightarrow> TopTalkers \<Rightarrow> TopTalkers" where
  "TopTalkers_Observe r t =
     (if \<not> ta_enabled t then t
      else if ta_primary t \<noteq> SourceUnknown \<and> r_Source r \<noteq> ta_primary t then t
      else case talkerOf r of
        None \<Rightarrow> t
      | Some (host, dir) \<Rightarrow>
          let b = fst (volumeOf r) in
          if b = 0 then t
          else let k = \<lparr>tk_host = host, tk_direction = dir\<rparr> in
            case map_of (ta_cells t) k of
              None \<Rightarrow>
                if 0 < ta_maxKeys t \<and> ta_maxKeys t \<le> int (length (ta_cells t))
                then ta_capped_update Suc (talkerOther dir b t)
                else t\<lparr>ta_cells := AList.update k \<lparr>tc_cum = 0 + b, tc_folded = 0\<rparr> (ta_cells t)\<rparr>
            | Some c \<Rightarrow> t\<lparr>ta_cells := AList.update k (c\<lparr>tc_cum := tc_cum c + b\<rparr>) (ta_cells t)\<rparr>)"

definition talkerLess :: "talkerKey \<times> talkerCell \<Rightarrow> talkerKey \<times> talkerCell \<Rightarrow> bool" where
  "talkerLess p q = (case (p, q) of ((ki, ci), (kj, cj)) \<Rightarrow>
     if tc_cum ci \<noteq> tc_cum cj then tc_cum cj < tc_cum ci
     else if tk_host ki \<noteq> tk_host kj then tk_host ki < tk_host kj
     else tk_direction ki < tk_direction kj)"

definition foldTalker :: "talkerKey \<times> talkerCell \<Rightarrow> TopTalkers \<Rightarrow> TopTalkers" where
  "foldTalker p t = (case p of (k, c) \<Rightarrow>
     let t1 = talkerOther (tk_direction k) (tc_cum c - tc_folded c) t
     in t1\<lparr>ta_cells := AList.update k (c\<lparr>tc_folded := tc_cum c\<rparr>) (ta_cells t1)\<rparr>)"

definition talkerCut :: "TopTalkers \<Rightarrow> nat" where
  "talkerCut t = (let n = length (ta_cells t) in
     if 0 < ta_topN t \<and> ta_topN t < int n then nat (ta_topN t) else n)"

definition TopTalkers_Snapshot :: "TopTalkers \<Rightarrow> TopTalkers \<times> TalkerEntry list" where
  "TopTalkers_Snapshot t =
     (let rs = sort_Slice talkerLess (ta_cells t);
          cut = talkerCut t;
          out = map (\<lambda>(k, c). \<lparr>te_Host = tk_host k, te_Direction = tk_direction k,
                               te_Bytes = tc_cum c - tc_folded c\<rparr>) (take cut rs);
          t1 = fold foldTalker (drop cut rs) t
      in (t1, out @ map (\<lambda>(dir, v). \<lparr>te_Host = OtherLabel, te_Direction = dir, te_Bytes = v\<rparr>) (ta_other t1)))"

section \<open>Last seen\<close>

definition lastSeenIfaceCap :: nat where
  "lastSeenIfaceCap = 256"

type_synonym LastSeen = "(string, time) gomap"

definition NewLastSeen :: LastSeen where
  "NewLastSeen = []"

definition LastSeen_Observe :: "Record \<Rightarrow> time \<Rightarrow> LastSeen \<Rightarrow> LastSeen" where
  "LastSeen_Observe r now l =
     (if r_Source r \<noteq> SourceNetflow then l
      else let iface = interfaceLabel r in
        if iface = [] then l
        else if map_of l iface = None \<and> lastSeenIfaceCap \<le> length l then l
        else AList.update iface now l)"

section \<open>Distinct destinations\<close>

definition distinctDestsPerIfaceCap :: nat where
  "distinctDestsPerIfaceCap = 10000"

definition distinctDestsMaxInterfaces :: nat where
  "distinctDestsMaxInterfaces = 512"

record DistinctDests =
  dd_cells :: "(string, addr list) gomap"
  dd_capped :: nat

definition NewDistinctDests :: DistinctDests where
  "NewDistinctDests = \<lparr>dd_cells = [], dd_capped = 0\<rparr>"

text \<open>A set of addresses is a list without repetitions; \<open>dests\<close> is the cell of a label, if any.\<close>

definition DistinctDests_Observe :: "Record \<Rightarrow> DistinctDests \<Rightarrow> DistinctDests" where
  "DistinctDests_Observe r d =
     (if \<not> addr_IsValid (r_DstAddr r) then d
      else let label = interfaceLabel r in
        if label = [] then d
        else
          let dst = addr_Unmap (r_DstAddr r);
              full = (map_of (dd_cells d) label = None \<and> label \<noteq> OtherLabel \<and>
                      distinctDestsMaxInterfaces \<le> length (dd_cells d));
              d1 = (if full then dd_capped_update Suc d else d);
              iface = (if full then OtherLabel else label);
              d2 = (if map_of (dd_cells d1) iface = None
                    then d1\<lparr>dd_cells := AList.update iface [] (dd_cells d1)\<rparr> else d1);
              dests = (case map_of (dd_cells d2) iface of Some s \<Rightarrow> s | None \<Rightarrow> [])
          in if dst \<in> set dests then d2
             else if distinctDestsPerIfaceCap \<le> length dests then d2
             else d2\<lparr>dd_cells := AList.update iface (dests @ [dst]) (dd_cells d2)\<rparr>)"

definition DistinctDests_Snapshot :: "DistinctDests \<Rightarrow> (string, nat) gomap" where
  "DistinctDests_Snapshot d = map (\<lambda>(iface, s). (iface, length s)) (dd_cells d)"

section \<open>Fan-out\<close>

text \<open>
  \<^verbatim>\<open>Tee\<close> drops nil sinks and forwards a record to the others in order. A sink is its \<^verbatim>\<open>Observe\<close> on
  the state the sinks share.
\<close>

definition Tee :: "(Record \<Rightarrow> 's \<Rightarrow> 's) option list \<Rightarrow> Record \<Rightarrow> 's \<Rightarrow> 's" where
  "Tee sinks r s =
     (let nonNil = List.map_filter id sinks in
      case nonNil of [f] \<Rightarrow> f r s | _ \<Rightarrow> fold (\<lambda>f. f r) nonNil s)"

section \<open>Top talkers lose nothing\<close>

datatype talker_op = TObserve Record | TSnapshot

fun talker_step :: "talker_op \<Rightarrow> TopTalkers \<Rightarrow> TopTalkers" where
  "talker_step (TObserve r) t = TopTalkers_Observe r t"
| "talker_step TSnapshot t = fst (TopTalkers_Snapshot t)"

fun talker_weight :: "Source \<Rightarrow> string \<Rightarrow> talker_op \<Rightarrow> u64" where
  "talker_weight primary dir (TObserve r) =
     (if (primary = SourceUnknown \<or> r_Source r = primary) \<and> map_option snd (talkerOf r) = Some dir
      then fst (volumeOf r) else 0)"
| "talker_weight primary dir TSnapshot = 0"

definition talker_inv :: "Source \<Rightarrow> TopTalkers \<Rightarrow> bool" where
  "talker_inv primary t \<longleftrightarrow> ta_enabled t \<and> ta_primary t = primary \<and>
     gomap_wf (ta_cells t) \<and> gomap_wf (ta_other t)"

definition talkerLive :: "string \<Rightarrow> talkerKey \<Rightarrow> talkerCell \<Rightarrow> u64" where
  "talkerLive dir k c = (if tk_direction k = dir then tc_cum c - tc_folded c else 0)"

definition talkerRest :: "string \<Rightarrow> TopTalkers \<Rightarrow> u64" where
  "talkerRest dir t = (case map_of (ta_other t) dir of None \<Rightarrow> 0 | Some v \<Rightarrow> v)"

definition talker_total :: "string \<Rightarrow> TopTalkers \<Rightarrow> u64" where
  "talker_total dir t = msum (talkerLive dir) (ta_cells t) + talkerRest dir t"

lemma talkerRest_other: "talkerRest dir (talkerOther d b t) = talkerRest dir t + (if d = dir then b else 0)"
  by (simp add: talkerRest_def talkerOther_def map_of_update_conv split: option.split)

lemma talkerRest_frame [simp]:
  "talkerRest dir (ta_capped_update f t) = talkerRest dir t"
  "talkerRest dir (ta_cells_update g t) = talkerRest dir t"
  by (simp_all add: talkerRest_def)

lemma talkerOther_frame [simp]:
  "ta_cells (talkerOther d b t) = ta_cells t" "ta_enabled (talkerOther d b t) = ta_enabled t"
  "ta_primary (talkerOther d b t) = ta_primary t" "gomap_wf (ta_other (talkerOther d b t)) = gomap_wf (ta_other t)"
  by (simp_all add: talkerOther_def)

lemma TopTalkers_Observe_inv [inv_intros]: "talker_inv p t \<Longrightarrow> talker_inv p (TopTalkers_Observe r t)"
  by (auto simp: TopTalkers_Observe_def talker_inv_def Let_def split: option.split)

lemma TopTalkers_Observe_total:
  assumes "talker_inv p t"
  shows "talker_total dir (TopTalkers_Observe r t) = talker_total dir t + talker_weight p dir (TObserve r)"
proof (cases "(p = SourceUnknown \<or> r_Source r = p) \<and> fst (volumeOf r) \<noteq> 0")
  case False
  with assms show ?thesis
    by (auto simp: TopTalkers_Observe_def talker_inv_def Let_def split: option.split)
next
  case act: True
  show ?thesis
  proof (cases "talkerOf r")
    case None
    then show ?thesis by (simp add: TopTalkers_Observe_def)
  next
    case (Some hd)
    then obtain host d where hd: "talkerOf r = Some (host, d)" by (cases hd) auto
    let ?k = "\<lparr>tk_host = host, tk_direction = d\<rparr>" and ?b = "fst (volumeOf r)"
    have wf: "gomap_wf (ta_cells t)" using assms by (simp add: talker_inv_def)
    show ?thesis
    proof (cases "map_of (ta_cells t) ?k")
      case None
      with act hd assms show ?thesis
        by (auto simp: TopTalkers_Observe_def talker_inv_def talker_total_def Let_def talkerRest_other
            msum_update_new talkerLive_def)
    next
      case (Some c)
      with act hd assms msum_update_old [OF wf Some, of "talkerLive dir" "c\<lparr>tc_cum := tc_cum c + ?b\<rparr>"]
      show ?thesis
        by (auto simp: TopTalkers_Observe_def talker_inv_def talker_total_def Let_def talkerLive_def
            algebra_simps)
    qed
  qed
qed

text \<open>Folding the cells outside the ranking, one after the other.\<close>

lemma foldTalker_spec:
  assumes "talker_inv p t" "map_of (ta_cells t) k = Some c"
  shows "talker_inv p (foldTalker (k, c) t) \<and> talker_total dir (foldTalker (k, c) t) = talker_total dir t"
proof -
  have wf: "gomap_wf (ta_cells t)" using assms by (simp add: talker_inv_def)
  show ?thesis
    using assms msum_update_old [OF wf assms(2), of "talkerLive dir" "c\<lparr>tc_folded := tc_cum c\<rparr>"]
    by (auto simp: foldTalker_def talker_inv_def talker_total_def Let_def talkerRest_other talkerLive_def
        algebra_simps)
qed

lemma fold_foldTalker:
  "talker_inv p t \<Longrightarrow> distinct (map fst cs) \<Longrightarrow> list_all (\<lambda>(k, c). map_of (ta_cells t) k = Some c) cs \<Longrightarrow>
   talker_inv p (fold foldTalker cs t) \<and> talker_total dir (fold foldTalker cs t) = talker_total dir t \<and>
   talkerRest dir (fold foldTalker cs t) = talkerRest dir t + (\<Sum>(k, c)\<leftarrow>cs. talkerLive dir k c)"
proof (induction cs arbitrary: t)
  case (Cons x cs)
  obtain k c where x: "x = (k, c)" by (cases x)
  let ?t = "foldTalker (k, c) t"
  have get: "map_of (ta_cells ?t) = (map_of (ta_cells t))(k \<mapsto> c\<lparr>tc_folded := tc_cum c\<rparr>)"
    by (simp add: foldTalker_def Let_def map_of_update_conv)
  have "map_of (ta_cells ?t) k' = Some c'" if kc: "(k', c') \<in> set cs" for k' c'
  proof -
    have "k' \<noteq> k" using Cons.prems(2) x kc by (auto simp: image_iff)
    moreover have "map_of (ta_cells t) k' = Some c'" using Cons.prems(3) kc by (auto simp: list_all_iff)
    ultimately show ?thesis by (simp add: get)
  qed
  then have "list_all (\<lambda>(k, c). map_of (ta_cells ?t) k = Some c) cs" by (auto simp: list_all_iff)
  moreover have "talkerRest dir ?t = talkerRest dir t + talkerLive dir k c"
    by (simp add: foldTalker_def Let_def talkerRest_other talkerLive_def)
  moreover have "talker_inv p ?t \<and> talker_total dir ?t = talker_total dir t"
    using Cons.prems x by (intro foldTalker_spec) auto
  ultimately show ?case
    using Cons.IH [of ?t] Cons.prems(2) x by (simp add: algebra_simps)
qed simp

definition talkerShown :: "string \<Rightarrow> TalkerEntry list \<Rightarrow> u64" where
  "talkerShown dir es = (\<Sum>e\<leftarrow>es. if te_Direction e = dir then te_Bytes e else 0)"

lemma talkerShown_other:
  "gomap_wf m \<Longrightarrow> talkerShown dir (map (\<lambda>(d, v). \<lparr>te_Host = OtherLabel, te_Direction = d, te_Bytes = v\<rparr>) m)
     = (case map_of m dir of None \<Rightarrow> 0 | Some v \<Rightarrow> v)"
proof (induction m)
  case (Cons p m)
  then have "map_of m (fst p) = None" by (simp add: gomap_wf_def map_of_None_iff)
  with Cons show ?case by (cases p) (auto simp: talkerShown_def gomap_wf_def)
qed (simp add: talkerShown_def)

lemma talkerShown_cells:
  "talkerShown dir (map (\<lambda>(k, c). \<lparr>te_Host = tk_host k, te_Direction = tk_direction k,
     te_Bytes = tc_cum c - tc_folded c\<rparr>) cs) = (\<Sum>(k, c)\<leftarrow>cs. talkerLive dir k c)"
  by (induction cs) (auto simp: talkerShown_def talkerLive_def)

lemma TopTalkers_Snapshot_spec:
  assumes "talker_inv p t"
  shows "talker_inv p (fst (TopTalkers_Snapshot t)) \<and>
     talker_total dir (fst (TopTalkers_Snapshot t)) = talker_total dir t \<and>
     talkerShown dir (snd (TopTalkers_Snapshot t)) = talker_total dir t"
proof -
  let ?rs = "sort_Slice talkerLess (ta_cells t)"
  let ?cut = "talkerCut t"
  let ?in = "take ?cut ?rs" and ?out = "drop ?cut ?rs"
  define t1 where "t1 = fold foldTalker ?out t"
  have wf: "gomap_wf (ta_cells t)" using assms by (simp add: talker_inv_def)
  have "mset (map fst ?rs) = mset (map fst (ta_cells t))" by simp
  then have "distinct (map fst ?rs)" using wf by (metis gomap_wf_def mset_eq_imp_distinct_iff)
  then have dist: "distinct (map fst ?out)" by (simp add: drop_map [symmetric])
  have "list_all (\<lambda>(k, c). map_of (ta_cells t) k = Some c) ?out"
    using map_of_mem_wf [OF wf] by (auto simp: list_all_iff dest: in_set_dropD)
  note f = fold_foldTalker [OF assms dist this, of dir, folded t1_def]
  have "(\<Sum>(k, c)\<leftarrow>?in. talkerLive dir k c) + (\<Sum>(k, c)\<leftarrow>?out. talkerLive dir k c)
      = (\<Sum>(k, c)\<leftarrow>?rs. talkerLive dir k c)"
    by (simp only: flip: sum_list_append map_append) simp
  also have "\<dots> = msum (talkerLive dir) (ta_cells t)"
    by (simp add: msum_def sum_list_sort_Slice)
  finally have split: "(\<Sum>(k, c)\<leftarrow>?in. talkerLive dir k c) + (\<Sum>(k, c)\<leftarrow>?out. talkerLive dir k c)
      = msum (talkerLive dir) (ta_cells t)" .
  have "gomap_wf (ta_other t1)" using f by (simp add: talker_inv_def)
  then have rest: "talkerShown dir (map (\<lambda>(d, v). \<lparr>te_Host = OtherLabel, te_Direction = d, te_Bytes = v\<rparr>) (ta_other t1))
      = talkerRest dir t1"
    by (simp add: talkerShown_other talkerRest_def)
  have snap: "TopTalkers_Snapshot t = (t1, map (\<lambda>(k, c). \<lparr>te_Host = tk_host k, te_Direction = tk_direction k,
      te_Bytes = tc_cum c - tc_folded c\<rparr>) ?in @
      map (\<lambda>(d, v). \<lparr>te_Host = OtherLabel, te_Direction = d, te_Bytes = v\<rparr>) (ta_other t1))"
    by (simp add: TopTalkers_Snapshot_def Let_def t1_def)
  have "talkerShown dir (snd (TopTalkers_Snapshot t)) = (\<Sum>(k, c)\<leftarrow>?in. talkerLive dir k c) + talkerRest dir t1"
    unfolding snap using rest talkerShown_cells [of dir ?in] by (simp add: talkerShown_def)
  also have "\<dots> = msum (talkerLive dir) (ta_cells t) + talkerRest dir t"
    using f split by (simp add: algebra_simps)
  finally show ?thesis
    using f unfolding snap talker_total_def [symmetric] by simp
qed

interpretation talkers: conserving "talker_inv p" talker_step "talker_total dir" "talker_weight p dir"
  for p dir
proof
  fix t op
  assume t: "talker_inv p t"
  show "talker_inv p (talker_step op t)"
    using t TopTalkers_Snapshot_spec [OF t] by (cases op) (auto simp: TopTalkers_Observe_inv)
  show "talker_total dir (talker_step op t) = talker_total dir t + talker_weight p dir op"
    using TopTalkers_Observe_total [OF t] TopTalkers_Snapshot_spec [OF t] by (cases op) auto
qed

section \<open>Bounds of the label sets\<close>

definition lastseen_inv :: "LastSeen \<Rightarrow> bool" where
  "lastseen_inv l \<longleftrightarrow> gomap_wf l \<and> length l \<le> lastSeenIfaceCap"

interpretation lastseen: stepping lastseen_inv "\<lambda>(r, now). LastSeen_Observe r now"
proof
  fix l :: LastSeen and op :: "Record \<times> time"
  assume l: "lastseen_inv l"
  obtain r now where "op = (r, now)" by (cases op)
  with l show "lastseen_inv ((case op of (r, now) \<Rightarrow> LastSeen_Observe r now) l)"
    by (cases "map_of l (interfaceLabel r)")
       (auto simp: lastseen_inv_def LastSeen_Observe_def Let_def)
qed

definition dests_inv :: "DistinctDests \<Rightarrow> bool" where
  "dests_inv d \<longleftrightarrow> gomap_wf (dd_cells d) \<and>
     length (AList.delete OtherLabel (dd_cells d)) \<le> distinctDestsMaxInterfaces \<and>
     (\<forall>(l, s)\<in>set (dd_cells d). distinct s \<and> length s \<le> distinctDestsPerIfaceCap)"

lemma dests_inv_put:
  assumes "dests_inv d" "distinct s" "length s \<le> distinctDestsPerIfaceCap"
    and "map_of (dd_cells d) l \<noteq> None \<or> l = OtherLabel \<or> length (dd_cells d) < distinctDestsMaxInterfaces"
  shows "dests_inv (d\<lparr>dd_cells := AList.update l s (dd_cells d)\<rparr>)"
proof -
  let ?m = "dd_cells d"
  have "length (AList.delete OtherLabel (AList.update l s ?m)) \<le> distinctDestsMaxInterfaces"
  proof (cases "l = OtherLabel")
    case True
    have "AList.delete l (AList.update l s m) = AList.delete l m" for m
      by (induction m) auto
    with True assms(1) show ?thesis by (simp add: dests_inv_def)
  next
    case False
    have com: "AList.delete OtherLabel (AList.update l s m) = AList.update l s (AList.delete OtherLabel m)" for m
      using False by (induction m) auto
    have get: "map_of (AList.delete OtherLabel ?m) l = map_of ?m l"
      using False by (simp add: map_of_delete_conv)
    show ?thesis
    proof (cases "map_of ?m l")
      case None
      with False assms(4) have "Suc (length ?m) \<le> distinctDestsMaxInterfaces" by simp
      with length_delete_le [of OtherLabel ?m] get None show ?thesis by (simp add: com)
    next
      case (Some v)
      with get assms(1) show ?thesis by (simp add: com dests_inv_def)
    qed
  qed
  with assms(1-3) ball_update [of ?m "\<lambda>l s. distinct s \<and> length s \<le> distinctDestsPerIfaceCap" l s]
  show ?thesis by (simp add: dests_inv_def)
qed

lemma dests_inv_get: "dests_inv d \<Longrightarrow> map_of (dd_cells d) l = Some s \<Longrightarrow>
   distinct s \<and> length s \<le> distinctDestsPerIfaceCap"
  by (auto simp: dests_inv_def dest!: map_of_SomeD)

interpretation dests: stepping dests_inv DistinctDests_Observe
proof
  fix d r
  assume d: "dests_inv d"
  define label where "label = interfaceLabel r"
  define full where "full \<longleftrightarrow> map_of (dd_cells d) label = None \<and> label \<noteq> OtherLabel \<and>
    distinctDestsMaxInterfaces \<le> length (dd_cells d)"
  define d1 where "d1 = (if full then dd_capped_update Suc d else d)"
  define iface where "iface = (if full then OtherLabel else label)"
  define d2 where "d2 = (if map_of (dd_cells d1) iface = None
      then d1\<lparr>dd_cells := AList.update iface [] (dd_cells d1)\<rparr> else d1)"
  define s where "s = (case map_of (dd_cells d2) iface of Some s \<Rightarrow> s | None \<Rightarrow> [])"
  have d1: "dests_inv d1" using d by (simp add: d1_def dests_inv_def)
  have room: "map_of (dd_cells d1) iface \<noteq> None \<or> iface = OtherLabel \<or>
      length (dd_cells d1) < distinctDestsMaxInterfaces"
    by (auto simp: d1_def iface_def full_def)
  have d2: "dests_inv d2"
    unfolding d2_def using d1 dests_inv_put [OF d1 _ _ room] by simp
  have known: "map_of (dd_cells d2) iface = Some s"
    by (auto simp: s_def d2_def map_of_update_conv split: option.splits)
  have "dests_inv (d2\<lparr>dd_cells := AList.update iface (s @ [addr_Unmap (r_DstAddr r)]) (dd_cells d2)\<rparr>)"
    if "addr_Unmap (r_DstAddr r) \<notin> set s" "length s < distinctDestsPerIfaceCap"
    using that dests_inv_get [OF d2 known] known by (intro dests_inv_put [OF d2]) auto
  with d d2 show "dests_inv (DistinctDests_Observe r d)"
    unfolding DistinctDests_Observe_def Let_def
    by (fold label_def) (fold full_def, fold d1_def iface_def, fold d2_def, fold s_def, auto simp: not_le)
qed

section \<open>Properties\<close>

text \<open>
  The talker ranking loses nothing either: with one source counted, after any sequence of
  observations and snapshots the bytes a snapshot shows for a direction, its remainder
  included, are exactly the bytes of the counted records with a local talker in that direction.
\<close>

theorem talkers_conserve:
  "talkerShown dir (snd (TopTalkers_Snapshot
     (fold talker_step ops (TopTalkers_Configure True primary NewTopTalkers)))) =
   (\<Sum>op\<leftarrow>ops. talker_weight primary dir op)"
proof -
  let ?t0 = "TopTalkers_Configure True primary NewTopTalkers"
  have t0: "talker_inv primary ?t0" "talker_total dir ?t0 = 0"
    by (simp_all add: talker_inv_def TopTalkers_Configure_def NewTopTalkers_def talker_total_def talkerRest_def)
  show ?thesis
    using TopTalkers_Snapshot_spec [OF talkers.run_inv [OF t0(1), of ops], of dir]
      talkers.run_total [where dir = dir, OF t0(1), of ops] t0(2) by simp
qed

text \<open>
  The sender-controlled label sets stay bounded whatever is received: last-seen times for at
  most 256 interfaces, destination sets for at most 512 interfaces and the overflow label, with
  at most 10000 distinct addresses each. A known interface's last-seen time nevertheless always
  moves with the next NetFlow record, and no other source moves it.
\<close>

theorem label_sets_bounded:
  "(let l = fold (\<lambda>(r, now). LastSeen_Observe r now) obs NewLastSeen
    in length l \<le> 256 \<and>
       map_of (LastSeen_Observe rec now l) (interfaceLabel rec) =
         (if r_Source rec = SourceNetflow \<and> interfaceLabel rec \<noteq> [] \<and>
             (if map_of l (interfaceLabel rec) = None then length l < 256 else True)
          then Some now else map_of l (interfaceLabel rec))) \<and>
   (let d = fold DistinctDests_Observe recs NewDistinctDests
    in length (AList.delete OtherLabel (dd_cells d)) \<le> 512 \<and>
       list_all (\<lambda>(label, dests). distinct dests \<and> length dests \<le> 10000) (dd_cells d))"
proof -
  have "lastseen_inv (fold (\<lambda>(r, now). LastSeen_Observe r now) obs NewLastSeen)"
    by (rule lastseen.run_inv) (simp add: lastseen_inv_def NewLastSeen_def)
  moreover have "dests_inv (fold DistinctDests_Observe recs NewDistinctDests)"
    by (rule dests.run_inv) (simp add: dests_inv_def NewDistinctDests_def)
  ultimately show ?thesis
    by (auto simp: Let_def lastseen_inv_def dests_inv_def lastSeenIfaceCap_def list_all_iff
        distinctDestsMaxInterfaces_def distinctDestsPerIfaceCap_def LastSeen_Observe_def map_of_update_conv)
qed

end
