(* ===== verification/Correlator.thy ===== *)
theory Correlator
  imports Rollup
begin

text \<open>
  The correlator (\<^verbatim>\<open>internal/flow/correlate.go\<close>): NetFlow fragments accumulate per conversation
  and window, a Zenarmor connection document of the same key lends its classification, and one
  record per key is emitted when the window expires, the entry is evicted or the process flushes.
  Records handed to \<^verbatim>\<open>emit\<close> are the operations' results, in order. Go's map iteration order, which
  decides the order of the records one expiry emits, is the order of the association list. The
  geolocation enricher, whose merge counter the correlator advances, is threaded through.
\<close>

section \<open>State\<close>

record corrKey =
  ck_community :: string
  ck_bucket :: int

record corrEntry =
  ce_key :: corrKey
  ce_nf :: Counters
  ce_nfMirror :: Counters
  ce_sample :: Record
  ce_mirror :: "Record option"
  ce_fragments :: nat
  ce_start :: time
  ce_end :: time
  ce_firstSeen :: time
  ce_zen :: "Record option"
  ce_hasNF :: bool
  ce_tcpFlags :: u8
  ce_repairs :: Repairs

text \<open>
  The age heap holds pointers to live entries and is compared by arrival time and key, which an
  entry never changes; only its minimum is ever read. It is the list of those pairs in order.
\<close>

type_synonym corrAge = "time \<times> corrKey"

definition corrLess :: "corrAge \<Rightarrow> corrAge \<Rightarrow> bool" where
  "corrLess x y = (case (x, y) of ((tx, kx), (ty, ky)) \<Rightarrow>
     if tx = ty then
       (if ck_bucket kx = ck_bucket ky then ck_community kx < ck_community ky
        else ck_bucket kx < ck_bucket ky)
     else tx < ty)"

record Correlator =
  co_enabled :: bool
  co_window :: duration
  co_maxEntries :: int
  co_cells :: "(corrKey, corrEntry) gomap"
  co_order :: "corrAge list"
  co_entries :: int
  co_emitted :: nat
  co_matched :: nat
  co_evicted :: nat
  co_expired :: nat
  co_enrichmentOverwrites :: nat
  co_fragmentDisagreement :: nat
  co_fragmentMirrored :: nat

record CorrelatorConfig =
  cc_Enabled :: bool
  cc_Window :: duration
  cc_MaxEntries :: int

definition NewCorrelator :: "CorrelatorConfig \<Rightarrow> Correlator" where
  "NewCorrelator cfg = \<lparr>co_enabled = cc_Enabled cfg, co_window = cc_Window cfg, co_maxEntries = cc_MaxEntries cfg,
     co_cells = [], co_order = [], co_entries = 0, co_emitted = 0, co_matched = 0, co_evicted = 0,
     co_expired = 0, co_enrichmentOverwrites = 0, co_fragmentDisagreement = 0, co_fragmentMirrored = 0\<rparr>"

definition newCorrEntry :: "corrKey \<Rightarrow> time \<Rightarrow> corrEntry" where
  "newCorrEntry k t = \<lparr>ce_key = k, ce_nf = Counters_zero, ce_nfMirror = Counters_zero, ce_sample = Record_zero,
     ce_mirror = None, ce_fragments = 0, ce_start = 0, ce_end = 0, ce_firstSeen = t, ce_zen = None,
     ce_hasNF = False, ce_tcpFlags = 0, ce_repairs = Repairs_zero\<rparr>"

definition corrKeyOf :: "Correlator \<Rightarrow> Record \<Rightarrow> corrKey" where
  "corrKeyOf c r = \<lparr>ck_community = r_CommunityID r,
     ck_bucket = (if 0 < co_window c then go_div (UnixNano (r_End r)) (co_window c) else 0)\<rparr>"

definition fragmentsOf :: "Record \<Rightarrow> nat" where
  "fragmentsOf r = (if 0 < r_Fragments r then r_Fragments r else 1)"

section \<open>Choosing and building the emitted record\<close>

definition fragmentDisagrees :: "Record \<Rightarrow> Record \<Rightarrow> bool" where
  "fragmentDisagrees sample r \<longleftrightarrow> r_In sample \<noteq> r_In r \<or> r_Out sample \<noteq> r_Out r \<or>
     r_Direction sample \<noteq> r_Direction r \<or> r_VLANID sample \<noteq> r_VLANID r \<or> r_Enrich sample \<noteq> r_Enrich r"

definition isMirrorOf :: "Record \<Rightarrow> Record \<Rightarrow> bool" where
  "isMirrorOf sample r \<longleftrightarrow>
     addr_Unmap (r_SrcAddr r) = addr_Unmap (r_DstAddr sample) \<and> r_SrcPort r = r_DstPort sample \<and>
     addr_Unmap (r_DstAddr r) = addr_Unmap (r_SrcAddr sample) \<and> r_DstPort r = r_SrcPort sample"

definition localOut :: "Record \<Rightarrow> bool" where
  "localOut r \<longleftrightarrow> en_SrcScope (r_Enrich r) \<noteq> ''remote'' \<and> en_DstScope (r_Enrich r) = ''remote''"

text \<open>Rules 2 to 4 of \<^verbatim>\<open>orientation\<close>.\<close>

definition orientByEvidence :: "Record \<Rightarrow> Record \<Rightarrow> Record \<times> bool" where
  "orientByEvidence a b =
     (if r_Start a < r_Start b then (a, False)
      else if r_Start b < r_Start a then (b, True)
      else if localOut a \<noteq> localOut b then (if localOut a then (a, False) else (b, True))
      else if endpointLess (addr_Unmap (r_SrcAddr a)) (r_SrcPort a) (addr_Unmap (r_DstAddr a)) (r_DstPort a)
      then (a, False) else (b, True))"

definition orientation :: "corrEntry \<Rightarrow> Record \<times> bool" where
  "orientation e =
     (case ce_mirror e of
        None \<Rightarrow> (ce_sample e, False)
      | Some b \<Rightarrow> let a = ce_sample e in
          (case ce_zen e of
             Some z \<Rightarrow>
               if r_Direction z \<noteq> DirectionUnknown \<and> r_Direction a = r_Direction z \<and> r_Direction b \<noteq> r_Direction z
               then (a, False)
               else if r_Direction z \<noteq> DirectionUnknown \<and> r_Direction b = r_Direction z \<and> r_Direction a \<noteq> r_Direction z
               then (b, True)
               else orientByEvidence a b
           | None \<Rightarrow> orientByEvidence a b))"

definition spansWindows :: "Correlator \<Rightarrow> time \<Rightarrow> time \<Rightarrow> bool" where
  "spansWindows c start end' =
     (if co_window c \<le> 0 \<or> time_IsZero start \<or> time_IsZero end' then False
      else go_div (UnixNano start) (co_window c) \<noteq> go_div (UnixNano end') (co_window c))"

text \<open>The NetFlow side of the emitted record.\<close>

definition finalizeNF :: "corrEntry \<Rightarrow> Record" where
  "finalizeNF e =
     (let (out, chosenIsMirror) = orientation e;
          (fwd, rev) = (if chosenIsMirror then (ce_nfMirror e, ce_nf e) else (ce_nf e, ce_nfMirror e))
      in out\<lparr>r_NF := \<lparr>c_TxBytes = c_TxBytes fwd + c_RxBytes fwd, c_RxBytes = c_TxBytes rev + c_RxBytes rev,
                     c_TxPackets = c_TxPackets fwd + c_RxPackets fwd, c_RxPackets = c_TxPackets rev + c_RxPackets rev,
                     c_Present = c_Present (ce_nf e)\<rparr>,
             r_TCPFlags := ce_tcpFlags e, r_Repairs := Repairs_merge (ce_repairs e) (r_Repairs out),
             r_Fragments := ce_fragments e, r_Start := ce_start e, r_End := ce_end e\<rparr>)"

text \<open>The Zenarmor side laid over it.\<close>

definition mergeZen :: "Correlator \<Rightarrow> Record \<Rightarrow> Record \<Rightarrow> GeoEnricher option \<Rightarrow> Record \<times> GeoEnricher option" where
  "mergeZen c z out0 g =
     (let out = out0\<lparr>r_Source := SourceMerged, r_L7 := r_L7 z, r_Verdict := r_Verdict z, r_Zen := r_Zen z\<rparr>;
          out = (if en_DstDomain (r_Enrich out) = []
                 then r_Enrich_update (en_DstDomain_update (\<lambda>_. en_DstDomain (r_Enrich z))) out else out);
          (out, g') = MergeGeo out z g;
          out = r_Repairs_update (\<lambda>p. p\<lparr>rp_ZenBytesArePayload := rp_PayloadByteFallback (r_Repairs z),
                   rp_WindowPartial := spansWindows c (r_Start z) (r_End z)\<rparr>) out
      in (out, g'))"

definition finalize :: "Correlator \<Rightarrow> corrEntry \<Rightarrow> GeoEnricher option \<Rightarrow> Record option \<times> GeoEnricher option" where
  "finalize c e g =
     (if \<not> ce_hasNF e then (None, g)
      else case ce_zen e of
        Some z \<Rightarrow> (let (out, g') = mergeZen c z (finalizeNF e) g in (Some out, g'))
      | None \<Rightarrow> (Some ((finalizeNF e)\<lparr>r_Source := SourceNetflow\<rparr>), g))"

section \<open>Entries leaving\<close>

definition removeEntryLocked :: "corrEntry \<Rightarrow> Correlator \<Rightarrow> Correlator" where
  "removeEntryLocked e c =
     (if map_of (co_cells c) (ce_key e) = None then c
      else c\<lparr>co_cells := AList.delete (ce_key e) (co_cells c),
             co_order := removeAll (ce_firstSeen e, ce_key e) (co_order c),
             co_entries := co_entries c - 1\<rparr>)"

definition countEmitted :: "Record \<Rightarrow> Correlator \<Rightarrow> Correlator" where
  "countEmitted rec c =
     (let c1 = co_emitted_update Suc c in if r_Source rec = SourceMerged then co_matched_update Suc c1 else c1)"

definition evictOldestLocked :: "Correlator \<Rightarrow> GeoEnricher option \<Rightarrow> Record list \<times> Correlator \<times> GeoEnricher option" where
  "evictOldestLocked c g =
     (case co_order c of
        [] \<Rightarrow> ([], c, g)
      | (t, k) # _ \<Rightarrow>
          (case map_of (co_cells c) k of
             None \<Rightarrow> ([], c, g)
           | Some victim \<Rightarrow>
               let c1 = co_evicted_update Suc c;
                   (rec, g') = finalize c1 victim g
               in (case rec of
                     Some rec \<Rightarrow> ([rec], removeEntryLocked victim (countEmitted rec c1), g')
                   | None \<Rightarrow> ([], removeEntryLocked victim c1, g'))))"

section \<open>Observing\<close>

definition makeRoom :: "Correlator \<Rightarrow> GeoEnricher option \<Rightarrow> Record list \<times> Correlator \<times> GeoEnricher option" where
  "makeRoom c g =
     (if 0 < co_maxEntries c \<and> co_maxEntries c \<le> co_entries c then evictOldestLocked c g else ([], c, g))"

definition addEntry :: "corrEntry \<Rightarrow> Correlator \<Rightarrow> Correlator" where
  "addEntry e c = c\<lparr>co_cells := AList.update (ce_key e) e (co_cells c),
     co_order := insert_by corrLess (ce_firstSeen e, ce_key e) (co_order c),
     co_entries := co_entries c + 1\<rparr>"

text \<open>The entry of a key, made first where there is none, at the cost of the oldest when full.\<close>

definition entryFor :: "corrKey \<Rightarrow> time \<Rightarrow> Correlator \<Rightarrow> GeoEnricher option
    \<Rightarrow> corrEntry \<times> Record list \<times> Correlator \<times> GeoEnricher option" where
  "entryFor k t c g =
     (case map_of (co_cells c) k of
        Some e \<Rightarrow> (e, [], c, g)
      | None \<Rightarrow> let (pending, c1, g1) = makeRoom c g; e = newCorrEntry k t in (e, pending, addEntry e c1, g1))"

definition putEntry :: "corrEntry \<Rightarrow> Correlator \<Rightarrow> Correlator" where
  "putEntry e c = c\<lparr>co_cells := AList.update (ce_key e) e (co_cells c)\<rparr>"

text \<open>Placing a fragment: the first is the sample, the first of the other orientation the mirror.\<close>

definition placeFragment :: "Record \<Rightarrow> corrEntry \<Rightarrow> corrEntry" where
  "placeFragment r e =
     (if \<not> ce_hasNF e then e\<lparr>ce_sample := r, ce_start := r_Start r, ce_end := r_End r\<rparr>
      else if isMirrorOf (ce_sample e) r \<and> ce_mirror e = None then e\<lparr>ce_mirror := Some r\<rparr>
      else e)"

definition countFragment :: "Record \<Rightarrow> corrEntry \<Rightarrow> Correlator \<Rightarrow> Correlator" where
  "countFragment r e c =
     (if \<not> ce_hasNF e then c
      else if isMirrorOf (ce_sample e) r then
        (let c1 = co_fragmentMirrored_update Suc c in
         case ce_mirror e of
           None \<Rightarrow> c1
         | Some mi \<Rightarrow> if fragmentDisagrees mi r then co_fragmentDisagreement_update Suc c1 else c1)
      else if fragmentDisagrees (ce_sample e) r then co_fragmentDisagreement_update Suc c
      else c)"

definition addCounters :: "Counters \<Rightarrow> Counters \<Rightarrow> Counters" where
  "addCounters n h = h\<lparr>c_TxBytes := c_TxBytes h + c_TxBytes n, c_RxBytes := c_RxBytes h + c_RxBytes n,
     c_TxPackets := c_TxPackets h + c_TxPackets n, c_RxPackets := c_RxPackets h + c_RxPackets n, c_Present := True\<rparr>"

text \<open>The volume goes to the half that reported it; flags, markers and the time span are joined.\<close>

definition addVolume :: "Record \<Rightarrow> corrEntry \<Rightarrow> corrEntry" where
  "addVolume r e =
     (let e1 = (if ce_mirror e \<noteq> None \<and> isMirrorOf (ce_sample e) r
                then ce_nfMirror_update (addCounters (r_NF r)) e else ce_nf_update (addCounters (r_NF r)) e)
      in e1\<lparr>ce_nf := (ce_nf e1)\<lparr>c_Present := True\<rparr>, ce_hasNF := True, ce_tcpFlags := ce_tcpFlags e1 OR r_TCPFlags r,
            ce_repairs := Repairs_merge (r_Repairs r) (ce_repairs e1),
            ce_fragments := ce_fragments e1 + fragmentsOf r,
            ce_start := (if r_Start r < ce_start e1 then r_Start r else ce_start e1),
            ce_end := (if ce_end e1 < r_End r then r_End r else ce_end e1)\<rparr>)"

definition observeNetflowLocked :: "Record \<Rightarrow> Correlator \<Rightarrow> GeoEnricher option
    \<Rightarrow> Record list \<times> Correlator \<times> GeoEnricher option" where
  "observeNetflowLocked r c g =
     (let (e, pending, c1, g1) = entryFor (corrKeyOf c r) (r_Observed r) c g
      in (pending, putEntry (addVolume r (placeFragment r e)) (countFragment r e c1), g1))"

definition observeZenarmorLocked :: "Record \<Rightarrow> Correlator \<Rightarrow> GeoEnricher option
    \<Rightarrow> Record list \<times> Correlator \<times> GeoEnricher option" where
  "observeZenarmorLocked r c g =
     (let (e, pending, c1, g1) = entryFor (corrKeyOf c r) (r_Observed r) c g;
          c2 = (if ce_zen e \<noteq> None then co_enrichmentOverwrites_update Suc c1 else c1)
      in (pending, putEntry (e\<lparr>ce_zen := Some r\<rparr>) c2, g1))"

definition Correlator_Observe :: "Record \<Rightarrow> Correlator \<Rightarrow> GeoEnricher option
    \<Rightarrow> Record list \<times> Correlator \<times> GeoEnricher option" where
  "Correlator_Observe r c g =
     (if \<not> co_enabled c then
        (if r_Source r = SourceNetflow then ([r], co_emitted_update Suc c, g) else ([], c, g))
      else if r_Source r = SourceNetflow then observeNetflowLocked r c g
      else if r_Source r = SourceZenarmor then observeZenarmorLocked r c g
      else ([], c, g))"

section \<open>Expiring and flushing\<close>

fun expireLoop :: "time \<Rightarrow> corrEntry list \<Rightarrow> Correlator \<Rightarrow> GeoEnricher option
    \<Rightarrow> Record list \<times> Correlator \<times> GeoEnricher option" where
  "expireLoop now [] c g = ([], c, g)"
| "expireLoop now (e # es) c g =
     (if time_Sub now (ce_firstSeen e) < co_window c then expireLoop now es c g
      else
        let (rec, g1) = finalize c e g;
            c1 = (case rec of Some rec \<Rightarrow> co_expired_update Suc (countEmitted rec c) | None \<Rightarrow> c);
            (out, c2, g2) = expireLoop now es (removeEntryLocked e c1) g1
        in ((case rec of Some rec \<Rightarrow> [rec] | None \<Rightarrow> []) @ out, c2, g2))"

definition Correlator_Expire :: "time \<Rightarrow> Correlator \<Rightarrow> GeoEnricher option
    \<Rightarrow> Record list \<times> Correlator \<times> GeoEnricher option" where
  "Correlator_Expire now c g = expireLoop now (map snd (co_cells c)) c g"

fun flushLoop :: "(corrKey \<times> corrEntry) list \<Rightarrow> Correlator \<Rightarrow> GeoEnricher option
    \<Rightarrow> Record list \<times> Correlator \<times> GeoEnricher option" where
  "flushLoop [] c g = ([], c, g)"
| "flushLoop ((k, e) # ps) c g =
     (let (rec, g1) = finalize c e g;
          c1 = (case rec of Some rec \<Rightarrow> countEmitted rec c | None \<Rightarrow> c);
          (out, c2, g2) = flushLoop ps (co_cells_update (AList.delete k) c1) g1
      in ((case rec of Some rec \<Rightarrow> [rec] | None \<Rightarrow> []) @ out, c2, g2))"

definition Correlator_Flush :: "Correlator \<Rightarrow> GeoEnricher option \<Rightarrow> Record list \<times> Correlator \<times> GeoEnricher option" where
  "Correlator_Flush c g =
     (let (out, c1, g1) = flushLoop (co_cells c) c g in (out, c1\<lparr>co_order := [], co_entries := 0\<rparr>, g1))"

record CorrelatorStats =
  cs_Entries :: int
  cs_Emitted :: nat
  cs_Matched :: nat
  cs_Evicted :: nat
  cs_Expired :: nat
  cs_EnrichmentOverwrites :: nat
  cs_FragmentDisagreements :: nat
  cs_FragmentMirrored :: nat

definition Correlator_Stats :: "Correlator \<Rightarrow> CorrelatorStats" where
  "Correlator_Stats c = \<lparr>cs_Entries = co_entries c, cs_Emitted = co_emitted c, cs_Matched = co_matched c,
     cs_Evicted = co_evicted c, cs_Expired = co_expired c, cs_EnrichmentOverwrites = co_enrichmentOverwrites c,
     cs_FragmentDisagreements = co_fragmentDisagreement c, cs_FragmentMirrored = co_fragmentMirrored c\<rparr>"

section \<open>The invariant\<close>

definition ageOf :: "corrKey \<times> corrEntry \<Rightarrow> corrAge" where
  "ageOf p = (ce_firstSeen (snd p), fst p)"

text \<open>An entry without a NetFlow fragment carries no volume.\<close>

definition entry_ok :: "corrKey \<Rightarrow> corrEntry \<Rightarrow> bool" where
  "entry_ok k e \<longleftrightarrow> ce_key e = k \<and> (\<not> ce_hasNF e \<longrightarrow> ce_nf e = Counters_zero \<and> ce_nfMirror e = Counters_zero \<and> ce_mirror e = None)"

definition corr_ok :: "Correlator \<Rightarrow> bool" where
  "corr_ok c \<longleftrightarrow> gomap_wf (co_cells c) \<and> (\<forall>(k, e)\<in>set (co_cells c). entry_ok k e) \<and>
     mset (co_order c) = mset (map ageOf (co_cells c)) \<and> sorted_wrt corrLess (co_order c) \<and>
     co_entries c = int (length (co_cells c)) \<and>
     (0 < co_maxEntries c \<longrightarrow> co_entries c \<le> co_maxEntries c)"

lemma corrKey_ext: "ck_bucket k = ck_bucket k' \<Longrightarrow> ck_community k = ck_community k' \<Longrightarrow> k = (k' :: corrKey)"
  by simp

lemma ranks_corrLess: "ranks corrLess A"
  unfolding ranks_def transp_on_def asymp_on_def totalp_on_def corrLess_def
  by (auto split: prod.splits if_splits intro: corrKey_ext dest: less_trans) 

lemma ages_distinct: "gomap_wf m \<Longrightarrow> distinct (map ageOf m)"
  by (auto simp: gomap_wf_def ageOf_def distinct_map inj_on_def)

lemma ages_delete:
  assumes "gomap_wf m" "map_of m k = Some e"
  shows "mset (map ageOf m) = add_mset (ce_firstSeen e, k) (mset (map ageOf (AList.delete k m)))"
  using assms
proof (induction m)
  case (Cons p m)
  show ?case
  proof (cases "fst p = k")
    case True
    with Cons.prems have "map_of m k = None" by (auto simp: gomap_wf_def map_of_None_iff)
    with True Cons.prems show ?thesis by (cases p) (simp add: ageOf_def)
  next
    case False
    with Cons have "mset (map ageOf m) = add_mset (ce_firstSeen e, k) (mset (map ageOf (AList.delete k m)))"
      by (cases p) (auto simp: gomap_wf_def)
    with False show ?thesis by (cases p) (simp add: add_mset_commute)
  qed
qed simp

lemma ages_update:
  assumes "gomap_wf m" "map_of m k = Some e" "ce_firstSeen e' = ce_firstSeen e"
  shows "map ageOf (AList.update k e' m) = map ageOf m"
  using assms by (simp add: update_map) (auto simp: ageOf_def map_of_mem_wf)

lemma corr_ok_get: "corr_ok c \<Longrightarrow> map_of (co_cells c) k = Some e \<Longrightarrow> entry_ok k e"
  by (auto simp: corr_ok_def dest: map_of_SomeD)

lemma removeEntryLocked_ok:
  assumes ok: "corr_ok c" and e: "map_of (co_cells c) k = Some e"
  shows "corr_ok (removeEntryLocked e c) \<and> co_cells (removeEntryLocked e c) = AList.delete k (co_cells c) \<and>
    co_entries (removeEntryLocked e c) = co_entries c - 1"
proof -
  have k: "ce_key e = k" using corr_ok_get [OF ok e] by (simp add: entry_ok_def)
  have wf: "gomap_wf (co_cells c)" using ok by (simp add: corr_ok_def)
  have m: "mset (co_order c) = add_mset (ce_firstSeen e, k) (mset (map ageOf (AList.delete k (co_cells c))))"
    using ok ages_delete [OF wf e] by (simp add: corr_ok_def)
  have "distinct (co_order c)"
    using ok ages_distinct [OF wf] by (metis corr_ok_def mset_eq_imp_distinct_iff)
  then have "mset (removeAll (ce_firstSeen e, k) (co_order c)) = mset (map ageOf (AList.delete k (co_cells c)))"
    using m by (metis add_mset_remove_trivial distinct_remove1_removeAll mset_remove1)
  moreover have "sorted_wrt corrLess (removeAll (ce_firstSeen e, k) (co_order c))"
    using ok by (simp add: corr_ok_def removeAll_filter_not_eq sorted_wrt_filter)
  moreover have "int (length (AList.delete k (co_cells c))) = co_entries c - 1"
    using length_delete_wf [OF wf e] ok by (simp add: corr_ok_def)
  moreover have "\<forall>(k', e')\<in>set (AList.delete k (co_cells c)). entry_ok k' e'"
    using ok by (auto simp: corr_ok_def set_delete)
  ultimately show ?thesis using ok e k wf by (auto simp: corr_ok_def removeEntryLocked_def)
qed

lemma addEntry_ok:
  assumes ok: "corr_ok c" and new: "map_of (co_cells c) k = None" and e: "entry_ok k e"
    and room: "0 < co_maxEntries c \<Longrightarrow> co_entries c < co_maxEntries c"
  shows "corr_ok (addEntry e c)"
proof -
  have k: "ce_key e = k" using e by (simp add: entry_ok_def)
  have notin: "(ce_firstSeen e, k) \<notin> set (co_order c)"
  proof -
    have "set (co_order c) = set (map ageOf (co_cells c))" using ok by (metis corr_ok_def set_mset_mset)
    then show ?thesis using new by (auto simp: ageOf_def map_of_None_iff rev_image_eqI)
  qed
  have "sorted_wrt corrLess (insert_by corrLess (ce_firstSeen e, k) (co_order c))"
    using sorted_insert_by [OF ranks_corrLess subset_UNIV notin] ok by (simp add: corr_ok_def)
  moreover have "mset (map ageOf (AList.update k e (co_cells c))) = add_mset (ce_firstSeen e, k) (mset (map ageOf (co_cells c)))"
    using new by (simp add: update_new_append ageOf_def)
  moreover have "\<forall>(k', e')\<in>set (AList.update k e (co_cells c)). entry_ok k' e'"
    using ball_update [of "co_cells c" entry_ok k e] ok e by (simp add: corr_ok_def)
  ultimately show ?thesis using ok new room k by (auto simp: corr_ok_def addEntry_def)
qed

lemma putEntry_ok:
  assumes ok: "corr_ok c" and old: "map_of (co_cells c) k = Some e" and e: "entry_ok k e'" "ce_firstSeen e' = ce_firstSeen e"
  shows "corr_ok (putEntry e' c)"
  using assms ball_update [of "co_cells c" entry_ok k e'] ages_update [of "co_cells c" k e e']
  by (auto simp: corr_ok_def putEntry_def entry_ok_def)

section \<open>Volume\<close>

text \<open>Bytes or packets of a pair of counters.\<close>

fun cvol :: "bool \<Rightarrow> Counters \<Rightarrow> u64" where
  "cvol True n = Counters_Bytes n"
| "cvol False n = Counters_Packets n"

definition entryVol :: "bool \<Rightarrow> corrKey \<Rightarrow> corrEntry \<Rightarrow> u64" where
  "entryVol q k e = cvol q (ce_nf e) + cvol q (ce_nfMirror e)"

definition recVol :: "bool \<Rightarrow> Record \<Rightarrow> u64" where
  "recVol q r = cvol q (r_NF r)"

lemma cvol_zero [simp]: "cvol q Counters_zero = 0"
  by (cases q) (simp_all add: Counters_zero_def Counters_Bytes_def Counters_Packets_def)

lemma cvol_add: "cvol q (addCounters n h) = cvol q h + cvol q n"
  by (cases q) (simp_all add: addCounters_def Counters_Bytes_def Counters_Packets_def)

lemma cvol_present [simp]: "cvol q (n\<lparr>c_Present := b\<rparr>) = cvol q n"
  by (cases q) (simp_all add: Counters_Bytes_def Counters_Packets_def)

lemma MergeGeo_keeps: "r_NF (fst (MergeGeo a b g)) = r_NF a" "r_Source (fst (MergeGeo a b g)) = r_Source a"
  by (simp_all add: MergeGeo_def)

lemma finalizeNF_vol: "recVol q (finalizeNF e) = entryVol q k e"
  by (cases q) (simp_all add: finalizeNF_def recVol_def entryVol_def Counters_Bytes_def Counters_Packets_def
      Let_def split_beta algebra_simps)

lemma finalize_vol:
  assumes "finalize c e g = (ro, g')" "entry_ok k e"
  shows "(case ro of Some rec \<Rightarrow> recVol q rec | None \<Rightarrow> 0) = entryVol q k e"
proof -
  have "recVol q (fst (mergeZen c z (finalizeNF e) g)) = entryVol q k e" for z
    using finalizeNF_vol [of q e k] by (simp add: mergeZen_def recVol_def MergeGeo_keeps Let_def split_beta)
  moreover have "recVol q ((finalizeNF e)\<lparr>r_Source := s\<rparr>) = entryVol q k e" for s
    using finalizeNF_vol [of q e k] by (simp add: recVol_def)
  moreover have "entryVol q k e = 0" if "\<not> ce_hasNF e"
    using assms(2) that by (simp add: entry_ok_def entryVol_def)
  ultimately show ?thesis using assms(1)
    by (auto simp: finalize_def split_beta split: if_splits option.splits)
qed

lemma addVolume_vol: "entryVol q k (addVolume r e) = entryVol q k e + recVol q r"
  by (simp add: addVolume_def entryVol_def recVol_def cvol_add Let_def)

lemma placeFragment_vol [simp]: "entryVol q k (placeFragment r e) = entryVol q k e"
  by (simp add: placeFragment_def entryVol_def)

lemma addVolume_ok: "entry_ok k e \<Longrightarrow> entry_ok k (addVolume r (placeFragment r e))"
  by (simp add: entry_ok_def addVolume_def placeFragment_def Let_def)

lemma addVolume_firstSeen [simp]: "ce_firstSeen (addVolume r (placeFragment r e)) = ce_firstSeen e"
  by (simp add: addVolume_def placeFragment_def Let_def)

definition held :: "bool \<Rightarrow> Correlator \<Rightarrow> u64" where
  "held q c = msum (entryVol q) (co_cells c)"

definition emittedVol :: "bool \<Rightarrow> Record list \<Rightarrow> u64" where
  "emittedVol q rs = (\<Sum>r\<leftarrow>rs. recVol q r)"

lemma emittedVol_append [simp]: "emittedVol q (xs @ ys) = emittedVol q xs + emittedVol q ys" "emittedVol q [] = 0"
  "emittedVol q (x # xs) = recVol q x + emittedVol q xs"
  by (simp_all add: emittedVol_def)

section \<open>The operations\<close>

text \<open>What an operation that emits \<open>out\<close> and brings in the volume \<open>w\<close> keeps.\<close>

definition corr_step :: "bool \<Rightarrow> u64 \<Rightarrow> Correlator \<Rightarrow> Record list \<Rightarrow> Correlator \<Rightarrow> bool" where
  "corr_step q w c out c' \<longleftrightarrow> corr_ok c' \<and> emittedVol q out + held q c' = held q c + w \<and>
     co_emitted c' = co_emitted c + length out \<and>
     co_matched c' = co_matched c + length (filter (\<lambda>r. r_Source r = SourceMerged) out) \<and>
     co_enabled c' = co_enabled c \<and> co_window c' = co_window c \<and> co_maxEntries c' = co_maxEntries c"

lemma corr_step_trans:
  assumes "corr_step q w c out c'" "corr_step q w' c' out' c''"
  shows "corr_step q (w + w') c (out @ out') c''"
proof -
  have "emittedVol q out + (emittedVol q out' + held q c'') = emittedVol q out + (held q c' + w')"
    using assms(2) by (simp add: corr_step_def)
  also have "\<dots> = held q c + (w + w')" using assms(1) by (simp add: corr_step_def flip: add.assoc)
  finally show ?thesis using assms by (simp add: corr_step_def add.assoc)
qed

lemma corr_step_refl: "corr_ok c \<Longrightarrow> corr_step q 0 c [] c"
  by (simp add: corr_step_def)

text \<open>An entry leaves: its record, if it has one, is emitted and counted.\<close>

definition leave :: "Record option \<Rightarrow> corrEntry \<Rightarrow> Correlator \<Rightarrow> Correlator" where
  "leave ro e c = removeEntryLocked e (case ro of Some rec \<Rightarrow> countEmitted rec c | None \<Rightarrow> c)"

lemma corr_ok_counters [simp]:
  "corr_ok (co_emitted_update f c) = corr_ok c" "corr_ok (co_matched_update f c) = corr_ok c"
  "corr_ok (co_evicted_update f c) = corr_ok c" "corr_ok (co_expired_update f c) = corr_ok c"
  "corr_ok (co_enrichmentOverwrites_update f c) = corr_ok c" "corr_ok (co_fragmentDisagreement_update f c) = corr_ok c"
  "corr_ok (co_fragmentMirrored_update f c) = corr_ok c" "corr_ok (countEmitted rec c) = corr_ok c"
  by (simp_all add: corr_ok_def countEmitted_def Let_def)

lemma countEmitted_frame [simp]: "co_cells (countEmitted rec c) = co_cells c"
  "co_emitted (countEmitted rec c) = Suc (co_emitted c)"
  "co_matched (countEmitted rec c) = co_matched c + (if r_Source rec = SourceMerged then 1 else 0)"
  "co_enabled (countEmitted rec c) = co_enabled c" "co_window (countEmitted rec c) = co_window c"
  "co_maxEntries (countEmitted rec c) = co_maxEntries c" "co_entries (countEmitted rec c) = co_entries c"
  by (simp_all add: countEmitted_def Let_def)

lemma removeEntryLocked_frame [simp]: "co_emitted (removeEntryLocked e c) = co_emitted c"
  "co_matched (removeEntryLocked e c) = co_matched c" "co_enabled (removeEntryLocked e c) = co_enabled c"
  "co_window (removeEntryLocked e c) = co_window c" "co_maxEntries (removeEntryLocked e c) = co_maxEntries c"
  by (simp_all add: removeEntryLocked_def)

lemma leave_step:
  assumes ok: "corr_ok c" and e: "map_of (co_cells c) k = Some e" and f: "finalize c' e g = (ro, g')"
  shows "corr_step q 0 c (case ro of Some rec \<Rightarrow> [rec] | None \<Rightarrow> []) (leave ro e c)"
proof -
  let ?c = "case ro of Some rec \<Rightarrow> countEmitted rec c | None \<Rightarrow> c"
  have "corr_ok ?c" "map_of (co_cells ?c) k = Some e" using ok e by (simp_all split: option.split)
  note r = removeEntryLocked_ok [OF this]
  have v: "(case ro of Some rec \<Rightarrow> recVol q rec | None \<Rightarrow> 0) = entryVol q k e"
    using finalize_vol [OF f corr_ok_get [OF ok e]] .
  have "msum (entryVol q) (AList.delete k (co_cells c)) + entryVol q k e = held q c"
    unfolding held_def using ok e by (intro msum_delete) (simp_all add: corr_ok_def)
  with r v show ?thesis
    by (auto simp: corr_step_def leave_def held_def add.commute split: option.splits)
qed

lemma finalize_counters [simp]: "finalize (co_evicted_update f c) e g = finalize c e g"
  by (simp add: finalize_def mergeZen_def spansWindows_def split: option.split)

lemma corr_step_evicted [simp]:
  "corr_step q w (co_evicted_update f c) out c' = corr_step q w c out c'"
  by (simp add: corr_step_def held_def)

lemma evict_step:
  assumes ok: "corr_ok c" and ne: "co_cells c \<noteq> []" and ev: "evictOldestLocked c g = (out, c', g')"
  shows "corr_step q 0 c out c' \<and> co_entries c' = co_entries c - 1 \<and>
    (\<exists>k. co_cells c' = AList.delete k (co_cells c))"
proof -
  have "co_order c \<noteq> []" using ok ne by (auto simp: corr_ok_def)
  then obtain t k os where o': "co_order c = (t, k) # os" by (metis neq_Nil_conv surj_pair)
  have "set (co_order c) = set (map ageOf (co_cells c))" using ok by (metis corr_ok_def set_mset_mset)
  then have "(t, k) \<in> ageOf ` set (co_cells c)" using o' by (metis list.set_intros(1) list.set_map)
  then obtain p where "p \<in> set (co_cells c)" "k = fst p" by (auto simp: ageOf_def)
  then obtain v where v: "map_of (co_cells c) k = Some v"
    using ok map_of_mem_wf [of "co_cells c" k "snd p"] by (auto simp: corr_ok_def)
  let ?c = "co_evicted_update Suc c"
  have okE: "corr_ok ?c" and vE: "map_of (co_cells ?c) k = Some v" using ok v by simp_all
  obtain ro g1 where f: "finalize c v g = (ro, g1)" by fastforce
  have r: "out = (case ro of Some rec \<Rightarrow> [rec] | None \<Rightarrow> [])" "c' = leave ro v ?c"
    using ev o' v f by (auto simp: evictOldestLocked_def leave_def Let_def split: option.splits)
  let ?d = "case ro of Some rec \<Rightarrow> countEmitted rec ?c | None \<Rightarrow> ?c"
  have "corr_ok ?d" "map_of (co_cells ?d) k = Some v" using okE vE by (simp_all split: option.split)
  note rm = removeEntryLocked_ok [OF this]
  have "co_cells ?d = co_cells c" "co_entries ?d = co_entries c" by (simp_all split: option.split)
  then show ?thesis using leave_step [OF okE vE f, of q] r rm by (auto simp: leave_def)
qed

lemma makeRoom_step:
  assumes ok: "corr_ok c" and mr: "makeRoom c g = (out, c', g')"
  shows "corr_step q 0 c out c' \<and> (0 < co_maxEntries c' \<longrightarrow> co_entries c' < co_maxEntries c') \<and>
    (map_of (co_cells c) k = None \<longrightarrow> map_of (co_cells c') k = None)"
proof (cases "0 < co_maxEntries c \<and> co_maxEntries c \<le> co_entries c")
  case True
  then have ne: "co_cells c \<noteq> []" using ok by (auto simp: corr_ok_def)
  have "evictOldestLocked c g = (out, c', g')" using True mr by (simp add: makeRoom_def)
  from evict_step [OF ok ne this, of q] True ok show ?thesis
    by (auto simp: corr_step_def corr_ok_def map_of_delete_conv)
next
  case False
  then show ?thesis using mr ok corr_step_refl by (auto simp: makeRoom_def)
qed

lemma entryFor_step:
  assumes ok: "corr_ok c" and ef: "entryFor k t c g = (e, out, c', g')"
  shows "corr_step q 0 c out c' \<and> map_of (co_cells c') k = Some e \<and> entry_ok k e"
proof (cases "map_of (co_cells c) k")
  case (Some e1)
  then show ?thesis using ef ok corr_step_refl corr_ok_get by (auto simp: entryFor_def)
next
  case None
  obtain pend c1 g1 where mr: "makeRoom c g = (pend, c1, g1)" by (metis prod_cases3)
  note r = makeRoom_step [OF ok mr, of q k]
  have e: "e = newCorrEntry k t" "out = pend" "c' = addEntry e c1"
    using ef None mr by (auto simp: entryFor_def Let_def)
  have eo: "entry_ok k e" "entryVol q k e = 0" by (simp_all add: e(1) newCorrEntry_def entry_ok_def entryVol_def)
  have c1: "corr_ok c1" "map_of (co_cells c1) k = None" using r None by (auto simp: corr_step_def)
  have "corr_ok c'" unfolding e(3) using addEntry_ok [OF c1 eo(1)] r by auto
  moreover have "held q c' = held q c1"
    using msum_update_new [OF c1(2), of "entryVol q" e] eo by (simp add: held_def e(3) addEntry_def entry_ok_def)
  ultimately have "corr_step q 0 c1 [] c'" by (simp add: corr_step_def e(3) addEntry_def)
  from corr_step_trans [OF conjunct1 [OF r] this] show ?thesis
    using e eo by (simp add: addEntry_def map_of_update_conv entry_ok_def)
qed

lemma countFragment_frame [simp]:
  "co_cells (countFragment r e c) = co_cells c" "corr_ok (countFragment r e c) = corr_ok c"
  "held q (countFragment r e c) = held q c"
  "corr_step q w c' out (putEntry e' (countFragment r e c)) = corr_step q w c' out (putEntry e' c)"
  by (auto simp: countFragment_def Let_def held_def corr_step_def putEntry_def corr_ok_def split: option.split)

lemma putEntry_step:
  assumes ok: "corr_ok c" and old: "map_of (co_cells c) k = Some e" and e: "entry_ok k e'" "ce_firstSeen e' = ce_firstSeen e"
    and v: "entryVol q k e' = entryVol q k e + w"
  shows "corr_step q w c [] (putEntry e' c)"
proof -
  have "msum (entryVol q) (AList.update k e' (co_cells c)) + entryVol q k e = held q c + entryVol q k e'"
    unfolding held_def using ok old by (intro msum_update_old) (simp_all add: corr_ok_def)
  then have "held q (putEntry e' c) = held q c + w"
    using v e(1) by (simp add: held_def putEntry_def entry_ok_def algebra_simps)
  then show ?thesis using putEntry_ok [OF ok old e] by (simp add: corr_step_def) (simp add: putEntry_def)
qed

lemma observeNetflow_step:
  assumes ok: "corr_ok c" and ob: "observeNetflowLocked r c g = (out, c', g')"
  shows "corr_step q (recVol q r) c out c'"
proof -
  obtain e pend c1 g1 where ef: "entryFor (corrKeyOf c r) (r_Observed r) c g = (e, pend, c1, g1)" by (metis prod_cases4)
  note s = entryFor_step [OF ok ef, of q]
  let ?e = "addVolume r (placeFragment r e)"
  have "corr_step q (recVol q r) c1 [] (putEntry ?e c1)"
    by (rule putEntry_step [of c1 "corrKeyOf c r" e]) (use s in \<open>auto simp: corr_step_def addVolume_ok addVolume_vol\<close>)
  from corr_step_trans [OF conjunct1 [OF s] this] show ?thesis
    using ob ef by (auto simp: observeNetflowLocked_def)
qed

lemma observeZenarmor_step:
  assumes ok: "corr_ok c" and ob: "observeZenarmorLocked r c g = (out, c', g')"
  shows "corr_step q 0 c out c'"
proof -
  obtain e pend c1 g1 where ef: "entryFor (corrKeyOf c r) (r_Observed r) c g = (e, pend, c1, g1)" by (metis prod_cases4)
  note s = entryFor_step [OF ok ef, of q]
  let ?e = "e\<lparr>ce_zen := Some r\<rparr>"
  have "corr_step q 0 c1 [] (putEntry ?e c1)"
    by (rule putEntry_step [of c1 "corrKeyOf c r" e]) (use s in \<open>auto simp: corr_step_def entry_ok_def entryVol_def\<close>)
  from corr_step_trans [OF conjunct1 [OF s] this] have "corr_step q 0 c pend (putEntry ?e c1)" by simp
  then show ?thesis
    using ob ef by (auto simp: observeZenarmorLocked_def Let_def corr_step_def putEntry_def held_def corr_ok_def split: if_splits)
qed

lemma expired_later:
  "removeEntryLocked e (co_expired_update h c) = co_expired_update h (removeEntryLocked e c)"
  "corr_step q w c' out (co_expired_update h c) = corr_step q w c' out c"
  by (simp_all add: removeEntryLocked_def corr_step_def held_def)

text \<open>The due entries of an expiry are the entries of the map, each met once.\<close>

lemma expireLoop_step:
  assumes "corr_ok c" "\<forall>e\<in>set es. map_of (co_cells c) (ce_key e) = Some e" "distinct (map ce_key es)"
    "expireLoop now es c g = (out, c', g')"
  shows "corr_step q 0 c out c' \<and> set (co_cells c') \<subseteq> set (co_cells c) \<and>
    (\<forall>e\<in>set es. time_Sub now (ce_firstSeen e) < co_window c \<or> map_of (co_cells c') (ce_key e) = None)"
  using assms
proof (induction es arbitrary: c g out c' g')
  case Nil
  then show ?case using corr_step_refl by auto
next
  case (Cons e es)
  show ?case
  proof (cases "time_Sub now (ce_firstSeen e) < co_window c")
    case True
    then show ?thesis using Cons.IH [OF Cons.prems(1), of g out c' g'] Cons.prems by auto
  next
    case False
    obtain ro g1 where f: "finalize c e g = (ro, g1)" by fastforce
    let ?c = "case ro of Some rec \<Rightarrow> co_expired_update Suc (countEmitted rec c) | None \<Rightarrow> c"
    let ?c1 = "removeEntryLocked e ?c"
    obtain out2 c2 g2 where l: "expireLoop now es ?c1 g1 = (out2, c2, g2)" by (metis prod_cases3)
    have res: "out = (case ro of Some rec \<Rightarrow> [rec] | None \<Rightarrow> []) @ out2" "c' = c2"
      using Cons.prems(4) False f l by (auto split: option.splits)
    have get: "map_of (co_cells c) (ce_key e) = Some e" using Cons.prems(2) by simp
    have "corr_ok ?c" "map_of (co_cells ?c) (ce_key e) = Some e" using Cons.prems(1) get by (simp_all split: option.split)
    note rm = removeEntryLocked_ok [OF this]
    have cells: "co_cells ?c1 = AList.delete (ce_key e) (co_cells c)" using rm by (simp split: option.split)
    have st: "corr_step q 0 c (case ro of Some rec \<Rightarrow> [rec] | None \<Rightarrow> []) ?c1"
      using leave_step [OF Cons.prems(1) get f, of q] by (cases ro) (simp_all add: leave_def expired_later)
    have "\<forall>x\<in>set es. map_of (co_cells ?c1) (ce_key x) = Some x"
    proof
      fix x assume x: "x \<in> set es"
      then have "ce_key x \<noteq> ce_key e" using Cons.prems(3) by (metis distinct.simps(2) image_eqI list.set_map list.simps(9))
      moreover have "map_of (co_cells c) (ce_key x) = Some x" using Cons.prems(2) x by simp
      ultimately show "map_of (co_cells ?c1) (ce_key x) = Some x" unfolding cells by (simp add: map_of_delete_conv)
    qed
    from Cons.IH [OF _ this _ l] rm Cons.prems(3)
    have IH: "corr_step q 0 ?c1 out2 c2" "set (co_cells c2) \<subseteq> set (co_cells ?c1)"
      "\<forall>x\<in>set es. time_Sub now (ce_firstSeen x) < co_window ?c1 \<or> map_of (co_cells c2) (ce_key x) = None" by simp_all
    have sub: "set (co_cells c2) \<subseteq> set (AList.delete (ce_key e) (co_cells c))" using IH(2) cells by simp
    then have gone: "map_of (co_cells c2) (ce_key e) = None" by (auto simp: map_of_None_iff set_delete)
    have "co_window ?c1 = co_window c" by (simp split: option.split)
    with IH(3) have "\<forall>x\<in>set es. time_Sub now (ce_firstSeen x) < co_window c \<or> map_of (co_cells c2) (ce_key x) = None" by simp
    moreover have "corr_step q 0 c out c'" using corr_step_trans [OF st IH(1)] res by simp
    moreover have "set (co_cells c2) \<subseteq> set (co_cells c)" using sub by (simp add: set_delete) blast
    ultimately show ?thesis using gone res(2) by simp
  qed
qed

lemma Expire_step:
  assumes ok: "corr_ok c" and ex: "Correlator_Expire now c g = (out, c', g')"
  shows "corr_step q 0 c out c' \<and> (\<forall>(k, e)\<in>set (co_cells c'). time_Sub now (ce_firstSeen e) < co_window c')"
proof -
  have wf: "gomap_wf (co_cells c)" and ent: "\<forall>(k, e)\<in>set (co_cells c). entry_ok k e" using ok by (auto simp: corr_ok_def)
  have keys: "map ce_key (map snd (co_cells c)) = map fst (co_cells c)" using ent by (auto simp: entry_ok_def)
  have get: "\<forall>e\<in>set (map snd (co_cells c)). map_of (co_cells c) (ce_key e) = Some e"
    using ent wf map_of_mem_wf by (fastforce simp: entry_ok_def)
  have d: "distinct (map ce_key (map snd (co_cells c)))" unfolding keys using wf by (simp add: gomap_wf_def)
  have l: "corr_step q 0 c out c' \<and> set (co_cells c') \<subseteq> set (co_cells c) \<and>
      (\<forall>e\<in>set (map snd (co_cells c)). time_Sub now (ce_firstSeen e) < co_window c \<or> map_of (co_cells c') (ce_key e) = None)"
    by (rule expireLoop_step [OF ok get d]) (use ex in \<open>simp add: Correlator_Expire_def\<close>)
  have "time_Sub now (ce_firstSeen e) < co_window c'" if p: "(k, e) \<in> set (co_cells c')" for k e
  proof -
    have "corr_ok c'" using l by (simp add: corr_step_def)
    then have "map_of (co_cells c') k = Some e" using p by (simp add: corr_ok_def map_of_mem_wf)
    moreover have "ce_key e = k" "e \<in> set (map snd (co_cells c))" using p l ent by (force simp: entry_ok_def)+
    ultimately show ?thesis using l by (auto simp: corr_step_def)
  qed
  then show ?thesis using l by auto
qed

lemma flushLoop_spec:
  assumes "\<forall>(k, e)\<in>set ps. entry_ok k e" "flushLoop ps c g = (out, c', g')"
  shows "emittedVol q out = msum (entryVol q) ps \<and> co_emitted c' = co_emitted c + length out \<and>
    co_matched c' = co_matched c + length (filter (\<lambda>r. r_Source r = SourceMerged) out) \<and>
    co_enabled c' = co_enabled c \<and> co_window c' = co_window c \<and> co_maxEntries c' = co_maxEntries c \<and>
    set (co_cells c') = {p \<in> set (co_cells c). fst p \<notin> fst ` set ps}"
  using assms
proof (induction ps arbitrary: c g out c' g')
  case (Cons p ps)
  obtain k e where p: "p = (k, e)" by fastforce
  obtain ro g1 where f: "finalize c e g = (ro, g1)" by fastforce
  let ?c = "case ro of Some rec \<Rightarrow> countEmitted rec c | None \<Rightarrow> c"
  obtain out2 c2 g2 where l: "flushLoop ps (co_cells_update (AList.delete k) ?c) g1 = (out2, c2, g2)" by (metis prod_cases3)
  have res: "out = (case ro of Some rec \<Rightarrow> [rec] | None \<Rightarrow> []) @ out2" "c' = c2"
    using Cons.prems(2) p f l by auto
  have v: "(case ro of Some rec \<Rightarrow> recVol q rec | None \<Rightarrow> 0) = entryVol q k e"
    using finalize_vol [OF f, of k q] Cons.prems(1) p by auto
  from Cons.IH [OF _ l] Cons.prems(1)
  have IH: "emittedVol q out2 = msum (entryVol q) ps \<and> co_emitted c2 = co_emitted ?c + length out2 \<and>
    co_matched c2 = co_matched ?c + length (filter (\<lambda>r. r_Source r = SourceMerged) out2) \<and>
    co_enabled c2 = co_enabled ?c \<and> co_window c2 = co_window ?c \<and> co_maxEntries c2 = co_maxEntries ?c \<and>
    set (co_cells c2) = {x \<in> set (AList.delete k (co_cells ?c)). fst x \<notin> fst ` set ps}" by auto
  show ?case using IH res v p by (auto simp: set_delete split: option.splits)
qed auto

lemma Flush_step:
  assumes ok: "corr_ok c" and fl: "Correlator_Flush c g = (out, c', g')"
  shows "corr_step q 0 c out c' \<and> co_cells c' = []"
proof -
  obtain out1 c1 g1 where l: "flushLoop (co_cells c) c g = (out1, c1, g1)" by (metis prod_cases3)
  have "\<forall>(k, e)\<in>set (co_cells c). entry_ok k e" using ok by (simp add: corr_ok_def)
  note s = flushLoop_spec [OF this l, of q]
  have "co_cells c1 = []" using s by (auto simp flip: set_empty)
  then show ?thesis using fl l s by (auto simp: Correlator_Flush_def corr_step_def corr_ok_def held_def)
qed

section \<open>Histories\<close>

datatype corrOp = CObserve Record | CExpire time | CFlush

text \<open>The state of a history: the records emitted so far, the correlator and the enricher.\<close>

type_synonym corrRun = "Record list \<times> Correlator \<times> GeoEnricher option"

fun corrStep :: "corrOp \<Rightarrow> corrRun \<Rightarrow> corrRun" where
  "corrStep (CObserve r) (log, c, g) = (case Correlator_Observe r c g of (out, c', g') \<Rightarrow> (log @ out, c', g'))"
| "corrStep (CExpire now) (log, c, g) = (case Correlator_Expire now c g of (out, c', g') \<Rightarrow> (log @ out, c', g'))"
| "corrStep CFlush (log, c, g) = (case Correlator_Flush c g of (out, c', g') \<Rightarrow> (log @ out, c', g'))"

fun corrWeight :: "bool \<Rightarrow> corrOp \<Rightarrow> u64" where
  "corrWeight q (CObserve r) = (if r_Source r = SourceNetflow then recVol q r else 0)"
| "corrWeight q _ = 0"

definition corrTotal :: "bool \<Rightarrow> corrRun \<Rightarrow> u64" where
  "corrTotal q s = (case s of (log, c, g) \<Rightarrow> emittedVol q log + held q c)"

definition corrInv :: "corrRun \<Rightarrow> bool" where
  "corrInv s \<longleftrightarrow> (case s of (log, c, g) \<Rightarrow> corr_ok c \<and> co_emitted c = length log \<and>
     co_matched c = length (filter (\<lambda>r. r_Source r = SourceMerged) log))"

lemma Observe_step:
  assumes ok: "corr_ok c" and ob: "Correlator_Observe r c g = (out, c', g')"
  shows "corr_step q (corrWeight q (CObserve r)) c out c'"
  using ob observeNetflow_step [OF ok, of r g out c' g' q] observeZenarmor_step [OF ok, of r g out c' g' q]
    corr_step_refl [OF ok, of q] ok
  by (auto simp: Correlator_Observe_def corr_step_def held_def split: if_splits)

lemma corrStep_spec:
  assumes "corrInv s" shows "corrInv (corrStep op s) \<and> corrTotal q (corrStep op s) = corrTotal q s + corrWeight q op"
proof -
  obtain log c g where s: "s = (log, c, g)" by (metis prod_cases3)
  have ok: "corr_ok c" using assms s by (simp add: corrInv_def)
  obtain out c' g' where st: "corrStep op s = (log @ out, c', g')" "corr_step q (corrWeight q op) c out c'"
  proof (cases op)
    case (CObserve r)
    obtain out c' g' where "Correlator_Observe r c g = (out, c', g')" by (metis prod_cases3)
    with CObserve s that Observe_step [OF ok this, of q] show ?thesis by simp
  next
    case (CExpire now)
    obtain out c' g' where "Correlator_Expire now c g = (out, c', g')" by (metis prod_cases3)
    with CExpire s that Expire_step [OF ok this, of q] show ?thesis by simp
  next
    case CFlush
    obtain out c' g' where "Correlator_Flush c g = (out, c', g')" by (metis prod_cases3)
    with CFlush s that Flush_step [OF ok this, of q] show ?thesis by simp
  qed
  from st show ?thesis using assms unfolding s
    by (simp add: corrInv_def corrTotal_def corr_step_def add.assoc)
qed

interpretation corr: conserving corrInv corrStep "corrTotal q" "corrWeight q" for q
  by unfold_locales (use corrStep_spec in auto)

definition corrRunOf :: "CorrelatorConfig \<Rightarrow> GeoEnricher option \<Rightarrow> corrOp list \<Rightarrow> corrRun" where
  "corrRunOf cfg g ops = fold corrStep ops ([], NewCorrelator cfg, g)"

lemma corrInv_New: "corrInv ([], NewCorrelator cfg, g)"
  by (simp add: corrInv_def NewCorrelator_def corr_ok_def)

lemma corrRunOf_inv: "corrInv (corrRunOf cfg g ops)"
  unfolding corrRunOf_def by (rule corr.run_inv [OF corrInv_New])

text \<open>
  (C12) The correlator loses no volume: over any history of NetFlow fragments, Zenarmor documents,
  expiries and flushes, the bytes and packets of the records emitted together with those still
  accumulating are exactly those of the NetFlow records observed, and a flush leaves nothing
  accumulating. The published counters of emitted and of merged records are the numbers of
  records emitted.
\<close>

theorem correlator_conserves:
  "case corrRunOf cfg g ops of (log, c, g') \<Rightarrow>
     (\<Sum>r\<leftarrow>log. recVol q r) + (\<Sum>(k, e)\<leftarrow>co_cells c. entryVol q k e) =
       (\<Sum>op\<leftarrow>ops. case op of CObserve r \<Rightarrow> if r_Source r = SourceNetflow then recVol q r else 0 | _ \<Rightarrow> 0) \<and>
     co_cells (fst (snd (Correlator_Flush c g'))) = [] \<and>
     cs_Emitted (Correlator_Stats c) = length log \<and>
     cs_Matched (Correlator_Stats c) = length (filter (\<lambda>r. r_Source r = SourceMerged) log)"
proof -
  obtain log c g' where r: "corrRunOf cfg g ops = (log, c, g')" by (metis prod_cases3)
  have w: "corrWeight q = (\<lambda>op. case op of CObserve r \<Rightarrow> if r_Source r = SourceNetflow then recVol q r else 0 | _ \<Rightarrow> 0)"
    by (auto split: corrOp.split)
  have "corrTotal q (log, c, g') = (\<Sum>op\<leftarrow>ops. corrWeight q op)"
    using corr.run_total [OF corrInv_New, of q ops cfg g] r
    by (simp add: corrRunOf_def) (simp add: corrTotal_def held_def NewCorrelator_def)
  moreover have inv: "corrInv (log, c, g')" using corrRunOf_inv r by metis
  moreover obtain out c2 g2 where f: "Correlator_Flush c g' = (out, c2, g2)" by (metis prod_cases3)
  ultimately show ?thesis using Flush_step [OF _ f] unfolding r
    by (simp add: corrTotal_def w emittedVol_def held_def msum_def corrInv_def Correlator_Stats_def)
qed

text \<open>
  The accumulator is bounded and punctual: with a positive cap it never holds more entries than
  the cap, the tracked count it publishes is always the number of entries, and after an expiry no
  entry older than the window is left waiting.
\<close>

theorem correlator_bounded:
  assumes "corrRunOf cfg g ops = (log, c, g')" "0 < cc_MaxEntries cfg"
  shows "int (length (co_cells c)) \<le> cc_MaxEntries cfg \<and> cs_Entries (Correlator_Stats c) = int (length (co_cells c)) \<and>
     list_all (\<lambda>(k, e). time_Sub now (ce_firstSeen e) < cc_Window cfg) (co_cells (fst (snd (Correlator_Expire now c g'))))"
proof -
  have "co_maxEntries (fst (snd (corrStep op s))) = co_maxEntries (fst (snd s)) \<and>
      co_window (fst (snd (corrStep op s))) = co_window (fst (snd s))" if "corrInv s" for op s
  proof -
    obtain lg d h where s: "s = (lg, d, h)" by (metis prod_cases3)
    have ok: "corr_ok d" using that s by (simp add: corrInv_def)
    show ?thesis using s Observe_step [OF ok] Expire_step [OF ok] Flush_step [OF ok]
      by (cases op) (auto simp: corr_step_def split: prod.split)
  qed
  then have "corrInv s \<Longrightarrow> co_maxEntries (fst (snd (fold corrStep ops s))) = co_maxEntries (fst (snd s)) \<and>
      co_window (fst (snd (fold corrStep ops s))) = co_window (fst (snd s))" for s
    by (induction ops arbitrary: s) (auto simp: corr.step_inv)
  from this [OF corrInv_New, of cfg g] assms(1)
  have lim: "co_maxEntries c = cc_MaxEntries cfg" "co_window c = cc_Window cfg"
    by (simp_all add: corrRunOf_def) (simp_all add: NewCorrelator_def)
  have ok: "corr_ok c" using corrRunOf_inv [of cfg g ops] assms(1) by (simp add: corrInv_def)
  obtain out c2 g2 where e: "Correlator_Expire now c g' = (out, c2, g2)" by (metis prod_cases3)
  have "co_window c2 = co_window c" using Expire_step [OF ok e, of True] by (simp add: corr_step_def)
  then show ?thesis using ok assms(2) lim Expire_step [OF ok e, of True]
    by (auto simp: corr_ok_def Correlator_Stats_def e list_all_iff)
qed

theorem correlator_bounded_witness:
  "int (length (co_cells (fst (snd (corrRunOf \<lparr>cc_Enabled = True, cc_Window = 10, cc_MaxEntries = 1\<rparr> None
     [CObserve (Record_zero\<lparr>r_Source := SourceNetflow\<rparr>),
      CObserve (Record_zero\<lparr>r_Source := SourceNetflow, r_CommunityID := ''x''\<rparr>)]))))) \<le> 1"
proof -
  let ?cfg = "\<lparr>cc_Enabled = True, cc_Window = 10, cc_MaxEntries = 1\<rparr>"
  let ?ops = "[CObserve (Record_zero\<lparr>r_Source := SourceNetflow\<rparr>),
      CObserve (Record_zero\<lparr>r_Source := SourceNetflow, r_CommunityID := ''x''\<rparr>)]"
  obtain log c g' where r: "corrRunOf ?cfg None ?ops = (log, c, g')" by (metis prod_cases3)
  from correlator_bounded [OF r, of 0] show ?thesis unfolding r by simp
qed

section \<open>Order of the two halves\<close>

text \<open>An entry with its two halves exchanged.\<close>

definition swapHalves :: "corrEntry \<Rightarrow> corrEntry" where
  "swapHalves e = e\<lparr>ce_sample := the (ce_mirror e), ce_mirror := Some (ce_sample e),
     ce_nf := (ce_nfMirror e)\<lparr>c_Present := c_Present (ce_nf e)\<rparr>, ce_nfMirror := ce_nf e\<rparr>"

lemma isMirrorOf_ends: "isMirrorOf a b \<longleftrightarrow> srcEnd b = dstEnd a \<and> dstEnd b = srcEnd a"
  by (auto simp: isMirrorOf_def srcEnd_def dstEnd_def)

lemma endpointLess_ends:
  "endpointLess (addr_Unmap (r_SrcAddr a)) (r_SrcPort a) (addr_Unmap (r_DstAddr a)) (r_DstPort a) \<longleftrightarrow> srcEnd a < dstEnd a"
  by (auto simp: endpointLess_iff srcEnd_def dstEnd_def less_prod_def)

lemma orientByEvidence_swap:
  assumes "isMirrorOf a b" "srcEnd a \<noteq> dstEnd a"
  shows "orientByEvidence b a = (fst (orientByEvidence a b), \<not> snd (orientByEvidence a b))"
  using assms by (auto simp: orientByEvidence_def endpointLess_ends isMirrorOf_ends dest: less_asym)

lemma orientation_swap:
  assumes "ce_mirror e = Some b" "isMirrorOf (ce_sample e) b" "srcEnd (ce_sample e) \<noteq> dstEnd (ce_sample e)"
  shows "orientation (swapHalves e) = (fst (orientation e), \<not> snd (orientation e))"
  using assms orientByEvidence_swap [OF assms(2,3)]
  by (auto simp: orientation_def swapHalves_def Let_def split: option.split)

lemma finalize_swap:
  assumes "ce_mirror e = Some b" "isMirrorOf (ce_sample e) b" "srcEnd (ce_sample e) \<noteq> dstEnd (ce_sample e)"
  shows "finalize c (swapHalves e) g = finalize c e g"
proof -
  have "finalizeNF (swapHalves e) = finalizeNF e"
    using orientation_swap [OF assms]
    by (cases "orientation e") (simp add: finalizeNF_def swapHalves_def Let_def)
  moreover have "ce_zen (swapHalves e) = ce_zen e" "ce_hasNF (swapHalves e) = ce_hasNF e" by (simp_all add: swapHalves_def)
  ultimately show ?thesis by (simp add: finalize_def split: option.split)
qed

lemma finalize_firstSeen [simp]: "finalize c (e\<lparr>ce_firstSeen := t\<rparr>) g = finalize c e g"
proof -
  have "orientation (e\<lparr>ce_firstSeen := t\<rparr>) = orientation e"
    by (simp add: orientation_def split: option.split)
  then have "finalizeNF (e\<lparr>ce_firstSeen := t\<rparr>) = finalizeNF e"
    by (cases "orientation e") (simp add: finalizeNF_def Let_def)
  then show ?thesis by (simp add: finalize_def split: option.split)
qed

lemma finalize_window: "co_window c = co_window c' \<Longrightarrow> finalize c e g = finalize c' e g"
  by (simp add: finalize_def mergeZen_def spansWindows_def split: option.split)

text \<open>The entry two fragments leave behind.\<close>

definition afterFragment :: "Record \<Rightarrow> corrEntry \<Rightarrow> corrEntry" where
  "afterFragment r e = addVolume r (placeFragment r e)"

lemma placeFragment_firstSeen: "placeFragment r (x\<lparr>ce_firstSeen := t\<rparr>) = (placeFragment r x)\<lparr>ce_firstSeen := t\<rparr>"
  by (cases x) (simp add: placeFragment_def)

lemma addVolume_shift: "addVolume r (x\<lparr>ce_firstSeen := t\<rparr>) = (addVolume r x)\<lparr>ce_firstSeen := t\<rparr>"
  by (cases x) (simp add: addVolume_def Let_def)

lemma afterFragment_firstSeen [simp]: "afterFragment r (x\<lparr>ce_firstSeen := t\<rparr>) = (afterFragment r x)\<lparr>ce_firstSeen := t\<rparr>"
  by (simp only: afterFragment_def placeFragment_firstSeen addVolume_shift)

lemma Repairs_merge_swap: "Repairs_merge a (Repairs_merge b p) = Repairs_merge b (Repairs_merge a p)"
  by (auto simp: Repairs_merge_def)

lemma after_both:
  assumes "isMirrorOf a b" "srcEnd a \<noteq> dstEnd a" "\<not> ce_hasNF e"
    "ce_nf e = Counters_zero" "ce_nfMirror e = Counters_zero" "ce_mirror e = None"
  shows "afterFragment a (afterFragment b e) = swapHalves (afterFragment b (afterFragment a e))"
proof -
  have m: "isMirrorOf b a" using assms(1) by (auto simp: isMirrorOf_def)
  show ?thesis using assms m
    by (simp add: afterFragment_def addVolume_def placeFragment_def swapHalves_def Let_def Repairs_merge_swap
        addCounters_def Counters_zero_def or.assoc or.left_commute or.commute)
qed

lemma observeNetflow_put:
  assumes "entryFor (corrKeyOf c r) (r_Observed r) c g = (e, pend, c1, g1)" "ce_key e = corrKeyOf c r"
    "observeNetflowLocked r c g = (out, c', g')"
  shows "out = pend \<and> g' = g1 \<and> co_window c' = co_window c1 \<and> co_enabled c' = co_enabled c1 \<and>
    co_cells c' = AList.update (corrKeyOf c r) (afterFragment r e) (co_cells c1)"
proof -
  have "ce_key (addVolume r (placeFragment r e)) = ce_key e" by (simp add: addVolume_def placeFragment_def Let_def)
  moreover have "co_window (countFragment r e c1) = co_window c1" "co_enabled (countFragment r e c1) = co_enabled c1"
    by (simp_all add: countFragment_def Let_def split: option.split)
  ultimately show ?thesis using assms by (auto simp: observeNetflowLocked_def putEntry_def afterFragment_def)
qed

text \<open>Two flushes agree when their entries build the same records.\<close>

definition sameRecords :: "corrKey \<times> corrEntry \<Rightarrow> corrKey \<times> corrEntry \<Rightarrow> bool" where
  "sameRecords p p' \<longleftrightarrow> (\<forall>c g. finalize c (snd p) g = finalize c (snd p') g)"

lemma flushLoop_same:
  assumes "list_all2 sameRecords ps ps'" "co_window c = co_window c'"
  shows "fst (flushLoop ps c g) = fst (flushLoop ps' c' g)"
  using assms
proof (induction ps ps' arbitrary: c c' g rule: list_all2_induct)
  case (Cons p ps p' ps')
  obtain k e k' e' where p: "p = (k, e)" "p' = (k', e')" by (metis surj_pair)
  obtain ro g1 where f: "finalize c e g = (ro, g1)" by fastforce
  then have f': "finalize c' e' g = (ro, g1)"
    using Cons.hyps(1) p finalize_window [OF Cons.prems, of e g] by (simp add: sameRecords_def)
  show ?case using p f f' Cons.IH [of "co_cells_update (AList.delete k) (case ro of Some rec \<Rightarrow> countEmitted rec c | None \<Rightarrow> c)"
      "co_cells_update (AList.delete k') (case ro of Some rec \<Rightarrow> countEmitted rec c' | None \<Rightarrow> c')" g1] Cons.prems
    by (cases ro) (simp_all add: split_beta Let_def)
qed simp

lemma list_all2_update:
  "\<forall>p\<in>set m. R p p \<Longrightarrow> R (k, v) (k, v') \<Longrightarrow> list_all2 R (AList.update k v m) (AList.update k v' m)"
  by (induction m) (auto intro: list_all2_refl simp: list.rel_refl_strong)

lemma entryFor_time:
  assumes "entryFor k t c g = (e, pend, c1, g1)"
  shows "\<exists>e' c1'. entryFor k t' c g = (e', pend, c1', g1) \<and> (e' = e \<or> e' = e\<lparr>ce_firstSeen := t'\<rparr>) \<and>
     (\<forall>v. AList.update k v (co_cells c1') = AList.update k v (co_cells c1))"
proof (cases "map_of (co_cells c) k")
  case (Some x)
  then show ?thesis using assms by (auto simp: entryFor_def)
next
  case None
  then show ?thesis using assms
    by (cases "makeRoom c g") (auto simp: entryFor_def Let_def addEntry_def newCorrEntry_def AList.update_last)
qed

lemma observe_twice:
  assumes ok: "corr_ok c" and en: "co_enabled c" and src: "r_Source a = SourceNetflow" "r_Source b = SourceNetflow"
    and key: "corrKeyOf c a = k" "corrKeyOf c b = k" and ef: "entryFor k (r_Observed a) c g = (e, pend, c1, g1)"
  shows "\<exists>ca c2. Correlator_Observe a c g = (pend, ca, g1) \<and> Correlator_Observe b ca g1 = ([], c2, g1) \<and>
     co_cells c2 = AList.update k (afterFragment b (afterFragment a e)) (co_cells c1) \<and> co_window c2 = co_window c"
proof -
  have s: "corr_step True 0 c pend c1" "map_of (co_cells c1) k = Some e" "entry_ok k e"
    using entryFor_step [OF ok ef, of True] by auto
  obtain out ca ga where oa: "observeNetflowLocked a c g = (out, ca, ga)" by (metis prod_cases3)
  have pa: "out = pend" "ga = g1" "co_window ca = co_window c" "co_enabled ca"
      "co_cells ca = AList.update k (afterFragment a e) (co_cells c1)"
    using observeNetflow_put [of c a g e pend c1 g1 out ca ga] ef key s en oa by (auto simp: entry_ok_def corr_step_def)
  have kb: "corrKeyOf ca b = k" using key(2) pa(3) unfolding corrKeyOf_def by (simp split: if_splits)
  have eb: "entryFor (corrKeyOf ca b) (r_Observed b) ca g1 = (afterFragment a e, [], ca, g1)"
    using pa(5) kb by (simp add: entryFor_def map_of_update_conv)
  obtain outb cb gb where ob: "observeNetflowLocked b ca g1 = (outb, cb, gb)" by (metis prod_cases3)
  have "ce_key (afterFragment a e) = k"
    using s(3) by (simp add: afterFragment_def addVolume_def placeFragment_def entry_ok_def Let_def)
  then have "outb = []" "gb = g1" "co_window cb = co_window c"
      "co_cells cb = AList.update k (afterFragment b (afterFragment a e)) (co_cells ca)"
    using observeNetflow_put [OF eb _ ob] kb pa by auto
  then show ?thesis using oa ob pa en src by (auto simp: Correlator_Observe_def AList.update_last)
qed


definition half :: "bool \<Rightarrow> Record" where
  "half fwd = Record_zero\<lparr>r_Source := SourceNetflow, r_CommunityID := ''c'', r_Proto := 6,
     r_SrcAddr := AddrV4 (if fwd then 10 else 20), r_DstAddr := AddrV4 (if fwd then 20 else 10),
     r_NF := Counters_zero\<lparr>c_TxBytes := (if fwd then 3 else 5), c_Present := True\<rparr>, r_Observed := (if fwd then 1 else 2)\<rparr>"


end
