(* ===== verification/LogRecord.thy ===== *)
theory LogRecord
  imports Prelude
begin

text \<open>
  The log record every shipping lane builds and the entry the pipeline makes of it
  (\<^verbatim>\<open>internal/logship/record.go\<close>), with the attribute keys and the vocabulary of dispositions
  (\<^verbatim>\<open>action.go\<close>, \<^verbatim>\<open>shape_attrs.go\<close>). A nil attribute map is \<open>None\<close>.
\<close>

section \<open>Records and entries\<close>

datatype Severity = SeverityInfo | SeverityTrace | SeverityDebug | SeverityWarn | SeverityError | SeverityFatal

definition attrSource :: string where
  "attrSource = ''opnsense.source''"

definition attrServiceName :: string where
  "attrServiceName = ''service.name''"

definition attrServiceInstanceID :: string where
  "attrServiceInstanceID = ''service.instance.id''"

definition AttrSubsystem :: string where
  "AttrSubsystem = ''opnsense.subsystem''"

definition AttrAction :: string where
  "AttrAction = ''opnsense.action''"

definition AttrDeviceCategory :: string where
  "AttrDeviceCategory = ''opnsense.device_category''"

definition AttrInterface :: string where
  "AttrInterface = ''opnsense.interface''"

definition ActionPass :: string where
  "ActionPass = ''pass''"

definition ActionBlock :: string where
  "ActionBlock = ''block''"

definition reservedAttributeKeys :: "string list" where
  "reservedAttributeKeys = [attrSource, attrServiceName, attrServiceInstanceID]"

record LogRecord =
  lr_Timestamp :: time
  lr_Body :: string
  lr_Attributes :: "(string, string) gomap option"
  lr_Severity :: Severity
  lr_Source :: string

record Entry =
  en_Source :: string
  en_Record :: LogRecord
  en_Received :: time

definition sanitizeAttributes :: "(string, string) gomap option \<Rightarrow> (string, string) gomap option" where
  "sanitizeAttributes attrs =
     (case attrs of
        None \<Rightarrow> None
      | Some m \<Rightarrow>
          if \<not> list_ex (\<lambda>k. map_of m k \<noteq> None) reservedAttributeKeys then Some m
          else Some (fold AList.delete reservedAttributeKeys m))"

section \<open>Dispositions\<close>

definition MapFilterlogAction :: "string \<Rightarrow> string" where
  "MapFilterlogAction v = (if v = ''pass'' then ActionPass else if v = ''block'' \<or> v = ''reject'' then ActionBlock else [])"

definition MapUnboundAction :: "string \<Rightarrow> string" where
  "MapUnboundAction v = (if v = ''Pass'' then ActionPass else if v = ''Block'' \<or> v = ''Drop'' then ActionBlock else [])"

definition MapSuricataAction :: "string \<Rightarrow> string" where
  "MapSuricataAction v = (if v = ''allowed'' then ActionPass else if v = ''blocked'' then ActionBlock else [])"

end
