(* ===== verification/LogQueue.thy ===== *)
theory LogQueue
  imports LogRecord Accumulator
begin

text \<open>
  The bounded queue between the log sources and the emitter (\<^verbatim>\<open>internal/logship/queue.go\<close>): drop-oldest,
  bounded by a record count and by a byte budget. The mutex makes each operation atomic; the
  entries an operation reports to the drop callback are part of its result, and the two
  evictions of a push report in the order they happen. Where \<^verbatim>\<open>drainUpTo\<close> would wait for an entry its
  result is \<open>None\<close>. Sizes and totals are unbounded integers.
\<close>

section \<open>The queue\<close>

definition recordEntryOverheadBytes :: int where
  "recordEntryOverheadBytes = 128"

definition recordAttrOverheadBytes :: int where
  "recordAttrOverheadBytes = 48"

definition recordBytes :: "LogRecord \<Rightarrow> int" where
  "recordBytes r = recordEntryOverheadBytes + int (length (lr_Body r)) + int (length (lr_Source r)) +
     (\<Sum>(k, v)\<leftarrow>(case lr_Attributes r of None \<Rightarrow> [] | Some m \<Rightarrow> m). recordAttrOverheadBytes + int (length k) + int (length v))"

record queuedEntry =
  qe_entry :: Entry
  qe_size :: int

record boundedQueue =
  bq_buf :: "queuedEntry list"
  bq_cap :: int
  bq_maxBytes :: int
  bq_bytes :: int
  bq_closed :: bool

definition newBoundedQueueBytes :: "int \<Rightarrow> int \<Rightarrow> boundedQueue" where
  "newBoundedQueueBytes capacity maxBytes =
     \<lparr>bq_buf = [], bq_cap = (if capacity < 1 then 1 else capacity), bq_maxBytes = (if maxBytes < 0 then 0 else maxBytes),
      bq_bytes = 0, bq_closed = False\<rparr>"

definition newBoundedQueue :: "int \<Rightarrow> boundedQueue" where
  "newBoundedQueue capacity = newBoundedQueueBytes capacity 0"

definition evictOldest :: "boundedQueue \<Rightarrow> Entry list \<times> boundedQueue" where
  "evictOldest q =
     (case bq_buf q of
        [] \<Rightarrow> ([], q)
      | d # rest \<Rightarrow>
          let b = bq_bytes q - qe_size d
          in ([qe_entry d], q\<lparr>bq_buf := rest, bq_bytes := (if b < 0 then 0 else b)\<rparr>))"

text \<open>
  The two loops of \<^verbatim>\<open>push\<close>. Making room under the count cap ends only because the cap is positive;
  the loop returns \<open>None\<close> where it would run for ever.
\<close>

partial_function (option) evictToCap :: "Entry list \<Rightarrow> boundedQueue \<Rightarrow> (Entry list \<times> boundedQueue) option" where
  "evictToCap ds q =
     (if bq_cap q \<le> int (length (bq_buf q))
      then (case evictOldest q of (d, q') \<Rightarrow> evictToCap (ds @ d) q')
      else Some (ds, q))"

function evictToBudget :: "Entry list \<Rightarrow> boundedQueue \<Rightarrow> Entry list \<times> boundedQueue" where
  "evictToBudget ds q =
     (if 0 < bq_maxBytes q \<and> bq_maxBytes q < bq_bytes q \<and> 0 < length (bq_buf q)
      then (case evictOldest q of (d, q') \<Rightarrow> evictToBudget (ds @ d) q')
      else (ds, q))"
  by pat_completeness auto

termination
  by (relation "measure (\<lambda>(ds, q). length (bq_buf q))") (auto simp: evictOldest_def Let_def split: list.splits)

declare evictToBudget.simps [simp del]

definition push :: "Entry \<Rightarrow> boundedQueue \<Rightarrow> (Entry list \<times> boundedQueue) option" where
  "push e q =
     (if bq_closed q then Some ([], q)
      else case evictToCap [] q of
        None \<Rightarrow> None
      | Some (ds, q1) \<Rightarrow>
          let size = recordBytes (en_Record e)
          in Some (evictToBudget ds (q1\<lparr>bq_buf := bq_buf q1 @ [\<lparr>qe_entry = e, qe_size = size\<rparr>], bq_bytes := bq_bytes q1 + size\<rparr>)))"

text \<open>How many of the first \<open>n\<close> entries fit one request; the first always does.\<close>

fun fitLoop :: "int \<Rightarrow> nat \<Rightarrow> int \<Rightarrow> int list \<Rightarrow> nat" where
  "fitLoop maxBytes i acc [] = i"
| "fitLoop maxBytes i acc (s # ss) =
     (if 0 < i \<and> maxBytes < acc + s then i else fitLoop maxBytes (Suc i) (acc + s) ss)"

definition drainCount :: "int \<Rightarrow> int \<Rightarrow> boundedQueue \<Rightarrow> nat" where
  "drainCount mx maxBytes q =
     (let mx = (if mx < 1 then 1 else mx);
          n = min (length (bq_buf q)) (nat mx)
      in if 0 < maxBytes then fitLoop maxBytes 0 0 (map qe_size (take n (bq_buf q))) else n)"

definition drainUpTo :: "int \<Rightarrow> int \<Rightarrow> boundedQueue \<Rightarrow> (Entry list \<times> bool \<times> boundedQueue) option" where
  "drainUpTo mx maxBytes q =
     (if bq_buf q = [] \<and> \<not> bq_closed q then None
      else if bq_buf q = [] then Some ([], False, q)
      else
        let n = drainCount mx maxBytes q;
            b = bq_bytes q - (\<Sum>x\<leftarrow>take n (bq_buf q). qe_size x)
        in Some (map qe_entry (take n (bq_buf q)), True,
                 q\<lparr>bq_buf := drop n (bq_buf q), bq_bytes := (if b < 0 then 0 else b)\<rparr>))"

definition close_queue :: "boundedQueue \<Rightarrow> boundedQueue" where
  "close_queue q = q\<lparr>bq_closed := True\<rparr>"

definition queue_length :: "boundedQueue \<Rightarrow> nat" where
  "queue_length q = length (bq_buf q)"

definition queuedBytes :: "boundedQueue \<Rightarrow> int" where
  "queuedBytes q = bq_bytes q"

section \<open>What a FIFO promises\<close>

text \<open>
  The contract between the queue and its two clients: a put drops from the front at most and adds
  at the back, a take gives a non-empty prefix of what there is, waits only for an open and empty
  queue, and reports the end only for a closed and empty one.
\<close>

datatype ('e, 'p) queueOp = QPush 'e | QDrain 'p | QClose

text \<open>A history with the entries that left, in order, and whether they were delivered (or dropped).\<close>

fun fifoStep ::
  "('e \<Rightarrow> 's \<Rightarrow> ('e list \<times> 's) option) \<Rightarrow> ('p \<Rightarrow> 's \<Rightarrow> ('e list \<times> bool \<times> 's) option) \<Rightarrow> ('s \<Rightarrow> 's) \<Rightarrow>
   ('e, 'p) queueOp \<Rightarrow> 's \<times> (bool \<times> 'e) list \<Rightarrow> ('s \<times> (bool \<times> 'e) list) option" where
  "fifoStep put get shut (QPush e) (s, log) = map_option (\<lambda>(ds, s'). (s', log @ map (Pair False) ds)) (put e s)"
| "fifoStep put get shut (QDrain p) (s, log) =
     Some (case get p s of None \<Rightarrow> (s, log) | Some (batch, ok, s') \<Rightarrow> (s', log @ map (Pair True) batch))"
| "fifoStep put get shut QClose (s, log) = Some (shut s, log)"

fun fifoRun ::
  "('e \<Rightarrow> 's \<Rightarrow> ('e list \<times> 's) option) \<Rightarrow> ('p \<Rightarrow> 's \<Rightarrow> ('e list \<times> bool \<times> 's) option) \<Rightarrow> ('s \<Rightarrow> 's) \<Rightarrow>
   ('e, 'p) queueOp list \<Rightarrow> 's \<times> (bool \<times> 'e) list \<Rightarrow> ('s \<times> (bool \<times> 'e) list) option" where
  "fifoRun put get shut [] s = Some s"
| "fifoRun put get shut (op # ops) s = Option.bind (fifoStep put get shut op s) (fifoRun put get shut ops)"

text \<open>The specification: a queue accepts, in order, what is put before it is closed.\<close>

fun accepted :: "bool \<Rightarrow> ('e, 'p) queueOp list \<Rightarrow> 'e list" where
  "accepted closed [] = []"
| "accepted closed (QPush e # ops) = (if closed then [] else [e]) @ accepted closed ops"
| "accepted closed (QDrain p # ops) = accepted closed ops"
| "accepted closed (QClose # ops) = accepted True ops"

locale fifo =
  fixes inv :: "'s \<Rightarrow> bool" and contents :: "'s \<Rightarrow> 'e list" and closed :: "'s \<Rightarrow> bool"
    and put :: "'e \<Rightarrow> 's \<Rightarrow> ('e list \<times> 's) option" and get :: "'p \<Rightarrow> 's \<Rightarrow> ('e list \<times> bool \<times> 's) option" and shut :: "'s \<Rightarrow> 's"
  assumes put_law: "inv s \<Longrightarrow> \<exists>ds s'. put e s = Some (ds, s') \<and> inv s' \<and> closed s' = closed s \<and>
      ds @ contents s' = contents s @ (if closed s then [] else [e])"
    and get_law: "inv s \<Longrightarrow> get p s = Some (batch, ok, s') \<Longrightarrow> inv s' \<and> closed s' = closed s \<and>
      batch @ contents s' = contents s \<and> ok = (contents s \<noteq> []) \<and> (contents s \<noteq> [] \<longrightarrow> batch \<noteq> [])"
    and get_waits: "inv s \<Longrightarrow> get p s = None \<longleftrightarrow> contents s = [] \<and> \<not> closed s"
    and shut_law: "inv s \<Longrightarrow> inv (shut s) \<and> contents (shut s) = contents s \<and> closed (shut s)"
begin

lemma step_fifo:
  assumes "inv s"
  shows "\<exists>s' l. fifoStep put get shut op (s, log) = Some (s', log @ l) \<and> inv s' \<and>
     map snd l @ contents s' = contents s @ accepted (closed s) [op] \<and> (closed s' \<longleftrightarrow> closed s \<or> op = QClose)"
proof (cases op)
  case (QPush e)
  then show ?thesis using put_law [OF assms, of e] by (fastforce simp: comp_def)
next
  case (QDrain p)
  show ?thesis
  proof (cases "get p s")
    case None
    then show ?thesis using QDrain assms by (intro exI [of _ s] exI [of _ "[]"]) simp
  next
    case (Some x)
    then show ?thesis using QDrain get_law [OF assms, of p] by (cases x) (fastforce simp: comp_def)
  qed
next
  case QClose
  then show ?thesis using shut_law [OF assms] by (intro exI [of _ "shut s"] exI [of _ "[]"]) simp
qed

lemma accepted_Cons: "accepted c (op # ops) = accepted c [op] @ accepted (c \<or> op = QClose) ops"
  by (cases op) simp_all

lemma run_fifo:
  "inv s \<Longrightarrow> \<exists>s' l. fifoRun put get shut ops (s, log) = Some (s', log @ l) \<and> inv s' \<and>
     map snd l @ contents s' = contents s @ accepted (closed s) ops \<and> (closed s' \<longleftrightarrow> closed s \<or> QClose \<in> set ops)"
proof (induction ops arbitrary: s log)
  case Nil
  then show ?case by (intro exI [of _ s] exI [of _ "[]"]) simp
next
  case (Cons op ops)
  obtain s1 l1 where 1: "fifoStep put get shut op (s, log) = Some (s1, log @ l1)" "inv s1"
      "map snd l1 @ contents s1 = contents s @ accepted (closed s) [op]" "closed s1 \<longleftrightarrow> closed s \<or> op = QClose"
    using step_fifo [OF Cons.prems] by blast
  obtain s2 l2 where 2: "fifoRun put get shut ops (s1, log @ l1) = Some (s2, (log @ l1) @ l2)" "inv s2"
      "map snd l2 @ contents s2 = contents s1 @ accepted (closed s1) ops" "closed s2 \<longleftrightarrow> closed s1 \<or> QClose \<in> set ops"
    using Cons.IH [OF 1(2)] by blast
  have "map snd (l1 @ l2) @ contents s2 = map snd l1 @ contents s1 @ accepted (closed s1) ops" using 2(3) by simp
  also have "\<dots> = contents s @ accepted (closed s) (op # ops)" using 1(3,4) accepted_Cons [of "closed s" op ops] by simp
  finally show ?case using 1 2 by (intro exI [of _ s2] exI [of _ "l1 @ l2"]) auto
qed

text \<open>A closed queue is emptied by as many takes as it has entries, and then reports the end.\<close>

lemma drains:
  "inv s \<Longrightarrow> closed s \<Longrightarrow> length (contents s) \<le> n \<Longrightarrow>
   \<exists>s' l. fifoRun put get shut (replicate n (QDrain p)) (s, log) = Some (s', log @ l) \<and> inv s' \<and> closed s' \<and> contents s' = []"
proof (induction n arbitrary: s log)
  case 0
  then show ?case by (intro exI [of _ s] exI [of _ "[]"]) simp
next
  case (Suc n)
  obtain batch ok s1 where g: "get p s = Some (batch, ok, s1)" using get_waits [OF Suc.prems(1), of p] Suc.prems(2) by auto
  note law = get_law [OF Suc.prems(1) g]
  have l: "length batch + length (contents s1) = length (contents s)" using law by (metis length_append)
  have "length (contents s1) \<le> n"
  proof (cases "contents s = []")
    case False
    then have "1 \<le> length batch" using law by (simp add: Suc_leI)
    then show ?thesis using l Suc.prems(3) by linarith
  qed (use l in simp)
  from Suc.IH [OF _ _ this, of "log @ map (Pair True) batch"] law Suc.prems(2) obtain s2 l2 where
    "fifoRun put get shut (replicate n (QDrain p)) (s1, log @ map (Pair True) batch) = Some (s2, (log @ map (Pair True) batch) @ l2)"
    "inv s2" "closed s2" "contents s2 = []" by blast
  then show ?case using g by (intro exI [of _ s2] exI [of _ "map (Pair True) batch @ l2"]) simp
qed

end

section \<open>The invariant\<close>

definition sizesOf :: "queuedEntry list \<Rightarrow> int" where
  "sizesOf xs = (\<Sum>x\<leftarrow>xs. qe_size x)"

definition queue_core :: "boundedQueue \<Rightarrow> bool" where
  "queue_core q \<longleftrightarrow> 1 \<le> bq_cap q \<and> bq_bytes q = sizesOf (bq_buf q) \<and>
     (\<forall>x\<in>set (bq_buf q). qe_size x = recordBytes (en_Record (qe_entry x)))"

definition queue_inv :: "boundedQueue \<Rightarrow> bool" where
  "queue_inv q \<longleftrightarrow> queue_core q \<and> int (length (bq_buf q)) \<le> bq_cap q \<and> (0 < bq_maxBytes q \<longrightarrow> bq_bytes q \<le> bq_maxBytes q)"

definition queue_contents :: "boundedQueue \<Rightarrow> Entry list" where
  "queue_contents q = map qe_entry (bq_buf q)"

lemma recordBytes_pos: "0 < recordBytes r"
proof -
  have "0 \<le> (\<Sum>(k, v)\<leftarrow>m. recordAttrOverheadBytes + int (length k) + int (length v))" for m :: "(string, string) gomap"
    by (rule sum_list_nonneg) (auto simp: recordAttrOverheadBytes_def)
  from this [of "case lr_Attributes r of None \<Rightarrow> [] | Some m \<Rightarrow> m"] show ?thesis
    by (simp add: recordBytes_def recordEntryOverheadBytes_def)
qed

lemma sizesOf_nonneg: "\<forall>x\<in>set xs. qe_size x = recordBytes (en_Record (qe_entry x)) \<Longrightarrow> 0 \<le> sizesOf xs"
  unfolding sizesOf_def using recordBytes_pos by (auto intro!: sum_list_nonneg simp: less_imp_le)

text \<open>What dropping the first \<open>k\<close> entries leaves.\<close>

definition dropped :: "nat \<Rightarrow> boundedQueue \<Rightarrow> boundedQueue" where
  "dropped k q = q\<lparr>bq_buf := drop k (bq_buf q), bq_bytes := sizesOf (drop k (bq_buf q))\<rparr>"

lemma dropped_0: "queue_core q \<Longrightarrow> dropped 0 q = q"
  by (simp add: dropped_def queue_core_def)

lemma dropped_core: "queue_core q \<Longrightarrow> queue_core (dropped k q)"
  by (auto simp: queue_core_def dropped_def dest: in_set_dropD)

lemma dropped_fields [simp]:
  "bq_cap (dropped k q) = bq_cap q" "bq_maxBytes (dropped k q) = bq_maxBytes q" "bq_closed (dropped k q) = bq_closed q"
  "bq_buf (dropped k q) = drop k (bq_buf q)" "bq_bytes (dropped k q) = sizesOf (drop k (bq_buf q))"
  by (simp_all add: dropped_def)

lemma dropped_dropped [simp]: "dropped k (dropped j q) = dropped (j + k) q"
  by (simp add: dropped_def add.commute)

lemma evictOldest_core:
  assumes "queue_core q" "bq_buf q \<noteq> []"
  shows "evictOldest q = (map qe_entry (take 1 (bq_buf q)), dropped 1 q)"
proof -
  obtain d rest where b: "bq_buf q = d # rest" using assms(2) by (cases "bq_buf q") auto
  have "bq_bytes q - qe_size d = sizesOf rest" using assms(1) b by (simp add: queue_core_def sizesOf_def)
  moreover have "0 \<le> sizesOf rest" using assms(1) b by (intro sizesOf_nonneg) (simp add: queue_core_def)
  ultimately show ?thesis using b by (simp add: evictOldest_def dropped_def Let_def)
qed

lemma evictToCap_core:
  "queue_core q \<Longrightarrow> \<exists>k. evictToCap ds q = Some (ds @ map qe_entry (take k (bq_buf q)), dropped k q) \<and>
     int (length (drop k (bq_buf q))) < bq_cap q"
proof (induction "length (bq_buf q)" arbitrary: q ds rule: less_induct)
  case less
  show ?case
  proof (cases "bq_cap q \<le> int (length (bq_buf q))")
    case False
    then show ?thesis using less.prems by (subst evictToCap.simps) (auto simp: dropped_0 intro!: exI [of _ 0])
  next
    case True
    then have ne: "bq_buf q \<noteq> []" using less.prems by (auto simp: queue_core_def)
    then have shorter: "length (bq_buf (dropped 1 q)) < length (bq_buf q)" by simp
    obtain k where k: "evictToCap (ds @ map qe_entry (take 1 (bq_buf q))) (dropped 1 q) =
        Some ((ds @ map qe_entry (take 1 (bq_buf q))) @ map qe_entry (take k (drop 1 (bq_buf q))), dropped (Suc k) q)"
        "int (length (drop k (drop 1 (bq_buf q)))) < bq_cap q"
      using less.hyps [OF shorter dropped_core [OF less.prems], of "ds @ map qe_entry (take 1 (bq_buf q))"] by auto
    then show ?thesis using True evictOldest_core [OF less.prems ne] ne
      by (subst evictToCap.simps) (auto simp: take_Suc drop_Suc neq_Nil_conv intro!: exI [of _ "Suc k"])
  qed
qed

lemma evictToBudget_core:
  "queue_core q \<Longrightarrow> \<exists>k. evictToBudget ds q = (ds @ map qe_entry (take k (bq_buf q)), dropped k q) \<and>
     (0 < bq_maxBytes q \<longrightarrow> sizesOf (drop k (bq_buf q)) \<le> bq_maxBytes q)"
proof (induction "length (bq_buf q)" arbitrary: q ds rule: less_induct)
  case less
  show ?case
  proof (cases "0 < bq_maxBytes q \<and> bq_maxBytes q < bq_bytes q \<and> 0 < length (bq_buf q)")
    case False
    then have "0 < bq_maxBytes q \<longrightarrow> sizesOf (bq_buf q) \<le> bq_maxBytes q"
      using less.prems by (cases "bq_buf q = []") (auto simp: queue_core_def sizesOf_def)
    then show ?thesis using less.prems False by (subst evictToBudget.simps) (auto simp: dropped_0 intro!: exI [of _ 0])
  next
    case True
    then have ne: "bq_buf q \<noteq> []" by auto
    then have shorter: "length (bq_buf (dropped 1 q)) < length (bq_buf q)" by simp
    obtain k where k: "evictToBudget (ds @ map qe_entry (take 1 (bq_buf q))) (dropped 1 q) =
        ((ds @ map qe_entry (take 1 (bq_buf q))) @ map qe_entry (take k (drop 1 (bq_buf q))), dropped (Suc k) q)"
        "0 < bq_maxBytes q \<longrightarrow> sizesOf (drop k (drop 1 (bq_buf q))) \<le> bq_maxBytes q"
      using less.hyps [OF shorter dropped_core [OF less.prems], of "ds @ map qe_entry (take 1 (bq_buf q))"] by auto
    then show ?thesis using True evictOldest_core [OF less.prems ne] ne
      by (subst evictToBudget.simps) (auto simp: take_Suc drop_Suc neq_Nil_conv intro!: exI [of _ "Suc k"])
  qed
qed

lemma push_spec:
  assumes inv: "queue_inv q"
  shows "\<exists>ds q'. push e q = Some (ds, q') \<and> queue_inv q' \<and> bq_closed q' = bq_closed q \<and> bq_cap q' = bq_cap q \<and> bq_maxBytes q' = bq_maxBytes q \<and>
    ds @ queue_contents q' = queue_contents q @ (if bq_closed q then [] else [e])"
proof (cases "bq_closed q")
  case True
  then show ?thesis using inv by (simp add: push_def)
next
  case False
  have core: "queue_core q" using inv by (simp add: queue_inv_def)
  obtain k where k: "evictToCap [] q = Some (map qe_entry (take k (bq_buf q)), dropped k q)"
      "int (length (drop k (bq_buf q))) < bq_cap q" using evictToCap_core [OF core, of "[]"] by auto
  let ?x = "\<lparr>qe_entry = e, qe_size = recordBytes (en_Record e)\<rparr>"
  define q1 where "q1 = (dropped k q)\<lparr>bq_buf := drop k (bq_buf q) @ [?x], bq_bytes := sizesOf (drop k (bq_buf q)) + recordBytes (en_Record e)\<rparr>"
  have 1: "queue_core q1" "bq_buf q1 = drop k (bq_buf q) @ [?x]"
      "bq_cap q1 = bq_cap q" "bq_maxBytes q1 = bq_maxBytes q" "bq_closed q1 = bq_closed q"
    using dropped_core [OF core, of k] by (auto simp: q1_def queue_core_def sizesOf_def)
  obtain j where j: "evictToBudget (map qe_entry (take k (bq_buf q))) q1 =
        (map qe_entry (take k (bq_buf q)) @ map qe_entry (take j (bq_buf q1)), dropped j q1)"
      "0 < bq_maxBytes q1 \<longrightarrow> sizesOf (drop j (bq_buf q1)) \<le> bq_maxBytes q1"
    using evictToBudget_core [OF 1(1)] by blast
  have "push e q = Some (map qe_entry (take k (bq_buf q)) @ map qe_entry (take j (bq_buf q1)), dropped j q1)"
    using False k(1) j(1) by (simp add: push_def Let_def q1_def)
  moreover have "queue_inv (dropped j q1)"
    using j(2) k(2) 1 dropped_core [OF 1(1), of j] by (simp add: queue_inv_def)
  moreover have "map qe_entry (take j (bq_buf q1)) @ map qe_entry (drop j (bq_buf q1)) = map qe_entry (bq_buf q1)"
    by (metis append_take_drop_id map_append)
  moreover have "map qe_entry (take k (bq_buf q)) @ map qe_entry (bq_buf q1) = queue_contents q @ [e]"
    unfolding 1(2) queue_contents_def by (metis append.assoc append_take_drop_id list.simps(8,9) map_append queuedEntry.select_convs(1))
  ultimately show ?thesis using False 1 by (auto simp: queue_contents_def)
qed

lemma fitLoop_bounds: "i \<le> fitLoop mb i acc ss \<and> fitLoop mb i acc ss \<le> i + length ss \<and> (ss \<noteq> [] \<longrightarrow> i = 0 \<longrightarrow> 0 < fitLoop mb i acc ss)"
proof (induction ss arbitrary: i acc)
  case (Cons s ss)
  show ?case using Cons.IH [of "Suc i" "acc + s"] by auto
qed simp

lemma drainCount_pos: "bq_buf q \<noteq> [] \<Longrightarrow> 0 < drainCount mx mb q"
proof -
  assume ne: "bq_buf q \<noteq> []"
  define n where "n = min (length (bq_buf q)) (nat (if mx < 1 then 1 else mx))"
  have "0 < n" using ne by (simp add: n_def)
  then show ?thesis using ne fitLoop_bounds [of 0 mb 0 "map qe_size (take n (bq_buf q))"]
    by (auto simp: drainCount_def Let_def n_def)
qed

lemma drain_spec:
  assumes inv: "queue_inv q" and d: "drainUpTo mx mb q = Some (batch, ok, q')"
  shows "queue_inv q' \<and> bq_closed q' = bq_closed q \<and> bq_cap q' = bq_cap q \<and> bq_maxBytes q' = bq_maxBytes q \<and>
    batch @ queue_contents q' = queue_contents q \<and> ok = (queue_contents q \<noteq> []) \<and> (queue_contents q \<noteq> [] \<longrightarrow> batch \<noteq> [])"
proof (cases "bq_buf q = []")
  case True
  then show ?thesis using inv d by (auto simp: drainUpTo_def queue_contents_def split: if_splits)
next
  case False
  define n where "n = drainCount mx mb q"
  have core: "queue_core q" using inv by (simp add: queue_inv_def)
  have split: "sizesOf (bq_buf q) = sizesOf (take n (bq_buf q)) + sizesOf (drop n (bq_buf q))"
    unfolding sizesOf_def by (metis append_take_drop_id map_append sum_list_append)
  have nonneg: "0 \<le> sizesOf (take n (bq_buf q))" "0 \<le> sizesOf (drop n (bq_buf q))"
    using core by (auto intro!: sizesOf_nonneg simp: queue_core_def dest: in_set_takeD in_set_dropD)
  then have q': "q' = dropped n q" "batch = map qe_entry (take n (bq_buf q))" ok
    using d False core split by (auto simp: drainUpTo_def Let_def n_def dropped_def queue_core_def sizesOf_def split: if_splits)
  have "queue_inv q'"
    using inv dropped_core [OF core, of n] split nonneg q' by (auto simp: queue_inv_def queue_core_def)
  moreover have "batch \<noteq> []" using drainCount_pos [OF False, of mx mb] False q'(2) by (simp add: n_def)
  moreover have "batch @ queue_contents q' = queue_contents q"
    unfolding queue_contents_def q'(1,2) dropped_fields by (metis append_take_drop_id map_append)
  ultimately show ?thesis using q' False by (simp add: queue_contents_def)
qed

interpretation logQueue: fifo queue_inv queue_contents bq_closed push "\<lambda>(mx, mb). drainUpTo mx mb" close_queue
proof unfold_locales
  fix q e
  assume "queue_inv q"
  from push_spec [OF this, of e] show "\<exists>ds s'. push e q = Some (ds, s') \<and> queue_inv s' \<and> bq_closed s' = bq_closed q \<and>
      ds @ queue_contents s' = queue_contents q @ (if bq_closed q then [] else [e])" by blast
next
  fix q batch ok q' and p :: "int \<times> int"
  assume "queue_inv q" "(case p of (mx, mb) \<Rightarrow> drainUpTo mx mb) q = Some (batch, ok, q')"
  then show "queue_inv q' \<and> bq_closed q' = bq_closed q \<and> batch @ queue_contents q' = queue_contents q \<and>
      ok = (queue_contents q \<noteq> []) \<and> (queue_contents q \<noteq> [] \<longrightarrow> batch \<noteq> [])"
    using drain_spec [of q "fst p" "snd p" batch ok q'] by (auto simp: split_beta)
next
  fix q and p :: "int \<times> int"
  show "((case p of (mx, mb) \<Rightarrow> drainUpTo mx mb) q = None) = (queue_contents q = [] \<and> \<not> bq_closed q)"
    by (auto simp: drainUpTo_def queue_contents_def Let_def split: prod.splits)
qed (auto simp: close_queue_def queue_inv_def queue_core_def queue_contents_def)

section \<open>Histories\<close>

definition queueRun :: "int \<Rightarrow> int \<Rightarrow> (Entry, int \<times> int) queueOp list \<Rightarrow> (boundedQueue \<times> (bool \<times> Entry) list) option" where
  "queueRun capacity maxBytes ops =
     fifoRun push (\<lambda>(mx, mb). drainUpTo mx mb) close_queue ops (newBoundedQueueBytes capacity maxBytes, [])"

lemma new_inv: "queue_inv (newBoundedQueueBytes c m)"
  by (simp add: newBoundedQueueBytes_def queue_inv_def queue_core_def sizesOf_def)

lemma new_fields: "queue_contents (newBoundedQueueBytes c m) = []" "\<not> bq_closed (newBoundedQueueBytes c m)"
  by (simp_all add: newBoundedQueueBytes_def queue_contents_def)

text \<open>
  (C15) The queue is a FIFO whatever its bounds do: every push returns, and over any history of pushes,
  drains and a close the entries that left it, delivered or dropped, in the order they left,
  followed by those still in it, are exactly the entries pushed before the close, in order. No
  entry is lost, duplicated or overtaken.
\<close>

theorem queue_refines_fifo:
  "\<exists>q log. queueRun capacity maxBytes ops = Some (q, log) \<and>
     map snd log @ map qe_entry (bq_buf q) = accepted False ops"
  using logQueue.run_fifo [OF new_inv, of ops capacity maxBytes "[]"] new_fields [of capacity maxBytes]
  by (auto simp: queueRun_def queue_contents_def)

text \<open>
  (C16) Shutdown delivers: after a close, as many drains as there were operations empty the queue,
  however small the batches, and the emitter's next drain is told that the queue is finished; the
  entries that left are exactly those accepted.
\<close>

theorem queue_drains:
  "\<exists>q log. queueRun capacity maxBytes (ops @ QClose # replicate (length ops) (QDrain (mx, mb))) = Some (q, log) \<and>
     drainUpTo mx mb q = Some ([], False, q) \<and> map snd log = accepted False ops"
proof -
  let ?run = "fifoRun push (\<lambda>(mx, mb). drainUpTo mx mb) close_queue"
  have app: "?run (xs @ ys) s = Option.bind (?run xs s) (?run ys)" for xs ys s
    by (induction xs arbitrary: s) (simp_all, metis bind_assoc)
  have acc: "accepted c (xs @ QClose # replicate n (QDrain p)) = accepted c xs" for c xs n and p :: "int \<times> int"
  proof (induction xs arbitrary: c)
    case Nil
    show ?case by (induction n) simp_all
  next
    case (Cons x xs)
    then show ?case by (cases x) simp_all
  qed
  have short: "length (accepted c xs) \<le> length xs" for c and xs :: "(Entry, int \<times> int) queueOp list"
    by (induction c xs rule: accepted.induct) auto
  obtain q1 l1 where 1: "?run (ops @ [QClose]) (newBoundedQueueBytes capacity maxBytes, []) = Some (q1, l1)" "queue_inv q1"
      "map snd l1 @ queue_contents q1 = accepted False ops" "bq_closed q1"
    using logQueue.run_fifo [OF new_inv, of "ops @ [QClose]" capacity maxBytes "[]"] new_fields [of capacity maxBytes] acc [of False ops 0]
    by auto
  have "length (queue_contents q1) \<le> length ops" using short [of False ops] 1(3) by (metis le_trans length_append le_add2)
  from logQueue.drains [OF 1(2,4) this, of "(mx, mb)" l1] obtain q2 l2 where
    2: "?run (replicate (length ops) (QDrain (mx, mb))) (q1, l1) = Some (q2, l1 @ l2)" "queue_contents q2 = []" "bq_closed q2" by blast
  have run: "queueRun capacity maxBytes (ops @ QClose # replicate (length ops) (QDrain (mx, mb))) = Some (q2, l1 @ l2)"
    using 1(1) 2(1) app [of "ops @ [QClose]" "replicate (length ops) (QDrain (mx, mb))"] by (simp add: queueRun_def)
  moreover have "map snd (l1 @ l2) = accepted False ops"
    using logQueue.run_fifo [OF new_inv, of "ops @ QClose # replicate (length ops) (QDrain (mx, mb))" capacity maxBytes "[]"]
      new_fields [of capacity maxBytes] run 2(2) by (auto simp: queueRun_def acc)
  moreover have "drainUpTo mx mb q2 = Some ([], False, q2)" using 2 by (simp add: drainUpTo_def queue_contents_def)
  ultimately show ?thesis by blast
qed

lemma step_limits:
  assumes inv: "queue_inv q" and s: "fifoStep push (\<lambda>(mx, mb). drainUpTo mx mb) close_queue op (q, l) = Some (q1, l1)"
  shows "bq_cap q1 = bq_cap q \<and> bq_maxBytes q1 = bq_maxBytes q"
proof (cases op)
  case (QPush e)
  then show ?thesis using s push_spec [OF inv, of e] by auto
next
  case (QDrain p)
  then show ?thesis using s drain_spec [OF inv, of "fst p" "snd p"] by (auto simp: split_beta split: option.splits)
qed (use s in \<open>auto simp: close_queue_def\<close>)

text \<open>
  Both bounds hold after every history: at most the configured number of entries, and at most
  the byte budget where one is set. The published byte gauge is exactly the sum of the sizes of
  the queued records.
\<close>

theorem queue_bounded:
  "case queueRun capacity maxBytes ops of None \<Rightarrow> False | Some (q, log) \<Rightarrow>
     int (queue_length q) \<le> max 1 capacity \<and>
     queuedBytes q = (\<Sum>x\<leftarrow>bq_buf q. recordBytes (en_Record (qe_entry x))) \<and>
     (if 0 < maxBytes then queuedBytes q \<le> maxBytes else True)"
proof -
  let ?run = "fifoRun push (\<lambda>(mx, mb). drainUpTo mx mb) close_queue"
  have keep: "queue_inv q \<Longrightarrow> ?run ops (q, l) = Some (q', l') \<Longrightarrow> bq_cap q' = bq_cap q \<and> bq_maxBytes q' = bq_maxBytes q" for ops q l q' l'
  proof (induction ops arbitrary: q l)
    case (Cons op ops)
    obtain q1 l1 where s: "fifoStep push (\<lambda>(mx, mb). drainUpTo mx mb) close_queue op (q, l) = Some (q1, l1)" "?run ops (q1, l1) = Some (q', l')"
      using Cons.prems(2) by (auto simp: bind_eq_Some_conv)
    have "queue_inv q1" using logQueue.step_fifo [OF Cons.prems(1), of op l] s(1) by auto
    then show ?case using Cons.IH [OF _ s(2)] step_limits [OF Cons.prems(1) s(1)] by simp
  qed simp
  obtain q log where r: "queueRun capacity maxBytes ops = Some (q, log)" "queue_inv q"
    using logQueue.run_fifo [OF new_inv, of ops capacity maxBytes "[]"] by (auto simp: queueRun_def)
  have lim: "bq_cap q = (if capacity < 1 then 1 else capacity)" "bq_maxBytes q = (if maxBytes < 0 then 0 else maxBytes)"
    using keep [OF new_inv] r(1) by (fastforce simp: queueRun_def newBoundedQueueBytes_def)+
  have "map qe_size (bq_buf q) = map (\<lambda>x. recordBytes (en_Record (qe_entry x))) (bq_buf q)"
    using r(2) by (simp add: queue_inv_def queue_core_def)
  then have bytes: "bq_bytes q = (\<Sum>x\<leftarrow>bq_buf q. recordBytes (en_Record (qe_entry x)))"
    using r(2) by (simp add: queue_inv_def queue_core_def sizesOf_def del: map_eq_conv)
  have len: "int (length (bq_buf q)) \<le> max 1 capacity" using r(2) lim(1) by (auto simp: queue_inv_def split: if_splits)
  have "bq_bytes q \<le> maxBytes" if "0 < maxBytes" using r(2) lim(2) that by (simp add: queue_inv_def)
  then show ?thesis using r(1) bytes len by (simp add: queue_length_def queuedBytes_def)
qed

end
