(* ===== verification/ZenParse.thy ===== *)
theory ZenParse
  imports IfMap LogRecord
begin

text \<open>
  Zenarmor documents as log records (\<^verbatim>\<open>internal/logship/zenarmor/parse.go\<close>, \<^verbatim>\<open>devicecategory.go\<close>,
  \<^verbatim>\<open>derive.go\<close>). What \<^verbatim>\<open>encoding/json\<close> makes of the raw document, a \<open>zenDoc\<close> or an error, is an
  argument of the functions that decode; everything after the decode is modelled. The 64-bit
  counters of a document are integers. The coordinates of a location, which the code decodes and
  never reads, are left out.
\<close>

section \<open>Documents\<close>

record zenGeo =
  zg_Timezone :: string
  zg_ContinentCode :: string
  zg_CityName :: string
  zg_CountryName :: string
  zg_CountryCode2 :: string
  zg_CountryCode3 :: string
  zg_RegionName :: string
  zg_ASN :: string

record zenDevice =
  zv_ID :: string
  zv_Name :: string
  zv_Category :: string
  zv_Vendor :: string
  zv_OS :: string
  zv_OSVer :: string

record zenAlertInfo =
  za_Signature :: string
  za_Category :: string
  za_SID :: string
  za_Severity :: string
  za_Action :: string

record zenDoc =
  zd_StartTime :: int
  zd_EndTime :: int
  zd_TransportProto :: string
  zd_Interface :: string
  zd_VLANID :: string
  zd_Direction :: string
  zd_ConnUUID :: string
  zd_CommunityID :: string
  zd_PolicyID :: string
  zd_Organization :: string
  zd_Encryption :: string
  zd_IsBlocked :: "int option"
  zd_SrcIP :: string
  zd_SrcPort :: int
  zd_SrcHostname :: string
  zd_SrcHWAddr :: string
  zd_SrcUsername :: string
  zd_DstIP :: string
  zd_DstPort :: int
  zd_DstHostname :: string
  zd_DstHWAddr :: string
  zd_DstUsername :: string
  zd_SrcGeoIP :: "zenGeo option"
  zd_DstGeoIP :: "zenGeo option"
  zd_Device :: "zenDevice option"
  zd_AppName :: string
  zd_AppProto :: string
  zd_AppCategory :: string
  zd_SrcNPackets :: int
  zd_SrcNBytes :: int
  zd_SrcPBytes :: int
  zd_DstNPackets :: int
  zd_DstNBytes :: int
  zd_DstPBytes :: int
  zd_Query :: string
  zd_QType :: string
  zd_QClass :: string
  zd_Answers :: string
  zd_TotalAnswers :: int
  zd_RespCode :: "int option"
  zd_DomainCategories :: "string list"
  zd_ServerName :: string
  zd_JA3 :: string
  zd_Category :: string
  zd_Method :: string
  zd_Host :: string
  zd_URI :: string
  zd_UserAgent :: string
  zd_Version :: string
  zd_Referrer :: string
  zd_StatusMsg :: string
  zd_ReqBodyLen :: int
  zd_RspBodyLen :: int
  zd_AlertCategory :: string
  zd_AlertSeverity :: string
  zd_AlertInfo :: "zenAlertInfo option"
  zd_SIPMethod :: string
  zd_SIPURI :: string
  zd_SIPStatus :: string

definition zenGeo_zero :: zenGeo where
  "zenGeo_zero = \<lparr>zg_Timezone = [], zg_ContinentCode = [], zg_CityName = [], zg_CountryName = [], zg_CountryCode2 = [],
     zg_CountryCode3 = [], zg_RegionName = [], zg_ASN = []\<rparr>"

definition zenDoc_zero :: zenDoc where
  "zenDoc_zero = \<lparr>zd_StartTime = 0, zd_EndTime = 0, zd_TransportProto = [], zd_Interface = [], zd_VLANID = [], zd_Direction = [],
     zd_ConnUUID = [], zd_CommunityID = [], zd_PolicyID = [], zd_Organization = [], zd_Encryption = [], zd_IsBlocked = None,
     zd_SrcIP = [], zd_SrcPort = 0, zd_SrcHostname = [], zd_SrcHWAddr = [], zd_SrcUsername = [], zd_DstIP = [], zd_DstPort = 0,
     zd_DstHostname = [], zd_DstHWAddr = [], zd_DstUsername = [], zd_SrcGeoIP = None, zd_DstGeoIP = None, zd_Device = None,
     zd_AppName = [], zd_AppProto = [], zd_AppCategory = [], zd_SrcNPackets = 0, zd_SrcNBytes = 0, zd_SrcPBytes = 0,
     zd_DstNPackets = 0, zd_DstNBytes = 0, zd_DstPBytes = 0, zd_Query = [], zd_QType = [], zd_QClass = [], zd_Answers = [],
     zd_TotalAnswers = 0, zd_RespCode = None, zd_DomainCategories = [], zd_ServerName = [], zd_JA3 = [], zd_Category = [],
     zd_Method = [], zd_Host = [], zd_URI = [], zd_UserAgent = [], zd_Version = [], zd_Referrer = [], zd_StatusMsg = [],
     zd_ReqBodyLen = 0, zd_RspBodyLen = 0, zd_AlertCategory = [], zd_AlertSeverity = [], zd_AlertInfo = None,
     zd_SIPMethod = [], zd_SIPURI = [], zd_SIPStatus = []\<rparr>"

text \<open>\<^verbatim>\<open>strconv.Itoa\<close> and \<^verbatim>\<open>FormatInt\<close> on signed integers, and \<^verbatim>\<open>time.UnixMilli\<close>.\<close>

definition FormatInt :: "int \<Rightarrow> string" where
  "FormatInt v = (if v < 0 then ''-'' @ itoa (nat (- v)) else itoa (nat v))"

definition UnixMilli :: "int \<Rightarrow> time" where
  "UnixMilli ms = unix_epoch + ms * millisecond_ns"

definition zenDoc_timestamp :: "zenDoc \<Rightarrow> time" where
  "zenDoc_timestamp d =
     (let ms = (if zd_EndTime d = 0 then zd_StartTime d else zd_EndTime d)
      in if ms = 0 then 0 else UnixMilli ms)"

section \<open>Families\<close>

definition indexFamilies :: "(string, string) gomap" where
  "indexFamilies = [(''conn'', ''flow''), (''dns'', ''dns''), (''tls'', ''tls''), (''http'', ''web''), (''alert'', ''ids''), (''sip'', ''voip'')]"

definition TrimSuffix :: "string \<Rightarrow> string \<Rightarrow> string" where
  "TrimSuffix s suf = (if suf \<noteq> [] \<and> length suf \<le> length s \<and> drop (length s - length suf) s = suf then take (length s - length suf) s else s)"

definition familyFor :: "string \<Rightarrow> string" where
  "familyFor idx =
     (let tok = TrimSuffix idx ''_write'';
          tok = (case LastIndex tok ''_'' of Some i \<Rightarrow> drop (i + 1) tok | None \<Rightarrow> tok);
          tok = (case LastIndex tok ''-'' of Some i \<Rightarrow> if 0 < i then take i tok else tok | None \<Rightarrow> tok)
      in case map_of indexFamilies tok of Some f \<Rightarrow> f | None \<Rightarrow> [])"

section \<open>Closed vocabularies\<close>

definition zenOther :: string where
  "zenOther = ''other''"

definition clampRCode :: "int \<Rightarrow> string" where
  "clampRCode code = (if 0 \<le> code \<and> code \<le> 15 then FormatInt code else if code = -1 then ''-1'' else zenOther)"

definition zenAlertSeverities :: "(string, string) gomap" where
  "zenAlertSeverities = [(''1'', ''1''), (''2'', ''2''), (''3'', ''3''), (''4'', ''4'')]"

definition clampAlertSeverity :: "string \<Rightarrow> string" where
  "clampAlertSeverity v = (if v = [] then [] else case map_of zenAlertSeverities v of Some m \<Rightarrow> m | None \<Rightarrow> zenOther)"

definition zenDeviceCategories :: "(string, string) gomap" where
  "zenDeviceCategories = [(''camera'', ''camera''), (''iot'', ''iot''), (''laptop'', ''laptop''), (''mobile'', ''mobile''),
     (''multimedia'', ''multimedia''), (''network'', ''network''), (''other'', ''other''), (''printer'', ''printer''), (''server'', ''server'')]"

definition clampDeviceCategory :: "string \<Rightarrow> string" where
  "clampDeviceCategory v = (if v = [] then [] else case map_of zenDeviceCategories v of Some m \<Rightarrow> m | None \<Rightarrow> zenOther)"

section \<open>Attributes\<close>

definition attrInterfaceName :: string where
  "attrInterfaceName = ''interface.name''"

definition attrInterfaceDev :: string where
  "attrInterfaceDev = ''interface''"

definition attrAppCategory :: string where
  "attrAppCategory = ''app_category''"

definition attrDomainCategory :: string where
  "attrDomainCategory = ''domain_category''"

definition attrHTTPStatus :: string where
  "attrHTTPStatus = ''http.status_code''"

definition attrRCode :: string where
  "attrRCode = ''rcode''"

definition attrAlertCategory :: string where
  "attrAlertCategory = ''alert_category''"

definition attrAlertSeverity :: string where
  "attrAlertSeverity = ''alert_severity''"

type_synonym attrs = "(string, string) gomap"

text \<open>The closures \<^verbatim>\<open>set\<close> and \<^verbatim>\<open>setInt\<close>.\<close>

definition set_attr :: "string \<Rightarrow> string \<Rightarrow> attrs \<Rightarrow> attrs" where
  "set_attr k v m = (if v \<noteq> [] then AList.update k v m else m)"

definition setInt :: "string \<Rightarrow> int \<Rightarrow> attrs \<Rightarrow> attrs" where
  "setInt k v m = (if v \<noteq> 0 then AList.update k (FormatInt v) m else m)"

text \<open>A run of \<^verbatim>\<open>set\<close> calls, in order.\<close>

definition set_all :: "(string \<times> string) list \<Rightarrow> attrs \<Rightarrow> attrs" where
  "set_all kvs m = fold (\<lambda>(k, v). set_attr k v) kvs m"

definition setGeo :: "string \<Rightarrow> zenGeo option \<Rightarrow> attrs \<Rightarrow> attrs" where
  "setGeo p go m =
     (case go of
        None \<Rightarrow> m
      | Some g \<Rightarrow>
          let m1 = set_all [(p @ ''.country_code2'', zg_CountryCode2 g), (p @ ''.country_code3'', zg_CountryCode3 g),
                 (p @ ''.country_name'', zg_CountryName g), (p @ ''.city_name'', zg_CityName g),
                 (p @ ''.continent_code'', zg_ContinentCode g), (p @ ''.region_name'', zg_RegionName g),
                 (p @ ''.timezone'', zg_Timezone g)] m
          in if zg_ASN g \<noteq> [] \<and> zg_ASN g \<noteq> ''0'' then set_attr (p @ ''.asn'') (zg_ASN g) m1 else m1)"

definition setAction :: "zenDoc \<Rightarrow> attrs \<Rightarrow> attrs \<times> bool" where
  "setAction d m =
     (case zd_IsBlocked d of
        None \<Rightarrow> (m, False)
      | Some b \<Rightarrow> if b = 0 then (set_attr AttrAction ActionPass m, False)
                  else if b = 1 then (set_attr AttrAction ActionBlock m, True) else (m, False))"

text \<open>The envelope every family shares.\<close>

definition setEnvelope :: "zenDoc \<Rightarrow> attrs \<Rightarrow> attrs" where
  "setEnvelope d m =
     (let m = set_all [(''transport_proto'', zd_TransportProto d), (attrInterfaceDev, zd_Interface d), (''vlanid'', zd_VLANID d),
                (''direction'', zd_Direction d), (''conn_uuid'', zd_ConnUUID d), (''community_id'', zd_CommunityID d),
                (''encryption'', zd_Encryption d), (''ip_src_saddr'', zd_SrcIP d), (''ip_dst_saddr'', zd_DstIP d)] m;
          m = setInt ''ip_dst_port'' (zd_DstPort d) (setInt ''ip_src_port'' (zd_SrcPort d) m);
          m = set_all [(''src_hostname'', zd_SrcHostname d), (''dst_hostname'', zd_DstHostname d), (''src_hwaddr'', zd_SrcHWAddr d),
                (''dst_hwaddr'', zd_DstHWAddr d), (''src_username'', zd_SrcUsername d), (''dst_username'', zd_DstUsername d)] m;
          m = setGeo ''dst_geoip'' (zd_DstGeoIP d) (setGeo ''src_geoip'' (zd_SrcGeoIP d) m)
      in case zd_Device d of
           None \<Rightarrow> m
         | Some v \<Rightarrow> set_all [(''device.id'', zv_ID v), (''device.name'', zv_Name v), (''device.category'', zv_Category v),
               (AttrDeviceCategory, clampDeviceCategory (zv_Category v)), (''device.vendor'', zv_Vendor v),
               (''device.os'', zv_OS v), (''device.osver'', zv_OSVer v)] m)"

text \<open>The tail of each family.\<close>

definition setFlow :: "zenDoc \<Rightarrow> attrs \<Rightarrow> attrs" where
  "setFlow d m = setInt ''dst_pbytes'' (zd_DstPBytes d) (setInt ''src_pbytes'' (zd_SrcPBytes d)
     (setInt ''dst_nbytes'' (zd_DstNBytes d) (setInt ''dst_npackets'' (zd_DstNPackets d)
     (setInt ''src_nbytes'' (zd_SrcNBytes d) (setInt ''src_npackets'' (zd_SrcNPackets d)
     (set_all [(''app_name'', zd_AppName d), (''app_proto'', zd_AppProto d), (attrAppCategory, zd_AppCategory d)] m))))))"

definition setDNS :: "zenDoc \<Rightarrow> attrs \<Rightarrow> attrs" where
  "setDNS d m =
     (let m = setInt ''total_answers'' (zd_TotalAnswers d) (set_all [(''query'', zd_Query d), (''qtype'', zd_QType d),
            (''qclass'', zd_QClass d), (''answers'', zd_Answers d)] m);
          m = (case zd_RespCode d of Some c \<Rightarrow> AList.update attrRCode (clampRCode c) m | None \<Rightarrow> m)
      in case zd_DomainCategories d of [] \<Rightarrow> m | c # _ \<Rightarrow> set_attr attrDomainCategory c m)"

definition setWeb :: "zenDoc \<Rightarrow> attrs \<Rightarrow> attrs" where
  "setWeb d m = setInt ''rsp_body_len'' (zd_RspBodyLen d) (setInt ''req_body_len'' (zd_ReqBodyLen d)
     (set_all [(''method'', zd_Method d), (''host'', zd_Host d), (''uri'', zd_URI d), (''user_agent'', zd_UserAgent d),
        (''http.version'', zd_Version d), (''referrer'', zd_Referrer d), (attrDomainCategory, zd_Category d),
        (attrHTTPStatus, zd_StatusMsg d)] m))"

definition setIDS :: "zenDoc \<Rightarrow> attrs \<Rightarrow> attrs" where
  "setIDS d m =
     (let m = set_all [(attrAlertCategory, zd_AlertCategory d), (attrAlertSeverity, clampAlertSeverity (zd_AlertSeverity d))] m
      in case zd_AlertInfo d of
           None \<Rightarrow> m
         | Some a \<Rightarrow> set_all [(''alertinfo.signature'', za_Signature a), (''alertinfo.category'', za_Category a),
               (''alertinfo.sid'', za_SID a), (''alertinfo.severity'', za_Severity a), (''alertinfo.action'', za_Action a)] m)"

definition setFamily :: "string \<Rightarrow> zenDoc \<Rightarrow> attrs \<Rightarrow> attrs" where
  "setFamily family d m =
     (if family = ''flow'' then setFlow d m
      else if family = ''dns'' then setDNS d m
      else if family = ''tls'' then set_all [(''server_name'', zd_ServerName d), (''ja3'', zd_JA3 d), (attrDomainCategory, zd_Category d)] m
      else if family = ''web'' then setWeb d m
      else if family = ''ids'' then setIDS d m
      else if family = ''voip'' then set_all [(''sip_method'', zd_SIPMethod d), (''sip_uri'', zd_SIPURI d), (''sip_status'', zd_SIPStatus d)] m
      else m)"

definition setEnrich :: "zenDoc \<Rightarrow> Snapshot option \<Rightarrow> attrs \<Rightarrow> attrs" where
  "setEnrich d so m =
     (case so of
        None \<Rightarrow> m
      | Some snap \<Rightarrow>
          let m = (case Snapshot_InterfaceName snap (zd_Interface d) of
                     (name, ok) \<Rightarrow> if ok then set_all [(attrInterfaceName, name), (AttrInterface, name)] m else m);
              m = (if zd_SrcIP d \<noteq> [] then set_attr ''src.scope'' (Snapshot_Scope snap (zd_SrcIP d)) m else m);
              m = (if zd_DstIP d \<noteq> [] then set_attr ''dst.scope'' (Snapshot_Scope snap (zd_DstIP d)) m else m)
          in if zd_DstPort d \<noteq> 0
             then (case ServiceName (FormatInt (zd_DstPort d)) (ToLower (zd_TransportProto d)) of
                     (svc, ok) \<Rightarrow> if ok then set_attr ''dst.service'' svc m else m)
             else m)"

section \<open>Building the record\<close>

text \<open>\<open>decoded\<close> is what the JSON decoder made of \<open>doc\<close>.\<close>

definition parseDocFull :: "string \<Rightarrow> string \<Rightarrow> zenDoc option \<Rightarrow> Snapshot option \<Rightarrow> LogRecord \<times> zenDoc option \<times> bool" where
  "parseDocFull family doc decoded snap =
     (case decoded of
        None \<Rightarrow> (\<lparr>lr_Timestamp = 0, lr_Body = doc, lr_Attributes = None, lr_Severity = SeverityInfo, lr_Source = []\<rparr>, None, False)
      | Some d \<Rightarrow>
          let (m, blocked) = setAction d (set_attr AttrSubsystem family []);
              m = setEnrich d snap (setFamily family d (setEnvelope d m))
          in (\<lparr>lr_Timestamp = zenDoc_timestamp d, lr_Body = doc, lr_Attributes = Some m,
               lr_Severity = (if blocked \<or> family = ''ids'' then SeverityWarn else SeverityInfo), lr_Source = []\<rparr>, Some d, True))"

definition parseDoc :: "string \<Rightarrow> string \<Rightarrow> zenDoc option \<Rightarrow> Snapshot option \<Rightarrow> LogRecord \<times> bool" where
  "parseDoc family doc decoded snap = (case parseDocFull family doc decoded snap of (rec, _, parsed) \<Rightarrow> (rec, parsed))"

definition buildRecord :: "string \<Rightarrow> string \<Rightarrow> zenDoc option \<Rightarrow> Snapshot option \<Rightarrow> LogRecord \<times> bool" where
  "buildRecord family doc decoded snap = (fst (parseDoc family doc decoded snap), True)"

section \<open>The derived observation\<close>

text \<open>\<^verbatim>\<open>strconv.Atoi\<close>: an optional sign, then at least one digit, within 64 bits.\<close>

definition Atoi :: "string \<Rightarrow> int option" where
  "Atoi s =
     (case s of
        [] \<Rightarrow> None
      | c # ds \<Rightarrow>
          if c = CHR ''-'' then (case ParseUint 64 ds of Some n \<Rightarrow> if n \<le> 2 ^ 63 then Some (- int n) else None | None \<Rightarrow> None)
          else map_option int (ParseUint 63 (if c = CHR ''+'' then ds else s)))"

definition statusClass :: "string \<Rightarrow> string" where
  "statusClass status =
     (if status = [] then []
      else case Atoi status of
        None \<Rightarrow> []
      | Some code \<Rightarrow> if code < 100 \<or> 599 < code then [] else FormatInt (code div 100) @ ''xx'')"

definition firstNonEmpty :: "string \<Rightarrow> string \<Rightarrow> string" where
  "firstNonEmpty a b = (if a \<noteq> [] then a else b)"

record ZenarmorObservation =
  zo_Family :: string
  zo_Action :: string
  zo_Category :: string
  zo_Interface :: string
  zo_RCode :: string
  zo_Severity :: string
  zo_StatusClass :: string

text \<open>Indexing a Go map: the value, or the empty string.\<close>

definition attr :: "attrs \<Rightarrow> string \<Rightarrow> string" where
  "attr m k = (case map_of m k of Some v \<Rightarrow> v | None \<Rightarrow> [])"

text \<open>
  What a sink is offered: the device for the inventory, where there is one, as (name, category,
  interface), and the observation.
\<close>

definition observeDerived :: "string \<Rightarrow> attrs \<Rightarrow> (string \<times> string \<times> string) option \<times> ZenarmorObservation" where
  "observeDerived family m =
     (let iface = firstNonEmpty (attr m attrInterfaceName) (attr m attrInterfaceDev);
          dev = (if attr m ''device.name'' \<noteq> [] then Some (attr m ''device.name'', attr m ''device.category'', iface) else None);
          o' = \<lparr>zo_Family = family, zo_Action = attr m AttrAction, zo_Category = [], zo_Interface = iface,
                zo_RCode = [], zo_Severity = [], zo_StatusClass = []\<rparr>
      in (dev,
          if family = ''flow'' then o'\<lparr>zo_Category := attr m attrAppCategory\<rparr>
          else if family = ''dns'' then o'\<lparr>zo_Category := attr m attrDomainCategory, zo_RCode := attr m attrRCode\<rparr>
          else if family = ''tls'' then o'\<lparr>zo_Category := attr m attrDomainCategory\<rparr>
          else if family = ''web'' then o'\<lparr>zo_StatusClass := statusClass (attr m attrHTTPStatus)\<rparr>
          else if family = ''ids'' then o'\<lparr>zo_Category := attr m attrAlertCategory, zo_Severity := attr m attrAlertSeverity\<rparr>
          else o'))"

section \<open>The exclude vocabulary\<close>

text \<open>The fields an exclude rule may name (\<^verbatim>\<open>exclude.go\<close>).\<close>

definition KnownAttributeKeys :: "string list" where
  "KnownAttributeKeys =
    [''alertinfo.action'', ''alertinfo.category'', ''alertinfo.severity'', ''alertinfo.sid'', ''alertinfo.signature'',
     ''alert_category'', ''alert_severity'', ''answers'', ''app_category'', ''app_name'', ''app_proto'', ''community_id'',
     ''conn_uuid'', ''device.category'', ''device.id'', ''device.name'', ''device.os'', ''device.osver'', ''device.vendor'',
     ''direction'', ''domain_category'', ''dst.scope'', ''dst.service'', ''dst_hostname'', ''dst_hwaddr'', ''dst_nbytes'',
     ''dst_npackets'', ''dst_pbytes'', ''dst_username'', ''encryption'', ''host'', ''http.status_code'', ''http.version'',
     ''interface'', ''interface.name'', ''ip_dst_port'', ''ip_dst_saddr'', ''ip_src_port'', ''ip_src_saddr'', ''ja3'',
     ''method'', ''opnsense.action'', ''opnsense.device_category'', ''opnsense.interface'', ''opnsense.subsystem'',
     ''qclass'', ''qtype'', ''query'', ''rcode'', ''referrer'', ''req_body_len'', ''rsp_body_len'', ''server_name'',
     ''sip_method'', ''sip_status'', ''sip_uri'', ''src.scope'', ''src_hostname'', ''src_hwaddr'', ''src_nbytes'',
     ''src_npackets'', ''src_pbytes'', ''src_username'', ''total_answers'', ''transport_proto'', ''uri'', ''user_agent'',
     ''vlanid'']"

section \<open>What an attribute may be\<close>

text \<open>The keys \<^verbatim>\<open>setGeo\<close> builds from its two prefixes.\<close>

definition geoKeys :: "string list" where
  "geoKeys =
    [''src_geoip.country_code2'', ''src_geoip.country_code3'', ''src_geoip.country_name'', ''src_geoip.city_name'',
     ''src_geoip.continent_code'', ''src_geoip.region_name'', ''src_geoip.timezone'', ''src_geoip.asn'',
     ''dst_geoip.country_code2'', ''dst_geoip.country_code3'', ''dst_geoip.country_name'', ''dst_geoip.city_name'',
     ''dst_geoip.continent_code'', ''dst_geoip.region_name'', ''dst_geoip.timezone'', ''dst_geoip.asn'']"

definition label_key :: "string \<Rightarrow> bool" where
  "label_key k \<longleftrightarrow> k \<in> set KnownAttributeKeys \<or> k \<in> set geoKeys"

text \<open>The vocabularies of the attributes that become labels.\<close>

definition label_value :: "Snapshot option \<Rightarrow> string \<Rightarrow> string \<Rightarrow> bool" where
  "label_value so k v \<longleftrightarrow>
     (if k = AttrAction then v \<in> {''pass'', ''block''}
      else if k = attrRCode then v \<in> {''-1'', ''other''} \<union> (\<lambda>n. itoa n) ` {0..15}
      else if k = attrAlertSeverity then v \<in> {''1'', ''2'', ''3'', ''4'', ''other''}
      else if k = AttrDeviceCategory then v = ''other'' \<or> v \<in> set (map fst zenDeviceCategories)
      else if k = AttrInterface then (case so of None \<Rightarrow> False | Some snap \<Rightarrow> v \<in> set (map snd (sn_IfaceNames snap)))
      else True)"

definition typed :: "Snapshot option \<Rightarrow> string \<times> string \<Rightarrow> bool" where
  "typed so kv \<longleftrightarrow> label_key (fst kv) \<and> snd kv \<noteq> [] \<and> label_value so (fst kv) (snd kv)"

lemma label_keys [simp]:
  "label_key ''alertinfo.action''" "label_key ''alertinfo.category''" "label_key ''alertinfo.severity''"
  "label_key ''alertinfo.sid''" "label_key ''alertinfo.signature''" "label_key ''answers''" "label_key ''app_name''"
  "label_key ''app_proto''" "label_key ''community_id''" "label_key ''conn_uuid''" "label_key ''device.category''"
  "label_key ''device.id''" "label_key ''device.name''" "label_key ''device.os''" "label_key ''device.osver''"
  "label_key ''device.vendor''" "label_key ''direction''" "label_key ''dst.scope''" "label_key ''dst.service''"
  "label_key ''dst_hostname''" "label_key ''dst_hwaddr''" "label_key ''dst_nbytes''" "label_key ''dst_npackets''"
  "label_key ''dst_pbytes''" "label_key ''dst_username''" "label_key ''encryption''" "label_key ''host''"
  "label_key ''http.version''" "label_key ''ip_dst_port''" "label_key ''ip_dst_saddr''" "label_key ''ip_src_port''"
  "label_key ''ip_src_saddr''" "label_key ''ja3''" "label_key ''method''" "label_key ''qclass''" "label_key ''qtype''"
  "label_key ''query''" "label_key ''referrer''" "label_key ''req_body_len''" "label_key ''rsp_body_len''"
  "label_key ''server_name''" "label_key ''sip_method''" "label_key ''sip_status''" "label_key ''sip_uri''"
  "label_key ''src.scope''" "label_key ''src_hostname''" "label_key ''src_hwaddr''" "label_key ''src_nbytes''"
  "label_key ''src_npackets''" "label_key ''src_pbytes''" "label_key ''src_username''" "label_key ''total_answers''"
  "label_key ''transport_proto''" "label_key ''uri''" "label_key ''user_agent''" "label_key ''vlanid''"
  "label_key AttrSubsystem" "label_key AttrAction" "label_key AttrDeviceCategory" "label_key AttrInterface"
  "label_key attrInterfaceName" "label_key attrInterfaceDev" "label_key attrAppCategory" "label_key attrDomainCategory"
  "label_key attrHTTPStatus" "label_key attrRCode" "label_key attrAlertCategory" "label_key attrAlertSeverity"
  by code_simp+

lemma geo_label_keys:
  "label_key (''src_geoip'' @ ''.country_code2'')" "label_key (''src_geoip'' @ ''.country_code3'')"
  "label_key (''src_geoip'' @ ''.country_name'')" "label_key (''src_geoip'' @ ''.city_name'')"
  "label_key (''src_geoip'' @ ''.continent_code'')" "label_key (''src_geoip'' @ ''.region_name'')"
  "label_key (''src_geoip'' @ ''.timezone'')" "label_key (''src_geoip'' @ ''.asn'')"
  "label_key (''dst_geoip'' @ ''.country_code2'')" "label_key (''dst_geoip'' @ ''.country_code3'')"
  "label_key (''dst_geoip'' @ ''.country_name'')" "label_key (''dst_geoip'' @ ''.city_name'')"
  "label_key (''dst_geoip'' @ ''.continent_code'')" "label_key (''dst_geoip'' @ ''.region_name'')"
  "label_key (''dst_geoip'' @ ''.timezone'')" "label_key (''dst_geoip'' @ ''.asn'')"
  by code_simp+

lemmas attr_key_defs = AttrAction_def AttrSubsystem_def AttrDeviceCategory_def AttrInterface_def attrInterfaceName_def attrInterfaceDev_def
  attrAppCategory_def attrDomainCategory_def attrHTTPStatus_def attrRCode_def attrAlertCategory_def attrAlertSeverity_def

definition free_key :: "string \<Rightarrow> bool" where
  "free_key k \<longleftrightarrow> k \<notin> {AttrAction, attrRCode, attrAlertSeverity, AttrDeviceCategory, AttrInterface}"

lemma free_keys [simp]:
 "free_key ''alertinfo.action''" "free_key ''alertinfo.category''" "free_key ''alertinfo.severity''"
 "free_key ''alertinfo.sid''" "free_key ''alertinfo.signature''" "free_key ''answers''" "free_key ''app_name''"
 "free_key ''app_proto''" "free_key ''community_id''" "free_key ''conn_uuid''" "free_key ''device.category''"
 "free_key ''device.id''" "free_key ''device.name''" "free_key ''device.os''" "free_key ''device.osver''"
 "free_key ''device.vendor''" "free_key ''direction''" "free_key ''dst.scope''" "free_key ''dst.service''"
 "free_key ''dst_hostname''" "free_key ''dst_hwaddr''" "free_key ''dst_nbytes''" "free_key ''dst_npackets''"
 "free_key ''dst_pbytes''" "free_key ''dst_username''" "free_key ''encryption''" "free_key ''host''"
 "free_key ''http.version''" "free_key ''ip_dst_port''" "free_key ''ip_dst_saddr''" "free_key ''ip_src_port''"
 "free_key ''ip_src_saddr''" "free_key ''ja3''" "free_key ''method''" "free_key ''qclass''" "free_key ''qtype''"
 "free_key ''query''" "free_key ''referrer''" "free_key ''req_body_len''" "free_key ''rsp_body_len''"
 "free_key ''server_name''" "free_key ''sip_method''" "free_key ''sip_status''" "free_key ''sip_uri''"
 "free_key ''src.scope''" "free_key ''src_hostname''" "free_key ''src_hwaddr''" "free_key ''src_nbytes''"
 "free_key ''src_npackets''" "free_key ''src_pbytes''" "free_key ''src_username''" "free_key ''total_answers''"
 "free_key ''transport_proto''" "free_key ''uri''" "free_key ''user_agent''" "free_key ''vlanid''"
 "free_key AttrSubsystem" 
 "free_key attrInterfaceName" "free_key attrInterfaceDev" "free_key attrAppCategory" "free_key attrDomainCategory"
 "free_key attrHTTPStatus" "free_key attrAlertCategory" 
  by code_simp+

lemma free_value [simp]: "free_key k \<Longrightarrow> label_value so k v"
  by (simp add: label_value_def free_key_def)

lemma update_typed: "list_all P m \<Longrightarrow> P (k, v) \<Longrightarrow> list_all P (AList.update k v m)"
  by (induction m) auto

lemma set_attr_typed:
  "list_all (typed so) m \<Longrightarrow> label_key k \<Longrightarrow> (v \<noteq> [] \<Longrightarrow> label_value so k v) \<Longrightarrow> list_all (typed so) (set_attr k v m)"
  by (simp add: set_attr_def update_typed typed_def)

lemma itoa_nonempty [simp]: "itoa n \<noteq> []"
  by (subst itoa.simps) simp

lemma FormatInt_nonempty [simp]: "FormatInt v \<noteq> []"
  by (simp add: FormatInt_def)

lemma setInt_typed:
  "list_all (typed so) m \<Longrightarrow> label_key k \<Longrightarrow> free_key k \<Longrightarrow> list_all (typed so) (setInt k v m)"
  by (simp add: setInt_def update_typed typed_def)

lemma set_all_typed:
  "list_all (typed so) m \<Longrightarrow> list_all (\<lambda>(k, v). label_key k \<and> (v \<noteq> [] \<longrightarrow> label_value so k v)) kvs \<Longrightarrow> list_all (typed so) (set_all kvs m)"
  unfolding set_all_def by (induction kvs arbitrary: m) (auto intro: set_attr_typed)

lemmas typed_intros = set_attr_typed setInt_typed set_all_typed

lemma setGeo_typed:
  assumes "list_all (typed so) m" "p = ''src_geoip'' \<or> p = ''dst_geoip''"
  shows "list_all (typed so) (setGeo p g m)"
proof -
  have k: "label_key (p @ x)" "free_key (p @ x)" if "x \<in> {''.country_code2'', ''.country_code3'', ''.country_name'', ''.city_name'',
      ''.continent_code'', ''.region_name'', ''.timezone'', ''.asn''}" for x
    using that assms(2) geo_label_keys by (auto simp: free_key_def attr_key_defs)
  show ?thesis unfolding setGeo_def Let_def
    by (auto intro!: typed_intros assms(1) simp: k split: option.split)
qed

lemma clamps:
  "v \<noteq> [] \<Longrightarrow> label_value so AttrDeviceCategory (clampDeviceCategory v)"
  "v \<noteq> [] \<Longrightarrow> label_value so attrAlertSeverity (clampAlertSeverity v)"
  "label_value so attrRCode (clampRCode c)" "clampRCode c \<noteq> []"
  "clampDeviceCategory v \<noteq> [] \<Longrightarrow> v \<noteq> []" "clampAlertSeverity v \<noteq> [] \<Longrightarrow> v \<noteq> []"
proof -
  show "v \<noteq> [] \<Longrightarrow> label_value so AttrDeviceCategory (clampDeviceCategory v)"
    by (auto simp: label_value_def attr_key_defs clampDeviceCategory_def zenDeviceCategories_def zenOther_def)
  show "v \<noteq> [] \<Longrightarrow> label_value so attrAlertSeverity (clampAlertSeverity v)"
    by (auto simp: label_value_def attr_key_defs clampAlertSeverity_def zenAlertSeverities_def zenOther_def)
  show "label_value so attrRCode (clampRCode c)"
    by (auto simp: label_value_def attr_key_defs clampRCode_def zenOther_def FormatInt_def image_iff intro!: bexI [of _ "nat c"])
qed (auto simp: clampRCode_def zenOther_def clampDeviceCategory_def clampAlertSeverity_def)

lemma clamped [simp]:
  "clampDeviceCategory v \<noteq> [] \<longrightarrow> label_value so AttrDeviceCategory (clampDeviceCategory v)"
  "clampAlertSeverity v \<noteq> [] \<longrightarrow> label_value so attrAlertSeverity (clampAlertSeverity v)"
  using clamps by blast+

lemma setAction_typed: "list_all (typed so) m \<Longrightarrow> list_all (typed so) (fst (setAction d m))"
  by (auto simp: setAction_def label_value_def ActionPass_def ActionBlock_def intro!: typed_intros split: option.split)

lemma setEnvelope_typed: "list_all (typed so) m \<Longrightarrow> list_all (typed so) (setEnvelope d m)"
  unfolding setEnvelope_def Let_def
  by (cases "zd_Device d") (simp_all add: typed_intros setGeo_typed)

lemma rcode_typed: "typed so (attrRCode, clampRCode c)"
  by (simp add: typed_def clamps)

lemma setDNS_typed: "list_all (typed so) m \<Longrightarrow> list_all (typed so) (setDNS d m)"
  unfolding setDNS_def Let_def
  by (cases "zd_RespCode d"; cases "zd_DomainCategories d") (simp_all add: typed_intros update_typed rcode_typed)

lemma setIDS_typed: "list_all (typed so) m \<Longrightarrow> list_all (typed so) (setIDS d m)"
  unfolding setIDS_def Let_def by (cases "zd_AlertInfo d") (simp_all add: typed_intros)

lemma setFamily_typed: "list_all (typed so) m \<Longrightarrow> list_all (typed so) (setFamily family d m)"
  by (simp add: setFamily_def setFlow_def setWeb_def typed_intros setDNS_typed setIDS_typed)

lemma InterfaceName_known:
  "Snapshot_InterfaceName snap dev = (name, True) \<Longrightarrow> name \<in> set (map snd (sn_IfaceNames snap))"
  by (force simp: Snapshot_InterfaceName_def lookupText_def split: option.splits dest!: map_of_SomeD)

lemma setEnrich_typed: "list_all (typed so) m \<Longrightarrow> list_all (typed so) (setEnrich d so m)"
proof (cases so)
  case (Some snap)
  assume m: "list_all (typed so) m"
  obtain name ok where n: "Snapshot_InterfaceName snap (zd_Interface d) = (name, ok)" by fastforce
  have "label_value so AttrInterface name" if ok
    using InterfaceName_known [of snap "zd_Interface d" name] n that Some by (auto simp: label_value_def attr_key_defs)
  then show ?thesis using m Some n
    by (simp add: setEnrich_def Let_def split_beta typed_intros)
qed (simp add: setEnrich_def)

text \<open>
  (C29) Whatever a sender puts in a document, the attributes of the record stay within their types: every
  key is one of the parser's, no value is empty, and the values that become metric or stream
  labels come from their closed vocabularies, the disposition, the DNS response code, the alert
  severity and the device category from the code's own and the interface from the box's. A document
  that does not decode still ships, verbatim and without attributes.
\<close>

theorem zen_attributes_typed:
  "case parseDocFull family doc decoded snap of (rec, d, parsed) \<Rightarrow>
     lr_Body rec = doc \<and> d = decoded \<and> parsed = (decoded \<noteq> None) \<and>
     (case lr_Attributes rec of None \<Rightarrow> decoded = None | Some m \<Rightarrow> decoded \<noteq> None \<and>
        list_all (\<lambda>(k, v). (k \<in> set KnownAttributeKeys \<or> k \<in> set geoKeys) \<and> v \<noteq> [] \<and> label_value snap k v) m)"
proof (cases decoded)
  case (Some d)
  have t: "list_all (typed snap) (setEnrich d snap (setFamily family d (setEnvelope d (fst (setAction d (set_attr AttrSubsystem family []))))))"
    by (intro setEnrich_typed setFamily_typed setEnvelope_typed setAction_typed set_attr_typed) simp_all
  have "typed snap = (\<lambda>(k, v). (k \<in> set KnownAttributeKeys \<or> k \<in> set geoKeys) \<and> v \<noteq> [] \<and> label_value snap k v)"
    by (auto simp: typed_def label_key_def)
  then show ?thesis using t Some by (simp add: parseDocFull_def split_beta)
qed (simp add: parseDocFull_def)

end
