(* ===== verification/ZenExclude.thy ===== *)
theory ZenExclude
  imports ZenParse
begin

text \<open>
  The exclude rules of the Zenarmor lane (\<^verbatim>\<open>internal/logship/zenarmor/exclude.go\<close>): parsing and validating
  the rules at startup, matching them against a record's attributes, and the suggestion an error
  carries for a mistyped field. \<^verbatim>\<open>regexp.Compile\<close> is an argument: a compiled expression is the
  predicate its \<^verbatim>\<open>MatchString\<close> decides.
\<close>

section \<open>Edit distance\<close>

text \<open>One row of the table: \<open>left\<close> is \<^verbatim>\<open>cur[j-1]\<close>, the list argument \<^verbatim>\<open>prev[j-1:]\<close>.\<close>

fun rowLoop :: "char \<Rightarrow> string \<Rightarrow> nat list \<Rightarrow> nat \<Rightarrow> nat list" where
  "rowLoop x (y # ys) (p0 # p1 # ps) left =
     (let c = Min {left + 1, p1 + 1, p0 + (if x = y then 0 else 1)} in c # rowLoop x ys (p1 # ps) c)"
| "rowLoop x _ _ left = []"

fun tableLoop :: "nat \<Rightarrow> string \<Rightarrow> string \<Rightarrow> nat list \<Rightarrow> nat list" where
  "tableLoop i [] b prev = prev"
| "tableLoop i (x # xs) b prev = tableLoop (Suc i) xs b (i # rowLoop x b prev i)"

definition editDistanceWithin :: "string \<Rightarrow> string \<Rightarrow> nat \<Rightarrow> bool" where
  "editDistanceWithin a b mx \<longleftrightarrow>
     (if a = b then True
      else if int mx < int (length a) - int (length b) \<or> int mx < int (length b) - int (length a) then False
      else tableLoop 1 a b [0..<Suc (length b)] ! length b \<le> mx)"

section \<open>Rules\<close>

record ExcludeRule =
  ex_Raw :: string
  ex_Field :: string
  ex_Re :: "string \<Rightarrow> bool"

definition excludeOp :: string where
  "excludeOp = ''=~''"

text \<open>\<^verbatim>\<open>strings.Cut\<close>: around the first occurrence.\<close>

fun Cut :: "string \<Rightarrow> string \<Rightarrow> (string \<times> string) option" where
  "Cut [] sep = (if sep = [] then Some ([], []) else None)"
| "Cut (c # s) sep =
     (if take (length sep) (c # s) = sep then Some ([], drop (length sep) (c # s))
      else map_option (\<lambda>(before, after). (c # before, after)) (Cut s sep))"

text \<open>The names within two edits of the field, in order.\<close>

definition suggest :: "string \<Rightarrow> string list \<Rightarrow> string" where
  "suggest field known =
     (let near = filter (\<lambda>k. editDistanceWithin field k 2) known
      in if near = [] then [] else '' (did you mean '' @ join_with '' or '' (sort near) @ ''?)'')"

text \<open>The errors, with what their messages quote.\<close>

datatype excludeError =
  NotARule string
| EmptyField string
| EmptyRegex string string
| UnknownField string string string
| InvalidRegex string

definition parseRule :: "(string \<Rightarrow> (string \<Rightarrow> bool) option) \<Rightarrow> string \<Rightarrow> excludeError + ExcludeRule" where
  "parseRule compile entry =
     (case Cut entry excludeOp of
        None \<Rightarrow> Inl (NotARule entry)
      | Some (f, expr) \<Rightarrow>
          let field = TrimSpace f in
          if field = [] then Inl (EmptyField entry)
          else if expr = [] then Inl (EmptyRegex entry field)
          else if field \<notin> set KnownAttributeKeys then Inl (UnknownField field entry (suggest field KnownAttributeKeys))
          else (case compile expr of
                  None \<Rightarrow> Inl (InvalidRegex entry)
                | Some re \<Rightarrow> Inr \<lparr>ex_Raw = entry, ex_Field = field, ex_Re = re\<rparr>))"

fun parseLoop :: "(string \<Rightarrow> (string \<Rightarrow> bool) option) \<Rightarrow> string list \<Rightarrow> ExcludeRule list \<Rightarrow> excludeError + ExcludeRule list" where
  "parseLoop compile [] rules = Inr rules"
| "parseLoop compile (raw # raws) rules =
     (let entry = TrimSpace raw in
      if entry = [] then parseLoop compile raws rules
      else case parseRule compile entry of
        Inl e \<Rightarrow> Inl e
      | Inr r \<Rightarrow> parseLoop compile raws (rules @ [r]))"

definition parseExcludeRules :: "(string \<Rightarrow> (string \<Rightarrow> bool) option) \<Rightarrow> string list \<Rightarrow> excludeError + ExcludeRule list" where
  "parseExcludeRules compile raw = (if raw = [] then Inr [] else parseLoop compile raw [])"

fun excludedBy :: "ExcludeRule list \<Rightarrow> attrs \<Rightarrow> ExcludeRule option" where
  "excludedBy [] m = None"
| "excludedBy (r # rs) m =
     (case map_of m (ex_Field r) of
        None \<Rightarrow> excludedBy rs m
      | Some v \<Rightarrow> if ex_Re r v then Some r else excludedBy rs m)"

section \<open>The distance is the distance\<close>

text \<open>
  The reference: \<open>script n a b\<close> when \<open>a\<close> becomes \<open>b\<close> by keeping characters and by \<open>n\<close> replacements,
  deletions and insertions.
\<close>

inductive script :: "nat \<Rightarrow> string \<Rightarrow> string \<Rightarrow> bool" where
  finished: "script 0 [] []"
| keep: "script n a b \<Longrightarrow> script n (x # a) (x # b)"
| replace: "script n a b \<Longrightarrow> script (Suc n) (x # a) (y # b)"
| remove: "script n a b \<Longrightarrow> script (Suc n) (x # a) b"
| add: "script n a b \<Longrightarrow> script (Suc n) a (y # b)"

inductive_cases script_NilNil: "script n [] []"
inductive_cases script_NilCons: "script n [] (y # b)"
inductive_cases script_ConsNil: "script n (x # a) []"
inductive_cases script_ConsCons: "script n (x # a) (y # b)"

fun lev :: "string \<Rightarrow> string \<Rightarrow> nat" where
  "lev [] b = length b"
| "lev a [] = length a"
| "lev (x # a) (y # b) = Min {lev (x # a) b + 1, lev a (y # b) + 1, lev a b + (if x = y then 0 else 1)}"

section \<open>Correctness of the table\<close>

lemma lev_Nil [simp]: "lev a [] = length a"
  by (cases a) simp_all

lemma lev_script: "script (lev a b) a b"
proof (induction a b rule: lev.induct)
  case (1 b)
  show ?case by (induction b) (auto intro: script.intros)
next
  case (2 x a)
  show ?case by (induction a arbitrary: x) (auto intro: script.intros)
next
  case (3 x a y b)
  show ?case using 3 by (auto simp: min_def intro: script.intros)
qed

lemma lev_least: "script n a b \<Longrightarrow> lev a b \<le> n"
proof (induction rule: script.induct)
  case (keep n a b x)
  then show ?case by simp
next
  case (replace n a b x y)
  then show ?case by (auto simp: min_def)
next
  case (remove n a b x)
  show ?case using remove.IH by (cases b) auto
next
  case (add n a b y)
  show ?case using add.IH by (cases a) auto
qed simp

lemma lev_le_iff: "lev a b \<le> m \<longleftrightarrow> (\<exists>n\<le>m. script n a b)"
  using lev_script lev_least le_trans by blast

lemma script_append: "script n a b \<Longrightarrow> script m c d \<Longrightarrow> script (n + m) (a @ c) (b @ d)"
  by (induction rule: script.induct) (auto intro: script.intros)

lemma script_rev: "script n a b \<Longrightarrow> script n (rev a) (rev b)"
proof (induction rule: script.induct)
  case (keep n a b x)
  from script_append [OF keep.IH script.keep [OF script.finished]] show ?case by simp
next
  case (replace n a b x y)
  from script_append [OF replace.IH script.replace [OF script.finished]] show ?case by simp
next
  case (remove n a b x)
  from script_append [OF remove.IH script.remove [OF script.finished]] show ?case by simp
next
  case (add n a b y)
  from script_append [OF add.IH script.add [OF script.finished]] show ?case by simp
qed (simp add: script.finished)

lemma lev_rev: "lev (rev a) (rev b) = lev a b"
proof (rule antisym)
  show "lev (rev a) (rev b) \<le> lev a b" using script_rev [OF lev_script] by (rule lev_least)
  show "lev a b \<le> lev (rev a) (rev b)" using script_rev [OF lev_script, of "rev a" "rev b"] lev_least by simp
qed

lemma lev_length: "length a \<le> length b + lev a b \<and> length b \<le> length a + lev a b"
proof -
  have "script n a b \<Longrightarrow> length a \<le> length b + n \<and> length b \<le> length a + n" for n
    by (induction rule: script.induct) auto
  then show ?thesis using lev_script by blast
qed

lemma lev_same: "lev a a = 0"
proof -
  have "script 0 a a" by (induction a) (auto intro: script.intros)
  then show ?thesis using lev_least by fastforce
qed

text \<open>A row of the table holds the distances of a prefix to the prefixes of \<open>b\<close>, read backwards.\<close>

definition rowOf :: "string \<Rightarrow> string \<Rightarrow> string \<Rightarrow> nat list" where
  "rowOf a' done ys = map (\<lambda>j. lev a' (rev (take j ys) @ done)) [0..<Suc (length ys)]"

lemma rowOf_Nil: "rowOf a' d [] = [lev a' d]"
  by (simp add: rowOf_def)

lemma rowOf_Cons: "rowOf a' d (y # ys) = lev a' d # rowOf a' (y # d) ys"
proof -
  have "[0..<Suc (length (y # ys))] = 0 # map Suc [0..<Suc (length ys)]" by (simp add: map_Suc_upt upt_conv_Cons del: upt_Suc)
  then show ?thesis by (simp add: rowOf_def comp_def del: upt_Suc)
qed

lemma rowOf_ne: "rowOf a' d ys = lev a' d # tl (rowOf a' d ys)"
  by (cases ys) (simp_all add: rowOf_Nil rowOf_Cons)

lemma rowLoop_row:
  "rowLoop x ys (rowOf a' d ys) (lev (x # a') d) = tl (rowOf (x # a') d ys)"
proof (induction ys arbitrary: d)
  case Nil
  then show ?case by (simp add: rowOf_Nil)
next
  case (Cons y ys)
  have r: "rowOf a' d (y # ys) = lev a' d # lev a' (y # d) # tl (rowOf a' (y # d) ys)"
    using rowOf_ne [of a' "y # d" ys] by (simp add: rowOf_Cons)
  have c: "Min {lev (x # a') d + 1, lev a' (y # d) + 1, lev a' d + (if x = y then 0 else 1)} = lev (x # a') (y # d)" by simp
  have "rowLoop x (y # ys) (rowOf a' d (y # ys)) (lev (x # a') d) =
      lev (x # a') (y # d) # rowLoop x ys (lev a' (y # d) # tl (rowOf a' (y # d) ys)) (lev (x # a') (y # d))"
    unfolding r by (simp only: rowLoop.simps Let_def c)
  also have "\<dots> = lev (x # a') (y # d) # tl (rowOf (x # a') (y # d) ys)"
    using Cons.IH [of "y # d"] rowOf_ne [of a' "y # d" ys] by simp
  also have "\<dots> = tl (rowOf (x # a') d (y # ys))" using rowOf_ne [of "x # a'" "y # d" ys] by (simp add: rowOf_Cons)
  finally show ?case .
qed

lemma tableLoop_row:
  "tableLoop (Suc (length a')) xs b (rowOf a' [] b) = rowOf (rev xs @ a') [] b"
proof (induction xs arbitrary: a')
  case (Cons x xs)
  have "Suc (length a') # rowLoop x b (rowOf a' [] b) (Suc (length a')) = rowOf (x # a') [] b"
    using rowLoop_row [of x b a' "[]"] rowOf_ne [of "x # a'" "[]" b] by simp
  then show ?case using Cons.IH [of "x # a'"] by simp
qed simp

text \<open>
  The two-row table computes the edit distance: a field is suggested for another exactly when one
  becomes the other by at most the given number of replacements, deletions and insertions of
  single characters.
\<close>

theorem edit_distance_correct:
  "editDistanceWithin a b mx \<longleftrightarrow> (\<exists>n\<le>mx. script n a b)"
proof -
  have first: "[0..<Suc (length b)] = rowOf [] [] b" by (auto simp: rowOf_def simp del: upt_Suc intro!: nth_equalityI)
  have "tableLoop 1 a b [0..<Suc (length b)] ! length b = lev (rev a) (rev b)"
    using tableLoop_row [of "[]" a b] unfolding first by (simp add: rowOf_def del: upt_Suc)
  then show ?thesis
    using lev_rev [of a b] lev_le_iff [of a b mx] lev_length [of a b] lev_same [of a] by (auto simp: editDistanceWithin_def)
qed

section \<open>Rules are what was written\<close>

lemma Cut_Some: "Cut s sep = Some (f, x) \<Longrightarrow> s = f @ sep @ x"
proof (induction s arbitrary: f)
  case (Cons c s)
  then show ?case
    by (auto split: if_splits) (metis append_take_drop_id)
qed (simp split: if_splits)

lemma Cut_None: "Cut s sep = None \<Longrightarrow> s \<noteq> f @ sep @ x"
proof (induction s arbitrary: f)
  case (Cons c s)
  show ?case
  proof
    assume e: "c # s = f @ sep @ x"
    show False
    proof (cases f)
      case Nil
      then have "take (length sep) (c # s) = sep" using e by (metis append_Nil append_eq_conv_conj)
      then show False using Cons.prems by simp
    next
      case (Cons d g)
      then show False using Cons.IH [of g] Cons.prems e by (auto split: if_splits)
    qed
  qed
qed (simp split: if_splits)

lemma Cut_first: "Cut s sep = Some (f, x) \<Longrightarrow> s = f' @ sep @ x' \<Longrightarrow> length f \<le> length f'"
proof (induction s arbitrary: f f')
  case (Cons c s)
  show ?case
  proof (cases f')
    case Nil
    then have "take (length sep) (c # s) = sep" using Cons.prems(2) by (metis append_Nil append_eq_conv_conj)
    then show ?thesis using Cons.prems(1) by simp
  next
    case (Cons d g)
    then show ?thesis using Cons.IH [of _ g] Cons.prems by (auto split: if_splits)
  qed
qed (simp split: if_splits)

text \<open>
  A rule as the flag's documentation describes it: a known field, the operator at its first
  occurrence, a non-empty expression that compiles.
\<close>

definition rule_ok :: "(string \<Rightarrow> (string \<Rightarrow> bool) option) \<Rightarrow> ExcludeRule \<Rightarrow> bool" where
  "rule_ok compile r \<longleftrightarrow> (\<exists>f x. ex_Raw r = f @ ''=~'' @ x \<and> (\<forall>f' x'. ex_Raw r = f' @ ''=~'' @ x' \<longrightarrow> length f \<le> length f') \<and>
     ex_Field r = TrimSpace f \<and> ex_Field r \<in> set KnownAttributeKeys \<and> x \<noteq> [] \<and> compile x = Some (ex_Re r))"

lemma blank_unknown: "[] \<notin> set KnownAttributeKeys"
  by (simp add: KnownAttributeKeys_def)

lemma parseRule_spec:
  "case parseRule compile e of Inr r \<Rightarrow> ex_Raw r = e \<and> rule_ok compile r | Inl err \<Rightarrow> \<forall>r. ex_Raw r = e \<longrightarrow> \<not> rule_ok compile r"
proof (cases "Cut e ''=~''")
  case None
  then show ?thesis using Cut_None [OF None] by (auto simp: parseRule_def excludeOp_def rule_ok_def)
next
  case (Some p)
  obtain f x where p: "p = (f, x)" by fastforce
  note c = Some [unfolded p]
  have e: "e = f @ ''=~'' @ x" by (rule Cut_Some [OF c])
  have least: "\<forall>f' x'. e = f' @ ''=~'' @ x' \<longrightarrow> length f \<le> length f'" using Cut_first [OF c] by blast
  have only: "f' = f \<and> x' = x" if "e = f' @ ''=~'' @ x'" "\<forall>g y. e = g @ ''=~'' @ y \<longrightarrow> length f' \<le> length g" for f' x'
  proof -
    have "length f' = length f" using that(2) e least that(1) by (blast intro: antisym)
    then show ?thesis using that(1) e by simp
  qed
  have bad: "\<not> rule_ok compile r"
    if raw: "ex_Raw r = e" and fails: "TrimSpace f \<notin> set KnownAttributeKeys \<or> x = [] \<or> compile x = None" for r
  proof
    assume "rule_ok compile r"
    then obtain g y where "e = g @ ''=~'' @ y \<and> (\<forall>f' x'. e = f' @ ''=~'' @ x' \<longrightarrow> length g \<le> length f') \<and>
        ex_Field r = TrimSpace g \<and> ex_Field r \<in> set KnownAttributeKeys \<and> y \<noteq> [] \<and> compile y = Some (ex_Re r)"
      unfolding rule_ok_def raw by (elim exE)
    then have g: "e = g @ ''=~'' @ y" "\<forall>f' x'. e = f' @ ''=~'' @ x' \<longrightarrow> length g \<le> length f'"
        "TrimSpace g \<in> set KnownAttributeKeys" "y \<noteq> []" "compile y \<noteq> None" by (blast, blast, metis, blast, metis option.distinct(1))
    from only [OF g(1,2)] g(3-5) fails show False by auto
  qed
  have good: "rule_ok compile \<lparr>ex_Raw = e, ex_Field = TrimSpace f, ex_Re = re\<rparr>"
    if "TrimSpace f \<in> set KnownAttributeKeys" "x \<noteq> []" "compile x = Some re" for re
    unfolding rule_ok_def by (intro exI [of _ f] exI [of _ x]) (use e least that in simp)
  show ?thesis using c blank_unknown bad good by (auto simp: parseRule_def excludeOp_def Let_def split: option.splits)
qed

lemma parseLoop_spec:
  "case parseLoop compile raws rules of
     Inr rs \<Rightarrow> \<exists>new. rs = rules @ new \<and> map ex_Raw new = filter (\<lambda>e. e \<noteq> []) (map TrimSpace raws) \<and> list_all (rule_ok compile) new
   | Inl err \<Rightarrow> list_ex (\<lambda>e. TrimSpace e \<noteq> [] \<and> (\<nexists>r. ex_Raw r = TrimSpace e \<and> rule_ok compile r)) raws"
proof (induction raws arbitrary: rules)
  case (Cons raw raws)
  show ?case
  proof (cases "TrimSpace raw = []")
    case True
    then show ?thesis using Cons.IH [of rules] by (auto split: sum.splits)
  next
    case False
    show ?thesis
    proof (cases "parseRule compile (TrimSpace raw)")
      case (Inl err)
      then show ?thesis using False parseRule_spec [where compile = compile and e = "TrimSpace raw"] by (auto simp: Let_def)
    next
      case (Inr r)
      then have r: "ex_Raw r = TrimSpace raw" "rule_ok compile r" using parseRule_spec [where compile = compile and e = "TrimSpace raw"] by auto
      show ?thesis using False Inr r Cons.IH [of "rules @ [r]"] by (auto simp: Let_def split: sum.splits)
    qed
  qed
qed simp

text \<open>
  Exclude rules are all or nothing: either every non-blank entry becomes one rule, in order, with
  the field and the expression as written around the first operator and the field one the parser
  can set; or the whole list is refused, and then some entry is not a rule.
\<close>

theorem exclude_rules_total:
  "case parseExcludeRules compile raw of
     Inr rules \<Rightarrow> map ex_Raw rules = filter (\<lambda>e. e \<noteq> []) (map TrimSpace raw) \<and> list_all (rule_ok compile) rules
   | Inl err \<Rightarrow> list_ex (\<lambda>e. TrimSpace e \<noteq> [] \<and> (\<nexists>r. ex_Raw r = TrimSpace e \<and> rule_ok compile r)) raw"
  using parseLoop_spec [of compile raw "[]"] by (cases "raw = []") (auto simp: parseExcludeRules_def split: sum.splits)

section \<open>Fields no rule can name\<close>

text \<open>
  The location attributes are on the record and not in the vocabulary: a rule naming one is
  refused although the parser sets the field.
\<close>

theorem geo_attribute_not_excludable:
  "(case lr_Attributes (fst (parseDocFull ''dns'' doc (Some (zenDoc_zero\<lparr>zd_SrcGeoIP := Some (zenGeo_zero\<lparr>zg_CountryCode2 := ''GB''\<rparr>)\<rparr>)) None)) of
      Some m \<Rightarrow> map_of m ''src_geoip.country_code2'' = Some ''GB'' | None \<Rightarrow> False) \<and>
   (case parseExcludeRules compile [''src_geoip.country_code2=~GB''] of Inl (UnknownField f e s) \<Rightarrow> f = ''src_geoip.country_code2'' | _ \<Rightarrow> False)"
proof
  show "case lr_Attributes (fst (parseDocFull ''dns'' doc (Some (zenDoc_zero\<lparr>zd_SrcGeoIP := Some (zenGeo_zero\<lparr>zg_CountryCode2 := ''GB''\<rparr>)\<rparr>)) None)) of
      Some m \<Rightarrow> map_of m ''src_geoip.country_code2'' = Some ''GB'' | None \<Rightarrow> False"
    by code_simp
  have c: "Cut ''src_geoip.country_code2=~GB'' excludeOp = Some (''src_geoip.country_code2'', ''GB'')" by code_simp
  have t: "TrimSpace ''src_geoip.country_code2=~GB'' = ''src_geoip.country_code2=~GB''"
    "TrimSpace ''src_geoip.country_code2'' = ''src_geoip.country_code2''" by code_simp+
  have u: "''src_geoip.country_code2'' \<notin> set KnownAttributeKeys" by code_simp
  show "case parseExcludeRules compile [''src_geoip.country_code2=~GB''] of Inl (UnknownField f e s) \<Rightarrow> f = ''src_geoip.country_code2'' | _ \<Rightarrow> False"
    using t u by (simp add: parseExcludeRules_def parseRule_def Let_def c del: Cut.simps)
qed

end
