(* ===== verification/ZenFlow.thy ===== *)
theory ZenFlow
  imports ZenParse Processor
begin

text \<open>
  From a Zenarmor conn document to a flow record, and from a dns document to the DNS answer cache
  (\<^verbatim>\<open>internal/logship/zenarmor/flowadapt.go\<close>). The cache and the process-wide GeoIP enricher are
  threaded through the calls that update them.
\<close>

section \<open>Counters, ports, protocols\<close>

definition nonNeg :: "int \<Rightarrow> u64" where
  "nonNeg v = (if v < 0 then 0 else word_of_int v)"

definition zenBytes :: "int \<Rightarrow> int \<Rightarrow> u64 \<times> bool" where
  "zenBytes nbytes pbytes =
     (if 0 < nonNeg nbytes then (nonNeg nbytes, False)
      else if 0 < nonNeg pbytes then (nonNeg pbytes, True)
      else (0, False))"

definition clampPort :: "int \<Rightarrow> u16" where
  "clampPort p = (if p < 0 \<or> 65535 < p then 0 else word_of_int p)"

definition protoNumber :: "string \<Rightarrow> u8" where
  "protoNumber s =
     (let p = ToLower s in
      if p = ''tcp'' \<or> p = ''tcp6'' then 6
      else if p = ''udp'' \<or> p = ''udp6'' then 17
      else if p = ''icmp'' then 1
      else if p = ''icmp6'' \<or> p = ''icmpv6'' \<or> p = ''ipv6-icmp'' then 58
      else if p = ''gre'' then 47
      else if p = ''esp'' then 50
      else if p = ''sctp'' then 132
      else 0)"

definition vlanDevice :: "string \<Rightarrow> string \<Rightarrow> string" where
  "vlanDevice dev vlanID = (if dev = [] \<or> vlanID = [] \<or> vlanID = ''0'' then dev else dev @ ''_vlan'' @ vlanID)"

definition directionOf :: "addr \<Rightarrow> string \<Rightarrow> string \<Rightarrow> string \<Rightarrow> Direction" where
  "directionOf dst srcScope dstScope zenDirection =
     (if addr_IsMulticast dst \<or> addr_IsLinkLocalUnicast dst \<or> addr_IsLinkLocalMulticast dst \<or> addr_IsUnspecified dst
      then DirectionInternal
      else if srcScope \<noteq> [] \<and> dstScope \<noteq> [] \<and> srcScope \<noteq> ''remote'' \<and> dstScope \<noteq> ''remote'' then DirectionInternal
      else let z = ToLower zenDirection in
        if z = ''in'' then DirectionInbound
        else if z = ''out'' then DirectionOutbound
        else DirectionUnknown)"

definition zenGeoInto :: "zenGeo option \<Rightarrow> GeoEndpoint \<Rightarrow> GeoEndpoint" where
  "zenGeoInto go e =
     (case go of
        None \<Rightarrow> e
      | Some g \<Rightarrow> e\<lparr>g_ZenCountry := zg_CountryCode2 g, g_ZenContinent := zg_ContinentCode g,
                     g_ZenCity := zg_CityName g, g_ZenRegion := zg_RegionName g\<rparr>)"

section \<open>The adapter\<close>

text \<open>The record before enrichment.\<close>

definition zenBase :: "zenDoc \<Rightarrow> addr \<Rightarrow> addr \<Rightarrow> time \<Rightarrow> Record" where
  "zenBase d src dst now =
     (let (txBytes, txFell) = zenBytes (zd_SrcNBytes d) (zd_SrcPBytes d);
          (rxBytes, rxFell) = zenBytes (zd_DstNBytes d) (zd_DstPBytes d);
          r = Record_zero\<lparr>r_Source := SourceZenarmor, r_Observed := now, r_Proto := protoNumber (zd_TransportProto d),
                r_SrcAddr := src, r_DstAddr := dst, r_SrcPort := clampPort (zd_SrcPort d), r_DstPort := clampPort (zd_DstPort d),
                r_VLANID := zd_VLANID d, r_In := Iface_zero\<lparr>if_Device := vlanDevice (zd_Interface d) (zd_VLANID d)\<rparr>,
                r_Zen := \<lparr>c_TxBytes = txBytes, c_RxBytes = rxBytes, c_TxPackets = nonNeg (zd_SrcNPackets d),
                          c_RxPackets = nonNeg (zd_DstNPackets d), c_Present = True\<rparr>,
                r_L7 := L7_zero\<lparr>l7_AppName := zd_AppName d, l7_AppProto := zd_AppProto d, l7_AppCategory := zd_AppCategory d,
                          l7_Encryption := zd_Encryption d\<rparr>,
                r_Repairs := Repairs_zero\<lparr>rp_PayloadByteFallback := (txFell \<or> rxFell)\<rparr>\<rparr>;
          r = (if zd_StartTime d \<noteq> 0 then r\<lparr>r_Start := UnixMilli (zd_StartTime d)\<rparr> else r);
          r = (if zd_EndTime d \<noteq> 0 then r\<lparr>r_End := UnixMilli (zd_EndTime d)\<rparr> else r);
          r = (if time_IsZero (r_End r) then r\<lparr>r_End := r_Start r\<rparr> else r);
          r = (case zd_IsBlocked d of
                 None \<Rightarrow> r
               | Some b \<Rightarrow> if b = 0 then r\<lparr>r_Verdict := VerdictPass\<rparr> else if b = 1 then r\<lparr>r_Verdict := VerdictBlock\<rparr> else r);
          r = r\<lparr>r_CommunityID := CommunityID (CanonicalTuple r) 0\<rparr>
      in r\<lparr>r_Geo := \<lparr>geo_Src = zenGeoInto (zd_SrcGeoIP d) (geo_Src (r_Geo r)), geo_Dst = zenGeoInto (zd_DstGeoIP d) (geo_Dst (r_Geo r))\<rparr>\<rparr>)"

text \<open>What the enrichment snapshot adds: the interface name, scopes, host names and the service.\<close>

definition zenInterface :: "Snapshot option \<Rightarrow> Iface \<Rightarrow> Iface" where
  "zenInterface snap f =
     (let f1 = (if if_Device f \<noteq> [] \<and> (case snap of None \<Rightarrow> True | Some s \<Rightarrow> sn_IfaceNames s = []) then f\<lparr>if_Unresolved := True\<rparr> else f)
      in case snap of
           None \<Rightarrow> f1
         | Some s \<Rightarrow> (case Snapshot_InterfaceName s (if_Device f1) of
                         (name, ok) \<Rightarrow> if ok then f1\<lparr>if_Name := name, if_Unresolved := False\<rparr> else f1))"

definition zenEnrichment :: "zenDoc \<Rightarrow> Snapshot option \<Rightarrow> Enrichment \<Rightarrow> Enrichment" where
  "zenEnrichment d snap e =
     (case snap of
        None \<Rightarrow> e
      | Some s \<Rightarrow>
          let e1 = e\<lparr>en_SrcScope := Snapshot_Scope s (zd_SrcIP d), en_DstScope := Snapshot_Scope s (zd_DstIP d),
                     en_SrcHostname := zd_SrcHostname d, en_DstHostname := zd_DstHostname d\<rparr>
          in if zd_DstPort d \<noteq> 0
             then (case ServiceName (FormatInt (zd_DstPort d)) (ToLower (zd_TransportProto d)) of
                     (svc, ok) \<Rightarrow> if ok then e1\<lparr>en_DstService := svc\<rparr> else e1)
             else e1)"

definition zenDomain :: "addr \<Rightarrow> addr \<Rightarrow> time \<Rightarrow> Record \<Rightarrow> DNSCache option \<Rightarrow> Record \<times> DNSCache option" where
  "zenDomain src dst now r cache =
     (case cache of
        None \<Rightarrow> (r, None)
      | Some c \<Rightarrow> (case DNSCache_Lookup src dst now c of
                      (c', Some name) \<Rightarrow> (r\<lparr>r_Enrich := (r_Enrich r)\<lparr>en_DstDomain := name\<rparr>\<rparr>, Some c')
                    | (c', None) \<Rightarrow> (r, Some c')))"

definition flowFromDoc :: "string \<Rightarrow> zenDoc option \<Rightarrow> Snapshot option \<Rightarrow> time \<Rightarrow> DNSCache option \<Rightarrow> GeoEnricher option
    \<Rightarrow> Record option \<times> DNSCache option \<times> GeoEnricher option" where
  "flowFromDoc family dopt snap now cache g =
     (case dopt of
        None \<Rightarrow> (None, cache, g)
      | Some d \<Rightarrow>
          if family \<noteq> ''flow'' then (None, cache, g)
          else case ParseAddr (zd_SrcIP d) of
            None \<Rightarrow> (None, cache, g)
          | Some src0 \<Rightarrow> (case ParseAddr (zd_DstIP d) of
              None \<Rightarrow> (None, cache, g)
            | Some dst0 \<Rightarrow>
                let src = addr_Unmap src0; dst = addr_Unmap dst0;
                    r = zenBase d src dst now;
                    r = r\<lparr>r_In := zenInterface snap (r_In r), r_Enrich := zenEnrichment d snap (r_Enrich r)\<rparr>;
                    r = r\<lparr>r_Direction := directionOf dst (en_SrcScope (r_Enrich r)) (en_DstScope (r_Enrich r)) (zd_Direction d)\<rparr>;
                    (r, cache') = zenDomain src dst now r cache;
                    (r, g') = Geo_Enrich r g
                in (Some r, cache', g')))"

section \<open>Feeding the DNS cache\<close>

definition isAnswerSep :: "char \<Rightarrow> bool" where
  "isAnswerSep c \<longleftrightarrow> c = CHR '','' \<or> c = CHR '';'' \<or> c = CHR '' '' \<or> c = CHR 0x09"

text \<open>\<^verbatim>\<open>strings.FieldsFunc\<close>: the maximal runs of other characters.\<close>

fun FieldsFunc :: "(char \<Rightarrow> bool) \<Rightarrow> string \<Rightarrow> string list" where
  "FieldsFunc p [] = []"
| "FieldsFunc p (c # s) =
     (if p c then FieldsFunc p s
      else case s of
        [] \<Rightarrow> [[c]]
      | c' # _ \<Rightarrow> if p c' then [c] # FieldsFunc p s
                  else (case FieldsFunc p s of [] \<Rightarrow> [[c]] | w # ws \<Rightarrow> (c # w) # ws))"

definition putAnswer :: "addr \<Rightarrow> string \<Rightarrow> time \<Rightarrow> string \<Rightarrow> DNSCache \<Rightarrow> DNSCache" where
  "putAnswer client query now tok c = (case ParseAddr tok of Some answer \<Rightarrow> DNSCache_Put client answer query now c | None \<Rightarrow> c)"

definition feedDNSCache :: "zenDoc option \<Rightarrow> time \<Rightarrow> DNSCache \<Rightarrow> DNSCache" where
  "feedDNSCache dopt now c =
     (case dopt of
        None \<Rightarrow> c
      | Some d \<Rightarrow>
          if zd_Query d = [] \<or> zd_Answers d = [] then c
          else case ParseAddr (zd_SrcIP d) of
            None \<Rightarrow> c
          | Some client \<Rightarrow> fold (putAnswer client (zd_Query d) now) (FieldsFunc isAnswerSep (zd_Answers d)) c)"

section \<open>Attributes of the shipped document\<close>

definition addFlowAttrs :: "Record \<Rightarrow> attrs \<Rightarrow> attrs" where
  "addFlowAttrs fr m =
     (let m = (if r_CommunityID fr \<noteq> [] then AList.update ''flow.community_id'' (r_CommunityID fr) m else m);
          m = (if Direction_String (r_Direction fr) \<noteq> ''unknown'' then AList.update ''flow.direction'' (Direction_String (r_Direction fr)) m else m);
          m = (if interfaceLabel fr \<noteq> [] then AList.update ''flow.interface'' (interfaceLabel fr) m else m)
      in if en_DstDomain (r_Enrich fr) \<noteq> [] then AList.update ''dst.domain'' (en_DstDomain (r_Enrich fr)) m else m)"

section \<open>An answer fed is an answer found\<close>

lemma FieldsFunc_word:
  "w \<noteq> [] \<Longrightarrow> list_all (\<lambda>c. \<not> p c) w \<Longrightarrow> FieldsFunc p w = [w]"
proof (induction w)
  case (Cons c w)
  then show ?case by (cases w) auto
qed simp

lemma FieldsFunc_word_sep:
  "w \<noteq> [] \<Longrightarrow> list_all (\<lambda>c. \<not> p c) w \<Longrightarrow> p s \<Longrightarrow> FieldsFunc p (w @ s # tail) = w # FieldsFunc p tail"
proof (induction w)
  case (Cons c w)
  then show ?case by (cases w) auto
qed simp

lemma FieldsFunc_join:
  assumes "p s"
  shows "list_all (\<lambda>w. w \<noteq> [] \<and> list_all (\<lambda>c. \<not> p c) w) ws \<Longrightarrow> FieldsFunc p (join_with [s] ws) = ws"
proof (induction ws)
  case (Cons w ws)
  show ?case
  proof (cases ws)
    case Nil
    then show ?thesis using Cons.prems by (simp add: join_with_def FieldsFunc_word)
  next
    case (Cons v vs)
    have "join_with [s] (w # ws) = w @ s # join_with [s] ws" by (simp add: join_with_def Cons)
    then show ?thesis using Cons.IH Cons.prems assms by (simp add: FieldsFunc_word_sep)
  qed
qed (simp add: join_with_def)

definition dnsShape :: "DNSCache \<Rightarrow> int \<times> duration" where
  "dnsShape c = (dc_size c, dc_ttl c)"

text \<open>A put into a cache with room.\<close>

lemma Put_room:
  assumes "0 < dc_size c" "int (length (dc_entries c)) < dc_size c"
  shows "dc_entries (DNSCache_Put client answer q now c) =
      AList.update (dnsKeyOf client answer) \<lparr>de_qname = q, de_added = now\<rparr> (dc_entries c)"
    "dnsShape (DNSCache_Put client answer q now c) = dnsShape c"
  using assms by (simp_all add: DNSCache_Put_def Let_def dnsShape_def)

lemma update_length: "length (AList.update k v m) \<le> Suc (length m)"
  by (induction m) auto

lemma putAnswer_room:
  assumes "0 < dc_size c" "int (length (dc_entries c)) < dc_size c"
  shows "length (dc_entries (putAnswer client q now tok c)) \<le> Suc (length (dc_entries c))"
    "dnsShape (putAnswer client q now tok c) = dnsShape c"
    "map_of (dc_entries c) k = Some \<lparr>de_qname = q, de_added = now\<rparr> \<Longrightarrow>
       map_of (dc_entries (putAnswer client q now tok c)) k = Some \<lparr>de_qname = q, de_added = now\<rparr>"
    "ParseAddr tok = Some a \<Longrightarrow> map_of (dc_entries (putAnswer client q now tok c)) (dnsKeyOf client a) = Some \<lparr>de_qname = q, de_added = now\<rparr>"
  using Put_room [OF assms] update_length by (auto simp: putAnswer_def map_of_update_conv split: option.split)

lemma fold_putAnswer:
  assumes "0 < dc_size c" "int (length (dc_entries c) + length toks) \<le> dc_size c"
    and "(\<exists>tok\<in>set toks. ParseAddr tok = Some a) \<or> map_of (dc_entries c) (dnsKeyOf client a) = Some \<lparr>de_qname = q, de_added = now\<rparr>"
  shows "map_of (dc_entries (fold (putAnswer client q now) toks c)) (dnsKeyOf client a) = Some \<lparr>de_qname = q, de_added = now\<rparr> \<and>
     dnsShape (fold (putAnswer client q now) toks c) = dnsShape c"
  using assms
proof (induction toks arbitrary: c)
  case (Cons tok toks)
  let ?c = "putAnswer client q now tok c"
  have room: "0 < dc_size c" "int (length (dc_entries c)) < dc_size c" using Cons.prems(1,2) by simp_all
  note put = putAnswer_room [OF room, where client = client and q = q and now = now and tok = tok]
  have "dc_size ?c = dc_size c" using put(2) by (simp add: dnsShape_def)
  moreover have "(\<exists>tok\<in>set toks. ParseAddr tok = Some a) \<or> map_of (dc_entries ?c) (dnsKeyOf client a) = Some \<lparr>de_qname = q, de_added = now\<rparr>"
    using Cons.prems(3) put(3,4) by auto
  ultimately show ?case using Cons.IH [of ?c] Cons.prems(1,2) put(1,2) by simp
qed auto

lemma Geo_Enrich_keeps: "r_Enrich (fst (Geo_Enrich r g)) = r_Enrich r"
  by (simp add: Geo_Enrich_def Let_def split_beta split: option.split)

lemma dnsKeyOf_Unmap [simp]: "dnsKeyOf (addr_Unmap a) (addr_Unmap b) = dnsKeyOf a b"
  by (simp add: dnsKeyOf_def)

text \<open>
  The domain a client looked up comes back on the flows it then opens: once a dns document with a
  client, a query and a list of answers has been fed to a cache with room for them, a conn
  document from that client to one of the answers, within the time to live, becomes a flow record
  that names the query, however either document spells the addresses.
\<close>

theorem dns_answer_roundtrip:
  assumes "zd_Query d = q" "q \<noteq> []" "zd_Answers d = join_with '','' toks" "toks \<noteq> []"
    and "list_all (\<lambda>w. w \<noteq> [] \<and> list_all (\<lambda>c. \<not> isAnswerSep c) w) toks"
    and "ParseAddr (zd_SrcIP d) = Some client" "tok \<in> set toks" "ParseAddr tok = Some answer"
    and "0 < dc_size c" "int (length (dc_entries c) + length toks) \<le> dc_size c" "time_Sub later now \<le> dc_ttl c"
    and "ParseAddr (zd_SrcIP f) = Some src" "addr_Unmap src = addr_Unmap client"
    and "ParseAddr (zd_DstIP f) = Some dst" "addr_Unmap dst = addr_Unmap answer"
  shows "map_option (\<lambda>r. en_DstDomain (r_Enrich r)) (fst (flowFromDoc ''flow'' (Some f) snap later (Some (feedDNSCache (Some d) now c)) g)) = Some q"
proof -
  let ?c = "feedDNSCache (Some d) now c"
  have "isAnswerSep (CHR '','')" by (simp add: isAnswerSep_def)
  from FieldsFunc_join [of isAnswerSep, OF this assms(5)] have "FieldsFunc isAnswerSep (zd_Answers d) = toks" using assms(3) by simp
  moreover have "zd_Answers d \<noteq> []" using assms(3-5) by (cases toks) (auto simp: join_with_def)
  ultimately have "?c = fold (putAnswer client q now) toks c" using assms(1,2,6) by (simp add: feedDNSCache_def)
  with fold_putAnswer [of c toks answer client q now] assms(7-10)
  have e: "map_of (dc_entries ?c) (dnsKeyOf client answer) = Some \<lparr>de_qname = q, de_added = now\<rparr>" "dc_size ?c = dc_size c" "dc_ttl ?c = dc_ttl c"
    by (auto simp: dnsShape_def)
  have "dnsKeyOf (addr_Unmap src) (addr_Unmap dst) = dnsKeyOf client answer" using assms(13,15) by (simp add: dnsKeyOf_def)
  then have "snd (DNSCache_Lookup (addr_Unmap src) (addr_Unmap dst) later ?c) = Some q"
    using e assms(9,11) by (simp add: DNSCache_Lookup_def expired_def)
  then have "en_DstDomain (r_Enrich (fst (zenDomain (addr_Unmap src) (addr_Unmap dst) later r (Some ?c)))) = q" for r
    by (cases "DNSCache_Lookup (addr_Unmap src) (addr_Unmap dst) later ?c") (simp add: zenDomain_def)
  then show ?thesis using assms(12,14) by (simp add: flowFromDoc_def Let_def split_beta Geo_Enrich_keeps)
qed

lemma sample_addrs:
  "ParseAddr ''10.0.0.5'' = Some (AddrV4 0x0A000005)" "ParseAddr ''9.9.9.9'' = Some (AddrV4 0x09090909)"
  by (simp_all add: parse_text)

theorem dns_answer_roundtrip_witness:
  "map_option (\<lambda>r. en_DstDomain (r_Enrich r)) (fst (flowFromDoc ''flow''
     (Some (zenDoc_zero\<lparr>zd_SrcIP := ''10.0.0.5'', zd_DstIP := ''9.9.9.9''\<rparr>)) None 8
     (Some (feedDNSCache (Some (zenDoc_zero\<lparr>zd_SrcIP := ''10.0.0.5'', zd_Query := ''quad9.net'',
        zd_Answers := ''1.1.1.1,9.9.9.9''\<rparr>)) 5 (NewDNSCache 4 10))) None)) = Some ''quad9.net''"
  by (rule dns_answer_roundtrip [where toks = "[''1.1.1.1'', ''9.9.9.9'']" and tok = "''9.9.9.9''" and client = "AddrV4 0x0A000005"
        and src = "AddrV4 0x0A000005" and answer = "AddrV4 0x09090909" and dst = "AddrV4 0x09090909"])
    (simp_all add: sample_addrs join_with_def isAnswerSep_def NewDNSCache_def time_Sub_def max_int64_def min_int64_def)

end
