(* ===== verification/CivilTime.thy ===== *)
theory CivilTime
  imports Prelude
begin

text \<open>
  The calendar part of Go's \<^verbatim>\<open>time\<close> package that the syslog receiver uses: \<^verbatim>\<open>time.Date\<close> with its
  normalisation, \<^verbatim>\<open>Time.Year\<close>, \<^verbatim>\<open>Time.Date\<close> and \<^verbatim>\<open>Time.AddDate\<close>, on the scale of the prelude (nanoseconds
  since Go's zero instant, 1 January of year 1, UTC). A \<^verbatim>\<open>Location\<close> is its offset east of UTC in seconds;
  zones whose offset changes are not modelled.
\<close>

section \<open>Days and years\<close>

definition isLeap :: "int \<Rightarrow> bool" where
  "isLeap y \<longleftrightarrow> y mod 4 = 0 \<and> (y mod 100 \<noteq> 0 \<or> y mod 400 = 0)"

text \<open>Days from 1 January of year 1 to 1 January of year \<open>y\<close>.\<close>

definition yearStart :: "int \<Rightarrow> int" where
  "yearStart y = 365 * (y - 1) + (y - 1) div 4 - (y - 1) div 100 + (y - 1) div 400"

lemma div_step: "0 < n \<Longrightarrow> k div n \<le> (k + 1) div n \<and> (k + 1) div n \<le> k div n + 1" for k n :: int
proof -
  assume n: "0 < n"
  have "(k + 1) div n \<le> (k + n) div n" using n by (intro zdiv_mono1) auto
  also have "\<dots> = k div n + 1" using n div_add_self2 [of n k] by simp
  finally show ?thesis using zdiv_mono1 [of k "k + 1" n] n by simp
qed

lemma div_step_eq:
  fixes k n :: int
  assumes "0 < n"
  shows "(k + 1) div n = k div n + (if (k + 1) mod n = 0 then 1 else 0)"
proof -
  have a: "n * ((k + 1) div n) + (k + 1) mod n = k + 1" "n * (k div n) + k mod n = k" by (rule mult_div_mod_eq)+
  have b: "0 \<le> k mod n" "k mod n < n" "0 \<le> (k + 1) mod n" "(k + 1) mod n < n" using assms by simp_all
  have "(k + 1) div n = k div n \<or> (k + 1) div n = k div n + 1" using div_step [OF assms, of k] by linarith
  then show ?thesis
  proof
    assume e: "(k + 1) div n = k div n"
    then have "(k + 1) mod n = k mod n + 1" using a unfolding e by linarith
    then have "(k + 1) mod n \<noteq> 0" using b by linarith
    then show ?thesis using e by simp
  next
    assume e: "(k + 1) div n = k div n + 1"
    then have "n * ((k + 1) div n) = n * (k div n) + n" by (simp add: algebra_simps)
    then have "n + (k + 1) mod n = k mod n + 1" using a by linarith
    then have "(k + 1) mod n = 0" using b by linarith
    then show ?thesis using e by simp
  qed
qed

lemma div_pred: "0 < n \<Longrightarrow> y div n = (y - 1) div n + (if y mod n = 0 then 1 else 0)" for y n :: int
  using div_step_eq [of n "y - 1"] by simp

lemma yearStart_step: "yearStart (y + 1) = yearStart y + (if isLeap y then 366 else 365)"
proof -
  have d: "y div 4 = (y - 1) div 4 + (if y mod 4 = 0 then 1 else 0)"
    "y div 100 = (y - 1) div 100 + (if y mod 100 = 0 then 1 else 0)"
    "y div 400 = (y - 1) div 400 + (if y mod 400 = 0 then 1 else 0)"
    by (rule div_pred, simp)+
  have "100 dvd y \<longrightarrow> 4 dvd y" "400 dvd y \<longrightarrow> 100 dvd y"
    using dvd_trans [of "4 :: int" 100 y] dvd_trans [of "100 :: int" 400 y] by simp_all
  then have m: "y mod 100 = 0 \<longrightarrow> y mod 4 = 0" "y mod 400 = 0 \<longrightarrow> y mod 100 = 0"
    unfolding mod_eq_0_iff_dvd by blast+
  define p q r where "p = (y - 1) div 4" and "q = (y - 1) div 100" and "r = (y - 1) div 400"
  define A B C where "A \<longleftrightarrow> y mod 4 = 0" and "B \<longleftrightarrow> y mod 100 = 0" and "C \<longleftrightarrow> y mod 400 = 0"
  note d = d [folded p_def q_def r_def A_def B_def C_def] and m = m [folded A_def B_def C_def]
  have start: "yearStart y = 365 * (y - 1) + p - q + r" by (simp add: yearStart_def p_def q_def r_def)
  have "yearStart (y + 1) = 365 * y + y div 4 - y div 100 + y div 400" by (simp add: yearStart_def)
  then show ?thesis unfolding start isLeap_def d A_def [symmetric] B_def [symmetric] C_def [symmetric]
    using m by (cases A; cases B; cases C) simp_all
qed

lemma yearStart_less: "yearStart y < yearStart (y + 1)"
  by (simp add: yearStart_step)

text \<open>\<^verbatim>\<open>Time.Year\<close> on days: from a year that is early enough, up to the year the day lies in.\<close>

function yearClimb :: "int \<Rightarrow> int \<Rightarrow> int" where
  "yearClimb d y = (if yearStart (y + 1) \<le> d then yearClimb d (y + 1) else y)"
  by pat_completeness auto

termination
  by (relation "measure (\<lambda>(d, y). nat (d - yearStart y))") (auto intro: less_le_trans yearStart_less)

declare yearClimb.simps [simp del]

definition yearOf :: "int \<Rightarrow> int" where
  "yearOf d = yearClimb d (min (d div 365) (d div 366) - 4)"

lemma yearClimb_bounds: "yearStart y \<le> d \<Longrightarrow> yearStart (yearClimb d y) \<le> d \<and> d < yearStart (yearClimb d y + 1)"
  by (induction d y rule: yearClimb.induct) (subst yearClimb.simps, subst (2) yearClimb.simps, auto simp: yearClimb.simps)

lemma yearStart_early: "yearStart (min (d div 365) (d div 366) - 4) \<le> d"
proof -
  define k where "k = min (d div 365) (d div 366) - 5"
  have k: "k + 5 \<le> d div 365" "k + 5 \<le> d div 366" by (simp_all add: k_def)
  have d: "c * (k + 5) \<le> d" if "0 < c" "k + 5 \<le> d div c" for c :: int
    using mult_left_mono [OF that(2), of c] that(1) mult_div_mod_eq [of c d] pos_mod_sign [of c d] by linarith
  have "365 * k + k div 4 - k div 100 + k div 400 \<le> max (365 * (k + 5)) (366 * (k + 5))"
  proof (cases "0 \<le> k")
    case True
    then have "k div 400 \<le> k div 100" "k div 4 \<le> k div 1" by (intro zdiv_mono2; simp)+
    moreover have "366 * k + 1830 = 366 * (k + 5)" by simp
    ultimately show ?thesis unfolding div_by_1 using max.cobounded2 [of "366 * (k + 5)" "365 * (k + 5)"] by linarith
  next
    case False
    then have "k div 4 \<le> k div 100" "k div 400 \<le> 0" by (auto intro: zdiv_mono2_neg simp: div_nonpos_pos_le0)
    then show ?thesis by simp
  qed
  moreover have "365 * (k + 5) \<le> d" "366 * (k + 5) \<le> d" by (rule d; use k in simp)+
  moreover have "yearStart (k + 1) = 365 * k + k div 4 - k div 100 + k div 400" by (simp add: yearStart_def)
  moreover have "min (d div 365) (d div 366) - 4 = k + 1" by (simp add: k_def)
  ultimately show ?thesis by (metis max_def order_trans)
qed

text \<open>The year of a day is the one whose days include it.\<close>

lemma yearOf_bounds: "yearStart (yearOf d) \<le> d" "d < yearStart (yearOf d + 1)"
  using yearClimb_bounds [OF yearStart_early, of d] by (simp_all add: yearOf_def)

lemma yearStart_mono: "y \<le> z \<Longrightarrow> yearStart y \<le> yearStart z"
proof (induction "nat (z - y)" arbitrary: z)
  case (Suc n)
  then have "yearStart y \<le> yearStart (z - 1)" by (intro Suc.hyps) auto
  then show ?case using yearStart_less [of "z - 1"] by simp
qed simp

lemma yearOf_unique:
  assumes "yearStart y \<le> d" "d < yearStart (y + 1)"
  shows "yearOf d = y"
proof (rule antisym)
  show "yearOf d \<le> y"
  proof (rule ccontr)
    assume "\<not> yearOf d \<le> y"
    then have "yearStart (y + 1) \<le> yearStart (yearOf d)" by (intro yearStart_mono) auto
    then show False using assms yearOf_bounds [of d] by simp
  qed
  show "y \<le> yearOf d"
  proof (rule ccontr)
    assume "\<not> y \<le> yearOf d"
    then have "yearStart (yearOf d + 1) \<le> yearStart y" by (intro yearStart_mono) auto
    then show False using assms yearOf_bounds [of d] by simp
  qed
qed

section \<open>Dates\<close>

definition monthStarts :: "int list" where
  "monthStarts = [0, 31, 59, 90, 120, 151, 181, 212, 243, 273, 304, 334]"

text \<open>Days from 1 January to the first of month \<open>m\<close> (1 to 12).\<close>

definition daysBefore :: "int \<Rightarrow> nat \<Rightarrow> int" where
  "daysBefore y m = monthStarts ! (m - 1) + (if isLeap y \<and> 3 \<le> m then 1 else 0)"

definition dayNumber :: "int \<Rightarrow> nat \<Rightarrow> int \<Rightarrow> int" where
  "dayNumber y m d = yearStart y + daysBefore y m + d - 1"

text \<open>\<^verbatim>\<open>time.Date\<close>: days, hours and so on beyond their range carry over, by arithmetic.\<close>

definition time_Date :: "int \<Rightarrow> nat \<Rightarrow> int \<Rightarrow> int \<Rightarrow> int \<Rightarrow> int \<Rightarrow> int \<Rightarrow> int \<Rightarrow> time" where
  "time_Date y m d hh mm ss ns loc = (dayNumber y m d * 86400 + hh * 3600 + mm * 60 + ss - loc) * second_ns + ns"

definition dayOf :: "time \<Rightarrow> int \<Rightarrow> int" where
  "dayOf t loc = (t div second_ns + loc) div 86400"

definition time_Year :: "time \<Rightarrow> int \<Rightarrow> int" where
  "time_Year t loc = yearOf (dayOf t loc)"

definition monthOf :: "int \<Rightarrow> nat" where
  "monthOf d = (let y = yearOf d in length (filter (\<lambda>m. daysBefore y m \<le> d - yearStart y) [1..<13]))"

definition dayInMonth :: "int \<Rightarrow> int" where
  "dayInMonth d = d - yearStart (yearOf d) - daysBefore (yearOf d) (monthOf d) + 1"

definition time_AddDate :: "time \<Rightarrow> int \<Rightarrow> int \<Rightarrow> time" where
  "time_AddDate t years loc =
     (let d = dayOf t loc; secs = (t div second_ns + loc) mod 86400 in
      time_Date (yearOf d + years) (monthOf d) (dayInMonth d) 0 0 secs (t mod second_ns) loc)"

end
