(* ===== verification/SyslogEnvelope.thy ===== *)
theory SyslogEnvelope
  imports CivilTime NetAddr
begin

text \<open>
  The syslog header (\<^verbatim>\<open>internal/logship/syslog/envelope.go\<close>): RFC 5424 and the legacy BSD format. Lines
  are the program's byte strings. \<^verbatim>\<open>time.Parse\<close> with the RFC 3339 layout is a parameter of the definitions
  that reach it, from text to an instant or an error; the location of \<^verbatim>\<open>now\<close> is its offset from UTC.
\<close>

section \<open>Data\<close>

datatype envelopeError = errEmpty | errNoPRI | errBadPRI | errTruncated | errBadTime

record Envelope =
  env_Timestamp :: time
  env_Hostname :: string
  env_Program :: string
  env_PID :: string
  env_Facility :: int
  env_Severity :: int
  env_Message :: string

definition Envelope_zero :: Envelope where
  "Envelope_zero = \<lparr>env_Timestamp = 0, env_Hostname = [], env_Program = [], env_PID = [], env_Facility = 0,
     env_Severity = 0, env_Message = []\<rparr>"

type_synonym 'a parsed = "envelopeError + 'a"

section \<open>Priority and fields\<close>

definition digitsValue :: "string \<Rightarrow> int" where
  "digitsValue ds = foldl (\<lambda>n c. n * 10 + int (digit_val c)) 0 ds"

text \<open>The index of the closing bracket of a priority, no further than index 4.\<close>

fun priEnd :: "nat \<Rightarrow> string \<Rightarrow> nat option" where
  "priEnd i [] = None"
| "priEnd i (c # cs) =
     (if 4 < i then None
      else if c = CHR ''>'' then Some i
      else if \<not> is_digit c then None
      else priEnd (Suc i) cs)"

definition parsePRI :: "string \<Rightarrow> (string \<times> int) parsed" where
  "parsePRI line =
     (if hd line \<noteq> CHR ''<'' then Inl errNoPRI
      else case priEnd 1 (tl line) of
        None \<Rightarrow> Inl errNoPRI
      | Some e \<Rightarrow>
          if e < 2 then Inl errNoPRI
          else
            let pri = digitsValue (take (e - 1) (drop 1 line)) in
            if pri < 0 \<or> 191 < pri then Inl errBadPRI else Inr (drop (e + 1) line, pri))"

definition nilStr :: "string \<Rightarrow> string" where
  "nilStr b = (if b = ''-'' then [] else b)"

definition field :: "string \<Rightarrow> (string \<times> string) option" where
  "field b =
     (if CHR '' '' \<in> set b
      then Some (takeWhile (\<lambda>c. c \<noteq> CHR '' '') b, tl (dropWhile (\<lambda>c. c \<noteq> CHR '' '') b))
      else None)"

section \<open>Structured data\<close>

text \<open>One element, from behind its opening bracket: the rest behind its closing one, if it is closed.\<close>

fun sdElement :: "string \<Rightarrow> string option" where
  "sdElement [] = None"
| "sdElement (c # cs) =
     (if c = CHR 92 then (case cs of [] \<Rightarrow> None | _ # ds \<Rightarrow> sdElement ds)
      else if c = CHR '']'' then Some cs
      else sdElement cs)"

lemma sdElement_shorter: "sdElement b = Some r \<Longrightarrow> length r < length b"
  by (induction b rule: sdElement.induct) (auto split: if_splits list.splits intro: less_SucI)

function sdElements :: "string \<Rightarrow> string option" where
  "sdElements b =
     (case b of
        [] \<Rightarrow> Some []
      | c # cs \<Rightarrow>
          if c = CHR ''['' then (case sdElement cs of None \<Rightarrow> None | Some r \<Rightarrow> sdElements r)
          else Some b)"
  by pat_completeness auto

termination
  by (relation "measure length") (auto dest: sdElement_shorter)

declare sdElements.simps [simp del]

definition skipStructuredData :: "string \<Rightarrow> string parsed" where
  "skipStructuredData b =
     (case b of
        [] \<Rightarrow> Inl errTruncated
      | c # cs \<Rightarrow>
          if c = CHR ''-'' then
            (case cs of [] \<Rightarrow> Inr [] | d # ds \<Rightarrow> if d \<noteq> CHR '' '' then Inl errTruncated else Inr ds)
          else if c \<noteq> CHR ''['' then Inl errTruncated
          else
            (case sdElements b of
               None \<Rightarrow> Inl errTruncated
             | Some [] \<Rightarrow> Inr []
             | Some (d # ds) \<Rightarrow> if d \<noteq> CHR '' '' then Inl errTruncated else Inr ds))"

definition parse5424 :: "(string \<Rightarrow> time option) \<Rightarrow> string \<Rightarrow> Envelope \<Rightarrow> Envelope parsed" where
  "parse5424 parseTime b env =
     (case field b of
        None \<Rightarrow> Inl errTruncated
      | Some (ts, b) \<Rightarrow>
     (case (if ts = ''-'' then Some 0 else parseTime ts) of
        None \<Rightarrow> Inl errBadTime
      | Some t \<Rightarrow>
     (case field b of
        None \<Rightarrow> Inl errTruncated
      | Some (host, b) \<Rightarrow>
     (case field b of
        None \<Rightarrow> Inl errTruncated
      | Some (app, b) \<Rightarrow>
     (case field b of
        None \<Rightarrow> Inl errTruncated
      | Some (procid, b) \<Rightarrow>
     (case field b of
        None \<Rightarrow> Inl errTruncated
      | Some (msgid, b) \<Rightarrow>
     (case skipStructuredData b of
        Inl e \<Rightarrow> Inl e
      | Inr msg \<Rightarrow>
          Inr (env\<lparr>env_Timestamp := t, env_Hostname := nilStr host, env_Program := nilStr app, env_PID := nilStr procid,
                   env_Message := msg\<rparr>))))))))"

section \<open>The legacy format\<close>

definition bsdMonths :: "(string \<times> nat) list" where
  "bsdMonths =
     [(''Jan'', 1), (''Feb'', 2), (''Mar'', 3), (''Apr'', 4), (''May'', 5), (''Jun'', 6),
      (''Jul'', 7), (''Aug'', 8), (''Sep'', 9), (''Oct'', 10), (''Nov'', 11), (''Dec'', 12)]"

text \<open>The loop of \<^verbatim>\<open>atoiSpace\<close>: the value so far and whether a digit was seen.\<close>

fun atoiLoop :: "int \<Rightarrow> bool \<Rightarrow> string \<Rightarrow> int option" where
  "atoiLoop n seen [] = (if seen then Some n else None)"
| "atoiLoop n seen (c # cs) =
     (if c = CHR '' '' \<and> \<not> seen then atoiLoop n seen cs
      else if \<not> is_digit c then None
      else atoiLoop (n * 10 + int (digit_val c)) True cs)"

definition atoiSpace :: "string \<Rightarrow> int option" where
  "atoiSpace b = atoiLoop 0 False b"

definition goslice :: "nat \<Rightarrow> nat \<Rightarrow> 'a list \<Rightarrow> 'a list" where
  "goslice i j xs = take (j - i) (drop i xs)"

definition parseBSDTime :: "string \<Rightarrow> time \<Rightarrow> int \<Rightarrow> time parsed" where
  "parseBSDTime b now loc =
     (if length b < 15 then Inl errBadTime
      else case map_of bsdMonths (goslice 0 3 b) of
        None \<Rightarrow> Inl errBadTime
      | Some mon \<Rightarrow>
     (case atoiSpace (goslice 4 6 b) of
        None \<Rightarrow> Inl errBadTime
      | Some day \<Rightarrow>
          if day < 1 \<or> 31 < day then Inl errBadTime
          else if b ! 3 \<noteq> CHR '' '' \<or> b ! 6 \<noteq> CHR '' '' \<or> b ! 9 \<noteq> CHR '':'' \<or> b ! 12 \<noteq> CHR '':'' then Inl errBadTime
          else
            (case (atoiSpace (goslice 7 9 b), atoiSpace (goslice 10 12 b), atoiSpace (goslice 13 15 b)) of
               (Some hh, Some mm, Some ss) \<Rightarrow>
                 if 23 < hh \<or> 59 < mm \<or> 60 < ss then Inl errBadTime
                 else
                   let t = time_Date (time_Year now loc) mon day hh mm ss 0 loc in
                   if 24 * 3600 * second_ns < time_Sub t now then Inr (time_AddDate t (- 1) loc) else Inr t
             | _ \<Rightarrow> Inl errBadTime)))"

text \<open>The rightmost opening bracket of a tag that ends in a closing one and has a name before it.\<close>

definition splitTagPID :: "string \<Rightarrow> string \<times> string" where
  "splitTagPID tag =
     (if 2 < length tag \<and> last tag = CHR '']'' then
        (let p = rev (butlast tag) in
         case dropWhile (\<lambda>c. c \<noteq> CHR ''['') p of
           _ # d # ds \<Rightarrow> (rev (d # ds), rev (takeWhile (\<lambda>c. c \<noteq> CHR ''['') p))
         | _ \<Rightarrow> (tag, []))
      else (tag, []))"

definition parse3164 :: "string \<Rightarrow> Envelope \<Rightarrow> time \<Rightarrow> int \<Rightarrow> Envelope parsed" where
  "parse3164 b env now loc =
     (if length b < 16 \<or> b ! 15 \<noteq> CHR '' '' then Inl errTruncated
      else case parseBSDTime (take 15 b) now loc of
        Inl e \<Rightarrow> Inl e
      | Inr ts \<Rightarrow>
     (case field (drop 16 b) of
        None \<Rightarrow> Inl errTruncated
      | Some (host, b) \<Rightarrow>
     (case field b of
        None \<Rightarrow> Inl errTruncated
      | Some (tag, b) \<Rightarrow>
          let tag' = (if tag \<noteq> [] \<and> last tag = CHR '':'' then butlast tag else tag); (prog, pid) = splitTagPID tag' in
          Inr (env\<lparr>env_Timestamp := ts, env_Hostname := host, env_Program := prog, env_PID := pid, env_Message := b\<rparr>))))"

definition ParseEnvelope :: "(string \<Rightarrow> time option) \<Rightarrow> string \<Rightarrow> time \<Rightarrow> int \<Rightarrow> Envelope parsed" where
  "ParseEnvelope parseTime line now loc =
     (if line = [] then Inl errEmpty
      else case parsePRI line of
        Inl e \<Rightarrow> Inl e
      | Inr (b, pri) \<Rightarrow>
          let env = Envelope_zero\<lparr>env_Facility := pri div 8, env_Severity := pri mod 8\<rparr> in
          if 2 \<le> length b \<and> b ! 0 = CHR ''1'' \<and> b ! 1 = CHR '' ''
          then parse5424 parseTime (drop 2 b) env
          else parse3164 b env now loc)"

section \<open>Bounds of the header\<close>

lemma priEnd_bounds: "priEnd i cs = Some e \<Longrightarrow> i \<le> e \<and> e \<le> 4 \<and> e - i < length cs \<and> list_all is_digit (take (e - i) cs) \<and> cs ! (e - i) = CHR ''>''"
proof (induction i cs rule: priEnd.induct)
  case (2 i c cs)
  show ?case
  proof (cases "c = CHR ''>''")
    case True
    then show ?thesis using "2.prems" by (auto split: if_splits)
  next
    case False
    then have r: "priEnd (Suc i) cs = Some e" "is_digit c" using "2.prems" by (auto split: if_splits)
    then have IH: "Suc i \<le> e" "e \<le> 4" "e - Suc i < length cs" "list_all is_digit (take (e - Suc i) cs)" "cs ! (e - Suc i) = CHR ''>''"
      using "2.IH" False "2.prems" by (auto split: if_splits)
    then have "e - i = Suc (e - Suc i)" by simp
    then show ?thesis using IH r by simp
  qed
qed simp

text \<open>
  A line that parses has a facility of 0 to 23 and a severity of 0 to 7, the ranges the filter, the
  severity mapping and the metric labels rely on.
\<close>

theorem envelope_priority_bounds:
  "case ParseEnvelope parseTime line now loc of
     Inl e \<Rightarrow> True
   | Inr env \<Rightarrow> 0 \<le> env_Facility env \<and> env_Facility env \<le> 23 \<and> 0 \<le> env_Severity env \<and> env_Severity env \<le> 7"
proof (cases "ParseEnvelope parseTime line now loc")
  case (Inr env)
  then obtain b pri where pri: "parsePRI line = Inr (b, pri)" by (auto simp: ParseEnvelope_def split: if_splits sum.splits)
  then have r: "0 \<le> pri" "pri \<le> 191" by (auto simp: parsePRI_def Let_def split: if_splits option.splits)
  have "env_Facility env = pri div 8 \<and> env_Severity env = pri mod 8"
    using Inr pri by (auto simp: ParseEnvelope_def Envelope_zero_def parse5424_def parse3164_def Let_def split: if_splits sum.splits option.splits prod.splits)
  moreover have "pri div 8 \<le> 191 div 8" using r by (intro zdiv_mono1) auto
  moreover have "0 \<le> pri div 8" "0 \<le> pri mod 8" "pri mod 8 < 8" using r by auto
  ultimately show ?thesis using Inr by simp
qed simp

section \<open>The year of a legacy time stamp\<close>

abbreviation day_ns :: int where
  "day_ns \<equiv> 86400 * second_ns"

lemma second_ns_pos: "0 < second_ns"
  by (simp add: second_ns_def)

text \<open>An instant is its day, its second in the day and its nanosecond.\<close>

lemma time_split:
  "t = (dayOf t loc * 86400 + (t div second_ns + loc) mod 86400 - loc) * second_ns + t mod second_ns"
proof -
  have "dayOf t loc * 86400 + (t div second_ns + loc) mod 86400 = t div second_ns + loc"
    unfolding dayOf_def by (rule div_mult_mod_eq)
  then show ?thesis by (simp add: div_mult_mod_eq)
qed

lemma dayOf_bounds: "(dayOf t loc * 86400 - loc) * second_ns \<le> t \<and> t < ((dayOf t loc + 1) * 86400 - loc) * second_ns"
proof -
  define D r n where "D = dayOf t loc" and "r = (t div second_ns + loc) mod 86400" and "n = t mod second_ns"
  have t: "t = (D * 86400 + r - loc) * second_ns + n" unfolding D_def r_def n_def by (rule time_split)
  have r: "0 \<le> r" "r \<le> 86399" and n: "0 \<le> n" "n < second_ns"
    using pos_mod_bound [of 86400 "t div second_ns + loc"] second_ns_pos by (auto simp: r_def n_def)
  define P where "P = (D * 86400 - loc) * second_ns"
  have "r * second_ns \<le> 86399 * second_ns" using r second_ns_pos by (intro mult_right_mono) auto
  moreover have "0 \<le> r * second_ns" using r second_ns_pos by simp
  moreover have "t = P + r * second_ns + n" "((D + 1) * 86400 - loc) * second_ns = P + 86400 * second_ns"
    by (simp_all add: t P_def algebra_simps)
  ultimately have "P \<le> t \<and> t < ((D + 1) * 86400 - loc) * second_ns" using n by (simp add: second_ns_def)
  then show ?thesis by (simp only: D_def P_def)
qed

lemma daysBefore_year: "daysBefore y m - daysBefore (y - 1) m = (if isLeap y \<and> 3 \<le> m then 1 else 0) - (if isLeap (y - 1) \<and> 3 \<le> m then 1 else 0)"
  by (simp add: daysBefore_def)

lemma isLeap_alternate: "isLeap y \<Longrightarrow> \<not> isLeap (y - 1)"
proof -
  assume "isLeap y"
  then have "4 dvd y" by (simp add: isLeap_def mod_eq_0_iff_dvd)
  then have "\<not> 4 dvd y - 1" by presburger
  then show ?thesis by (simp add: isLeap_def mod_eq_0_iff_dvd)
qed

text \<open>Going back a year is going back 365 or 366 days.\<close>

lemma AddDate_year: "t - 366 * day_ns \<le> time_AddDate t (- 1) loc \<and> time_AddDate t (- 1) loc \<le> t - 365 * day_ns"
proof -
  define D r n where "D = dayOf t loc" and "r = (t div second_ns + loc) mod 86400" and "n = t mod second_ns"
  have t: "t = (D * 86400 + r - loc) * second_ns + n" unfolding D_def r_def n_def by (rule time_split)
  define y m where "y = yearOf D" and "m = monthOf D"
  define k where "k = yearStart y - yearStart (y - 1) + (daysBefore y m - daysBefore (y - 1) m)"
  have k: "365 \<le> k" "k \<le> 366"
    using yearStart_step [of "y - 1"] isLeap_alternate [of y] by (auto simp: k_def daysBefore_year)
  have "dayNumber (y - 1) m (dayInMonth D) = D - k"
    by (simp add: dayNumber_def dayInMonth_def y_def [symmetric] m_def [symmetric] k_def)
  then have "time_AddDate t (- 1) loc = ((D - k) * 86400 + r - loc) * second_ns + n"
    unfolding time_AddDate_def Let_def D_def [symmetric] r_def [symmetric] n_def [symmetric] y_def [symmetric] m_def [symmetric]
    by (simp add: time_Date_def)
  also have "\<dots> = (D * 86400 + r - loc) * second_ns + n - k * day_ns" by (simp add: algebra_simps)
  finally have e: "time_AddDate t (- 1) loc = t - k * day_ns" using t by metis
  have "365 * day_ns \<le> k * day_ns" "k * day_ns \<le> 366 * day_ns"
    using k second_ns_pos by (auto intro!: mult_right_mono)
  then show ?thesis using e by simp
qed

lemma month_starts: "map_of bsdMonths s = Some m \<Longrightarrow> 1 \<le> m \<and> m \<le> 12 \<and> 0 \<le> monthStarts ! (m - 1) \<and> monthStarts ! (m - 1) \<le> 334"
  by (auto simp: bsdMonths_def monthStarts_def split: if_splits)

lemma monthStarts_below: "map_of bsdMonths s = Some m \<Longrightarrow> m \<le> 2 \<Longrightarrow> monthStarts ! (m - 1) \<le> 31"
  by (auto simp: bsdMonths_def monthStarts_def split: if_splits)

text \<open>A stamp without a year, read in the year of \<open>now\<close>, lies in that year; a leap second may be its end.\<close>

lemma stamp_in_year:
  assumes "map_of bsdMonths s = Some m" "1 \<le> d" "d \<le> 31" "0 \<le> hh" "hh \<le> 23" "0 \<le> mm" "mm \<le> 59" "0 \<le> ss" "ss \<le> 60"
  shows "(yearStart y * 86400 - loc) * second_ns \<le> time_Date y m d hh mm ss 0 loc \<and>
    time_Date y m d hh mm ss 0 loc \<le> (yearStart (y + 1) * 86400 - loc) * second_ns"
proof -
  define x where "x = daysBefore y m + d - 1"
  have "0 \<le> x" "x + 1 \<le> (if isLeap y then 366 else 365)"
    using month_starts [OF assms(1)] monthStarts_below [OF assms(1)] assms(2,3) by (auto simp: x_def daysBefore_def)
  then have x: "0 \<le> x" "x + 1 \<le> yearStart (y + 1) - yearStart y" by (auto simp: yearStart_step split: if_splits)
  define q where "q = x * 86400 + hh * 3600 + mm * 60 + ss"
  have q: "0 \<le> q" "q \<le> (yearStart (y + 1) - yearStart y) * 86400" using x assms(4-9) by (auto simp: q_def)
  have e: "time_Date y m d hh mm ss 0 loc = (yearStart y * 86400 - loc) * second_ns + q * second_ns"
    by (simp add: time_Date_def dayNumber_def q_def x_def algebra_simps)
  have "q * second_ns \<le> (yearStart (y + 1) - yearStart y) * 86400 * second_ns" "0 \<le> q * second_ns"
    using q second_ns_pos by (auto intro!: mult_right_mono)
  then show ?thesis using e by (simp add: algebra_simps)
qed

section \<open>Nearness\<close>

lemma atoiLoop_nonneg: "0 \<le> n \<Longrightarrow> atoiLoop n seen b = Some v \<Longrightarrow> 0 \<le> v"
  by (induction n seen b rule: atoiLoop.induct) (auto split: if_splits)

lemma atoiSpace_nonneg: "atoiSpace b = Some v \<Longrightarrow> 0 \<le> v"
  unfolding atoiSpace_def by (rule atoiLoop_nonneg) auto

lemma parseBSDTime_Inr:
  assumes "parseBSDTime b now loc = Inr t"
  obtains mon day hh mm ss where "map_of bsdMonths (goslice 0 3 b) = Some mon" "1 \<le> day" "day \<le> 31" "0 \<le> hh"
    "hh \<le> 23" "0 \<le> mm" "mm \<le> 59" "0 \<le> ss" "ss \<le> 60"
    "t = (let u = time_Date (time_Year now loc) mon day hh mm ss 0 loc in
      if 24 * 3600 * second_ns < time_Sub u now then time_AddDate u (- 1) loc else u)"
proof -
  obtain mon where mon: "map_of bsdMonths (goslice 0 3 b) = Some mon"
    using assms by (cases "map_of bsdMonths (goslice 0 3 b)") (auto simp: parseBSDTime_def split: if_splits)
  obtain day where day: "atoiSpace (goslice 4 6 b) = Some day"
    using assms mon by (cases "atoiSpace (goslice 4 6 b)") (auto simp: parseBSDTime_def split: if_splits)
  obtain hh mm ss where c: "atoiSpace (goslice 7 9 b) = Some hh" "atoiSpace (goslice 10 12 b) = Some mm" "atoiSpace (goslice 13 15 b) = Some ss"
    using assms mon day
    by (cases "atoiSpace (goslice 7 9 b)"; cases "atoiSpace (goslice 10 12 b)"; cases "atoiSpace (goslice 13 15 b)")
      (auto simp: parseBSDTime_def split: if_splits)
  have r: "\<not> (day < 1 \<or> 31 < day)" "\<not> (23 < hh \<or> 59 < mm \<or> 60 < ss)"
    using assms mon day c by (auto simp: parseBSDTime_def split: if_splits)
  then have t: "t = (let u = time_Date (time_Year now loc) mon day hh mm ss 0 loc in
      if 24 * 3600 * second_ns < time_Sub u now then time_AddDate u (- 1) loc else u)"
    using assms mon day c by (simp add: parseBSDTime_def Let_def split: if_splits)
  show ?thesis by (rule that [OF mon _ _ _ _ _ _ _ _ t]) (use r c [THEN atoiSpace_nonneg] in auto)
qed

text \<open>
  The year a legacy time stamp lacks is filled in so that the result is near the clock: never more
  than a day ahead of it and never more than 366 days behind it; the only error is a malformed stamp.
\<close>

theorem bsd_time_near_now:
  "case parseBSDTime b now loc of
     Inl e \<Rightarrow> e = errBadTime
   | Inr t \<Rightarrow> now - 366 * day_ns \<le> t \<and> t \<le> now + day_ns"
proof (cases "parseBSDTime b now loc")
  case (Inl e)
  then show ?thesis by (auto simp: parseBSDTime_def Let_def split: if_splits option.splits)
next
  case (Inr t)
  obtain mon day hh mm ss where mon: "map_of bsdMonths (goslice 0 3 b) = Some mon" and ranges: "1 \<le> day" "day \<le> 31" "0 \<le> hh"
    "hh \<le> 23" "0 \<le> mm" "mm \<le> 59" "0 \<le> ss" "ss \<le> 60"
    and t: "t = (let u = time_Date (time_Year now loc) mon day hh mm ss 0 loc in
      if 24 * 3600 * second_ns < time_Sub u now then time_AddDate u (- 1) loc else u)"
    using parseBSDTime_Inr [OF Inr] by blast
  define y where "y = time_Year now loc"
  define u where "u = time_Date y mon day hh mm ss 0 loc"
  have u: "(yearStart y * 86400 - loc) * second_ns \<le> u" "u \<le> (yearStart (y + 1) * 86400 - loc) * second_ns"
    using stamp_in_year [OF mon ranges] by (auto simp: u_def)
  define d where "d = dayOf now loc"
  have d: "yearStart y \<le> d" "d + 1 \<le> yearStart (y + 1)" using yearOf_bounds [of d] by (auto simp: y_def d_def time_Year_def)
  have "(yearStart y * 86400 - loc) * second_ns \<le> (d * 86400 - loc) * second_ns"
    "((d + 1) * 86400 - loc) * second_ns \<le> (yearStart (y + 1) * 86400 - loc) * second_ns"
    using d second_ns_pos by (auto intro!: mult_right_mono)
  then have now: "(yearStart y * 86400 - loc) * second_ns \<le> now" "now \<le> (yearStart (y + 1) * 86400 - loc) * second_ns"
    using dayOf_bounds [of now loc] by (auto simp: d_def)
  have "yearStart (y + 1) \<le> yearStart y + 366" by (simp add: yearStart_step)
  then have len: "(yearStart (y + 1) * 86400 - loc) * second_ns \<le> (yearStart y * 86400 - loc) * second_ns + 366 * day_ns"
    by (simp add: second_ns_def algebra_simps)
  show ?thesis
  proof (cases "24 * 3600 * second_ns < time_Sub u now")
    case True
    then have "day_ns < u - now" by (auto simp: time_Sub_def max_int64_def min_int64_def second_ns_def)
    moreover have "t = time_AddDate u (- 1) loc" using t True by (simp add: u_def y_def)
    ultimately show ?thesis using AddDate_year [of u loc] u now len Inr by (simp add: second_ns_def)
  next
    case False
    then have "u - now \<le> day_ns" using time_Sub_le [of u now "24 * 3600 * second_ns"] by (simp add: second_ns_def max_int64_def)
    moreover have "t = u" using t False by (simp add: u_def y_def)
    ultimately show ?thesis using u now len Inr by simp
  qed
qed

section \<open>Round trips\<close>

lemma digit_char: "k < 10 \<Longrightarrow> is_digit (char_of (48 + k)) \<and> digit_val (char_of (48 + k)) = k"
  by (simp add: is_digit_def digit_val_def of_char_of)

lemma itoa_digits: "list_all is_digit (itoa n) \<and> digitsValue (itoa n) = int n \<and> itoa n \<noteq> []"
proof (induction n rule: itoa.induct)
  case (1 n)
  show ?case
  proof (cases "n < 10")
    case True
    then show ?thesis using digit_char [of n] by (simp add: itoa.simps [of n] digitsValue_def)
  next
    case False
    have "int (n div 10) * 10 + int (n mod 10) = int n" by (metis div_mult_mod_eq of_nat_add of_nat_mult of_nat_numeral)
    then show ?thesis using False 1 digit_char [of "n mod 10"] by (simp add: itoa.simps [of n] digitsValue_def)
  qed
qed

lemma itoa_length: "n < 1000 \<Longrightarrow> length (itoa n) \<le> 3"
  by (subst itoa.simps, subst itoa.simps, subst itoa.simps) (auto simp: div_less_dividend)

lemma priEnd_digits:
  "list_all is_digit ds \<Longrightarrow> i + length ds \<le> 4 \<Longrightarrow> priEnd i (ds @ CHR ''>'' # cs) = Some (i + length ds)"
proof (induction ds arbitrary: i)
  case (Cons c ds)
  have "c \<noteq> CHR ''>''" using Cons.prems by (auto simp: is_digit_def)
  then show ?case using Cons by auto
qed simp

lemma parsePRI_render: "pri \<le> 191 \<Longrightarrow> parsePRI (''<'' @ itoa pri @ ''>'' @ b) = Inr (b, int pri)"
  using itoa_digits [of pri] itoa_length [of pri] priEnd_digits [of "itoa pri" 1 b]
  by (auto simp: parsePRI_def Let_def Suc_le_eq)

lemma field_render: "CHR '' '' \<notin> set w \<Longrightarrow> field (w @ CHR '' '' # b) = Some (w, b)"
proof -
  assume "CHR '' '' \<notin> set w"
  then have "takeWhile (\<lambda>c. c \<noteq> CHR '' '') (w @ CHR '' '' # b) = w" "dropWhile (\<lambda>c. c \<noteq> CHR '' '') (w @ CHR '' '' # b) = CHR '' '' # b"
    by (induction w) auto
  then show ?thesis by (simp add: field_def)
qed

definition two :: "nat \<Rightarrow> string" where
  "two n = [char_of (48 + n div 10), char_of (48 + n mod 10)]"

definition padded :: "nat \<Rightarrow> string" where
  "padded n = (if n < 10 then [CHR '' '', char_of (48 + n)] else two n)"

lemma digit_char_space: "k < 10 \<Longrightarrow> char_of (48 + k) \<noteq> CHR '' ''" for k :: nat
proof -
  have "\<not> is_digit (CHR '' '')" by (simp add: is_digit_def)
  then show "k < 10 \<Longrightarrow> char_of (48 + k) \<noteq> CHR '' ''" using digit_char [of k] by metis
qed

lemma atoiSpace_digits: "a < 10 \<Longrightarrow> b < 10 \<Longrightarrow> atoiSpace [char_of (48 + a), char_of (48 + b)] = Some (int (a * 10 + b))" for a b :: nat
  using digit_char [of a] digit_char [of b] digit_char_space [of a] digit_char_space [of b] by (simp add: atoiSpace_def)

lemma atoiSpace_two: "n < 100 \<Longrightarrow> atoiSpace (two n) = Some (int n)"
  using atoiSpace_digits [of "n div 10" "n mod 10"] unfolding two_def div_mult_mod_eq by simp

lemma atoiSpace_padded: "n < 100 \<Longrightarrow> atoiSpace (padded n) = Some (int n)"
  using atoiSpace_two [of n] digit_char [of n] digit_char_space [of n] by (auto simp: padded_def atoiSpace_def)

definition bsdStamp :: "nat \<Rightarrow> nat \<Rightarrow> nat \<Rightarrow> nat \<Rightarrow> nat \<Rightarrow> string" where
  "bsdStamp mon day hh mm ss = fst (bsdMonths ! (mon - 1)) @ '' '' @ padded day @ '' '' @ two hh @ '':'' @ two mm @ '':'' @ two ss"

text \<open>The instant a stamp without a year denotes.\<close>

definition bsdInstant :: "time \<Rightarrow> int \<Rightarrow> nat \<Rightarrow> nat \<Rightarrow> nat \<Rightarrow> nat \<Rightarrow> nat \<Rightarrow> time" where
  "bsdInstant now loc mon day hh mm ss =
     (let t = time_Date (time_Year now loc) mon (int day) (int hh) (int mm) (int ss) 0 loc in
      if day_ns < time_Sub t now then time_AddDate t (- 1) loc else t)"

lemma month_cases: "1 \<le> mon \<Longrightarrow> mon \<le> 12 \<Longrightarrow> mon \<in> {1, 2, 3, 4, 5, 6, 7, 8, 9, 10, 11, 12}" for mon :: nat
  by (simp; presburger)

lemma month_name:
  "1 \<le> mon \<Longrightarrow> mon \<le> 12 \<Longrightarrow> length (fst (bsdMonths ! (mon - 1))) = 3 \<and> map_of bsdMonths (fst (bsdMonths ! (mon - 1))) = Some mon"
  by (drule (1) month_cases) (auto simp: bsdMonths_def)

lemma parseBSDTime_render:
  assumes "1 \<le> mon" "mon \<le> 12" "1 \<le> day" "day \<le> 31" "hh \<le> 23" "mm \<le> 59" "ss \<le> 60"
  shows "parseBSDTime (bsdStamp mon day hh mm ss) now loc = Inr (bsdInstant now loc mon day hh mm ss)"
proof -
  obtain a b c where abc: "fst (bsdMonths ! (mon - 1)) = [a, b, c]" "map_of bsdMonths [a, b, c] = Some mon"
    using month_name [OF assms(1,2)] by (auto simp: numeral_eq_Suc length_Suc_conv)
  obtain d e where pd: "padded day = [d, e]" by (cases "day < 10") (auto simp: padded_def two_def)
  have "atoiSpace [d, e] = Some (int day)" "atoiSpace (two hh) = Some (int hh)" "atoiSpace (two mm) = Some (int mm)"
    "atoiSpace (two ss) = Some (int ss)"
    using atoiSpace_padded [of day] atoiSpace_two [of hh] atoiSpace_two [of mm] atoiSpace_two [of ss] assms pd by simp_all
  then show ?thesis using assms abc pd
    by (simp add: parseBSDTime_def bsdStamp_def goslice_def two_def bsdInstant_def Let_def)
qed

section \<open>Whole lines\<close>

definition renderTag :: "string \<Rightarrow> string \<Rightarrow> string" where
  "renderTag prog pid = prog @ (if pid = [] then [] else ''['' @ pid @ '']'') @ '':''"

lemma splitTagPID_render:
  assumes "prog \<noteq> []" "CHR ''['' \<notin> set pid" "pid = [] \<longrightarrow> last prog \<noteq> CHR '']''"
  shows "splitTagPID (prog @ (if pid = [] then [] else ''['' @ pid @ '']'')) = (prog, pid)"
proof (cases "pid = []")
  case False
  have "dropWhile (\<lambda>c. c \<noteq> CHR ''['') (w @ CHR ''['' # v) = CHR ''['' # v \<and> takeWhile (\<lambda>c. c \<noteq> CHR ''['') (w @ CHR ''['' # v) = w"
    if "CHR ''['' \<notin> set w" for w v using that by (induction w) auto
  from this [of "rev pid" "rev prog"] assms False show ?thesis
    by (cases "rev prog") (auto simp: splitTagPID_def butlast_append Let_def)
qed (use assms in \<open>auto simp: splitTagPID_def\<close>)

definition renderBSD :: "nat \<Rightarrow> string \<Rightarrow> string \<Rightarrow> string \<Rightarrow> string \<Rightarrow> string \<Rightarrow> string" where
  "renderBSD pri stamp host prog pid msg =
     ''<'' @ itoa pri @ ''>'' @ stamp @ '' '' @ host @ '' '' @ renderTag prog pid @ '' '' @ msg"

lemma bsdStamp_shape:
  assumes "1 \<le> mon" "mon \<le> 12"
  shows "length (bsdStamp mon day hh mm ss) = 15 \<and> bsdStamp mon day hh mm ss ! 0 \<noteq> CHR ''1''"
proof -
  have "fst (bsdMonths ! (mon - 1)) ! 0 \<noteq> CHR ''1''" using month_cases [OF assms] by (auto simp: bsdMonths_def)
  then show ?thesis using month_name [OF assms] by (simp add: bsdStamp_def padded_def two_def nth_append)
qed

text \<open>
  (C27) A legacy line is read back as it was written: priority, time stamp, host, program with or without a
  process id, and the message, whatever the message contains.
\<close>

theorem bsd_line_roundtrip:
  assumes "pri \<le> 191" "1 \<le> mon" "mon \<le> 12" "1 \<le> day" "day \<le> 31" "hh \<le> 23" "mm \<le> 59" "ss \<le> 60"
    and "CHR '' '' \<notin> set host" "CHR '' '' \<notin> set prog" "CHR '' '' \<notin> set pid" "CHR ''['' \<notin> set pid"
    and "prog \<noteq> []" "pid = [] \<longrightarrow> last prog \<noteq> CHR '']''"
  shows "ParseEnvelope parseTime (renderBSD pri (bsdStamp mon day hh mm ss) host prog pid msg) now loc =
    Inr \<lparr>env_Timestamp = bsdInstant now loc mon day hh mm ss, env_Hostname = host, env_Program = prog, env_PID = pid,
      env_Facility = int pri div 8, env_Severity = int pri mod 8, env_Message = msg\<rparr>"
proof -
  let ?st = "bsdStamp mon day hh mm ss" and ?tag = "renderTag prog pid"
  have st: "length ?st = 15" "?st ! 0 \<noteq> CHR ''1''" using bsdStamp_shape [OF assms(2,3)] by blast+
  define b where "b = ?st @ CHR '' '' # host @ CHR '' '' # ?tag @ CHR '' '' # msg"
  have pri: "parsePRI (renderBSD pri ?st host prog pid msg) = Inr (b, int pri)"
    using parsePRI_render [OF assms(1), of b] by (simp add: renderBSD_def b_def)
  have b: "b ! 0 \<noteq> CHR ''1''" "\<not> length b < 16" "b ! 15 = CHR '' ''" "take 15 b = ?st" "drop 16 b = host @ CHR '' '' # ?tag @ CHR '' '' # msg"
    using st by (simp_all add: b_def nth_append)
  have tag: "CHR '' '' \<notin> set ?tag" "?tag \<noteq> []" "last ?tag = CHR '':''"
    "butlast ?tag = prog @ (if pid = [] then [] else ''['' @ pid @ '']'')"
    using assms(10,11) by (auto simp: renderTag_def butlast_append)
  have "parse3164 b env now loc = Inr (env\<lparr>env_Timestamp := bsdInstant now loc mon day hh mm ss, env_Hostname := host,
      env_Program := prog, env_PID := pid, env_Message := msg\<rparr>)" for env :: Envelope
    using b tag field_render [OF assms(9)] field_render [OF tag(1)] splitTagPID_render [OF assms(13,12,14)] parseBSDTime_render [OF assms(2-8)]
    by (simp add: parse3164_def Let_def)
  moreover have "renderBSD pri ?st host prog pid msg \<noteq> []" by (simp add: renderBSD_def)
  ultimately show ?thesis using pri b(1) by (simp add: ParseEnvelope_def Envelope_zero_def Let_def)
qed

theorem bsd_line_roundtrip_witness:
  "ParseEnvelope (\<lambda>_. None) ''<134>Jul  4 09:05:07 fw filterlog[19325]: a [b]: c'' 0 0 =
     Inr \<lparr>env_Timestamp = bsdInstant 0 0 7 4 9 5 7, env_Hostname = ''fw'', env_Program = ''filterlog'', env_PID = ''19325'',
       env_Facility = 16, env_Severity = 6, env_Message = ''a [b]: c''\<rparr>"
proof -
  have "renderBSD 134 (bsdStamp 7 4 9 5 7) ''fw'' ''filterlog'' ''19325'' ''a [b]: c'' =
      ''<134>Jul  4 09:05:07 fw filterlog[19325]: a [b]: c''" by code_simp
  then show ?thesis
    using bsd_line_roundtrip [of 134 7 4 9 5 7 "''fw''" "''filterlog''" "''19325''" "\<lambda>_. None" "''a [b]: c''" 0 0] by simp
qed

section \<open>Lines of RFC 5424\<close>

text \<open>
  Structured data as RFC 5424 writes it: elements of an SD-ID and parameters \<^verbatim>\<open>name="value"\<close>, where a quote, a
  backslash and a closing bracket are escaped inside the value and nowhere else.
\<close>

record sdElem =
  sd_id :: string
  sd_params :: "(string \<times> string) list"

fun escapeSD :: "string \<Rightarrow> string" where
  "escapeSD [] = []"
| "escapeSD (c # cs) =
     (if c = CHR 34 \<or> c = CHR 92 \<or> c = CHR '']'' then CHR 92 # c # escapeSD cs else c # escapeSD cs)"

definition renderParam :: "string \<times> string \<Rightarrow> string" where
  "renderParam = (\<lambda>(n, v). '' '' @ n @ ''='' @ [CHR 34] @ escapeSD v @ [CHR 34])"

definition renderElem :: "sdElem \<Rightarrow> string" where
  "renderElem e = ''['' @ sd_id e @ concat (map renderParam (sd_params e)) @ '']''"

definition renderSD :: "sdElem list \<Rightarrow> string" where
  "renderSD es = (if es = [] then ''-'' else concat (map renderElem es))"

text \<open>The names of RFC 5424 hold no closing bracket; it does let them hold a backslash, which the reader takes for an escape.\<close>

definition sdName :: "string \<Rightarrow> bool" where
  "sdName n \<longleftrightarrow> CHR '']'' \<notin> set n \<and> CHR 92 \<notin> set n"

definition sdWritten :: "sdElem \<Rightarrow> bool" where
  "sdWritten e \<longleftrightarrow> sdName (sd_id e) \<and> list_all (\<lambda>(n, v). sdName n) (sd_params e)"

lemma sdElement_name: "sdName n \<Longrightarrow> sdElement (n @ r) = sdElement r"
  by (induction n) (auto simp: sdName_def)

lemma sdElement_escape: "sdElement (escapeSD v @ r) = sdElement r"
  by (induction v rule: escapeSD.induct) auto

lemma sdElement_param: "sdName (fst p) \<Longrightarrow> sdElement (renderParam p @ r) = sdElement r"
  by (cases p) (simp add: renderParam_def sdElement_name sdElement_escape)

lemma sdElement_params: "list_all (\<lambda>(n, v). sdName n) ps \<Longrightarrow> sdElement (concat (map renderParam ps) @ r) = sdElement r"
  by (induction ps) (auto simp: sdElement_param)

lemma sdElements_render:
  "list_all sdWritten es \<Longrightarrow> sdElements (concat (map renderElem es) @ CHR '' '' # msg) = Some (CHR '' '' # msg)"
  by (induction es) (simp_all add: sdElements.simps renderElem_def sdWritten_def sdElement_name sdElement_params)

lemma skipStructuredData_render: "list_all sdWritten es \<Longrightarrow> skipStructuredData (renderSD es @ CHR '' '' # msg) = Inr msg"
  using sdElements_render [of es msg] by (cases es) (simp_all add: skipStructuredData_def renderSD_def renderElem_def)

text \<open>A backslash in a name, which RFC 5424 allows, swallows the bracket behind it: the line is refused as truncated.\<close>

lemma backslash_name_refused:
  "skipStructuredData (renderSD [\<lparr>sd_id = ''a'' @ [CHR 92], sd_params = []\<rparr>] @ CHR '' '' # ''hello'') = Inl errTruncated"
  by (simp add: skipStructuredData_def renderSD_def renderElem_def sdElements.simps)

definition dash :: "string \<Rightarrow> string" where
  "dash s = (if s = [] then ''-'' else s)"

lemma dash_field: "CHR '' '' \<notin> set s \<Longrightarrow> s \<noteq> ''-'' \<Longrightarrow> CHR '' '' \<notin> set (dash s) \<and> nilStr (dash s) = s"
  by (simp add: dash_def nilStr_def)

definition render5424 :: "nat \<Rightarrow> string \<Rightarrow> string \<Rightarrow> string \<Rightarrow> string \<Rightarrow> string \<Rightarrow> sdElem list \<Rightarrow> string \<Rightarrow> string" where
  "render5424 pri ts host app procid msgid es msg =
     ''<'' @ itoa pri @ ''>1 '' @ ts @ '' '' @ dash host @ '' '' @ dash app @ '' '' @ dash procid @ '' '' @ dash msgid @ '' '' @
     renderSD es @ '' '' @ msg"



end
