(* ===== verification/Filterlog.thy ===== *)
theory Filterlog
  imports SyslogEnvelope Enrich DNSCache LogRecord
begin

text \<open>
  The firewall log parser (\<^verbatim>\<open>internal/logship/syslog/filterlog.go\<close>), the geolocation attributes of the log
  lanes (\<^verbatim>\<open>geo.go\<close>) and the join with the DNS answer cache (\<^verbatim>\<open>filterlog_domain.go\<close>).

  A parser takes an envelope, the enrichment snapshot (\<open>None\<close> is \<^verbatim>\<open>nil\<close>) and the process-wide geolocation
  source, and gives a record with the tables it reported a miss for, or nothing when it does not know the
  line. The attribute map is threaded through the closure \<^verbatim>\<open>set\<close>, here \<open>setAttr\<close>.
\<close>

section \<open>Attributes\<close>

text \<open>An address and a port as the row spells them.\<close>

type_synonym ipText = string
type_synonym portText = string
type_synonym attrMap = "(string, string) gomap"
type_synonym geoSource = "(addr \<Rightarrow> GeoResult \<times> bool) option"
type_synonym logParser = "Envelope \<Rightarrow> Snapshot option \<Rightarrow> (LogRecord \<times> string list) option"

definition setAttr :: "string \<Rightarrow> string \<Rightarrow> attrMap \<Rightarrow> attrMap" where
  "setAttr k v m = (if v = [] then m else AList.update k v m)"

definition attr_at :: "attrMap \<Rightarrow> string \<Rightarrow> string" where
  "attr_at m k = (case map_of m k of None \<Rightarrow> [] | Some v \<Rightarrow> v)"

section \<open>Geolocation of the log lanes\<close>

definition geoSourceMaxMind :: string where
  "geoSourceMaxMind = ''maxmind''"

definition log_geoAttrs :: "geoSource \<Rightarrow> string \<Rightarrow> string \<Rightarrow> attrMap \<Rightarrow> attrMap" where
  "log_geoAttrs geo side ip m =
     (case geo of
        None \<Rightarrow> m
      | Some lookup \<Rightarrow>
          if ip = [] then m
          else case ParseAddr ip of
            None \<Rightarrow> m
          | Some a \<Rightarrow>
              let (res, hit) = lookup a in
              if \<not> hit then m
              else
                let m = (if gr_CountryISO res \<noteq> []
                         then setAttr (side @ ''.geo.country_source'') geoSourceMaxMind
                                (setAttr (side @ ''.geo.country'') (gr_CountryISO res) m)
                         else m);
                    m = (if gr_ContinentCode res \<noteq> [] then setAttr (side @ ''.geo.continent'') (gr_ContinentCode res) m else m);
                    m = (if gr_ASN res \<noteq> 0 then setAttr (side @ ''.geo.asn'') (''AS'' @ itoa (gr_ASN res)) m else m)
                in (if gr_ASOrg res \<noteq> [] then setAttr (side @ ''.geo.as_org'') (gr_ASOrg res) m else m))"

section \<open>Pieces of a row\<close>

definition filterlogHeaderLen :: nat where
  "filterlogHeaderLen = 9"

definition ruleLabel :: "Snapshot option \<Rightarrow> string \<Rightarrow> string \<times> bool" where
  "ruleLabel snap rid = (case snap of None \<Rightarrow> ([], False) | Some s \<Rightarrow> Snapshot_RuleLabel s rid)"

definition ifaceName :: "Snapshot option \<Rightarrow> string \<Rightarrow> string \<times> bool" where
  "ifaceName snap dev =
     (case snap of None \<Rightarrow> ([], False) | Some s \<Rightarrow> if dev = [] then ([], False) else Snapshot_InterfaceName s dev)"

definition ruleRef :: "string \<Rightarrow> string \<Rightarrow> string" where
  "ruleRef rulenr subrulenr =
     (if rulenr = [] then []
      else if subrulenr = [] then ''rule #'' @ rulenr
      else ''rule #'' @ rulenr @ ''.'' @ subrulenr)"

definition networkType :: "string \<Rightarrow> string" where
  "networkType v = (if v = ''4'' then ''ipv4'' else if v = ''6'' then ''ipv6'' else [])"

definition networkTransport :: "string \<Rightarrow> string" where
  "networkTransport proto = (if proto = ''tcp'' \<or> proto = ''udp'' then proto else [])"

text \<open>The function \<^verbatim>\<open>at\<close>: the field, or nothing out of range.\<close>

definition field_at :: "string list \<Rightarrow> nat \<Rightarrow> string" where
  "field_at s i = (if length s \<le> i then [] else s ! i)"

definition endpoint :: "ipText \<Rightarrow> portText \<Rightarrow> string" where
  "endpoint ip port = (if port = [] then ip else ip @ '':'' @ port)"

definition renderFilterlogBody ::
  "string \<Rightarrow> string \<Rightarrow> string \<Rightarrow> string \<Rightarrow> ipText \<Rightarrow> ipText \<Rightarrow> portText \<Rightarrow> portText \<Rightarrow> string \<Rightarrow> string" where
  "renderFilterlogBody action dir ifName ifDev src dst srcPort dstPort proto =
     (let name = (if ifName = [] then ifDev else ifName) in
      action @ (if dir \<noteq> [] then '' '' @ dir else []) @ (if name \<noteq> [] then '' on '' @ name else []) @ '': '' @
      endpoint src srcPort @ '' -> '' @ endpoint dst dstPort @ (if proto \<noteq> [] then '' ('' @ proto @ '')'' else []))"

definition enrichEndpoint :: "Snapshot option \<Rightarrow> string \<Rightarrow> ipText \<Rightarrow> portText \<Rightarrow> string \<Rightarrow> attrMap \<Rightarrow> attrMap" where
  "enrichEndpoint snap side ip port proto m =
     (if ip = [] then m
      else
        let m = (case snap of
                   None \<Rightarrow> m
                 | Some s \<Rightarrow>
                     let (host, ok) = Snapshot_Hostname s ip; m = (if ok then setAttr (side @ ''.hostname'') host m else m);
                         (mac, ok) = Snapshot_MAC s ip; m = (if ok then setAttr (side @ ''.mac'') mac m else m)
                     in setAttr (side @ ''.scope'') (Snapshot_Scope s ip) m)
        in if port \<noteq> [] then (let (svc, ok) = ServiceName port proto in if ok then setAttr (side @ ''.service'') svc m else m)
           else m)"

section \<open>The parser\<close>

text \<open>The IP-version specific body: protocol number and name, source, destination and the protocol's own fields.\<close>

definition filterlogBody :: "string list \<Rightarrow> (string \<times> string \<times> string \<times> string \<times> string list) option" where
  "filterlogBody f =
     (let h = filterlogHeaderLen in
      if f ! 8 = ''4'' then
        (if length f < h + 11 then None else Some (f ! (h + 6), f ! (h + 7), f ! (h + 9), f ! (h + 10), drop (h + 11) f))
      else if f ! 8 = ''6'' then
        (if length f < h + 8 then None else Some (f ! (h + 4), f ! (h + 3), f ! (h + 6), f ! (h + 7), drop (h + 8) f))
      else None)"

definition headAttrs :: "string list \<Rightarrow> string \<Rightarrow> string \<Rightarrow> string \<Rightarrow> attrMap" where
  "headAttrs f protoName src dst =
     fold (\<lambda>(k, v). setAttr k v)
       [(''action'', f ! 6), (AttrAction, MapFilterlogAction (f ! 6)), (''direction'', f ! 7), (''interface'', f ! 4),
        (''ip.version'', f ! 8), (''network.type'', networkType (f ! 8)), (''protocol'', protoName),
        (''network.transport'', networkTransport protoName), (''src.ip'', src), (''dst.ip'', dst)] []"

text \<open>The identity of the rule, with the tables missed.\<close>

definition ruleAttrs :: "Snapshot option \<Rightarrow> string list \<Rightarrow> attrMap \<Rightarrow> attrMap \<times> string list" where
  "ruleAttrs snap f m =
     (let rid = f ! 3 in
      if rid = [] \<or> rid = ''0'' then (setAttr ''rule.ref'' (ruleRef (f ! 0) (f ! 1)) m, [])
      else
        let m = setAttr ''rule.id'' rid m; (descr, ok) = ruleLabel snap rid in
        if ok then (setAttr ''rule.description'' descr m, []) else (m, [''rules'']))"

definition tcpNames :: "string list" where
  "tcpNames = [''src.port'', ''dst.port'', [], ''tcp.flags'', ''tcp.seq'', ''tcp.ack'', ''tcp.window'', ''tcp.urg'', ''tcp.options'']"

text \<open>The protocol's own fields, with the source and destination ports.\<close>

definition protoAttrs :: "string \<Rightarrow> string list \<Rightarrow> attrMap \<Rightarrow> attrMap \<times> string \<times> string" where
  "protoAttrs protoNum tail m =
     (if protoNum = ''6'' then
        (fold (\<lambda>(name, v) m. if name = [] then m else setAttr name v m) (zip tcpNames tail) m, field_at tail 0, field_at tail 1)
      else if protoNum = ''17'' then
        (setAttr ''dst.port'' (field_at tail 1) (setAttr ''src.port'' (field_at tail 0) m), field_at tail 0, field_at tail 1)
      else if protoNum = ''112'' then (m, [], [])
      else (setAttr ''icmp_extra'' (join_with '','' tail) m, [], []))"

definition parseFilterlog :: "geoSource \<Rightarrow> logParser" where
  "parseFilterlog geo env snap =
     (let f = split_on (CHR '','') (env_Message env) in
      if length f < filterlogHeaderLen then None
      else case filterlogBody f of
        None \<Rightarrow> None
      | Some (protoNum, protoName, src, dst, tail) \<Rightarrow>
          let action = f ! 6; dir = f ! 7; iface = f ! 4;
              m = headAttrs f protoName src dst;
              (m, misses) = ruleAttrs snap f m;
              (m, srcPort, dstPort) = protoAttrs protoNum tail m;
              (name, ok) = ifaceName snap iface;
              m = (if ok then setAttr ''interface.name'' name m else m);
              m = enrichEndpoint snap ''src'' src srcPort protoName m;
              m = enrichEndpoint snap ''dst'' dst dstPort protoName m;
              m = log_geoAttrs geo ''src'' src m;
              m = log_geoAttrs geo ''dst'' dst m;
              sev = (if action = ''block'' then SeverityWarn else SeverityInfo)
          in Some (\<lparr>lr_Timestamp = env_Timestamp env,
                     lr_Body = renderFilterlogBody action dir (attr_at m ''interface.name'') iface src dst srcPort dstPort protoName,
                     lr_Attributes = Some m, lr_Severity = sev, lr_Source = []\<rparr>, misses))"

section \<open>The domain of a destination\<close>

text \<open>The record, the domain added or nothing, and the cache the lookup leaves.\<close>

definition enrichFilterlogDomain :: "LogRecord \<Rightarrow> DNSCache option \<Rightarrow> time \<Rightarrow> LogRecord \<times> string \<times> DNSCache option" where
  "enrichFilterlogDomain rec cache now =
     (case cache of
        None \<Rightarrow> (rec, [], cache)
      | Some d \<Rightarrow>
          let m = (case lr_Attributes rec of None \<Rightarrow> [] | Some m \<Rightarrow> m) in
          case (ParseAddr (attr_at m ''src.ip''), ParseAddr (attr_at m ''dst.ip'')) of
            (Some src, Some dst) \<Rightarrow>
              let (d', found) = DNSCache_Lookup src dst now d in
              (case found of
                 None \<Rightarrow> (rec, [], Some d')
               | Some domain \<Rightarrow>
                   if domain = [] then (rec, [], Some d')
                   else (rec\<lparr>lr_Attributes := Some (AList.update ''dst.domain'' domain m)\<rparr>, domain, Some d'))
          | _ \<Rightarrow> (rec, [], cache))"

section \<open>Rows\<close>

lemma split_on_plain: "c \<notin> set w \<Longrightarrow> split_on c w = [w]"
  by (induction w) auto

lemma split_on_append: "c \<notin> set w \<Longrightarrow> split_on c (w @ c # s) = w # split_on c s"
  by (induction w) auto

lemma split_join: "ws \<noteq> [] \<Longrightarrow> list_all (\<lambda>w. c \<notin> set w) ws \<Longrightarrow> split_on c (join_with [c] ws) = ws"
proof (induction ws)
  case (Cons w ws)
  have j: "join_with [c] (w # v # vs) = w @ c # join_with [c] (v # vs)" for v vs by (simp add: join_with_def)
  show ?case
  proof (cases ws)
    case Nil
    then show ?thesis using Cons.prems split_on_plain [of c w] by (simp add: join_with_def)
  next
    case (Cons v vs)
    then show ?thesis using Cons.IH Cons.prems j split_on_append [of c w] by simp
  qed
qed simp

lemma attr_at_setAttr: "attr_at (setAttr k v m) k' = (if k' = k \<and> v \<noteq> [] then v else attr_at m k')"
  by (auto simp: attr_at_def setAttr_def map_of_update_conv)

lemma attr_at_Nil [simp]: "attr_at [] k = []"
  by (simp add: attr_at_def)

text \<open>Enrichment and geolocation write only keys of their own.\<close>

lemma enrichEndpoint_frame:
  "k \<notin> {side @ ''.hostname'', side @ ''.mac'', side @ ''.scope'', side @ ''.service''} \<Longrightarrow>
   attr_at (enrichEndpoint snap side ip port proto m) k = attr_at m k"
  by (cases snap) (auto simp: enrichEndpoint_def attr_at_setAttr Let_def split: prod.splits)

lemma geoAttrs_frame:
  "k \<notin> {side @ ''.geo.country'', side @ ''.geo.country_source'', side @ ''.geo.continent'', side @ ''.geo.asn'', side @ ''.geo.as_org''} \<Longrightarrow>
   attr_at (log_geoAttrs geo side ip m) k = attr_at m k"
  by (cases geo; cases "ParseAddr ip") (auto simp: log_geoAttrs_def attr_at_setAttr Let_def split: prod.splits)

lemma ruleAttrs_frame:
  "k \<notin> {''rule.ref'', ''rule.id'', ''rule.description''} \<Longrightarrow> attr_at (fst (ruleAttrs snap f m)) k = attr_at m k"
  by (auto simp: ruleAttrs_def attr_at_setAttr Let_def split: prod.splits)

lemma setFields_frame:
  "k \<notin> set ns \<Longrightarrow> attr_at (fold (\<lambda>(name, v) m. if name = [] then m else setAttr name v m) (zip ns vs) m) k = attr_at m k"
proof (induction ns arbitrary: vs m)
  case (Cons n ns)
  then show ?case by (cases vs) (auto simp: attr_at_setAttr)
qed simp

lemma protoAttrs_frame:
  "k \<notin> {''src.port'', ''dst.port'', ''icmp_extra''} \<Longrightarrow> k \<notin> set tcpNames \<Longrightarrow> attr_at (fst (protoAttrs num tail m)) k = attr_at m k"
  by (auto simp: protoAttrs_def attr_at_setAttr setFields_frame)

lemma protoAttrs_ports:
  assumes "attr_at m ''src.port'' = []" "attr_at m ''dst.port'' = []"
  shows "attr_at (fst (protoAttrs num tail m)) ''src.port'' = (if num = ''6'' \<or> num = ''17'' then field_at tail 0 else [])"
    "attr_at (fst (protoAttrs num tail m)) ''dst.port'' = (if num = ''6'' \<or> num = ''17'' then field_at tail 1 else [])"
proof -
  let ?f = "\<lambda>(name, v) m. if name = [] then m else setAttr name v m"
  have tcp: "attr_at (fold ?f (zip tcpNames tail) m) ''src.port'' = field_at tail 0 \<and>
      attr_at (fold ?f (zip tcpNames tail) m) ''dst.port'' = field_at tail 1"
  proof (cases tail)
    case (Cons a as)
    then show ?thesis using assms by (cases as) (auto simp: tcpNames_def setFields_frame attr_at_setAttr field_at_def)
  qed (use assms in \<open>auto simp: field_at_def\<close>)
  show "attr_at (fst (protoAttrs num tail m)) ''src.port'' = (if num = ''6'' \<or> num = ''17'' then field_at tail 0 else [])"
    using tcp assms by (simp add: protoAttrs_def attr_at_setAttr)
  show "attr_at (fst (protoAttrs num tail m)) ''dst.port'' = (if num = ''6'' \<or> num = ''17'' then field_at tail 1 else [])"
    using tcp assms by (simp add: protoAttrs_def attr_at_setAttr)
qed

lemma headAttrs_at:
  "attr_at (headAttrs f name src dst) ''action'' = f ! 6" "attr_at (headAttrs f name src dst) ''direction'' = f ! 7"
  "attr_at (headAttrs f name src dst) ''interface'' = f ! 4" "attr_at (headAttrs f name src dst) ''protocol'' = name"
  "attr_at (headAttrs f name src dst) ''src.ip'' = src" "attr_at (headAttrs f name src dst) ''dst.ip'' = dst"
  "attr_at (headAttrs f name src dst) ''src.port'' = []" "attr_at (headAttrs f name src dst) ''dst.port'' = []"
  by (simp_all add: headAttrs_def attr_at_setAttr AttrAction_def)

text \<open>What a row says, read off by position, and the attributes that have to say the same.\<close>

definition row_attrs :: "string list \<Rightarrow> string \<Rightarrow> string \<Rightarrow> string \<Rightarrow> string \<Rightarrow> string list \<Rightarrow> attrMap \<Rightarrow> bool" where
  "row_attrs f num name src dst tail m \<longleftrightarrow>
     attr_at m ''action'' = f ! 6 \<and> attr_at m ''direction'' = f ! 7 \<and> attr_at m ''interface'' = f ! 4 \<and>
     attr_at m ''protocol'' = name \<and> attr_at m ''src.ip'' = src \<and> attr_at m ''dst.ip'' = dst \<and>
     attr_at m ''src.port'' = (if num = ''6'' \<or> num = ''17'' then field_at tail 0 else []) \<and>
     attr_at m ''dst.port'' = (if num = ''6'' \<or> num = ''17'' then field_at tail 1 else [])"

lemma row_attrs_stages:
  "row_attrs f num name src dst tail (fst (protoAttrs num tail (fst (ruleAttrs snap f (headAttrs f name src dst)))))"
  using protoAttrs_ports [of "fst (ruleAttrs snap f (headAttrs f name src dst))" num tail]
  by (simp add: row_attrs_def protoAttrs_frame ruleAttrs_frame headAttrs_at tcpNames_def)

lemma row_attrs_rest:
  assumes "row_attrs f num name src dst tail m"
  shows "row_attrs f num name src dst tail (setAttr ''interface.name'' v m)"
    "side = ''src'' \<or> side = ''dst'' \<Longrightarrow> row_attrs f num name src dst tail (enrichEndpoint snap side ip port proto m)"
    "side = ''src'' \<or> side = ''dst'' \<Longrightarrow> row_attrs f num name src dst tail (log_geoAttrs geo side ip m)"
  using assms by (auto simp: row_attrs_def attr_at_setAttr enrichEndpoint_frame geoAttrs_frame)

lemma parseFilterlog_row:
  assumes "list_all (\<lambda>w. CHR '','' \<notin> set w) f" "filterlogHeaderLen \<le> length f" "filterlogBody f = Some (num, name, src, dst, tail)"
  shows "case parseFilterlog geo (env\<lparr>env_Message := join_with '','' f\<rparr>) snap of
      None \<Rightarrow> False
    | Some (rec, misses) \<Rightarrow>
        lr_Timestamp rec = env_Timestamp env \<and> (\<exists>m. lr_Attributes rec = Some m \<and> row_attrs f num name src dst tail m) \<and>
        misses = snd (ruleAttrs snap f (headAttrs f name src dst))"
proof -
  have split: "split_on (CHR '','') (join_with '','' f) = f"
    using assms(1,2) by (intro split_join) (auto simp: filterlogHeaderLen_def)
  obtain m1 ms where r: "ruleAttrs snap f (headAttrs f name src dst) = (m1, ms)" by (cases "ruleAttrs snap f (headAttrs f name src dst)")
  obtain m2 sp dp where p: "protoAttrs num tail m1 = (m2, sp, dp)" by (cases "protoAttrs num tail m1")
  obtain nm ok where i: "ifaceName snap (f ! 4) = (nm, ok)" by (cases "ifaceName snap (f ! 4)")
  have "row_attrs f num name src dst tail m2" using row_attrs_stages [of f num name src dst tail snap] r p by simp
  then have "row_attrs f num name src dst tail (if ok then setAttr ''interface.name'' nm m2 else m2)" by (simp add: row_attrs_rest)
  then show ?thesis using assms split r p i by (simp add: parseFilterlog_def Let_def row_attrs_rest)
qed

text \<open>
  Firewall rows are read by position, for both IP versions: addresses, protocol name (which
  IPv6 rows give before the protocol number and IPv4 rows after it), action, direction, interface and ports
  end up under the attribute that names them, whatever enrichment and geolocation add.
\<close>

theorem filterlog_positions:
  assumes "length hdr = 8"
    and "list_all (\<lambda>w. CHR '','' \<notin> set w) (hdr @ [tos, ecn, ttl, ident, off, flg, num, name, len, src, dst] @ tail)"
  shows "(case parseFilterlog geo (env\<lparr>env_Message :=
        join_with '','' (hdr @ [''4'', tos, ecn, ttl, ident, off, flg, num, name, len, src, dst] @ tail)\<rparr>) snap of
      None \<Rightarrow> False
    | Some (rec, misses) \<Rightarrow> \<exists>m. lr_Attributes rec = Some m \<and> row_attrs hdr num name src dst tail m) \<and>
    (case parseFilterlog geo (env\<lparr>env_Message := join_with '','' (hdr @ [''6'', tos, ecn, ttl, name, num, len, src, dst] @ tail)\<rparr>) snap of
      None \<Rightarrow> False
    | Some (rec, misses) \<Rightarrow> \<exists>m. lr_Attributes rec = Some m \<and> row_attrs hdr num name src dst tail m)"
proof -
  have hdr: "row_attrs (hdr @ xs) num name src dst tail m = row_attrs hdr num name src dst tail m" for xs m
    using assms(1) by (simp add: row_attrs_def nth_append)
  let ?f4 = "hdr @ [''4'', tos, ecn, ttl, ident, off, flg, num, name, len, src, dst] @ tail"
  let ?f6 = "hdr @ [''6'', tos, ecn, ttl, name, num, len, src, dst] @ tail"
  have b: "filterlogBody ?f4 = Some (num, name, src, dst, tail)" "filterlogBody ?f6 = Some (num, name, src, dst, tail)"
    using assms(1) by (simp_all add: filterlogBody_def filterlogHeaderLen_def nth_append)
  have c: "list_all (\<lambda>w. CHR '','' \<notin> set w) ?f4" "list_all (\<lambda>w. CHR '','' \<notin> set w) ?f6" using assms(2) by simp_all
  have l: "filterlogHeaderLen \<le> length ?f4" "filterlogHeaderLen \<le> length ?f6" using assms(1) by (simp_all add: filterlogHeaderLen_def)
  show ?thesis
    using parseFilterlog_row [OF c(1) l(1) b(1), where geo = geo and env = env and snap = snap]
      parseFilterlog_row [OF c(2) l(2) b(2), where geo = geo and env = env and snap = snap] hdr
    by (auto split: option.splits prod.splits)
qed

definition sampleHeader :: "string list" where
  "sampleHeader = [''12'', [], [], ''0'', ''igb0'', ''match'', ''block'', ''in'']"

theorem filterlog_positions_witness:
  "case parseFilterlog None (Envelope_zero\<lparr>env_Message :=
      ''12,,,0,igb0,match,block,in,4,0x0,,64,1,0,DF,6,tcp,60,10.0.0.6,10.0.0.114,57920,22,0''\<rparr>) None of
    None \<Rightarrow> False
  | Some (rec, misses) \<Rightarrow> \<exists>m. lr_Attributes rec = Some m \<and>
      row_attrs sampleHeader ''6'' ''tcp'' ''10.0.0.6'' ''10.0.0.114'' [''57920'', ''22'', ''0''] m"
proof -
  have "length sampleHeader = 8" by (simp add: sampleHeader_def)
  moreover have "list_all (\<lambda>w. CHR '','' \<notin> set w) (sampleHeader @ [''0x0'', [], ''64'', ''1'', ''0'', ''DF'', ''6'', ''tcp'', ''60'',
      ''10.0.0.6'', ''10.0.0.114''] @ [''57920'', ''22'', ''0''])" by (simp add: sampleHeader_def)
  ultimately have "case parseFilterlog None (Envelope_zero\<lparr>env_Message :=
        join_with '','' (sampleHeader @ [''4'', ''0x0'', [], ''64'', ''1'', ''0'', ''DF'', ''6'', ''tcp'', ''60'', ''10.0.0.6'', ''10.0.0.114''] @
          [''57920'', ''22'', ''0''])\<rparr>) None of
      None \<Rightarrow> False
    | Some (rec, misses) \<Rightarrow> \<exists>m. lr_Attributes rec = Some m \<and>
        row_attrs sampleHeader ''6'' ''tcp'' ''10.0.0.6'' ''10.0.0.114'' [''57920'', ''22'', ''0''] m"
    by (rule filterlog_positions [THEN conjunct1])
  then show ?thesis by (simp add: sampleHeader_def join_with_def)
qed

end
