(* ===== verification/SyslogDispatch.thy ===== *)
theory SyslogDispatch
  imports Filterlog ZenParse
begin

text \<open>
  From an envelope to a record (\<^verbatim>\<open>internal/logship/syslog\<close>): the parser registry and subsystem table
  (\<^verbatim>\<open>registry.go\<close>), generic records and dispatch (\<^verbatim>\<open>generic.go\<close>), body enrichment (\<^verbatim>\<open>enrichgeneric.go\<close>,
  \<^verbatim>\<open>tunnels.go\<close>), captured and known messages (\<^verbatim>\<open>captured.go\<close>, \<^verbatim>\<open>known.go\<close>), the redaction boundaries
  (\<^verbatim>\<open>captured_api.go\<close>, \<^verbatim>\<open>freeradius_sanitize.go\<close>, \<^verbatim>\<open>freeradius.go\<close>) and the filter (\<^verbatim>\<open>filter.go\<close>).

  The compiled patterns are arguments: the finders of \<open>patterns\<close>, and in the tables of captured and known
  messages a matcher per rule. The parsers other lanes register are entries of the registry.
\<close>

section \<open>Redaction of API credentials\<close>

definition hasPrefix :: "string \<Rightarrow> string \<Rightarrow> bool" where
  "hasPrefix s p \<longleftrightarrow> length p \<le> length s \<and> take (length p) s = p"

text \<open>\<^verbatim>\<open>strings.Index\<close>.\<close>

fun strIndex :: "string \<Rightarrow> string \<Rightarrow> nat option" where
  "strIndex [] p = (if p = [] then Some 0 else None)"
| "strIndex (c # cs) p = (if hasPrefix (c # cs) p then Some 0 else map_option Suc (strIndex cs p))"

definition apiMarker :: string where
  "apiMarker = ''authentication failed for api key''"

definition redactAPIAuthFailure :: "string \<Rightarrow> string" where
  "redactAPIAuthFailure t =
     (case strIndex t apiMarker of None \<Rightarrow> t | Some i \<Rightarrow> take (i + length apiMarker) t @ '' [REDACTED]'')"

section \<open>The parser registry\<close>

record parserRegistry =
  pr_parsers :: "(string, logParser) gomap"
  pr_prefixes :: "(string, logParser) gomap"
  pr_bodyPrograms :: "(string, bool) gomap"
  pr_bodyPrefixes :: "(string, bool) gomap"

text \<open>Registration panics on a duplicate (\<open>None\<close>).\<close>

fun RegisterParser :: "logParser \<Rightarrow> string list \<Rightarrow> parserRegistry \<Rightarrow> parserRegistry option" where
  "RegisterParser p [] r = Some r"
| "RegisterParser p (prog # progs) r =
     (if map_of (pr_parsers r) prog \<noteq> None then None
      else RegisterParser p progs (r\<lparr>pr_parsers := AList.update prog p (pr_parsers r)\<rparr>))"

fun RegisterParserPrefix :: "logParser \<Rightarrow> string list \<Rightarrow> parserRegistry \<Rightarrow> parserRegistry option" where
  "RegisterParserPrefix p [] r = Some r"
| "RegisterParserPrefix p (prefix # prefixes) r =
     (if prefix = [] \<or> map_of (pr_prefixes r) prefix \<noteq> None then None
      else RegisterParserPrefix p prefixes (r\<lparr>pr_prefixes := AList.update prefix p (pr_prefixes r)\<rparr>))"

definition RegisterParserWithBodyEnrichment :: "logParser \<Rightarrow> string list \<Rightarrow> parserRegistry \<Rightarrow> parserRegistry option" where
  "RegisterParserWithBodyEnrichment p progs r =
     map_option (\<lambda>r. r\<lparr>pr_bodyPrograms := fold (\<lambda>prog. AList.update prog True) progs (pr_bodyPrograms r)\<rparr>) (RegisterParser p progs r)"

definition RegisterParserPrefixWithBodyEnrichment :: "logParser \<Rightarrow> string list \<Rightarrow> parserRegistry \<Rightarrow> parserRegistry option" where
  "RegisterParserPrefixWithBodyEnrichment p prefixes r =
     map_option (\<lambda>r. r\<lparr>pr_bodyPrefixes := fold (\<lambda>prefix. AList.update prefix True) prefixes (pr_bodyPrefixes r)\<rparr>)
       (RegisterParserPrefix p prefixes r)"

text \<open>The loop over the table in the order the map is iterated: the best key, its value and its length.\<close>

definition prefixStep :: "string \<Rightarrow> string \<times> 'v \<Rightarrow> string \<times> 'v option \<times> nat \<Rightarrow> string \<times> 'v option \<times> nat" where
  "prefixStep s = (\<lambda>(prefix, v) (bestKey, best, bestN).
     if bestN < length prefix \<and> hasPrefix s prefix then (prefix, Some v, length prefix) else (bestKey, best, bestN))"

definition longestPrefixMatch :: "(string, 'v) gomap \<Rightarrow> string \<Rightarrow> (string \<times> 'v) option" where
  "longestPrefixMatch table s =
     (case fold (prefixStep s) table ([], None, 0) of
        (bestKey, Some best, bestN) \<Rightarrow> if 0 < bestN then Some (bestKey, best) else None
      | (bestKey, None, bestN) \<Rightarrow> None)"

definition parserFor :: "parserRegistry \<Rightarrow> string \<Rightarrow> logParser option" where
  "parserFor r program =
     (case map_of (pr_parsers r) program of
        Some p \<Rightarrow> Some p
      | None \<Rightarrow> map_option snd (longestPrefixMatch (pr_prefixes r) program))"

definition parserEnrichesBody :: "parserRegistry \<Rightarrow> string \<Rightarrow> bool" where
  "parserEnrichesBody r program =
     (case map_of (pr_parsers r) program of
        Some p \<Rightarrow> map_of (pr_bodyPrograms r) program = Some True
      | None \<Rightarrow>
          (case longestPrefixMatch (pr_prefixes r) program of
             None \<Rightarrow> False
           | Some (prefix, p) \<Rightarrow> map_of (pr_bodyPrefixes r) prefix = Some True))"

section \<open>Subsystems\<close>

definition subsystems :: "(string, string) gomap" where
  "subsystems =
     [(''filterlog'', ''firewall''), (''firewall'', ''firewall''), (''pf'', ''firewall''), (''audit'', ''audit''),
      (''configd.py'', ''audit''), (''configd'', ''audit''), (''config'', ''audit''), (''configctl'', ''audit''),
      (''sshd'', ''auth''), (''sshd-session'', ''auth''), (''su'', ''auth''), (''sudo'', ''auth''), (''radiusd'', ''auth''),
      (''unbound'', ''dns''), (''dnsmasq'', ''dns''), (''dnsmasq-dhcp'', ''dhcp''), (''kea-dhcp4'', ''dhcp''),
      (''kea-dhcp6'', ''dhcp''), (''kea-ctrl-agent'', ''dhcp''), (''kea-dhcp-ddns'', ''dhcp''), (''dhcpd'', ''dhcp''),
      (''dhcrelay'', ''dhcp''), (''dhcp6c'', ''dhcp''), (''DhcpLFC'', ''dhcp''), (''dhclient'', ''dhcp''), (''radvd'', ''dhcp''),
      (''ppp'', ''wan''), (''charon'', ''ipsec''), (''openvpn'', ''vpn''), (''wireguard'', ''vpn''), (''netbird'', ''vpn''),
      (''/usr/local/bin/netbird'', ''vpn''), (''tailscaled'', ''vpn''), (''tailscale'', ''vpn''), (''suricata'', ''ids''),
      (''crowdsec'', ''ids''), (''rule-updater.py'', ''ids''), (''haproxy'', ''proxy''), (''nginx'', ''proxy''),
      (''relayd'', ''proxy''), (''lighttpd'', ''proxy''), (''bgpd'', ''routing''), (''ospfd'', ''routing''), (''ospf6d'', ''routing''),
      (''ripd'', ''routing''), (''zebra'', ''routing''), (''staticd'', ''routing''), (''dpinger'', ''gateways''), (''upsmon'', ''ups''),
      (''upsd'', ''ups''), (''apcupsd'', ''ups''), (''monit'', ''monitoring''), (''ntpd'', ''ntp''), (''chronyd'', ''ntp''),
      (''clamd'', ''antivirus''), (''freshclam'', ''antivirus''), (''captiveportal'', ''captiveportal''), (''pkg'', ''packages''),
      (''pkg-static'', ''packages''), (''cron'', ''cron''), (''/usr/sbin/cron'', ''cron''), (''syslog-ng'', ''logging''),
      (''kernel'', ''kernel''), (''acme.sh'', ''certificates''), (''squid'', ''proxy''), (''miniupnpd'', ''upnp''),
      (''unbound-control'', ''dns'')]"

definition subsystemFor :: "string \<Rightarrow> string" where
  "subsystemFor program =
     (case map_of subsystems program of
        Some s \<Rightarrow> s
      | None \<Rightarrow>
          if hasPrefix program ''openvpn'' then ''vpn''
          else if hasPrefix program ''kea-'' then ''dhcp''
          else if hasPrefix program ''wg'' then ''vpn''
          else [])"

section \<open>The filter\<close>

record LogFilter =
  fl_include :: "(string, bool) gomap"
  fl_exclude :: "(string, bool) gomap"
  fl_minSeverity :: int
  fl_hasSeverity :: bool

definition programSet :: "string list \<Rightarrow> (string, bool) gomap" where
  "programSet ps = fold (\<lambda>p m. if TrimSpace p = [] then m else AList.update (TrimSpace p) True m) ps []"

definition NewFilter :: "string list \<Rightarrow> string list \<Rightarrow> int \<Rightarrow> bool \<Rightarrow> LogFilter" where
  "NewFilter include exclude minSeverity hasSeverity =
     \<lparr>fl_include = programSet include, fl_exclude = programSet exclude, fl_minSeverity = minSeverity, fl_hasSeverity = hasSeverity\<rparr>"

definition filter_Allow :: "LogFilter option \<Rightarrow> string \<Rightarrow> int \<Rightarrow> bool" where
  "filter_Allow f program severity =
     (case f of
        None \<Rightarrow> True
      | Some f \<Rightarrow>
          if fl_hasSeverity f \<and> fl_minSeverity f < severity then False
          else if fl_include f \<noteq> [] then map_of (fl_include f) program = Some True
          else map_of (fl_exclude f) program \<noteq> Some True)"

definition filter_Enabled :: "LogFilter option \<Rightarrow> bool" where
  "filter_Enabled f = (case f of None \<Rightarrow> False | Some f \<Rightarrow> fl_include f \<noteq> [] \<or> fl_exclude f \<noteq> [] \<or> fl_hasSeverity f)"

section \<open>Generic records\<close>

definition syslogSeverity :: "int \<Rightarrow> Severity" where
  "syslogSeverity sev =
     (if 0 \<le> sev \<and> sev \<le> 2 then SeverityFatal
      else if sev = 3 then SeverityError
      else if sev = 4 then SeverityWarn
      else if sev = 5 \<or> sev = 6 then SeverityInfo
      else if sev = 7 then SeverityDebug
      else SeverityInfo)"

definition genericAttrs :: "Envelope \<Rightarrow> attrMap" where
  "genericAttrs env =
     AList.update ''severity'' (FormatInt (env_Severity env)) (AList.update ''facility'' (FormatInt (env_Facility env))
       (setAttr ''pid'' (env_PID env) (setAttr ''host'' (env_Hostname env) (setAttr ''program'' (env_Program env) []))))"

definition genericRecord :: "Envelope \<Rightarrow> LogRecord" where
  "genericRecord env =
     \<lparr>lr_Timestamp = env_Timestamp env, lr_Body = env_Message env, lr_Attributes = Some (genericAttrs env),
      lr_Severity = syslogSeverity (env_Severity env), lr_Source = []\<rparr>"

definition rec_attrs :: "LogRecord \<Rightarrow> attrMap" where
  "rec_attrs r = (case lr_Attributes r of None \<Rightarrow> [] | Some m \<Rightarrow> m)"

section \<open>Body enrichment\<close>

text \<open>The finders of the addresses, devices and identifiers in a message, and the test for a MAC address.\<close>

record patterns =
  px_ips :: "string \<Rightarrow> string list"
  px_macLike :: "string \<Rightarrow> bool"
  px_devices :: "string \<Rightarrow> string list"
  px_uuids :: "string \<Rightarrow> string list"

definition maxEnrichedIPs :: nat where
  "maxEnrichedIPs = 3"

definition maxEnrichedDevices :: nat where
  "maxEnrichedDevices = 2"

definition peerKey :: "nat \<Rightarrow> string" where
  "peerKey n = (if n = 0 then ''peer'' else if n = 1 then ''peer.2'' else ''peer.3'')"

fun enrichIPs :: "patterns \<Rightarrow> Snapshot \<Rightarrow> string list \<Rightarrow> nat \<Rightarrow> string list \<Rightarrow> attrMap \<Rightarrow> attrMap" where
  "enrichIPs px snap seen n [] m = m"
| "enrichIPs px snap seen n (ip # ips) m =
     (if maxEnrichedIPs \<le> n then m
      else if ip \<in> set seen \<or> px_macLike px ip then enrichIPs px snap seen n ips m
      else
        let (host, hasHost) = Snapshot_Hostname snap ip; (mac, hasMAC) = Snapshot_MAC snap ip; scope = Snapshot_Scope snap ip in
        if \<not> hasHost \<and> \<not> hasMAC \<and> scope = [] then enrichIPs px snap seen n ips m
        else
          let p = peerKey n;
              m = setAttr (p @ ''.ip'') ip m;
              m = (if hasHost then setAttr (p @ ''.hostname'') host m else m);
              m = (if hasMAC then setAttr (p @ ''.mac'') mac m else m);
              m = setAttr (p @ ''.scope'') scope m
          in enrichIPs px snap (ip # seen) (Suc n) ips m)"

fun enrichDevices :: "Snapshot \<Rightarrow> string list \<Rightarrow> nat \<Rightarrow> string list \<Rightarrow> attrMap \<Rightarrow> attrMap" where
  "enrichDevices snap seen d [] m = m"
| "enrichDevices snap seen d (dev # devs) m =
     (if maxEnrichedDevices \<le> d \<or> dev \<in> set seen then enrichDevices snap seen d devs m
      else
        let (name, ok) = Snapshot_InterfaceName snap dev in
        if \<not> ok then enrichDevices snap seen d devs m
        else
          let m = (if d = 0 then setAttr ''interface.name'' name (setAttr ''interface'' dev m)
                   else setAttr ''interface.2.name'' name (setAttr ''interface.2'' dev m))
          in enrichDevices snap (dev # seen) (Suc d) devs m)"

definition enrichMessage :: "patterns \<Rightarrow> string \<Rightarrow> Snapshot option \<Rightarrow> attrMap \<Rightarrow> attrMap" where
  "enrichMessage px msg snap m =
     (case snap of
        None \<Rightarrow> m
      | Some s \<Rightarrow>
          if msg = [] then m
          else enrichDevices s [] 0 (px_devices px msg) (enrichIPs px s [] 0 (px_ips px msg) m))"

fun tunnelLoop :: "Snapshot \<Rightarrow> string list \<Rightarrow> attrMap \<Rightarrow> attrMap" where
  "tunnelLoop snap [] m = m"
| "tunnelLoop snap (uid # ids) m =
     (let (name, ok) = Snapshot_Tunnel snap uid; (inst, ok2) = Snapshot_VPNInstance snap uid in
      if ok then setAttr ''ipsec.connection_id'' uid (setAttr ''ipsec.connection'' name m)
      else if ok2 then setAttr ''openvpn.instance_id'' uid (setAttr ''openvpn.instance'' inst m)
      else tunnelLoop snap ids m)"

definition enrichTunnels :: "patterns \<Rightarrow> string \<Rightarrow> string \<Rightarrow> Snapshot option \<Rightarrow> attrMap \<Rightarrow> attrMap" where
  "enrichTunnels px program msg snap m =
     (case snap of
        None \<Rightarrow> m
      | Some s \<Rightarrow>
          if msg = [] then m
          else if subsystemFor program \<noteq> ''ipsec'' \<and> subsystemFor program \<noteq> ''vpn'' then m
          else tunnelLoop s (take 2 (px_uuids px msg)) m)"

definition addCommon :: "patterns \<Rightarrow> Envelope \<Rightarrow> Snapshot option \<Rightarrow> bool \<Rightarrow> LogRecord \<Rightarrow> LogRecord" where
  "addCommon px env snap enrichBody rec =
     (let m = setAttr AttrSubsystem (subsystemFor (env_Program env)) (rec_attrs rec);
          m = (if enrichBody then enrichMessage px (env_Message env) snap m else m)
      in rec\<lparr>lr_Attributes := Some (enrichTunnels px (env_Program env) (env_Message env) snap m)\<rparr>)"

section \<open>Captured and known messages\<close>

text \<open>A rule's pattern gives the submatches behind the whole match, or nothing.\<close>

record capturedRule =
  cr_pattern :: "string \<Rightarrow> string list option"
  cr_event :: string
  cr_fields :: "string list"

definition hasSuffix :: "string \<Rightarrow> string \<Rightarrow> bool" where
  "hasSuffix s p \<longleftrightarrow> length p \<le> length s \<and> drop (length s - length p) s = p"

text \<open>\<^verbatim>\<open>netip.ParsePrefix\<close>: address without zone, a slash, and a length without sign or leading zero.\<close>

definition ParsePrefix :: "string \<Rightarrow> (addr \<times> nat) option" where
  "ParsePrefix s =
     (if CHR ''/'' \<notin> set s then None
      else
        let bits = rev (takeWhile (\<lambda>c. c \<noteq> CHR ''/'') (rev s)); ip = take (length s - Suc (length bits)) s in
        case ParseAddr ip of
          None \<Rightarrow> None
        | Some a \<Rightarrow>
            if addr_Zone a \<noteq> [] then None
            else if 1 < length bits \<and> \<not> (CHR ''1'' \<le> hd bits \<and> hd bits \<le> CHR ''9'') then None
            else case Atoi bits of
              None \<Rightarrow> None
            | Some n \<Rightarrow> if n < 0 \<or> int (addr_BitLen a) < n then None else Some (a, nat n))"

definition validCapturedField :: "string \<Rightarrow> string \<Rightarrow> bool" where
  "validCapturedField key v =
     (if hasSuffix key ''.ip'' then ParseAddr v \<noteq> None
      else if hasSuffix key ''.port'' then ParseUint 16 v \<noteq> None
      else if key = ''dhcp6c.prefix'' then (case ParsePrefix v of None \<Rightarrow> False | Some (a, n) \<Rightarrow> addr_Is6 a)
      else True)"

definition capturedRecord :: "patterns \<Rightarrow> Envelope \<Rightarrow> Snapshot option \<Rightarrow> capturedRule \<Rightarrow> string list \<Rightarrow> LogRecord" where
  "capturedRecord px env snap rule vs =
     (let rec = genericRecord env;
          m = setAttr ''syslog.event'' (cr_event rule) (rec_attrs rec);
          m = fold (\<lambda>(key, v) m. if key \<noteq> [] then setAttr key v m else m) (zip (cr_fields rule) vs) m;
          m = enrichEndpoint snap ''src'' (attr_at m ''src.ip'') [] [] m;
          m = enrichEndpoint snap ''dst'' (attr_at m ''dst.ip'') [] [] m;
          rec = rec\<lparr>lr_Attributes := Some m\<rparr>;
          rec = (if cr_event rule = ''elasticsearch_log'' then
                   let level = TrimSpace (attr_at m ''elasticsearch.level'') in
                   rec\<lparr>lr_Attributes := Some (AList.update ''elasticsearch.level'' level m),
                       lr_Severity := (if level = ''INFO'' then SeverityInfo
                                       else if level = ''ERROR'' then SeverityError
                                       else if level = ''WARN'' then SeverityWarn
                                       else if level = ''DEBUG'' \<or> level = ''TRACE'' then SeverityDebug
                                       else lr_Severity rec)\<rparr>
                 else rec)
      in addCommon px env snap True rec)"

fun capturedLoop :: "patterns \<Rightarrow> Envelope \<Rightarrow> Snapshot option \<Rightarrow> capturedRule list \<Rightarrow> LogRecord option" where
  "capturedLoop px env snap [] = None"
| "capturedLoop px env snap (rule # rules) =
     (case cr_pattern rule (env_Message env) of
        None \<Rightarrow> capturedLoop px env snap rules
      | Some vs \<Rightarrow>
          if list_all (\<lambda>(key, v). validCapturedField key v) (zip (cr_fields rule) vs)
          then Some (capturedRecord px env snap rule vs)
          else capturedLoop px env snap rules)"

type_synonym capturedRules = "(string, capturedRule list) gomap"
type_synonym knownRules = "(string, ((string \<Rightarrow> bool) \<times> string) list) gomap"

definition rulesFor :: "(string, 'r list) gomap \<Rightarrow> string \<Rightarrow> 'r list" where
  "rulesFor table program = (case map_of table program of None \<Rightarrow> [] | Some rs \<Rightarrow> rs)"

definition parseCapturedRecord :: "patterns \<Rightarrow> capturedRules \<Rightarrow> Envelope \<Rightarrow> Snapshot option \<Rightarrow> LogRecord option" where
  "parseCapturedRecord px rules env snap = capturedLoop px env snap (rulesFor rules (env_Program env))"

text \<open>\<open>perQueryLine\<close> tests for the per-query lines of the resolver, \<open>perQuery\<close> is the switch of that route.\<close>

definition knownPassThrough :: "(string \<Rightarrow> bool) \<Rightarrow> bool \<Rightarrow> knownRules \<Rightarrow> Envelope \<Rightarrow> string" where
  "knownPassThrough perQueryLine perQuery rules env =
     (if env_Program env = ''unbound'' \<and> \<not> perQuery \<and> perQueryLine (env_Message env) then ''unbound_per_query_disabled''
      else case find (\<lambda>(matches, reason). matches (env_Message env)) (rulesFor rules (env_Program env)) of
        None \<Rightarrow> []
      | Some (matches, reason) \<Rightarrow> reason)"

section \<open>Authentication lines of FreeRADIUS\<close>

definition freeRADIUSAccessAcceptedMessage :: string where
  "freeRADIUSAccessAcceptedMessage = ''FreeRADIUS access request accepted''"

definition freeRADIUSAccessRejectedMessage :: string where
  "freeRADIUSAccessRejectedMessage = ''FreeRADIUS access request rejected''"

definition freeRADIUSGenericMessage :: string where
  "freeRADIUSGenericMessage = ''FreeRADIUS message redacted''"

text \<open>The optional request number \<^verbatim>\<open>(?:\(\d+\) )?\<close> at the start: what may follow it.\<close>

definition afterCount :: "string \<Rightarrow> string list" where
  "afterCount s =
     s # (case s of
            [] \<Rightarrow> []
          | c # cs \<Rightarrow>
              if c = CHR ''('' \<and> takeWhile is_digit cs \<noteq> [] \<and> hasPrefix (dropWhile is_digit cs) '') ''
              then [drop 2 (dropWhile is_digit cs)] else [])"

definition reFreeRADIUSAccessAccepted :: "string \<Rightarrow> bool" where
  "reFreeRADIUSAccessAccepted s = list_ex (\<lambda>r. hasPrefix r ''Login OK:'') (afterCount s)"

definition reFreeRADIUSAccessRejected :: "string \<Rightarrow> bool" where
  "reFreeRADIUSAccessRejected s =
     list_ex (\<lambda>r. hasPrefix r ''Login incorrect'' \<and>
       (let q = drop 15 r; p = dropWhile (\<lambda>c. c \<noteq> CHR '')'') (drop 2 q) in
        hasPrefix q '':'' \<or> (hasPrefix q '' ('' \<and> hasPrefix p ''):''))) (afterCount s)"

definition nonSpace :: "char \<Rightarrow> bool" where
  "nonSpace c \<longleftrightarrow> c \<noteq> CHR '' '' \<and> (of_char c :: nat) \<notin> {9, 10, 12, 13}"

text \<open>A run of non-space characters and the space behind it; what follows.\<close>

definition afterWord :: "string \<Rightarrow> string option" where
  "afterWord s =
     (if takeWhile nonSpace s \<noteq> [] \<and> hasPrefix (dropWhile nonSpace s) '' '' then Some (drop 1 (dropWhile nonSpace s)) else None)"

definition reMalformedFreeRADIUS5424 :: "string \<Rightarrow> bool" where
  "reMalformedFreeRADIUS5424 s =
     (hasPrefix s ''1 '' \<and>
      (case Option.bind (afterWord (drop 2 s)) afterWord of
         None \<Rightarrow> False
       | Some r \<Rightarrow> r = ''radiusd'' \<or> hasPrefix r ''radiusd ''))"

definition reMalformedFreeRADIUS3164 :: "string \<Rightarrow> bool" where
  "reMalformedFreeRADIUS3164 s =
     (16 \<le> length s \<and> CHR ''A'' \<le> s ! 0 \<and> s ! 0 \<le> CHR ''Z'' \<and> CHR ''a'' \<le> s ! 1 \<and> s ! 1 \<le> CHR ''z'' \<and>
      CHR ''a'' \<le> s ! 2 \<and> s ! 2 \<le> CHR ''z'' \<and> s ! 3 = CHR '' '' \<and> (s ! 4 = CHR '' '' \<or> is_digit (s ! 4)) \<and> is_digit (s ! 5) \<and>
      s ! 6 = CHR '' '' \<and> is_digit (s ! 7) \<and> is_digit (s ! 8) \<and> s ! 9 = CHR '':'' \<and> is_digit (s ! 10) \<and> is_digit (s ! 11) \<and>
      s ! 12 = CHR '':'' \<and> is_digit (s ! 13) \<and> is_digit (s ! 14) \<and> s ! 15 = CHR '' '' \<and>
      (case afterWord (drop 16 s) of
         None \<Rightarrow> False
       | Some r \<Rightarrow>
           hasPrefix r ''radiusd:'' \<or>
           (hasPrefix r ''radiusd['' \<and> takeWhile is_digit (drop 8 r) \<noteq> [] \<and> hasPrefix (dropWhile is_digit (drop 8 r)) '']:'')))"

text \<open>\<open>fmtTime\<close> is \<^verbatim>\<open>Time.Format\<close> with the RFC 3339 layout, in UTC.\<close>

definition renderSafeFreeRADIUS :: "(time \<Rightarrow> string) \<Rightarrow> Envelope \<Rightarrow> string" where
  "renderSafeFreeRADIUS fmtTime env =
     ''<'' @ FormatInt (env_Facility env * 8 + env_Severity env) @ ''>1 '' @
     (if time_IsZero (env_Timestamp env) then ''-'' else fmtTime (env_Timestamp env)) @ '' - radiusd - - - '' @ env_Message env"

definition safeMessage :: "string \<Rightarrow> string" where
  "safeMessage msg =
     (if msg = freeRADIUSAccessAcceptedMessage \<or> msg = freeRADIUSAccessRejectedMessage \<or> msg = freeRADIUSGenericMessage then msg
      else if reFreeRADIUSAccessAccepted msg then freeRADIUSAccessAcceptedMessage
      else if reFreeRADIUSAccessRejected msg then freeRADIUSAccessRejectedMessage
      else freeRADIUSGenericMessage)"

definition safeEnvelope :: "time \<Rightarrow> int \<Rightarrow> int \<Rightarrow> string \<Rightarrow> Envelope" where
  "safeEnvelope ts facility severity msg =
     Envelope_zero\<lparr>env_Timestamp := ts, env_Program := ''radiusd'', env_Facility := facility, env_Severity := severity, env_Message := msg\<rparr>"

definition sanitizeFreeRADIUS :: "(time \<Rightarrow> string) \<Rightarrow> Envelope \<Rightarrow> string \<Rightarrow> (Envelope \<times> string) option" where
  "sanitizeFreeRADIUS fmtTime env raw =
     (if env_Program env \<noteq> ''radiusd'' then None
      else
        let safe = safeEnvelope (env_Timestamp env) (env_Facility env) (env_Severity env) (safeMessage (env_Message env))
        in Some (safe, renderSafeFreeRADIUS fmtTime safe))"

definition sanitizeMalformedFreeRADIUS :: "(time \<Rightarrow> string) \<Rightarrow> string \<Rightarrow> time \<Rightarrow> (Envelope \<times> string) option" where
  "sanitizeMalformedFreeRADIUS fmtTime line now =
     (if line = [] then None
      else case parsePRI line of
        Inl e \<Rightarrow> None
      | Inr (b, pri) \<Rightarrow>
          if \<not> reMalformedFreeRADIUS5424 b \<and> \<not> reMalformedFreeRADIUS3164 b then None
          else
            let safe = safeEnvelope now (pri div 8) (pri mod 8) freeRADIUSGenericMessage
            in Some (safe, renderSafeFreeRADIUS fmtTime safe))"

definition parseFreeRADIUS :: logParser where
  "parseFreeRADIUS env snap =
     (let result = (if env_Message env = freeRADIUSAccessAcceptedMessage then ''accepted''
                    else if env_Message env = freeRADIUSAccessRejectedMessage then ''rejected'' else []) in
      if result = [] then None
      else
        let rec = genericRecord env;
            m = setAttr ''radius.client_scope'' ''configured''
                  (setAttr ''radius.result'' result (setAttr ''radius.event'' ''access'' (rec_attrs rec)))
        in Some (rec\<lparr>lr_Attributes := Some m\<rparr>, []))"

section \<open>Dispatch\<close>

text \<open>What dispatch reads: the registry, the tables of captured and known messages, the patterns and the route switch.\<close>

record dispatch =
  di_registry :: parserRegistry
  di_captured :: capturedRules
  di_known :: knownRules
  di_patterns :: patterns
  di_perQueryLine :: "string \<Rightarrow> bool"
  di_perQuery :: bool

definition setParseStatus :: "string \<Rightarrow> LogRecord \<Rightarrow> LogRecord" where
  "setParseStatus v rec = rec\<lparr>lr_Attributes := Some (AList.update ''syslog.parse_status'' v (rec_attrs rec))\<rparr>"

text \<open>The record, whether it was parsed, and the tables missed.\<close>

definition genericDispatch :: "dispatch \<Rightarrow> Envelope \<Rightarrow> Snapshot option \<Rightarrow> LogRecord \<times> bool" where
  "genericDispatch di env snap =
     (case parseCapturedRecord (di_patterns di) (di_captured di) env snap of
        Some rec \<Rightarrow> (setParseStatus ''parsed'' rec, True)
      | None \<Rightarrow>
          let rec = setParseStatus ''unknown'' (addCommon (di_patterns di) env snap True (genericRecord env));
              reason = knownPassThrough (di_perQueryLine di) (di_perQuery di) (di_known di) env
          in ((if reason \<noteq> [] then
                 (let rec = setParseStatus ''known'' rec in
                  rec\<lparr>lr_Attributes := Some (AList.update ''syslog.parse_reason'' reason (rec_attrs rec))\<rparr>)
               else rec), False))"

definition syslogRecord :: "dispatch \<Rightarrow> Envelope \<Rightarrow> Snapshot option \<Rightarrow> LogRecord \<times> bool \<times> string list" where
  "syslogRecord di env snap =
     (let env = env\<lparr>env_Message := redactAPIAuthFailure (env_Message env)\<rparr>;
          generic = (\<lambda>misses. case genericDispatch di env snap of (rec, parsed) \<Rightarrow> (rec, parsed, misses)) in
      case parserFor (di_registry di) (env_Program env) of
        None \<Rightarrow> generic []
      | Some p \<Rightarrow>
          (case p env snap of
             None \<Rightarrow> generic []
           | Some (rec, misses) \<Rightarrow>
               (setParseStatus ''parsed''
                  (addCommon (di_patterns di) env snap (parserEnrichesBody (di_registry di) (env_Program env)) rec), True, misses)))"

definition BuildRecord :: "dispatch \<Rightarrow> Envelope \<Rightarrow> Snapshot option \<Rightarrow> LogRecord" where
  "BuildRecord di env snap = fst (syslogRecord di env snap)"

section \<open>Prefix dispatch\<close>

lemma hasPrefix_take: "hasPrefix s p \<longleftrightarrow> (\<exists>t. s = p @ t)"
  by (auto simp: hasPrefix_def) (metis append_take_drop_id)

lemma hasPrefix_length_eq: "hasPrefix s p \<Longrightarrow> hasPrefix s q \<Longrightarrow> length p = length q \<Longrightarrow> p = q"
  by (auto simp: hasPrefix_def)

text \<open>The best entry so far is the longest matching key seen, and it is in the table.\<close>

definition bestOf :: "string \<Rightarrow> (string \<times> 'v) set \<Rightarrow> string \<times> 'v option \<times> nat \<Rightarrow> bool" where
  "bestOf s T = (\<lambda>(k, b, n). n = length k \<and> (\<forall>(k', v') \<in> T. hasPrefix s k' \<longrightarrow> length k' \<le> n) \<and>
     (case b of None \<Rightarrow> n = 0 | Some v \<Rightarrow> (k, v) \<in> T \<and> 0 < n \<and> hasPrefix s k))"

lemma prefixStep_best: "bestOf s T acc \<Longrightarrow> bestOf s (insert e T) (prefixStep s e acc)"
  by (cases e; cases acc) (auto simp: bestOf_def prefixStep_def split: option.splits)

lemma fold_best: "bestOf s T acc \<Longrightarrow> bestOf s (set table \<union> T) (fold (prefixStep s) table acc)"
proof (induction table arbitrary: T acc)
  case (Cons e table)
  have "bestOf s (set table \<union> insert e T) (fold (prefixStep s) table (prefixStep s e acc))"
    by (rule Cons.IH) (rule prefixStep_best [OF Cons.prems])
  then show ?case by simp
qed simp

lemma longestPrefixMatch_best: "bestOf s (set table) (fold (prefixStep s) table ([], None, 0))"
  using fold_best [of s "{}" "([], None, 0)" table] by (simp add: bestOf_def)

lemma longestPrefixMatch_Some:
  assumes "gomap_wf table"
  shows "longestPrefixMatch table s = Some (k, v) \<longleftrightarrow>
    (k, v) \<in> set table \<and> k \<noteq> [] \<and> hasPrefix s k \<and> (\<forall>(k', v') \<in> set table. hasPrefix s k' \<longrightarrow> length k' \<le> length k)"
    (is "?L \<longleftrightarrow> ?R")
proof -
  obtain bk b n where f: "fold (prefixStep s) table ([], None, 0) = (bk, b, n)" by (cases "fold (prefixStep s) table ([], None, 0)")
  have best: "bestOf s (set table) (bk, b, n)" using longestPrefixMatch_best [of s table] f by simp
  show ?thesis
  proof
    assume ?L
    then have "b = Some v" "bk = k" "0 < n" using f by (auto simp: longestPrefixMatch_def split: option.splits if_splits)
    then show ?R using best by (auto simp: bestOf_def)
  next
    assume R: ?R
    then have "length k \<le> n" using best by (auto simp: bestOf_def)
    then have n: "0 < n" using R by (cases k) auto
    then obtain w where b: "b = Some w" "(bk, w) \<in> set table" "hasPrefix s bk" "n = length bk" using best by (auto simp: bestOf_def split: option.splits)
    then have "length bk \<le> length k" using R by auto
    then have "bk = k" using \<open>length k \<le> n\<close> b R by (intro hasPrefix_length_eq [of s]) auto
    moreover from this have "w = v" using b(2) R assms by (metis map_of_mem_wf option.inject)
    ultimately show ?L using f b n by (simp add: longestPrefixMatch_def)
  qed
qed

text \<open>
  Dispatch on program prefixes does not depend on the order in which the table is iterated, which the
  language leaves open: any two enumerations of one table pick the same entry.
\<close>

theorem prefix_dispatch_order_free:
  assumes "gomap_wf table" "mset table' = mset table"
  shows "longestPrefixMatch table' s = longestPrefixMatch table s"
proof -
  have "mset (map fst table') = mset (map fst table)" using assms(2) by simp
  then have "distinct (map fst table')" using assms(1) mset_eq_imp_distinct_iff unfolding gomap_wf_def by blast
  then have "gomap_wf table'" by (simp add: gomap_wf_def)
  moreover have "set table' = set table" using assms(2) by (metis set_mset_mset)
  ultimately have "longestPrefixMatch table' s = Some (k, v) \<longleftrightarrow> longestPrefixMatch table s = Some (k, v)" for k v
    using assms(1) by (simp add: longestPrefixMatch_Some)
  then show ?thesis by (metis option.exhaust surj_pair)
qed

theorem prefix_dispatch_order_free_witness:
  "longestPrefixMatch [(''wg'', 1), (''openvpn'', 2), (''open'', 3 :: nat)] ''openvpn_server1'' =
   longestPrefixMatch [(''open'', 3), (''openvpn'', 2), (''wg'', 1)] ''openvpn_server1''"
  by (rule prefix_dispatch_order_free) (simp_all add: gomap_wf_def)

section \<open>Credentials\<close>

lemma strIndex_length: "strIndex u p = Some i \<Longrightarrow> i + length p \<le> length u"
  by (induction u p arbitrary: i rule: strIndex.induct) (auto simp: hasPrefix_def split: if_splits)

lemma strIndex_append: "strIndex u p = Some i \<Longrightarrow> strIndex (u @ x) p = Some i"
proof (induction u p arbitrary: i rule: strIndex.induct)
  case (1 p)
  then show ?case by (cases x) (auto simp: hasPrefix_def split: if_splits)
next
  case (2 c cs p)
  show ?case
  proof (cases "hasPrefix (c # cs) p")
    case True
    then have "hasPrefix ((c # cs) @ x) p" unfolding hasPrefix_def by (simp del: append_Cons)
    then have "hasPrefix (c # cs @ x) p" by simp
    then show ?thesis using "2.prems" True by simp
  next
    case False
    then obtain j where j: "strIndex cs p = Some j" "i = Suc j" using "2.prems" by auto
    then have "length p \<le> length (c # cs)" using strIndex_length by fastforce
    then have "\<not> hasPrefix ((c # cs) @ x) p" using False unfolding hasPrefix_def by (simp del: append_Cons)
    then have "\<not> hasPrefix (c # cs @ x) p" by simp
    then show ?thesis using "2.IH" [OF False j(1)] j by simp
  qed
qed

lemma strIndex_found: "\<exists>i. strIndex (u @ p) p = Some i \<and> i \<le> length u"
proof (induction u)
  case Nil
  then show ?case by (cases p) (auto simp: hasPrefix_def)
next
  case (Cons c u)
  then show ?case by auto
qed

text \<open>
  No byte of a rejected API key survives: what is kept of a line with the marker does not depend on
  anything behind the marker.
\<close>

theorem api_key_redacted:
  "redactAPIAuthFailure (pre @ apiMarker @ key) = redactAPIAuthFailure (pre @ apiMarker @ key')"
proof -
  obtain i where i: "strIndex (pre @ apiMarker) apiMarker = Some i" "i \<le> length pre" using strIndex_found by blast
  have "redactAPIAuthFailure (pre @ apiMarker @ k) = take (i + length apiMarker) (pre @ apiMarker) @ '' [REDACTED]''" for k
    using strIndex_append [OF i(1), of k] i(2) by (simp add: redactAPIAuthFailure_def)
  then show ?thesis by simp
qed

end
