(* ===== verification/SyslogDerive.thy ===== *)
theory SyslogDerive
  imports SyslogDispatch
begin

text \<open>
  Counters derived from parsed lines (\<^verbatim>\<open>internal/logship/syslog/derive.go\<close>), the label folding of
  \<^verbatim>\<open>suricata.go\<close> and the sampling rule (\<^verbatim>\<open>sample.go\<close>).

  A call of \<^verbatim>\<open>logship.MetricSink\<close> is an \<open>observation\<close>; the sink's answer, whether it counted the call, is a
  function of it. Instants that the source hands over as floating-point seconds are kept as the integer they
  are parsed from, the edge of a PPP link as its text.
\<close>

section \<open>Families\<close>

datatype family = familyUnknown | familyPPP | familyOPNsense | familyFirewall | familyHAProxy | familySSHD | familyDHCP
  | familyAudit | familyIDS | familyGateway | familyRADIUS | familyVPN | familyKernel | familyUPnP | familyDHCPClient | familyDHCP6C

definition programFamily :: "(string, family) gomap" where
  "programFamily =
     [(''ppp'', familyPPP), (''opnsense'', familyOPNsense), (''filterlog'', familyFirewall), (''haproxy'', familyHAProxy),
      (''sshd'', familySSHD), (''sshd-session'', familySSHD), (''dhcpd'', familyDHCP), (''dnsmasq'', familyDHCP),
      (''dnsmasq-dhcp'', familyDHCP), (''kea-dhcp4'', familyDHCP), (''kea-dhcp6'', familyDHCP), (''dhcrelay'', familyDHCP),
      (''audit'', familyAudit), (''configd.py'', familyAudit), (''suricata'', familyIDS), (''dpinger'', familyGateway),
      (''radiusd'', familyRADIUS), (''charon'', familyVPN), (''kernel'', familyKernel), (''miniupnpd'', familyUPnP),
      (''dhclient'', familyDHCPClient), (''dhcp6c'', familyDHCP6C)]"

definition programPrefixFamily :: "(string, family) gomap" where
  "programPrefixFamily = [(''openvpn'', familyVPN)]"

definition deriveFamily :: "string \<Rightarrow> family option" where
  "deriveFamily program =
     (case map_of programFamily program of
        Some f \<Rightarrow> Some f
      | None \<Rightarrow> map_option snd (longestPrefixMatch programPrefixFamily program))"

section \<open>Observations\<close>

datatype observation =
    ObservePPPLink string string string
  | ObserveGatewayStatesKilled string
  | ObserveFirewall string string string string string
  | ObserveHAProxy string string string string string
  | ObserveSSHD string string string
  | ObserveDHCP string string string
  | ObserveDHCP6AllocFail string
  | ObserveAudit string string
  | ObserveIDS string string string string
  | ObserveGateway string string
  | ObserveRADIUS string string string
  | ObserveVPN string string string string
  | ObserveCARP string string string string string
  | ObserveNetmapRingFull string
  | ObserveARPMove string
  | ObserveDHCPClient string string
  | ObserveDHCPClientLease string int int
  | ObserveDHCPClientScript string string
  | ObserveDHCP6CMessage string string string
  | ObserveDHCP6CEvent string string string
  | ObserveDHCP6CPrefix string string int int int
  | ObserveDHCP6CAddress string int int int
  | ClearDHCP6CAddress string
  | ObserveUPnP string string string

text \<open>\<^verbatim>\<open>parseUnixSeconds\<close>: \<^verbatim>\<open>strconv.ParseInt\<close> of a non-empty text.\<close>

definition parseUnixSeconds :: "string \<Rightarrow> int option" where
  "parseUnixSeconds s = (if s = [] then None else Atoi s)"

definition eveOther :: string where
  "eveOther = ''other''"

definition mapEveEventType :: "string \<Rightarrow> string" where
  "mapEveEventType v =
     (if v = [] then [] else if v \<in> set [''alert'', ''anomaly'', ''drop'', ''stats''] then v else eveOther)"

definition mapEveSeverity :: "string \<Rightarrow> string" where
  "mapEveSeverity v = (if v = [] then [] else if v \<in> set [''1'', ''2'', ''3'', ''4''] then v else eveOther)"

definition observeKernel :: "attrMap \<Rightarrow> observation list" where
  "observeKernel m =
     (if attr_at m ''netmap.event'' \<noteq> [] then [ObserveNetmapRingFull (attr_at m ''netmap.device'')]
      else if attr_at m ''arp.event'' \<noteq> [] then [ObserveARPMove (attr_at m ''arp.interface'')]
      else if attr_at m ''carp.event'' = [] then []
      else [ObserveCARP (attr_at m ''carp.event'') (attr_at m ''carp.state.previous'') (attr_at m ''carp.state.current'')
              (attr_at m ''carp.interface'') (attr_at m ''carp.vhid'')])"

definition observeDHCPClient :: "attrMap \<Rightarrow> observation list" where
  "observeDHCPClient m =
     (let iface = attr_at m ''dhcp_client.interface'' in
      (if attr_at m ''dhcp_client.type'' \<noteq> [] then [ObserveDHCPClient iface (attr_at m ''dhcp_client.type'')] else []) @
      (case (parseUnixSeconds (attr_at m ''dhcp_client.lease.bound_timestamp''),
             parseUnixSeconds (attr_at m ''dhcp_client.lease.renewal_timestamp'')) of
         (Some bound, Some renewal) \<Rightarrow> [ObserveDHCPClientLease iface bound renewal]
       | _ \<Rightarrow> []) @
      (if attr_at m ''dhcp_client.script.reason'' \<noteq> [] then [ObserveDHCPClientScript iface (attr_at m ''dhcp_client.script.reason'')] else []))"

definition observeDHCP :: "attrMap \<Rightarrow> observation list" where
  "observeDHCP m =
     (if attr_at m ''dhcp.action'' \<noteq> []
      then [ObserveDHCP (attr_at m ''dhcp.action'') (firstNonEmpty (attr_at m ''interface.name'') (attr_at m ''interface''))
              (attr_at m ''dhcp.server_ip'')] else []) @
     (if attr_at m ''dhcp.alloc_fail_reason'' \<noteq> [] then [ObserveDHCP6AllocFail (attr_at m ''dhcp.alloc_fail_reason'')] else [])"

definition observeDHCP6C :: "attrMap \<Rightarrow> observation list" where
  "observeDHCP6C m =
     (let iface = attr_at m ''dhcp6c.interface'' in
      (if attr_at m ''dhcp6c.direction'' \<noteq> []
       then [ObserveDHCP6CMessage iface (attr_at m ''dhcp6c.direction'') (attr_at m ''dhcp6c.type'')] else []) @
      (if attr_at m ''dhcp6c.event'' \<noteq> []
       then [ObserveDHCP6CEvent iface (attr_at m ''dhcp6c.event'') (attr_at m ''dhcp6c.script.reason'')] else []) @
      (case (parseUnixSeconds (attr_at m ''dhcp6c.prefix.updated_timestamp''),
             parseUnixSeconds (attr_at m ''dhcp6c.prefix.preferred_expiry_timestamp''),
             parseUnixSeconds (attr_at m ''dhcp6c.prefix.valid_expiry_timestamp'')) of
         (Some upd, Some pref, Some val) \<Rightarrow> [ObserveDHCP6CPrefix iface (attr_at m ''dhcp6c.prefix_length'') upd pref val]
       | _ \<Rightarrow> []) @
      (case (parseUnixSeconds (attr_at m ''dhcp6c.address_lease.updated_timestamp''),
             parseUnixSeconds (attr_at m ''dhcp6c.address_lease.preferred_expiry_timestamp''),
             parseUnixSeconds (attr_at m ''dhcp6c.address_lease.valid_expiry_timestamp'')) of
         (Some upd, Some pref, Some val) \<Rightarrow> [ObserveDHCP6CAddress iface upd pref val]
       | _ \<Rightarrow> []) @
      (if attr_at m ''dhcp6c.event'' = ''address_lease_removed'' then [ClearDHCP6CAddress iface] else []))"

definition observeFamily :: "family \<Rightarrow> attrMap \<Rightarrow> observation list" where
  "observeFamily fam m =
     (case fam of
        familyUnknown \<Rightarrow> []
      | familyPPP \<Rightarrow>
          (let iface = attr_at m ''ppp.bundle''; event = attr_at m ''ppp.event'' in
           if iface = [] \<or> event \<noteq> ''iface_up'' \<and> event \<noteq> ''iface_down'' then []
           else [ObservePPPLink iface (if event = ''iface_up'' then ''link_up'' else ''link_down'') (attr_at m ''ppp.edge_timestamp'')])
      | familyOPNsense \<Rightarrow>
          (if attr_at m ''syslog.event'' \<noteq> ''gateway_states_killed'' \<or> attr_at m ''gateway.name'' = [] then []
           else [ObserveGatewayStatesKilled (attr_at m ''gateway.name'')])
      | familyFirewall \<Rightarrow>
          (if attr_at m ''action'' = [] then []
           else [ObserveFirewall (attr_at m AttrAction) (firstNonEmpty (attr_at m ''interface.name'') (attr_at m ''interface''))
                   (firstNonEmpty (attr_at m ''rule.id'') (attr_at m ''rule.ref'')) (attr_at m ''rule.description'') (attr_at m ''src.scope'')])
      | familyHAProxy \<Rightarrow>
          (if attr_at m ''haproxy.event'' = [] then []
           else [ObserveHAProxy (attr_at m ''haproxy.event'') (attr_at m ''haproxy.backend'') (attr_at m ''haproxy.server'')
                   (attr_at m ''haproxy.state'') (statusClass (attr_at m ''http.response.status_code''))])
      | familySSHD \<Rightarrow>
          (if attr_at m ''auth.result'' = [] then []
           else [ObserveSSHD (attr_at m ''auth.result'') (attr_at m ''auth.method'') (attr_at m ''src.scope'')])
      | familyDHCP \<Rightarrow> observeDHCP m
      | familyAudit \<Rightarrow> (if attr_at m ''event'' = [] then [] else [ObserveAudit (attr_at m ''event'') (attr_at m ''audit.result'')])
      | familyIDS \<Rightarrow>
          (if attr_at m ''event_type'' = [] then []
           else [ObserveIDS (mapEveEventType (attr_at m ''event_type'')) (attr_at m AttrAction) (attr_at m ''alert_category'')
                   (mapEveSeverity (attr_at m ''alert_severity''))])
      | familyGateway \<Rightarrow>
          (if attr_at m ''gateway.event'' = [] \<or> attr_at m ''gateway.name'' = [] then []
           else [ObserveGateway (attr_at m ''gateway.event'') (attr_at m ''gateway.name'')])
      | familyRADIUS \<Rightarrow>
          (if attr_at m ''radius.event'' = [] \<or> attr_at m ''radius.result'' = [] \<or> attr_at m ''radius.client_scope'' = [] then []
           else [ObserveRADIUS (attr_at m ''radius.event'') (attr_at m ''radius.result'') (attr_at m ''radius.client_scope'')])
      | familyVPN \<Rightarrow>
          (if attr_at m ''vpn.backend'' = [] \<or> attr_at m ''vpn.event'' = [] \<or> attr_at m ''vpn.result'' = [] then []
           else [ObserveVPN (attr_at m ''vpn.backend'') (attr_at m ''vpn.event'') (attr_at m ''vpn.result'')
                   (firstNonEmpty (attr_at m ''ipsec.connection'') (attr_at m ''openvpn.instance''))])
      | familyKernel \<Rightarrow> observeKernel m
      | familyDHCPClient \<Rightarrow> observeDHCPClient m
      | familyDHCP6C \<Rightarrow> observeDHCP6C m
      | familyUPnP \<Rightarrow>
          (if attr_at m ''upnp.event'' = [] \<or> attr_at m ''upnp.result'' = [] then []
           else [ObserveUPnP (attr_at m ''upnp.event'') (attr_at m ''upnp.result'') (attr_at m ''upnp.protocol'')]))"

text \<open>The observations of a line, in order, and whether one of them was counted.\<close>

definition deriveCounters :: "(observation \<Rightarrow> bool) \<Rightarrow> string \<Rightarrow> attrMap \<Rightarrow> observation list \<times> bool" where
  "deriveCounters sink program m =
     (case deriveFamily program of
        None \<Rightarrow> ([], False)
      | Some fam \<Rightarrow> (observeFamily fam m, list_ex sink (observeFamily fam m)))"

section \<open>Sampling\<close>

definition severity_ge_warn :: "Severity \<Rightarrow> bool" where
  "severity_ge_warn s \<longleftrightarrow> s \<in> {SeverityWarn, SeverityError, SeverityFatal}"

definition sampleKeep :: "string \<Rightarrow> LogRecord \<Rightarrow> bool \<Rightarrow> bool" where
  "sampleKeep program rec counted =
     (if \<not> counted then True
      else case deriveFamily program of
        None \<Rightarrow> True
      | Some familyFirewall \<Rightarrow> attr_at (rec_attrs rec) ''action'' \<noteq> ''pass''
      | Some familyHAProxy \<Rightarrow> severity_ge_warn (lr_Severity rec)
      | Some _ \<Rightarrow> True)"

end
