(* ===== verification/CaptureShape.thy ===== *)
theory CaptureShape
  imports NetAddr
begin

text \<open>
  Shapes of log lines and their limiter (\<^verbatim>\<open>internal/logship/capture/dedupe.go\<close>): a line is reduced to its
  shape, numbers and hexadecimal identifiers folded, and one example per shape and window is captured.
\<close>

section \<open>Characters\<close>

definition code_in :: "nat \<Rightarrow> nat \<Rightarrow> char \<Rightarrow> bool" where
  "code_in lo hi c \<longleftrightarrow> lo \<le> (of_char c :: nat) \<and> (of_char c :: nat) \<le> hi"

definition isAlnum :: "char \<Rightarrow> bool" where
  "isAlnum c \<longleftrightarrow> is_digit c \<or> code_in 97 122 c \<or> code_in 65 90 c"

definition isHex :: "char \<Rightarrow> bool" where
  "isHex c \<longleftrightarrow> is_digit c \<or> code_in 97 102 c \<or> code_in 65 70 c"

definition allHex :: "string \<Rightarrow> bool" where
  "allHex s \<longleftrightarrow> s \<noteq> [] \<and> list_all isHex s"

definition hasDigit :: "string \<Rightarrow> bool" where
  "hasDigit s \<longleftrightarrow> list_ex is_digit s"

definition shapeSpace :: "char \<Rightarrow> bool" where
  "shapeSpace c \<longleftrightarrow> c = CHR '' '' \<or> code_in 9 13 c"

definition shapePlaceholder :: char where
  "shapePlaceholder = CHR ''#''"

definition maxShapeLen :: nat where
  "maxShapeLen = 120"

definition minHexRun :: nat where
  "minHexRun = 8"

section \<open>Normalisation\<close>

definition atTokenStart :: "char option \<Rightarrow> bool" where
  "atTokenStart prev = (case prev of None \<Rightarrow> True | Some p \<Rightarrow> \<not> isAlnum p)"

definition hexTokenLen :: "string \<Rightarrow> nat" where
  "hexTokenLen s =
     (let tok = takeWhile isAlnum s in
      if 3 \<le> length tok \<and> tok ! 0 = CHR ''0'' \<and> (tok ! 1 = CHR ''x'' \<or> tok ! 1 = CHR ''X'') \<and> allHex (drop 2 tok) then length tok
      else if minHexRun \<le> length tok \<and> allHex tok \<and> hasDigit tok then length tok
      else 0)"

text \<open>The loop over the text, with the byte before the position, the pending space and what is written.\<close>

function shapeLoop :: "char option \<Rightarrow> bool \<Rightarrow> string \<Rightarrow> string \<Rightarrow> string" where
  "shapeLoop prev pending out s =
     (case s of
        [] \<Rightarrow> out
      | c # cs \<Rightarrow>
          if shapeSpace c then shapeLoop (Some c) (out \<noteq> []) out cs
          else
            let out = (if pending then out @ '' '' else out); n = (if atTokenStart prev then hexTokenLen s else 0) in
            if 0 < n then shapeLoop (Some (s ! (n - 1))) False (out @ [shapePlaceholder]) (drop n s)
            else if is_digit c then shapeLoop (Some (last (takeWhile is_digit s))) False (out @ [shapePlaceholder]) (dropWhile is_digit s)
            else shapeLoop (Some c) False (out @ [c]) cs)"
  by pat_completeness auto

termination
  by (relation "measure (\<lambda>(prev, pending, out, s). length s)") (auto simp: le_imp_less_Suc length_dropWhile_le split: if_splits)

declare shapeLoop.simps [simp del]

text \<open>The width of the first rune of a byte string, as \<^verbatim>\<open>range\<close> decodes it: 1 for what is not UTF-8.\<close>

definition runeWidth :: "string \<Rightarrow> nat" where
  "runeWidth s =
     (let b = (\<lambda>i. if i < length s then (of_char (s ! i) :: nat) else 0);
          cont = (\<lambda>i. 128 \<le> b i \<and> b i \<le> 191) in
      if 194 \<le> b 0 \<and> b 0 \<le> 223 \<and> cont 1 then 2
      else if 224 \<le> b 0 \<and> b 0 \<le> 239 \<and> cont 1 \<and> cont 2 \<and> (b 0 = 224 \<longrightarrow> 160 \<le> b 1) \<and> (b 0 = 237 \<longrightarrow> b 1 \<le> 159) then 3
      else if 240 \<le> b 0 \<and> b 0 \<le> 244 \<and> cont 1 \<and> cont 2 \<and> cont 3 \<and> (b 0 = 240 \<longrightarrow> 144 \<le> b 1) \<and> (b 0 = 244 \<longrightarrow> b 1 \<le> 143) then 4
      else 1)"

fun takeRunes :: "nat \<Rightarrow> string \<Rightarrow> string" where
  "takeRunes 0 s = []"
| "takeRunes (Suc n) s = (if s = [] then [] else take (runeWidth s) s @ takeRunes n (drop (runeWidth s) s))"

definition truncateRunes :: "string \<Rightarrow> nat \<Rightarrow> string" where
  "truncateRunes s mx = (if length s \<le> mx then s else takeRunes mx s)"

definition NormaliseShape :: "string \<Rightarrow> string" where
  "NormaliseShape s = truncateRunes (shapeLoop None False [] s) maxShapeLen"

section \<open>The limiter\<close>

definition DefaultShapeWindow :: duration where
  "DefaultShapeWindow = 15 * 60 * second_ns"

definition DefaultMaxShapeKeys :: int where
  "DefaultMaxShapeKeys = 256"

definition foldedShapeKey :: string where
  "foldedShapeKey = CHR 0x00 # ''folded''"

record ShapeLimiter =
  sl_window :: duration
  sl_max :: int
  sl_seen :: "(string, time) gomap"

definition NewShapeLimiter :: "duration \<Rightarrow> int \<Rightarrow> ShapeLimiter" where
  "NewShapeLimiter window mx =
     \<lparr>sl_window = (if window \<le> 0 then DefaultShapeWindow else window),
      sl_max = (if mx \<le> 0 then DefaultMaxShapeKeys else mx), sl_seen = []\<rparr>"

definition shapeKey :: "ShapeLimiter \<Rightarrow> string \<Rightarrow> string" where
  "shapeKey l key = (if map_of (sl_seen l) key = None \<and> sl_max l \<le> int (length (sl_seen l)) then foldedShapeKey else key)"

definition limiter_Allow :: "string \<Rightarrow> time \<Rightarrow> ShapeLimiter \<Rightarrow> bool \<times> ShapeLimiter" where
  "limiter_Allow key now l =
     (let key = shapeKey l key in
      case map_of (sl_seen l) key of
        Some lst \<Rightarrow>
          if time_Sub now lst < sl_window l then (False, l) else (True, l\<lparr>sl_seen := AList.update key now (sl_seen l)\<rparr>)
      | None \<Rightarrow> (True, l\<lparr>sl_seen := AList.update key now (sl_seen l)\<rparr>))"

definition limiter_size :: "ShapeLimiter \<Rightarrow> nat" where
  "limiter_size l = length (sl_seen l)"

section \<open>Properties\<close>

lemma takeRunes_set: "set (takeRunes n s) \<subseteq> set s"
proof (induction n s rule: takeRunes.induct)
  case (2 n s)
  then show ?case using set_take_subset [of "runeWidth s" s] set_drop_subset [of "runeWidth s" s] by auto
qed simp

lemma shapeLoop_no_digit: "list_all (\<lambda>c. \<not> is_digit c) out \<Longrightarrow> list_all (\<lambda>c. \<not> is_digit c) (shapeLoop prev pending out s)"
proof (induction prev pending out s rule: shapeLoop.induct)
  case (1 prev pending out s)
  have ph: "\<not> is_digit shapePlaceholder" "\<not> is_digit (CHR '' '')" by (simp_all add: is_digit_def shapePlaceholder_def)
  then have out: "list_all (\<lambda>c. \<not> is_digit c) (if pending then out @ '' '' else out)" using "1.prems" by simp
  show ?case
  proof (cases s)
    case Nil
    then show ?thesis using "1.prems" by (simp add: shapeLoop.simps)
  next
    case (Cons c cs)
    show ?thesis using "1.IH" [OF Cons] "1.prems" out ph
      by (subst shapeLoop.simps) (auto simp: Cons Let_def)
  qed
qed

text \<open>A shape contains no digit: lines that differ in their numbers share it.\<close>

theorem shape_has_no_digit: "list_all (\<lambda>c. \<not> is_digit c) (NormaliseShape s)"
  using shapeLoop_no_digit [of "[]" None False s] takeRunes_set
  by (fastforce simp: NormaliseShape_def truncateRunes_def list_all_iff)

text \<open>Calls of the limiter, one after another.\<close>

definition limiter_run :: "(string \<times> time) list \<Rightarrow> ShapeLimiter \<Rightarrow> ShapeLimiter" where
  "limiter_run calls l = fold (\<lambda>(key, now) l. snd (limiter_Allow key now l)) calls l"

definition limiter_ok :: "ShapeLimiter \<Rightarrow> bool" where
  "limiter_ok l \<longleftrightarrow> 0 < sl_max l \<and> int (length (sl_seen l)) \<le> sl_max l + 1 \<and>
     (int (length (sl_seen l)) = sl_max l + 1 \<longrightarrow> map_of (sl_seen l) foldedShapeKey \<noteq> None)"

lemma Allow_fields [simp]:
  "sl_max (snd (limiter_Allow key now l)) = sl_max l" "sl_window (snd (limiter_Allow key now l)) = sl_window l"
  by (auto simp: limiter_Allow_def Let_def split: option.split)

lemma Allow_seen:
  "sl_seen (snd (limiter_Allow key now l)) = sl_seen l \<or>
   sl_seen (snd (limiter_Allow key now l)) = AList.update (shapeKey l key) now (sl_seen l)"
  by (auto simp: limiter_Allow_def Let_def split: option.split)

lemma Allow_ok:
  assumes "limiter_ok l"
  shows "limiter_ok (snd (limiter_Allow key now l))"
proof -
  have up: "limiter_ok (l\<lparr>sl_seen := AList.update (shapeKey l key) now (sl_seen l)\<rparr>)"
  proof (cases "map_of (sl_seen l) (shapeKey l key)")
    case None
    then have "length (AList.update (shapeKey l key) now (sl_seen l)) = Suc (length (sl_seen l))" by (rule length_update_new)
    moreover have "shapeKey l key = foldedShapeKey \<or> int (length (sl_seen l)) < sl_max l"
      using None by (auto simp: shapeKey_def split: if_splits)
    ultimately show ?thesis using assms None by (auto simp: limiter_ok_def map_of_update_conv)
  next
    case (Some t)
    then have "length (AList.update (shapeKey l key) now (sl_seen l)) = length (sl_seen l)" by (intro length_update_old) simp
    then show ?thesis using assms by (auto simp: limiter_ok_def map_of_update_conv)
  qed
  then show ?thesis using Allow_seen [of key now l] assms by (auto simp: limiter_ok_def)
qed

lemma limiter_run_ok: "limiter_ok l \<Longrightarrow> limiter_ok (limiter_run calls l)"
  by (induction calls arbitrary: l) (auto simp: limiter_run_def Allow_ok)

text \<open>
  The limiter's memory is bounded: whatever shapes arrive, it keeps at most one entry more than
  its cap, the one all further shapes are folded into.
\<close>

theorem limiter_bounded: "int (limiter_size (limiter_run calls (NewShapeLimiter window mx))) \<le> sl_max (NewShapeLimiter window mx) + 1"
proof -
  have "limiter_ok (NewShapeLimiter window mx)" by (simp add: limiter_ok_def NewShapeLimiter_def DefaultMaxShapeKeys_def)
  moreover have "sl_max (limiter_run calls l) = sl_max l" for l by (induction calls arbitrary: l) (auto simp: limiter_run_def)
  ultimately show ?thesis using limiter_run_ok [of "NewShapeLimiter window mx" calls] by (auto simp: limiter_ok_def limiter_size_def)
qed

text \<open>An effective key stays the key of its shape, with a time no earlier than it has.\<close>

definition marked :: "string \<Rightarrow> time \<Rightarrow> ShapeLimiter \<Rightarrow> bool" where
  "marked key now l \<longleftrightarrow> (\<exists>t \<ge> now. map_of (sl_seen l) (shapeKey l key) = Some t)"

lemma length_update_ge: "length m \<le> length (AList.update k v m)"
  by (cases "map_of m k = None") auto

lemma shapeKey_stable:
  assumes "map_of (sl_seen l) (shapeKey l key) \<noteq> None \<or> e = shapeKey l key"
    and "e = shapeKey l k"
  shows "shapeKey (l\<lparr>sl_seen := AList.update e u (sl_seen l)\<rparr>) key = shapeKey l key"
proof (cases "map_of (sl_seen l) key = None \<and> sl_max l \<le> int (length (sl_seen l))")
  case True
  then have f: "shapeKey l key = foldedShapeKey" by (simp add: shapeKey_def)
  show ?thesis
  proof (cases "key = foldedShapeKey")
    case False
    have "e = foldedShapeKey \<or> map_of (sl_seen l) e \<noteq> None" using assms(2) True by (auto simp: shapeKey_def)
    then have "e \<noteq> key" using False True by auto
    then show ?thesis using True f length_update_ge [of "sl_seen l" e u] by (auto simp: shapeKey_def map_of_update_conv)
  qed (use f in \<open>simp add: shapeKey_def\<close>)
next
  case False
  then have k: "shapeKey l key = key" by (auto simp: shapeKey_def)
  then show ?thesis using assms(1) by (auto simp: shapeKey_def map_of_update_conv)
qed

lemma Allow_marks: "fst (limiter_Allow key now l) \<Longrightarrow> marked key now (snd (limiter_Allow key now l))"
  using shapeKey_stable [of l key "shapeKey l key" key now]
  by (auto simp: limiter_Allow_def marked_def Let_def map_of_update_conv split: option.splits if_splits)

lemma marked_step:
  assumes "now \<le> u" "marked key now l"
  shows "marked key now (snd (limiter_Allow k u l))"
proof -
  have "marked key now (l\<lparr>sl_seen := AList.update (shapeKey l k) u (sl_seen l)\<rparr>)"
    using assms shapeKey_stable [of l key "shapeKey l k" k u] by (auto simp: marked_def map_of_update_conv)
  then show ?thesis using assms(2)
    by (auto simp: limiter_Allow_def Let_def split: option.splits)
qed

lemma marked_run:
  "list_all (\<lambda>(k, u). now \<le> u) calls \<Longrightarrow> marked key now l \<Longrightarrow> marked key now (limiter_run calls l)"
proof (induction calls arbitrary: l)
  case (Cons c calls)
  then show ?case by (cases c) (simp add: limiter_run_def marked_step)
qed (simp add: limiter_run_def)

text \<open>
  One example per shape and window: after a shape was let through, it is refused until the window
  has passed, whatever other shapes came in between, on a clock that does not run backwards.
\<close>

theorem shape_once_per_window:
  assumes "fst (limiter_Allow key now l)" "list_all (\<lambda>(k, u). now \<le> u) calls" "later - now < sl_window l" "0 < sl_window l"
  shows "\<not> fst (limiter_Allow key later (limiter_run calls (snd (limiter_Allow key now l))))"
proof -
  let ?l = "limiter_run calls (snd (limiter_Allow key now l))"
  have w: "sl_window (limiter_run calls x) = sl_window x" for x by (induction calls arbitrary: x) (auto simp: limiter_run_def)
  obtain t where t: "now \<le> t" "map_of (sl_seen ?l) (shapeKey ?l key) = Some t"
    using marked_run [OF assms(2) Allow_marks [OF assms(1)]] by (auto simp: marked_def)
  have "time_Sub later t < sl_window l" using t(1) assms(3,4) by (auto simp: time_Sub_def max_int64_def min_int64_def)
  moreover have "sl_window ?l = sl_window l" using w by simp
  ultimately show ?thesis using t(2) by (subst limiter_Allow_def) (simp add: Let_def)
qed

theorem shape_once_per_window_witness:
  "\<not> fst (limiter_Allow ''a'' 5 (limiter_run [(''b'', 2), (''c'', 3)] (snd (limiter_Allow ''a'' 1 (NewShapeLimiter 10 2)))))"
  using shape_once_per_window [of "''a''" 1 "NewShapeLimiter 10 2" "[(''b'', 2), (''c'', 3)]" 5]
  by (simp add: limiter_Allow_def shapeKey_def NewShapeLimiter_def max_int64_def)

end
