(* ===== verification/SyslogFraming.thy ===== *)
theory SyslogFraming
  imports NetflowTypes
begin

text \<open>
  Framing of syslog over TCP (\<^verbatim>\<open>internal/logship/syslog/framing.go\<close>): octet counting or newline framing,
  decided frame by frame, with frames over the size cap skipped and counted. The splitter is a
  state machine a \<^verbatim>\<open>bufio.Scanner\<close> drives with whatever the reads deliver; \<open>scanAll\<close> and \<open>connection\<close>
  are that driver. The oversized callback is the counter \<open>fs_oversized\<close>.
\<close>

section \<open>Frames in a buffer\<close>

definition maxMessageBytes :: nat where
  "maxMessageBytes = 65536"

definition scannerHeadroom :: nat where
  "scannerHeadroom = 32"

definition maxLenDigits :: nat where
  "maxLenDigits = 10"

abbreviation LF :: u8 where
  "LF \<equiv> 10"

abbreviation CR :: u8 where
  "CR \<equiv> 13"

abbreviation SP :: u8 where
  "SP \<equiv> 32"

definition isDigit :: "u8 \<Rightarrow> bool" where
  "isDigit c \<longleftrightarrow> 48 \<le> c \<and> c \<le> 57"

text \<open>\<^verbatim>\<open>bytes.IndexByte\<close>.\<close>

definition IndexByte :: "u8 list \<Rightarrow> u8 \<Rightarrow> nat option" where
  "IndexByte data c = (if c \<in> set data then Some (length (takeWhile (\<lambda>x. x \<noteq> c) data)) else None)"

definition dropCR :: "u8 list \<Rightarrow> u8 list" where
  "dropCR b = (if b \<noteq> [] \<and> last b = CR then butlast b else b)"

text \<open>Advance, token, whether the line is oversized and whether its end is still to come.\<close>

definition scanNewline :: "u8 list \<Rightarrow> bool \<Rightarrow> nat \<times> u8 list option \<times> bool \<times> bool" where
  "scanNewline data atEOF =
     (case IndexByte data LF of
        Some i \<Rightarrow>
          let body = dropCR (take i data) in
          if maxMessageBytes < length body then (i + 1, None, True, False) else (i + 1, Some body, False, False)
      | None \<Rightarrow>
          if maxMessageBytes < length data then (length data, None, True, True)
          else if atEOF then (length data, Some (dropCR data), False, False)
          else (0, None, False, True))"

text \<open>The scan for the space behind a length: found, not a length, or undecided.\<close>

datatype lenPrefix = SpaceAt nat | NotALength | Undecided

fun findSpace :: "nat \<Rightarrow> u8 list \<Rightarrow> lenPrefix" where
  "findSpace i [] = Undecided"
| "findSpace i (c # cs) =
     (if maxLenDigits < i then Undecided
      else if c = SP then SpaceAt i
      else if \<not> isDigit c then NotALength
      else findSpace (Suc i) cs)"

definition lenValue :: "u8 list \<Rightarrow> nat" where
  "lenValue ds = foldl (\<lambda>n c. n * 10 + unat (c - 48)) 0 ds"

text \<open>Advance, token, bytes still to skip and whether the frame is oversized; \<open>None\<close> is not octet counting.\<close>

definition scanOctetCounted :: "u8 list \<Rightarrow> bool \<Rightarrow> (nat \<times> u8 list option \<times> nat \<times> bool) option" where
  "scanOctetCounted data atEOF =
     (case findSpace 0 data of
        NotALength \<Rightarrow> None
      | Undecided \<Rightarrow>
          if maxLenDigits < length data then None
          else if atEOF then None
          else Some (0, None, 0, False)
      | SpaceAt sp \<Rightarrow>
          let n = lenValue (take sp data); prefix = sp + 1 in
          if maxMessageBytes < n then
            (if prefix + n \<le> length data then Some (prefix + n, None, 0, True)
             else Some (length data, None, prefix + n - length data, True))
          else if length data < prefix + n then
            (if atEOF then Some (length data, Some (drop prefix data), 0, False) else Some (0, None, 0, False))
          else Some (prefix + n, Some (take n (drop prefix data)), 0, False))"

record scanResult =
  sr_advance :: nat
  sr_token :: "u8 list option"
  sr_skip :: nat
  sr_oversized :: bool
  sr_octet :: bool
  sr_partial :: bool

definition scanFrame :: "u8 list \<Rightarrow> bool \<Rightarrow> scanResult" where
  "scanFrame data atEOF =
     (case data of
        [] \<Rightarrow> \<lparr>sr_advance = 0, sr_token = None, sr_skip = 0, sr_oversized = False, sr_octet = False, sr_partial = False\<rparr>
      | c # _ \<Rightarrow>
          (case (if isDigit c then scanOctetCounted data atEOF else None) of
             Some (a, tok, sk, over) \<Rightarrow>
               \<lparr>sr_advance = a, sr_token = tok, sr_skip = sk, sr_oversized = over, sr_octet = True, sr_partial = False\<rparr>
           | None \<Rightarrow>
               (case scanNewline data atEOF of
                  (a, tok, over, part) \<Rightarrow>
                    \<lparr>sr_advance = a, sr_token = tok, sr_skip = 0, sr_oversized = over, sr_octet = False, sr_partial = part\<rparr>)))"

definition ScanFrames :: "u8 list \<Rightarrow> bool \<Rightarrow> nat \<times> u8 list option" where
  "ScanFrames data atEOF = (let r = scanFrame data atEOF in (sr_advance r, sr_token r))"

section \<open>The splitter\<close>

record frameSplitter =
  fs_skip :: nat
  fs_lineSkip :: bool
  fs_accum :: bool
  fs_pending :: "u8 list"
  fs_octet :: bool
  fs_oversized :: nat

definition newFrameSplitter :: frameSplitter where
  "newFrameSplitter = \<lparr>fs_skip = 0, fs_lineSkip = False, fs_accum = False, fs_pending = [], fs_octet = False, fs_oversized = 0\<rparr>"

text \<open>What one turn of the loop of \<^verbatim>\<open>split\<close> does: return, or go on with the rest of the data.\<close>

datatype turn = Return nat "u8 list option" frameSplitter | Continue nat frameSplitter

definition accumTurn :: "u8 list \<Rightarrow> bool \<Rightarrow> frameSplitter \<Rightarrow> turn" where
  "accumTurn data atEOF f =
     (case IndexByte data LF of
        Some i \<Rightarrow>
          let p = fs_pending f @ take i data; f1 = f\<lparr>fs_accum := False, fs_pending := []\<rparr> in
          if maxMessageBytes < length (dropCR p) then Continue (i + 1) (fs_oversized_update Suc f1)
          else Return (i + 1) (if p = [] then None else Some (dropCR p)) (f1\<lparr>fs_octet := False\<rparr>)
      | None \<Rightarrow>
          if maxMessageBytes < length (fs_pending f) + length data
          then Continue 0 (f\<lparr>fs_accum := False, fs_pending := [], fs_oversized := Suc (fs_oversized f), fs_lineSkip := True\<rparr>)
          else
            let p = fs_pending f @ data; f1 = f\<lparr>fs_accum := False, fs_pending := []\<rparr> in
            if atEOF then
              (if dropCR p = [] then Return (length data) None f1
               else Return (length data) (Some (dropCR p)) (f1\<lparr>fs_octet := False\<rparr>))
            else Return (length data) None (f\<lparr>fs_pending := p\<rparr>))"

definition splitTurn :: "u8 list \<Rightarrow> bool \<Rightarrow> frameSplitter \<Rightarrow> turn" where
  "splitTurn data atEOF f =
     (if 0 < fs_skip f then
        (if data = [] then Return 0 None f
         else
           let n = min (fs_skip f) (length data); f1 = f\<lparr>fs_skip := fs_skip f - n\<rparr> in
           if 0 < fs_skip f1 then Return n None f1 else Continue n f1)
      else if fs_lineSkip f then
        (case IndexByte data LF of
           Some i \<Rightarrow> Continue (i + 1) (f\<lparr>fs_lineSkip := False\<rparr>)
         | None \<Rightarrow> Return (length data) None (if atEOF then f\<lparr>fs_lineSkip := False\<rparr> else f))
      else if fs_accum f then accumTurn data atEOF f
      else
        let r = scanFrame data atEOF in
        if sr_oversized r then
          (let f1 = fs_oversized_update Suc f in
           Continue (sr_advance r)
             (if sr_octet r then f1\<lparr>fs_skip := sr_skip r\<rparr> else if sr_partial r then f1\<lparr>fs_lineSkip := True\<rparr> else f1))
        else if sr_partial r then Continue 0 (f\<lparr>fs_accum := True\<rparr>)
        else Return (sr_advance r) (sr_token r) (if sr_token r \<noteq> None then f\<lparr>fs_octet := sr_octet r\<rparr> else f))"

text \<open>Every turn that goes on consumes data or moves on from newline framing to holding or skipping the line.\<close>

definition modeRank :: "frameSplitter \<Rightarrow> nat" where
  "modeRank f = (if 0 < fs_skip f \<or> fs_lineSkip f then 0 else if fs_accum f then 1 else 2)"

lemma IndexByte_Some: "IndexByte data c = Some i \<longleftrightarrow> c \<in> set data \<and> i = length (takeWhile (\<lambda>x. x \<noteq> c) data)"
  by (auto simp: IndexByte_def)

lemma IndexByte_None: "IndexByte data c = None \<longleftrightarrow> c \<notin> set data"
  by (simp add: IndexByte_def)

lemma IndexByte_bound: "IndexByte data c = Some i \<Longrightarrow> i < length data"
proof -
  assume "IndexByte data c = Some i"
  then have "c \<in> set data" and i: "i = length (takeWhile (\<lambda>x. x \<noteq> c) data)" by (auto simp: IndexByte_Some)
  then have "takeWhile (\<lambda>x. x \<noteq> c) data \<noteq> data" by (metis (full_types) set_takeWhileD)
  then show ?thesis using i length_takeWhile_le [of "\<lambda>x. x \<noteq> c" data] takeWhile_eq_take [of "\<lambda>x. x \<noteq> c" data]
    by (metis le_neq_implies_less take_all order_refl)
qed

lemma scanNewline_over:
  "scanNewline data atEOF = (a, tok, True, part) \<Longrightarrow> 0 < a"
  by (cases "IndexByte data LF") (auto simp: scanNewline_def Let_def split: if_splits)

lemma scanOctetCounted_over:
  "scanOctetCounted data atEOF = Some (a, tok, sk, True) \<Longrightarrow> data \<noteq> [] \<Longrightarrow> 0 < a"
  by (cases "findSpace 0 data") (auto simp: scanOctetCounted_def Let_def split: if_splits)

lemma oversized_advance:
  assumes "sr_oversized (scanFrame data atEOF)"
  shows "0 < sr_advance (scanFrame data atEOF) \<and> data \<noteq> []"
proof (cases data)
  case Nil
  then show ?thesis using assms by (simp add: scanFrame_def)
next
  case (Cons c cs)
  obtain a tok over part where nl: "scanNewline data atEOF = (a, tok, over, part)" by (cases "scanNewline data atEOF")
  show ?thesis
  proof (cases "if isDigit c then scanOctetCounted data atEOF else None")
    case None
    then show ?thesis using assms Cons nl scanNewline_over by (auto simp: scanFrame_def)
  next
    case (Some r)
    obtain a' tok' sk over' where r: "r = (a', tok', sk, over')" by (cases r)
    show ?thesis using assms Cons Some r scanOctetCounted_over by (auto simp: scanFrame_def split: if_splits)
  qed
qed

lemma splitTurn_progress:
  assumes "splitTurn data atEOF f = Continue n g"
  shows "3 * length (drop n data) + modeRank g < 3 * length data + modeRank f"
proof -
  have rank: "modeRank x \<le> 2" for x by (simp add: modeRank_def)
  have "n \<noteq> 0 \<and> data \<noteq> [] \<or> n = 0 \<and> modeRank g < modeRank f"
    using assms oversized_advance [of data atEOF]
    by (auto simp: splitTurn_def accumTurn_def modeRank_def Let_def dest!: IndexByte_bound split: if_splits option.splits)
  then show ?thesis
  proof
    assume n: "n \<noteq> 0 \<and> data \<noteq> []"
    then have "length (drop n data) < length data" by (cases data) auto
    then show ?thesis using rank [of g] by linarith
  qed auto
qed

function splitLoop :: "u8 list \<Rightarrow> bool \<Rightarrow> nat \<Rightarrow> frameSplitter \<Rightarrow> nat \<times> u8 list option \<times> frameSplitter" where
  "splitLoop data atEOF off f =
     (case splitTurn data atEOF f of
        Return n tok g \<Rightarrow> (off + n, tok, g)
      | Continue n g \<Rightarrow> splitLoop (drop n data) atEOF (off + n) g)"
  by pat_completeness auto

termination
  by (relation "measure (\<lambda>(data, atEOF, off, f). 3 * length data + modeRank f)") (use splitTurn_progress in auto)

declare splitLoop.simps [simp del]

definition split_frame :: "u8 list \<Rightarrow> bool \<Rightarrow> frameSplitter \<Rightarrow> nat \<times> u8 list option \<times> frameSplitter" where
  "split_frame data atEOF f = splitLoop data atEOF 0 f"

section \<open>The scanner that drives the splitter\<close>

lemma scanFrame_progress:
  assumes "scanFrame data atEOF = r" "sr_token r \<noteq> None"
  shows "0 < sr_advance r"
proof (cases data)
  case Nil
  then show ?thesis using assms by (auto simp: scanFrame_def)
next
  case (Cons c cs)
  obtain a tok over part where nl: "scanNewline data atEOF = (a, tok, over, part)" by (cases "scanNewline data atEOF")
  have nla: "tok \<noteq> None \<Longrightarrow> 0 < a" using nl Cons
    by (cases "IndexByte data LF") (auto simp: scanNewline_def Let_def split: if_splits)
  show ?thesis
  proof (cases "if isDigit c then scanOctetCounted data atEOF else None")
    case None
    then show ?thesis using assms Cons nl nla by (auto simp: scanFrame_def)
  next
    case (Some q)
    obtain a' tok' sk over' where q: "q = (a', tok', sk, over')" by (cases q)
    have "tok' \<noteq> None \<Longrightarrow> 0 < a'" using Some q Cons
      by (cases "findSpace 0 data") (auto simp: scanOctetCounted_def Let_def split: if_splits)
    then show ?thesis using assms Cons Some q by (auto simp: scanFrame_def)
  qed
qed

lemma splitTurn_token:
  assumes "splitTurn data atEOF f = Return n (Some t) g"
  shows "\<not> fs_accum g \<and> (0 < n \<or> fs_accum f \<and> atEOF)"
  using assms scanFrame_progress [of data atEOF "scanFrame data atEOF"]
  by (auto simp: splitTurn_def accumTurn_def Let_def dest!: IndexByte_bound split: if_splits option.splits)

lemma accum_at_EOF:
  assumes "splitTurn data True f = Continue n g" "fs_accum g"
  shows "fs_accum f"
proof (rule ccontr)
  assume "\<not> fs_accum f"
  moreover have "\<not> sr_oversized (scanFrame data True) \<Longrightarrow> \<not> sr_partial (scanFrame data True)"
    by (auto simp: scanFrame_def scanNewline_def Let_def split: list.splits option.splits if_splits)
  ultimately show False using assms
    by (auto simp: splitTurn_def accumTurn_def Let_def split: if_splits option.splits)
qed

lemma splitLoop_token:
  "splitLoop data atEOF off f = (adv, Some t, g) \<Longrightarrow> \<not> fs_accum g \<and> (off < adv \<or> fs_accum f \<and> atEOF)"
proof (induction data atEOF off f arbitrary: adv t g rule: splitLoop.induct)
  case (1 data atEOF off f)
  show ?case
  proof (cases "splitTurn data atEOF f")
    case (Return n tok h)
    then show ?thesis using "1.prems" splitTurn_token [of data atEOF f n t h] by (auto simp: splitLoop.simps)
  next
    case (Continue n h)
    then have "splitLoop (drop n data) atEOF (off + n) h = (adv, Some t, g)" using "1.prems" by (simp add: splitLoop.simps)
    note IH = "1.IH" [OF Continue this]
    then show ?thesis using accum_at_EOF [of data f n h] Continue by auto
  qed
qed

lemma scanFrame_bound: "sr_advance (scanFrame data atEOF) \<le> length data"
proof (cases data)
  case Nil
  then show ?thesis by (simp add: scanFrame_def)
next
  case (Cons c cs)
  obtain a tok over part where nl: "scanNewline data atEOF = (a, tok, over, part)" by (cases "scanNewline data atEOF")
  have nla: "a \<le> length data" using nl
    by (cases "IndexByte data LF") (auto simp: scanNewline_def Let_def dest: IndexByte_bound split: if_splits)
  show ?thesis
  proof (cases "if isDigit c then scanOctetCounted data atEOF else None")
    case None
    then show ?thesis using Cons nl nla by (auto simp: scanFrame_def)
  next
    case (Some q)
    obtain a' tok' sk over' where q: "q = (a', tok', sk, over')" by (cases q)
    have "a' \<le> length data" using Some q
      by (cases "findSpace 0 data") (auto simp: scanOctetCounted_def Let_def split: if_splits)
    then show ?thesis using Cons Some q by (auto simp: scanFrame_def)
  qed
qed

lemma splitTurn_bound:
  "splitTurn data atEOF f = Return n tok g \<Longrightarrow> n \<le> length data"
  "splitTurn data atEOF f = Continue n g \<Longrightarrow> n \<le> length data"
  using scanFrame_bound [of data atEOF]
  by (auto simp: splitTurn_def accumTurn_def Let_def Suc_le_eq dest!: IndexByte_bound split: if_splits option.splits)

lemma splitLoop_bound: "splitLoop data atEOF off f = (adv, tok, g) \<Longrightarrow> off \<le> adv \<and> adv \<le> off + length data"
proof (induction data atEOF off f arbitrary: adv tok g rule: splitLoop.induct)
  case (1 data atEOF off f)
  show ?case
  proof (cases "splitTurn data atEOF f")
    case (Return n tok' h)
    then show ?thesis using "1.prems" splitTurn_bound(1) [OF Return] by (auto simp: splitLoop.simps)
  next
    case (Continue n h)
    then have "splitLoop (drop n data) atEOF (off + n) h = (adv, tok, g)" using "1.prems" by (simp add: splitLoop.simps)
    note IH = "1.IH" [OF Continue this]
    then show ?thesis using splitTurn_bound(2) [OF Continue] by auto
  qed
qed

lemma split_frame_token:
  assumes "split_frame data atEOF f = (adv, Some t, g)"
  shows "length (drop adv data) + (if fs_accum g then 1 else 0) < length data + (if fs_accum f then 1 else 0)"
  using splitLoop_token [of data atEOF 0 f adv t g] splitLoop_bound [of data atEOF 0 f adv "Some t" g] assms
  by (auto simp: split_frame_def)

text \<open>
  \<^verbatim>\<open>bufio.Scanner.Scan\<close> until it has no token on what is buffered: the tokens, each with the splitter's
  \<open>octet\<close> flag as the caller reads it, and the bytes kept for the next read. With nothing buffered the
  split function is called only at the end of the stream.
\<close>

function scanAll :: "u8 list \<Rightarrow> bool \<Rightarrow> frameSplitter \<Rightarrow> (u8 list \<times> bool) list \<times> u8 list \<times> frameSplitter" where
  "scanAll data atEOF f =
     (if data = [] \<and> \<not> atEOF then ([], [], f)
      else case split_frame data atEOF f of
        (adv, None, g) \<Rightarrow> ([], drop adv data, g)
      | (adv, Some t, g) \<Rightarrow>
          (case scanAll (drop adv data) atEOF g of (ts, carry, h) \<Rightarrow> ((t, fs_octet g) # ts, carry, h)))"
  by pat_completeness auto

termination
  by (relation "measure (\<lambda>(data, atEOF, f). length data + (if fs_accum f then 1 else 0))")
    (auto dest!: sym [of "(_, Some _, _)"] split_frame_token)

declare scanAll.simps [simp del]

section \<open>A connection\<close>

text \<open>The reads of one connection, then the end of the stream: every token and the splitter at the end.\<close>

fun scanReads :: "u8 list list \<Rightarrow> u8 list \<Rightarrow> frameSplitter \<Rightarrow> (u8 list \<times> bool) list \<times> frameSplitter" where
  "scanReads [] carry f = (case scanAll carry True f of (ts, _, g) \<Rightarrow> (ts, g))"
| "scanReads (c # cs) carry f =
     (case scanAll (carry @ c) False f of
        (ts, carry', g) \<Rightarrow> (case scanReads cs carry' g of (us, h) \<Rightarrow> (ts @ us, h)))"

section \<open>The framing of a whole stream\<close>

text \<open>What the stream means, read as one piece: a frame, octet counted or not, or an oversized frame.\<close>

datatype frameItem = Frame bool "u8 list" | Oversized

definition lineOf :: "u8 list \<Rightarrow> u8 list" where
  "lineOf s = takeWhile (\<lambda>c. c \<noteq> LF) s"

definition afterLine :: "u8 list \<Rightarrow> u8 list" where
  "afterLine s = tl (dropWhile (\<lambda>c. c \<noteq> LF) s)"

definition lineItems :: "u8 list \<Rightarrow> frameItem list" where
  "lineItems s =
     (let body = dropCR (lineOf s) in
      if LF \<in> set s then (if maxMessageBytes < length body then [Oversized] else [Frame False body])
      else if maxMessageBytes < length s then [Oversized]
      else if body = [] then [] else [Frame False body])"

definition octetFrame :: "u8 list \<Rightarrow> (frameItem list \<times> u8 list) option" where
  "octetFrame s =
     (case dropWhile isDigit s of
        [] \<Rightarrow> None
      | c # r \<Rightarrow>
          let ds = takeWhile isDigit s; n = lenValue ds in
          if c = SP \<and> ds \<noteq> [] \<and> length ds \<le> maxLenDigits
          then Some (if maxMessageBytes < n then [Oversized] else [Frame True (take n r)], drop n r)
          else None)"

lemma octetFrame_shorter: "octetFrame s = Some (is, r) \<Longrightarrow> length r < length s"
proof -
  assume "octetFrame s = Some (is, r)"
  then obtain c t n where d: "dropWhile isDigit s = c # t" and r: "r = drop n t"
    by (auto simp: octetFrame_def Let_def split: list.splits if_splits)
  have "length (c # t) \<le> length s" using length_dropWhile_le [of isDigit s] d by simp
  then show ?thesis using r by simp
qed

lemma afterLine_shorter: "s \<noteq> [] \<Longrightarrow> length (afterLine s) < length s"
  using length_dropWhile_le [of "\<lambda>c. c \<noteq> LF" s] by (cases s) (auto simp: afterLine_def intro: le_less_trans)

function frames :: "u8 list \<Rightarrow> frameItem list" where
  "frames s =
     (if s = [] then []
      else case octetFrame s of
        Some (is, r) \<Rightarrow> is @ frames r
      | None \<Rightarrow> lineItems s @ frames (afterLine s))"
  by pat_completeness auto

termination
  by (relation "measure length") (auto simp: octetFrame_shorter afterLine_shorter)

declare frames.simps [simp del]

definition frameTokens :: "frameItem list \<Rightarrow> (u8 list \<times> bool) list" where
  "frameTokens is = concat (map (\<lambda>i. case i of Frame octet b \<Rightarrow> [(b, octet)] | Oversized \<Rightarrow> []) is)"

definition oversizedCount :: "frameItem list \<Rightarrow> nat" where
  "oversizedCount is = length (filter (\<lambda>i. i = Oversized) is)"

lemma frameTokens_simps [simp]:
  "frameTokens [] = []"
  "frameTokens (Frame octet b # is) = (b, octet) # frameTokens is"
  "frameTokens (Oversized # is) = frameTokens is"
  "frameTokens (xs @ ys) = frameTokens xs @ frameTokens ys"
  "frameTokens (replicate k Oversized) = []"
  by (induction k) (auto simp: frameTokens_def)

lemma oversizedCount_simps [simp]:
  "oversizedCount [] = 0"
  "oversizedCount (Frame octet b # is) = oversizedCount is"
  "oversizedCount (Oversized # is) = Suc (oversizedCount is)"
  "oversizedCount (xs @ ys) = oversizedCount xs + oversizedCount ys"
  "oversizedCount (replicate k Oversized) = k"
  by (auto simp: oversizedCount_def)

text \<open>
  A CR LF line of exactly \<open>maxMessageBytes\<close> payload is the one case the splitter decides by how the
  reads fall (\<open>scanNewline\<close> counts the CR as payload as long as the LF is not there).
\<close>

definition tame :: "u8 list \<Rightarrow> bool" where
  "tame s \<longleftrightarrow> (\<forall>pre body post. s = pre @ body @ CR # LF # post \<longrightarrow> length body = maxMessageBytes \<longrightarrow> LF \<in> set body)"

lemma tame_suffix: "tame (a @ s) \<Longrightarrow> tame s"
  unfolding tame_def by (metis append.assoc)

lemma tame_short: "length s \<le> maxMessageBytes \<Longrightarrow> tame s"
  by (auto simp: tame_def)

section \<open>Prefixes of the stream\<close>

lemma lineOf_append [simp]:
  "LF \<notin> set a \<Longrightarrow> lineOf (a @ b) = a @ lineOf b"
  "LF \<in> set a \<Longrightarrow> lineOf (a @ b) = lineOf a"
proof -
  show "LF \<notin> set a \<Longrightarrow> lineOf (a @ b) = a @ lineOf b" by (induction a) (auto simp: lineOf_def)
  show "LF \<in> set a \<Longrightarrow> lineOf (a @ b) = lineOf a" by (induction a) (auto simp: lineOf_def)
qed

lemma afterLine_append [simp]:
  "LF \<notin> set a \<Longrightarrow> afterLine (a @ b) = afterLine b"
  "LF \<in> set a \<Longrightarrow> afterLine (a @ b) = afterLine a @ b"
proof -
  show "LF \<notin> set a \<Longrightarrow> afterLine (a @ b) = afterLine b" by (induction a) (auto simp: afterLine_def)
  show "LF \<in> set a \<Longrightarrow> afterLine (a @ b) = afterLine a @ b" by (induction a) (auto simp: afterLine_def)
qed

lemma IndexByte_line:
  assumes "IndexByte data LF = Some i"
  shows "LF \<in> set data" "take i data = lineOf data" "drop (i + 1) data = afterLine data"
  using assms
  by (auto simp: IndexByte_Some lineOf_def afterLine_def takeWhile_eq_take [symmetric] dropWhile_eq_drop drop_Suc tl_drop)

lemma lineOf_no_LF [simp]: "LF \<notin> set (lineOf s)"
  by (induction s) (auto simp: lineOf_def)

lemma split_at_LF: "LF \<in> set s \<Longrightarrow> s = lineOf s @ LF # afterLine s"
  by (induction s) (auto simp: lineOf_def afterLine_def)

lemma long_line_oversized:
  assumes "LF \<notin> set a" "maxMessageBytes < length a" "tame (a @ s)"
  shows "lineItems (a @ s) = [Oversized]"
proof (cases "LF \<in> set s")
  case False
  then show ?thesis using assms by (auto simp: lineItems_def Let_def)
next
  case True
  let ?l = "a @ lineOf s"
  have "maxMessageBytes < length (dropCR ?l)"
  proof (rule ccontr)
    assume short: "\<not> maxMessageBytes < length (dropCR ?l)"
    then have cr: "?l \<noteq> []" "last ?l = CR" and len: "length (butlast ?l) = maxMessageBytes"
      using assms(2) by (auto simp: dropCR_def split: if_splits)
    have "a @ s = [] @ butlast ?l @ CR # LF # afterLine s"
      using split_at_LF [OF True] append_butlast_last_id [OF cr(1)] cr(2)
      by (metis append.assoc append_Cons append_Nil)
    then have "LF \<in> set (butlast ?l)" using assms(3) len unfolding tame_def by blast
    then show False using assms(1) by (metis in_set_butlastD lineOf_no_LF set_append Un_iff)
  qed
  then show ?thesis using True assms(1) by (auto simp: lineItems_def Let_def)
qed

lemma findSpace_closed:
  "i \<le> Suc maxLenDigits \<Longrightarrow> findSpace i s =
     (if maxLenDigits < i + length (takeWhile isDigit s) then Undecided
      else case dropWhile isDigit s of [] \<Rightarrow> Undecided
        | c # _ \<Rightarrow> if c = SP then SpaceAt (i + length (takeWhile isDigit s)) else NotALength)"
proof (induction s arbitrary: i)
  case (Cons c cs)
  have "\<not> isDigit SP" by (simp add: isDigit_def)
  then show ?case using Cons.IH [of "Suc i"] Cons.prems by (cases "dropWhile isDigit cs"; cases "isDigit c") (auto simp: maxLenDigits_def simp del: dropWhile_eq_Nil_conv)
qed simp

section \<open>One turn of the splitter against the stream\<close>

lemma dropWhile_append_Cons:
  "dropWhile P a = c # r \<Longrightarrow> dropWhile P (a @ s) = c # r @ s \<and> takeWhile P (a @ s) = takeWhile P a"
  by (induction a) (auto split: if_splits)

lemma findSpace_SpaceAt:
  assumes "findSpace 0 data = SpaceAt sp"
  shows "takeWhile isDigit data = take sp data" "sp \<le> maxLenDigits"
    "dropWhile isDigit data = SP # drop (sp + 1) data" "sp < length data"
proof -
  have sp: "sp = length (takeWhile isDigit data)" and le: "sp \<le> maxLenDigits"
    and d: "\<exists>r. dropWhile isDigit data = SP # r"
    using assms findSpace_closed [of 0 data] by (auto split: if_splits list.splits)
  show "takeWhile isDigit data = take sp data" unfolding sp by (rule takeWhile_eq_take)
  show "sp \<le> maxLenDigits" by (rule le)
  have drop: "dropWhile isDigit data = drop sp data" unfolding sp by (rule dropWhile_eq_drop)
  show "sp < length data" using d drop by (metis drop_eq_Nil linorder_not_le list.distinct(1))
  then show "dropWhile isDigit data = SP # drop (sp + 1) data"
    using d drop by (metis Cons_nth_drop_Suc Suc_eq_plus1 list.inject)
qed

lemma octetFrame_SpaceAt:
  assumes "findSpace 0 data = SpaceAt sp" "data = c # cs" "isDigit c"
  shows "octetFrame (data @ s) =
    (let n = lenValue (take sp data); r = drop (sp + 1) data @ s in
     Some (if maxMessageBytes < n then [Oversized] else [Frame True (take n r)], drop n r))"
proof -
  note sp = findSpace_SpaceAt [OF assms(1)]
  have "takeWhile isDigit data \<noteq> []" using assms(2,3) by simp
  then have "take sp data \<noteq> []" using sp(1) by metis
  then show ?thesis using sp dropWhile_append_Cons [OF sp(3), of s] by (simp add: octetFrame_def Let_def)
qed

lemma octetFrame_None:
  assumes "\<not> isDigit c \<or> scanOctetCounted (c # cs) atEOF = None" "atEOF \<longrightarrow> s = []"
  shows "octetFrame ((c # cs) @ s) = None"
proof (cases "isDigit c")
  case False
  then show ?thesis by (simp add: octetFrame_def)
next
  case True
  let ?data = "c # cs"
  have "scanOctetCounted ?data atEOF = None" using assms True by simp
  then have fs: "findSpace 0 ?data = NotALength \<or>
      findSpace 0 ?data = Undecided \<and> (maxLenDigits < length ?data \<or> atEOF)"
    by (cases "findSpace 0 ?data") (auto simp: scanOctetCounted_def Let_def simp del: findSpace.simps split: if_splits)
  show ?thesis
  proof (cases "dropWhile isDigit ?data")
    case Nil
    then have all: "\<forall>x \<in> set ?data. isDigit x" by (simp only: dropWhile_eq_Nil_conv)
    then have "takeWhile isDigit (?data @ s) = ?data @ takeWhile isDigit s"
      by (intro takeWhile_append2) auto
    then show ?thesis using fs Nil findSpace_closed [of 0 ?data] assms(2)
      by (auto simp: octetFrame_def Let_def simp del: findSpace.simps dropWhile_eq_Nil_conv split: list.splits if_splits)
  next
    case (Cons x r)
    then show ?thesis using fs dropWhile_append_Cons [OF Cons, of s] findSpace_closed [of 0 ?data]
      by (auto simp: octetFrame_def Let_def simp del: findSpace.simps split: if_splits)
  qed
qed

text \<open>What is still to come of the stream \<open>s\<close> when the splitter is in state \<open>f\<close>.\<close>

definition resume :: "frameSplitter \<Rightarrow> u8 list \<Rightarrow> frameItem list" where
  "resume f s =
     (if 0 < fs_skip f then frames (drop (fs_skip f) s)
      else if fs_lineSkip f then frames (afterLine s)
      else if fs_accum f then lineItems (fs_pending f @ s) @ frames (afterLine s)
      else frames s)"

definition emitted :: "u8 list option \<Rightarrow> frameSplitter \<Rightarrow> frameItem list" where
  "emitted tok g = (case tok of None \<Rightarrow> [] | Some t \<Rightarrow> [Frame (fs_octet g) t])"

text \<open>At most one recovery mode at a time, and what is pending is the start of one line within the cap.\<close>

definition splitter_ok :: "frameSplitter \<Rightarrow> bool" where
  "splitter_ok f \<longleftrightarrow>
     (0 < fs_skip f \<longrightarrow> \<not> fs_lineSkip f \<and> \<not> fs_accum f) \<and> (fs_lineSkip f \<longrightarrow> \<not> fs_accum f) \<and>
     (\<not> fs_accum f \<longrightarrow> fs_pending f = []) \<and> LF \<notin> set (fs_pending f) \<and> length (fs_pending f) \<le> maxMessageBytes"

text \<open>Holding a line with nothing pending happens only in the middle of a call, on data with no terminator.\<close>

definition held_ok :: "frameSplitter \<Rightarrow> u8 list \<Rightarrow> bool" where
  "held_ok f data \<longleftrightarrow> splitter_ok f \<and> (fs_accum f \<longrightarrow> fs_pending f \<noteq> [] \<or> data \<noteq> [] \<and> LF \<notin> set data)"

definition turn_refines :: "u8 list \<Rightarrow> u8 list \<Rightarrow> frameSplitter \<Rightarrow> nat \<Rightarrow> u8 list option \<Rightarrow> frameSplitter \<Rightarrow> bool" where
  "turn_refines data s f n tok g \<longleftrightarrow>
     (\<exists>k. fs_oversized g = fs_oversized f + k \<and>
          resume f (data @ s) = replicate k Oversized @ emitted tok g @ resume g (drop n data @ s)) \<and>
     splitter_ok g \<and> tame (fs_pending g @ drop n data @ s)"

text \<open>Bytes the scanner keeps: an octet-counted frame whose length or payload is not all there.\<close>

definition waiting :: "frameSplitter \<Rightarrow> u8 list \<Rightarrow> bool" where
  "waiting f data \<longleftrightarrow> fs_skip f = 0 \<and> \<not> fs_lineSkip f \<and> \<not> fs_accum f \<and>
     (case data of [] \<Rightarrow> False | c # _ \<Rightarrow> isDigit c \<and> scanOctetCounted data False = Some (0, None, 0, False))"

lemma frames_line: "octetFrame s = None \<Longrightarrow> s \<noteq> [] \<Longrightarrow> frames s = lineItems s @ frames (afterLine s)"
  by (simp add: frames.simps [of s])

lemma frames_octet: "octetFrame s = Some (is, r) \<Longrightarrow> frames s = is @ frames r"
  using octetFrame_shorter [of s "is" r] by (subst frames.simps) auto

definition turn_ok :: "u8 list \<Rightarrow> u8 list \<Rightarrow> frameSplitter \<Rightarrow> turn \<Rightarrow> bool" where
  "turn_ok data s f t \<longleftrightarrow>
     (case t of
        Return n tok g \<Rightarrow> turn_refines data s f n tok g \<and> held_ok g [] \<and> (tok = None \<longrightarrow> drop n data = [] \<or> waiting g (drop n data))
      | Continue n g \<Rightarrow> turn_refines data s f n None g \<and> held_ok g (drop n data))"

lemma tame_drop [intro]: "tame (data @ s) \<Longrightarrow> tame (drop n data @ s)"
  by (metis append.assoc append_take_drop_id tame_suffix)

lemmas turn_defs = turn_ok_def turn_refines_def resume_def emitted_def splitter_ok_def held_ok_def

lemma skip_turn:
  assumes "splitter_ok f" "tame (fs_pending f @ data @ s)" "0 < fs_skip f"
  shows "turn_ok data s f (splitTurn data False f)"
  using assms by (auto simp: splitTurn_def Let_def turn_defs min_def dest: tame_suffix)

lemma lineSkip_turn:
  assumes "splitter_ok f" "tame (fs_pending f @ data @ s)" "fs_skip f = 0" "fs_lineSkip f"
  shows "turn_ok data s f (splitTurn data False f)"
proof (cases "IndexByte data LF")
  case None
  then have "LF \<notin> set data" by (simp add: IndexByte_None)
  then show ?thesis using assms None by (auto simp: splitTurn_def turn_defs dest: tame_suffix)
next
  case (Some i)
  note line = IndexByte_line [OF Some]
  then have "tame (afterLine data @ s)" using assms(2) by (metis tame_drop tame_suffix)
  then show ?thesis using assms Some line by (auto simp: splitTurn_def turn_defs)
qed

lemma accum_turn:
  assumes "held_ok f data" "tame (fs_pending f @ data @ s)" "fs_accum f"
  shows "turn_ok data s f (splitTurn data False f)"
proof -
  have mode: "fs_skip f = 0" "\<not> fs_lineSkip f" "LF \<notin> set (fs_pending f)" and cap: "length (fs_pending f) \<le> maxMessageBytes"
    using assms by (auto simp: held_ok_def splitter_ok_def)
  then have turn: "splitTurn data False f = accumTurn data False f" using assms(3) by (simp add: splitTurn_def)
  show ?thesis
  proof (cases "IndexByte data LF")
    case None
    then have lf: "LF \<notin> set data" by (simp add: IndexByte_None)
    show ?thesis
    proof (cases "maxMessageBytes < length (fs_pending f) + length data")
      case True
      have "lineItems ((fs_pending f @ data) @ s) = [Oversized]"
        by (rule long_line_oversized) (use True lf mode assms in auto)
      then show ?thesis using True None assms(2) lf mode
        by (auto simp: turn accumTurn_def turn_defs Let_def assms(3) dest: tame_suffix)
    next
      case False
      have "fs_pending f \<noteq> [] \<or> data \<noteq> []" using assms(1,3) by (auto simp: held_ok_def)
      then show ?thesis using False None lf mode assms(2,3)
        by (auto simp: turn accumTurn_def turn_defs Let_def)
    qed
  next
    case (Some i)
    note line = IndexByte_line [OF Some]
    have ne: "fs_pending f \<noteq> []" using assms(1,3) line(1) by (auto simp: held_ok_def)
    have "tame (afterLine data @ s)" using assms(2) line(3) by (metis tame_drop tame_suffix)
    moreover have "lineItems (fs_pending f @ data @ s) =
        (if maxMessageBytes < length (dropCR (fs_pending f @ lineOf data)) then [Oversized]
         else [Frame False (dropCR (fs_pending f @ lineOf data))])"
      using mode line(1) by (simp add: lineItems_def Let_def)
    ultimately show ?thesis using Some ne line mode assms(3)
      by (auto simp: turn accumTurn_def turn_defs Let_def)
  qed
qed

lemma octet_turn:
  assumes "splitter_ok f" "tame (data @ s)" "fs_skip f = 0" "\<not> fs_lineSkip f" "\<not> fs_accum f"
    and data: "data = c # cs" "isDigit c" "scanOctetCounted data False = Some (a, tok, sk, over)"
  shows "turn_ok data s f (splitTurn data False f)"
proof -
  have pend: "fs_pending f = []" using assms by (simp add: splitter_ok_def)
  have "scanFrame data False =
      \<lparr>sr_advance = a, sr_token = tok, sr_skip = sk, sr_oversized = over, sr_octet = True, sr_partial = False\<rparr>"
    using data by (simp add: scanFrame_def)
  then have turn: "splitTurn data False f =
     (if over then Continue a (f\<lparr>fs_oversized := Suc (fs_oversized f), fs_skip := sk\<rparr>)
      else Return a tok (if tok \<noteq> None then f\<lparr>fs_octet := True\<rparr> else f))"
    using assms(3-5) by (simp add: splitTurn_def Let_def)
  have w: "scanOctetCounted data False = Some (0, None, 0, False) \<Longrightarrow> waiting f data"
    using assms(3-5) data(1,2) by (simp add: waiting_def)
  show ?thesis
  proof (cases "findSpace 0 data")
    case NotALength
    then show ?thesis using data(3) by (simp add: scanOctetCounted_def)
  next
    case Undecided
    then have "a = 0" "tok = None" "\<not> over" using data(3) by (auto simp: scanOctetCounted_def split: if_splits)
    moreover have "scanOctetCounted data False = Some (0, None, 0, False)"
      using data(3) Undecided by (auto simp: scanOctetCounted_def split: if_splits)
    ultimately show ?thesis using assms(1-5) w pend by (auto simp: turn turn_defs)
  next
    case (SpaceAt sp)
    define n where "n = lenValue (take sp data)"
    have octet: "frames (data @ s) =
        (if maxMessageBytes < n then [Oversized] else [Frame True (take n (drop (sp + 1) data @ s))]) @
        frames (drop n (drop (sp + 1) data @ s))"
      by (rule frames_octet) (use octetFrame_SpaceAt [OF SpaceAt data(1,2), of s] in \<open>simp add: n_def Let_def\<close>)
    have sp: "sp < length data" by (rule findSpace_SpaceAt(4) [OF SpaceAt])
    consider "maxMessageBytes < n" "sp + 1 + n \<le> length data" | "maxMessageBytes < n" "length data < sp + 1 + n"
      | "n \<le> maxMessageBytes" "length data < sp + 1 + n" | "n \<le> maxMessageBytes" "sp + 1 + n \<le> length data" by linarith
    then show ?thesis
    proof cases
      case 1
      then have r: "a = sp + 1 + n" "over" "sk = 0" using data(3) SpaceAt by (auto simp: scanOctetCounted_def n_def Let_def)
      have "drop n (drop (sp + 1) data @ s) = drop a data @ s" using 1 r by (simp add: add.commute)
      then show ?thesis using octet r 1 pend assms(1-5) by (auto simp: turn turn_defs)
    next
      case 2
      then have r: "a = length data" "over" "sk = sp + 1 + n - length data" using data(3) SpaceAt
        by (auto simp: scanOctetCounted_def n_def Let_def)
      have "drop n (drop (sp + 1) data @ s) = drop sk s" using 2 r sp by (simp add: add.commute)
      then show ?thesis using octet r 2 pend assms(1-5) by (auto simp: turn turn_defs dest: tame_suffix)
    next
      case 3
      then have "Some (0, None, 0, False) = Some (a, tok, sk, over)" using data(3) SpaceAt by (simp add: scanOctetCounted_def n_def Let_def)
      then show ?thesis using assms(1-5) data(3) w pend by (auto simp: turn turn_defs)
    next
      case 4
      then have r: "a = sp + 1 + n" "\<not> over" "tok = Some (take n (drop (sp + 1) data))" using data(3) SpaceAt
        by (auto simp: scanOctetCounted_def n_def Let_def)
      have "drop n (drop (sp + 1) data @ s) = drop a data @ s" "take n (drop (sp + 1) data @ s) = take n (drop (sp + 1) data)"
        using 4 r by (simp_all add: add.commute)
      then show ?thesis using octet r 4 pend assms(1-5) by (auto simp: turn turn_defs)
    qed
  qed
qed

lemma newline_turn:
  assumes "splitter_ok f" "tame (data @ s)" "fs_skip f = 0" "\<not> fs_lineSkip f" "\<not> fs_accum f"
    and data: "data = c # cs" "\<not> isDigit c \<or> scanOctetCounted data False = None"
  shows "turn_ok data s f (splitTurn data False f)"
proof -
  have pend: "fs_pending f = []" using assms by (simp add: splitter_ok_def)
  obtain a tok over part where nl: "scanNewline data False = (a, tok, over, part)" by (cases "scanNewline data False")
  have "scanFrame data False =
      \<lparr>sr_advance = a, sr_token = tok, sr_skip = 0, sr_oversized = over, sr_octet = False, sr_partial = part\<rparr>"
    using data nl by (auto simp: scanFrame_def)
  then have turn: "splitTurn data False f =
     (if over then Continue a (if part then f\<lparr>fs_oversized := Suc (fs_oversized f), fs_lineSkip := True\<rparr>
                               else f\<lparr>fs_oversized := Suc (fs_oversized f)\<rparr>)
      else if part then Continue 0 (f\<lparr>fs_accum := True\<rparr>)
      else Return a tok (if tok \<noteq> None then f\<lparr>fs_octet := False\<rparr> else f))"
    using assms(3-5) by (simp add: splitTurn_def Let_def)
  have "octetFrame (data @ s) = None" using octetFrame_None [of c cs False s] data by auto
  then have line: "frames (data @ s) = lineItems (data @ s) @ frames (afterLine (data @ s))"
    using data(1) by (intro frames_line) auto
  show ?thesis
  proof (cases "IndexByte data LF")
    case None
    then have lf: "LF \<notin> set data" by (simp add: IndexByte_None)
    show ?thesis
    proof (cases "maxMessageBytes < length data")
      case True
      then have "lineItems (data @ s) = [Oversized]" using long_line_oversized lf assms(2) by blast
      moreover have "a = length data" "over" "part" using nl None True by (auto simp: scanNewline_def)
      ultimately show ?thesis using line lf pend assms(1-5) by (auto simp: turn turn_defs dest: tame_suffix)
    next
      case False
      then have "\<not> over" "part" using nl None by (auto simp: scanNewline_def)
      moreover have "data \<noteq> []" using data(1) by simp
      ultimately show ?thesis using line lf pend assms(1-5) by (auto simp: turn turn_defs)
    qed
  next
    case (Some i)
    note idx = IndexByte_line [OF Some]
    have "a = i + 1" "\<not> part" and res: "over = (maxMessageBytes < length (dropCR (lineOf data)))"
      "tok = (if over then None else Some (dropCR (lineOf data)))"
      using nl Some idx by (auto simp: scanNewline_def Let_def split: if_splits)
    moreover have "lineItems (data @ s) = (if over then [Oversized] else [Frame False (dropCR (lineOf data))])"
      using idx(1) res by (auto simp: lineItems_def Let_def)
    moreover have "tame (afterLine data @ s)" using assms(2) idx(3) by (metis tame_drop)
    ultimately show ?thesis using line idx pend assms(1-5) by (auto simp: turn turn_defs)
  qed
qed

lemma splitTurn_ok:
  assumes "held_ok f data" "tame (fs_pending f @ data @ s)"
  shows "turn_ok data s f (splitTurn data False f)"
proof -
  have ok: "splitter_ok f" using assms(1) by (simp add: held_ok_def)
  consider "0 < fs_skip f" | "fs_skip f = 0" "fs_lineSkip f" | "fs_accum f"
    | "fs_skip f = 0" "\<not> fs_lineSkip f" "\<not> fs_accum f" by auto
  then show ?thesis
  proof cases
    case 4
    then have t: "tame (data @ s)" using ok assms(2) by (simp add: splitter_ok_def)
    show ?thesis
    proof (cases data)
      case Nil
      then show ?thesis using 4 ok t by (auto simp: splitTurn_def Let_def scanFrame_def turn_defs)
    next
      case (Cons c cs)
      show ?thesis
      proof (cases "if isDigit c then scanOctetCounted data False else None")
        case None
        then show ?thesis using newline_turn [OF ok t 4 Cons] by (auto split: if_splits)
      next
        case (Some r)
        then show ?thesis using octet_turn [OF ok t 4 Cons] by (cases r) (auto split: if_splits)
      qed
    qed
  qed (use ok assms skip_turn lineSkip_turn accum_turn in auto)
qed

section \<open>A connection against the stream\<close>

lemma turn_refines_trans:
  assumes "turn_refines data s f n None g" "turn_refines (drop n data) s g m tok h"
  shows "turn_refines data s f (n + m) tok h"
proof -
  obtain k l where "fs_oversized g = fs_oversized f + k" "resume f (data @ s) = replicate k Oversized @ resume g (drop n data @ s)"
    "fs_oversized h = fs_oversized g + l"
    "resume g (drop n data @ s) = replicate l Oversized @ emitted tok h @ resume h (drop m (drop n data) @ s)"
    using assms by (auto simp: turn_refines_def emitted_def)
  moreover have "drop m (drop n data) = drop (n + m) data" by (simp add: add.commute)
  ultimately show ?thesis using assms(2) unfolding turn_refines_def
    by (auto simp: replicate_add intro!: exI [of _ "k + l"])
qed

lemma splitLoop_refines:
  assumes "held_ok f data" "tame (fs_pending f @ data @ s)" "splitLoop data False off f = (adv, tok, g)"
  shows "turn_refines data s f (adv - off) tok g \<and> held_ok g [] \<and>
    (tok = None \<longrightarrow> drop (adv - off) data = [] \<or> waiting g (drop (adv - off) data))"
  using assms
proof (induction data False off f arbitrary: adv tok g rule: splitLoop.induct)
  case (1 data off f)
  note ok = splitTurn_ok [OF "1.prems"(1,2)]
  show ?case
  proof (cases "splitTurn data False f")
    case (Return n tok' h)
    then show ?thesis using "1.prems"(3) ok by (auto simp: splitLoop.simps turn_ok_def)
  next
    case (Continue n h)
    then have rec: "splitLoop (drop n data) False (off + n) h = (adv, tok, g)" using "1.prems"(3) by (simp add: splitLoop.simps)
    have step: "turn_refines data s f n None h" "held_ok h (drop n data)" using ok Continue by (auto simp: turn_ok_def)
    then have t: "tame (fs_pending h @ drop n data @ s)" by (simp add: turn_refines_def)
    note IH = "1.hyps" [OF Continue step(2) t rec]
    obtain m where m: "adv = off + n + m" using splitLoop_bound [OF rec] le_iff_add by blast
    have "drop (adv - (off + n)) (drop n data) = drop (adv - off) data" using m by (simp add: add.commute)
    then show ?thesis using IH turn_refines_trans [OF step(1), of m] m by (auto simp: add.commute)
  qed
qed

lemma scanAll_refines:
  assumes "held_ok f []" "tame (fs_pending f @ data @ s)" "scanAll data False f = (ts, carry, g)"
  shows "frameTokens (resume f (data @ s)) = ts @ frameTokens (resume g (carry @ s)) \<and>
    oversizedCount (resume f (data @ s)) + fs_oversized f = oversizedCount (resume g (carry @ s)) + fs_oversized g \<and>
    held_ok g [] \<and> tame (fs_pending g @ carry @ s) \<and> (carry = [] \<or> waiting g carry)"
  using assms
proof (induction data False f arbitrary: ts carry g rule: scanAll.induct)
  case (1 data f)
  show ?case
  proof (cases "data = []")
    case True
    then show ?thesis using "1.prems" by (auto simp: scanAll.simps)
  next
    case False
    obtain adv tok h where sp: "split_frame data False f = (adv, tok, h)" by (cases "split_frame data False f")
    have held: "held_ok f data" using "1.prems"(1) by (auto simp: held_ok_def)
    have step: "turn_refines data s f adv tok h" "held_ok h []" "tok = None \<longrightarrow> drop adv data = [] \<or> waiting h (drop adv data)"
      using splitLoop_refines [OF held "1.prems"(2), of 0 adv tok h] sp by (auto simp: split_frame_def)
    obtain k where k: "fs_oversized h = fs_oversized f + k"
      "resume f (data @ s) = replicate k Oversized @ emitted tok h @ resume h (drop adv data @ s)"
      and t: "tame (fs_pending h @ drop adv data @ s)" using step(1) by (auto simp: turn_refines_def)
    show ?thesis
    proof (cases tok)
      case None
      then have "ts = []" "carry = drop adv data" "g = h" using "1.prems"(3) False sp by (auto simp: scanAll.simps)
      then show ?thesis using k t step(2,3) None by (simp add: emitted_def)
    next
      case (Some b)
      obtain us carry' h' where rec: "scanAll (drop adv data) False h = (us, carry', h')" by (cases "scanAll (drop adv data) False h")
      then have res: "ts = (b, fs_octet h) # us" "carry = carry'" "g = h'" using "1.prems"(3) False sp Some by (auto simp: scanAll.simps)
      note IH = "1.hyps" [OF _ sp [symmetric] refl Some step(2) t rec]
      show ?thesis using IH False res k Some by (auto simp: emitted_def)
    qed
  qed
qed

lemma scanAll_EOF_none:
  assumes "fs_skip f = 0" "\<not> fs_lineSkip f" "\<not> fs_accum f"
  shows "scanAll [] True f = ([], [], f)"
  using assms by (simp add: scanAll.simps [of "[]"] split_frame_def splitLoop.simps [of "[]"] splitTurn_def scanFrame_def Let_def)

lemma frames_Nil [simp]: "frames [] = []"
  by (simp add: frames.simps)

lemma afterLine_Nil [simp]: "afterLine [] = []"
  by (simp add: afterLine_def)

lemma line_whole: "LF \<notin> set s \<Longrightarrow> lineOf s = s \<and> afterLine s = []"
  using lineOf_append(1) [of s "[]"] afterLine_append(1) [of s "[]"] by (simp add: lineOf_def)

lemma EOF_empty:
  assumes "held_ok f []" "scanAll [] True f = (ts, carry, g)"
  shows "frameTokens (resume f []) = ts \<and> oversizedCount (resume f []) + fs_oversized f = fs_oversized g"
proof (cases "0 < fs_skip f \<or> fs_lineSkip f \<or> \<not> fs_accum f")
  case True
  then have "splitTurn [] True f = Return 0 None f \<or> splitTurn [] True f = Return 0 None (f\<lparr>fs_lineSkip := False\<rparr>)"
    by (auto simp: splitTurn_def IndexByte_def scanFrame_def Let_def)
  then have "ts = [] \<and> fs_oversized g = fs_oversized f"
    using assms(2) by (auto simp: scanAll.simps [of "[]"] split_frame_def splitLoop.simps [of "[]"])
  then show ?thesis using True assms(1) by (auto simp: resume_def held_ok_def splitter_ok_def)
next
  case False
  let ?p = "fs_pending f" and ?f = "f\<lparr>fs_accum := False, fs_pending := []\<rparr>"
  have f: "fs_skip f = 0" "\<not> fs_lineSkip f" "fs_accum f" "LF \<notin> set ?p" "\<not> maxMessageBytes < length ?p"
    using False assms(1) by (auto simp: held_ok_def splitter_ok_def)
  have resume: "resume f [] = (if dropCR ?p = [] then [] else [Frame False (dropCR ?p)])"
    using f line_whole [of ?p] by (simp add: resume_def lineItems_def Let_def)
  have turn: "splitTurn [] True f =
      (if dropCR ?p = [] then Return 0 None ?f else Return 0 (Some (dropCR ?p)) (?f\<lparr>fs_octet := False\<rparr>))"
    using f by (simp add: splitTurn_def accumTurn_def IndexByte_def Let_def)
  have rest: "scanAll [] True (?f\<lparr>fs_octet := False\<rparr>) = ([], [], ?f\<lparr>fs_octet := False\<rparr>)"
    by (rule scanAll_EOF_none) (use f in auto)
  show ?thesis
  proof (cases "dropCR ?p = []")
    case True
    then have "ts = [] \<and> g = ?f" using assms(2) turn
      by (simp add: scanAll.simps [of "[]" True f] split_frame_def splitLoop.simps [of "[]" True _ f])
    then show ?thesis using True resume by simp
  next
    case False
    then have "ts = [(dropCR ?p, False)] \<and> g = ?f\<lparr>fs_octet := False\<rparr>" using assms(2) turn rest
      by (simp add: scanAll.simps [of "[]" True f] split_frame_def splitLoop.simps [of "[]" True _ f])
    then show ?thesis using False resume by simp
  qed
qed

lemma waiting_EOF:
  assumes "waiting f data"
  shows "\<exists>octet t. frames data = [Frame octet t] \<and> scanAll data True f = ([(t, octet)], [], f\<lparr>fs_octet := octet\<rparr>)"
proof -
  obtain c cs where data: "data = c # cs" "isDigit c" "scanOctetCounted data False = Some (0, None, 0, False)"
    and mode: "fs_skip f = 0" "\<not> fs_lineSkip f" "\<not> fs_accum f" using assms by (auto simp: waiting_def split: list.splits)
  have scan: "scanAll data True f = ([(t, octet)], [], f\<lparr>fs_octet := octet\<rparr>)"
    if "scanFrame data True = \<lparr>sr_advance = length data, sr_token = Some t, sr_skip = 0, sr_oversized = False,
      sr_octet = octet, sr_partial = False\<rparr>" for t octet
    using that mode scanAll_EOF_none [of "f\<lparr>fs_octet := octet\<rparr>"]
    by (simp add: scanAll.simps [of data] split_frame_def splitLoop.simps [of data] splitTurn_def Let_def)
  show ?thesis
  proof (cases "findSpace 0 data")
    case NotALength
    then show ?thesis using data(3) by (simp add: scanOctetCounted_def)
  next
    case Undecided
    then have len: "length data \<le> maxLenDigits" using data(3) by (auto simp: scanOctetCounted_def split: if_splits)
    have "takeWhile isDigit data = data"
    proof (rule ccontr)
      assume "takeWhile isDigit data \<noteq> data"
      then have "dropWhile isDigit data \<noteq> []" by (metis append_Nil2 takeWhile_dropWhile_id)
      then show False using Undecided findSpace_closed [of 0 data] length_takeWhile_le [of isDigit data] len
        by (auto split: list.splits if_splits)
    qed
    then have digits: "\<forall>x \<in> set data. isDigit x" by (metis takeWhile_eq_all_conv)
    then have lf: "LF \<notin> set data" and "isDigit (last data)" using data(1) by (auto simp: isDigit_def)
    then have cr: "dropCR data = data" by (auto simp: isDigit_def dropCR_def)
    have none: "scanOctetCounted data True = None" using Undecided by (auto simp: scanOctetCounted_def)
    have cap: "\<not> maxMessageBytes < length data" using len by (simp add: maxMessageBytes_def maxLenDigits_def)
    have "scanFrame data True = \<lparr>sr_advance = length data, sr_token = Some data, sr_skip = 0, sr_oversized = False,
      sr_octet = False, sr_partial = False\<rparr>"
      using data(1) none lf cr cap by (auto simp: scanFrame_def scanNewline_def IndexByte_def)
    moreover have "lineItems data = [Frame False data]"
      using data(1) lf cr cap line_whole [OF lf] by (auto simp: lineItems_def Let_def)
    moreover have "octetFrame data = None" using octetFrame_None [of c cs True "[]"] none data(1) by auto
    ultimately show ?thesis using scan frames_line [of data] data(1) line_whole [OF lf] by auto
  next
    case (SpaceAt sp)
    define n where "n = lenValue (take sp data)"
    have n: "n \<le> maxMessageBytes" "length data < sp + 1 + n"
      using SpaceAt data(3) findSpace_SpaceAt(4) [OF SpaceAt] by (auto simp: scanOctetCounted_def n_def [symmetric] Let_def split: if_splits)
    then have "scanOctetCounted data True = Some (length data, Some (drop (sp + 1) data), 0, False)"
      using SpaceAt by (simp add: scanOctetCounted_def n_def [symmetric] Let_def)
    then have "scanFrame data True = \<lparr>sr_advance = length data, sr_token = Some (drop (sp + 1) data), sr_skip = 0,
      sr_oversized = False, sr_octet = True, sr_partial = False\<rparr>"
      using data(1,2) by (simp add: scanFrame_def)
    moreover have "octetFrame data = Some ([Frame True (drop (sp + 1) data)], [])"
      using octetFrame_SpaceAt [OF SpaceAt data(1,2), of "[]"] n by (simp add: n_def [symmetric] Let_def)
    ultimately show ?thesis using scan frames_octet [of data] by auto
  qed
qed

lemma scanReads_refines:
  assumes "held_ok f []" "carry = [] \<or> waiting f carry" "tame (fs_pending f @ carry @ concat reads)"
    "scanReads reads carry f = (ts, g)"
  shows "ts = frameTokens (resume f (carry @ concat reads)) \<and>
    fs_oversized g = fs_oversized f + oversizedCount (resume f (carry @ concat reads))"
  using assms
proof (induction reads arbitrary: carry f ts g)
  case Nil
  obtain us c h where eof: "scanAll carry True f = (us, c, h)" by (cases "scanAll carry True f")
  then have res: "ts = us" "g = h" using Nil.prems(4) by auto
  show ?case
  proof (cases "carry = []")
    case True
    then show ?thesis using EOF_empty [of f us c h] Nil.prems(1) eof res by auto
  next
    case False
    then have w: "waiting f carry" using Nil.prems(2) by simp
    then have "resume f carry = frames carry" by (simp add: resume_def waiting_def)
    then show ?thesis using waiting_EOF [OF w] eof res by auto
  qed
next
  case (Cons c cs)
  obtain us carry' h where step: "scanAll (carry @ c) False f = (us, carry', h)" by (cases "scanAll (carry @ c) False f")
  obtain vs h' where rec: "scanReads cs carry' h = (vs, h')" by (cases "scanReads cs carry' h")
  have res: "ts = us @ vs" "g = h'" using Cons.prems(4) step rec by auto
  have t: "tame (fs_pending f @ (carry @ c) @ concat cs)" using Cons.prems(3) by simp
  note ok = scanAll_refines [OF Cons.prems(1) t step]
  show ?case using Cons.IH [of h carry' vs h'] ok rec res by auto
qed

section \<open>The scanner's buffer\<close>

text \<open>The invariant of the splitter and of what it leaves with the scanner, for every stream.\<close>

definition turn_keeps :: "u8 list \<Rightarrow> turn \<Rightarrow> bool" where
  "turn_keeps data t \<longleftrightarrow>
     (case t of
        Return n tok g \<Rightarrow> held_ok g [] \<and> (tok = None \<longrightarrow> drop n data = [] \<or> waiting g (drop n data))
      | Continue n g \<Rightarrow> held_ok g (drop n data))"

lemma fresh_keeps:
  assumes "held_ok f data" "fs_skip f = 0" "\<not> fs_lineSkip f" "\<not> fs_accum f" "data = c # cs"
  shows "turn_keeps data (splitTurn data False f)"
proof (cases "if isDigit c then scanOctetCounted data False else None")
  case None
  obtain a tok over part where nl: "scanNewline data False = (a, tok, over, part)" by (cases "scanNewline data False")
  have fr: "scanFrame data False =
      \<lparr>sr_advance = a, sr_token = tok, sr_skip = 0, sr_oversized = over, sr_octet = False, sr_partial = part\<rparr>"
    using assms(5) None nl by (auto simp: scanFrame_def)
  have part: "part \<Longrightarrow> LF \<notin> set data" "\<not> over \<Longrightarrow> \<not> part \<Longrightarrow> tok \<noteq> None" "data \<noteq> []"
    using nl assms(5) by (auto simp: scanNewline_def IndexByte_def Let_def split: if_splits)
  show ?thesis using assms(1-4) part
    by (auto simp: splitTurn_def fr turn_keeps_def held_ok_def splitter_ok_def Let_def)
next
  case (Some r)
  then obtain a tok sk over where oc: "scanOctetCounted data False = Some (a, tok, sk, over)" "isDigit c"
    by (cases r) (auto split: if_splits)
  have fr: "scanFrame data False =
      \<lparr>sr_advance = a, sr_token = tok, sr_skip = sk, sr_oversized = over, sr_octet = True, sr_partial = False\<rparr>"
    using assms(5) oc by (simp add: scanFrame_def)
  have "\<not> over \<Longrightarrow> tok = None \<Longrightarrow> a = 0 \<and> sk = 0"
    using oc by (cases "findSpace 0 data") (auto simp: scanOctetCounted_def Let_def split: if_splits)
  then have "\<not> over \<Longrightarrow> tok = None \<Longrightarrow> waiting f (drop a data)" using oc assms by (auto simp: waiting_def)
  then show ?thesis using assms(1-4)
    by (auto simp: splitTurn_def fr turn_keeps_def held_ok_def splitter_ok_def Let_def)
qed

lemma splitTurn_keeps:
  assumes "held_ok f data"
  shows "turn_keeps data (splitTurn data False f)"
proof -
  consider "fs_skip f = 0" "\<not> fs_lineSkip f" "\<not> fs_accum f" "data \<noteq> []" | "0 < fs_skip f \<or> fs_lineSkip f \<or> fs_accum f \<or> data = []" by auto
  then show ?thesis
  proof cases
    case 1
    then obtain c cs where "data = c # cs" by (cases data) auto
    then show ?thesis using fresh_keeps 1(1-3) assms by blast
  next
    case 2
    have sets: "LF \<notin> set (take i data) \<and> drop (Suc i) data = afterLine data \<and> LF \<in> set data" if "IndexByte data LF = Some i" for i
      using IndexByte_line [OF that] by (metis Suc_eq_plus1 lineOf_no_LF)
    show ?thesis
    proof (cases "IndexByte data LF")
      case None
      then have "LF \<notin> set data" by (simp add: IndexByte_None)
      then show ?thesis using 2 None assms
        by (auto simp: splitTurn_def accumTurn_def turn_keeps_def held_ok_def splitter_ok_def min_def scanFrame_def Let_def)
    next
      case (Some i)
      then show ?thesis using 2 sets [OF Some] assms
        by (auto simp: splitTurn_def accumTurn_def turn_keeps_def held_ok_def splitter_ok_def min_def scanFrame_def Let_def)
    qed
  qed
qed

lemma splitLoop_keeps:
  assumes "held_ok f data" "splitLoop data False off f = (adv, tok, g)"
  shows "held_ok g [] \<and> (tok = None \<longrightarrow> drop (adv - off) data = [] \<or> waiting g (drop (adv - off) data))"
  using assms
proof (induction data False off f arbitrary: adv tok g rule: splitLoop.induct)
  case (1 data off f)
  note ok = splitTurn_keeps [OF "1.prems"(1)]
  show ?case
  proof (cases "splitTurn data False f")
    case (Return n tok' h)
    then show ?thesis using "1.prems"(2) ok by (auto simp: splitLoop.simps turn_keeps_def)
  next
    case (Continue n h)
    then have rec: "splitLoop (drop n data) False (off + n) h = (adv, tok, g)" using "1.prems"(2) by (simp add: splitLoop.simps)
    have step: "held_ok h (drop n data)" using ok Continue by (auto simp: turn_keeps_def)
    obtain m where m: "adv = off + n + m" using splitLoop_bound [OF rec] le_iff_add by blast
    have "drop (adv - (off + n)) (drop n data) = drop (adv - off) data" using m by (simp add: add.commute)
    then show ?thesis using "1.hyps" [OF Continue step rec] by auto
  qed
qed

lemma scanAll_nothing [simp]: "scanAll [] False f = ([], [], f)"
  by (simp add: scanAll.simps)

lemma scanAll_keeps:
  assumes "held_ok f []" "scanAll data False f = (ts, carry, g)"
  shows "held_ok g [] \<and> (carry = [] \<or> waiting g carry)"
  using assms
proof (induction data False f arbitrary: ts carry g rule: scanAll.induct)
  case (1 data f)
  obtain adv tok h where sp: "split_frame data False f = (adv, tok, h)" by (cases "split_frame data False f")
  have "held_ok f data" using "1.prems"(1) by (auto simp: held_ok_def)
  then have step: "held_ok h []" "tok = None \<longrightarrow> drop adv data = [] \<or> waiting h (drop adv data)"
    using splitLoop_keeps [of f data 0 adv tok h] sp by (auto simp: split_frame_def)
  obtain us carry' h' where rec: "scanAll (drop adv data) False h = (us, carry', h')" by (cases "scanAll (drop adv data) False h")
  show ?case
    using "1.prems" sp step "1.hyps" [OF _ sp [symmetric] refl _ step(1) rec] rec
    by (cases tok; cases "data = []") (auto simp: scanAll.simps [of data])
qed

text \<open>What the scanner and the splitter hold after some reads.\<close>

fun afterReads :: "u8 list list \<Rightarrow> u8 list \<Rightarrow> frameSplitter \<Rightarrow> u8 list \<times> frameSplitter" where
  "afterReads [] carry f = (carry, f)"
| "afterReads (c # cs) carry f = (case scanAll (carry @ c) False f of (ts, carry', g) \<Rightarrow> afterReads cs carry' g)"

lemma waiting_length:
  assumes "waiting f data"
  shows "length data < maxMessageBytes + scannerHeadroom"
proof (cases "findSpace 0 data")
  case (SpaceAt sp)
  then show ?thesis using assms findSpace_SpaceAt(2,4) [OF SpaceAt]
    by (auto simp: waiting_def scanOctetCounted_def Let_def scannerHeadroom_def maxLenDigits_def split: list.splits if_splits)
qed (use assms in \<open>auto simp: waiting_def scanOctetCounted_def scannerHeadroom_def maxMessageBytes_def maxLenDigits_def
        simp del: findSpace.simps split: list.splits if_splits\<close>)

lemma afterReads_ok:
  "held_ok f [] \<Longrightarrow> carry = [] \<or> waiting f carry \<Longrightarrow>
   (case afterReads reads carry f of (carry', g) \<Rightarrow> held_ok g [] \<and> (carry' = [] \<or> waiting g carry'))"
proof (induction reads arbitrary: carry f)
  case (Cons c cs)
  obtain ts carry' g where sc: "scanAll (carry @ c) False f = (ts, carry', g)" by (cases "scanAll (carry @ c) False f")
  show ?case using Cons.IH [of g carry'] scanAll_keeps [OF Cons.prems(1) sc] sc by simp
qed simp

lemma new_held_ok: "held_ok newFrameSplitter []"
  by (simp add: held_ok_def splitter_ok_def newFrameSplitter_def)

text \<open>
  The scanner never runs into \<^verbatim>\<open>bufio.ErrTooLong\<close>: after any reads of any bytes, what it holds back
  is shorter than the buffer \<^verbatim>\<open>serveConn\<close> gives it, so there is room for the next read, and the line the
  splitter itself holds is within the message cap.
\<close>

theorem scanner_never_full:
  "case afterReads reads [] newFrameSplitter of
     (carry, f) \<Rightarrow> length carry < maxMessageBytes + scannerHeadroom \<and> length (fs_pending f) \<le> maxMessageBytes"
  using afterReads_ok [OF new_held_ok, of "[]" reads] waiting_length
  by (cases "afterReads reads [] newFrameSplitter") (auto simp: held_ok_def splitter_ok_def scannerHeadroom_def)

section \<open>Properties\<close>

definition connection :: "u8 list list \<Rightarrow> (u8 list \<times> bool) list \<times> nat" where
  "connection reads = (case scanReads reads [] newFrameSplitter of (ts, g) \<Rightarrow> (ts, fs_oversized g))"

lemma framing_stream:
  assumes "tame (concat reads)"
  shows "connection reads = (frameTokens (frames (concat reads)), oversizedCount (frames (concat reads)))"
proof -
  obtain ts g where sc: "scanReads reads [] newFrameSplitter = (ts, g)" by (cases "scanReads reads [] newFrameSplitter")
  have "resume newFrameSplitter s = frames s" for s by (simp add: resume_def newFrameSplitter_def)
  then show ?thesis
    using scanReads_refines [OF new_held_ok, of "[]" reads ts g] assms sc by (simp add: connection_def newFrameSplitter_def)
qed



text \<open>The excepted line: delivered when its LF comes with the same read as its CR, counted as oversized when it does not.\<close>

lemma crlf_cap_depends_on_reads:
  assumes "l = replicate maxMessageBytes 65"
  shows "connection [l @ [CR, LF]] = ([(l, False)], 0)" "connection [l @ [CR], [LF]] = ([], 1)"
proof -
  let ?f = "newFrameSplitter"
  have lf: "LF \<notin> set l" "length l = maxMessageBytes" using assms by auto
  have line: "takeWhile (\<lambda>x. x \<noteq> LF) (l @ xs) = l @ takeWhile (\<lambda>x. x \<noteq> LF) xs" for xs
    using lineOf_append(1) [OF lf(1)] by (simp add: lineOf_def)
  have idx: "IndexByte (l @ [CR, LF]) LF = Some (Suc maxMessageBytes)" "IndexByte (l @ [CR]) LF = None"
    using lf line by (auto simp: IndexByte_def)
  have ne: "l = 65 # replicate (maxMessageBytes - 1) 65" using assms by (simp add: maxMessageBytes_def flip: replicate_Suc)
  obtain xs ys where hd: "l @ [CR, LF] = 65 # xs" "l @ [CR] = 65 # ys" using ne by (metis append_Cons)
  have dig: "\<not> isDigit 65" by (simp add: isDigit_def)
  have "scanNewline (l @ [CR, LF]) False = (maxMessageBytes + 2, Some l, False, False)"
    using idx(1) lf by (simp add: scanNewline_def dropCR_def)
  then have "splitTurn (l @ [CR, LF]) False ?f = Return (maxMessageBytes + 2) (Some l) ?f"
    using hd(1) dig by (simp add: splitTurn_def scanFrame_def newFrameSplitter_def)
  then show "connection [l @ [CR, LF]] = ([(l, False)], 0)" using lf scanAll_EOF_none [of ?f]
    by (simp add: connection_def scanAll.simps [of "l @ _"] split_frame_def splitLoop.simps [of "l @ _"] newFrameSplitter_def)
  have "scanNewline (l @ [CR]) False = (maxMessageBytes + 1, None, True, True)"
    using idx(2) lf by (simp add: scanNewline_def)
  then have "splitTurn (l @ [CR]) False ?f = Continue (maxMessageBytes + 1) (?f\<lparr>fs_oversized := 1, fs_lineSkip := True\<rparr>)"
    using hd(2) dig by (simp add: splitTurn_def scanFrame_def newFrameSplitter_def)
  then have first: "scanAll (l @ [CR]) False ?f = ([], [], ?f\<lparr>fs_oversized := 1, fs_lineSkip := True\<rparr>)" using lf
    by (simp add: scanAll.simps [of "l @ _"] split_frame_def splitLoop.simps splitTurn_def newFrameSplitter_def IndexByte_def)
  have "scanAll [LF] False (?f\<lparr>fs_oversized := 1, fs_lineSkip := True\<rparr>) = ([], [], ?f\<lparr>fs_oversized := 1\<rparr>)"
    by (simp add: scanAll.simps [of "[LF]"] split_frame_def splitLoop.simps splitTurn_def newFrameSplitter_def IndexByte_def scanFrame_def)
  then show "connection [l @ [CR], [LF]] = ([], 1)" using first scanAll_EOF_none [of "?f\<lparr>fs_oversized := 1\<rparr>"]
    by (simp add: connection_def newFrameSplitter_def)
qed

end
