(* ===== verification/SyslogAssemble.thy ===== *)
theory SyslogAssemble
  imports SyslogFraming
begin

text \<open>
  Reassembly of multi-line messages on one connection (\<^verbatim>\<open>internal/logship/syslog/assemble.go\<close>) and the
  connection loop of the listener that feeds it (\<^verbatim>\<open>serveConn\<close> of \<^verbatim>\<open>listener.go\<close>). The calls of the two
  callbacks are recorded: \<open>as_emitted\<close> holds the messages handed on, \<open>as_truncated\<close> counts the messages that
  lost lines to the cap. The mutex serialises frames and idle ticks, so a run is a sequence of events.
\<close>

section \<open>The assembler\<close>

definition continuationWait :: duration where
  "continuationWait = 250 * millisecond_ns"

record assembler =
  as_buf :: "u8 list"
  as_last :: time
  as_full :: bool
  as_emitted :: "u8 list list"
  as_truncated :: nat

definition newAssembler :: assembler where
  "newAssembler = \<lparr>as_buf = [], as_last = 0, as_full = False, as_emitted = [], as_truncated = 0\<rparr>"

definition isContinuation :: "u8 list \<Rightarrow> bool" where
  "isContinuation line \<longleftrightarrow> line = [] \<or> hd line \<noteq> 60"

definition flushLocked :: "assembler \<Rightarrow> assembler" where
  "flushLocked a =
     (if as_buf a = [] then a
      else a\<lparr>as_buf := [], as_full := False, as_emitted := as_emitted a @ [as_buf a]\<rparr>)"

definition appendLocked :: "u8 list \<Rightarrow> time \<Rightarrow> assembler \<Rightarrow> assembler" where
  "appendLocked line now a =
     (if maxMessageBytes < length (as_buf a) + 1 + length line
      then (if as_full a then a else a\<lparr>as_full := True, as_truncated := Suc (as_truncated a)\<rparr>)
      else a\<lparr>as_buf := as_buf a @ [LF] @ line, as_last := now\<rparr>)"

definition addLine :: "u8 list \<Rightarrow> bool \<Rightarrow> time \<Rightarrow> assembler \<Rightarrow> assembler" where
  "addLine line octet now a =
     (if octet then (let b = flushLocked a in b\<lparr>as_emitted := as_emitted b @ [line]\<rparr>)
      else if as_buf a \<noteq> [] \<and> isContinuation line then appendLocked line now a
      else (flushLocked a)\<lparr>as_buf := line, as_last := now\<rparr>)"

definition flushIdle :: "duration \<Rightarrow> time \<Rightarrow> assembler \<Rightarrow> assembler" where
  "flushIdle d now a = (if as_buf a \<noteq> [] \<and> d \<le> time_Sub now (as_last a) then flushLocked a else a)"

section \<open>The connection loop\<close>

text \<open>
  What reaches the assembler of a connection: the frames of the scan loop, empty ones skipped, and the
  ticks of the idle flush, each with its reading of the clock; at the end the deferred close.
\<close>

datatype connEvent = Framed "u8 list" bool time | Tick time

fun connStep :: "connEvent \<Rightarrow> assembler \<Rightarrow> assembler" where
  "connStep (Framed line octet now) a = (if line = [] then a else addLine line octet now a)"
| "connStep (Tick now) a = flushIdle continuationWait now a"

definition serveConn :: "connEvent list \<Rightarrow> assembler" where
  "serveConn evs = flushLocked (fold connStep evs newAssembler)"

fun framedOf :: "connEvent list \<Rightarrow> (u8 list \<times> bool) list" where
  "framedOf [] = []"
| "framedOf (Framed line octet now # evs) = (if line = [] then framedOf evs else (line, octet) # framedOf evs)"
| "framedOf (Tick now # evs) = framedOf evs"

section \<open>Reassembly on the sequence of frames\<close>

definition continues :: "u8 list \<times> bool \<Rightarrow> bool" where
  "continues x \<longleftrightarrow> \<not> snd x \<and> isContinuation (fst x)"

text \<open>A message and its continuation lines, with the lines that no longer fit left out.\<close>

definition joinLines :: "u8 list \<Rightarrow> u8 list list \<Rightarrow> u8 list" where
  "joinLines l ls = foldl (\<lambda>b x. if maxMessageBytes < length b + 1 + length x then b else b @ [LF] @ x) l ls"

function messages :: "(u8 list \<times> bool) list \<Rightarrow> u8 list list" where
  "messages [] = []"
| "messages ((l, True) # xs) = l # messages xs"
| "messages ((l, False) # xs) = joinLines l (map fst (takeWhile continues xs)) # messages (dropWhile continues xs)"
  by pat_completeness auto

termination
  by (relation "measure length") (auto simp: length_dropWhile_le le_imp_less_Suc)

definition flat :: "u8 list list \<Rightarrow> u8 list" where
  "flat ms = concat (map (\<lambda>m. m @ [LF]) ms)"

lemma flat_simps [simp]: "flat [] = []" "flat (m # ms) = m @ [LF] @ flat ms" "flat (ms @ ns) = flat ms @ flat ns"
  by (simp_all add: flat_def)

lemmas asm_defs = addLine_def appendLocked_def flushLocked_def flushIdle_def Let_def

lemma joinLines_Cons: "joinLines l (x # xs) =
  joinLines (if maxMessageBytes < length l + 1 + length x then l else l @ [LF] @ x) xs"
  by (simp add: joinLines_def)

fun isTick :: "connEvent \<Rightarrow> bool" where
  "isTick (Tick now) = True"
| "isTick (Framed line octet now) = False"

text \<open>Without ticks, a run is the pending message, if there is one, and the reassembly of the rest.\<close>

definition remaining :: "assembler \<Rightarrow> (u8 list \<times> bool) list \<Rightarrow> u8 list list" where
  "remaining a xs =
     (if as_buf a = [] then messages xs
      else joinLines (as_buf a) (map fst (takeWhile continues xs)) # messages (dropWhile continues xs))"

lemma addLine_remaining:
  assumes "l \<noteq> []"
  shows "as_emitted (addLine l octet now a) @ remaining (addLine l octet now a) xs = as_emitted a @ remaining a ((l, octet) # xs)"
proof (cases "as_buf a = []")
  case True
  then show ?thesis using assms by (cases octet) (simp_all add: asm_defs remaining_def)
next
  case False
  consider "octet" | "\<not> octet" "isContinuation l" | "\<not> octet" "\<not> isContinuation l" by blast
  then show ?thesis
  proof cases
    case 2
    then show ?thesis using False assms by (simp add: asm_defs remaining_def continues_def joinLines_Cons)
  qed (use False assms in \<open>simp_all add: asm_defs remaining_def continues_def joinLines_def\<close>)
qed

lemma run_remaining:
  "list_all (\<lambda>e. \<not> isTick e) evs \<Longrightarrow>
   as_emitted (flushLocked (fold connStep evs a)) = as_emitted a @ remaining a (framedOf evs)"
proof (induction evs arbitrary: a)
  case Nil
  then show ?case by (simp add: flushLocked_def remaining_def joinLines_def)
next
  case (Cons e evs)
  then obtain l octet now where e: "e = Framed l octet now" by (cases e) auto
  then show ?case using Cons addLine_remaining [of l octet now a "framedOf evs"] by auto
qed

lemma assembler_run:
  "list_all (\<lambda>e. \<not> isTick e) evs \<Longrightarrow> as_emitted (serveConn evs) = messages (framedOf evs)"
  using run_remaining [of evs newAssembler] by (simp add: serveConn_def newAssembler_def remaining_def)

text \<open>
  Reassembly is the grouping of the frames: an octet-counted frame is a message by itself; a
  newline-framed line starts a message, the lines behind it that are no header are joined to it with the
  newline restored, as far as they fit the cap, and the next header or octet-counted frame ends it.
\<close>

theorem assembler_groups:
  assumes "list_all (\<lambda>e. \<not> isTick e) evs"
  shows "as_emitted (serveConn evs) = messages (framedOf evs)"
  by (rule assembler_run [OF assms])

theorem assembler_groups_witness:
  "as_emitted (serveConn [Framed [60, 97] False 1, Framed [98] False 2, Framed [] False 3, Framed [60] True 4, Framed [99] False 5]) =
     [[60, 97, 10, 98], [60], [99]]"
proof -
  let ?e = "[Framed [60, 97] False 1, Framed [98] False 2, Framed [] False 3, Framed [60] True 4, Framed [99] False 5]"
  have "list_all (\<lambda>e. \<not> isTick e) ?e" by simp
  from assembler_groups [OF this] show ?thesis
    by (simp add: continues_def isContinuation_def joinLines_def maxMessageBytes_def)
qed

section \<open>Runs with idle flushes\<close>

definition asm_flat :: "assembler \<Rightarrow> u8 list" where
  "asm_flat a = flat (as_emitted a) @ (if as_buf a = [] then [] else as_buf a @ [LF])"

lemma asm_flat_flush: "asm_flat (flushLocked a) = asm_flat a" "as_truncated (flushLocked a) = as_truncated a"
  by (simp_all add: asm_flat_def flushLocked_def)

lemma connStep_truncated: "as_truncated a \<le> as_truncated (connStep e a)"
  by (cases e) (auto simp: asm_defs)

lemma fold_truncated: "as_truncated a \<le> as_truncated (fold connStep evs a)"
proof (induction evs arbitrary: a)
  case (Cons e evs)
  show ?case using connStep_truncated [of a e] Cons.IH [of "connStep e a"] by simp
qed simp

definition full_ok :: "assembler \<Rightarrow> bool" where
  "full_ok a \<longleftrightarrow> (as_full a \<longrightarrow> 0 < as_truncated a)"

lemma new_assembler_flat: "asm_flat newAssembler = [] \<and> full_ok newAssembler"
  by (simp add: asm_flat_def full_ok_def newAssembler_def)

lemma connStep_flat:
  assumes "full_ok a" "as_truncated (connStep e a) = 0"
  shows "asm_flat (connStep e a) = asm_flat a @ flat (map fst (framedOf [e])) \<and> full_ok (connStep e a)"
  using assms
  by (cases e) (auto simp: asm_defs asm_flat_def full_ok_def split: if_splits)

lemma run_flat:
  "full_ok a \<Longrightarrow> as_truncated (fold connStep evs a) = 0 \<Longrightarrow>
   asm_flat (fold connStep evs a) = asm_flat a @ flat (map fst (framedOf evs))"
proof (induction evs arbitrary: a)
  case (Cons e evs)
  have "as_truncated (connStep e a) = 0" using Cons.prems(2) fold_truncated [of "connStep e a" evs] by simp
  note step = connStep_flat [OF Cons.prems(1) this]
  have "framedOf (e # evs) = framedOf [e] @ framedOf evs" by (cases e) auto
  then show ?case using Cons.IH [of "connStep e a"] Cons.prems(2) step by simp
qed simp

text \<open>
  The idle flush can only move the boundary between messages: whatever the ticks, when no line was
  lost to the cap the messages handed on are, byte for byte and in order, the frames received.
\<close>

theorem assembler_conserves:
  assumes "as_truncated (serveConn evs) = 0"
  shows "flat (as_emitted (serveConn evs)) = flat (map fst (framedOf evs))"
proof -
  have "as_truncated (fold connStep evs newAssembler) = 0" using assms by (simp add: serveConn_def asm_flat_flush)
  then have "asm_flat (serveConn evs) = flat (map fst (framedOf evs))"
    using run_flat [of newAssembler evs] new_assembler_flat by (simp add: serveConn_def asm_flat_flush)
  moreover have "as_buf (serveConn evs) = []" by (simp add: serveConn_def flushLocked_def)
  ultimately show ?thesis by (simp add: asm_flat_def)
qed

theorem assembler_conserves_witness:
  "as_truncated (serveConn [Framed [60, 97] False 0, Tick 300000000, Framed [98] False 400000000]) = 0 \<and>
   flat (as_emitted (serveConn [Framed [60, 97] False 0, Tick 300000000, Framed [98] False 400000000])) = [60, 97, 10, 98, 10]"
proof -
  let ?e = "[Framed [60, 97] False 0, Tick 300000000, Framed [98] False 400000000]"
  have "as_truncated (serveConn ?e) = 0"
    by (simp add: serveConn_def newAssembler_def asm_defs isContinuation_def maxMessageBytes_def)
  from assembler_conserves [OF this] this show ?thesis by simp
qed

section \<open>The cap\<close>

lemma dropCR_length: "length (dropCR b) \<le> length b"
  by (simp add: dropCR_def)

lemma scanFrame_token_cap:
  assumes "sr_token (scanFrame data atEOF) = Some t"
  shows "length t \<le> maxMessageBytes"
proof -
  have nl: "scanNewline data atEOF = (a, Some t, over, part) \<Longrightarrow> length t \<le> maxMessageBytes" for a over part
    using dropCR_length [of data] by (cases "IndexByte data LF") (auto simp: scanNewline_def Let_def split: if_splits)
  have oc: "scanOctetCounted data atEOF = Some (a, Some t, sk, over) \<Longrightarrow> length t \<le> maxMessageBytes" for a sk over
    by (cases "findSpace 0 data") (auto simp: scanOctetCounted_def Let_def min_def split: if_splits)
  show ?thesis using assms nl oc by (auto simp: scanFrame_def split: list.splits option.splits if_splits prod.splits)
qed

lemma splitTurn_token_cap: "splitTurn data atEOF f = Return n (Some t) g \<Longrightarrow> length t \<le> maxMessageBytes"
  using scanFrame_token_cap [of data atEOF t] dropCR_length [of "fs_pending f @ data"]
  by (auto simp: splitTurn_def accumTurn_def Let_def split: if_splits option.splits)

lemma splitLoop_token_cap: "splitLoop data atEOF off f = (adv, Some t, g) \<Longrightarrow> length t \<le> maxMessageBytes"
proof (induction data atEOF off f arbitrary: adv t g rule: splitLoop.induct)
  case (1 data atEOF off f)
  then show ?case using splitTurn_token_cap [of data atEOF f _ t g]
    by (cases "splitTurn data atEOF f") (auto simp: splitLoop.simps [of data])
qed

lemma scanAll_token_cap:
  "scanAll data atEOF f = (ts, carry, g) \<Longrightarrow> list_all (\<lambda>x. length (fst x) \<le> maxMessageBytes) ts"
proof (induction data atEOF f arbitrary: ts carry g rule: scanAll.induct)
  case (1 data atEOF f)
  obtain adv tok h where sp: "split_frame data atEOF f = (adv, tok, h)" by (cases "split_frame data atEOF f")
  show ?case
  proof (cases "tok = None \<or> data = [] \<and> \<not> atEOF")
    case True
    then show ?thesis using "1.prems" sp by (cases "data = [] \<and> \<not> atEOF") (auto simp: scanAll.simps [of data])
  next
    case False
    then obtain t where t: "tok = Some t" by auto
    obtain us c h' where rec: "scanAll (drop adv data) atEOF h = (us, c, h')" by (cases "scanAll (drop adv data) atEOF h")
    have "length t \<le> maxMessageBytes" using sp t splitLoop_token_cap by (simp add: split_frame_def)
    then show ?thesis using "1.prems" "1.IH" [OF _ sp [symmetric] refl t rec] False sp t rec
      by (auto simp: scanAll.simps [of data])
  qed
qed

lemma scanReads_token_cap: "list_all (\<lambda>x. length (fst x) \<le> maxMessageBytes) (fst (scanReads reads carry f))"
proof (induction reads arbitrary: carry f)
  case Nil
  then show ?case using scanAll_token_cap [of carry True f] by (auto split: prod.splits)
next
  case (Cons c cs)
  obtain ts carry' g where sc: "scanAll (carry @ c) False f = (ts, carry', g)" by (cases "scanAll (carry @ c) False f")
  show ?case using Cons.IH [of carry' g] scanAll_token_cap [OF sc] sc by (auto split: prod.splits)
qed

definition asm_capped :: "assembler \<Rightarrow> bool" where
  "asm_capped a \<longleftrightarrow> list_all (\<lambda>m. length m \<le> maxMessageBytes) (as_buf a # as_emitted a)"

lemma connStep_capped:
  "asm_capped a \<Longrightarrow> list_all (\<lambda>x. length (fst x) \<le> maxMessageBytes) (framedOf [e]) \<Longrightarrow> asm_capped (connStep e a)"
  by (cases e) (auto simp: asm_capped_def asm_defs split: if_splits)

lemma run_capped:
  "asm_capped a \<Longrightarrow> list_all (\<lambda>x. length (fst x) \<le> maxMessageBytes) (framedOf evs) \<Longrightarrow> asm_capped (fold connStep evs a)"
proof (induction evs arbitrary: a)
  case (Cons e evs)
  have "framedOf (e # evs) = framedOf [e] @ framedOf evs" by (cases e) auto
  then show ?case using Cons connStep_capped [of a e] by auto
qed simp

section \<open>From the bytes of a connection to its messages\<close>

text \<open>The events of a connection that receives \<open>reads\<close>: the frames of the scanner, ticks anywhere between them.\<close>

definition conn_events :: "u8 list list \<Rightarrow> connEvent list \<Rightarrow> bool" where
  "conn_events reads evs \<longleftrightarrow> framedOf evs = filter (\<lambda>x. fst x \<noteq> []) (fst (connection reads))"

text \<open>
  No message handed to the parser is longer than the cap, whatever bytes a peer sends, however they are
  cut into reads and whenever the idle flush ticks.
\<close>

theorem message_bounded:
  assumes "conn_events reads evs"
  shows "list_all (\<lambda>m. length m \<le> maxMessageBytes) (as_emitted (serveConn evs))"
proof -
  have "list_all (\<lambda>x. length (fst x) \<le> maxMessageBytes) (framedOf evs)"
    using assms scanReads_token_cap [of reads "[]" newFrameSplitter]
    by (auto simp: conn_events_def connection_def list_all_iff split: prod.splits)
  then have "asm_capped (fold connStep evs newAssembler)"
    by (rule run_capped [rotated]) (simp add: asm_capped_def newAssembler_def)
  then show ?thesis by (auto simp: serveConn_def flushLocked_def asm_capped_def)
qed

lemma conn_messages:
  assumes "conn_events reads evs" "tame (concat reads)" "list_all (\<lambda>e. \<not> isTick e) evs"
  shows "as_emitted (serveConn evs) = messages (filter (\<lambda>x. fst x \<noteq> []) (frameTokens (frames (concat reads))))"
  using assms assembler_run [OF assms(3)] framing_stream [OF assms(2)] by (simp add: conn_events_def)

text \<open>
  The messages of a connection are a function of the bytes it received: framing and reassembly of the
  whole stream, however it was cut into reads, when no idle flush comes between.
\<close>

theorem connection_messages:
  assumes "conn_events reads evs" "tame (concat reads)" "list_all (\<lambda>e. \<not> isTick e) evs"
  shows "as_emitted (serveConn evs) = messages (filter (\<lambda>x. fst x \<noteq> []) (frameTokens (frames (concat reads))))"
  by (rule conn_messages [OF assms])

text \<open>A header and its continuation line, cut in the middle of the header.\<close>

lemma sample_frames: "frames [60, 97, 10, 98, 10] = [Frame False [60, 97], Frame False [98]]"
  by (simp add: frames.simps octetFrame_def isDigit_def maxMessageBytes_def lineItems_def lineOf_def afterLine_def dropCR_def Let_def)

lemma sample_events: "conn_events [[60], [97, 10, 98, 10]] [Framed [60, 97] False 0, Framed [98] False 0]"
proof -
  have "tame (concat [[60], [97, 10, 98, 10]])" by (rule tame_short) (simp add: maxMessageBytes_def)
  from framing_stream [OF this] show ?thesis by (simp add: conn_events_def sample_frames)
qed

theorem message_bounded_witness:
  "list_all (\<lambda>m. length m \<le> maxMessageBytes) (as_emitted (serveConn [Framed [60, 97] False 0, Framed [98] False 0])) \<and>
   conn_events [[60], [97, 10, 98, 10]] [Framed [60, 97] False 0, Framed [98] False 0]"
  using message_bounded [OF sample_events] sample_events by simp

theorem connection_messages_witness:
  "as_emitted (serveConn [Framed [60, 97] False 0, Framed [98] False 0]) = [[60, 97, 10, 98]]"
proof -
  have "tame (concat [[60], [97, 10, 98, 10]])" by (rule tame_short) (simp add: maxMessageBytes_def)
  from connection_messages [OF sample_events this] show ?thesis
    by (simp add: sample_frames continues_def isContinuation_def joinLines_def maxMessageBytes_def)
qed

text \<open>
  The cap can leave a hole: a line that does not fit is left out, a shorter line behind it is still joined,
  although \<open>as_full\<close> is set and documented to discard what follows.
\<close>

lemma cap_leaves_hole:
  assumes "a = 60 # replicate (maxMessageBytes - 3) 65"
  shows "as_emitted (serveConn [Framed a False 0, Framed [66, 66] False 0, Framed [67] False 0]) = [a @ [LF, 67]]"
proof -
  have len: "length a = maxMessageBytes - 2" using assms by (simp add: maxMessageBytes_def)
  have "as_emitted (serveConn [Framed a False 0, Framed [66, 66] False 0, Framed [67] False 0]) =
      messages [(a, False), ([66, 66], False), ([67], False)]"
    using assms by (subst assembler_run) auto
  then show ?thesis using len by (simp add: continues_def isContinuation_def joinLines_def maxMessageBytes_def)
qed

end
