(* ===== verification/SyslogSource.thy ===== *)
theory SyslogSource
  imports SyslogDerive CaptureShape SyslogAssemble
begin

text \<open>
  The handler of one received line (\<^verbatim>\<open>handle\<close> of \<^verbatim>\<open>internal/logship/syslog/source.go\<close>): redaction, envelope,
  the confidentiality boundary for FreeRADIUS, the program processor, filter, dispatch, debug capture,
  derived counters, sampling and the record emitted. Everything it does outside is recorded in its outcome:
  records emitted, rejections, parse errors, captures, coverage misses, observations and enrichment misses.

  Arguments stand for the readings of the clock, the enrichment snapshot and the DNS answer cache at that
  moment, for \<^verbatim>\<open>time.Parse\<close> and \<^verbatim>\<open>Time.Format\<close>, and for the registered program processor.
\<close>

section \<open>The source\<close>

text \<open>A processor takes a line (the records it emits itself) or declines it.\<close>

record programProcessor =
  pp_Handles :: "string \<Rightarrow> bool"
  pp_Process :: "Envelope \<Rightarrow> addr \<Rightarrow> int list \<Rightarrow> LogRecord list option"

record syslogSource =
  so_running :: bool
  so_dispatch :: dispatch
  so_filter :: "LogFilter option"
  so_sink :: "observation \<Rightarrow> bool"
  so_sample :: bool
  so_sampledAttr :: bool
  so_capture :: bool
  so_ports :: "int list"
  so_proc :: "programProcessor option"
  so_parseTime :: "string \<Rightarrow> time option"
  so_fmtTime :: "time \<Rightarrow> string"
  so_loc :: int

record outcome =
  ho_emitted :: "LogRecord list"
  ho_taken :: bool
  ho_rejected :: "string list"
  ho_parseErrors :: "string list"
  ho_captured :: "(string \<times> (string \<times> string) list) list"
  ho_unparsed :: "string list"
  ho_domains :: "string list"
  ho_observed :: "observation list"
  ho_misses :: "string list"
  ho_dns :: "DNSCache option"

definition noOutcome :: "DNSCache option \<Rightarrow> outcome" where
  "noOutcome dns = \<lparr>ho_emitted = [], ho_taken = False, ho_rejected = [], ho_parseErrors = [], ho_captured = [], ho_unparsed = [],
     ho_domains = [], ho_observed = [], ho_misses = [], ho_dns = dns\<rparr>"

definition envelopeShapeKey :: string where
  "envelopeShapeKey = ''<envelope>''"

text \<open>The line is kept as sampled, or dropped after it was counted.\<close>

definition sampleStage :: "syslogSource \<Rightarrow> string \<Rightarrow> LogRecord \<Rightarrow> bool \<Rightarrow> outcome \<Rightarrow> outcome" where
  "sampleStage s program rec counted out =
     (if so_sample s then
        (if \<not> sampleKeep program rec counted then out\<lparr>ho_rejected := ho_rejected out @ [''sampled'']\<rparr>
         else
           let rec = (if so_sampledAttr s \<and> counted
                      then rec\<lparr>lr_Attributes := Some (AList.update ''sampled'' ''true'' (rec_attrs rec))\<rparr> else rec)
           in out\<lparr>ho_emitted := ho_emitted out @ [rec]\<rparr>)
      else out\<lparr>ho_emitted := ho_emitted out @ [rec]\<rparr>)"

text \<open>Debug capture and the coverage counter for a line no grammar knows.\<close>

definition unknownStage :: "syslogSource \<Rightarrow> Envelope \<Rightarrow> string \<Rightarrow> bool \<Rightarrow> outcome \<Rightarrow> outcome" where
  "unknownStage s env line unknown out =
     (let out = (if unknown \<and> so_capture s then
                   out\<lparr>ho_captured := ho_captured out @
                     [(env_Program env @ ''|'' @ NormaliseShape (env_Message env),
                       [(''program'', env_Program env), (''subsystem'', subsystemFor (env_Program env)),
                        (''severity'', FormatInt (env_Severity env)), (''message'', env_Message env), (''raw'', line)])]\<rparr>
                 else out);
          di = so_dispatch s
      in if unknown \<and> (parserFor (di_registry di) (env_Program env) \<noteq> None \<or> rulesFor (di_captured di) (env_Program env) \<noteq> [])
         then out\<lparr>ho_unparsed := ho_unparsed out @ [subsystemFor (env_Program env)]\<rparr> else out)"

text \<open>The domain of a firewall line's destination, from the DNS answer cache.\<close>

definition domainStage :: "Envelope \<Rightarrow> bool \<Rightarrow> LogRecord \<Rightarrow> time \<Rightarrow> outcome \<Rightarrow> LogRecord \<times> outcome" where
  "domainStage env parsed rec now out =
     (if parsed \<and> env_Program env = ''filterlog'' then
        (case enrichFilterlogDomain rec (ho_dns out) now of
           (rec, domain, dns) \<Rightarrow> (rec, out\<lparr>ho_dns := dns, ho_domains := ho_domains out @ (if domain \<noteq> [] then [domain] else [])\<rparr>))
      else (rec, out))"

definition countStage :: "syslogSource \<Rightarrow> Envelope \<Rightarrow> LogRecord \<Rightarrow> outcome \<Rightarrow> outcome" where
  "countStage s env rec out =
     (let (obs, counted) = deriveCounters (so_sink s) (env_Program env) (rec_attrs rec)
      in sampleStage s (env_Program env) rec counted (out\<lparr>ho_observed := ho_observed out @ obs\<rparr>))"

definition dispatchStage :: "syslogSource \<Rightarrow> Envelope \<Rightarrow> string \<Rightarrow> time \<Rightarrow> Snapshot option \<Rightarrow> outcome \<Rightarrow> outcome" where
  "dispatchStage s env line now snap out =
     (let (rec, parsed, misses) = syslogRecord (so_dispatch s) env snap;
          unknown = (\<not> parsed \<and> attr_at (rec_attrs rec) ''syslog.parse_status'' \<noteq> ''known'');
          out = unknownStage s env line unknown (out\<lparr>ho_misses := ho_misses out @ misses\<rparr>);
          (rec, out) = domainStage env parsed rec now out
      in countStage s env rec out)"

text \<open>From a safe envelope on.\<close>

definition handleEnvelope ::
  "syslogSource \<Rightarrow> Envelope \<Rightarrow> string \<Rightarrow> addr \<Rightarrow> time \<Rightarrow> Snapshot option \<Rightarrow> outcome \<Rightarrow> outcome" where
  "handleEnvelope s env line peer now snap out =
     (let (env, line) = (case sanitizeFreeRADIUS (so_fmtTime s) env line of Some safe \<Rightarrow> safe | None \<Rightarrow> (env, line));
          taken = (case so_proc s of
                     None \<Rightarrow> None
                   | Some p \<Rightarrow> if pp_Handles p (env_Program env) then pp_Process p env peer (so_ports s) else None)
      in case taken of
           Some recs \<Rightarrow> out\<lparr>ho_emitted := ho_emitted out @ recs, ho_taken := True\<rparr>
         | None \<Rightarrow>
             if filter_Enabled (so_filter s) \<and> \<not> filter_Allow (so_filter s) (env_Program env) (env_Severity env)
             then out\<lparr>ho_rejected := ho_rejected out @ [''filtered'']\<rparr>
             else dispatchStage s env line now snap out)"

definition handle ::
  "syslogSource \<Rightarrow> string \<Rightarrow> addr \<Rightarrow> time \<Rightarrow> time \<Rightarrow> Snapshot option \<Rightarrow> DNSCache option \<Rightarrow> outcome" where
  "handle s line peer now now2 snap dns =
     (let out = noOutcome dns in
      if \<not> so_running s then out
      else
        let line = redactAPIAuthFailure line in
        case ParseEnvelope (so_parseTime s) line now (so_loc s) of
          Inr env \<Rightarrow> handleEnvelope s env line peer now snap out
        | Inl e \<Rightarrow>
            let out = out\<lparr>ho_parseErrors := [''envelope'']\<rparr> in
            (case sanitizeMalformedFreeRADIUS (so_fmtTime s) line now of
               Some (env, safe) \<Rightarrow> handleEnvelope s env safe peer now snap out
             | None \<Rightarrow>
                 let out = (if so_capture s then
                              out\<lparr>ho_captured := [(envelopeShapeKey @ ''|'' @ NormaliseShape line, [(''parse_error'', ''envelope''), (''raw'', line)])]\<rparr>
                            else out)
                 in out\<lparr>ho_emitted := [\<lparr>lr_Timestamp = now2, lr_Body = line, lr_Attributes = None,
                                         lr_Severity = SeverityInfo, lr_Source = []\<rparr>]\<rparr>))"

section \<open>Accounting\<close>

definition line_settled :: "outcome \<Rightarrow> bool" where
  "line_settled out \<longleftrightarrow> (if ho_taken out then ho_rejected out = [] else length (ho_emitted out) + length (ho_rejected out) = 1)"

lemma sampleStage_fields:
  "ho_taken (sampleStage s p rec counted out) = ho_taken out"
  "length (ho_emitted (sampleStage s p rec counted out)) + length (ho_rejected (sampleStage s p rec counted out)) =
     Suc (length (ho_emitted out) + length (ho_rejected out))"
  by (auto simp: sampleStage_def Let_def)

lemma unknownStage_fields [simp]:
  "ho_taken (unknownStage s env line u out) = ho_taken out" "ho_emitted (unknownStage s env line u out) = ho_emitted out"
  "ho_rejected (unknownStage s env line u out) = ho_rejected out" "ho_dns (unknownStage s env line u out) = ho_dns out"
  "ho_observed (unknownStage s env line u out) = ho_observed out"
  by (auto simp: unknownStage_def Let_def)

lemma domainStage_fields [simp]:
  "ho_taken (snd (domainStage env parsed rec now out)) = ho_taken out"
  "ho_emitted (snd (domainStage env parsed rec now out)) = ho_emitted out"
  "ho_rejected (snd (domainStage env parsed rec now out)) = ho_rejected out"
  "ho_observed (snd (domainStage env parsed rec now out)) = ho_observed out"
  by (auto simp: domainStage_def split: prod.split)

lemma countStage_fields:
  "ho_taken (countStage s env rec out) = ho_taken out"
  "length (ho_emitted (countStage s env rec out)) + length (ho_rejected (countStage s env rec out)) =
     Suc (length (ho_emitted out) + length (ho_rejected out))"
  by (simp_all add: countStage_def sampleStage_fields split: prod.split)

lemma dispatchStage_ends:
  obtains rec out' where "dispatchStage s env line now snap out = countStage s env rec out'" "ho_taken out' = ho_taken out"
    "ho_emitted out' = ho_emitted out" "ho_rejected out' = ho_rejected out"
proof -
  obtain rec parsed misses where b: "syslogRecord (so_dispatch s) env snap = (rec, parsed, misses)"
    by (cases "syslogRecord (so_dispatch s) env snap")
  let ?o = "unknownStage s env line (\<not> parsed \<and> attr_at (rec_attrs rec) ''syslog.parse_status'' \<noteq> ''known'') (out\<lparr>ho_misses := ho_misses out @ misses\<rparr>)"
  have "dispatchStage s env line now snap out =
      countStage s env (fst (domainStage env parsed rec now ?o)) (snd (domainStage env parsed rec now ?o))"
    by (simp add: dispatchStage_def b Let_def split: prod.split)
  then show ?thesis by (rule that) simp_all
qed

lemma handleEnvelope_cases:
  obtains (Taken) recs where "handleEnvelope s env line peer now snap out = out\<lparr>ho_emitted := ho_emitted out @ recs, ho_taken := True\<rparr>"
  | (Filtered) "handleEnvelope s env line peer now snap out = out\<lparr>ho_rejected := ho_rejected out @ [''filtered'']\<rparr>" "filter_Enabled (so_filter s)"
  | (Dispatched) e l where "handleEnvelope s env line peer now snap out = dispatchStage s e l now snap out"
proof -
  obtain e l where safe: "(case sanitizeFreeRADIUS (so_fmtTime s) env line of Some safe \<Rightarrow> safe | None \<Rightarrow> (env, line)) = (e, l)" by (metis surj_pair)
  define taken where "taken = (case so_proc s of None \<Rightarrow> None
    | Some p \<Rightarrow> if pp_Handles p (env_Program e) then pp_Process p e peer (so_ports s) else None)"
  have h: "handleEnvelope s env line peer now snap out =
     (case taken of Some recs \<Rightarrow> out\<lparr>ho_emitted := ho_emitted out @ recs, ho_taken := True\<rparr>
      | None \<Rightarrow> if filter_Enabled (so_filter s) \<and> \<not> filter_Allow (so_filter s) (env_Program e) (env_Severity e)
          then out\<lparr>ho_rejected := ho_rejected out @ [''filtered'']\<rparr> else dispatchStage s e l now snap out)"
    unfolding handleEnvelope_def Let_def safe taken_def by simp
  show ?thesis
  proof (cases taken)
    case (Some recs)
    then show ?thesis using h Taken by simp
  next
    case None
    then show ?thesis using h Filtered Dispatched by (auto split: if_splits)
  qed
qed

lemma handleEnvelope_settled:
  assumes "ho_emitted out = []" "ho_rejected out = []" "\<not> ho_taken out"
  shows "line_settled (handleEnvelope s env line peer now snap out)"
proof (cases s env line peer now snap out rule: handleEnvelope_cases)
  case (Dispatched e l)
  obtain rec out' where "dispatchStage s e l now snap out = countStage s e rec out'" "ho_taken out' = ho_taken out"
    "ho_emitted out' = ho_emitted out" "ho_rejected out' = ho_rejected out" by (rule dispatchStage_ends)
  then show ?thesis using Dispatched assms countStage_fields [of s e rec out'] by (simp add: line_settled_def)
qed (use assms in \<open>auto simp: line_settled_def\<close>)

text \<open>A rejection has its cause: the filter, or sampling of a line the sink has counted.\<close>

definition justified :: "syslogSource \<Rightarrow> outcome \<Rightarrow> bool" where
  "justified s out \<longleftrightarrow> list_all (\<lambda>r. r = ''filtered'' \<and> filter_Enabled (so_filter s) \<or>
     r = ''sampled'' \<and> so_sample s \<and> list_ex (so_sink s) (ho_observed out)) (ho_rejected out)"

lemma sampleStage_justified:
  assumes "justified s out" "counted \<longrightarrow> list_ex (so_sink s) (ho_observed out)"
  shows "justified s (sampleStage s p rec counted out)"
  using assms by (auto simp: sampleStage_def justified_def sampleKeep_def Let_def split: if_splits)

lemma deriveCounters_counted: "deriveCounters sink p m = (obs, counted) \<Longrightarrow> counted \<Longrightarrow> list_ex sink obs"
  by (auto simp: deriveCounters_def split: option.splits)

lemma countStage_justified:
  assumes "ho_rejected out = []"
  shows "justified s (countStage s env rec out)"
proof -
  obtain obs counted where o: "deriveCounters (so_sink s) (env_Program env) (rec_attrs rec) = (obs, counted)"
    by (cases "deriveCounters (so_sink s) (env_Program env) (rec_attrs rec)")
  show ?thesis using deriveCounters_counted [OF o] assms
    by (simp add: countStage_def o sampleStage_justified justified_def [of s "ho_observed_update _ _"])
qed

lemma dispatchStage_justified:
  "ho_rejected out = [] \<Longrightarrow> justified s (dispatchStage s env line now snap out)"
  by (metis dispatchStage_ends countStage_justified)

lemma handleEnvelope_justified:
  assumes "ho_rejected out = []"
  shows "justified s (handleEnvelope s env line peer now snap out)"
proof (cases s env line peer now snap out rule: handleEnvelope_cases)
  case (Dispatched e l)
  then show ?thesis using dispatchStage_justified [OF assms] by simp
qed (use assms in \<open>auto simp: justified_def\<close>)

lemma handle_cases:
  assumes "so_running s"
    and "\<And>env l out. ho_emitted out = [] \<Longrightarrow> ho_rejected out = [] \<Longrightarrow> \<not> ho_taken out \<Longrightarrow> P (handleEnvelope s env l peer now snap out)"
    and "\<And>out. length (ho_emitted out) = 1 \<Longrightarrow> ho_rejected out = [] \<Longrightarrow> \<not> ho_taken out \<Longrightarrow> P out"
  shows "P (handle s line peer now now2 snap dns)"
proof (cases "ParseEnvelope (so_parseTime s) (redactAPIAuthFailure line) now (so_loc s)")
  case (Inr env)
  then show ?thesis using assms(1,2) by (simp add: handle_def Let_def noOutcome_def)
next
  case (Inl e)
  then show ?thesis using assms
    by (cases "sanitizeMalformedFreeRADIUS (so_fmtTime s) (redactAPIAuthFailure line) now")
      (auto simp: handle_def Let_def noOutcome_def)
qed

lemma handle_settled:
  assumes "so_running s"
  shows "line_settled (handle s line peer now now2 snap dns) \<and> justified s (handle s line peer now now2 snap dns)"
proof (rule handle_cases [OF assms])
  fix env l and out :: outcome
  assume "ho_emitted out = []" "ho_rejected out = []" "\<not> ho_taken out"
  then show "line_settled (handleEnvelope s env l peer now snap out) \<and> justified s (handleEnvelope s env l peer now snap out)"
    by (simp only: handleEnvelope_settled handleEnvelope_justified simp_thms)
qed (auto simp: line_settled_def justified_def)

text \<open>
  (C20) No line is lost silently: unless the program processor took it, every line handed to a running
  source is either emitted as exactly one record or rejected exactly once, and a rejection is asked for: by
  the filter, or by sampling, and then only of a line a derived counter has counted.
\<close>

theorem line_accounted:
  assumes "so_running s"
  shows "line_settled (handle s line peer now now2 snap dns) \<and> justified s (handle s line peer now now2 snap dns)"
  by (rule handle_settled [OF assms])

definition sampleSource :: syslogSource where
  "sampleSource = \<lparr>so_running = True,
     so_dispatch = \<lparr>di_registry = \<lparr>pr_parsers = [(''filterlog'', parseFilterlog None), (''radiusd'', parseFreeRADIUS)], pr_prefixes = [],
         pr_bodyPrograms = [], pr_bodyPrefixes = []\<rparr>, di_captured = [], di_known = [],
       di_patterns = \<lparr>px_ips = (\<lambda>_. []), px_macLike = (\<lambda>_. False), px_devices = (\<lambda>_. []), px_uuids = (\<lambda>_. [])\<rparr>,
       di_perQueryLine = (\<lambda>_. False), di_perQuery = False\<rparr>,
     so_filter = None, so_sink = (\<lambda>_. True), so_sample = False, so_sampledAttr = False, so_capture = True, so_ports = [514],
     so_proc = None, so_parseTime = (\<lambda>_. None), so_fmtTime = (\<lambda>_. ''-''), so_loc = 0\<rparr>"

theorem line_accounted_witness:
  "so_running sampleSource \<and> line_settled (handle sampleSource ''no header'' AddrNone 0 0 None None) \<and>
   justified sampleSource (handle sampleSource ''no header'' AddrNone 0 0 None None)"
proof -
  have "so_running sampleSource" by (simp add: sampleSource_def)
  from line_accounted [OF this] this show ?thesis by simp
qed

section \<open>Confidentiality\<close>

text \<open>
  What of a FreeRADIUS line may influence anything outside: a time stamp, a priority and which of three fixed messages it
  amounts to. The outcome below is a function of these and of the source alone: no byte of a line is among its arguments.
\<close>

definition radiusOutcome ::
  "syslogSource \<Rightarrow> string list \<Rightarrow> time \<Rightarrow> int \<Rightarrow> int \<Rightarrow> string \<Rightarrow> addr \<Rightarrow> time \<Rightarrow> Snapshot option \<Rightarrow> DNSCache option \<Rightarrow> outcome" where
  "radiusOutcome s errs ts facility severity m peer now snap dns =
     handleEnvelope s \<lparr>env_Timestamp = ts, env_Hostname = [], env_Program = ''radiusd'', env_PID = [], env_Facility = facility,
       env_Severity = severity, env_Message = m\<rparr> [] peer now snap ((noOutcome dns)\<lparr>ho_parseErrors := errs\<rparr>)"

text \<open>A header that names \<^verbatim>\<open>radiusd\<close> as its program, in either dialect, whatever follows it.\<close>

definition token :: "string \<Rightarrow> bool" where
  "token w \<longleftrightarrow> w \<noteq> [] \<and> list_all nonSpace w"

definition stampShape :: "(char \<Rightarrow> bool) list" where
  "stampShape = [\<lambda>c. CHR ''A'' \<le> c \<and> c \<le> CHR ''Z'', \<lambda>c. CHR ''a'' \<le> c \<and> c \<le> CHR ''z'', \<lambda>c. CHR ''a'' \<le> c \<and> c \<le> CHR ''z'',
     \<lambda>c. c = CHR '' '', \<lambda>c. c = CHR '' '' \<or> is_digit c, is_digit, \<lambda>c. c = CHR '' '', is_digit, is_digit, \<lambda>c. c = CHR '':'',
     is_digit, is_digit, \<lambda>c. c = CHR '':'', is_digit, is_digit]"

definition radiusHeader :: "string \<Rightarrow> bool" where
  "radiusHeader b \<longleftrightarrow>
     (\<exists>ts host tail. b = ''1 '' @ ts @ '' '' @ host @ '' radiusd'' @ tail \<and> token ts \<and> token host \<and> (tail = [] \<or> hd tail = CHR '' '')) \<or>
     (\<exists>st host pid tail. b = st @ '' '' @ host @ '' radiusd'' @ pid @ '':'' @ tail \<and> list_all2 (\<lambda>p c. p c) stampShape st \<and> token host \<and>
        (pid = [] \<or> (\<exists>ds. pid = ''['' @ ds @ '']'' \<and> ds \<noteq> [] \<and> list_all is_digit ds)))"

lemma afterWord_token: "token w \<Longrightarrow> afterWord (w @ CHR '' '' # r) = Some r"
proof -
  assume "token w"
  then have "takeWhile nonSpace (w @ CHR '' '' # r) = w" "dropWhile nonSpace (w @ CHR '' '' # r) = CHR '' '' # r" "w \<noteq> []"
    by (auto simp: token_def list_all_iff takeWhile_append dropWhile_append nonSpace_def)
  then show ?thesis by (simp add: afterWord_def hasPrefix_def)
qed

lemma recognised_5424:
  assumes "token ts" "token host" "tail = [] \<or> hd tail = CHR '' ''"
  shows "reMalformedFreeRADIUS5424 (''1 '' @ ts @ '' '' @ host @ '' radiusd'' @ tail)"
  using assms afterWord_token [OF assms(1), of "host @ '' radiusd'' @ tail"] afterWord_token [OF assms(2), of "''radiusd'' @ tail"]
  by (cases tail) (auto simp: reMalformedFreeRADIUS5424_def hasPrefix_def)

lemma recognised_3164:
  assumes "list_all2 (\<lambda>p c. p c) stampShape st" "token host" "pid = [] \<or> (\<exists>ds. pid = ''['' @ ds @ '']'' \<and> ds \<noteq> [] \<and> list_all is_digit ds)"
  shows "reMalformedFreeRADIUS3164 (st @ '' '' @ host @ '' radiusd'' @ pid @ '':'' @ tail)"
proof -
  obtain c0 c1 c2 c3 c4 c5 c6 c7 c8 c9 c10 c11 c12 c13 c14 where st: "st = [c0, c1, c2, c3, c4, c5, c6, c7, c8, c9, c10, c11, c12, c13, c14]"
    and c: "CHR ''A'' \<le> c0" "c0 \<le> CHR ''Z''" "CHR ''a'' \<le> c1" "c1 \<le> CHR ''z''" "CHR ''a'' \<le> c2" "c2 \<le> CHR ''z''" "c3 = CHR '' ''"
      "c4 = CHR '' '' \<or> is_digit c4" "is_digit c5" "c6 = CHR '' ''" "is_digit c7" "is_digit c8" "c9 = CHR '':''" "is_digit c10" "is_digit c11"
      "c12 = CHR '':''" "is_digit c13" "is_digit c14"
    using assms(1) unfolding stampShape_def list_all2_Cons1 list_all2_Nil by blast
  have w: "afterWord (host @ '' radiusd'' @ pid @ '':'' @ tail) = Some (''radiusd'' @ pid @ '':'' @ tail)"
    using afterWord_token [OF assms(2), of "''radiusd'' @ pid @ '':'' @ tail"] by simp
  have tag: "hasPrefix (''radiusd'' @ pid @ '':'' @ tail) ''radiusd:'' \<or>
      hasPrefix (''radiusd'' @ pid @ '':'' @ tail) ''radiusd['' \<and> takeWhile is_digit (drop 8 (''radiusd'' @ pid @ '':'' @ tail)) \<noteq> [] \<and>
      hasPrefix (dropWhile is_digit (drop 8 (''radiusd'' @ pid @ '':'' @ tail))) '']:''"
    using assms(3)
  proof
    assume "\<exists>ds. pid = ''['' @ ds @ '']'' \<and> ds \<noteq> [] \<and> list_all is_digit ds"
    then obtain ds where ds: "pid = ''['' @ ds @ '']''" "ds \<noteq> []" "list_all is_digit ds" by blast
    then have "takeWhile is_digit (ds @ CHR '']'' # r) = ds" "dropWhile is_digit (ds @ CHR '']'' # r) = CHR '']'' # r" for r
      by (auto simp: list_all_iff takeWhile_append dropWhile_append is_digit_def)
    then show ?thesis using ds by (simp add: hasPrefix_def)
  qed (simp add: hasPrefix_def)
  define r where "r = ''radiusd'' @ pid @ '':'' @ tail"
  define x where "x = host @ '' radiusd'' @ pid @ '':'' @ tail"
  define y where "y = st @ '' '' @ x"
  have y: "16 \<le> length y" "y ! 0 = c0" "y ! 1 = c1" "y ! 2 = c2" "y ! 3 = c3" "y ! 4 = c4" "y ! 5 = c5" "y ! 6 = c6" "y ! 7 = c7" "y ! 8 = c8"
    "y ! 9 = c9" "y ! 10 = c10" "y ! 11 = c11" "y ! 12 = c12" "y ! 13 = c13" "y ! 14 = c14" "y ! 15 = CHR '' ''" "drop 16 y = x"
    by (simp_all add: y_def st)
  have "afterWord x = Some r" using w by (simp only: x_def r_def)
  then have "reMalformedFreeRADIUS3164 y"
    unfolding reMalformedFreeRADIUS3164_def y using c tag [folded r_def] y(1) by (simp only: option.case simp_thms)
  then show ?thesis by (simp only: y_def x_def)
qed

lemma radiusHeader_recognised: "radiusHeader b \<Longrightarrow> reMalformedFreeRADIUS5424 b \<or> reMalformedFreeRADIUS3164 b"
  unfolding radiusHeader_def
proof (elim disjE exE conjE)
  fix ts host tail
  assume "b = ''1 '' @ ts @ '' '' @ host @ '' radiusd'' @ tail" "token ts" "token host"
  moreover assume "tail = []"
  ultimately show ?thesis using recognised_5424 [of ts host tail] by simp
next
  fix ts host tail
  assume "b = ''1 '' @ ts @ '' '' @ host @ '' radiusd'' @ tail" "token ts" "token host"
  moreover assume "hd tail = CHR '' ''"
  ultimately show ?thesis using recognised_5424 [of ts host tail] by simp
next
  fix st host pid tail
  assume "b = st @ '' '' @ host @ '' radiusd'' @ pid @ '':'' @ tail" "list_all2 (\<lambda>p c. p c) stampShape st" "token host"
  moreover assume "pid = []"
  ultimately show ?thesis using recognised_3164 [of st host pid tail] by simp
next
  fix st host pid tail ds
  assume "b = st @ '' '' @ host @ '' radiusd'' @ pid @ '':'' @ tail" "list_all2 (\<lambda>p c. p c) stampShape st" "token host"
  moreover assume "pid = ''['' @ ds @ '']''" "ds \<noteq> []" "list_all is_digit ds"
  ultimately show ?thesis using recognised_3164 [of st host pid tail] by simp
qed

text \<open>
  A FreeRADIUS line and what is kept of it: one whose envelope parses and names \<^verbatim>\<open>radiusd\<close>, or one whose envelope does
  not parse but whose header still names it, which counts as a parse error and is stamped with the time of arrival.
\<close>

definition radiusLine :: "syslogSource \<Rightarrow> time \<Rightarrow> string \<Rightarrow> string list \<Rightarrow> time \<Rightarrow> int \<Rightarrow> int \<Rightarrow> bool" where
  "radiusLine s now l errs ts facility severity \<longleftrightarrow>
     (\<exists>env. ParseEnvelope (so_parseTime s) l now (so_loc s) = Inr env \<and> env_Program env = ''radiusd'' \<and> errs = [] \<and>
        ts = env_Timestamp env \<and> facility = env_Facility env \<and> severity = env_Severity env) \<or>
     (\<exists>e b pri. ParseEnvelope (so_parseTime s) l now (so_loc s) = Inl e \<and> l \<noteq> [] \<and> parsePRI l = Inr (b, pri) \<and> radiusHeader b \<and>
        errs = [''envelope''] \<and> ts = now \<and> facility = pri div 8 \<and> severity = pri mod 8)"

definition radiusMessages :: "string list" where
  "radiusMessages = [''FreeRADIUS access request accepted'', ''FreeRADIUS access request rejected'', ''FreeRADIUS message redacted'']"

lemma safeMessage_fixed: "safeMessage m \<in> set radiusMessages"
  by (simp add: safeMessage_def radiusMessages_def freeRADIUSAccessAcceptedMessage_def freeRADIUSAccessRejectedMessage_def freeRADIUSGenericMessage_def)

lemma safeMessage_idem: "m \<in> set radiusMessages \<Longrightarrow> safeMessage m = m"
  by (auto simp: safeMessage_def radiusMessages_def freeRADIUSAccessAcceptedMessage_def freeRADIUSAccessRejectedMessage_def freeRADIUSGenericMessage_def)

lemma handleEnvelope_radius:
  assumes "env_Program env = ''radiusd''"
  shows "handleEnvelope s env l peer now snap ((noOutcome dns)\<lparr>ho_parseErrors := errs\<rparr>) =
    radiusOutcome s errs (env_Timestamp env) (env_Facility env) (env_Severity env) (safeMessage (env_Message env)) peer now snap dns"
  using assms safeMessage_idem [OF safeMessage_fixed, of "env_Message env"]
  by (simp add: radiusOutcome_def handleEnvelope_def sanitizeFreeRADIUS_def Let_def)



section \<open>A connection, from its bytes to its records\<close>

text \<open>Go strings are bytes.\<close>

definition textOf :: "u8 list \<Rightarrow> string" where
  "textOf bs = map (\<lambda>b. char_of (unat b)) bs"

text \<open>The messages of a connection, each with the two readings of the clock its handling makes, one after another.\<close>

fun handleAll ::
  "syslogSource \<Rightarrow> addr \<Rightarrow> Snapshot option \<Rightarrow> (u8 list \<times> time \<times> time) list \<Rightarrow> DNSCache option \<Rightarrow> outcome list" where
  "handleAll s peer snap [] dns = []"
| "handleAll s peer snap ((m, now, now2) # ms) dns =
     (let out = handle s (textOf m) peer now now2 snap dns in out # handleAll s peer snap ms (ho_dns out))"

lemma handleAll_each:
  assumes "so_running s"
  shows "list_all2 (\<lambda>m out. (\<exists>now now2 dns. out = handle s (textOf m) peer now now2 snap dns) \<and> line_settled out \<and> justified s out)
    (map fst ms) (handleAll s peer snap ms dns)"
proof (induction ms arbitrary: dns)
  case (Cons x ms)
  obtain m now now2 where x: "x = (m, now, now2)" by (cases x)
  show ?case using Cons.IH handle_settled [OF assms, of "textOf m" peer now now2 snap dns] x by (auto simp: Let_def)
qed simp



end
