(* ===== verification/SyslogListener.thy ===== *)
theory SyslogListener
  imports NetAddr
begin

text \<open>
  The sockets of the syslog receiver (\<^verbatim>\<open>internal/logship/syslog/listener.go\<close>, \<^verbatim>\<open>slotgauge.go\<close>): start-up, the datagram
  reader with its bounded queue and workers, and the accept loops of the plain and the TLS transport with their
  separate slot budgets. Goroutines interleave in the step relation \<open>systep\<close>; a step is what the code does between
  two points where another goroutine can be seen: taking a slot, sampling the semaphore, setting the gauge,
  registering under the mutex, the end of a handshake, giving the slot back. What a connection reads is the
  subject of the theory of framing; here a connection is where its goroutine is. The gauges are modelled as
  registered.
\<close>

section \<open>Configuration\<close>

definition defaultMaxConns :: int where
  "defaultMaxConns = 64"

definition defaultUDPReceiveBuffer :: int where
  "defaultUDPReceiveBuffer = 4 * 1024 * 1024"

definition defaultUDPWorkers :: int where
  "defaultUDPWorkers = 4"

definition defaultUDPQueueSize :: int where
  "defaultUDPQueueSize = 1024"

definition defaultTLSHandshakeTimeout :: duration where
  "defaultTLSHandshakeTimeout = 10 * second_ns"

definition refusalLogEvery :: duration where
  "refusalLogEvery = 30 * second_ns"

datatype refusalLogKey = refusalTCPConnLimit | refusalTLSConnLimit | refusalTLSHandshake | refusalTLSDeadline

record syslogConfig =
  sc_UDPAddr :: string
  sc_TCPAddr :: string
  sc_UDPReceiveBuffer :: int
  sc_UDPWorkers :: int
  sc_UDPQueueSize :: int
  sc_TLSAddr :: string
  sc_TLSConfig :: bool
  sc_AllowedPeers :: "prefix list"
  sc_MaxConns :: int
  sc_TLSHandshakeTimeout :: duration

definition orDefault :: "int \<Rightarrow> int \<Rightarrow> int" where
  "orDefault d v = (if v \<le> 0 then d else v)"

definition withDefaults :: "syslogConfig \<Rightarrow> syslogConfig" where
  "withDefaults cfg = cfg\<lparr>sc_MaxConns := orDefault defaultMaxConns (sc_MaxConns cfg),
     sc_UDPWorkers := orDefault defaultUDPWorkers (sc_UDPWorkers cfg),
     sc_UDPQueueSize := orDefault defaultUDPQueueSize (sc_UDPQueueSize cfg),
     sc_TLSHandshakeTimeout := orDefault defaultTLSHandshakeTimeout (sc_TLSHandshakeTimeout cfg)\<rparr>"

definition tlsEnabled :: "syslogConfig \<Rightarrow> bool" where
  "tlsEnabled cfg \<longleftrightarrow> sc_TLSAddr cfg \<noteq> [] \<and> sc_TLSConfig cfg"

definition peerAllowed :: "syslogConfig \<Rightarrow> addr \<Rightarrow> bool" where
  "peerAllowed cfg peer \<longleftrightarrow> sc_AllowedPeers cfg = [] \<or>
     list_ex (\<lambda>p. prefix_Contains p (addr_Unmap peer)) (sc_AllowedPeers cfg)"

text \<open>
  The address of a connection: the bytes of a TCP address, else what \<^verbatim>\<open>netip.ParseAddrPort\<close> reads from its text.
\<close>

definition peerAddr :: "u8 list option \<Rightarrow> addr option \<Rightarrow> addr" where
  "peerAddr ip parsed =
     (case Option.bind ip AddrFromSlice of
        Some a \<Rightarrow> addr_Unmap a
      | None \<Rightarrow> (case parsed of Some a \<Rightarrow> addr_Unmap a | None \<Rightarrow> AddrNone))"

section \<open>The kernel's receive buffer\<close>

definition minUDPReceiveBufferFallback :: int where
  "minUDPReceiveBufferFallback = 64 * 1024"

definition minimumEffectiveUDPReceiveBuffer :: "int \<Rightarrow> string \<Rightarrow> int" where
  "minimumEffectiveUDPReceiveBuffer requested goos =
     (if goos \<noteq> ''linux'' then requested
      else if max_int64 div 2 < requested then max_int64 else requested * 2)"

text \<open>\<open>setBuf\<close> says which sizes the kernel takes: halve until one is taken, or nothing is left to try.\<close>

function fallbackSize :: "(int \<Rightarrow> bool) \<Rightarrow> int \<Rightarrow> int option" where
  "fallbackSize setBuf n =
     (if minUDPReceiveBufferFallback \<le> n then (if setBuf n then Some n else fallbackSize setBuf (n div 2))
      else None)"
  by pat_completeness auto

termination
  by (relation "measure (\<lambda>(setBuf, n). nat n)") (auto simp: minUDPReceiveBufferFallback_def)

declare fallbackSize.simps [simp del]

text \<open>The size taken, the size in effect, and whether a fallback and a clamp were warned of.\<close>

datatype bufferResult =
    BufferSet int int bool bool
  | SetRefused int
  | ReadFailed int

definition configureUDPReceiveBufferObserved :: "(int \<Rightarrow> bool) \<Rightarrow> (int \<Rightarrow> int option) \<Rightarrow> string \<Rightarrow> int \<Rightarrow> bufferResult" where
  "configureUDPReceiveBufferObserved setBuf readBuf goos requested =
     (let requested = (if requested \<le> 0 then defaultUDPReceiveBuffer else requested) in
      case (if setBuf requested then Some requested else fallbackSize setBuf (requested div 2)) of
        None \<Rightarrow> SetRefused requested
      | Some accepted \<Rightarrow>
          (case readBuf accepted of
             None \<Rightarrow> ReadFailed requested
           | Some effective \<Rightarrow> BufferSet accepted effective (\<not> setBuf requested)
               (effective < minimumEffectiveUDPReceiveBuffer accepted goos)))"

section \<open>Start-up\<close>

datatype socketState = Unbound | Bound | Shut

record sockets =
  sk_udp :: socketState
  sk_tcp :: socketState
  sk_tls :: socketState

datatype startError = NoListenAddress | UDPFailed | UDPBufferFailed | TCPFailed | TLSFailed

definition shut :: "socketState \<Rightarrow> socketState" where
  "shut s = (if s = Bound then Shut else s)"

definition closeSockets :: "sockets \<Rightarrow> sockets" where
  "closeSockets s = \<lparr>sk_udp = shut (sk_udp s), sk_tcp = shut (sk_tcp s), sk_tls = shut (sk_tls s)\<rparr>"

text \<open>
  \<^verbatim>\<open>Start\<close>, with the outcome of resolving and binding each address and of sizing the datagram socket: the sockets
  it leaves and the error, if any.
\<close>

definition startTLS :: "bool \<Rightarrow> syslogConfig \<Rightarrow> sockets \<Rightarrow> sockets \<times> startError option" where
  "startTLS tlsBinds cfg s =
     (if tlsEnabled cfg then (if tlsBinds then (s\<lparr>sk_tls := Bound\<rparr>, None) else (closeSockets s, Some TLSFailed))
      else (s, None))"

definition startTCP :: "bool \<Rightarrow> bool \<Rightarrow> syslogConfig \<Rightarrow> sockets \<Rightarrow> sockets \<times> startError option" where
  "startTCP tcpBinds tlsBinds cfg s =
     (if sc_TCPAddr cfg \<noteq> [] then
        (if tcpBinds then startTLS tlsBinds cfg (s\<lparr>sk_tcp := Bound\<rparr>) else (closeSockets s, Some TCPFailed))
      else startTLS tlsBinds cfg s)"

definition Start :: "bool \<Rightarrow> bool \<Rightarrow> bool \<Rightarrow> bufferResult \<Rightarrow> syslogConfig \<Rightarrow> sockets \<times> startError option" where
  "Start udpBinds tcpBinds tlsBinds buffer cfg =
     (let s = \<lparr>sk_udp = Unbound, sk_tcp = Unbound, sk_tls = Unbound\<rparr> in
      if sc_UDPAddr cfg = [] \<and> sc_TCPAddr cfg = [] \<and> \<not> tlsEnabled cfg then (s, Some NoListenAddress)
      else if sc_UDPAddr cfg \<noteq> [] then
        (if \<not> udpBinds then (s, Some UDPFailed)
         else
           let s = s\<lparr>sk_udp := Bound\<rparr> in
           case buffer of
             BufferSet _ _ _ _ \<Rightarrow> startTCP tcpBinds tlsBinds cfg s
           | _ \<Rightarrow> (closeSockets s, Some UDPBufferFailed))
      else startTCP tcpBinds tlsBinds cfg s)"

section \<open>State\<close>

datatype transport = TCP | TLS

text \<open>Where an accept loop is: between accepting a connection and handing it to its goroutine.\<close>

datatype acceptAt =
    Accepting
  | TookSlot addr
  | SampledSlot addr nat
  | ToTrack addr
  | Undone
  | SampledUndo nat
  | Stopped

text \<open>Where a connection's goroutine is.\<close>

datatype connAt =
    Handshaking addr
  | Starting addr
  | Serving addr
  | Ending addr
  | Released
  | SampledRelease nat

record lane =
  ln_sem :: nat
  ln_gauge :: nat
  ln_accept :: acceptAt
  ln_conns :: "connAt list"
  ln_tickers :: nat

record udpJob =
  uj_line :: "u8 list"
  uj_peer :: addr

record syslogListener =
  sy_cfg :: syslogConfig
  sy_tcp :: lane
  sy_tls :: lane
  sy_wg :: nat
  sy_closing :: bool
  sy_waited :: bool
  sy_rejected :: "string list"
  sy_refusalLast :: "(refusalLogKey, time) gomap"
  sy_logged :: "(refusalLogKey \<times> time) list"
  sy_udpQ :: "udpJob list"
  sy_udpBusy :: "udpJob list"
  sy_udpReading :: bool
  sy_accepted :: nat
  sy_handled :: "udpJob list"

definition newLane :: "bool \<Rightarrow> lane" where
  "newLane enabled = \<lparr>ln_sem = 0, ln_gauge = 0, ln_accept = (if enabled then Accepting else Stopped), ln_conns = [], ln_tickers = 0\<rparr>"

text \<open>\<^verbatim>\<open>NewListener\<close> and the goroutines \<^verbatim>\<open>Run\<close> starts, one per configured transport.\<close>

definition NewSyslogListener :: "syslogConfig \<Rightarrow> syslogListener" where
  "NewSyslogListener cfg =
     \<lparr>sy_cfg = withDefaults cfg, sy_tcp = newLane (sc_TCPAddr cfg \<noteq> []), sy_tls = newLane (tlsEnabled cfg), sy_wg = 0,
      sy_closing = False, sy_waited = False, sy_rejected = [], sy_refusalLast = [], sy_logged = [], sy_udpQ = [],
      sy_udpBusy = [], sy_udpReading = (sc_UDPAddr cfg \<noteq> []), sy_accepted = 0, sy_handled = []\<rparr>"

fun laneOf :: "transport \<Rightarrow> syslogListener \<Rightarrow> lane" where
  "laneOf TCP l = sy_tcp l"
| "laneOf TLS l = sy_tls l"

fun setLane :: "transport \<Rightarrow> lane \<Rightarrow> syslogListener \<Rightarrow> syslogListener" where
  "setLane TCP ln l = l\<lparr>sy_tcp := ln\<rparr>"
| "setLane TLS ln l = l\<lparr>sy_tls := ln\<rparr>"

section \<open>Operations\<close>

definition rejectConn :: "string \<Rightarrow> syslogListener \<Rightarrow> syslogListener" where
  "rejectConn reason l = l\<lparr>sy_rejected := sy_rejected l @ [reason]\<rparr>"

definition logRefusal :: "refusalLogKey \<Rightarrow> time \<Rightarrow> syslogListener \<Rightarrow> bool \<times> syslogListener" where
  "logRefusal k now l =
     (if (case map_of (sy_refusalLast l) k of Some prev \<Rightarrow> time_Sub now prev < refusalLogEvery | None \<Rightarrow> False)
      then (False, l)
      else (True, l\<lparr>sy_refusalLast := AList.update k now (sy_refusalLast l)\<rparr>))"

text \<open>The throttled log line behind a refusal.\<close>

definition logRefused :: "refusalLogKey \<Rightarrow> time \<Rightarrow> syslogListener \<Rightarrow> syslogListener" where
  "logRefused k now l =
     (case logRefusal k now l of (ok, l') \<Rightarrow> if ok then l'\<lparr>sy_logged := sy_logged l' @ [(k, now)]\<rparr> else l')"

fun connLimitKey :: "transport \<Rightarrow> refusalLogKey" where
  "connLimitKey TCP = refusalTCPConnLimit"
| "connLimitKey TLS = refusalTLSConnLimit"

text \<open>A connection arrives: the peer check, then a slot of the transport's own budget or a refusal.\<close>

definition acceptConn :: "transport \<Rightarrow> time \<Rightarrow> addr \<Rightarrow> syslogListener \<Rightarrow> syslogListener" where
  "acceptConn t now peer l =
     (let ln = laneOf t l in
      if \<not> peerAllowed (sy_cfg l) peer then rejectConn ''peer'' l
      else if int (ln_sem ln) < sc_MaxConns (sy_cfg l)
      then setLane t (ln\<lparr>ln_sem := Suc (ln_sem ln), ln_accept := TookSlot peer\<rparr>) l
      else logRefused (connLimitKey t) now (rejectConn ''conn_limit'' l))"

text \<open>\<^verbatim>\<open>Accept\<close> fails: the loop ends when the listener is closing, and goes on otherwise.\<close>

definition acceptFailed :: "transport \<Rightarrow> syslogListener \<Rightarrow> syslogListener" where
  "acceptFailed t l = (if sy_closing l then setLane t ((laneOf t l)\<lparr>ln_accept := Stopped\<rparr>) l else l)"

text \<open>
  \<^verbatim>\<open>trackConn\<close> under the mutex, and what the accept loop does with its answer: start the goroutine, or give the
  slot back and stop.
\<close>

definition trackConn :: "transport \<Rightarrow> addr \<Rightarrow> syslogListener \<Rightarrow> syslogListener" where
  "trackConn t peer l =
     (let ln = laneOf t l in
      if sy_closing l then setLane t (ln\<lparr>ln_sem := ln_sem ln - 1, ln_accept := Undone\<rparr>) l
      else setLane t (ln\<lparr>ln_accept := Accepting,
             ln_conns := ln_conns ln @ [case t of TCP \<Rightarrow> Starting peer | TLS \<Rightarrow> Handshaking peer]\<rparr>) (l\<lparr>sy_wg := Suc (sy_wg l)\<rparr>))"

definition moveConn :: "connAt \<Rightarrow> connAt list \<Rightarrow> lane \<Rightarrow> lane" where
  "moveConn c cs ln = ln\<lparr>ln_conns := remove1 c (ln_conns ln) @ cs\<rparr>"

text \<open>How a handshake ends, as \<^verbatim>\<open>SetDeadline\<close> and \<^verbatim>\<open>HandshakeContext\<close> report it; a failure
  with whether the context was cancelled and whether the error is a timeout.\<close>

datatype handshakeEnd =
    SetDeadlineFails
  | HandshakeFails bool bool
  | ClearDeadlineFails
  | HandshakeDone

fun handshake :: "handshakeEnd \<Rightarrow> time \<Rightarrow> syslogListener \<Rightarrow> bool \<times> syslogListener" where
  "handshake SetDeadlineFails now l = (False, logRefused refusalTLSDeadline now (rejectConn ''tls_deadline_error'' l))"
| "handshake (HandshakeFails canceled timeout) now l =
     (if canceled \<and> sy_closing l then (False, l)
      else (False, logRefused refusalTLSHandshake now
              (rejectConn (if timeout then ''tls_timeout'' else ''tls_auth_failed'') l)))"
| "handshake ClearDeadlineFails now l = (False, logRefused refusalTLSDeadline now (rejectConn ''tls_deadline_error'' l))"
| "handshake HandshakeDone now l = (True, l)"

definition handshakeConn :: "transport \<Rightarrow> addr \<Rightarrow> handshakeEnd \<Rightarrow> time \<Rightarrow> syslogListener \<Rightarrow> syslogListener" where
  "handshakeConn t peer e now l =
     (case handshake e now l of
        (ok, l') \<Rightarrow> setLane t (moveConn (Handshaking peer) [if ok then Starting peer else Ending peer] (laneOf t l')) l')"

text \<open>\<^verbatim>\<open>serveConn\<close> begins by registering its ticker, and its end stops the ticker.\<close>

definition startServing :: "transport \<Rightarrow> addr \<Rightarrow> syslogListener \<Rightarrow> syslogListener" where
  "startServing t peer l =
     setLane t (moveConn (Starting peer) [Serving peer] ((laneOf t l)\<lparr>ln_tickers := Suc (ln_tickers (laneOf t l))\<rparr>)) (l\<lparr>sy_wg := Suc (sy_wg l)\<rparr>)"

definition releaseSlot :: "transport \<Rightarrow> addr \<Rightarrow> syslogListener \<Rightarrow> syslogListener" where
  "releaseSlot t peer l =
     setLane t (moveConn (Ending peer) [Released] ((laneOf t l)\<lparr>ln_sem := ln_sem (laneOf t l) - 1\<rparr>)) l"

text \<open>A datagram read from \<open>sender\<close>.\<close>

definition receiveUDP :: "u8 list \<Rightarrow> addr \<Rightarrow> syslogListener \<Rightarrow> syslogListener" where
  "receiveUDP line sender l =
     (let peer = addr_Unmap sender in
      if \<not> peerAllowed (sy_cfg l) peer then rejectConn ''peer'' l
      else if line = [] then l
      else if int (length (sy_udpQ l)) < sc_UDPQueueSize (sy_cfg l)
      then l\<lparr>sy_udpQ := sy_udpQ l @ [\<lparr>uj_line = line, uj_peer = peer\<rparr>], sy_accepted := Suc (sy_accepted l)\<rparr>
      else rejectConn ''queue_full'' l)"

definition udpReadFailed :: "syslogListener \<Rightarrow> syslogListener" where
  "udpReadFailed l = (if sy_closing l then l\<lparr>sy_udpReading := False\<rparr> else l)"

section \<open>Steps\<close>

fun isServing :: "connAt \<Rightarrow> bool" where
  "isServing (Serving p) = True"
| "isServing _ = False"

text \<open>
  A ticker outlives its connection by at most the tick it is in: it ends once there are fewer connections served
  than tickers.
\<close>

inductive systep :: "syslogListener \<Rightarrow> syslogListener \<Rightarrow> bool" where
  Accept: "ln_accept (laneOf t l) = Accepting \<Longrightarrow> systep l (acceptConn t now (peerAddr ip parsed) l)"
| AcceptFails: "ln_accept (laneOf t l) = Accepting \<Longrightarrow> systep l (acceptFailed t l)"
| SampleTaken: "ln_accept (laneOf t l) = TookSlot p \<Longrightarrow>
     systep l (setLane t ((laneOf t l)\<lparr>ln_accept := SampledSlot p (ln_sem (laneOf t l))\<rparr>) l)"
| ObserveTaken: "ln_accept (laneOf t l) = SampledSlot p n \<Longrightarrow>
     systep l (setLane t ((laneOf t l)\<lparr>ln_gauge := n, ln_accept := ToTrack p\<rparr>) l)"
| Track: "ln_accept (laneOf t l) = ToTrack p \<Longrightarrow> systep l (trackConn t p l)"
| SampleUndone: "ln_accept (laneOf t l) = Undone \<Longrightarrow>
     systep l (setLane t ((laneOf t l)\<lparr>ln_accept := SampledUndo (ln_sem (laneOf t l))\<rparr>) l)"
| ObserveUndone: "ln_accept (laneOf t l) = SampledUndo n \<Longrightarrow>
     systep l (setLane t ((laneOf t l)\<lparr>ln_gauge := n, ln_accept := Stopped\<rparr>) l)"
| Shake: "Handshaking p \<in> set (ln_conns (laneOf t l)) \<Longrightarrow> systep l (handshakeConn t p e now l)"
| Serve: "Starting p \<in> set (ln_conns (laneOf t l)) \<Longrightarrow> systep l (startServing t p l)"
| Ends: "Serving p \<in> set (ln_conns (laneOf t l)) \<Longrightarrow> systep l (setLane t (moveConn (Serving p) [Ending p] (laneOf t l)) l)"
| Release: "Ending p \<in> set (ln_conns (laneOf t l)) \<Longrightarrow> systep l (releaseSlot t p l)"
| SampleReleased: "Released \<in> set (ln_conns (laneOf t l)) \<Longrightarrow>
     systep l (setLane t (moveConn Released [SampledRelease (ln_sem (laneOf t l))] (laneOf t l)) l)"
| ObserveReleased: "SampledRelease n \<in> set (ln_conns (laneOf t l)) \<Longrightarrow>
     systep l (setLane t (moveConn (SampledRelease n) [] ((laneOf t l)\<lparr>ln_gauge := n\<rparr>)) (l\<lparr>sy_wg := sy_wg l - 1\<rparr>))"
| TickerEnds: "length (filter isServing (ln_conns (laneOf t l))) < ln_tickers (laneOf t l) \<Longrightarrow>
     systep l (setLane t ((laneOf t l)\<lparr>ln_tickers := ln_tickers (laneOf t l) - 1\<rparr>) (l\<lparr>sy_wg := sy_wg l - 1\<rparr>))"
| Closes: "systep l (l\<lparr>sy_closing := True\<rparr>)"
| Waited: "sy_closing l \<Longrightarrow> sy_wg l = 0 \<Longrightarrow> systep l (l\<lparr>sy_waited := True\<rparr>)"
| Datagram: "sy_udpReading l \<Longrightarrow> systep l (receiveUDP line sender l)"
| ReadFails: "sy_udpReading l \<Longrightarrow> systep l (udpReadFailed l)"
| WorkerTakes: "sy_udpQ l = j # js \<Longrightarrow> int (length (sy_udpBusy l)) < sc_UDPWorkers (sy_cfg l) \<Longrightarrow>
     systep l (l\<lparr>sy_udpQ := js, sy_udpBusy := sy_udpBusy l @ [j]\<rparr>)"
| WorkerDone: "j \<in> set (sy_udpBusy l) \<Longrightarrow>
     systep l (l\<lparr>sy_udpBusy := remove1 j (sy_udpBusy l), sy_handled := sy_handled l @ [j]\<rparr>)"

inductive_cases systepE: "systep l l'"

definition receiving :: "syslogConfig \<Rightarrow> syslogListener \<Rightarrow> bool" where
  "receiving cfg l \<longleftrightarrow> systep\<^sup>*\<^sup>* (NewSyslogListener cfg) l"

section \<open>The slot budgets\<close>

fun holdsSlot :: "connAt \<Rightarrow> bool" where
  "holdsSlot (Handshaking p) = True"
| "holdsSlot (Starting p) = True"
| "holdsSlot (Serving p) = True"
| "holdsSlot (Ending p) = True"
| "holdsSlot _ = False"

fun acceptHolds :: "acceptAt \<Rightarrow> nat" where
  "acceptHolds (TookSlot p) = 1"
| "acceptHolds (SampledSlot p n) = 1"
| "acceptHolds (ToTrack p) = 1"
| "acceptHolds _ = 0"

definition slotHolders :: "lane \<Rightarrow> nat" where
  "slotHolders ln = length (filter holdsSlot (ln_conns ln)) + acceptHolds (ln_accept ln)"

definition lane_ok :: "int \<Rightarrow> lane \<Rightarrow> bool" where
  "lane_ok m ln \<longleftrightarrow> ln_sem ln = slotHolders ln \<and> int (ln_sem ln) \<le> m \<and> length (filter isServing (ln_conns ln)) \<le> ln_tickers ln"

definition waiters :: "lane \<Rightarrow> nat" where
  "waiters ln = length (ln_conns ln) + ln_tickers ln"

definition sy_ok :: "syslogListener \<Rightarrow> bool" where
  "sy_ok l \<longleftrightarrow> lane_ok (sc_MaxConns (sy_cfg l)) (sy_tcp l) \<and> lane_ok (sc_MaxConns (sy_cfg l)) (sy_tls l) \<and>
     sy_wg l = waiters (sy_tcp l) + waiters (sy_tls l) \<and> (sy_waited l \<longrightarrow> sy_closing l \<and> sy_wg l = 0)"

lemma laneOf_setLane [simp]: "laneOf t (setLane u ln l) = (if t = u then ln else laneOf t l)"
  by (cases t; cases u) auto

lemma setLane_frame [simp]:
  "sy_cfg (setLane t ln l) = sy_cfg l" "sy_wg (setLane t ln l) = sy_wg l" "sy_closing (setLane t ln l) = sy_closing l"
  "sy_waited (setLane t ln l) = sy_waited l" "sy_udpQ (setLane t ln l) = sy_udpQ l" "sy_udpBusy (setLane t ln l) = sy_udpBusy l"
  "sy_accepted (setLane t ln l) = sy_accepted l" "sy_handled (setLane t ln l) = sy_handled l"
  "sy_udpReading (setLane t ln l) = sy_udpReading l" "sy_rejected (setLane t ln l) = sy_rejected l"
  "sy_logged (setLane t ln l) = sy_logged l" "sy_refusalLast (setLane t ln l) = sy_refusalLast l"
  by (cases t; simp)+

lemma logRefused_frame [simp]:
  "laneOf t (logRefused k now l) = laneOf t l" "sy_tcp (logRefused k now l) = sy_tcp l" "sy_tls (logRefused k now l) = sy_tls l"
  "sy_cfg (logRefused k now l) = sy_cfg l" "sy_wg (logRefused k now l) = sy_wg l" "sy_closing (logRefused k now l) = sy_closing l"
  "sy_waited (logRefused k now l) = sy_waited l" "sy_udpQ (logRefused k now l) = sy_udpQ l" "sy_udpBusy (logRefused k now l) = sy_udpBusy l"
  "sy_accepted (logRefused k now l) = sy_accepted l" "sy_handled (logRefused k now l) = sy_handled l"
  "sy_rejected (logRefused k now l) = sy_rejected l" "sy_udpReading (logRefused k now l) = sy_udpReading l"
  by (cases t; simp add: logRefused_def logRefusal_def)+

lemma rejectConn_frame [simp]:
  "laneOf t (rejectConn r l) = laneOf t l" "sy_tcp (rejectConn r l) = sy_tcp l" "sy_tls (rejectConn r l) = sy_tls l"
  "sy_cfg (rejectConn r l) = sy_cfg l" "sy_wg (rejectConn r l) = sy_wg l" "sy_closing (rejectConn r l) = sy_closing l"
  "sy_waited (rejectConn r l) = sy_waited l" "sy_udpQ (rejectConn r l) = sy_udpQ l" "sy_udpBusy (rejectConn r l) = sy_udpBusy l"
  "sy_accepted (rejectConn r l) = sy_accepted l" "sy_handled (rejectConn r l) = sy_handled l"
  "sy_rejected (rejectConn r l) = sy_rejected l @ [r]" "sy_udpReading (rejectConn r l) = sy_udpReading l"
  "sy_logged (rejectConn r l) = sy_logged l" "sy_refusalLast (rejectConn r l) = sy_refusalLast l"
  by (cases t; simp add: rejectConn_def)+

lemma lane_updates [simp]:
  "laneOf t (l\<lparr>sy_wg := n\<rparr>) = laneOf t l" "laneOf t (l\<lparr>sy_closing := b\<rparr>) = laneOf t l" "laneOf t (l\<lparr>sy_waited := b\<rparr>) = laneOf t l"
  "laneOf t (l\<lparr>sy_udpQ := q, sy_accepted := a\<rparr>) = laneOf t l" "laneOf t (l\<lparr>sy_udpQ := q, sy_udpBusy := w\<rparr>) = laneOf t l"
  "laneOf t (l\<lparr>sy_udpBusy := w, sy_handled := h\<rparr>) = laneOf t l" "laneOf t (l\<lparr>sy_udpReading := b\<rparr>) = laneOf t l"
  by (cases t; simp)+

text \<open>The invariant over the two lanes, read by transport.\<close>

lemma sy_ok_iff:
  "sy_ok l \<longleftrightarrow> (\<forall>t. lane_ok (sc_MaxConns (sy_cfg l)) (laneOf t l)) \<and>
     sy_wg l = waiters (laneOf TCP l) + waiters (laneOf TLS l) \<and> (sy_waited l \<longrightarrow> sy_closing l \<and> sy_wg l = 0)"
  unfolding sy_ok_def by (metis (full_types) laneOf.simps transport.exhaust)

fun other :: "transport \<Rightarrow> transport" where
  "other TCP = TLS"
| "other TLS = TCP"

text \<open>One lane changes, with the wait group following its goroutines.\<close>

lemma sy_ok_setLane:
  assumes "sy_ok l" "lane_ok (sc_MaxConns (sy_cfg l)) ln" "n + waiters (laneOf t l) = sy_wg l + waiters ln"
    and "waiters (laneOf t l) = 0 \<Longrightarrow> sy_waited l \<Longrightarrow> waiters ln = 0"
  shows "sy_ok (setLane t ln (l\<lparr>sy_wg := n\<rparr>))"
  using assms by (cases t) (auto simp: sy_ok_def)

lemma sy_ok_sameWait:
  assumes "sy_ok l" "lane_ok (sc_MaxConns (sy_cfg l)) ln" "waiters ln = waiters (laneOf t l)"
  shows "sy_ok (setLane t ln l)"
  using assms by (cases t) (auto simp: sy_ok_def)

lemma sy_ok_cong:
  assumes "sy_ok l" "sy_tcp l' = sy_tcp l" "sy_tls l' = sy_tls l" "sy_cfg l' = sy_cfg l" "sy_wg l' = sy_wg l"
    "sy_closing l \<longrightarrow> sy_closing l'" "sy_waited l' = sy_waited l"
  shows "sy_ok l'"
  using assms by (auto simp: sy_ok_def)

lemma length_filter_remove1: "c \<in> set xs \<Longrightarrow> length (filter P (remove1 c xs)) + (if P c then 1 else 0) = length (filter P xs)"
  by (induction xs) auto

lemma filter_moveConn:
  assumes "c \<in> set (ln_conns ln)"
  shows "length (filter P (ln_conns (moveConn c cs ln))) + (if P c then 1 else 0) = length (filter P (ln_conns ln)) + length (filter P cs)"
  using length_filter_remove1 [OF assms, of P] by (simp add: moveConn_def)

lemma waiters_moveConn:
  assumes "c \<in> set (ln_conns ln)"
  shows "waiters (moveConn c cs ln) + 1 = waiters ln + length cs"
  using filter_moveConn [OF assms, of "\<lambda>_. True" cs] by (simp add: waiters_def moveConn_def)

lemma moveConn_fields [simp]:
  "ln_sem (moveConn c cs ln) = ln_sem ln" "ln_accept (moveConn c cs ln) = ln_accept ln" "ln_tickers (moveConn c cs ln) = ln_tickers ln"
  "ln_gauge (moveConn c cs ln) = ln_gauge ln"
  by (simp_all add: moveConn_def)

lemma moveConn_ok:
  assumes "lane_ok m ln" "c \<in> set (ln_conns ln)" "holdsSlot c = list_ex holdsSlot cs" "length cs \<le> 1" "list_all (\<lambda>d. \<not> isServing d) cs"
  shows "lane_ok m (moveConn c cs ln)"
proof -
  have one: "length (filter P cs) = (if list_ex P cs then 1 else 0)" for P :: "connAt \<Rightarrow> bool"
    using assms(4) by (cases cs; cases "tl cs") auto
  have "\<not> list_ex isServing cs" using assms(5) by (auto simp: list_all_iff list_ex_iff)
  then show ?thesis
    using assms(1,3) filter_moveConn [OF assms(2), of holdsSlot cs] filter_moveConn [OF assms(2), of isServing cs]
    by (auto simp: lane_ok_def slotHolders_def one split: if_splits)
qed


section \<open>Every step keeps the invariant\<close>

lemma acceptConn_ok:
  assumes "sy_ok l" "ln_accept (laneOf t l) = Accepting"
  shows "sy_ok (acceptConn t now peer l)"
proof -
  have ok: "lane_ok (sc_MaxConns (sy_cfg l)) (laneOf t l)" using assms(1) by (simp add: sy_ok_iff)
  show ?thesis
    using assms ok unfolding acceptConn_def Let_def
    by (auto intro!: sy_ok_sameWait [where l = l] intro: sy_ok_cong [OF assms(1)] simp: lane_ok_def slotHolders_def waiters_def)
qed

lemma acceptState_ok:
  assumes "sy_ok l" "acceptHolds a = acceptHolds (ln_accept (laneOf t l))"
  shows "sy_ok (setLane t ((laneOf t l)\<lparr>ln_gauge := g, ln_accept := a\<rparr>) l)" "sy_ok (setLane t ((laneOf t l)\<lparr>ln_accept := a\<rparr>) l)"
proof -
  have "lane_ok (sc_MaxConns (sy_cfg l)) (laneOf t l)" using assms(1) by (simp add: sy_ok_iff)
  then show "sy_ok (setLane t ((laneOf t l)\<lparr>ln_gauge := g, ln_accept := a\<rparr>) l)" "sy_ok (setLane t ((laneOf t l)\<lparr>ln_accept := a\<rparr>) l)"
    using assms by (auto intro!: sy_ok_sameWait [where l = l] simp: lane_ok_def slotHolders_def waiters_def)
qed

lemma acceptFailed_ok:
  assumes "sy_ok l" "ln_accept (laneOf t l) = Accepting"
  shows "sy_ok (acceptFailed t l)"
  using assms acceptState_ok(2) [OF assms(1), of Stopped t] by (simp add: acceptFailed_def)

lemma trackConn_ok:
  assumes "sy_ok l" "ln_accept (laneOf t l) = ToTrack p"
  shows "sy_ok (trackConn t p l)"
proof -
  have ok: "lane_ok (sc_MaxConns (sy_cfg l)) (laneOf t l)" using assms(1) by (simp add: sy_ok_iff)
  show ?thesis
  proof (cases "sy_closing l")
    case True
    then show ?thesis using assms ok
      by (auto intro!: sy_ok_sameWait [where l = l] simp: trackConn_def Let_def lane_ok_def slotHolders_def waiters_def)
  next
    case False
    then have "\<not> sy_waited l" using assms(1) by (auto simp: sy_ok_def)
    then show ?thesis using assms False
      by (cases t) (auto simp: trackConn_def Let_def sy_ok_def lane_ok_def slotHolders_def waiters_def)
  qed
qed

lemma moveConn_step:
  assumes "sy_ok l" "c \<in> set (ln_conns (laneOf t l))" "holdsSlot c = holdsSlot d" "\<not> isServing d"
  shows "sy_ok (setLane t (moveConn c [d] (laneOf t l)) l)"
  using assms waiters_moveConn [OF assms(2), of "[d]"]
  by (intro sy_ok_sameWait [where l = l] moveConn_ok) (auto simp: sy_ok_iff)

lemma handshakeConn_ok:
  assumes "sy_ok l" "Handshaking p \<in> set (ln_conns (laneOf t l))"
  shows "sy_ok (handshakeConn t p e now l)"
proof -
  obtain ok l' where h: "handshake e now l = (ok, l')" by (cases "handshake e now l")
  have f: "sy_ok l'" "laneOf t l' = laneOf t l"
    using h sy_ok_cong [OF assms(1)] by (cases e; auto split: if_splits)+
  then show ?thesis using moveConn_step [of l' "Handshaking p" t "if ok then Starting p else Ending p"] assms(2)
    by (simp add: handshakeConn_def h)
qed

lemma startServing_ok:
  assumes "sy_ok l" "Starting p \<in> set (ln_conns (laneOf t l))"
  shows "sy_ok (startServing t p l)"
proof -
  let ?ln = "(laneOf t l)\<lparr>ln_tickers := Suc (ln_tickers (laneOf t l))\<rparr>"
  have m: "Starting p \<in> set (ln_conns ?ln)" using assms(2) by simp
  have "lane_ok (sc_MaxConns (sy_cfg l)) (laneOf t l)" using assms(1) by (simp add: sy_ok_iff)
  then have "lane_ok (sc_MaxConns (sy_cfg l)) (moveConn (Starting p) [Serving p] ?ln)"
    using filter_moveConn [OF m, of holdsSlot "[Serving p]"] filter_moveConn [OF m, of isServing "[Serving p]"]
    by (auto simp: lane_ok_def slotHolders_def)
  moreover have "waiters (laneOf t l) \<noteq> 0" using assms(2) by (cases "ln_conns (laneOf t l)") (auto simp: waiters_def)
  ultimately show ?thesis
    unfolding startServing_def using assms waiters_moveConn [OF m, of "[Serving p]"]
    by (intro sy_ok_setLane [where l = l]) (auto simp: waiters_def)
qed

lemma releaseSlot_ok:
  assumes "sy_ok l" "Ending p \<in> set (ln_conns (laneOf t l))"
  shows "sy_ok (releaseSlot t p l)"
proof -
  let ?ln = "(laneOf t l)\<lparr>ln_sem := ln_sem (laneOf t l) - 1\<rparr>"
  have m: "Ending p \<in> set (ln_conns ?ln)" using assms(2) by simp
  have "lane_ok (sc_MaxConns (sy_cfg l)) (laneOf t l)" using assms(1) by (simp add: sy_ok_iff)
  moreover have "Suc (length (filter holdsSlot (ln_conns (moveConn (Ending p) [Released] ?ln)))) = length (filter holdsSlot (ln_conns (laneOf t l)))"
    using filter_moveConn [OF m, of holdsSlot "[Released]"] by simp
  ultimately have "lane_ok (sc_MaxConns (sy_cfg l)) (moveConn (Ending p) [Released] ?ln)"
    using filter_moveConn [OF m, of isServing "[Released]"] by (simp add: lane_ok_def slotHolders_def)
  then show ?thesis
    unfolding releaseSlot_def using assms waiters_moveConn [OF m, of "[Released]"]
    by (intro sy_ok_sameWait [where l = l]) (auto simp: waiters_def)
qed

lemma observeReleased_ok:
  assumes "sy_ok l" "SampledRelease n \<in> set (ln_conns (laneOf t l))"
  shows "sy_ok (setLane t (moveConn (SampledRelease n) [] ((laneOf t l)\<lparr>ln_gauge := n\<rparr>)) (l\<lparr>sy_wg := sy_wg l - 1\<rparr>))"
proof -
  let ?ln = "(laneOf t l)\<lparr>ln_gauge := n\<rparr>"
  have m: "SampledRelease n \<in> set (ln_conns ?ln)" using assms(2) by simp
  have ok: "lane_ok (sc_MaxConns (sy_cfg l)) ?ln"
    using assms(1) sy_ok_iff [of l] by (auto simp: lane_ok_def slotHolders_def dest!: spec [where x = t])
  have w: "waiters (laneOf t l) = waiters ?ln" "0 < waiters ?ln" using m by (cases "ln_conns (laneOf t l)"; auto simp: waiters_def)+
  then have "0 < sy_wg l" using assms(1) by (cases t) (auto simp: sy_ok_def)
  moreover have "lane_ok (sc_MaxConns (sy_cfg l)) (moveConn (SampledRelease n) [] ?ln)"
    by (rule moveConn_ok [OF ok m]) auto
  ultimately show ?thesis using assms(1) w waiters_moveConn [OF m, of "[]"]
    by (intro sy_ok_setLane [where l = l]) auto
qed

lemma tickerEnds_ok:
  assumes "sy_ok l" "length (filter isServing (ln_conns (laneOf t l))) < ln_tickers (laneOf t l)"
  shows "sy_ok (setLane t ((laneOf t l)\<lparr>ln_tickers := ln_tickers (laneOf t l) - 1\<rparr>) (l\<lparr>sy_wg := sy_wg l - 1\<rparr>))"
proof -
  have "lane_ok (sc_MaxConns (sy_cfg l)) (laneOf t l)" using assms(1) by (simp add: sy_ok_iff)
  then have "lane_ok (sc_MaxConns (sy_cfg l)) ((laneOf t l)\<lparr>ln_tickers := ln_tickers (laneOf t l) - 1\<rparr>)"
    using assms(2) by (auto simp: lane_ok_def slotHolders_def)
  moreover have "0 < sy_wg l" using assms by (cases t) (auto simp: sy_ok_def waiters_def)
  ultimately show ?thesis using assms by (intro sy_ok_setLane [where l = l]) (auto simp: waiters_def)
qed

lemma systep_ok: "systep l l' \<Longrightarrow> sy_ok l \<Longrightarrow> sy_ok l'"
proof (induction rule: systep.induct)
  case (Shake p t l e now)
  then show ?case by (simp add: handshakeConn_ok)
next
  case (Closes l)
  then show ?case by (auto simp: sy_ok_def)
next
  case (Waited l)
  then show ?case by (auto simp: sy_ok_def)
next
  case (Datagram l line sender)
  then show ?case by (auto simp: receiveUDP_def Let_def intro: sy_ok_cong)
next
  case (ReadFails l)
  then show ?case by (auto simp: udpReadFailed_def intro: sy_ok_cong)
next
  case (WorkerTakes l j js)
  then show ?case by (auto intro: sy_ok_cong)
next
  case (WorkerDone j l)
  then show ?case by (auto intro: sy_ok_cong)
qed (simp_all add: acceptConn_ok acceptFailed_ok acceptState_ok trackConn_ok startServing_ok releaseSlot_ok
  observeReleased_ok [simplified] tickerEnds_ok [simplified] moveConn_step)

lemma New_sy_ok: "sy_ok (NewSyslogListener cfg)"
  by (auto simp: sy_ok_def NewSyslogListener_def newLane_def lane_ok_def slotHolders_def waiters_def withDefaults_def orDefault_def defaultMaxConns_def)

interpretation slots: kept_by_steps systep sy_ok
  by unfold_locales (rule systep_ok)

lemma receiving_ok: "receiving cfg l \<Longrightarrow> sy_ok l"
  unfolding receiving_def by (erule slots.kept_run) (rule New_sy_ok)

section \<open>What the budgets promise\<close>

lemma systep_cfg: "systep l l' \<Longrightarrow> sy_cfg l' = sy_cfg l"
proof (induction rule: systep.induct)
  case (Shake p t l e now)
  then show ?case by (cases e) (auto simp: handshakeConn_def)
qed (auto simp: acceptConn_def acceptFailed_def trackConn_def startServing_def releaseSlot_def receiveUDP_def udpReadFailed_def Let_def)

lemma receiving_cfg: "receiving cfg l \<Longrightarrow> sy_cfg l = withDefaults cfg"
  unfolding receiving_def by (induction rule: rtranclp_induct) (auto simp: NewSyslogListener_def systep_cfg)

text \<open>
  (C23) The two transports have budgets of their own. At any time, at most \<open>MaxConns\<close> connections of a
  transport hold a slot, counting the one its accept loop is handing over; a connection of an admitted peer is
  refused for capacity exactly when that many connections of its own transport are being served; and whatever
  one transport accepts or refuses leaves the other as it was.
\<close>

theorem slots_per_transport:
  assumes "receiving cfg l"
  shows "int (slotHolders (laneOf t l)) \<le> sc_MaxConns (withDefaults cfg) \<and>
    laneOf (other t) (acceptConn t now peer l) = laneOf (other t) l \<and>
    (ln_accept (laneOf t l) = Accepting \<and> peerAllowed (withDefaults cfg) peer \<longrightarrow>
      (sy_rejected (acceptConn t now peer l) = sy_rejected l @ [''conn_limit''] \<longleftrightarrow>
       int (length (filter holdsSlot (ln_conns (laneOf t l)))) = sc_MaxConns (withDefaults cfg)))"
proof -
  have "lane_ok (sc_MaxConns (withDefaults cfg)) (laneOf t l)" using receiving_ok [OF assms] receiving_cfg [OF assms] by (simp add: sy_ok_iff)
  moreover have "other t \<noteq> t" by (cases t) auto
  ultimately show ?thesis using receiving_cfg [OF assms]
    by (auto simp: lane_ok_def slotHolders_def acceptConn_def Let_def)
qed

lemma systep_waited: "systep l l' \<Longrightarrow> sy_waited l \<Longrightarrow> sy_waited l'"
proof (induction rule: systep.induct)
  case (Shake p t l e now)
  then show ?case by (cases e) (auto simp: handshakeConn_def)
qed (auto simp: acceptConn_def acceptFailed_def trackConn_def startServing_def releaseSlot_def receiveUDP_def udpReadFailed_def Let_def)

interpretation shutdown: kept_by_steps systep sy_waited
  by unfold_locales (rule systep_waited)

text \<open>
  \<^verbatim>\<open>Close\<close> is final: once it has waited, no connection and no ticker is left, and none can appear
  again, so no line is handed on after it. The accept loops may still be running; \<^verbatim>\<open>trackConn\<close> refuses what they bring.
\<close>

theorem close_is_final:
  assumes "receiving cfg l" "sy_waited l" "systep\<^sup>*\<^sup>* l l'"
  shows "ln_conns (laneOf t l') = [] \<and> ln_tickers (laneOf t l') = 0"
proof -
  have w: "sy_waited l'" using assms(3,2) by (rule shutdown.kept_run)
  have "receiving cfg l'" using assms(1,3) by (simp add: receiving_def)
  then have "sy_ok l'" by (rule receiving_ok)
  then have "waiters (sy_tcp l') + waiters (sy_tls l') = 0" using w by (auto simp: sy_ok_def)
  then show ?thesis by (cases t) (auto simp: waiters_def)
qed

section \<open>Datagrams\<close>

definition udp_ok :: "syslogListener \<Rightarrow> bool" where
  "udp_ok l \<longleftrightarrow> sy_accepted l = length (sy_udpQ l) + length (sy_udpBusy l) + length (sy_handled l) \<and>
     int (length (sy_udpQ l)) \<le> sc_UDPQueueSize (sy_cfg l) \<and> int (length (sy_udpBusy l)) \<le> sc_UDPWorkers (sy_cfg l)"

lemma systep_udp: "systep l l' \<Longrightarrow> udp_ok l \<Longrightarrow> udp_ok l'"
proof (induction rule: systep.induct)
  case (Shake p t l e now)
  then show ?case by (cases e) (auto simp: handshakeConn_def udp_ok_def)
next
  case (WorkerDone j l)
  then have "Suc (length (remove1 j (sy_udpBusy l))) = length (sy_udpBusy l)"
    using length_filter_remove1 [of j "sy_udpBusy l" "\<lambda>_. True"] by simp
  then show ?case using WorkerDone by (auto simp: udp_ok_def)
qed (auto simp: udp_ok_def acceptConn_def acceptFailed_def trackConn_def startServing_def releaseSlot_def receiveUDP_def udpReadFailed_def Let_def)

lemma New_udp_ok: "udp_ok (NewSyslogListener cfg)"
  by (auto simp: udp_ok_def NewSyslogListener_def withDefaults_def orDefault_def defaultUDPQueueSize_def defaultUDPWorkers_def)

interpretation datagrams: kept_by_steps systep udp_ok
  by unfold_locales (rule systep_udp)

lemma receiving_udp: "receiving cfg l \<Longrightarrow> udp_ok l"
  unfolding receiving_def by (erule datagrams.kept_run) (rule New_udp_ok)

text \<open>
  Every datagram admitted is waiting, with a worker or handled, the queue and the workers within
  their bounds; a datagram of an admitted peer is refused exactly when the queue is full.
\<close>

theorem datagrams_accounted:
  assumes "receiving cfg l"
  shows "sy_accepted l = length (sy_udpQ l) + length (sy_udpBusy l) + length (sy_handled l) \<and>
    int (length (sy_udpQ l)) \<le> sc_UDPQueueSize (withDefaults cfg) \<and> int (length (sy_udpBusy l)) \<le> sc_UDPWorkers (withDefaults cfg) \<and>
    (peerAllowed (withDefaults cfg) (addr_Unmap sender) \<and> line \<noteq> [] \<longrightarrow>
      (sy_rejected (receiveUDP line sender l) = sy_rejected l @ [''queue_full''] \<longleftrightarrow> int (length (sy_udpQ l)) = sc_UDPQueueSize (withDefaults cfg)))"
  using receiving_udp [OF assms] receiving_cfg [OF assms] by (auto simp: udp_ok_def receiveUDP_def Let_def)

section \<open>The refusal log\<close>

definition logged_ok :: "syslogListener \<Rightarrow> bool" where
  "logged_ok l \<longleftrightarrow> sorted_wrt (\<lambda>(k, t) (k', t'). k = k' \<longrightarrow> refusalLogEvery \<le> t' - t) (sy_logged l) \<and>
     (\<forall>k t. (k, t) \<in> set (sy_logged l) \<longrightarrow> (\<exists>u \<ge> t. map_of (sy_refusalLast l) k = Some u))"

lemma logRefused_ok:
  assumes "logged_ok l"
  shows "logged_ok (logRefused k now l)"
proof (cases "fst (logRefusal k now l)")
  case True
  have late: "refusalLogEvery \<le> now - t" if in_log: "(k, t) \<in> set (sy_logged l)" for t
  proof -
    obtain u where u: "t \<le> u" "map_of (sy_refusalLast l) k = Some u" using assms in_log unfolding logged_ok_def by blast
    then have "refusalLogEvery \<le> now - u"
      using True by (auto simp: logRefusal_def time_Sub_def refusalLogEvery_def second_ns_def max_int64_def min_int64_def split: if_splits)
    then show ?thesis using u by simp
  qed
  have "logRefused k now l = l\<lparr>sy_refusalLast := AList.update k now (sy_refusalLast l), sy_logged := sy_logged l @ [(k, now)]\<rparr>"
    using True by (auto simp: logRefused_def logRefusal_def split: if_splits)
  moreover have "0 \<le> refusalLogEvery" by (simp add: refusalLogEvery_def second_ns_def)
  ultimately show ?thesis using assms late
    by (fastforce simp: logged_ok_def sorted_wrt_append map_of_update_conv)
next
  case False
  then have "logRefused k now l = l" by (auto simp: logRefused_def logRefusal_def split: if_splits)
  then show ?thesis using assms by simp
qed

lemma logged_cong: "sy_logged l' = sy_logged l \<Longrightarrow> sy_refusalLast l' = sy_refusalLast l \<Longrightarrow> logged_ok l' = logged_ok l"
  by (simp add: logged_ok_def)

lemma systep_logged: "systep l l' \<Longrightarrow> logged_ok l \<Longrightarrow> logged_ok l'"
proof (induction rule: systep.induct)
  case (Accept t l now ip parsed)
  have "logged_ok (logRefused k now (rejectConn r l))" for k r using Accept logRefused_ok logged_cong [of "rejectConn r l" l] by simp
  then show ?case using Accept
    by (auto simp: acceptConn_def Let_def logged_cong [of "setLane _ _ _" l] logged_cong [of "rejectConn _ l" l])
next
  case (Shake p t l e now)
  have "logged_ok (logRefused k now (rejectConn r l))" for k r using Shake logRefused_ok logged_cong [of "rejectConn r l" l] by simp
  then have "logged_ok (snd (handshake e now l))" using Shake by (cases e) auto
  then show ?case by (cases "handshake e now l") (simp add: handshakeConn_def logged_cong [of "setLane _ _ _" "snd (handshake e now l)"])
qed (auto simp: logged_ok_def acceptFailed_def trackConn_def startServing_def releaseSlot_def receiveUDP_def udpReadFailed_def Let_def)

interpretation refusals: kept_by_steps systep logged_ok
  by unfold_locales (rule systep_logged)

text \<open>
  No peer can make the receiver write its own log at will: two lines of one class of refusal are at
  least \<open>refusalLogEvery\<close> apart, whatever arrives.
\<close>

theorem refusal_log_throttled:
  assumes "receiving cfg l"
  shows "sorted_wrt (\<lambda>(k, t) (k', t'). k = k' \<longrightarrow> refusalLogEvery \<le> t' - t) (sy_logged l)"
proof -
  have "logged_ok (NewSyslogListener cfg)" by (simp add: logged_ok_def NewSyslogListener_def)
  with assms have "logged_ok l" unfolding receiving_def by (rule refusals.kept_run)
  then show ?thesis by (simp add: logged_ok_def)
qed

section \<open>Shutdown\<close>

text \<open>How much is left to do once the listener is closing.\<close>

fun acceptRank :: "acceptAt \<Rightarrow> nat" where
  "acceptRank Accepting = 1"
| "acceptRank (TookSlot p) = 6"
| "acceptRank (SampledSlot p n) = 5"
| "acceptRank (ToTrack p) = 4"
| "acceptRank Undone = 3"
| "acceptRank (SampledUndo n) = 2"
| "acceptRank Stopped = 0"

fun connRank :: "connAt \<Rightarrow> nat" where
  "connRank (Handshaking p) = 9"
| "connRank (Starting p) = 8"
| "connRank (Serving p) = 5"
| "connRank (Ending p) = 3"
| "connRank Released = 2"
| "connRank (SampledRelease n) = 1"

definition laneRank :: "lane \<Rightarrow> nat" where
  "laneRank ln = acceptRank (ln_accept ln) + (\<Sum>c\<leftarrow>ln_conns ln. connRank c) + ln_tickers ln"

definition udpRank :: "syslogListener \<Rightarrow> nat" where
  "udpRank l = (if sy_udpReading l then 1 else 0) + 2 * length (sy_udpQ l) + length (sy_udpBusy l)"

definition syRank :: "syslogListener \<Rightarrow> nat" where
  "syRank l = laneRank (sy_tcp l) + laneRank (sy_tls l) + udpRank l + (if sy_waited l then 0 else 1)"

lemma syRank_setLane: "syRank (setLane t ln l) + laneRank (laneOf t l) = syRank l + laneRank ln"
  by (cases t) (auto simp: syRank_def udpRank_def)

lemma syRank_wg [simp]: "syRank (l\<lparr>sy_wg := n\<rparr>) = syRank l"
  by (simp add: syRank_def udpRank_def)

lemma sum_remove1: "c \<in> set xs \<Longrightarrow> (\<Sum>x\<leftarrow>remove1 c xs. f x) + (f c :: nat) = (\<Sum>x\<leftarrow>xs. f x)"
  by (induction xs) auto

lemma laneRank_move:
  assumes "c \<in> set (ln_conns ln)"
  shows "laneRank (moveConn c cs ln) + connRank c = laneRank ln + (\<Sum>d\<leftarrow>cs. connRank d)"
  using sum_remove1 [OF assms, of connRank] by (simp add: laneRank_def moveConn_def)

definition progress :: "syslogListener \<Rightarrow> bool" where
  "progress l \<longleftrightarrow> (\<exists>l'. systep l l' \<and> sy_closing l' \<and> syRank l' < syRank l)"

lemma progressI: "systep l l' \<Longrightarrow> sy_closing l' \<Longrightarrow> syRank l' < syRank l \<Longrightarrow> progress l"
  by (auto simp: progress_def)

lemma lane_progress:
  assumes "systep l (setLane t ln (l\<lparr>sy_wg := n\<rparr>))" "sy_closing l" "laneRank ln < laneRank (laneOf t l)"
  shows "progress l"
  using assms syRank_setLane [of t ln "l\<lparr>sy_wg := n\<rparr>"] by (intro progressI [OF assms(1)]) auto

lemma wg_same: "l\<lparr>sy_wg := sy_wg l\<rparr> = l"
  by simp

lemma conn_progress:
  assumes "sy_closing l" "c \<in> set (ln_conns (laneOf t l))"
  shows "progress l"
proof (cases c)
  case (Handshaking p)
  have "handshakeConn t p (HandshakeFails True False) 0 l = setLane t (moveConn c [Ending p] (laneOf t l)) l"
    using assms(1) Handshaking by (simp add: handshakeConn_def)
  then show ?thesis using systep.Shake [of p t l "HandshakeFails True False" 0] assms Handshaking laneRank_move [OF assms(2), of "[Ending p]"]
    by (intro lane_progress [of l t "moveConn c [Ending p] (laneOf t l)" "sy_wg l"]) auto
next
  case (Starting p)
  let ?ln = "(laneOf t l)\<lparr>ln_tickers := Suc (ln_tickers (laneOf t l))\<rparr>"
  have m: "c \<in> set (ln_conns ?ln)" using assms(2) by simp
  have "laneRank ?ln = Suc (laneRank (laneOf t l))" by (simp add: laneRank_def)
  then show ?thesis using systep.Serve [of p t l] assms Starting laneRank_move [OF m, of "[Serving p]"]
    by (intro lane_progress [of l t "moveConn c [Serving p] ?ln" "Suc (sy_wg l)"]) (auto simp: startServing_def)
next
  case (Serving p)
  then show ?thesis using systep.Ends [of p t l] assms laneRank_move [OF assms(2), of "[Ending p]"]
    by (intro lane_progress [of l t "moveConn c [Ending p] (laneOf t l)" "sy_wg l"]) auto
next
  case (Ending p)
  let ?ln = "(laneOf t l)\<lparr>ln_sem := ln_sem (laneOf t l) - 1\<rparr>"
  have m: "c \<in> set (ln_conns ?ln)" using assms(2) by simp
  have "laneRank ?ln = laneRank (laneOf t l)" by (simp add: laneRank_def)
  then show ?thesis using systep.Release [of p t l] assms Ending laneRank_move [OF m, of "[Released]"]
    by (intro lane_progress [of l t "moveConn c [Released] ?ln" "sy_wg l"]) (auto simp: releaseSlot_def)
next
  case Released
  then show ?thesis using systep.SampleReleased [of t l] assms laneRank_move [OF assms(2), of "[SampledRelease (ln_sem (laneOf t l))]"]
    by (intro lane_progress [of l t "moveConn c [SampledRelease (ln_sem (laneOf t l))] (laneOf t l)" "sy_wg l"]) auto
next
  case (SampledRelease n)
  let ?ln = "(laneOf t l)\<lparr>ln_gauge := n\<rparr>"
  have m: "c \<in> set (ln_conns ?ln)" using assms(2) by simp
  have "laneRank ?ln = laneRank (laneOf t l)" by (simp add: laneRank_def)
  then show ?thesis using systep.ObserveReleased [of n t l] assms SampledRelease laneRank_move [OF m, of "[]"]
    by (intro lane_progress [of l t "moveConn c [] ?ln" "sy_wg l - 1"]) auto
qed

lemma accept_progress:
  assumes "sy_closing l" "ln_accept (laneOf t l) \<noteq> Stopped"
  shows "progress l"
proof -
  have step: "progress l" if "systep l (setLane t ln l)" "laneRank ln < laneRank (laneOf t l)" for ln
    using assms(1) that lane_progress [of l t ln "sy_wg l"] by simp
  show ?thesis
  proof (cases "ln_accept (laneOf t l)")
    case Accepting
    have "acceptFailed t l = setLane t ((laneOf t l)\<lparr>ln_accept := Stopped\<rparr>) l" using assms(1) by (simp add: acceptFailed_def)
    then show ?thesis using step [of "(laneOf t l)\<lparr>ln_accept := Stopped\<rparr>"] systep.AcceptFails [OF Accepting] Accepting
      by (simp add: laneRank_def)
  next
    case (TookSlot p)
    show ?thesis by (rule step [OF systep.SampleTaken [OF TookSlot]]) (simp add: laneRank_def TookSlot)
  next
    case (SampledSlot p n)
    show ?thesis by (rule step [OF systep.ObserveTaken [OF SampledSlot]]) (simp add: laneRank_def SampledSlot)
  next
    case (ToTrack p)
    have "trackConn t p l = setLane t ((laneOf t l)\<lparr>ln_sem := ln_sem (laneOf t l) - 1, ln_accept := Undone\<rparr>) l"
      using assms(1) by (simp add: trackConn_def Let_def)
    then show ?thesis using step [of "(laneOf t l)\<lparr>ln_sem := ln_sem (laneOf t l) - 1, ln_accept := Undone\<rparr>"] systep.Track [OF ToTrack] ToTrack
      by (simp add: laneRank_def)
  next
    case Undone
    show ?thesis by (rule step [OF systep.SampleUndone [OF Undone]]) (simp add: laneRank_def Undone)
  next
    case (SampledUndo n)
    show ?thesis by (rule step [OF systep.ObserveUndone [OF SampledUndo]]) (simp add: laneRank_def SampledUndo)
  qed (use assms in simp)
qed

lemma udp_progress:
  assumes "sy_closing l" "0 < udpRank l" "0 < sc_UDPWorkers (sy_cfg l)"
  shows "progress l"
proof -
  consider (busy) j where "j \<in> set (sy_udpBusy l)" | (queue) j js where "sy_udpQ l = j # js" "sy_udpBusy l = []" | (reading) "sy_udpReading l"
    using assms(2) by (cases "sy_udpBusy l"; cases "sy_udpQ l") (auto simp: udpRank_def split: if_splits)
  then show ?thesis
  proof cases
    case busy
    then show ?thesis using assms(1) length_filter_remove1 [OF busy, of "\<lambda>_. True"]
      by (intro progressI [OF systep.WorkerDone [OF busy]]) (auto simp: syRank_def udpRank_def)
  next
    case queue
    then show ?thesis using assms by (intro progressI [OF systep.WorkerTakes [OF queue(1)]]) (auto simp: syRank_def udpRank_def)
  next
    case reading
    then show ?thesis using assms(1)
      by (intro progressI [OF systep.ReadFails [OF reading]]) (auto simp: syRank_def udpRank_def udpReadFailed_def)
  qed
qed

definition finished :: "syslogListener \<Rightarrow> bool" where
  "finished l \<longleftrightarrow> sy_waited l \<and> ln_accept (sy_tcp l) = Stopped \<and> ln_accept (sy_tls l) = Stopped \<and>
     \<not> sy_udpReading l \<and> sy_udpQ l = [] \<and> sy_udpBusy l = []"

lemma acceptRank_0 [simp]: "acceptRank a = 0 \<longleftrightarrow> a = Stopped"
  by (cases a) auto

lemma connRank_pos [simp]: "0 < connRank c"
  by (cases c) auto

lemma laneRank_0: "laneRank ln = 0 \<Longrightarrow> ln_accept ln = Stopped \<and> ln_conns ln = [] \<and> ln_tickers ln = 0"
  using connRank_pos by (cases "ln_conns ln") (auto simp: laneRank_def less_imp_neq [THEN not_sym])

lemma closing_progress:
  assumes "sy_closing l" "sy_ok l" "0 < sc_UDPWorkers (sy_cfg l)" "\<not> finished l"
  shows "progress l"
proof (cases "laneRank (sy_tcp l) + laneRank (sy_tls l) + udpRank l = 0")
  case True
  then have "sy_wg l = 0" "\<not> sy_waited l"
    using assms(2,4) laneRank_0 [of "sy_tcp l"] laneRank_0 [of "sy_tls l"]
    by (auto simp: sy_ok_def waiters_def finished_def udpRank_def split: if_splits)
  then show ?thesis using assms(1) by (intro progressI [OF systep.Waited]) (auto simp: syRank_def udpRank_def)
next
  case False
  show ?thesis
  proof (cases "udpRank l = 0")
    case True
    then obtain t where t: "laneRank (laneOf t l) \<noteq> 0" using False by (metis add_0 laneOf.simps)
    show ?thesis
    proof (cases "ln_conns (laneOf t l)")
      case Nil
      show ?thesis
      proof (cases "ln_tickers (laneOf t l) = 0")
        case True
        then show ?thesis using t Nil accept_progress [OF assms(1), of t] by (auto simp: laneRank_def)
      next
        case False
        then have "length (filter isServing (ln_conns (laneOf t l))) < ln_tickers (laneOf t l)" using Nil by simp
        from lane_progress [OF systep.TickerEnds [OF this] assms(1)] show ?thesis using False by (simp add: laneRank_def)
      qed
    next
      case (Cons c cs)
      then show ?thesis using conn_progress [OF assms(1), of c t] by simp
    qed
  next
    case False
    then show ?thesis using udp_progress [OF assms(1) _ assms(3)] by simp
  qed
qed

lemma closing_finishes:
  assumes "receiving cfg l" "sy_closing l"
  shows "\<exists>l'. systep\<^sup>*\<^sup>* l l' \<and> finished l'"
  using assms
proof (induction "syRank l" arbitrary: l rule: less_induct)
  case less
  have w: "0 < sc_UDPWorkers (sy_cfg l)"
    using receiving_cfg [OF less.prems(1)] by (simp add: withDefaults_def orDefault_def defaultUDPWorkers_def)
  show ?case
  proof (cases "finished l")
    case False
    then obtain l' where l': "systep l l'" "sy_closing l'" "syRank l' < syRank l"
      using closing_progress [OF less.prems(2) receiving_ok [OF less.prems(1)] w] by (auto simp: progress_def)
    then have "receiving cfg l'" using less.prems(1) by (simp add: receiving_def)
    then show ?thesis using less.hyps [OF l'(3) _ l'(2)] l'(1) by (meson converse_rtranclp_into_rtranclp)
  qed blast
qed

text \<open>
  (C24) The receiver can always shut down: from whatever state it is in when \<^verbatim>\<open>Close\<close> is called, with
  connections in the middle of a handshake, served or giving their slot back, the goroutines have a way to the
  end in which every loop has stopped and every admitted datagram has been handled, so \<^verbatim>\<open>Run\<close> returns.
\<close>

theorem shutdown_completes:
  assumes "receiving cfg l" "sy_closing l"
  shows "\<exists>l'. systep\<^sup>*\<^sup>* l l' \<and> finished l' \<and> sy_accepted l' = length (sy_handled l')"
proof -
  obtain l' where l': "systep\<^sup>*\<^sup>* l l'" "finished l'" using closing_finishes [OF assms] by blast
  then have "receiving cfg l'" using assms(1) by (simp add: receiving_def)
  then show ?thesis using l' receiving_udp [of cfg l'] by (auto simp: udp_ok_def finished_def)
qed

section \<open>Concrete runs\<close>

definition sampleSyslog :: syslogConfig where
  "sampleSyslog = \<lparr>sc_UDPAddr = '':514'', sc_TCPAddr = '':514'', sc_UDPReceiveBuffer = 0, sc_UDPWorkers = 0, sc_UDPQueueSize = 0,
     sc_TLSAddr = [], sc_TLSConfig = False, sc_AllowedPeers = [], sc_MaxConns = 2, sc_TLSHandshakeTimeout = 0\<rparr>"

text \<open>The listener with its plain transport in a given state.\<close>

definition tcpAt :: "nat \<Rightarrow> nat \<Rightarrow> connAt list \<Rightarrow> nat \<Rightarrow> nat \<Rightarrow> syslogListener" where
  "tcpAt k g cs ts wg = (NewSyslogListener sampleSyslog)\<lparr>sy_tcp := \<lparr>ln_sem = k, ln_gauge = g, ln_accept = Accepting, ln_conns = cs, ln_tickers = ts\<rparr>, sy_wg := wg\<rparr>"

lemmas sample_run_simps = tcpAt_def NewSyslogListener_def sampleSyslog_def newLane_def withDefaults_def orDefault_def peerAllowed_def
  acceptConn_def trackConn_def startServing_def moveConn_def releaseSlot_def peerAddr_def Let_def

lemma tcpAt_start: "tcpAt 0 0 [] 0 0 = NewSyslogListener sampleSyslog"
  by (simp add: sample_run_simps)

text \<open>A free slot is taken, observed and handed over.\<close>

lemma sample_accept:
  assumes "k < 2"
  shows "systep\<^sup>*\<^sup>* (tcpAt k g cs ts wg) (tcpAt (Suc k) (Suc k) (cs @ [Starting AddrNone]) ts (Suc wg))"
proof -
  let ?l = "tcpAt k g cs ts wg" and ?at = "\<lambda>g a. (tcpAt (Suc k) g cs ts wg)\<lparr>sy_tcp := \<lparr>ln_sem = Suc k, ln_gauge = g, ln_accept = a, ln_conns = cs, ln_tickers = ts\<rparr>\<rparr>"
  have a: "systep ?l (?at g (TookSlot AddrNone))"
    using systep.Accept [of TCP ?l 0 None None] assms by (simp add: sample_run_simps)
  have b: "systep (?at g (TookSlot AddrNone)) (?at g (SampledSlot AddrNone (Suc k)))"
    using systep.SampleTaken [of TCP "?at g (TookSlot AddrNone)" AddrNone] by (simp add: sample_run_simps)
  have c: "systep (?at g (SampledSlot AddrNone (Suc k))) (?at (Suc k) (ToTrack AddrNone))"
    using systep.ObserveTaken [of TCP "?at g (SampledSlot AddrNone (Suc k))" AddrNone "Suc k"] by (simp add: sample_run_simps)
  have d: "systep (?at (Suc k) (ToTrack AddrNone)) (tcpAt (Suc k) (Suc k) (cs @ [Starting AddrNone]) ts (Suc wg))"
    using systep.Track [of TCP "?at (Suc k) (ToTrack AddrNone)" AddrNone] by (simp add: sample_run_simps)
  show ?thesis by (meson a b c d rtranclp.rtrancl_refl rtranclp.rtrancl_into_rtrancl)
qed

text \<open>A connection is served, ends with its ticker and gives its slot back.\<close>

lemma sample_serve:
  assumes "list_all (\<lambda>c. \<not> isServing c \<and> c \<noteq> Ending AddrNone) cs"
  shows "systep\<^sup>*\<^sup>* (tcpAt (Suc k) g (Starting AddrNone # cs) 0 wg) (tcpAt k g (cs @ [Released]) 0 wg)"
proof -
  have r: "remove1 (Serving AddrNone) (cs @ [Serving AddrNone]) = cs" "remove1 (Ending AddrNone) (cs @ [Ending AddrNone]) = cs"
    using assms by (auto simp: remove1_append list_all_iff remove1_idem)
  have n: "length (filter isServing (cs @ [Ending AddrNone])) = 0" using assms by (auto simp: list_all_iff filter_empty_conv)
  have a: "systep (tcpAt (Suc k) g (Starting AddrNone # cs) 0 wg) (tcpAt (Suc k) g (cs @ [Serving AddrNone]) 1 (Suc wg))"
    using systep.Serve [of AddrNone TCP "tcpAt (Suc k) g (Starting AddrNone # cs) 0 wg"] by (simp add: sample_run_simps)
  have b: "systep (tcpAt (Suc k) g (cs @ [Serving AddrNone]) 1 (Suc wg)) (tcpAt (Suc k) g (cs @ [Ending AddrNone]) 1 (Suc wg))"
    using systep.Ends [of AddrNone TCP "tcpAt (Suc k) g (cs @ [Serving AddrNone]) 1 (Suc wg)"] r by (simp add: sample_run_simps)
  have c: "systep (tcpAt (Suc k) g (cs @ [Ending AddrNone]) 1 (Suc wg)) (tcpAt (Suc k) g (cs @ [Ending AddrNone]) 0 wg)"
    using systep.TickerEnds [of TCP "tcpAt (Suc k) g (cs @ [Ending AddrNone]) 1 (Suc wg)"] n by (simp add: sample_run_simps)
  have d: "systep (tcpAt (Suc k) g (cs @ [Ending AddrNone]) 0 wg) (tcpAt k g (cs @ [Released]) 0 wg)"
    using systep.Release [of AddrNone TCP "tcpAt (Suc k) g (cs @ [Ending AddrNone]) 0 wg"] r by (simp add: sample_run_simps)
  show ?thesis by (meson a b c d rtranclp.rtrancl_refl rtranclp.rtrancl_into_rtrancl)
qed

lemma sample_sampled:
  assumes "Released \<notin> set cs"
  shows "systep\<^sup>*\<^sup>* (tcpAt k g (cs @ [Released]) ts wg) (tcpAt k g (cs @ [SampledRelease k]) ts wg)"
  using assms systep.SampleReleased [of TCP "tcpAt k g (cs @ [Released]) ts wg"] by (intro r_into_rtranclp) (simp add: sample_run_simps remove1_append)

lemma sample_observed:
  assumes "SampledRelease n \<notin> set cs"
  shows "systep\<^sup>*\<^sup>* (tcpAt k g (cs @ [SampledRelease n]) ts wg) (tcpAt k n cs ts (wg - 1))"
  using assms systep.ObserveReleased [of n TCP "tcpAt k g (cs @ [SampledRelease n]) ts wg"]
  by (intro r_into_rtranclp) (simp add: sample_run_simps remove1_append)

text \<open>
  (C25) The gauge of connection slots is not exact at rest. Two connections that end together give their
  slots back in one order and may set the gauge in the other: the receiver is then idle, with every slot free and
  nothing in flight, and the gauge says one slot is in use, until the next connection arrives.
\<close>

theorem gauge_stale_at_rest:
  "\<exists>l. receiving sampleSyslog l \<and> ln_accept (sy_tcp l) = Accepting \<and> ln_conns (sy_tcp l) = [] \<and> ln_tickers (sy_tcp l) = 0 \<and>
     ln_sem (sy_tcp l) = 0 \<and> ln_gauge (sy_tcp l) = 1"
proof -
  let ?s = "Starting AddrNone"
  have "systep\<^sup>*\<^sup>* (tcpAt 0 0 [] 0 0) (tcpAt 1 1 [?s] 0 1)" using sample_accept [of 0 0 "[]" 0 0] by simp
  also have "systep\<^sup>*\<^sup>* (tcpAt 1 1 [?s] 0 1) (tcpAt 2 2 [?s, ?s] 0 2)" using sample_accept [of 1 1 "[?s]" 0 1] by (simp add: numeral_2_eq_2)
  also have "systep\<^sup>*\<^sup>* (tcpAt 2 2 [?s, ?s] 0 2) (tcpAt 1 2 [?s, Released] 0 2)" using sample_serve [of "[?s]" 1 2 2] by (simp add: numeral_2_eq_2)
  also have "systep\<^sup>*\<^sup>* (tcpAt 1 2 [?s, Released] 0 2) (tcpAt 1 2 [?s, SampledRelease 1] 0 2)" using sample_sampled [of "[?s]" 1 2 0 2] by simp
  also have "systep\<^sup>*\<^sup>* (tcpAt 1 2 [?s, SampledRelease 1] 0 2) (tcpAt 0 2 [SampledRelease 1, Released] 0 2)"
    using sample_serve [of "[SampledRelease 1]" 0 2 2] by simp
  also have "systep\<^sup>*\<^sup>* (tcpAt 0 2 [SampledRelease 1, Released] 0 2) (tcpAt 0 2 [SampledRelease 1, SampledRelease 0] 0 2)"
    using sample_sampled [of "[SampledRelease 1]" 0 2 0 2] by simp
  also have "systep\<^sup>*\<^sup>* (tcpAt 0 2 [SampledRelease 1, SampledRelease 0] 0 2) (tcpAt 0 0 [SampledRelease 1] 0 1)"
    using sample_observed [of 0 "[SampledRelease 1]" 0 2 0 2] by simp
  also have "systep\<^sup>*\<^sup>* (tcpAt 0 0 [SampledRelease 1] 0 1) (tcpAt 0 1 [] 0 0)" using sample_observed [of 1 "[]" 0 0 0 1] by simp
  finally have "receiving sampleSyslog (tcpAt 0 1 [] 0 0)" by (simp add: receiving_def tcpAt_start)
  then show ?thesis by (intro exI [of _ "tcpAt 0 1 [] 0 0"]) (simp add: tcpAt_def)
qed

text \<open>Start-up and the receive buffer.\<close>

lemma fallbackSize_spec:
  "case fallbackSize setBuf n of
     Some a \<Rightarrow> setBuf a \<and> (\<exists>k. a = n div 2 ^ k \<and> (\<forall>j < k. \<not> setBuf (n div 2 ^ j)))
   | None \<Rightarrow> \<forall>k. minUDPReceiveBufferFallback \<le> n div 2 ^ k \<longrightarrow> \<not> setBuf (n div 2 ^ k)"
proof (induction setBuf n rule: fallbackSize.induct)
  case (1 setBuf n)
  have half: "(n div 2) div 2 ^ k = n div 2 ^ Suc k" for k by (simp add: zdiv_zmult2_eq)
  consider (small) "n < minUDPReceiveBufferFallback" | (taken) "minUDPReceiveBufferFallback \<le> n" "setBuf n"
    | (refused) "minUDPReceiveBufferFallback \<le> n" "\<not> setBuf n" by linarith
  then show ?case
  proof cases
    case small
    have "n div 2 ^ k < minUDPReceiveBufferFallback" for k
    proof (cases "0 \<le> n")
      case True
      then have "n div 2 ^ k \<le> n" using zdiv_mono2 [of n 1 "2 ^ k"] by simp
      then show ?thesis using small by simp
    next
      case False
      then have "n div 2 ^ k < 0" by (simp add: div_neg_pos_less0)
      then show ?thesis by (simp add: minUDPReceiveBufferFallback_def)
    qed
    then have "\<not> minUDPReceiveBufferFallback \<le> n div 2 ^ k" for k by (simp add: not_le)
    then show ?thesis using small by (subst fallbackSize.simps) simp
  next
    case taken
    then show ?thesis by (subst fallbackSize.simps) (auto intro: exI [of _ 0])
  next
    case refused
    have all: "(\<forall>j < Suc k. \<not> setBuf (n div 2 ^ j)) \<longleftrightarrow> \<not> setBuf n \<and> (\<forall>j < k. \<not> setBuf ((n div 2) div 2 ^ j))" for k
      unfolding half by (auto simp: less_Suc_eq_0_disj)
    show ?thesis
    proof (cases "fallbackSize setBuf (n div 2)")
      case None
      then have "minUDPReceiveBufferFallback \<le> n div 2 ^ k \<longrightarrow> \<not> setBuf (n div 2 ^ k)" for k
        using "1.IH" [OF refused] refused(2) half by (cases k) auto
      then show ?thesis using None refused by (subst fallbackSize.simps) simp
    next
      case (Some a)
      then obtain k where "setBuf a" "a = n div 2 ^ Suc k" "\<forall>j < k. \<not> setBuf ((n div 2) div 2 ^ j)"
        using "1.IH" [OF refused] half by auto
      then have "setBuf a \<and> (\<exists>k. a = n div 2 ^ k \<and> (\<forall>j < k. \<not> setBuf (n div 2 ^ j)))" using all refused(2) by blast
      then show ?thesis using Some refused by (subst fallbackSize.simps) simp
    qed
  qed
qed

text \<open>
  The receive buffer is the largest the kernel grants of the requested size and its halvings: what is
  set is the first of them not refused; start-up fails on the buffer only when the request and every halving of
  it down to the floor are refused.
\<close>

theorem receive_buffer_first_granted:
  fixes requested :: int and setBuf :: "int \<Rightarrow> bool"
  defines "r \<equiv> (if requested \<le> 0 then defaultUDPReceiveBuffer else requested)"
  shows "case configureUDPReceiveBufferObserved setBuf readBuf goos requested of
     BufferSet a effective fellBack clamped \<Rightarrow> setBuf a \<and> (\<exists>k. a = r div 2 ^ k \<and> (\<forall>j < k. \<not> setBuf (r div 2 ^ j)) \<and> (fellBack \<longleftrightarrow> k \<noteq> 0))
   | SetRefused q \<Rightarrow> q = r \<and> \<not> setBuf r \<and> (\<forall>k. minUDPReceiveBufferFallback \<le> r div 2 ^ k \<longrightarrow> \<not> setBuf (r div 2 ^ k))
   | ReadFailed q \<Rightarrow> q = r"
proof (cases "setBuf r")
  case True
  then show ?thesis by (auto simp: configureUDPReceiveBufferObserved_def r_def Let_def split: option.split intro: exI [of _ 0])
next
  case False
  have half: "(r div 2) div 2 ^ k = r div 2 ^ Suc k" for k by (simp add: zdiv_zmult2_eq)
  show ?thesis
  proof (cases "fallbackSize setBuf (r div 2)")
    case None
    then have "minUDPReceiveBufferFallback \<le> r div 2 ^ k \<longrightarrow> \<not> setBuf (r div 2 ^ k)" for k
      using fallbackSize_spec [where setBuf = setBuf and n = "r div 2"] False half by (cases k) auto
    then show ?thesis using None False by (simp add: configureUDPReceiveBufferObserved_def flip: r_def)
  next
    case (Some a)
    then obtain k where k: "setBuf a" "a = r div 2 ^ Suc k" "\<forall>j < k. \<not> setBuf (r div 2 ^ Suc j)"
      using fallbackSize_spec [where setBuf = setBuf and n = "r div 2"] half by auto
    have "\<forall>j < Suc k. \<not> setBuf (r div 2 ^ j)" using k(3) False by (auto simp: less_Suc_eq_0_disj)
    then show ?thesis using Some False k(1,2)
      by (auto simp: configureUDPReceiveBufferObserved_def split: option.split intro!: exI [of _ "Suc k"] simp flip: r_def)
  qed
qed

text \<open>Start-up is all or nothing: every configured socket is bound, or none is left open.\<close>

lemma start_all_or_nothing:
  "case Start udpBinds tcpBinds tlsBinds buffer cfg of
     (s, None) \<Rightarrow> (sk_udp s = Bound \<longleftrightarrow> sc_UDPAddr cfg \<noteq> []) \<and> (sk_tcp s = Bound \<longleftrightarrow> sc_TCPAddr cfg \<noteq> []) \<and> (sk_tls s = Bound \<longleftrightarrow> tlsEnabled cfg)
   | (s, Some e) \<Rightarrow> sk_udp s \<noteq> Bound \<and> sk_tcp s \<noteq> Bound \<and> sk_tls s \<noteq> Bound"
  by (auto simp: Start_def startTCP_def startTLS_def closeSockets_def shut_def Let_def split: bufferResult.split)

text \<open>One connection, being handed over.\<close>

lemma sample_receiving: "receiving sampleSyslog (tcpAt 1 1 [Starting AddrNone] 0 1)"
  using sample_accept [of 0 0 "[]" 0 0] by (simp add: receiving_def tcpAt_start)

theorem slots_per_transport_witness:
  "int (slotHolders (laneOf TCP (tcpAt 1 1 [Starting AddrNone] 0 1))) \<le> sc_MaxConns (withDefaults sampleSyslog)"
  using slots_per_transport [OF sample_receiving, of TCP 0 AddrNone] by blast

theorem datagrams_accounted_witness:
  "sy_accepted (tcpAt 1 1 [Starting AddrNone] 0 1) = length (sy_udpQ (tcpAt 1 1 [Starting AddrNone] 0 1)) +
     length (sy_udpBusy (tcpAt 1 1 [Starting AddrNone] 0 1)) + length (sy_handled (tcpAt 1 1 [Starting AddrNone] 0 1))"
  using datagrams_accounted [OF sample_receiving, of AddrNone "[]"] by blast

theorem refusal_log_throttled_witness:
  "sorted_wrt (\<lambda>(k, t) (k', t'). k = k' \<longrightarrow> refusalLogEvery \<le> t' - t) (sy_logged (tcpAt 1 1 [Starting AddrNone] 0 1))"
  by (rule refusal_log_throttled [OF sample_receiving])

lemma sample_closing: "receiving sampleSyslog ((tcpAt 1 1 [Starting AddrNone] 0 1)\<lparr>sy_closing := True\<rparr>)"
  using sample_receiving systep.Closes unfolding receiving_def by (rule rtranclp.rtrancl_into_rtrancl)

theorem shutdown_completes_witness:
  "\<exists>l'. systep\<^sup>*\<^sup>* ((tcpAt 1 1 [Starting AddrNone] 0 1)\<lparr>sy_closing := True\<rparr>) l' \<and> finished l' \<and> sy_accepted l' = length (sy_handled l')"
  by (rule shutdown_completes [OF sample_closing]) simp

text \<open>The listener closed before any connection.\<close>

lemma sample_waited: "receiving sampleSyslog ((tcpAt 0 0 [] 0 0)\<lparr>sy_closing := True, sy_waited := True\<rparr>)"
proof -
  have "systep (tcpAt 0 0 [] 0 0) ((tcpAt 0 0 [] 0 0)\<lparr>sy_closing := True\<rparr>)" by (rule systep.Closes)
  moreover have "systep ((tcpAt 0 0 [] 0 0)\<lparr>sy_closing := True\<rparr>) ((tcpAt 0 0 [] 0 0)\<lparr>sy_closing := True, sy_waited := True\<rparr>)"
    using systep.Waited [of "(tcpAt 0 0 [] 0 0)\<lparr>sy_closing := True\<rparr>"] by (simp add: tcpAt_def)
  ultimately show ?thesis unfolding receiving_def tcpAt_start by (meson rtranclp.rtrancl_refl rtranclp.rtrancl_into_rtrancl)
qed

theorem close_is_final_witness:
  "ln_conns (laneOf TCP ((tcpAt 0 0 [] 0 0)\<lparr>sy_closing := True, sy_waited := True\<rparr>)) = [] \<and>
   ln_tickers (laneOf TCP ((tcpAt 0 0 [] 0 0)\<lparr>sy_closing := True, sy_waited := True\<rparr>)) = 0"
  by (rule close_is_final [OF sample_waited]) simp_all

end
