(* ===== verification/LogSink.thy ===== *)
theory LogSink
  imports LogQueue ZenParse
begin

text \<open>
  The delivery targets of the log pipeline (\<^verbatim>\<open>internal/logship/sink.go\<close>, \<^verbatim>\<open>sink_stdout.go\<close>, \<^verbatim>\<open>sink_otlp.go\<close>): what
  one attempt reports, how the OTLP sink splits a batch into one request per resource, and how it reads the
  outcome of a request off the wire. The exporter of the OpenTelemetry SDK enters as what its flush of one
  partition observed; parsing of an HTTP date and of the protobuf answer are arguments. The workers that flush
  the partitions at the same time write to slots of their own, so the result is that of flushing them in turn.
  The locale \<open>sink\<close> is what the pipeline relies on.
\<close>

section \<open>Results\<close>

datatype sinkError = RateLimited duration | ExportFailed | ResourceFailed

text \<open>The errors joined by \<^verbatim>\<open>errors.Join\<close>, in order; none is the nil error.\<close>

record SinkResult =
  sr_Acked :: "Entry list"
  sr_Rejected :: "Entry list"
  sr_Retry :: "Entry list"
  sr_Err :: "sinkError list"

definition SinkResult_zero :: SinkResult where
  "SinkResult_zero = \<lparr>sr_Acked = [], sr_Rejected = [], sr_Retry = [], sr_Err = []\<rparr>"

definition ackedResult :: "Entry list \<Rightarrow> SinkResult" where
  "ackedResult batch = SinkResult_zero\<lparr>sr_Acked := batch\<rparr>"

definition retryResult :: "Entry list \<Rightarrow> sinkError \<Rightarrow> SinkResult" where
  "retryResult batch e = SinkResult_zero\<lparr>sr_Retry := batch, sr_Err := [e]\<rparr>"

fun rateLimitDelay :: "sinkError list \<Rightarrow> duration option" where
  "rateLimitDelay [] = None"
| "rateLimitDelay (RateLimited d # es) = Some d"
| "rateLimitDelay (e # es) = rateLimitDelay es"

definition resultEntries :: "SinkResult \<Rightarrow> Entry multiset" where
  "resultEntries res = mset (sr_Acked res) + mset (sr_Rejected res) + mset (sr_Retry res)"

definition covers :: "SinkResult \<Rightarrow> Entry list \<Rightarrow> bool" where
  "covers res batch \<longleftrightarrow> resultEntries res = mset batch"

text \<open>
  The contract of \<^verbatim>\<open>Sink\<close>: whatever happens on the wire (\<open>'w\<close>) and whatever state the sink is in, an attempt
  accounts for every entry it was handed, once.
\<close>

locale sink =
  fixes emit_batch :: "'w \<Rightarrow> Entry list \<Rightarrow> 's \<Rightarrow> SinkResult \<times> 's"
  assumes emit_covers: "covers (fst (emit_batch w batch s)) batch"
begin

lemma retry_shorter: "length (sr_Retry (fst (emit_batch w batch s))) \<le> length batch"
proof -
  have "size (mset (sr_Retry (fst (emit_batch w batch s)))) \<le> size (mset batch)"
    using emit_covers [of w batch s] unfolding covers_def resultEntries_def by (metis le_add2 size_union)
  then show ?thesis by simp
qed

end

section \<open>The stdout sink\<close>

text \<open>\<open>encodes\<close> says whether the writer takes the \<open>n\<close>-th line.\<close>

fun stdoutLoop :: "(nat \<Rightarrow> bool) \<Rightarrow> nat \<Rightarrow> Entry list \<Rightarrow> bool" where
  "stdoutLoop encodes n [] = True"
| "stdoutLoop encodes n (e # es) = (encodes n \<and> stdoutLoop encodes (Suc n) es)"

definition stdoutEmit :: "(nat \<Rightarrow> bool) \<Rightarrow> Entry list \<Rightarrow> unit \<Rightarrow> SinkResult \<times> unit" where
  "stdoutEmit encodes batch s = (if stdoutLoop encodes 0 batch then ackedResult batch else retryResult batch ExportFailed, s)"

interpretation stdout: sink stdoutEmit
  by unfold_locales (simp add: stdoutEmit_def covers_def resultEntries_def ackedResult_def retryResult_def SinkResult_zero_def)

section \<open>What a request's answer means\<close>

datatype deliveryOutcome =
    outcomeUnknown | outcomeAccepted | outcomePartial | outcomePermanent | outcomeRetryable | outcomeRateLimited

record deliveryObservation =
  ob_outcome :: deliveryOutcome
  ob_rejected :: int
  ob_retryAfter :: duration

definition newObservation :: deliveryObservation where
  "newObservation = \<lparr>ob_outcome = outcomeUnknown, ob_rejected = 0, ob_retryAfter = 0\<rparr>"

definition obs_record :: "deliveryOutcome \<times> int \<Rightarrow> deliveryObservation \<Rightarrow> deliveryObservation" where
  "obs_record r obs = \<lparr>ob_outcome = fst r, ob_rejected = snd r, ob_retryAfter = 0\<rparr>"

definition recordRateLimited :: "duration \<Rightarrow> deliveryObservation \<Rightarrow> deliveryObservation" where
  "recordRateLimited d obs = \<lparr>ob_outcome = outcomeRateLimited, ob_rejected = 0, ob_retryAfter = d\<rparr>"

definition maxRetryAfter :: duration where
  "maxRetryAfter = 30 * second_ns"

definition clampRetryAfter :: "duration \<Rightarrow> duration" where
  "clampRetryAfter d = (if maxRetryAfter < d then maxRetryAfter else d)"

text \<open>The product of the seconds and \<^verbatim>\<open>time.Second\<close> is taken in 64 bits, where it wraps.\<close>

definition retryAfterDelay :: "(string \<Rightarrow> time option) \<Rightarrow> string \<Rightarrow> time \<Rightarrow> duration" where
  "retryAfterDelay parseTime v0 now =
     (let v = TrimSpace v0 in
      if v = [] then 0
      else case Atoi v of
        Some secs \<Rightarrow> if secs \<le> 0 then 0 else clampRetryAfter (sint (word_of_int (secs * second_ns) :: 64 word))
      | None \<Rightarrow>
          (case parseTime v of
             Some t \<Rightarrow> if 0 < time_Sub t now then clampRetryAfter (time_Sub t now) else 0
           | None \<Rightarrow> 0))"

definition maxObservedResponseBytes :: int where
  "maxObservedResponseBytes = 2 ^ 20"

text \<open>
  A response as the transport hook sees it: status, headers, and the first bytes of the body with whether
  reading them failed. \<open>decode\<close> is the protobuf decoder: the rejected count and the message of a partial success.
\<close>

record httpResponse =
  hr_StatusCode :: int
  hr_RetryAfter :: string
  hr_ContentType :: string
  hr_Body :: "(u8 list \<times> bool) option"

definition observeHTTPSuccessBody :: "(u8 list \<Rightarrow> (int \<times> string) option option) \<Rightarrow> httpResponse \<Rightarrow> deliveryOutcome \<times> int" where
  "observeHTTPSuccessBody decode resp =
     (case hr_Body resp of
        None \<Rightarrow> (outcomeAccepted, 0)
      | Some (buf, readErr) \<Rightarrow>
          if readErr \<or> buf = [] \<or> maxObservedResponseBytes \<le> int (length buf) then (outcomeAccepted, 0)
          else if hr_ContentType resp \<noteq> ''application/x-protobuf'' then (outcomeAccepted, 0)
          else case decode buf of
            Some (Some (rejected, msg)) \<Rightarrow>
              if rejected = 0 \<and> msg = [] then (outcomeAccepted, 0) else (outcomePartial, rejected)
          | _ \<Rightarrow> (outcomeAccepted, 0))"

definition observeRoundTrip ::
  "(u8 list \<Rightarrow> (int \<times> string) option option) \<Rightarrow> (string \<Rightarrow> time option) \<Rightarrow> time \<Rightarrow> httpResponse option \<Rightarrow>
   deliveryObservation \<Rightarrow> deliveryObservation" where
  "observeRoundTrip decode parseTime now resp obs =
     (case resp of
        None \<Rightarrow> obs_record (outcomeRetryable, 0) obs
      | Some r \<Rightarrow>
          if 200 \<le> hr_StatusCode r \<and> hr_StatusCode r \<le> 299 then obs_record (observeHTTPSuccessBody decode r) obs
          else if hr_StatusCode r = 429 then recordRateLimited (retryAfterDelay parseTime (hr_RetryAfter r) now) obs
          else if hr_StatusCode r = 502 \<or> hr_StatusCode r = 503 \<or> hr_StatusCode r = 504 then obs_record (outcomeRetryable, 0) obs
          else obs_record (outcomePermanent, 0) obs)"

datatype grpcCode =
    GOK | GCanceled | GUnknown | GInvalidArgument | GDeadlineExceeded | GNotFound | GAlreadyExists | GPermissionDenied
  | GResourceExhausted | GFailedPrecondition | GAborted | GOutOfRange | GUnimplemented | GInternal | GUnavailable
  | GDataLoss | GUnauthenticated

text \<open>The gRPC hook, with the partial success of the reply if it has one.\<close>

definition observeUnary :: "(int \<times> string) option \<Rightarrow> grpcCode \<Rightarrow> deliveryObservation \<Rightarrow> deliveryObservation" where
  "observeUnary partial code obs =
     (if (case partial of Some (n, msg) \<Rightarrow> n \<noteq> 0 \<or> msg \<noteq> [] | None \<Rightarrow> False)
      then obs_record (outcomePartial, (case partial of Some (n, msg) \<Rightarrow> n | None \<Rightarrow> 0)) obs
      else if code = GOK then obs_record (outcomeAccepted, 0) obs
      else if code = GResourceExhausted then recordRateLimited 0 obs
      else if code \<in> {GCanceled, GDeadlineExceeded, GAborted, GOutOfRange, GUnavailable, GDataLoss} then obs_record (outcomeRetryable, 0) obs
      else obs_record (outcomePermanent, 0) obs)"

text \<open>One partition's outcome, folded into its result; \<open>failed\<close> is whether the flush returned an error.\<close>

definition joinErr :: "bool \<Rightarrow> sinkError \<Rightarrow> SinkResult \<Rightarrow> SinkResult" where
  "joinErr failed e res = (if failed then res\<lparr>sr_Err := sr_Err res @ [e]\<rparr> else res)"

definition classifyPartition :: "Entry list \<Rightarrow> deliveryObservation \<Rightarrow> bool \<Rightarrow> SinkResult \<Rightarrow> SinkResult" where
  "classifyPartition entries obs failed res =
     (if entries = [] then res
      else case ob_outcome obs of
        outcomePartial \<Rightarrow>
          let n = (if ob_rejected obs < 0 then 0 else if int (length entries) < ob_rejected obs then length entries else nat (ob_rejected obs));
              split = length entries - n
          in joinErr failed ExportFailed
               (res\<lparr>sr_Acked := sr_Acked res @ take split entries, sr_Rejected := sr_Rejected res @ drop split entries\<rparr>)
      | outcomePermanent \<Rightarrow> joinErr failed ExportFailed (res\<lparr>sr_Rejected := sr_Rejected res @ entries\<rparr>)
      | outcomeRateLimited \<Rightarrow> joinErr True (RateLimited (ob_retryAfter obs)) (res\<lparr>sr_Retry := sr_Retry res @ entries\<rparr>)
      | outcomeAccepted \<Rightarrow> res\<lparr>sr_Acked := sr_Acked res @ entries\<rparr>
      | _ \<Rightarrow>
          if ob_outcome obs = outcomeUnknown \<and> \<not> failed then res\<lparr>sr_Acked := sr_Acked res @ entries\<rparr>
          else joinErr failed ExportFailed (res\<lparr>sr_Retry := sr_Retry res @ entries\<rparr>))"

section \<open>Resources\<close>

definition maxLogResources :: nat where
  "maxLogResources = 256"

record resourceKey =
  rk_source :: string
  rk_subsystem :: string
  rk_action :: string
  rk_deviceCategory :: string
  rk_iface :: string

definition baseKey :: resourceKey where
  "baseKey = \<lparr>rk_source = [], rk_subsystem = [], rk_action = [], rk_deviceCategory = [], rk_iface = []\<rparr>"

definition recordAttr :: "LogRecord \<Rightarrow> string \<Rightarrow> string" where
  "recordAttr r k = (case lr_Attributes r of None \<Rightarrow> [] | Some m \<Rightarrow> (case map_of m k of None \<Rightarrow> [] | Some v \<Rightarrow> v))"

definition keyOfEntry :: "Entry \<Rightarrow> resourceKey" where
  "keyOfEntry e = \<lparr>rk_source = en_Source e, rk_subsystem = recordAttr (en_Record e) AttrSubsystem,
     rk_action = recordAttr (en_Record e) AttrAction, rk_deviceCategory = recordAttr (en_Record e) AttrDeviceCategory,
     rk_iface = recordAttr (en_Record e) AttrInterface\<rparr>"

definition keyLess :: "resourceKey \<Rightarrow> resourceKey \<Rightarrow> bool" where
  "keyLess a b =
     (if rk_source a \<noteq> rk_source b then rk_source a < rk_source b
      else if rk_subsystem a \<noteq> rk_subsystem b then rk_subsystem a < rk_subsystem b
      else if rk_action a \<noteq> rk_action b then rk_action a < rk_action b
      else if rk_deviceCategory a \<noteq> rk_deviceCategory b then rk_deviceCategory a < rk_deviceCategory b
      else rk_iface a < rk_iface b)"

definition sortResourceKeys :: "resourceKey list \<Rightarrow> resourceKey list" where
  "sortResourceKeys keys = sort_Slice keyLess keys"

text \<open>The attributes of a resource: the base ones and those of the key that are set.\<close>

definition resourceAttrs :: "(string \<times> string) list \<Rightarrow> resourceKey \<Rightarrow> (string \<times> string) list" where
  "resourceAttrs base key = base @ filter (\<lambda>(k, v). v \<noteq> [])
     [(attrSource, rk_source key), (AttrSubsystem, rk_subsystem key), (AttrAction, rk_action key),
      (AttrDeviceCategory, rk_deviceCategory key), (AttrInterface, rk_iface key)]"

definition baseLogAttributes :: "string \<Rightarrow> string \<Rightarrow> string \<Rightarrow> (string \<times> string) list" where
  "baseLogAttributes serviceName version instance0 = filter (\<lambda>(k, v). v \<noteq> [])
     [(attrServiceName, serviceName), (''service.version'', version), (attrServiceInstanceID, instance0)]"

record otlpSink =
  os_base :: "(string \<times> string) list"
  os_order :: "resourceKey list"
  os_capped :: nat

text \<open>
  The provider for a key and the key it is filed under: beyond the cap every new key shares the base resource.
  \<open>builds\<close> says whether building a resource succeeds.
\<close>

definition loggerFor :: "(resourceKey \<Rightarrow> bool) \<Rightarrow> resourceKey \<Rightarrow> otlpSink \<Rightarrow> resourceKey option \<times> otlpSink" where
  "loggerFor builds key s =
     (if key \<in> set (os_order s) then (Some key, s)
      else
        let capped = (maxLogResources \<le> length (os_order s) + 1);
            s = (if capped then s\<lparr>os_capped := Suc (os_capped s)\<rparr> else s);
            key = (if capped then baseKey else key)
        in if capped \<and> key \<in> set (os_order s) then (Some key, s)
           else if \<not> builds key then (None, s)
           else (Some key, s\<lparr>os_order := os_order s @ [key]\<rparr>))"

section \<open>The record on the wire\<close>

record otlpRecord =
  or_Timestamp :: time
  or_Observed :: time
  or_Body :: string
  or_Severity :: Severity
  or_SeverityText :: string
  or_Attributes :: "(string, string) gomap"

fun otlpSeverityText :: "Severity \<Rightarrow> string" where
  "otlpSeverityText SeverityTrace = ''TRACE''"
| "otlpSeverityText SeverityDebug = ''DEBUG''"
| "otlpSeverityText SeverityWarn = ''WARN''"
| "otlpSeverityText SeverityError = ''ERROR''"
| "otlpSeverityText SeverityFatal = ''FATAL''"
| "otlpSeverityText SeverityInfo = ''INFO''"

definition hoistedKeys :: "string list" where
  "hoistedKeys = [AttrSubsystem, attrSource, AttrAction, AttrDeviceCategory, AttrInterface]"

definition wireRecord :: "time \<Rightarrow> Entry \<Rightarrow> otlpRecord" where
  "wireRecord now e =
     (let observed = (if time_IsZero (en_Received e) then now else en_Received e);
          ts = (if time_IsZero (lr_Timestamp (en_Record e)) then observed else lr_Timestamp (en_Record e))
      in \<lparr>or_Timestamp = ts, or_Observed = observed, or_Body = lr_Body (en_Record e),
          or_Severity = lr_Severity (en_Record e), or_SeverityText = otlpSeverityText (lr_Severity (en_Record e)),
          or_Attributes = filter (\<lambda>(k, v). k \<notin> set hoistedKeys)
            (case lr_Attributes (en_Record e) of None \<Rightarrow> [] | Some m \<Rightarrow> m)\<rparr>)"

section \<open>One attempt\<close>

text \<open>The partitions in the order they appear, each with its entries, and the entries without a resource.\<close>

definition addToPartition :: "resourceKey \<Rightarrow> Entry \<Rightarrow> (resourceKey, Entry list) gomap \<Rightarrow> (resourceKey, Entry list) gomap" where
  "addToPartition k e parts =
     AList.update k ((case map_of parts k of None \<Rightarrow> [] | Some es \<Rightarrow> es) @ [e]) parts"

fun partitionLoop ::
  "(resourceKey \<Rightarrow> bool) \<Rightarrow> Entry list \<Rightarrow> (resourceKey, Entry list) gomap \<Rightarrow> SinkResult \<Rightarrow> otlpSink \<Rightarrow>
   (resourceKey, Entry list) gomap \<times> SinkResult \<times> otlpSink" where
  "partitionLoop builds [] parts res s = (parts, res, s)"
| "partitionLoop builds (e # es) parts res s =
     (case loggerFor builds (keyOfEntry e) s of
        (None, s') \<Rightarrow> partitionLoop builds es parts (res\<lparr>sr_Retry := sr_Retry res @ [e], sr_Err := sr_Err res @ [ResourceFailed]\<rparr>) s'
      | (Some key, s') \<Rightarrow> partitionLoop builds es (addToPartition key e parts) res s')"

definition mergeResult :: "SinkResult \<Rightarrow> SinkResult \<Rightarrow> SinkResult" where
  "mergeResult res r = \<lparr>sr_Acked = sr_Acked res @ sr_Acked r, sr_Rejected = sr_Rejected res @ sr_Rejected r,
     sr_Retry = sr_Retry res @ sr_Retry r, sr_Err = sr_Err res @ sr_Err r\<rparr>"

text \<open>
  What the world answers one attempt with: which resources build, the clock, and for the records of each
  partition what the transport observed and whether the flush failed.
\<close>

record otlpWire =
  ow_builds :: "resourceKey \<Rightarrow> bool"
  ow_now :: time
  ow_flush :: "resourceKey \<Rightarrow> otlpRecord list \<Rightarrow> deliveryObservation \<times> bool"

definition flushPartition :: "otlpWire \<Rightarrow> (resourceKey, Entry list) gomap \<Rightarrow> resourceKey \<Rightarrow> SinkResult" where
  "flushPartition w parts key =
     (let entries = (case map_of parts key of None \<Rightarrow> [] | Some es \<Rightarrow> es);
          (obs, failed) = ow_flush w key (map (wireRecord (ow_now w)) entries)
      in classifyPartition entries obs failed SinkResult_zero)"

definition otlpEmit :: "otlpWire \<Rightarrow> Entry list \<Rightarrow> otlpSink \<Rightarrow> SinkResult \<times> otlpSink" where
  "otlpEmit w batch s =
     (if batch = [] then (SinkResult_zero, s)
      else case partitionLoop (ow_builds w) batch [] SinkResult_zero s of
        (parts, res, s') \<Rightarrow>
          (fold (\<lambda>key res. mergeResult res (flushPartition w parts key)) (sortResourceKeys (map fst parts)) res, s'))"

section \<open>Every entry is accounted for\<close>

lemma joinErr_entries [simp]: "resultEntries (joinErr b e res) = resultEntries res"
  by (simp add: joinErr_def resultEntries_def)

lemma classify_entries: "resultEntries (classifyPartition entries obs failed res) = resultEntries res + mset entries"
proof -
  have split: "mset (take n entries) + mset (drop n entries) = mset entries" for n
    by (metis append_take_drop_id mset_append)
  show ?thesis
    by (cases "ob_outcome obs") (auto simp: classifyPartition_def Let_def resultEntries_def joinErr_def simp flip: add.assoc, simp_all add: split union_assoc)
qed

lemma partEntries_add:
  "gomap_wf parts \<Longrightarrow> (\<Sum>p\<leftarrow>addToPartition k e parts. mset (snd p)) = (\<Sum>p\<leftarrow>parts. mset (snd p)) + {#e#}"
proof (induction parts)
  case (Cons p parts)
  then show ?case by (cases p) (auto simp: addToPartition_def gomap_wf_def)
qed (simp add: addToPartition_def)

lemma addToPartition_wf: "gomap_wf parts \<Longrightarrow> gomap_wf (addToPartition k e parts)"
  by (simp add: addToPartition_def gomap_wf_update)

lemma partition_entries:
  "gomap_wf parts \<Longrightarrow> partitionLoop builds batch parts res s = (parts', res', s') \<Longrightarrow>
   gomap_wf parts' \<and> (\<Sum>p\<leftarrow>parts'. mset (snd p)) + resultEntries res' = (\<Sum>p\<leftarrow>parts. mset (snd p)) + resultEntries res + mset batch"
proof (induction batch arbitrary: parts res s)
  case (Cons e batch)
  obtain k s1 where l: "loggerFor builds (keyOfEntry e) s = (k, s1)" by (cases "loggerFor builds (keyOfEntry e) s")
  show ?case
  proof (cases k)
    case None
    then show ?thesis using Cons.IH [OF Cons.prems(1), of "res\<lparr>sr_Retry := sr_Retry res @ [e], sr_Err := sr_Err res @ [ResourceFailed]\<rparr>" s1] Cons.prems(2) l
      by (simp add: resultEntries_def)
  next
    case (Some key)
    then show ?thesis using Cons.IH [OF addToPartition_wf [OF Cons.prems(1)], of key e res s1] Cons.prems l partEntries_add [OF Cons.prems(1)]
      by simp
  qed
qed simp

lemma flush_entries: "resultEntries (flushPartition w parts key) = (case map_of parts key of None \<Rightarrow> {#} | Some es \<Rightarrow> mset es)"
proof (cases "map_of parts key")
  case None
  then show ?thesis by (auto simp: flushPartition_def classifyPartition_def SinkResult_zero_def resultEntries_def Let_def split: prod.split)
next
  case (Some es)
  obtain obs failed where f: "ow_flush w key (map (wireRecord (ow_now w)) es) = (obs, failed)"
    by (cases "ow_flush w key (map (wireRecord (ow_now w)) es)")
  show ?thesis using classify_entries [of es obs failed SinkResult_zero] Some f by (simp add: flushPartition_def SinkResult_zero_def resultEntries_def)
qed

lemma merge_entries: "resultEntries (mergeResult res r) = resultEntries res + resultEntries r"
  by (simp add: mergeResult_def resultEntries_def)

lemma fold_flush_entries:
  "resultEntries (fold (\<lambda>key res. mergeResult res (flushPartition w parts key)) keys res) =
   resultEntries res + (\<Sum>key\<leftarrow>keys. resultEntries (flushPartition w parts key))"
  by (induction keys arbitrary: res) (simp_all add: merge_entries)

lemma parts_by_key:
  assumes "gomap_wf parts"
  shows "(\<Sum>key\<leftarrow>map fst parts. case map_of parts key of None \<Rightarrow> {#} | Some es \<Rightarrow> mset es) = (\<Sum>p\<leftarrow>parts. mset (snd p))"
proof -
  have "map ((\<lambda>key. case map_of parts key of None \<Rightarrow> {#} | Some es \<Rightarrow> mset es) \<circ> fst) parts = map (\<lambda>p. mset (snd p)) parts"
    using assms by (auto simp: gomap_wf_def map_of_is_SomeI)
  then show ?thesis by (metis map_map)
qed

lemma zero_entries [simp]: "resultEntries SinkResult_zero = {#}"
  by (simp add: resultEntries_def SinkResult_zero_def)

lemma otlpEmit_covers: "covers (fst (otlpEmit w batch s)) batch"
proof (cases "batch = []")
  case False
  obtain parts res s' where p: "partitionLoop (ow_builds w) batch [] SinkResult_zero s = (parts, res, s')"
    by (cases "partitionLoop (ow_builds w) batch [] SinkResult_zero s")
  note e = partition_entries [OF gomap_wf_Nil p]
  have "(\<Sum>key\<leftarrow>sortResourceKeys (map fst parts). resultEntries (flushPartition w parts key)) = (\<Sum>p\<leftarrow>parts. mset (snd p))"
    using e parts_by_key [of parts] by (simp add: sortResourceKeys_def sum_list_sort_Slice flush_entries)
  then show ?thesis using False p e by (simp add: otlpEmit_def covers_def fold_flush_entries zero_entries add.commute)
qed (simp add: otlpEmit_def covers_def zero_entries)

interpretation otlp: sink otlpEmit
  by unfold_locales (rule otlpEmit_covers)

section \<open>Resources are bounded\<close>

definition sink_ok :: "otlpSink \<Rightarrow> bool" where
  "sink_ok s \<longleftrightarrow> distinct (os_order s) \<and> length (os_order s) \<le> maxLogResources \<and>
     (length (os_order s) = maxLogResources \<longrightarrow> baseKey \<in> set (os_order s))"

lemma loggerFor_ok:
  assumes "sink_ok s" "loggerFor builds key s = (k, s')"
  shows "sink_ok s'"
  using assms by (auto simp: loggerFor_def Let_def sink_ok_def maxLogResources_def split: if_splits)

lemma partitionLoop_ok: "sink_ok s \<Longrightarrow> partitionLoop builds batch parts res s = (parts', res', s') \<Longrightarrow> sink_ok s'"
proof (induction batch arbitrary: parts res s)
  case (Cons e batch)
  obtain k s1 where l: "loggerFor builds (keyOfEntry e) s = (k, s1)" by (cases "loggerFor builds (keyOfEntry e) s")
  show ?case using Cons.IH [OF loggerFor_ok [OF Cons.prems(1) l]] Cons.prems(2) l by (cases k) auto
qed simp

lemma otlpEmit_ok: "sink_ok s \<Longrightarrow> sink_ok (snd (otlpEmit w batch s))"
  by (cases "partitionLoop (ow_builds w) batch [] SinkResult_zero s") (auto simp: otlpEmit_def dest: partitionLoop_ok)

text \<open>Attempts, one after another.\<close>

definition otlpRun :: "(otlpWire \<times> Entry list) list \<Rightarrow> otlpSink \<Rightarrow> otlpSink" where
  "otlpRun calls s = fold (\<lambda>(w, batch) s. snd (otlpEmit w batch s)) calls s"

lemma otlpRun_ok: "sink_ok s \<Longrightarrow> sink_ok (otlpRun calls s)"
  by (induction calls arbitrary: s) (auto simp: otlpRun_def otlpEmit_ok split: prod.split)

text \<open>
  (C19) The sink never builds more than \<open>maxLogResources\<close> resources, whatever labels arrive and whatever
  fails, and no resource twice; what it could not build under its own labels is still accounted for.
\<close>

theorem resources_bounded:
  fixes base :: "(string \<times> string) list" and calls :: "(otlpWire \<times> Entry list) list"
  defines "s \<equiv> otlpRun calls \<lparr>os_base = base, os_order = [], os_capped = 0\<rparr>"
  shows "length (os_order s) \<le> maxLogResources \<and> distinct (os_order s) \<and> covers (fst (otlpEmit w batch s)) batch"
proof -
  have "sink_ok \<lparr>os_base = base, os_order = [], os_capped = 0\<rparr>" by (simp add: sink_ok_def maxLogResources_def)
  then have "sink_ok s" unfolding s_def by (rule otlpRun_ok)
  then show ?thesis by (simp add: sink_ok_def otlp.emit_covers)
qed

text \<open>Retries of an admitted entry are byte for byte the same record.\<close>

lemma wire_record_stable: "\<not> time_IsZero (en_Received e) \<Longrightarrow> wireRecord now e = wireRecord now' e"
  by (simp add: wireRecord_def Let_def)

text \<open>A label that is on the resource is not repeated on the record.\<close>

lemma wire_record_hoisted: "map_of (or_Attributes (wireRecord now e)) k = None" if "k \<in> set hoistedKeys"
  using that by (auto simp: wireRecord_def Let_def map_of_eq_None_iff)

text \<open>An advertised delay never parks the emitter for longer than the clamp.\<close>

lemma retryAfterDelay_le: "retryAfterDelay parseTime v now \<le> maxRetryAfter"
  by (auto simp: retryAfterDelay_def clampRetryAfter_def maxRetryAfter_def second_ns_def Let_def split: option.split)

text \<open>
  Only values whose product fits are clamped: one of 9223372037 seconds wraps to a negative delay, which the pacing
  floor then replaces.
\<close>

lemma retry_after_wraps: "retryAfterDelay parseTime ''9223372037'' now < 0"
proof -
  have "TrimSpace ''9223372037'' = ''9223372037''" by (simp add: TrimSpace_def ascii_space_def)
  moreover have "Atoi ''9223372037'' = Some 9223372037" by (simp add: Atoi_def ParseUint_def is_digit_def digit_val_def)
  ultimately show ?thesis by (simp add: retryAfterDelay_def clampRetryAfter_def maxRetryAfter_def second_ns_def)
qed

end
