(* ===== verification/LogShip.thy ===== *)
theory LogShip
  imports LogSink
begin

text \<open>
  The log pipeline around the queue (\<^verbatim>\<open>internal/logship/pipeline.go\<close>, \<^verbatim>\<open>push.go\<close>, \<^verbatim>\<open>loglimiter.go\<close>): the single ingest
  gate with its size cap, pollers and push sources, and the emitter that drains batches and ships each with
  bounded retry, splitting and pacing under a rate limit. The sink is a parameter with the contract of the locale
  \<open>sink\<close>. What the clock, the contexts and the wire do during one round of \<^verbatim>\<open>shipBatch\<close> is a \<open>shipTurn\<close>; the loop
  runs over a list of them and is \<open>None\<close> while it still needs more. Dropped entries keep the reason they are
  counted under. State files are not modelled.
\<close>

section \<open>The limiter of repeated log lines\<close>

record LogLimiter =
  lm_last :: "(string, time) gomap"
  lm_interval :: duration
  lm_maxKeys :: int

definition NewLogLimiter :: "duration \<Rightarrow> int \<Rightarrow> LogLimiter" where
  "NewLogLimiter interval maxKeys = \<lparr>lm_last = [], lm_interval = interval, lm_maxKeys = maxKeys\<rparr>"

definition purgeExpired :: "time \<Rightarrow> LogLimiter \<Rightarrow> LogLimiter" where
  "purgeExpired now l = l\<lparr>lm_last := filter (\<lambda>(k, t). \<not> lm_interval l \<le> time_Sub now t) (lm_last l)\<rparr>"

definition LogLimiter_Allow :: "string \<Rightarrow> time \<Rightarrow> LogLimiter \<Rightarrow> bool \<times> LogLimiter" where
  "LogLimiter_Allow key now l =
     (case map_of (lm_last l) key of
        Some t \<Rightarrow>
          if time_Sub now t < lm_interval l then (False, l)
          else (True, l\<lparr>lm_last := AList.update key now (lm_last l)\<rparr>)
      | None \<Rightarrow>
          let l = (if lm_maxKeys l \<le> int (length (lm_last l)) then purgeExpired now l else l)
          in if lm_maxKeys l \<le> int (length (lm_last l)) then (False, l)
             else (True, l\<lparr>lm_last := AList.update key now (lm_last l)\<rparr>))"

section \<open>State\<close>

definition dropReasonOverflow :: string where
  "dropReasonOverflow = ''overflow''"

definition dropReasonShipFailed :: string where
  "dropReasonShipFailed = ''ship_failed''"

definition dropReasonShipFailedPermanent :: string where
  "dropReasonShipFailedPermanent = ''ship_failed_permanent''"

definition dropReasonRecordTooLarge :: string where
  "dropReasonRecordTooLarge = ''record_too_large''"

definition dropReasonRejected :: string where
  "dropReasonRejected = ''rejected''"

record shipConfig =
  pc_ShipMaxAttempts :: int
  pc_ShipMaxElapsed :: duration
  pc_BatchMax :: int
  pc_MaxExportBytes :: int
  pc_MaxRecordBytes :: int

record 's logPipeline =
  pl_queue :: boundedQueue
  pl_sink :: 's
  pl_shipChunk :: int
  pl_shipped :: "Entry list"
  pl_dropped :: "(string \<times> Entry) list"
  pl_shipErrors :: nat
  pl_consoleShipped :: nat
  pl_consoleDropped :: nat
  pl_pollErrors :: "string list"
  pl_lastReceived :: "(string, time) gomap"
  pl_lastExported :: "(string, time) gomap"
  pl_limiter :: LogLimiter

definition dropEntries :: "string \<Rightarrow> Entry list \<Rightarrow> 's logPipeline \<Rightarrow> 's logPipeline" where
  "dropEntries reason es p = p\<lparr>pl_dropped := pl_dropped p @ map (Pair reason) es, pl_consoleDropped := pl_consoleDropped p + length es\<rparr>"

definition warnLimited :: "string \<Rightarrow> time \<Rightarrow> 's logPipeline \<Rightarrow> 's logPipeline" where
  "warnLimited key now p = p\<lparr>pl_limiter := snd (LogLimiter_Allow key now (pl_limiter p))\<rparr>"

section \<open>The ingest gate\<close>

definition tooLarge :: "shipConfig \<Rightarrow> LogRecord \<Rightarrow> bool" where
  "tooLarge cfg r \<longleftrightarrow> 0 < pc_MaxRecordBytes cfg \<and> pc_MaxRecordBytes cfg < recordBytes r"

text \<open>The receive stamp, or none for a record refused for its size. \<open>None\<close> where a push would not return.\<close>

definition enqueue :: "shipConfig \<Rightarrow> time \<Rightarrow> Entry \<Rightarrow> 's logPipeline \<Rightarrow> (time option \<times> 's logPipeline) option" where
  "enqueue cfg now e p =
     (if tooLarge cfg (en_Record e)
      then Some (None, warnLimited (''oversize:'' @ en_Source e) now (dropEntries dropReasonRecordTooLarge [e] p))
      else case push (e\<lparr>en_Received := now\<rparr>) (pl_queue p) of
        None \<Rightarrow> None
      | Some (evicted, q) \<Rightarrow> Some (Some now, dropEntries dropReasonOverflow evicted (p\<lparr>pl_queue := q\<rparr>)))"

definition setReceived :: "string \<Rightarrow> time option \<Rightarrow> 's logPipeline \<Rightarrow> 's logPipeline" where
  "setReceived src stamp p =
     (case stamp of None \<Rightarrow> p | Some t \<Rightarrow> p\<lparr>pl_lastReceived := AList.update src t (pl_lastReceived p)\<rparr>)"

definition sanitized :: "LogRecord \<Rightarrow> LogRecord" where
  "sanitized r = r\<lparr>lr_Attributes := sanitizeAttributes (lr_Attributes r)\<rparr>"

text \<open>A record of a push source, under the source it names or the source's own name.\<close>

definition pushSource :: "string \<Rightarrow> LogRecord \<Rightarrow> string" where
  "pushSource name r = (if lr_Source r \<noteq> [] \<and> lr_Source r \<noteq> name then lr_Source r else name)"

definition pushRecord :: "shipConfig \<Rightarrow> string \<Rightarrow> time \<Rightarrow> LogRecord \<Rightarrow> 's logPipeline \<Rightarrow> 's logPipeline option" where
  "pushRecord cfg name now r p =
     (let src = pushSource name r in
      case enqueue cfg now \<lparr>en_Source = src, en_Record = sanitized r, en_Received = 0\<rparr> p of
        None \<Rightarrow> None
      | Some (stamp, p') \<Rightarrow> Some (setReceived src stamp p'))"

fun pollLoop :: "shipConfig \<Rightarrow> string \<Rightarrow> (LogRecord \<times> time) list \<Rightarrow> time option \<Rightarrow> 's logPipeline \<Rightarrow> (time option \<times> 's logPipeline) option" where
  "pollLoop cfg name [] admitted p = Some (admitted, p)"
| "pollLoop cfg name ((r, now) # rs) admitted p =
     (case enqueue cfg now \<lparr>en_Source = name, en_Record = sanitized r, en_Received = 0\<rparr> p of
        None \<Rightarrow> None
      | Some (stamp, p') \<Rightarrow> pollLoop cfg name rs (case stamp of None \<Rightarrow> admitted | Some t \<Rightarrow> Some t) p')"

text \<open>One poll: its records with the clock at each admission, or an error at a given time.\<close>

definition pollOnce :: "shipConfig \<Rightarrow> string \<Rightarrow> time + (LogRecord \<times> time) list \<Rightarrow> 's logPipeline \<Rightarrow> 's logPipeline option" where
  "pollOnce cfg name result p =
     (case result of
        Inl now \<Rightarrow> Some (warnLimited (''poll:'' @ name) now (p\<lparr>pl_pollErrors := pl_pollErrors p @ [name]\<rparr>))
      | Inr rs \<Rightarrow>
          (case pollLoop cfg name rs None p of
             None \<Rightarrow> None
           | Some (admitted, p') \<Rightarrow>
               Some (case admitted of None \<Rightarrow> p' | Some t \<Rightarrow> if time_IsZero t then p' else setReceived name (Some t) p')))"

section \<open>Retry, split and pace\<close>

definition shipRetryBase :: duration where
  "shipRetryBase = 200 * millisecond_ns"

definition shipRetryMax :: duration where
  "shipRetryMax = 5 * second_ns"

definition shipRateLimitPause :: duration where
  "shipRateLimitPause = 2 * second_ns"

definition shipRateLimitMinChunk :: int where
  "shipRateLimitMinChunk = 32"

definition DefaultShipMaxElapsed :: duration where
  "DefaultShipMaxElapsed = 15 * 60 * second_ns"

definition maxExportBytes :: int where
  "maxExportBytes = 32 * 2 ^ 20"

definition exportByteBound :: "shipConfig \<Rightarrow> int" where
  "exportByteBound cfg =
     (let n = pc_MaxExportBytes cfg in if n \<le> 0 \<or> maxExportBytes < n then maxExportBytes else n)"

definition shipBackoff :: "int \<Rightarrow> duration" where
  "shipBackoff attempt0 =
     (let attempt = (if attempt0 < 1 then 1 else attempt0) in
      if 8 < attempt then shipRetryMax
      else let d = push_bit (nat (attempt - 1)) shipRetryBase in if shipRetryMax < d then shipRetryMax else d)"

definition splitChunk :: "int \<Rightarrow> int" where
  "splitChunk n =
     (let half = go_div n 2 in
      if half < shipRateLimitMinChunk then (if n \<le> shipRateLimitMinChunk then 1 else shipRateLimitMinChunk) else half)"

definition pacingFor :: "duration \<Rightarrow> duration" where
  "pacingFor advertised = (if advertised < shipRateLimitPause then shipRateLimitPause else advertised)"

definition relaxPace :: "duration \<Rightarrow> duration" where
  "relaxPace pace = (let q = go_div pace 2 in if q < 100 * millisecond_ns then 0 else q)"

definition relaxShipChunk :: "shipConfig \<Rightarrow> 's logPipeline \<Rightarrow> 's logPipeline" where
  "relaxShipChunk cfg p =
     (if pl_shipChunk p \<le> 0 then p
      else
        let next_chunk = pl_shipChunk p * 2
        in p\<lparr>pl_shipChunk := (if pc_BatchMax cfg \<le> 0 \<or> pc_BatchMax cfg \<le> next_chunk then 0 else next_chunk)\<rparr>)"

fun joinPending :: "Entry list \<Rightarrow> Entry list \<Rightarrow> Entry list" where
  "joinPending [] tail = tail"
| "joinPending retry [] = retry"
| "joinPending retry tail = retry @ tail"

definition noteAcked :: "time \<Rightarrow> Entry list \<Rightarrow> 's logPipeline \<Rightarrow> 's logPipeline" where
  "noteAcked now acked p =
     p\<lparr>pl_shipped := pl_shipped p @ acked, pl_consoleShipped := pl_consoleShipped p + length acked,
       pl_lastExported := fold (\<lambda>e. AList.update (en_Source e) now) acked (pl_lastExported p)\<rparr>"

definition noteRejected :: "Entry list \<Rightarrow> 's logPipeline \<Rightarrow> 's logPipeline" where
  "noteRejected rejected p = dropEntries dropReasonRejected rejected p"

text \<open>How a wait ends: the delivery context, shutdown or the timer; the latter two with the context's state.\<close>

datatype waitEnd = WaitContext | WaitShutdown bool | WaitTimer bool

fun waitOrAbandon :: "waitEnd \<Rightarrow> bool" where
  "waitOrAbandon WaitContext = False"
| "waitOrAbandon (WaitShutdown ctxErr) = (\<not> ctxErr)"
| "waitOrAbandon (WaitTimer ctxErr) = (\<not> ctxErr)"

text \<open>
  One round: the clock before the attempt, the pacing wait, the wire, shutdown and the delivery context after
  it, the clock again, the backoff wait, and whether shutdown had begun where the rest is abandoned.
\<close>

record 'w shipTurn =
  tn_top :: time
  tn_pace :: waitEnd
  tn_wire :: 'w
  tn_stopped :: bool
  tn_done :: bool
  tn_after :: time
  tn_backoff :: waitEnd
  tn_stopAtDrop :: bool

definition abandonDelivery :: "'w shipTurn \<Rightarrow> Entry list \<Rightarrow> 's logPipeline \<Rightarrow> 's logPipeline" where
  "abandonDelivery t pending p =
     (let reason = (if tn_stopAtDrop t then dropReasonShipFailed else dropReasonShipFailedPermanent)
      in warnLimited reason (tn_after t) (dropEntries reason pending p))"

record shipVars =
  sv_pending :: "Entry list"
  sv_chunk :: int
  sv_pace :: duration
  sv_attempt :: int
  sv_limited :: bool

datatype 's shipNext = ShipDone "'s logPipeline" | ShipOn shipVars "'s logPipeline"

text \<open>What follows an attempt that did not deliver everything.\<close>

definition afterFailure :: "shipConfig \<Rightarrow> time \<Rightarrow> 'w shipTurn \<Rightarrow> nat \<Rightarrow> sinkError list \<Rightarrow> shipVars \<Rightarrow> 's logPipeline \<Rightarrow> 's shipNext" where
  "afterFailure cfg deadline t n err v p =
     (if sv_pending v = [] then ShipDone p
      else if tn_stopped t \<or> tn_done t \<or> deadline \<le> tn_after t then ShipDone (abandonDelivery t (sv_pending v) p)
      else if 0 < pc_ShipMaxAttempts cfg \<and> pc_ShipMaxAttempts cfg \<le> sv_attempt v
      then ShipDone (warnLimited ''ship_permanent'' (tn_after t) (dropEntries dropReasonShipFailedPermanent (sv_pending v) p))
      else case rateLimitDelay err of
        Some d \<Rightarrow>
          let chunk = splitChunk (int n)
          in ShipOn (v\<lparr>sv_limited := True, sv_chunk := chunk, sv_pace := pacingFor d\<rparr>)
               (warnLimited ''ship_rate_limited'' (tn_after t) (p\<lparr>pl_shipChunk := chunk\<rparr>))
      | None \<Rightarrow>
          let p = warnLimited ''ship'' (tn_after t) p
          in if waitOrAbandon (tn_backoff t) then ShipOn v p else ShipDone (abandonDelivery t (sv_pending v) p))"

definition shipRound ::
  "('w \<Rightarrow> Entry list \<Rightarrow> 's \<Rightarrow> SinkResult \<times> 's) \<Rightarrow> shipConfig \<Rightarrow> time \<Rightarrow> 'w shipTurn \<Rightarrow> shipVars \<Rightarrow> 's logPipeline \<Rightarrow> 's shipNext" where
  "shipRound emit_batch cfg deadline t v p =
     (if deadline \<le> tn_top t then ShipDone (abandonDelivery t (sv_pending v) p)
      else if 0 < sv_pace v \<and> \<not> waitOrAbandon (tn_pace t) then ShipDone (abandonDelivery t (sv_pending v) p)
      else
        let n = min (nat (max 1 (sv_chunk v))) (length (sv_pending v));
            head = take n (sv_pending v);
            rest = drop n (sv_pending v);
            (res, s) = emit_batch (tn_wire t) head (pl_sink p);
            p = noteRejected (sr_Rejected res) (noteAcked (tn_after t) (sr_Acked res) (p\<lparr>pl_sink := s\<rparr>))
        in if sr_Retry res = [] \<and> sr_Rejected res = []
           then ShipOn (v\<lparr>sv_pending := rest, sv_pace := relaxPace (sv_pace v)\<rparr>) p
           else
             let p = p\<lparr>pl_shipErrors := Suc (pl_shipErrors p)\<rparr>;
                 p = (if sr_Rejected res \<noteq> [] then warnLimited ''ship_rejected'' (tn_after t) p else p)
             in afterFailure cfg deadline t n (sr_Err res)
                  (v\<lparr>sv_pending := joinPending (sr_Retry res) rest, sv_attempt := sv_attempt v + 1\<rparr>) p)"

fun shipLoop ::
  "('w \<Rightarrow> Entry list \<Rightarrow> 's \<Rightarrow> SinkResult \<times> 's) \<Rightarrow> shipConfig \<Rightarrow> time \<Rightarrow> 'w shipTurn list \<Rightarrow> shipVars \<Rightarrow> 's logPipeline \<Rightarrow>
   's logPipeline option" where
  "shipLoop emit_batch cfg deadline [] v p =
     (if sv_pending v = [] then Some (if sv_limited v then p else relaxShipChunk cfg p) else None)"
| "shipLoop emit_batch cfg deadline (t # ts) v p =
     (if sv_pending v = [] then Some (if sv_limited v then p else relaxShipChunk cfg p)
      else case shipRound emit_batch cfg deadline t v p of
        ShipDone p' \<Rightarrow> Some p'
      | ShipOn v' p' \<Rightarrow> shipLoop emit_batch cfg deadline ts v' p')"

definition shipBatch ::
  "('w \<Rightarrow> Entry list \<Rightarrow> 's \<Rightarrow> SinkResult \<times> 's) \<Rightarrow> shipConfig \<Rightarrow> time \<Rightarrow> 'w shipTurn list \<Rightarrow> Entry list \<Rightarrow> 's logPipeline \<Rightarrow>
   's logPipeline option" where
  "shipBatch emit_batch cfg now turns batch p =
     (let maxElapsed = (if pc_ShipMaxElapsed cfg \<le> 0 then DefaultShipMaxElapsed else pc_ShipMaxElapsed cfg);
          chunk = pl_shipChunk p
      in shipLoop emit_batch cfg (now + maxElapsed) turns
           \<lparr>sv_pending = batch, sv_chunk = (if chunk \<le> 0 \<or> int (length batch) < chunk then int (length batch) else chunk),
            sv_pace = 0, sv_attempt = 0, sv_limited = False\<rparr> p)"

text \<open>A turn of \<^verbatim>\<open>runEmitter\<close>: drain and ship, nothing while the queue makes it wait, and the end.\<close>

definition emitterTurn ::
  "('w \<Rightarrow> Entry list \<Rightarrow> 's \<Rightarrow> SinkResult \<times> 's) \<Rightarrow> shipConfig \<Rightarrow> time \<Rightarrow> 'w shipTurn list \<Rightarrow> 's logPipeline \<Rightarrow> 's logPipeline option" where
  "emitterTurn emit_batch cfg now turns p =
     (case drainUpTo (pc_BatchMax cfg) (exportByteBound cfg) (pl_queue p) of
        None \<Rightarrow> Some p
      | Some (batch, ok, q) \<Rightarrow> if ok then shipBatch emit_batch cfg now turns batch (p\<lparr>pl_queue := q\<rparr>) else Some p)"

section \<open>The ledger\<close>

text \<open>What was settled, and the console's totals against it.\<close>

definition ledger :: "'s logPipeline \<Rightarrow> Entry multiset" where
  "ledger p = mset (pl_shipped p) + mset (map snd (pl_dropped p))"

definition totals_ok :: "'s logPipeline \<Rightarrow> bool" where
  "totals_ok p \<longleftrightarrow> pl_consoleShipped p = length (pl_shipped p) \<and> pl_consoleDropped p = length (pl_dropped p)"

lemma dropEntries_ledger [simp]: "ledger (dropEntries r es p) = ledger p + mset es"
  by (simp add: dropEntries_def ledger_def comp_def)

lemma warnLimited_ledger [simp]: "ledger (warnLimited k now p) = ledger p"
  by (simp add: warnLimited_def ledger_def)

lemma noteAcked_ledger [simp]: "ledger (noteAcked now es p) = ledger p + mset es"
  by (simp add: noteAcked_def ledger_def)

lemma noteRejected_ledger [simp]: "ledger (noteRejected es p) = ledger p + mset es"
  by (simp add: noteRejected_def)

lemma abandon_ledger [simp]: "ledger (abandonDelivery t es p) = ledger p + mset es"
  by (simp add: abandonDelivery_def Let_def)

lemma ledger_updates [simp]:
  "ledger (p\<lparr>pl_sink := s\<rparr>) = ledger p" "ledger (p\<lparr>pl_shipErrors := n\<rparr>) = ledger p" "ledger (p\<lparr>pl_shipChunk := c\<rparr>) = ledger p"
  "ledger (p\<lparr>pl_queue := q\<rparr>) = ledger p" "ledger (p\<lparr>pl_pollErrors := es\<rparr>) = ledger p" "ledger (relaxShipChunk cfg p) = ledger p"
  "ledger (setReceived src stamp p) = ledger p"
  by (simp_all add: ledger_def relaxShipChunk_def setReceived_def Let_def split: option.split)

lemma totals_steps [simp]:
  "totals_ok (dropEntries r es p) = totals_ok p" "totals_ok (warnLimited k now p) = totals_ok p" "totals_ok (noteAcked now es p) = totals_ok p"
  "totals_ok (noteRejected es p) = totals_ok p" "totals_ok (abandonDelivery t es p) = totals_ok p"
  "totals_ok (p\<lparr>pl_sink := s\<rparr>) = totals_ok p" "totals_ok (p\<lparr>pl_shipErrors := n\<rparr>) = totals_ok p" "totals_ok (p\<lparr>pl_shipChunk := c\<rparr>) = totals_ok p"
  "totals_ok (p\<lparr>pl_queue := q\<rparr>) = totals_ok p" "totals_ok (p\<lparr>pl_pollErrors := pe\<rparr>) = totals_ok p" "totals_ok (relaxShipChunk cfg p) = totals_ok p"
  "totals_ok (setReceived src stamp p) = totals_ok p"
  by (auto simp: totals_ok_def dropEntries_def warnLimited_def noteAcked_def noteRejected_def abandonDelivery_def relaxShipChunk_def setReceived_def Let_def
    split: option.split)

lemma queue_steps [simp]:
  "pl_queue (dropEntries r es p) = pl_queue p" "pl_queue (warnLimited k now p) = pl_queue p" "pl_queue (noteAcked now es p) = pl_queue p"
  "pl_queue (noteRejected es p) = pl_queue p" "pl_queue (abandonDelivery t es p) = pl_queue p" "pl_queue (relaxShipChunk cfg p) = pl_queue p"
  "pl_queue (setReceived src stamp p) = pl_queue p"
  by (auto simp: dropEntries_def warnLimited_def noteAcked_def noteRejected_def abandonDelivery_def relaxShipChunk_def setReceived_def Let_def
    split: option.split)

lemma joinPending_append [simp]: "joinPending xs ys = xs @ ys"
  by (cases xs; cases ys) simp_all

text \<open>A round settles or keeps what is pending, and leaves the queue alone.\<close>

definition round_keeps :: "'s logPipeline \<Rightarrow> Entry multiset \<Rightarrow> 's shipNext \<Rightarrow> bool" where
  "round_keeps p pending r \<longleftrightarrow>
     (case r of
        ShipDone p' \<Rightarrow> ledger p' = ledger p + pending \<and> totals_ok p' = totals_ok p \<and> pl_queue p' = pl_queue p
      | ShipOn v' p' \<Rightarrow> ledger p' + mset (sv_pending v') = ledger p + pending \<and> totals_ok p' = totals_ok p \<and> pl_queue p' = pl_queue p)"

lemma afterFailure_keeps: "round_keeps p (mset (sv_pending v)) (afterFailure cfg deadline t n err v p)"
  by (simp add: round_keeps_def afterFailure_def Let_def split: option.split)

lemma afterFailure_on:
  assumes "afterFailure cfg deadline t n err v p = ShipOn v' p'"
  shows "sv_pending v' = sv_pending v \<and> sv_attempt v' = sv_attempt v \<and>
    (0 < pc_ShipMaxAttempts cfg \<longrightarrow> sv_attempt v' < pc_ShipMaxAttempts cfg)"
  using assms by (auto simp: afterFailure_def Let_def split: if_splits option.splits)

context sink
begin

lemma round_keeps_pending: "round_keeps p (mset (sv_pending v)) (shipRound emit_batch cfg deadline t v p)"
proof -
  define n where "n = min (nat (max 1 (sv_chunk v))) (length (sv_pending v))"
  obtain res s where e: "emit_batch (tn_wire t) (take n (sv_pending v)) (pl_sink p) = (res, s)"
    by (cases "emit_batch (tn_wire t) (take n (sv_pending v)) (pl_sink p)")
  have cov: "mset (sr_Acked res) + mset (sr_Rejected res) + mset (sr_Retry res) = mset (take n (sv_pending v))"
    using emit_covers [of "tn_wire t" "take n (sv_pending v)" "pl_sink p"] e by (simp add: covers_def resultEntries_def)
  have all: "mset (take n (sv_pending v)) + mset (drop n (sv_pending v)) = mset (sv_pending v)"
    by (metis append_take_drop_id mset_append)
  define p1 where "p1 = noteRejected (sr_Rejected res) (noteAcked (tn_after t) (sr_Acked res) (p\<lparr>pl_sink := s\<rparr>))"
  define p2 where "p2 = (if sr_Rejected res \<noteq> [] then warnLimited ''ship_rejected'' (tn_after t) (p1\<lparr>pl_shipErrors := Suc (pl_shipErrors p1)\<rparr>)
    else p1\<lparr>pl_shipErrors := Suc (pl_shipErrors p1)\<rparr>)"
  have led: "ledger p1 = ledger p + (mset (sr_Acked res) + mset (sr_Rejected res))" "ledger p2 = ledger p1"
    "totals_ok p1 = totals_ok p" "totals_ok p2 = totals_ok p" "pl_queue p1 = pl_queue p" "pl_queue p2 = pl_queue p"
    by (simp_all add: p1_def p2_def)
  let ?v = "v\<lparr>sv_pending := joinPending (sr_Retry res) (drop n (sv_pending v)), sv_attempt := sv_attempt v + 1\<rparr>"
  have f: "round_keeps p2 (mset (sr_Retry res) + mset (drop n (sv_pending v))) (afterFailure cfg deadline t n (sr_Err res) ?v p2)"
    using afterFailure_keeps [of p2 ?v cfg deadline t n "sr_Err res"] by simp
  have whole: "mset (sv_pending v) = mset (sr_Acked res) + mset (sr_Rejected res) + (mset (sr_Retry res) + mset (drop n (sv_pending v)))"
    using cov all by (metis union_assoc)
  have "ledger p2 + (mset (sr_Retry res) + mset (drop n (sv_pending v))) = ledger p + mset (sv_pending v)"
    using led(1,2) unfolding whole by (simp add: ac_simps)
  then have "round_keeps p (mset (sv_pending v)) (afterFailure cfg deadline t n (sr_Err res) ?v p2)"
    using f led(4,6) unfolding round_keeps_def by (auto split: shipNext.splits)
  moreover have "round_keeps p (mset (sv_pending v)) (ShipOn (v\<lparr>sv_pending := drop n (sv_pending v), sv_pace := relaxPace (sv_pace v)\<rparr>) p1)"
    if "sr_Retry res = []" "sr_Rejected res = []"
    using led cov all that by (simp add: round_keeps_def ac_simps)
  moreover have "round_keeps p (mset (sv_pending v)) (ShipDone (abandonDelivery t (sv_pending v) p))" by (simp add: round_keeps_def)
  ultimately show ?thesis
    unfolding shipRound_def Let_def n_def [symmetric] e prod.case p1_def [symmetric] p2_def [symmetric] by simp
qed

lemma shipLoop_settles:
  "shipLoop emit_batch cfg deadline turns v p = Some p' \<Longrightarrow>
   ledger p' = ledger p + mset (sv_pending v) \<and> totals_ok p' = totals_ok p \<and> pl_queue p' = pl_queue p"
proof (induction turns arbitrary: v p)
  case Nil
  then show ?case by (auto split: if_splits)
next
  case (Cons t turns)
  show ?case
  proof (cases "sv_pending v = []")
    case True
    then show ?thesis using Cons.prems by (auto split: if_splits)
  next
    case False
    then show ?thesis using Cons.prems Cons.IH round_keeps_pending [of p v cfg deadline t]
      by (auto simp: round_keeps_def ac_simps split: shipNext.splits)
  qed
qed

lemma round_shrinks:
  assumes "shipRound emit_batch cfg deadline t v p = ShipOn v' p'" "sv_pending v \<noteq> []" "0 < pc_ShipMaxAttempts cfg"
  shows "(sv_attempt v' = sv_attempt v \<and> length (sv_pending v') < length (sv_pending v)) \<or>
    (sv_attempt v' = sv_attempt v + 1 \<and> length (sv_pending v') \<le> length (sv_pending v) \<and> sv_attempt v' < pc_ShipMaxAttempts cfg)"
proof -
  define n where "n = min (nat (max 1 (sv_chunk v))) (length (sv_pending v))"
  have n: "0 < n" "n \<le> length (sv_pending v)" using assms(2) by (auto simp: n_def)
  obtain res s where e: "emit_batch (tn_wire t) (take n (sv_pending v)) (pl_sink p) = (res, s)"
    by (cases "emit_batch (tn_wire t) (take n (sv_pending v)) (pl_sink p)")
  have r: "length (sr_Retry res) \<le> n" using retry_shorter [of "tn_wire t" "take n (sv_pending v)" "pl_sink p"] e n by simp
  show ?thesis using assms(1) r n
    unfolding shipRound_def Let_def n_def [symmetric] e prod.case
    by (auto split: if_splits dest!: afterFailure_on simp: assms(3))
qed

text \<open>With a cap on attempts, as many rounds as there are records and attempts left always end the loop.\<close>

lemma shipLoop_returns:
  assumes "0 < pc_ShipMaxAttempts cfg" "sv_attempt v < pc_ShipMaxAttempts cfg"
    and "length (sv_pending v) + nat (pc_ShipMaxAttempts cfg - sv_attempt v) \<le> length turns"
  shows "\<exists>p'. shipLoop emit_batch cfg deadline turns v p = Some p'"
  using assms(2,3)
proof (induction turns arbitrary: v p)
  case (Cons t turns)
  show ?case
  proof (cases "sv_pending v = []")
    case False
    show ?thesis
    proof (cases "shipRound emit_batch cfg deadline t v p")
      case (ShipOn v' p')
      have "sv_attempt v' < pc_ShipMaxAttempts cfg \<and>
          length (sv_pending v') + nat (pc_ShipMaxAttempts cfg - sv_attempt v') \<le> length turns"
        using round_shrinks [OF ShipOn False assms(1)] Cons.prems by (auto simp: nat_diff_distrib')
      then show ?thesis using Cons.IH ShipOn False by simp
    qed (use False in simp)
  qed simp
qed simp

text \<open>Without one, the deadline ends it: a round that starts at or after it is the last.\<close>

lemma shipLoop_deadline:
  "t \<in> set turns \<Longrightarrow> deadline \<le> tn_top t \<Longrightarrow> \<exists>p'. shipLoop emit_batch cfg deadline turns v p = Some p'"
proof (induction turns arbitrary: v p)
  case (Cons u turns)
  show ?case
  proof (cases "u = t")
    case True
    then show ?thesis using Cons.prems(2) by (simp add: shipRound_def)
  next
    case False
    then show ?thesis using Cons by (auto split: shipNext.split)
  qed
qed simp

end

section \<open>The pipeline\<close>

datatype 'w plOp =
    PPush string time LogRecord
  | PPoll string "time + (LogRecord \<times> time) list"
  | PEmit time "'w shipTurn list"
  | PShut

fun plStep ::
  "('w \<Rightarrow> Entry list \<Rightarrow> 's \<Rightarrow> SinkResult \<times> 's) \<Rightarrow> shipConfig \<Rightarrow> 'w plOp \<Rightarrow> 's logPipeline \<Rightarrow> 's logPipeline option" where
  "plStep emit_batch cfg (PPush name now r) p = pushRecord cfg name now r p"
| "plStep emit_batch cfg (PPoll name result) p = pollOnce cfg name result p"
| "plStep emit_batch cfg (PEmit now turns) p = emitterTurn emit_batch cfg now turns p"
| "plStep emit_batch cfg PShut p = Some (p\<lparr>pl_queue := close_queue (pl_queue p)\<rparr>)"

fun plRun ::
  "('w \<Rightarrow> Entry list \<Rightarrow> 's \<Rightarrow> SinkResult \<times> 's) \<Rightarrow> shipConfig \<Rightarrow> 'w plOp list \<Rightarrow> 's logPipeline \<Rightarrow> 's logPipeline option" where
  "plRun emit_batch cfg [] p = Some p"
| "plRun emit_batch cfg (op # ops) p = Option.bind (plStep emit_batch cfg op p) (plRun emit_batch cfg ops)"

definition newPipeline :: "int \<Rightarrow> int \<Rightarrow> duration \<Rightarrow> int \<Rightarrow> 's \<Rightarrow> 's logPipeline" where
  "newPipeline capacity maxBytes interval maxKeys s =
     \<lparr>pl_queue = newBoundedQueueBytes capacity maxBytes, pl_sink = s, pl_shipChunk = 0, pl_shipped = [], pl_dropped = [],
      pl_shipErrors = 0, pl_consoleShipped = 0, pl_consoleDropped = 0, pl_pollErrors = [], pl_lastReceived = [],
      pl_lastExported = [], pl_limiter = NewLogLimiter interval maxKeys\<rparr>"

text \<open>
  What an operation brings into the books: the entry as refused for its size, or as stamped at admission. A queue
  that is closed takes nothing, which is why sources stop before it is closed.
\<close>

definition booked :: "shipConfig \<Rightarrow> bool \<Rightarrow> string \<Rightarrow> time \<Rightarrow> LogRecord \<Rightarrow> Entry multiset" where
  "booked cfg closed src now r =
     (let e = \<lparr>en_Source = src, en_Record = sanitized r, en_Received = 0\<rparr>
      in if tooLarge cfg (sanitized r) then {#e#} else if closed then {#} else {#e\<lparr>en_Received := now\<rparr>#})"

fun brings :: "shipConfig \<Rightarrow> bool \<Rightarrow> 'w plOp list \<Rightarrow> Entry multiset" where
  "brings cfg closed [] = {#}"
| "brings cfg closed (PPush name now r # ops) = booked cfg closed (pushSource name r) now r + brings cfg closed ops"
| "brings cfg closed (PPoll name (Inl t) # ops) = brings cfg closed ops"
| "brings cfg closed (PPoll name (Inr rs) # ops) = (\<Sum>(r, now)\<leftarrow>rs. booked cfg closed name now r) + brings cfg closed ops"
| "brings cfg closed (PEmit now turns # ops) = brings cfg closed ops"
| "brings cfg closed (PShut # ops) = brings cfg True ops"

definition settled :: "'s logPipeline \<Rightarrow> Entry multiset" where
  "settled p = ledger p + mset (queue_contents (pl_queue p))"

definition pl_ok :: "'s logPipeline \<Rightarrow> bool" where
  "pl_ok p \<longleftrightarrow> queue_inv (pl_queue p) \<and> totals_ok p"

lemma setReceived_settled [simp]: "settled (setReceived src stamp p) = settled p" "pl_ok (setReceived src stamp p) = pl_ok p"
  by (simp_all add: settled_def pl_ok_def)

lemma enqueue_books:
  assumes "pl_ok p"
  shows "\<exists>stamp p'. enqueue cfg now \<lparr>en_Source = src, en_Record = sanitized r, en_Received = 0\<rparr> p = Some (stamp, p') \<and> pl_ok p' \<and>
    bq_closed (pl_queue p') = bq_closed (pl_queue p) \<and> settled p' = settled p + booked cfg (bq_closed (pl_queue p)) src now r"
proof (cases "tooLarge cfg (sanitized r)")
  case True
  then show ?thesis using assms by (simp add: enqueue_def pl_ok_def settled_def booked_def Let_def)
next
  case False
  let ?e = "\<lparr>en_Source = src, en_Record = sanitized r, en_Received = now\<rparr>"
  have inv: "queue_inv (pl_queue p)" using assms by (simp add: pl_ok_def)
  obtain ds q where q: "push ?e (pl_queue p) = Some (ds, q)" "queue_inv q" "bq_closed q = bq_closed (pl_queue p)"
    "ds @ queue_contents q = queue_contents (pl_queue p) @ (if bq_closed (pl_queue p) then [] else [?e])"
    using push_spec [OF inv, of ?e] by blast
  have m: "mset (queue_contents q) + mset ds = mset (queue_contents (pl_queue p)) + (if bq_closed (pl_queue p) then {#} else {#?e#})"
    using arg_cong [OF q(4), of mset] by (simp add: union_commute split: if_splits)
  define p' where "p' = dropEntries dropReasonOverflow ds (p\<lparr>pl_queue := q\<rparr>)"
  have run: "enqueue cfg now \<lparr>en_Source = src, en_Record = sanitized r, en_Received = 0\<rparr> p = Some (Some now, p')"
    using False q(1) by (simp add: enqueue_def p'_def)
  have ok: "pl_ok p'" "bq_closed (pl_queue p') = bq_closed (pl_queue p)" using q assms by (simp_all add: p'_def pl_ok_def)
  have "settled p' = ledger p + (mset (queue_contents q) + mset ds)" by (simp add: settled_def p'_def)
  also have "\<dots> = settled p + booked cfg (bq_closed (pl_queue p)) src now r"
    unfolding m settled_def using False by (simp add: booked_def Let_def)
  finally show ?thesis using run ok by blast
qed

lemma pollLoop_books:
  "pl_ok p \<Longrightarrow> \<exists>a p'. pollLoop cfg name rs admitted p = Some (a, p') \<and> pl_ok p' \<and>
    bq_closed (pl_queue p') = bq_closed (pl_queue p) \<and> settled p' = settled p + (\<Sum>(r, now)\<leftarrow>rs. booked cfg (bq_closed (pl_queue p)) name now r)"
proof (induction rs arbitrary: admitted p)
  case (Cons x rs)
  obtain r now where x: "x = (r, now)" by (cases x)
  obtain stamp p1 where 1: "enqueue cfg now \<lparr>en_Source = name, en_Record = sanitized r, en_Received = 0\<rparr> p = Some (stamp, p1)" "pl_ok p1"
    "bq_closed (pl_queue p1) = bq_closed (pl_queue p)" "settled p1 = settled p + booked cfg (bq_closed (pl_queue p)) name now r"
    using enqueue_books [OF Cons.prems] by blast
  show ?case using Cons.IH [OF 1(2), of "case stamp of None \<Rightarrow> admitted | Some t \<Rightarrow> Some t"] 1 x by (auto simp: ac_simps)
qed simp

context sink
begin

lemma emitterTurn_books:
  assumes "pl_ok p" "emitterTurn emit_batch cfg now turns p = Some p'"
  shows "pl_ok p' \<and> bq_closed (pl_queue p') = bq_closed (pl_queue p) \<and> settled p' = settled p"
proof (cases "drainUpTo (pc_BatchMax cfg) (exportByteBound cfg) (pl_queue p)")
  case None
  then show ?thesis using assms by (simp add: emitterTurn_def)
next
  case (Some x)
  obtain batch ok q where x: "x = (batch, ok, q)" by (cases x)
  have inv: "queue_inv (pl_queue p)" using assms(1) by (simp add: pl_ok_def)
  note d = drain_spec [OF inv Some [unfolded x]]
  have c: "mset batch + mset (queue_contents q) = mset (queue_contents (pl_queue p))" using d by (metis mset_append)
  show ?thesis
  proof (cases ok)
    case True
    then have "shipBatch emit_batch cfg now turns batch (p\<lparr>pl_queue := q\<rparr>) = Some p'" using assms(2) Some x by (simp add: emitterTurn_def)
    then have "ledger p' = ledger p + mset batch \<and> totals_ok p' = totals_ok p \<and> pl_queue p' = q"
      unfolding shipBatch_def Let_def by (auto dest!: shipLoop_settles)
    then show ?thesis using assms(1) d c by (simp add: pl_ok_def settled_def ac_simps)
  next
    case False
    then show ?thesis using assms Some x by (simp add: emitterTurn_def)
  qed
qed

lemma plRun_books:
  "pl_ok p \<Longrightarrow> plRun emit_batch cfg ops p = Some p' \<Longrightarrow>
   pl_ok p' \<and> settled p' = settled p + brings cfg (bq_closed (pl_queue p)) ops"
proof (induction ops arbitrary: p)
  case (Cons op ops)
  obtain p1 where s: "plStep emit_batch cfg op p = Some p1" "plRun emit_batch cfg ops p1 = Some p'"
    using Cons.prems(2) by (cases "plStep emit_batch cfg op p") auto
  show ?case
  proof (cases op)
    case (PPush name now r)
    obtain stamp p2 where 2: "enqueue cfg now \<lparr>en_Source = pushSource name r, en_Record = sanitized r, en_Received = 0\<rparr> p = Some (stamp, p2)"
      "pl_ok p2" "bq_closed (pl_queue p2) = bq_closed (pl_queue p)"
      "settled p2 = settled p + booked cfg (bq_closed (pl_queue p)) (pushSource name r) now r"
      using enqueue_books [OF Cons.prems(1)] by blast
    then have "pl_ok p1 \<and> bq_closed (pl_queue p1) = bq_closed (pl_queue p) \<and> settled p1 = settled p2"
      using s(1) PPush by (auto simp: pushRecord_def Let_def)
    then show ?thesis using Cons.IH [OF _ s(2)] PPush 2 by (simp add: ac_simps)
  next
    case (PPoll name result)
    show ?thesis
    proof (cases result)
      case (Inl t)
      then have "pl_ok p1 \<and> settled p1 = settled p \<and> bq_closed (pl_queue p1) = bq_closed (pl_queue p)"
        using s(1) PPoll Cons.prems(1) by (auto simp: pollOnce_def pl_ok_def settled_def)
      then show ?thesis using Cons.IH [OF _ s(2)] PPoll Inl by simp
    next
      case (Inr rs)
      obtain a p2 where 2: "pollLoop cfg name rs None p = Some (a, p2)" "pl_ok p2" "bq_closed (pl_queue p2) = bq_closed (pl_queue p)"
        "settled p2 = settled p + (\<Sum>(r, now)\<leftarrow>rs. booked cfg (bq_closed (pl_queue p)) name now r)"
        using pollLoop_books [OF Cons.prems(1)] by blast
      then have "pl_ok p1 \<and> bq_closed (pl_queue p1) = bq_closed (pl_queue p) \<and> settled p1 = settled p2"
        using s(1) PPoll Inr by (auto simp: pollOnce_def split: option.splits if_splits)
      then show ?thesis using Cons.IH [OF _ s(2)] PPoll Inr 2 by (simp add: ac_simps)
    qed
  next
    case (PEmit now turns)
    then show ?thesis using emitterTurn_books [OF Cons.prems(1)] s Cons.IH [OF _ s(2)] by simp
  next
    case PShut
    then have "pl_ok p1 \<and> settled p1 = settled p \<and> bq_closed (pl_queue p1)"
      using s(1) Cons.prems(1) logQueue.shut_law [of "pl_queue p"] by (auto simp: pl_ok_def settled_def)
    then show ?thesis using Cons.IH [OF _ s(2)] PShut by simp
  qed
qed simp

end

section \<open>Laws of the delivery\<close>

text \<open>
  The time budget of one delivery, \<^verbatim>\<open>ShipMaxElapsed\<close> or its default.
\<close>

definition shipBudget :: "shipConfig \<Rightarrow> time" where
  "shipBudget cfg = (if pc_ShipMaxElapsed cfg \<le> 0 then DefaultShipMaxElapsed else pc_ShipMaxElapsed cfg)"

text \<open>
  (C18) A batch is always settled, under both ways the configuration ends a delivery. With the default, no cap on
  attempts (\<^verbatim>\<open>ShipMaxAttempts\<close> zero), the first round that starts at or after the delivery's time budget is
  the last one. With a cap, as many rounds as the batch has records plus the cap end the loop whatever the clock does.
  In both cases, and whatever the contexts and the wire do, every entry of the batch has then been booked
  exactly once, as shipped or as dropped under a reason, with the console's totals still matching the books and the
  queue untouched.
\<close>

theorem batch_always_settled:
  fixes turns :: "otlpWire shipTurn list"
  assumes "list_ex (\<lambda>t. now + shipBudget cfg \<le> tn_top t) turns \<or>
    0 < pc_ShipMaxAttempts cfg \<and> length batch + nat (pc_ShipMaxAttempts cfg) \<le> length turns"
  shows "\<exists>p'. shipBatch otlpEmit cfg now turns batch p = Some p' \<and> ledger p' = ledger p + mset batch \<and>
    totals_ok p' = totals_ok p \<and> pl_queue p' = pl_queue p"
proof -
  define v where "v = \<lparr>sv_pending = batch, sv_chunk = (if pl_shipChunk p \<le> 0 \<or> int (length batch) < pl_shipChunk p then int (length batch)
    else pl_shipChunk p), sv_pace = 0, sv_attempt = 0, sv_limited = False\<rparr>"
  have run: "shipBatch otlpEmit cfg now turns batch p = shipLoop otlpEmit cfg (now + shipBudget cfg) turns v p"
    by (simp add: shipBatch_def Let_def v_def shipBudget_def)
  have "\<exists>p'. shipLoop otlpEmit cfg (now + shipBudget cfg) turns v p = Some p'"
    using assms
  proof
    assume "list_ex (\<lambda>t. now + shipBudget cfg \<le> tn_top t) turns"
    then show ?thesis using otlp.shipLoop_deadline by (auto simp: list_ex_iff)
  next
    assume "0 < pc_ShipMaxAttempts cfg \<and> length batch + nat (pc_ShipMaxAttempts cfg) \<le> length turns"
    then show ?thesis by (intro otlp.shipLoop_returns) (simp_all add: v_def)
  qed
  then obtain p' where p': "shipLoop otlpEmit cfg (now + shipBudget cfg) turns v p = Some p'" by blast
  show ?thesis using otlp.shipLoop_settles [OF p'] p' run by (simp add: v_def)
qed

definition demoRecord :: LogRecord where
  "demoRecord = \<lparr>lr_Timestamp = 0, lr_Body = ''b'', lr_Attributes = None, lr_Severity = SeverityInfo, lr_Source = []\<rparr>"

definition demoShipConfig :: shipConfig where
  "demoShipConfig = \<lparr>pc_ShipMaxAttempts = 2, pc_ShipMaxElapsed = 0, pc_BatchMax = 10, pc_MaxExportBytes = 0, pc_MaxRecordBytes = 0\<rparr>"

definition demoPipeline :: "otlpSink logPipeline" where
  "demoPipeline = newPipeline 4 0 second_ns 8 \<lparr>os_base = [], os_order = [], os_capped = 0\<rparr>"

text \<open>A wire on which every export fails.\<close>

definition demoTurn :: "otlpWire shipTurn" where
  "demoTurn = \<lparr>tn_top = 0, tn_pace = WaitTimer False,
     tn_wire = \<lparr>ow_builds = (\<lambda>k. True), ow_now = 0, ow_flush = (\<lambda>k rs. (newObservation, True))\<rparr>,
     tn_stopped = False, tn_done = False, tn_after = 0, tn_backoff = WaitTimer False, tn_stopAtDrop = False\<rparr>"

text \<open>The default configuration, on a wire that never accepts: the third round starts past the budget.\<close>

definition demoUncapped :: shipConfig where
  "demoUncapped = demoShipConfig\<lparr>pc_ShipMaxAttempts := 0\<rparr>"

theorem batch_always_settled_witness:
  "\<exists>p'. shipBatch otlpEmit demoUncapped 0 [demoTurn, demoTurn, demoTurn\<lparr>tn_top := 10 ^ 12\<rparr>]
      [\<lparr>en_Source = ''a'', en_Record = demoRecord, en_Received = 0\<rparr>] demoPipeline = Some p' \<and>
    ledger p' = {#\<lparr>en_Source = ''a'', en_Record = demoRecord, en_Received = 0\<rparr>#} \<and> pc_ShipMaxAttempts demoUncapped = 0"
  using batch_always_settled [of 0 demoUncapped "[demoTurn, demoTurn, demoTurn\<lparr>tn_top := 10 ^ 12\<rparr>]"
    "[\<lparr>en_Source = ''a'', en_Record = demoRecord, en_Received = 0\<rparr>]" demoPipeline]
  by (auto simp: demoUncapped_def demoShipConfig_def demoPipeline_def newPipeline_def ledger_def shipBudget_def
    DefaultShipMaxElapsed_def second_ns_def)

text \<open>
  The clock reaches the end of a delivery's time budget, which is what ends a delivery that is never accepted where
  attempts are not capped.
\<close>

fun clock_advances :: "shipConfig \<Rightarrow> 'w plOp \<Rightarrow> bool" where
  "clock_advances cfg (PEmit now turns) \<longleftrightarrow>
     list_ex (\<lambda>t. now + shipBudget cfg \<le> tn_top t) turns"
| "clock_advances cfg _ \<longleftrightarrow> True"

context sink
begin

lemma plStep_returns:
  assumes "pl_ok p" "clock_advances cfg op"
  shows "\<exists>p'. plStep emit_batch cfg op p = Some p'"
proof (cases op)
  case (PPush name now r)
  then show ?thesis using enqueue_books [OF assms(1), of cfg now "pushSource name r" r] by (auto simp: pushRecord_def Let_def)
next
  case (PPoll name result)
  show ?thesis
  proof (cases result)
    case (Inr rs)
    then show ?thesis using PPoll pollLoop_books [OF assms(1), of cfg name rs None] by (auto simp: pollOnce_def)
  qed (use PPoll in \<open>simp add: pollOnce_def\<close>)
next
  case (PEmit now turns)
  then obtain t where t: "t \<in> set turns"
    "now + shipBudget cfg \<le> tn_top t"
    using assms(2) by (auto simp: list_ex_iff)
  show ?thesis using PEmit shipLoop_deadline [OF t]
    by (auto simp: emitterTurn_def shipBatch_def shipBudget_def Let_def split: option.split)
qed simp

lemma plRun_returns:
  "pl_ok p \<Longrightarrow> list_all (clock_advances cfg) ops \<Longrightarrow> \<exists>p'. plRun emit_batch cfg ops p = Some p'"
proof (induction ops arbitrary: p)
  case (Cons op ops)
  then obtain p1 where s: "plStep emit_batch cfg op p = Some p1" using plStep_returns [of p cfg op] by auto
  then have "pl_ok p1" using plRun_books [of p cfg "[op]" p1] Cons.prems(1) by simp
  then show ?case using Cons s by simp
qed simp

end

text \<open>
  (C17) The books of the whole pipeline balance. Any sequence of pushes, polls, emitter turns and a shutdown,
  started from an empty pipeline, runs to its end provided the clock reaches the time budget of each delivery; the
  entries then booked as shipped, the entries booked as dropped (for whichever reason) and the entries still queued
  are together exactly the records the sources brought, each stamped with its time of admission and none lost or
  counted twice, and the console's totals match the books.
\<close>

theorem pipeline_books_balance:
  fixes s :: otlpSink
  assumes "list_all (clock_advances cfg) ops"
  shows "\<exists>p. plRun otlpEmit cfg ops (newPipeline capacity maxBytes interval maxKeys s) = Some p \<and>
    mset (pl_shipped p) + mset (map snd (pl_dropped p)) + mset (queue_contents (pl_queue p)) = brings cfg False ops \<and>
    pl_consoleShipped p = length (pl_shipped p) \<and> pl_consoleDropped p = length (pl_dropped p)"
proof -
  have ok: "pl_ok (newPipeline capacity maxBytes interval maxKeys s)"
    by (simp add: pl_ok_def newPipeline_def totals_ok_def new_inv)
  obtain p where run: "plRun otlpEmit cfg ops (newPipeline capacity maxBytes interval maxKeys s) = Some p"
    using otlp.plRun_returns [OF ok assms] by blast
  show ?thesis using otlp.plRun_books [OF ok run] run
    by (simp add: newPipeline_def settled_def ledger_def pl_ok_def totals_ok_def new_fields)
qed

theorem pipeline_books_balance_witness:
  "\<exists>p. plRun otlpEmit demoShipConfig [PPush ''a'' 5 demoRecord, PEmit 6 (replicate 2 demoTurn @ [demoTurn\<lparr>tn_top := 10 ^ 12\<rparr>]), PShut]
      (newPipeline 4 0 second_ns 8 \<lparr>os_base = [], os_order = [], os_capped = 0\<rparr>) = Some p \<and>
    mset (pl_shipped p) + mset (map snd (pl_dropped p)) + mset (queue_contents (pl_queue p)) =
      {#\<lparr>en_Source = ''a'', en_Record = demoRecord, en_Received = 5\<rparr>#}"
  using pipeline_books_balance [of demoShipConfig "[PPush ''a'' 5 demoRecord, PEmit 6 (replicate 2 demoTurn @ [demoTurn\<lparr>tn_top := 10 ^ 12\<rparr>]), PShut]"
      4 0 second_ns 8 "\<lparr>os_base = [], os_order = [], os_capped = 0\<rparr>"]
  by (auto simp: demoShipConfig_def demoRecord_def shipBudget_def DefaultShipMaxElapsed_def second_ns_def booked_def tooLarge_def sanitized_def
    sanitizeAttributes_def pushSource_def numeral_eq_Suc)

text \<open>
  The schedule of retries is exponential and capped, and a rate limit never makes the emitter hammer or park.
\<close>

lemma shipBackoff_exponential:
  assumes "1 \<le> attempt"
  shows "shipBackoff attempt = min shipRetryMax (shipRetryBase * 2 ^ nat (attempt - 1))"
proof (cases "8 < attempt")
  case True
  then have "(2::int) ^ 8 \<le> 2 ^ nat (attempt - 1)" by (intro power_increasing) auto
  then show ?thesis using True by (simp add: shipBackoff_def shipRetryMax_def shipRetryBase_def second_ns_def millisecond_ns_def)
next
  case False
  then show ?thesis using assms by (simp add: shipBackoff_def Let_def push_bit_eq_mult min_def)
qed

lemma pacing_bounded:
  "shipRateLimitPause \<le> pacingFor (retryAfterDelay parseTime v now) \<and> pacingFor (retryAfterDelay parseTime v now) \<le> maxRetryAfter"
  using retryAfterDelay_le [of parseTime v now] by (auto simp: pacingFor_def shipRateLimitPause_def maxRetryAfter_def second_ns_def)

lemma splitChunk_shrinks:
  assumes "0 < n"
  shows "1 \<le> splitChunk n \<and> (n = 1 \<longrightarrow> splitChunk n = 1) \<and> (1 < n \<longrightarrow> splitChunk n < n)"
  using assms by (auto simp: splitChunk_def shipRateLimitMinChunk_def go_div_def Let_def)

section \<open>The limiter\<close>

definition logLimiter_ok :: "LogLimiter \<Rightarrow> bool" where
  "logLimiter_ok l \<longleftrightarrow> gomap_wf (lm_last l) \<and> int (length (lm_last l)) \<le> max 0 (lm_maxKeys l)"

lemma purge_ok:
  assumes "logLimiter_ok l"
  shows "logLimiter_ok (purgeExpired now l)"
proof -
  have "int (length (filter P (lm_last l))) \<le> int (length (lm_last l))" for P by simp
  then have "int (length (filter P (lm_last l))) \<le> max 0 (lm_maxKeys l)" for P
    using assms unfolding logLimiter_ok_def by (meson order_trans)
  then show ?thesis using assms by (simp add: logLimiter_ok_def purgeExpired_def gomap_wf_def distinct_map_filter)
qed

text \<open>The keys held never pass the cap, and one key is let through at most once per interval.\<close>

lemma logLimiter_bounded: "logLimiter_ok l \<Longrightarrow> logLimiter_ok (snd (LogLimiter_Allow key now l))"
proof (cases "map_of (lm_last l) key")
  case None
  assume ok: "logLimiter_ok l"
  define l1 where "l1 = (if lm_maxKeys l \<le> int (length (lm_last l)) then purgeExpired now l else l)"
  have l1: "logLimiter_ok l1" "map_of (lm_last l1) key = None" "lm_maxKeys l1 = lm_maxKeys l"
    using ok purge_ok [OF ok] None by (auto simp: l1_def purgeExpired_def map_of_eq_None_iff image_iff)
  then show ?thesis using None
    by (auto simp: LogLimiter_Allow_def Let_def l1_def [symmetric] logLimiter_ok_def length_update_new)
next
  case (Some t)
  assume ok: "logLimiter_ok l"
  then show ?thesis using Some
    by (auto simp: LogLimiter_Allow_def logLimiter_ok_def length_update_old)
qed

lemma logLimiter_once:
  assumes "fst (LogLimiter_Allow key now l)" "now \<le> later" "later - now < lm_interval l" "lm_interval l \<le> max_int64"
  shows "\<not> fst (LogLimiter_Allow key later (snd (LogLimiter_Allow key now l)))"
proof -
  let ?l = "snd (LogLimiter_Allow key now l)"
  have "map_of (lm_last ?l) key = Some now \<and> lm_interval ?l = lm_interval l"
    using assms(1) by (auto simp: LogLimiter_Allow_def Let_def purgeExpired_def map_of_update_conv split: option.splits if_splits)
  then show ?thesis using assms(2-4) by (auto simp: LogLimiter_Allow_def time_Sub_def max_int64_def min_int64_def)
qed

end
