(* ===== verification/JsonText.thy ===== *)
theory JsonText
  imports CaptureShape ZenParse
begin

text \<open>
  The text \<^verbatim>\<open>encoding/json\<close> writes for the bodies of the polled lanes: values as trees, strings with Go's escapes
  (quotes, backslash, control characters, the HTML characters, U+2028 and U+2029; a byte that is not UTF-8 becomes
  U+FFFD). The fields of a struct stand in the order it declares them.
\<close>

datatype json = JBool bool | JNum int | JStr string | JArr "json list" | JObj "(string \<times> json) list"

definition jsonByte :: "char \<Rightarrow> string" where
  "jsonByte c =
     (let n = (of_char c :: nat) in
      if n = 34 \<or> n = 92 then [CHR 0x5C, c]
      else if n = 8 then [CHR 0x5C, CHR ''b'']
      else if n = 9 then [CHR 0x5C, CHR ''t'']
      else if n = 10 then [CHR 0x5C, CHR ''n'']
      else if n = 12 then [CHR 0x5C, CHR ''f'']
      else if n = 13 then [CHR 0x5C, CHR ''r'']
      else if n < 32 \<or> n = 38 \<or> n = 60 \<or> n = 62 then CHR 0x5C # ''u00'' @ [hex_digit (n div 16), hex_digit (n mod 16)]
      else [c])"

definition jsonRune :: "string \<Rightarrow> string" where
  "jsonRune r =
     (if length r = 1 then CHR 0x5C # ''ufffd''
      else if r = [CHR 0xE2, CHR 0x80, CHR 0xA8] then CHR 0x5C # ''u2028''
      else if r = [CHR 0xE2, CHR 0x80, CHR 0xA9] then CHR 0x5C # ''u2029''
      else r)"

lemma runeWidth_pos: "0 < runeWidth s"
  by (simp add: runeWidth_def Let_def)

function jsonChars :: "string \<Rightarrow> string" where
  "jsonChars [] = []"
| "jsonChars (c # cs) =
     (if of_char c < (128::nat) then jsonByte c @ jsonChars cs
      else jsonRune (take (runeWidth (c # cs)) (c # cs)) @ jsonChars (drop (runeWidth (c # cs)) (c # cs)))"
  by pat_completeness auto

termination
  by (relation "measure length") (auto simp: runeWidth_pos)

declare jsonChars.simps(2) [simp del]

definition jsonQuote :: "string \<Rightarrow> string" where
  "jsonQuote s = CHR 0x22 # jsonChars s @ [CHR 0x22]"

fun marshal :: "json \<Rightarrow> string" where
  "marshal (JBool b) = (if b then ''true'' else ''false'')"
| "marshal (JNum v) = FormatInt v"
| "marshal (JStr s) = jsonQuote s"
| "marshal (JArr xs) = ''['' @ join_with '','' (map marshal xs) @ '']''"
| "marshal (JObj kvs) = ''{'' @ join_with '','' (map (\<lambda>kv. jsonQuote (fst kv) @ '':'' @ marshal (snd kv)) kvs) @ ''}''"

text \<open>Fields tagged \<^verbatim>\<open>omitempty\<close>.\<close>

definition omitStr :: "string \<Rightarrow> string \<Rightarrow> (string \<times> json) list" where
  "omitStr k s = (if s = [] then [] else [(k, JStr s)])"

definition omitNum :: "string \<Rightarrow> int \<Rightarrow> (string \<times> json) list" where
  "omitNum k v = (if v = 0 then [] else [(k, JNum v)])"

section \<open>One line\<close>

text \<open>Whatever the strings hold, the text has no control character: a body is one line.\<close>

definition printable :: "string \<Rightarrow> bool" where
  "printable s \<longleftrightarrow> list_all (\<lambda>c. (32::nat) \<le> of_char c) s"

lemma printable_append [simp]: "printable (a @ b) \<longleftrightarrow> printable a \<and> printable b" "printable (c # a) \<longleftrightarrow> (32::nat) \<le> of_char c \<and> printable a" "printable []"
  by (simp_all add: printable_def)

lemma printable_jsonByte: "of_char c < (128::nat) \<Longrightarrow> printable (jsonByte c)"
proof -
  assume c: "of_char c < (128::nat)"
  have h: "(32::nat) \<le> of_char (hex_digit k)" if "k < 16" for k using that by (simp add: of_char_of)
  have "(of_char c :: nat) div 16 < 16" using c by simp
  then show ?thesis using h by (auto simp: jsonByte_def Let_def)
qed

lemma runeWidth_cases:
  assumes "(128::nat) \<le> of_char c" "runeWidth (c # cs) \<noteq> 1"
  shows "printable (take (runeWidth (c # cs)) (c # cs))"
proof -
  have byte: "(32::nat) \<le> of_char ((c # cs) ! i)" if i: "i < runeWidth (c # cs)" "i < length (c # cs)" for i
  proof (cases "i = 0")
    case False
    have "i = 1 \<or> i = 2 \<or> i = 3" using i(1) False by (auto simp: runeWidth_def Let_def split: if_splits)
    then show ?thesis using i assms(2) by (auto simp: runeWidth_def Let_def split: if_splits)
  qed (use assms(1) in simp)
  show ?thesis unfolding printable_def list_all_length using byte by simp
qed

lemma jsonRune_printable:
  assumes "(128::nat) \<le> of_char c"
  shows "printable (jsonRune (take (runeWidth (c # cs)) (c # cs)))"
proof (cases "runeWidth (c # cs) = 1")
  case False
  then show ?thesis using runeWidth_cases [OF assms False] by (simp add: jsonRune_def)
qed (simp add: jsonRune_def)

lemma jsonChars_printable: "printable (jsonChars s)"
proof (induction s rule: jsonChars.induct)
  case (2 c cs)
  then show ?case by (simp add: jsonChars.simps(2) [of c cs] printable_jsonByte jsonRune_printable)
qed simp

lemma itoa_printable: "printable (itoa n)"
proof (induction n rule: itoa.induct)
  case (1 n)
  have "(32::nat) \<le> of_char (char_of (48 + k mod 10) :: char)" for k :: nat by (simp add: of_char_of)
  moreover have "(32::nat) \<le> of_char (char_of (48 + n) :: char)" if "n < 10" using that by (simp add: of_char_of)
  ultimately show ?case using 1 by (subst itoa.simps) simp
qed

lemma join_printable: "printable sep \<Longrightarrow> list_all printable ws \<Longrightarrow> printable (join_with sep ws)"
  by (induction ws) (auto simp: join_with_def printable_def list_all_iff split: list.split)

lemma marshal_printable: "printable (marshal j)"
proof (induction j rule: marshal.induct)
  case (4 xs)
  then show ?case by (auto intro!: join_printable simp: list_all_iff)
next
  case (5 kvs)
  then show ?case by (auto intro!: join_printable simp: list_all_iff jsonQuote_def jsonChars_printable)
qed (auto simp: FormatInt_def itoa_printable jsonQuote_def jsonChars_printable)

end
