(* ===== verification/PolledLanes.thy ===== *)
theory PolledLanes
  imports JsonText Accumulator
begin

text \<open>
  The polled log lanes with a cursor (\<^verbatim>\<open>internal/logship/ids.go\<close>, \<^verbatim>\<open>unbound.go\<close>, \<^verbatim>\<open>crowdsec.go\<close>): each poll reads a bounded
  page of rows through the API and ships those its cursor has not handled. Suricata alerts and DNS queries have a
  cursor of the newest time and the keys seen at it, CrowdSec alerts and decisions the highest identifier. A fetch
  is its rows or an error; the persisted state is the decoded value, none where the blob is absent or corrupt.
  Alerts with equal times may come out of \<^verbatim>\<open>sort.Slice\<close> in any order; the statements are on multisets. The locale
  \<open>window_cursor\<close> is what the two windowed lanes promise, \<open>resumable_cursor\<close> adds the state file.
\<close>

section \<open>Suricata alerts\<close>

record IDSAlertRecord =
  ia_Timestamp :: time
  ia_FlowID :: int
  ia_AlertSID :: int
  ia_AlertAction :: string
  ia_Signature :: string
  ia_SrcIP :: string
  ia_DestIP :: string
  ia_InIface :: string
  ia_Proto :: string
  ia_Body :: string

definition idsSourceName :: string where
  "idsSourceName = ''ids''"

definition idsMinInterval :: duration where
  "idsMinInterval = 30 * second_ns"

definition idsGapEvent :: string where
  "idsGapEvent = ''gap_detected''"

definition IDSAlertRowCap :: nat where
  "IDSAlertRowCap = 500"

record idsSource =
  is_cursorSet :: bool
  is_lastTimestamp :: time
  is_dedupe :: "string set"

definition newIDSSource :: idsSource where
  "newIDSSource = \<lparr>is_cursorSet = False, is_lastTimestamp = 0, is_dedupe = {}\<rparr>"

definition idsSeverity :: "string \<Rightarrow> Severity" where
  "idsSeverity action = (if action = ''blocked'' then SeverityWarn else SeverityInfo)"

definition idsDedupeKey :: "IDSAlertRecord \<Rightarrow> string" where
  "idsDedupeKey r = FormatInt (ia_FlowID r) @ '':'' @ FormatInt (ia_AlertSID r)"

definition idsRecordFromAlert :: "IDSAlertRecord \<Rightarrow> LogRecord" where
  "idsRecordFromAlert r =
     (let attrs = [(''alert_sid'', FormatInt (ia_AlertSID r)), (''alert_action'', ia_AlertAction r), (''src_ip'', ia_SrcIP r),
            (''dest_ip'', ia_DestIP r), (''in_iface'', ia_InIface r), (''proto'', ia_Proto r), (''signature'', ia_Signature r)];
          a = MapSuricataAction (ia_AlertAction r)
      in \<lparr>lr_Timestamp = ia_Timestamp r, lr_Body = ia_Body r, lr_Attributes = Some (if a \<noteq> [] then AList.update AttrAction a attrs else attrs),
          lr_Severity = idsSeverity (ia_AlertAction r), lr_Source = []\<rparr>)"

text \<open>The record of a gap; \<open>rfc3339\<close> formats an instant. The keys of a map are marshalled in order.\<close>

definition gapNote :: string where
  "gapNote = ''query_alerts window saturated before reaching the prior cursor; alerts in this range were not observed (accepted, bounded loss - see docs/log-shipping.md)''"

definition gapRecord :: "(time \<Rightarrow> string) \<Rightarrow> time \<Rightarrow> time \<Rightarrow> LogRecord" where
  "gapRecord rfc3339 from_t to_t =
     \<lparr>lr_Timestamp = to_t,
      lr_Body = marshal (JObj [(''event'', JStr idsGapEvent), (''gap_end'', JStr (rfc3339 to_t)), (''gap_start'', JStr (rfc3339 from_t)),
        (''note'', JStr gapNote), (''row_cap'', JNum (int IDSAlertRowCap))]),
      lr_Attributes = Some [(''event'', idsGapEvent)], lr_Severity = SeverityWarn, lr_Source = []\<rparr>"

definition advanceCursor :: "IDSAlertRecord list \<Rightarrow> idsSource \<Rightarrow> idsSource" where
  "advanceCursor ordered s =
     (let newest = ia_Timestamp (last ordered)
      in \<lparr>is_cursorSet = True, is_lastTimestamp = newest,
          is_dedupe = set (map idsDedupeKey (filter (\<lambda>r. ia_Timestamp r = newest) ordered))\<rparr>)"

definition idsOrdered :: "IDSAlertRecord list \<Rightarrow> IDSAlertRecord list" where
  "idsOrdered records = sort_Slice (\<lambda>a b. ia_Timestamp a < ia_Timestamp b) records"

definition idsKept :: "idsSource \<Rightarrow> IDSAlertRecord list \<Rightarrow> IDSAlertRecord list" where
  "idsKept s ordered =
     filter (\<lambda>r. \<not> ia_Timestamp r < is_lastTimestamp s \<and> \<not> (ia_Timestamp r = is_lastTimestamp s \<and> idsDedupeKey r \<in> is_dedupe s)) ordered"

definition ids_Poll :: "(time \<Rightarrow> string) \<Rightarrow> 'e + IDSAlertRecord list \<Rightarrow> idsSource \<Rightarrow> ('e + LogRecord list) \<times> idsSource" where
  "ids_Poll rfc3339 fetch s =
     (case fetch of
        Inl e \<Rightarrow> (Inl e, s)
      | Inr records \<Rightarrow>
          if records = [] then (Inr [], s)
          else
            let ordered = idsOrdered records;
                gap = (if is_cursorSet s \<and> IDSAlertRowCap \<le> length records \<and> is_lastTimestamp s < ia_Timestamp (hd ordered)
                  then [gapRecord rfc3339 (is_lastTimestamp s) (ia_Timestamp (hd ordered))] else []);
                out = (if is_cursorSet s then idsKept s ordered else ordered)
            in (Inr (gap @ map idsRecordFromAlert out), advanceCursor ordered s))"

record idsCursorState =
  ic_LastTimestamp :: time
  ic_Dedupe :: "string list"

definition ids_LoadState :: "idsCursorState option \<Rightarrow> idsSource \<Rightarrow> idsSource" where
  "ids_LoadState st s =
     (case st of
        None \<Rightarrow> s
      | Some c \<Rightarrow> if time_IsZero (ic_LastTimestamp c) then s
          else \<lparr>is_cursorSet = True, is_lastTimestamp = ic_LastTimestamp c, is_dedupe = set (ic_Dedupe c)\<rparr>)"

definition ids_SaveState :: "idsSource \<Rightarrow> idsCursorState option" where
  "ids_SaveState s =
     (if \<not> is_cursorSet s then None
      else Some \<lparr>ic_LastTimestamp = is_lastTimestamp s, ic_Dedupe = sorted_list_of_set (is_dedupe s)\<rparr>)"

section \<open>DNS queries\<close>

record UnboundSearchQueryRow =
  uq_UUID :: string
  uq_Time :: int
  uq_Client :: string
  uq_Family :: string
  uq_Type :: string
  uq_Domain :: string
  uq_Action :: string
  uq_Source :: string
  uq_Blocklist :: string
  uq_RCode :: string
  uq_ResolveTimeMs :: int
  uq_DNSSECStatus :: string
  uq_TTL :: int
  uq_Policy :: string
  uq_blocklistDisplayValue :: bool

definition unboundSourceName :: string where
  "unboundSourceName = ''unbound''"

definition unboundClientLabelAttr :: string where
  "unboundClientLabelAttr = ''dns.client_label''"

definition isUnboundBlocklistShortCode :: "string \<Rightarrow> bool" where
  "isUnboundBlocklistShortCode v \<longleftrightarrow> v \<noteq> [] \<and>
     list_all (\<lambda>c. \<not> ((of_char c < (97::nat) \<or> (122::nat) < of_char c) \<and> (of_char c < (48::nat) \<or> (57::nat) < of_char c))) v"

definition BlocklistIdentity :: "UnboundSearchQueryRow \<Rightarrow> string \<times> bool" where
  "BlocklistIdentity r =
     (if uq_blocklistDisplayValue r then ([], False)
      else let identity = TrimSpace (uq_Blocklist r)
           in if isUnboundBlocklistShortCode identity then (identity, True) else ([], False))"

record unboundSource =
  ub_lastTime :: int
  ub_seenAtLastTime :: "string set"
  ub_possibleGaps :: nat

definition newUnboundSource :: unboundSource where
  "newUnboundSource = \<lparr>ub_lastTime = 0, ub_seenAtLastTime = {}, ub_possibleGaps = 0\<rparr>"

definition rowFingerprint :: "UnboundSearchQueryRow \<Rightarrow> string" where
  "rowFingerprint row =
     (if uq_UUID row \<noteq> [] then uq_UUID row
      else join_with ''|'' [FormatInt (uq_Time row), uq_Client row, uq_Domain row, uq_Type row, uq_Action row, uq_Source row,
        uq_RCode row, FormatInt (uq_ResolveTimeMs row)])"

definition unboundSeverity :: "string \<Rightarrow> Severity" where
  "unboundSeverity action = (if action = ''Block'' \<or> action = ''Drop'' then SeverityWarn else SeverityInfo)"

definition ParseIP :: "string \<Rightarrow> addr option" where
  "ParseIP s = (case ParseAddr s of None \<Rightarrow> None | Some a \<Rightarrow> if addr_Zone a \<noteq> [] then None else Some a)"

definition setUnboundClient :: "Snapshot option \<Rightarrow> string \<Rightarrow> attrs \<Rightarrow> attrs" where
  "setUnboundClient snap client0 m =
     (let client = TrimSpace client0 in
      if client = [] then m
      else
        let m = AList.update unboundClientLabelAttr client m in
        if ParseIP client = None then m
        else
          let m = AList.update ''src.ip'' client m in
          case snap of
            None \<Rightarrow> m
          | Some sn \<Rightarrow>
              let (host, okHost) = Snapshot_Hostname sn client;
                  m = (if okHost then AList.update ''src.hostname'' host m else m);
                  (mac, okMAC) = Snapshot_MAC sn client;
                  m = (if okMAC then AList.update ''src.mac'' mac m else m)
              in if Snapshot_Scope sn client \<noteq> [] then AList.update ''src.scope'' (Snapshot_Scope sn client) m else m)"

definition unboundLogLine :: "UnboundSearchQueryRow \<Rightarrow> json" where
  "unboundLogLine row = JObj
     ([(''time'', JNum (uq_Time row)), (''client'', JStr (uq_Client row))] @ omitStr ''family'' (uq_Family row) @
      [(''type'', JStr (uq_Type row)), (''domain'', JStr (uq_Domain row)), (''action'', JStr (uq_Action row)), (''source'', JStr (uq_Source row))] @
      omitStr ''blocklist'' (fst (BlocklistIdentity row)) @ [(''rcode'', JStr (uq_RCode row))] @
      omitNum ''resolve_time_ms'' (uq_ResolveTimeMs row) @ omitStr ''dnssec_status'' (uq_DNSSECStatus row) @
      omitNum ''ttl'' (uq_TTL row) @ omitStr ''policy'' (uq_Policy row))"

definition unboundRecord :: "Snapshot option \<Rightarrow> UnboundSearchQueryRow \<Rightarrow> LogRecord" where
  "unboundRecord snap row =
     (let m = [(''domain'', uq_Domain row), (''qtype'', uq_Type row), (''action'', uq_Action row), (''query_source'', uq_Source row),
            (''rcode'', uq_RCode row), (''dnssec_status'', uq_DNSSECStatus row)];
          (identity, has) = BlocklistIdentity row;
          m = (if has then AList.update ''blocklist'' identity m else m);
          a = MapUnboundAction (uq_Action row);
          m = (if a \<noteq> [] then AList.update AttrAction a m else m)
      in \<lparr>lr_Timestamp = time_Unix (uq_Time row) 0, lr_Body = marshal (unboundLogLine row),
          lr_Attributes = Some (setUnboundClient snap (uq_Client row) m), lr_Severity = unboundSeverity (uq_Action row), lr_Source = []\<rparr>)"

definition unboundKept :: "unboundSource \<Rightarrow> UnboundSearchQueryRow list \<Rightarrow> UnboundSearchQueryRow list" where
  "unboundKept s rows =
     filter (\<lambda>row. ub_lastTime s < uq_Time row \<or> uq_Time row = ub_lastTime s \<and> rowFingerprint row \<notin> ub_seenAtLastTime s) rows"

definition updateCursor :: "int \<Rightarrow> string set \<Rightarrow> unboundSource \<Rightarrow> unboundSource" where
  "updateCursor t seen s = s\<lparr>ub_lastTime := t, ub_seenAtLastTime := seen\<rparr>"

definition unboundAdvance :: "UnboundSearchQueryRow list \<Rightarrow> unboundSource \<Rightarrow> unboundSource" where
  "unboundAdvance rows s =
     (let newest = uq_Time (hd rows)
      in updateCursor newest (set (map rowFingerprint (filter (\<lambda>row. uq_Time row = newest) rows))) s)"

definition unbound_Poll :: "Snapshot option \<Rightarrow> 'e + UnboundSearchQueryRow list \<Rightarrow> unboundSource \<Rightarrow> ('e + LogRecord list) \<times> unboundSource" where
  "unbound_Poll snap fetch s =
     (case fetch of
        Inl e \<Rightarrow> (Inl e, s)
      | Inr rows \<Rightarrow>
          if rows = [] then (Inr [], s)
          else
            let coldStart = (ub_lastTime s = 0);
                s' = (if \<not> coldStart \<and> ub_lastTime s < uq_Time (last rows) then s\<lparr>ub_possibleGaps := Suc (ub_possibleGaps s)\<rparr> else s);
                records = (if coldStart then [] else map (unboundRecord snap) (rev (unboundKept s rows)))
            in (Inr records, unboundAdvance rows s'))"

record unboundState =
  us_LastTime :: int
  us_Seen :: "string list"

definition unbound_LoadState :: "unboundState option \<Rightarrow> unboundSource \<Rightarrow> unboundSource" where
  "unbound_LoadState st s = (case st of None \<Rightarrow> s | Some c \<Rightarrow> updateCursor (us_LastTime c) (set (us_Seen c)) s)"

definition unbound_SaveState :: "unboundSource \<Rightarrow> unboundState option" where
  "unbound_SaveState s =
     (if ub_lastTime s = 0 then None
      else Some \<lparr>us_LastTime = ub_lastTime s, us_Seen = sorted_list_of_set (ub_seenAtLastTime s)\<rparr>)"

section \<open>CrowdSec alerts and decisions\<close>

record CrowdSecAlert =
  ca_ID :: int
  ca_ScopeValue :: string
  ca_Scenario :: string
  ca_Country :: string
  ca_AS :: string
  ca_DecisionsSummary :: string
  ca_CreatedRaw :: string
  ca_CreatedAt :: time
  ca_HasCreatedAt :: bool

record CrowdSecDecision =
  cd_ID :: int
  cd_Origin :: string
  cd_ScopeValue :: string
  cd_Scenario :: string
  cd_Action :: string
  cd_Country :: string
  cd_AS :: string
  cd_EventsCount :: int
  cd_Expiration :: string
  cd_AlertID :: int

definition crowdsecMinInterval :: duration where
  "crowdsecMinInterval = 60 * second_ns"

record crowdsecSource =
  cs_lastAlertID :: int
  cs_lastDecisionID :: int

definition newCrowdSecSource :: crowdsecSource where
  "newCrowdSecSource = \<lparr>cs_lastAlertID = 0, cs_lastDecisionID = 0\<rparr>"

definition crowdsecAlertBody :: "CrowdSecAlert \<Rightarrow> json" where
  "crowdsecAlertBody a = JObj
     ([(''kind'', JStr ''alert''), (''id'', JNum (ca_ID a)), (''scope_value'', JStr (ca_ScopeValue a)), (''scenario'', JStr (ca_Scenario a))] @
      omitStr ''country'' (ca_Country a) @ omitStr ''as'' (ca_AS a) @ omitStr ''decisions'' (ca_DecisionsSummary a) @
      omitStr ''created'' (ca_CreatedRaw a))"

definition buildCrowdSecAlertRecord :: "CrowdSecAlert \<Rightarrow> LogRecord" where
  "buildCrowdSecAlertRecord a =
     \<lparr>lr_Timestamp = (if ca_HasCreatedAt a then ca_CreatedAt a else 0), lr_Body = marshal (crowdsecAlertBody a),
      lr_Attributes = Some (set_all [(''country'', ca_Country a), (''as'', ca_AS a), (''decisions'', ca_DecisionsSummary a)]
        [(''scenario'', ca_Scenario a), (''value'', ca_ScopeValue a)]),
      lr_Severity = SeverityInfo, lr_Source = []\<rparr>"

definition crowdsecDecisionBody :: "CrowdSecDecision \<Rightarrow> json" where
  "crowdsecDecisionBody d = JObj
     ([(''kind'', JStr ''decision''), (''id'', JNum (cd_ID d)), (''alert_id'', JNum (cd_AlertID d))] @ omitStr ''origin'' (cd_Origin d) @
      [(''scope_value'', JStr (cd_ScopeValue d)), (''scenario'', JStr (cd_Scenario d)), (''action'', JStr (cd_Action d))] @
      omitStr ''country'' (cd_Country d) @ omitStr ''as'' (cd_AS d) @ omitNum ''events_count'' (cd_EventsCount d) @
      omitStr ''expiration'' (cd_Expiration d))"

definition buildCrowdSecDecisionRecord :: "CrowdSecDecision \<Rightarrow> LogRecord" where
  "buildCrowdSecDecisionRecord d =
     \<lparr>lr_Timestamp = 0, lr_Body = marshal (crowdsecDecisionBody d),
      lr_Attributes = Some (set_all
        [(AttrAction, if cd_Action d \<noteq> [] then ActionBlock else []), (''country'', cd_Country d), (''as'', cd_AS d), (''duration'', cd_Expiration d)]
        [(''scenario'', cd_Scenario d), (''value'', cd_ScopeValue d), (''decision_type'', cd_Action d)]),
      lr_Severity = SeverityInfo, lr_Source = []\<rparr>"

text \<open>The rows beyond the cursor, in order of their identifiers, and the cursor after them.\<close>

definition byID :: "('a \<Rightarrow> int) \<Rightarrow> 'a list \<Rightarrow> 'a list" where
  "byID ident rows = sort_Slice (\<lambda>a b. ident a < ident b) rows"

definition beyond :: "('a \<Rightarrow> int) \<Rightarrow> int \<Rightarrow> 'a list \<Rightarrow> 'a list" where
  "beyond ident lst rows = filter (\<lambda>r. lst < ident r) (byID ident rows)"

definition lastID :: "('a \<Rightarrow> int) \<Rightarrow> int \<Rightarrow> 'a list \<Rightarrow> int" where
  "lastID ident lst rows =
     (let sorted_rows = byID ident rows
      in if sorted_rows \<noteq> [] \<and> lst < ident (last sorted_rows) then ident (last sorted_rows) else lst)"

definition crowdsec_Poll ::
  "'e + CrowdSecAlert list \<Rightarrow> 'e + CrowdSecDecision list \<Rightarrow> crowdsecSource \<Rightarrow> ('e + LogRecord list) \<times> crowdsecSource" where
  "crowdsec_Poll fetchAlerts fetchDecisions s =
     (case fetchAlerts of
        Inl e \<Rightarrow> (Inl e, s)
      | Inr alerts \<Rightarrow>
          (case fetchDecisions of
             Inl e \<Rightarrow> (Inl e, s)
           | Inr decisions \<Rightarrow>
               (Inr (map buildCrowdSecAlertRecord (beyond ca_ID (cs_lastAlertID s) alerts) @
                  map buildCrowdSecDecisionRecord (beyond cd_ID (cs_lastDecisionID s) decisions)),
                \<lparr>cs_lastAlertID = lastID ca_ID (cs_lastAlertID s) alerts,
                 cs_lastDecisionID = lastID cd_ID (cs_lastDecisionID s) decisions\<rparr>)))"

definition crowdsec_LoadState :: "(int \<times> int) option \<Rightarrow> crowdsecSource \<Rightarrow> crowdsecSource" where
  "crowdsec_LoadState st s = (case st of None \<Rightarrow> s | Some (a, d) \<Rightarrow> \<lparr>cs_lastAlertID = a, cs_lastDecisionID = d\<rparr>)"

definition crowdsec_SaveState :: "crowdsecSource \<Rightarrow> (int \<times> int) option" where
  "crowdsec_SaveState s =
     (if cs_lastAlertID s = 0 \<and> cs_lastDecisionID s = 0 then None else Some (cs_lastAlertID s, cs_lastDecisionID s))"

section \<open>Windowed cursors\<close>

text \<open>
  A cursor that has handled the rows \<open>D\<close>, and a page that continues it: rows are met once, no row outside \<open>D\<close> is
  older than what was handled or shares time and key with it, and the newest rows handled are still on the page,
  which is what a page that did not overflow gives.
\<close>

definition synced :: "('a \<Rightarrow> int) \<Rightarrow> ('a \<Rightarrow> string) \<Rightarrow> (int \<times> string set) option \<Rightarrow> 'a set \<Rightarrow> bool" where
  "synced stamp key c D \<longleftrightarrow>
     (\<exists>r\<in>D. (\<forall>d\<in>D. stamp d \<le> stamp r) \<and> c = Some (stamp r, key ` {d \<in> D. stamp d = stamp r}))"

definition continues :: "('a \<Rightarrow> int) \<Rightarrow> ('a \<Rightarrow> string) \<Rightarrow> 'a set \<Rightarrow> 'a list \<Rightarrow> bool" where
  "continues stamp key D rows \<longleftrightarrow> rows \<noteq> [] \<and> distinct rows \<and>
     (\<forall>r\<in>set rows. r \<notin> D \<longrightarrow> (\<forall>d\<in>D. stamp d \<le> stamp r \<and> (stamp d = stamp r \<longrightarrow> key d \<noteq> key r))) \<and>
     (\<forall>d\<in>D. (\<forall>e\<in>D. stamp e \<le> stamp d) \<longrightarrow> d \<in> set rows)"

fun all_continue :: "('a \<Rightarrow> int) \<Rightarrow> ('a \<Rightarrow> string) \<Rightarrow> ('a list \<Rightarrow> bool) \<Rightarrow> 'a set \<Rightarrow> 'a list list \<Rightarrow> bool" where
  "all_continue stamp key page D [] \<longleftrightarrow> True"
| "all_continue stamp key page D (rows # pages) \<longleftrightarrow>
     page rows \<and> continues stamp key D rows \<and> all_continue stamp key page (D \<union> set rows) pages"

text \<open>
  What a windowed lane promises: it keeps the rows newer than its cursor and those at its time with a new key, and
  moves the cursor to the newest row of the page and the keys at its time.
\<close>

locale window_cursor =
  fixes stamp :: "'a \<Rightarrow> int" and key :: "'a \<Rightarrow> string" and page :: "'a list \<Rightarrow> bool"
    and kept :: "'s \<Rightarrow> 'a list \<Rightarrow> 'a list" and advance :: "'a list \<Rightarrow> 's \<Rightarrow> 's" and cursor :: "'s \<Rightarrow> (int \<times> string set) option"
  assumes kept_law: "cursor s = Some (t, seen) \<Longrightarrow>
      mset (kept s rows) = filter_mset (\<lambda>r. t < stamp r \<or> stamp r = t \<and> key r \<notin> seen) (mset rows)"
    and advance_law: "page rows \<Longrightarrow> r \<in> set rows \<Longrightarrow> (\<And>d. d \<in> set rows \<Longrightarrow> stamp d \<le> stamp r) \<Longrightarrow>
      cursor (advance rows s) = Some (stamp r, key ` {d \<in> set rows. stamp d = stamp r})"
begin

lemma kept_exact:
  assumes "synced stamp key (cursor s) D" "continues stamp key D rows"
  shows "mset (kept s rows) = mset_set (set rows - D)"
proof -
  obtain r where r: "r \<in> D" "\<forall>d\<in>D. stamp d \<le> stamp r" "cursor s = Some (stamp r, key ` {d \<in> D. stamp d = stamp r})"
    using assms(1) unfolding synced_def by blast
  have new: "(stamp r < stamp x \<or> stamp x = stamp r \<and> key x \<notin> key ` {d \<in> D. stamp d = stamp r}) \<longleftrightarrow> x \<notin> D" if "x \<in> set rows" for x
    using that assms(2) r unfolding continues_def by (fastforce simp: order_less_le)
  have "mset (kept s rows) = filter_mset (\<lambda>x. x \<notin> D) (mset rows)"
    unfolding kept_law [OF r(3)] by (rule filter_mset_cong) (use new in auto)
  moreover have "distinct rows" using assms(2) by (simp add: continues_def)
  ultimately show ?thesis by (simp add: mset_set_set [symmetric] filter_mset_mset_set set_diff_eq)
qed

lemma newest_in:
  assumes "finite A" "A \<noteq> {}"
  shows "\<exists>r\<in>A. \<forall>d\<in>A. stamp d \<le> stamp r"
proof -
  have "Max (stamp ` A) \<in> stamp ` A" using assms by simp
  then obtain r where "r \<in> A" "stamp r = Max (stamp ` A)" by auto
  then show ?thesis using assms by (auto intro!: bexI [of _ r])
qed

lemma advance_first:
  assumes "page rows" "rows \<noteq> []"
  shows "synced stamp key (cursor (advance rows s)) (set rows)"
proof -
  obtain r where "r \<in> set rows" "\<forall>d\<in>set rows. stamp d \<le> stamp r" using newest_in [of "set rows"] assms(2) by auto
  then show ?thesis unfolding synced_def using advance_law [OF assms(1), of r s] by auto
qed

lemma advance_synced:
  assumes "synced stamp key (cursor s) D" "continues stamp key D rows" "page rows"
  shows "synced stamp key (cursor (advance rows s)) (D \<union> set rows)"
proof -
  obtain d0 where d0: "d0 \<in> D" "\<forall>d\<in>D. stamp d \<le> stamp d0" using assms(1) unfolding synced_def by blast
  have c: "rows \<noteq> []" "d0 \<in> set rows" using assms(2) d0 by (auto simp: continues_def)
  obtain r where r: "r \<in> set rows" "\<forall>d\<in>set rows. stamp d \<le> stamp r" using newest_in [of "set rows"] c(1) by auto
  have top: "\<forall>d\<in>D \<union> set rows. stamp d \<le> stamp r" using d0 r c(2) by (meson UnE order_trans)
  have "{d \<in> D \<union> set rows. stamp d = stamp r} = {d \<in> set rows. stamp d = stamp r}"
  proof -
    have "d \<in> set rows" if d: "d \<in> D" "stamp d = stamp r" for d
    proof -
      have "\<forall>e\<in>D. stamp e \<le> stamp d" using top d by auto
      then show ?thesis using assms(2) d(1) by (simp add: continues_def)
    qed
    then show ?thesis by auto
  qed
  then show ?thesis unfolding synced_def using top r(1) advance_law [OF assms(3) r(1), of s] r(2) by auto
qed

end

section \<open>The lanes are windowed cursors\<close>

definition idsCursor :: "idsSource \<Rightarrow> (int \<times> string set) option" where
  "idsCursor s = (if is_cursorSet s then Some (is_lastTimestamp s, is_dedupe s) else None)"

definition unboundCursor :: "unboundSource \<Rightarrow> (int \<times> string set) option" where
  "unboundCursor s = (if ub_lastTime s = 0 then None else Some (ub_lastTime s, ub_seenAtLastTime s))"

text \<open>A page of the resolver's log: newest first, at times after the epoch.\<close>

definition unboundPage :: "UnboundSearchQueryRow list \<Rightarrow> bool" where
  "unboundPage rows \<longleftrightarrow> sorted_wrt (\<lambda>a b. uq_Time b \<le> uq_Time a) rows \<and> (\<forall>r\<in>set rows. 0 < uq_Time r)"

lemma idsOrdered_mset [simp]: "mset (idsOrdered rows) = mset rows" "set (idsOrdered rows) = set rows" "idsOrdered rows = [] \<longleftrightarrow> rows = []"
  by (simp_all add: idsOrdered_def flip: set_mset_mset mset_zero_iff)

lemma idsOrdered_sorted: "sorted_wrt (\<lambda>a b. ia_Timestamp a \<le> ia_Timestamp b) (idsOrdered rows)"
proof -
  have ins: "sorted_wrt (\<lambda>a b. ia_Timestamp a \<le> ia_Timestamp b) xs \<Longrightarrow>
      sorted_wrt (\<lambda>a b. ia_Timestamp a \<le> ia_Timestamp b) (insert_by (\<lambda>a b. ia_Timestamp a < ia_Timestamp b) x xs)" for x xs
  proof (induction xs)
    case (Cons y ys)
    have "set (insert_by (\<lambda>a b. ia_Timestamp a < ia_Timestamp b) x ys) = insert x (set ys)"
      by (simp flip: set_mset_mset)
    then show ?case using Cons by auto
  qed simp
  show ?thesis unfolding idsOrdered_def sort_Slice_def by (induction rows) (simp_all add: ins)
qed

lemma sorted_last_max:
  assumes "sorted_wrt (\<lambda>a b. f a \<le> f b) xs" "x \<in> set xs"
  shows "f x \<le> (f (last xs) :: int)"
  using assms by (induction xs) auto

lemma sorted_hd_min:
  assumes "sorted_wrt (\<lambda>a b. f a \<le> f b) xs" "x \<in> set xs"
  shows "(f (hd xs) :: int) \<le> f x"
  using assms by (induction xs) auto

interpretation ids: window_cursor ia_Timestamp idsDedupeKey "\<lambda>rows. True"
  "\<lambda>s rows. idsKept s (idsOrdered rows)" "\<lambda>rows. advanceCursor (idsOrdered rows)" idsCursor
proof unfold_locales
  fix s t seen and rows :: "IDSAlertRecord list"
  assume "idsCursor s = Some (t, seen)"
  then show "mset (idsKept s (idsOrdered rows)) = filter_mset (\<lambda>r. t < ia_Timestamp r \<or> ia_Timestamp r = t \<and> idsDedupeKey r \<notin> seen) (mset rows)"
    by (auto simp: idsCursor_def idsKept_def not_less order_le_less mset_filter split: if_splits intro!: filter_mset_cong)
next
  fix rows :: "IDSAlertRecord list" and r s
  assume r: "r \<in> set rows" "\<And>d. d \<in> set rows \<Longrightarrow> ia_Timestamp d \<le> ia_Timestamp r"
  have "ia_Timestamp (last (idsOrdered rows)) = ia_Timestamp r"
    using r sorted_last_max [OF idsOrdered_sorted, of r rows] last_in_set [of "idsOrdered rows"] by (metis antisym idsOrdered_mset(2,3) list.set(1) empty_iff)
  then show "idsCursor (advanceCursor (idsOrdered rows) s) = Some (ia_Timestamp r, idsDedupeKey ` {d \<in> set rows. ia_Timestamp d = ia_Timestamp r})"
    by (simp add: advanceCursor_def idsCursor_def Let_def)
qed

interpretation unbound: window_cursor uq_Time rowFingerprint unboundPage unboundKept unboundAdvance unboundCursor
proof unfold_locales
  fix s t seen and rows :: "UnboundSearchQueryRow list"
  assume "unboundCursor s = Some (t, seen)"
  then show "mset (unboundKept s rows) = filter_mset (\<lambda>r. t < uq_Time r \<or> uq_Time r = t \<and> rowFingerprint r \<notin> seen) (mset rows)"
    by (simp add: unboundCursor_def unboundKept_def mset_filter split: if_splits)
next
  fix rows :: "UnboundSearchQueryRow list" and r s
  assume p: "unboundPage rows" and r: "r \<in> set rows" "\<And>d. d \<in> set rows \<Longrightarrow> uq_Time d \<le> uq_Time r"
  have "uq_Time (hd rows) = uq_Time r"
    using p r by (cases rows) (auto simp: unboundPage_def intro!: antisym)
  moreover have "0 < uq_Time r" using p r(1) by (simp add: unboundPage_def)
  ultimately show "unboundCursor (unboundAdvance rows s) = Some (uq_Time r, rowFingerprint ` {d \<in> set rows. uq_Time d = uq_Time r})"
    by (simp add: unboundAdvance_def unboundCursor_def updateCursor_def Let_def)
qed

section \<open>Every row once, across failures and restarts\<close>

text \<open>The life of a lane: polls that fail, are empty or bring rows (with what else the poll reads), and restarts.\<close>

datatype ('c, 'e, 'a) laneOp = LanePoll 'c "'e + 'a list" | LaneRestart

fun pagesOf :: "('c, 'e, 'a) laneOp list \<Rightarrow> 'a list list" where
  "pagesOf [] = []"
| "pagesOf (LanePoll c (Inr rows) # ops) = (if rows = [] then pagesOf ops else rows # pagesOf ops)"
| "pagesOf (LanePoll c (Inl e) # ops) = pagesOf ops"
| "pagesOf (LaneRestart # ops) = pagesOf ops"

fun opsRun :: "('s \<Rightarrow> 'a list \<Rightarrow> 'a list) \<Rightarrow> ('a list \<Rightarrow> 's \<Rightarrow> 's) \<Rightarrow> ('s \<Rightarrow> 's) \<Rightarrow> ('c, 'e, 'a) laneOp list \<Rightarrow> 's \<Rightarrow> 'a list" where
  "opsRun kept advance resume [] s = []"
| "opsRun kept advance resume (LanePoll c (Inr rows) # ops) s =
     (if rows = [] then opsRun kept advance resume ops s
      else kept s rows @ opsRun kept advance resume ops (advance rows s))"
| "opsRun kept advance resume (LanePoll c (Inl e) # ops) s = opsRun kept advance resume ops s"
| "opsRun kept advance resume (LaneRestart # ops) s = opsRun kept advance resume ops (resume s)"

locale resumable_cursor = window_cursor stamp key page kept advance cursor
  for stamp :: "'a \<Rightarrow> int" and key :: "'a \<Rightarrow> string" and page :: "'a list \<Rightarrow> bool"
    and kept :: "'s \<Rightarrow> 'a list \<Rightarrow> 'a list" and advance :: "'a list \<Rightarrow> 's \<Rightarrow> 's" and cursor :: "'s \<Rightarrow> (int \<times> string set) option" +
  fixes resume :: "'s \<Rightarrow> 's"
  assumes resume_law: "cursor s = Some (t, seen) \<Longrightarrow> 0 < t \<Longrightarrow> finite seen \<Longrightarrow> cursor (resume s) = Some (t, seen)"
begin

lemma resume_synced:
  assumes "synced stamp key (cursor s) D" "finite D" "\<forall>d\<in>D. 0 < stamp d"
  shows "synced stamp key (cursor (resume s)) D"
proof -
  obtain r where r: "r \<in> D" "cursor s = Some (stamp r, key ` {d \<in> D. stamp d = stamp r})" using assms(1) unfolding synced_def by blast
  then have "cursor (resume s) = cursor s" using resume_law [OF r(2)] assms(2,3) by simp
  then show ?thesis using assms(1) by simp
qed

lemma continues_positive:
  assumes "continues stamp key D rows" "D \<noteq> {}" "\<forall>d\<in>D. 0 < stamp d"
  shows "\<forall>d\<in>D \<union> set rows. 0 < stamp d"
proof -
  obtain d where d: "d \<in> D" using assms(2) by auto
  have "0 < stamp r" if "r \<in> set rows" "r \<notin> D" for r
  proof -
    have "stamp d \<le> stamp r" using assms(1) that d by (simp add: continues_def)
    then show ?thesis using assms(3) d by force
  qed
  then show ?thesis using assms(3) by blast
qed

lemma run_exact:
  "synced stamp key (cursor s) D \<Longrightarrow> finite D \<Longrightarrow> \<forall>d\<in>D. 0 < stamp d \<Longrightarrow> all_continue stamp key page D (pagesOf ops) \<Longrightarrow>
   mset (opsRun kept advance resume ops s) = mset_set (\<Union> (set ` set (pagesOf ops)) - D)"
proof (induction ops arbitrary: s D rule: pagesOf.induct)
  case (2 c rows ops)
  show ?case
  proof (cases "rows = []")
    case False
    have c: "continues stamp key D rows" "page rows" "all_continue stamp key page (D \<union> set rows) (pagesOf ops)"
      using 2(6) False by auto
    have "D \<noteq> {}" using 2(3) by (auto simp: synced_def)
    then have pos: "\<forall>d\<in>D \<union> set rows. 0 < stamp d" using continues_positive [OF c(1) _ 2(5)] by blast
    have "mset (opsRun kept advance resume (LanePoll c (Inr rows) # ops) s) =
        mset_set (set rows - D) + mset_set (\<Union> (set ` set (pagesOf ops)) - (D \<union> set rows))"
      using kept_exact [OF 2(3) c(1)] 2(2) [OF False advance_synced [OF 2(3) c(1,2)] _ pos c(3)] 2(4) False by simp
    also have "\<dots> = mset_set ((set rows - D) \<union> (\<Union> (set ` set (pagesOf ops)) - (D \<union> set rows)))"
      by (subst mset_set_Union) auto
    also have "(set rows - D) \<union> (\<Union> (set ` set (pagesOf ops)) - (D \<union> set rows)) = \<Union> (set ` set (rows # pagesOf ops)) - D" by auto
    finally show ?thesis using False by simp
  qed (use 2 in simp)
next
  case (4 ops)
  then show ?case using resume_synced by simp
qed simp_all

end

interpretation idsLane: resumable_cursor ia_Timestamp idsDedupeKey "\<lambda>rows. True"
  "\<lambda>s rows. idsKept s (idsOrdered rows)" "\<lambda>rows. advanceCursor (idsOrdered rows)" idsCursor "\<lambda>s. ids_LoadState (ids_SaveState s) newIDSSource"
  by unfold_locales (auto simp: idsCursor_def ids_LoadState_def ids_SaveState_def time_IsZero_def split: if_splits)

interpretation unboundLane: resumable_cursor uq_Time rowFingerprint unboundPage unboundKept unboundAdvance unboundCursor
  "\<lambda>s. unbound_LoadState (unbound_SaveState s) newUnboundSource"
  by unfold_locales (auto simp: unboundCursor_def unbound_LoadState_def unbound_SaveState_def updateCursor_def split: if_splits)

section \<open>What the lanes ship\<close>

definition isGap :: "LogRecord \<Rightarrow> bool" where
  "isGap r \<longleftrightarrow> (case lr_Attributes r of None \<Rightarrow> False | Some m \<Rightarrow> map_of m ''event'' = Some idsGapEvent)"

fun idsRun :: "(time \<Rightarrow> string) \<Rightarrow> (unit, 'e, IDSAlertRecord) laneOp list \<Rightarrow> idsSource \<Rightarrow> LogRecord list" where
  "idsRun rfc3339 [] s = []"
| "idsRun rfc3339 (LanePoll u fetch # ops) s =
     (case ids_Poll rfc3339 fetch s of (Inl e, s') \<Rightarrow> idsRun rfc3339 ops s' | (Inr out, s') \<Rightarrow> out @ idsRun rfc3339 ops s')"
| "idsRun rfc3339 (LaneRestart # ops) s = idsRun rfc3339 ops (ids_LoadState (ids_SaveState s) newIDSSource)"

fun unboundRun :: "(Snapshot option, 'e, UnboundSearchQueryRow) laneOp list \<Rightarrow> unboundSource \<Rightarrow> LogRecord list" where
  "unboundRun [] s = []"
| "unboundRun (LanePoll snap fetch # ops) s =
     (case unbound_Poll snap fetch s of (Inl e, s') \<Rightarrow> unboundRun ops s' | (Inr out, s') \<Rightarrow> out @ unboundRun ops s')"
| "unboundRun (LaneRestart # ops) s = unboundRun ops (unbound_LoadState (unbound_SaveState s) newUnboundSource)"

lemma alert_not_gap [simp]: "\<not> isGap (idsRecordFromAlert r)"
  by (simp add: isGap_def idsRecordFromAlert_def Let_def AttrAction_def map_of_update_conv)

lemma gap_is_gap [simp]: "isGap (gapRecord f a b)"
  by (simp add: isGap_def gapRecord_def)

lemma alerts_kept [simp]: "filter (\<lambda>r. \<not> isGap r) (map idsRecordFromAlert xs) = map idsRecordFromAlert xs"
  by (simp add: filter_map comp_def)

abbreviation idsOps :: "(unit, 'e, IDSAlertRecord) laneOp list \<Rightarrow> idsSource \<Rightarrow> IDSAlertRecord list" where
  "idsOps \<equiv> opsRun (\<lambda>s rows. idsKept s (idsOrdered rows)) (\<lambda>rows. advanceCursor (idsOrdered rows)) (\<lambda>s. ids_LoadState (ids_SaveState s) newIDSSource)"

lemma idsRun_alerts:
  "is_cursorSet s \<Longrightarrow> is_lastTimestamp s \<noteq> 0 \<Longrightarrow> (\<forall>rows\<in>set (pagesOf ops). \<forall>r\<in>set rows. 0 < ia_Timestamp r) \<Longrightarrow>
   filter (\<lambda>r. \<not> isGap r) (idsRun rfc3339 ops s) = map idsRecordFromAlert (idsOps ops s)"
proof (induction ops arbitrary: s rule: pagesOf.induct)
  case (2 c rows ops)
  show ?case
  proof (cases "rows = []")
    case False
    let ?s = "advanceCursor (idsOrdered rows) s"
    have "last (idsOrdered rows) \<in> set rows" using False last_in_set [of "idsOrdered rows"] by simp
    then have "is_lastTimestamp ?s \<noteq> 0" using 2(5) False by (force simp: advanceCursor_def Let_def)
    moreover have "is_cursorSet ?s" by (simp add: advanceCursor_def Let_def)
    ultimately have "filter (\<lambda>r. \<not> isGap r) (idsRun rfc3339 ops ?s) = map idsRecordFromAlert (idsOps ops ?s)"
      using 2(2) [OF False] 2(5) False by simp
    then show ?thesis using False 2(3) by (simp add: ids_Poll_def Let_def)
  qed (use 2 in \<open>simp add: ids_Poll_def\<close>)
next
  case (3 c e ops)
  then show ?case by (simp add: ids_Poll_def)
next
  case (4 ops)
  then show ?case by (simp add: ids_LoadState_def ids_SaveState_def time_IsZero_def)
qed simp

lemma idsRun_cold:
  fixes ops :: "(unit, 'e, IDSAlertRecord) laneOp list"
  shows "pagesOf ops = first # rest \<Longrightarrow> \<exists>ops' :: (unit, 'e, IDSAlertRecord) laneOp list. pagesOf ops' = rest \<and>
   idsRun rfc3339 ops newIDSSource = map idsRecordFromAlert (idsOrdered first) @ idsRun rfc3339 ops' (advanceCursor (idsOrdered first) newIDSSource)"
proof (induction ops rule: pagesOf.induct)
  case (2 c rows ops)
  then show ?case
    by (cases "rows = []") (auto simp: ids_Poll_def Let_def newIDSSource_def intro!: exI [of _ ops])
next
  case (3 c e ops)
  then show ?case by (simp add: ids_Poll_def)
next
  case (4 ops)
  then show ?case by (simp add: ids_LoadState_def ids_SaveState_def newIDSSource_def)
qed simp

text \<open>
  (C32) The alert lane ships every alert it reads exactly once. Over any life of the lane, with failed and empty
  polls and restarts through the state file between them, where each page continues the pages before it (no late
  alert, the newest alerts still on the page), the records shipped other than gap notices are exactly the alerts of
  all pages, each once.
\<close>

theorem ids_ships_once:
  fixes ops :: "(unit, 'e, IDSAlertRecord) laneOp list"
  assumes "pagesOf ops = first # rest" "distinct first" "\<forall>rows\<in>set (first # rest). \<forall>r\<in>set rows. 0 < ia_Timestamp r"
    and "all_continue ia_Timestamp idsDedupeKey (\<lambda>rows. True) (set first) rest"
  shows "mset (filter (\<lambda>r. \<not> isGap r) (idsRun rfc3339 ops newIDSSource)) = image_mset idsRecordFromAlert (mset_set (\<Union> (set ` set (first # rest))))"
proof -
  obtain ops' :: "(unit, 'e, IDSAlertRecord) laneOp list" where o: "pagesOf ops' = rest"
    "idsRun rfc3339 ops newIDSSource = map idsRecordFromAlert (idsOrdered first) @ idsRun rfc3339 ops' (advanceCursor (idsOrdered first) newIDSSource)"
    using idsRun_cold [OF assms(1)] by blast
  define s where "s = advanceCursor (idsOrdered first) newIDSSource"
  have ne: "first \<noteq> []" using assms(1) by (induction ops rule: pagesOf.induct) (auto split: if_splits)
  have "last (idsOrdered first) \<in> set first" using ne last_in_set [of "idsOrdered first"] by simp
  then have s: "is_cursorSet s" "is_lastTimestamp s \<noteq> 0" using assms(3) by (force simp: s_def advanceCursor_def Let_def)+
  have "synced ia_Timestamp idsDedupeKey (idsCursor s) (set first)" unfolding s_def using ids.advance_first ne by simp
  then have "mset (idsOps ops' s) = mset_set (\<Union> (set ` set rest) - set first)"
    using idsLane.run_exact [of s "set first" ops'] assms(3,4) o(1) by simp
  moreover have "filter (\<lambda>r. \<not> isGap r) (idsRun rfc3339 ops' s) = map idsRecordFromAlert (idsOps ops' s)"
    using idsRun_alerts [OF s, of ops' rfc3339] assms(3) o(1) by simp
  moreover have "mset_set (set first) + mset_set (\<Union> (set ` set rest) - set first) = mset_set (\<Union> (set ` set (first # rest)))"
    by (subst mset_set_Union [symmetric]) (auto intro!: arg_cong [where f = mset_set])
  ultimately show ?thesis using o(2) assms(2) by (simp add: s_def [symmetric] mset_set_set flip: image_mset_union)
qed

section \<open>Witnesses and further laws of the lanes\<close>

definition demoAlert :: "int \<Rightarrow> int \<Rightarrow> IDSAlertRecord" where
  "demoAlert t flow = \<lparr>ia_Timestamp = t, ia_FlowID = flow, ia_AlertSID = 1, ia_AlertAction = ''blocked'', ia_Signature = ''s'',
     ia_SrcIP = ''10.0.0.1'', ia_DestIP = ''10.0.0.2'', ia_InIface = ''em0'', ia_Proto = ''TCP'', ia_Body = ''{}''\<rparr>"

lemma demoAlert_key: "idsDedupeKey (demoAlert t 7) \<noteq> idsDedupeKey (demoAlert t 8)" "demoAlert 1 7 \<noteq> demoAlert 2 7"
  "demoAlert 1 7 \<noteq> demoAlert 2 8" "demoAlert 2 7 \<noteq> demoAlert 2 8" "ia_Timestamp (demoAlert t k) = t"
  by (simp_all add: idsDedupeKey_def demoAlert_def FormatInt_def itoa.simps)

theorem ids_ships_once_witness:
  "mset (filter (\<lambda>r. \<not> isGap r) (idsRun (\<lambda>t. []) [LanePoll () (Inr [demoAlert 2 7, demoAlert 1 7]), LanePoll () (Inl ()), LaneRestart,
      LanePoll () (Inr [demoAlert 2 8, demoAlert 2 7, demoAlert 1 7])] newIDSSource)) =
   image_mset idsRecordFromAlert (mset_set {demoAlert 1 7, demoAlert 2 7, demoAlert 2 8})"
proof -
  let ?ops = "[LanePoll () (Inr [demoAlert 2 7, demoAlert 1 7]), LanePoll () (Inl ()), LaneRestart,
      LanePoll () (Inr [demoAlert 2 8, demoAlert 2 7, demoAlert 1 7])]"
  have u: "\<Union> (set ` set [[demoAlert 2 7, demoAlert 1 7], [demoAlert 2 8, demoAlert 2 7, demoAlert 1 7]]) =
      {demoAlert 1 7, demoAlert 2 7, demoAlert 2 8}" by auto
  have c: "all_continue ia_Timestamp idsDedupeKey (\<lambda>rows. True) (set [demoAlert 2 7, demoAlert 1 7])
      [[demoAlert 2 8, demoAlert 2 7, demoAlert 1 7]]"
    using demoAlert_key by (auto simp: continues_def)
  have p: "pagesOf ?ops = [demoAlert 2 7, demoAlert 1 7] # [[demoAlert 2 8, demoAlert 2 7, demoAlert 1 7]]" by simp
  show ?thesis using ids_ships_once [OF p _ _ c, of "\<lambda>t. []"] unfolding u by (simp add: demoAlert_key(2) [symmetric] demoAlert_key(5))
qed



section \<open>DNS queries and CrowdSec rows\<close>

abbreviation unboundOps :: "(Snapshot option, 'e, UnboundSearchQueryRow) laneOp list \<Rightarrow> unboundSource \<Rightarrow> UnboundSearchQueryRow list" where
  "unboundOps \<equiv> opsRun unboundKept unboundAdvance (\<lambda>s. unbound_LoadState (unbound_SaveState s) newUnboundSource)"

lemma unboundRecord_body [simp]: "lr_Body (unboundRecord snap row) = marshal (unboundLogLine row)"
  by (simp add: unboundRecord_def Let_def split: prod.split)

lemma unboundKept_cong: "ub_lastTime s = ub_lastTime u \<Longrightarrow> ub_seenAtLastTime s = ub_seenAtLastTime u \<Longrightarrow> unboundKept s rows = unboundKept u rows"
  by (simp add: unboundKept_def)

lemma unboundRun_rows:
  "ub_lastTime s \<noteq> 0 \<Longrightarrow> ub_lastTime s = ub_lastTime u \<Longrightarrow> ub_seenAtLastTime s = ub_seenAtLastTime u \<Longrightarrow>
   (\<forall>rows\<in>set (pagesOf ops). unboundPage rows) \<Longrightarrow>
   image_mset lr_Body (mset (unboundRun ops s)) = image_mset (\<lambda>r. marshal (unboundLogLine r)) (mset (unboundOps ops u))"
proof (induction ops arbitrary: s u rule: pagesOf.induct)
  case (2 snap rows ops)
  show ?case
  proof (cases "rows = []")
    case False
    define s' where "s' = (if ub_lastTime s < uq_Time (last rows) then s\<lparr>ub_possibleGaps := Suc (ub_possibleGaps s)\<rparr> else s)"
    have p: "0 < uq_Time (hd rows)" using 2(6) False by (simp add: unboundPage_def)
    have "ub_lastTime (unboundAdvance rows s') \<noteq> 0" "ub_lastTime (unboundAdvance rows s') = ub_lastTime (unboundAdvance rows u)"
      "ub_seenAtLastTime (unboundAdvance rows s') = ub_seenAtLastTime (unboundAdvance rows u)"
      using p by (simp_all add: unboundAdvance_def updateCursor_def Let_def)
    then have ih: "image_mset lr_Body (mset (unboundRun ops (unboundAdvance rows s'))) =
        image_mset (\<lambda>r. marshal (unboundLogLine r)) (mset (unboundOps ops (unboundAdvance rows u)))"
      using 2(2) [OF False] 2(6) False by simp
    have "unboundRun (LanePoll snap (Inr rows) # ops) s =
        map (unboundRecord snap) (rev (unboundKept u rows)) @ unboundRun ops (unboundAdvance rows s')"
      using False 2(3) unboundKept_cong [OF 2(4,5)] by (simp add: unbound_Poll_def Let_def s'_def)
    then show ?thesis using False ih by (simp add: image_mset.compositionality comp_def)
  qed (use 2 in \<open>simp add: unbound_Poll_def\<close>)
next
  case (3 c e ops)
  then show ?case by (simp add: unbound_Poll_def)
next
  case (4 ops)
  then show ?case by (simp add: unbound_LoadState_def unbound_SaveState_def updateCursor_def)
qed simp

lemma unboundRun_cold:
  fixes ops :: "(Snapshot option, 'e, UnboundSearchQueryRow) laneOp list"
  shows "pagesOf ops = first # rest \<Longrightarrow> \<exists>ops' :: (Snapshot option, 'e, UnboundSearchQueryRow) laneOp list. pagesOf ops' = rest \<and>
   unboundRun ops newUnboundSource = unboundRun ops' (unboundAdvance first newUnboundSource)"
proof (induction ops rule: pagesOf.induct)
  case (2 c rows ops)
  then show ?case
    by (cases "rows = []") (auto simp: unbound_Poll_def Let_def newUnboundSource_def intro!: exI [of _ ops])
next
  case (3 c e ops)
  then show ?case by (simp add: unbound_Poll_def)
next
  case (4 ops)
  then show ?case by (simp add: unbound_LoadState_def unbound_SaveState_def newUnboundSource_def)
qed simp


definition demoRow :: "int \<Rightarrow> string \<Rightarrow> UnboundSearchQueryRow" where
  "demoRow t u = \<lparr>uq_UUID = u, uq_Time = t, uq_Client = ''10.0.0.9'', uq_Family = [], uq_Type = ''A'', uq_Domain = ''d'', uq_Action = ''Pass'',
     uq_Source = ''Cache'', uq_Blocklist = [], uq_RCode = ''NOERROR'', uq_ResolveTimeMs = 1, uq_DNSSECStatus = [], uq_TTL = 60, uq_Policy = [],
     uq_blocklistDisplayValue = False\<rparr>"


text \<open>A query newer than the cursor that is no longer in the resolver's window is counted as a possible gap.\<close>

lemma unbound_gap_counted:
  assumes "ub_lastTime s \<noteq> 0" "rows \<noteq> []" "ub_lastTime s < uq_Time x" "\<forall>r\<in>set rows. uq_Time x \<le> uq_Time r"
  shows "ub_possibleGaps (snd (unbound_Poll snap (Inr rows) s)) = Suc (ub_possibleGaps s)"
proof -
  have "ub_lastTime s < uq_Time (last rows)" using assms(2-4) by (meson last_in_set order_less_le_trans)
  then show ?thesis using assms(1,2) by (simp add: unbound_Poll_def Let_def unboundAdvance_def updateCursor_def)
qed

fun idRun :: "('a \<Rightarrow> int) \<Rightarrow> 'a list list \<Rightarrow> int \<Rightarrow> 'a list" where
  "idRun ident [] lst = []"
| "idRun ident (rows # pages) lst = beyond ident lst rows @ idRun ident pages (lastID ident lst rows)"

lemma byID_sorted: "sorted (map ident (byID ident rows))" "set (byID ident rows) = set rows" "distinct (map ident rows) \<Longrightarrow> distinct (map ident (byID ident rows))"
proof -
  have ins: "sorted (map ident xs) \<Longrightarrow> sorted (map ident (insert_by (\<lambda>a b. ident a < ident b) x xs))" for x xs
  proof (induction xs)
    case (Cons y ys)
    have "set (insert_by (\<lambda>a b. ident a < ident b) x ys) = insert x (set ys)" by (simp flip: set_mset_mset)
    then show ?case using Cons by auto
  qed simp
  show "sorted (map ident (byID ident rows))" unfolding byID_def sort_Slice_def by (induction rows) (simp_all add: ins)
  show "set (byID ident rows) = set rows" by (simp add: byID_def flip: set_mset_mset)
  have "mset (map ident (byID ident rows)) = mset (map ident rows)" by (simp add: byID_def)
  then show "distinct (map ident rows) \<Longrightarrow> distinct (map ident (byID ident rows))" by (metis mset_eq_imp_distinct_iff)
qed

lemma lastID_bounds: "lst \<le> lastID ident lst rows" "r \<in> set rows \<Longrightarrow> ident r \<le> lastID ident lst rows"
proof -
  show "lst \<le> lastID ident lst rows" by (simp add: lastID_def Let_def)
  assume "r \<in> set rows"
  then have r: "r \<in> set (byID ident rows)" by (simp add: byID_sorted)
  have "sorted (map ident xs) \<Longrightarrow> r \<in> set xs \<Longrightarrow> ident r \<le> ident (last xs)" for xs by (induction xs) auto
  from this [OF byID_sorted(1) r] show "ident r \<le> lastID ident lst rows" using r by (auto simp: lastID_def Let_def)
qed

text \<open>Identifiers are shipped in increasing order over all polls, so no row twice.\<close>

lemma crowdsec_ids_increase:
  "(\<forall>rows\<in>set pages. distinct (map ident rows)) \<Longrightarrow>
   sorted_wrt (<) (map ident (idRun ident pages lst)) \<and> (\<forall>r\<in>set (idRun ident pages lst). lst < ident r)"
proof (induction pages arbitrary: lst)
  case (Cons rows pages)
  have "sorted_wrt (<) (map ident (beyond ident lst rows))"
    using byID_sorted(1,3) [of ident rows] Cons.prems
    by (simp add: beyond_def strict_sorted_iff sorted_filter distinct_map_filter)
  moreover have "\<forall>r\<in>set (beyond ident lst rows). lst < ident r \<and> ident r \<le> lastID ident lst rows"
    by (auto simp: beyond_def byID_sorted(2) lastID_bounds(2))
  moreover have "sorted_wrt (<) (map ident (idRun ident pages (lastID ident lst rows))) \<and>
      (\<forall>r\<in>set (idRun ident pages (lastID ident lst rows)). lastID ident lst rows < ident r)"
    using Cons.IH Cons.prems by simp
  ultimately show ?case using lastID_bounds(1) [of lst ident rows] by (fastforce simp: sorted_wrt_append)
qed simp

end
