(* ===== verification/ConfigChange.thy ===== *)
theory ConfigChange
  imports SyslogDispatch ZenFlow Accumulator CaptureShape
begin

text \<open>
  The configuration change lane (\<^verbatim>\<open>internal/logship/configchange.go\<close>): the cursor over the firewall's backup history,
  one record per revision with its unified diff, and the redaction of the diff, with the vocabulary of credentials
  of \<^verbatim>\<open>opnsense/config_snapshot.go\<close>. \<^verbatim>\<open>html.UnescapeString\<close> is an argument. The log lines a poll writes about itself
  are its branch and counts.
\<close>

section \<open>Names of credentials\<close>

definition sensitiveConfigSubstrings :: "string list" where
  "sensitiveConfigSubstrings = [''password'', ''passphrase'', ''secret'', ''privatekey'', ''privkey'', ''sharedkey'', ''token'', ''apikey'',
     ''authkey'', ''credential'', ''passwd'']"

definition sensitiveConfigTerms :: "string list" where
  "sensitiveConfigTerms = [''prv'', ''key'']"

definition sensitiveConfigExact :: "string list" where
  "sensitiveConfigExact = [''psk'', ''pass'', ''otpseed'', ''ldapbindpw'', ''enckey'', ''community'']"

definition keySeparator :: "char \<Rightarrow> bool" where
  "keySeparator c \<longleftrightarrow> c = CHR ''_'' \<or> c = CHR ''-'' \<or> c = CHR ''.'' \<or> c = CHR 0x25"

definition SensitiveConfigKey :: "string \<Rightarrow> bool" where
  "SensitiveConfigKey key =
     (let normalized = ToLower (filter (\<lambda>c. \<not> keySeparator c) key) in
      if normalized \<in> set sensitiveConfigExact then True
      else if list_ex (\<lambda>needle. strIndex normalized needle \<noteq> None) sensitiveConfigSubstrings then True
      else if hasPrefix normalized ''prv'' then True
      else list_ex (\<lambda>term. term \<in> set sensitiveConfigTerms) (FieldsFunc keySeparator (ToLower key)))"

section \<open>Redaction\<close>

definition configChangeRedactionMarker :: string where
  "configChangeRedactionMarker = ''[redacted]''"

definition TrimPrefix :: "string \<Rightarrow> string \<Rightarrow> string" where
  "TrimPrefix s p = (if hasPrefix s p then drop (length p) s else s)"

definition tagName :: "string \<Rightarrow> string" where
  "tagName tag = TrimSuffix (TrimPrefix tag ''<'') ''>''"

text \<open>The element a tag leaves open for redaction, empty for none.\<close>

definition opensSensitive :: "string \<Rightarrow> string" where
  "opensSensitive tag =
     (let name = tagName tag in
      if name = [] \<or> hasPrefix name ''/'' \<or> hasPrefix name ''!'' \<or> hasPrefix name ''?'' \<or> hasSuffix name ''/'' then []
      else
        let name = takeWhile (\<lambda>c. c \<noteq> CHR '' '' \<and> c \<noteq> CHR 0x09) name
        in if SensitiveConfigKey name then name else [])"

definition closingTag :: "string \<Rightarrow> string" where
  "closingTag name = ''</'' @ name @ ''>''"

lemma strIndex_le: "strIndex s p = Some i \<Longrightarrow> i + length p \<le> length s"
proof (induction s arbitrary: i)
  case (Cons c cs)
  then show ?case by (auto simp: hasPrefix_def split: if_splits)
qed (auto split: if_splits)

function redactConfigDiffBody :: "string \<Rightarrow> string \<Rightarrow> string \<times> string" where
  "redactConfigDiffBody body openTag =
     (if body = [] then ([], openTag)
      else if openTag \<noteq> [] then
        (case strIndex body (closingTag openTag) of
           None \<Rightarrow> (configChangeRedactionMarker, openTag)
         | Some i \<Rightarrow>
             (let (out, t) = redactConfigDiffBody (drop (i + length (closingTag openTag)) body) []
              in (configChangeRedactionMarker @ closingTag openTag @ out, t)))
      else
        let before = takeWhile (\<lambda>c. c \<noteq> CHR ''<'') body; rest = dropWhile (\<lambda>c. c \<noteq> CHR ''<'') body in
        if rest = [] then (body, [])
        else if CHR ''>'' \<notin> set rest then (body, [])
        else
          let tag = takeWhile (\<lambda>c. c \<noteq> CHR ''>'') rest @ ''>''; (out, t) = redactConfigDiffBody (drop (length tag) rest) (opensSensitive tag)
          in (before @ tag @ out, t))"
  by pat_completeness auto

termination
proof (relation "measure (\<lambda>(b, t). length b)", goal_cases)
  case (2 body openTag i)
  then show ?case using strIndex_le [of body "closingTag openTag" i] by (auto simp: closingTag_def)
next
  case (3 body openTag before rest tag)
  have "length rest \<le> length body" "0 < length tag" "0 < length body"
    using 3 length_dropWhile_le [of "\<lambda>c. c \<noteq> CHR ''<''" body] by simp_all
  then have "length rest - length tag < length body" by linarith
  then show ?case by simp
qed simp

declare redactConfigDiffBody.simps [simp del]

text \<open>A context line under the states of both sides.\<close>

definition redactContext :: "string \<Rightarrow> string \<Rightarrow> string \<Rightarrow> string \<times> string \<times> string" where
  "redactContext body oldTag newTag =
     (let (oldBody, o') = redactConfigDiffBody body oldTag; (newBody, n') = redactConfigDiffBody body newTag in
      (if oldBody = newBody \<or> newBody = body then oldBody
       else if oldBody = body then newBody
       else configChangeRedactionMarker, o', n'))"

definition redactLine :: "string \<Rightarrow> string \<times> string \<Rightarrow> string \<times> string \<times> string" where
  "redactLine line tags =
     (case tags of (oldTag, newTag) \<Rightarrow>
        if hasPrefix line ''@@'' then (line, [], [])
        else case line of
          [] \<Rightarrow> redactContext [] oldTag newTag
        | c # body \<Rightarrow>
            if c = CHR ''-'' then (let (r, o') = redactConfigDiffBody body oldTag in (c # r, o', newTag))
            else if c = CHR ''+'' then (let (r, n') = redactConfigDiffBody body newTag in (c # r, oldTag, n'))
            else if c = CHR '' '' then (let (r, o', n') = redactContext body oldTag newTag in (c # r, o', n'))
            else redactContext line oldTag newTag)"

fun redactLines :: "string list \<Rightarrow> string \<times> string \<Rightarrow> string list" where
  "redactLines [] tags = []"
| "redactLines (line # ls) tags = (let (r, tags') = redactLine line tags in r # redactLines ls tags')"

definition redactConfigChangeDiff :: "string \<Rightarrow> string" where
  "redactConfigChangeDiff diff = join_with [CHR 0x0A] (redactLines (split_on (CHR 0x0A) diff) ([], []))"

section \<open>Records\<close>

record ConfigChangeRevision =
  cv_ID :: string
  cv_Timestamp :: time
  cv_User :: string
  cv_Description :: string
  cv_URI :: string

definition configChangeSourceName :: string where
  "configChangeSourceName = ''configchange''"

definition configChangeMaxBodyBytes :: nat where
  "configChangeMaxBodyBytes = 192 * 1024"

definition configChangeTruncationMarker :: string where
  "configChangeTruncationMarker = CHR 0x0A # ''[config diff truncated at 192 KiB]''"

definition RuneStart :: "char \<Rightarrow> bool" where
  "RuneStart c \<longleftrightarrow> \<not> ((128::nat) \<le> of_char c \<and> of_char c \<le> (191::nat))"

fun runeBoundary :: "string \<Rightarrow> nat \<Rightarrow> nat" where
  "runeBoundary diff 0 = 0"
| "runeBoundary diff (Suc n) = (if RuneStart (diff ! Suc n) then Suc n else runeBoundary diff n)"

definition truncateConfigChangeDiff :: "string \<Rightarrow> string" where
  "truncateConfigChangeDiff diff =
     (if length diff \<le> configChangeMaxBodyBytes then diff
      else take (runeBoundary diff (configChangeMaxBodyBytes - length configChangeTruncationMarker)) diff @ configChangeTruncationMarker)"

definition configChangeURI :: "ConfigChangeRevision \<Rightarrow> string" where
  "configChangeURI r =
     (if cv_URI r \<noteq> [] then cv_URI r
      else case find (\<lambda>f. hasPrefix f ''/'') (FieldsFunc ascii_space (cv_Description r)) of None \<Rightarrow> [] | Some f \<Rightarrow> f)"

definition configChangeRecord :: "(string \<Rightarrow> string) \<Rightarrow> ConfigChangeRevision \<Rightarrow> string \<Rightarrow> LogRecord" where
  "configChangeRecord unescape r diff =
     \<lparr>lr_Timestamp = cv_Timestamp r, lr_Body = truncateConfigChangeDiff (redactConfigChangeDiff (unescape diff)),
      lr_Attributes = Some [(''revision'', cv_ID r), (''user'', cv_User r), (''uri'', configChangeURI r)],
      lr_Severity = SeverityInfo, lr_Source = []\<rparr>"

definition configChangeDiffLineCount :: "string \<Rightarrow> nat" where
  "configChangeDiffLineCount diff =
     (if diff = [] then 0
      else length (filter (\<lambda>c. c = CHR 0x0A) diff) + (if hasSuffix diff [CHR 0x0A] then 0 else 1))"

section \<open>The poll\<close>

datatype configPollBranch = BranchNoRevisions | BranchBaseline | BranchCursorNotInHistory | BranchEmitted

datatype configObservation = PollObserved configPollBranch u64 nat | DiffObserved u64 nat nat nat

record ConfigChangeSource =
  cc_lastRevision :: string
  cc_pollSequence :: u64
  cc_observed :: "configObservation list"

definition NewConfigChangeSource :: ConfigChangeSource where
  "NewConfigChangeSource = \<lparr>cc_lastRevision = [], cc_pollSequence = 0, cc_observed = []\<rparr>"

definition nextPollSequence :: "ConfigChangeSource \<Rightarrow> ConfigChangeSource" where
  "nextPollSequence s = s\<lparr>cc_pollSequence := cc_pollSequence s + 1\<rparr>"

definition observePoll :: "configPollBranch \<Rightarrow> nat \<Rightarrow> ConfigChangeSource \<Rightarrow> ConfigChangeSource" where
  "observePoll branch n s = s\<lparr>cc_observed := cc_observed s @ [PollObserved branch (cc_pollSequence s) n]\<rparr>"

definition observeDiffs :: "LogRecord list \<Rightarrow> ConfigChangeSource \<Rightarrow> ConfigChangeSource" where
  "observeDiffs records s = s\<lparr>cc_observed := cc_observed s @
     map (\<lambda>(i, r). DiffObserved (cc_pollSequence s) (Suc i) (length (lr_Body r)) (configChangeDiffLineCount (lr_Body r))) (enumerate 0 records)\<rparr>"

definition revisionLess :: "ConfigChangeRevision \<Rightarrow> ConfigChangeRevision \<Rightarrow> bool" where
  "revisionLess a b = (if cv_Timestamp a = cv_Timestamp b then cv_ID a < cv_ID b else cv_Timestamp a < cv_Timestamp b)"

fun diffLoop ::
  "(string \<Rightarrow> string) \<Rightarrow> (string \<Rightarrow> string \<Rightarrow> 'e + string) \<Rightarrow> ConfigChangeRevision \<Rightarrow> ConfigChangeRevision list \<Rightarrow> 'e + LogRecord list" where
  "diffLoop unescape fetchDiff previous [] = Inr []"
| "diffLoop unescape fetchDiff previous (current # revs) =
     (case fetchDiff (cv_ID previous) (cv_ID current) of
        Inl e \<Rightarrow> Inl e
      | Inr diff \<Rightarrow>
          (case diffLoop unescape fetchDiff current revs of
             Inl e \<Rightarrow> Inl e
           | Inr records \<Rightarrow> Inr (configChangeRecord unescape current diff # records)))"

definition config_Poll ::
  "(string \<Rightarrow> string) \<Rightarrow> 'e + ConfigChangeRevision list \<Rightarrow> (string \<Rightarrow> string \<Rightarrow> 'e + string) \<Rightarrow> ConfigChangeSource \<Rightarrow>
   ('e + LogRecord list) \<times> ConfigChangeSource" where
  "config_Poll unescape fetch fetchDiff s0 =
     (let s = nextPollSequence s0 in
      case fetch of
        Inl e \<Rightarrow> (Inl e, s)
      | Inr revisions \<Rightarrow>
          if revisions = [] then (Inr [], observePoll BranchNoRevisions 0 s)
          else
            let ordered = sort_Slice revisionLess revisions; newest = cv_ID (last ordered) in
            if cc_lastRevision s = [] then (Inr [], observePoll BranchBaseline 0 (s\<lparr>cc_lastRevision := newest\<rparr>))
            else case dropWhile (\<lambda>r. cv_ID r \<noteq> cc_lastRevision s) ordered of
              [] \<Rightarrow> (Inr [], observePoll BranchCursorNotInHistory 0 (s\<lparr>cc_lastRevision := newest\<rparr>))
            | previous # added \<Rightarrow>
                (case diffLoop unescape fetchDiff previous added of
                   Inl e \<Rightarrow> (Inl e, s)
                 | Inr records \<Rightarrow>
                     (Inr records, observeDiffs records (observePoll BranchEmitted (length records) (s\<lparr>cc_lastRevision := newest\<rparr>)))))"

definition config_LoadState :: "string option \<Rightarrow> ConfigChangeSource \<Rightarrow> ConfigChangeSource" where
  "config_LoadState st s = (case st of None \<Rightarrow> s | Some r \<Rightarrow> if r = [] then s else s\<lparr>cc_lastRevision := r\<rparr>)"

definition config_SaveState :: "ConfigChangeSource \<Rightarrow> string option" where
  "config_SaveState s = (if cc_lastRevision s = [] then None else Some (cc_lastRevision s))"

section \<open>Redaction hides what it should\<close>

text \<open>
  Two bodies that differ only inside credentials, read from a state (the element left open, if any) to a state:
  text and tags are the same, while the text inside an element with a sensitive name is arbitrary on either side,
  closed on the line or running on.
\<close>

inductive secretsOnly :: "string \<Rightarrow> string \<Rightarrow> string \<Rightarrow> string \<Rightarrow> bool" where
  so_end: "secretsOnly t [] [] t"
| so_text: "CHR ''<'' \<notin> set s \<Longrightarrow> secretsOnly [] s s []"
| so_broken: "CHR ''<'' \<notin> set s \<Longrightarrow> CHR ''>'' \<notin> set u \<Longrightarrow> secretsOnly [] (s @ CHR ''<'' # u) (s @ CHR ''<'' # u) []"
| so_tag: "CHR ''<'' \<notin> set s \<Longrightarrow> CHR ''>'' \<notin> set m \<Longrightarrow> secretsOnly (opensSensitive (CHR ''<'' # m @ ''>'')) b b' t \<Longrightarrow>
    secretsOnly [] (s @ CHR ''<'' # m @ CHR ''>'' # b) (s @ CHR ''<'' # m @ CHR ''>'' # b') t"
| so_runs_on: "t \<noteq> [] \<Longrightarrow> v \<noteq> [] \<Longrightarrow> w \<noteq> [] \<Longrightarrow> strIndex v (closingTag t) = None \<Longrightarrow> strIndex w (closingTag t) = None \<Longrightarrow> secretsOnly t v w t"
| so_closed: "t \<noteq> [] \<Longrightarrow> strIndex (v @ closingTag t @ b) (closingTag t) = Some (length v) \<Longrightarrow>
    strIndex (w @ closingTag t @ b') (closingTag t) = Some (length w) \<Longrightarrow> secretsOnly [] b b' t' \<Longrightarrow>
    secretsOnly t (v @ closingTag t @ b) (w @ closingTag t @ b') t'"

lemma redact_empty [simp]: "redactConfigDiffBody [] t = ([], t)"
  by (simp add: redactConfigDiffBody.simps)

lemma redact_text: "CHR ''<'' \<notin> set s \<Longrightarrow> redactConfigDiffBody s [] = (s, [])"
  by (subst redactConfigDiffBody.simps) (auto simp: Let_def)

lemma before_tag: "CHR ''<'' \<notin> set s \<Longrightarrow> takeWhile (\<lambda>c. c \<noteq> CHR ''<'') (s @ CHR ''<'' # u) = s \<and> dropWhile (\<lambda>c. c \<noteq> CHR ''<'') (s @ CHR ''<'' # u) = CHR ''<'' # u"
  by (induction s) auto

lemma redact_broken: "CHR ''<'' \<notin> set s \<Longrightarrow> CHR ''>'' \<notin> set u \<Longrightarrow> redactConfigDiffBody (s @ CHR ''<'' # u) [] = (s @ CHR ''<'' # u, [])"
  using before_tag [of s u] by (subst redactConfigDiffBody.simps) (simp add: Let_def)

lemma to_gt: "CHR ''>'' \<notin> set m \<Longrightarrow> takeWhile (\<lambda>c. c \<noteq> CHR ''>'') (CHR ''<'' # m @ CHR ''>'' # b) = CHR ''<'' # m"
  by (induction m) auto

lemma redact_tag:
  assumes "CHR ''<'' \<notin> set s" "CHR ''>'' \<notin> set m"
  shows "redactConfigDiffBody (s @ CHR ''<'' # m @ CHR ''>'' # b) [] =
    (let (out, t) = redactConfigDiffBody b (opensSensitive (CHR ''<'' # m @ ''>'')) in (s @ CHR ''<'' # m @ CHR ''>'' # out, t))"
  using before_tag [OF assms(1), of "m @ CHR ''>'' # b"] to_gt [OF assms(2), of b]
  by (subst redactConfigDiffBody.simps) (simp add: Let_def split: prod.split)

lemma redact_runs_on: "t \<noteq> [] \<Longrightarrow> v \<noteq> [] \<Longrightarrow> strIndex v (closingTag t) = None \<Longrightarrow> redactConfigDiffBody v t = (configChangeRedactionMarker, t)"
  by (simp add: redactConfigDiffBody.simps)

lemma redact_closed:
  assumes "t \<noteq> []" "strIndex (v @ closingTag t @ b) (closingTag t) = Some (length v)"
  shows "redactConfigDiffBody (v @ closingTag t @ b) t =
    (let (out, t') = redactConfigDiffBody b [] in (configChangeRedactionMarker @ closingTag t @ out, t'))"
proof -
  have "closingTag t \<noteq> []" by (simp add: closingTag_def)
  then show ?thesis using assms by (subst redactConfigDiffBody.simps) simp
qed

lemma redact_secrets: "secretsOnly t b b' t' \<Longrightarrow> redactConfigDiffBody b t = redactConfigDiffBody b' t \<and> snd (redactConfigDiffBody b t) = t'"
proof (induction rule: secretsOnly.induct)
  case (so_tag s m b b' t)
  then show ?case by (auto simp: redact_tag Let_def split: prod.splits)
next
  case (so_closed t v b w b' t')
  then show ?case by (auto simp: redact_closed Let_def split: prod.splits)
qed (simp_all add: redact_text redact_broken redact_runs_on)

text \<open>Lines, with the states of the old and of the new side.\<close>

inductive contextSecrets :: "string \<times> string \<Rightarrow> string \<Rightarrow> string \<Rightarrow> string \<times> string \<Rightarrow> bool" where
  cs_both: "secretsOnly t b b' t' \<Longrightarrow> contextSecrets (t, t) b b' (t', t')"
| cs_same: "contextSecrets (t, u) b b (snd (redactConfigDiffBody b t), snd (redactConfigDiffBody b u))"
| cs_old: "secretsOnly t b b' t' \<Longrightarrow> redactConfigDiffBody b u = (b, u') \<Longrightarrow> redactConfigDiffBody b' u = (b', u') \<Longrightarrow> contextSecrets (t, u) b b' (t', u')"
| cs_new: "secretsOnly u b b' u' \<Longrightarrow> redactConfigDiffBody b t = (b, t') \<Longrightarrow> redactConfigDiffBody b' t = (b', t') \<Longrightarrow> contextSecrets (t, u) b b' (t', u')"

inductive lineSecrets :: "string \<times> string \<Rightarrow> string \<Rightarrow> string \<Rightarrow> string \<times> string \<Rightarrow> bool" where
  ls_same: "lineSecrets tags line line (snd (redactLine line tags))"
| ls_old: "secretsOnly t b b' t' \<Longrightarrow> lineSecrets (t, u) (CHR ''-'' # b) (CHR ''-'' # b') (t', u)"
| ls_new: "secretsOnly u b b' u' \<Longrightarrow> lineSecrets (t, u) (CHR ''+'' # b) (CHR ''+'' # b') (t, u')"
| ls_context: "contextSecrets tags b b' tags' \<Longrightarrow> lineSecrets tags (CHR '' '' # b) (CHR '' '' # b') tags'"

inductive diffSecrets :: "string \<times> string \<Rightarrow> string list \<Rightarrow> string list \<Rightarrow> bool" where
  ds_end: "diffSecrets tags [] []"
| ds_line: "lineSecrets tags line line' tags' \<Longrightarrow> diffSecrets tags' ls ls' \<Longrightarrow> diffSecrets tags (line # ls) (line' # ls')"

lemma redact_context: "contextSecrets tags b b' tags' \<Longrightarrow>
  redactContext b (fst tags) (snd tags) = redactContext b' (fst tags) (snd tags) \<and> snd (redactContext b (fst tags) (snd tags)) = tags'"
proof (induction rule: contextSecrets.induct)
  case (cs_both t b b' t')
  obtain x where "redactConfigDiffBody b t = (x, t')" "redactConfigDiffBody b' t = (x, t')"
    using redact_secrets [OF cs_both] by (metis prod.collapse)
  then show ?case by (simp add: redactContext_def)
next
  case (cs_same t u b)
  then show ?case by (simp add: redactContext_def split_beta)
next
  case (cs_old t b b' t' u u')
  obtain x where "redactConfigDiffBody b t = (x, t')" "redactConfigDiffBody b' t = (x, t')"
    using redact_secrets [OF cs_old(1)] by (metis prod.collapse)
  then show ?case using cs_old(2,3) by (simp add: redactContext_def)
next
  case (cs_new u b b' u' t t')
  obtain x where "redactConfigDiffBody b u = (x, u')" "redactConfigDiffBody b' u = (x, u')"
    using redact_secrets [OF cs_new(1)] by (metis prod.collapse)
  then show ?case using cs_new(2,3) by (simp add: redactContext_def)
qed

lemma redact_line: "lineSecrets tags line line' tags' \<Longrightarrow> redactLine line tags = redactLine line' tags \<and> snd (redactLine line tags) = tags'"
proof (induction rule: lineSecrets.induct)
  case (ls_context tags b b' tags')
  then show ?case using redact_context [OF ls_context] by (auto simp: redactLine_def hasPrefix_def Let_def split: prod.splits)
qed (auto simp: redactLine_def hasPrefix_def Let_def dest!: redact_secrets split: prod.splits)

lemma redact_lines: "diffSecrets tags ls ls' \<Longrightarrow> redactLines ls tags = redactLines ls' tags"
proof (induction rule: diffSecrets.induct)
  case (ds_line tags line line' tags' ls ls')
  then show ?case using redact_line [OF ds_line(1)] by (auto simp: Let_def split: prod.splits)
qed simp

section \<open>Laws of the lane\<close>

text \<open>
  (C30) No credential leaves the firewall in a configuration diff. Two diffs that differ only inside elements
  whose names the vocabulary knows as credentials, on removed, added and context lines, closed on their line or
  running over several, give the same record.
\<close>

theorem config_diff_redacted:
  assumes "unescape d = join_with [CHR 0x0A] ls" "unescape d' = join_with [CHR 0x0A] ls'" "ls \<noteq> []"
    and "list_all (\<lambda>l. CHR 0x0A \<notin> set l) ls" "list_all (\<lambda>l. CHR 0x0A \<notin> set l) ls'" "diffSecrets ([], []) ls ls'"
  shows "configChangeRecord unescape r d = configChangeRecord unescape r d'"
proof -
  have "ls' \<noteq> []" using assms(3,6) by (auto elim: diffSecrets.cases)
  then have "redactConfigChangeDiff (unescape d) = redactConfigChangeDiff (unescape d')"
    using assms redact_lines [OF assms(6)] by (simp add: redactConfigChangeDiff_def split_join)
  then show ?thesis by (simp add: configChangeRecord_def)
qed

lemma demoSecret: "opensSensitive ''<prv>'' = ''prv''"
  by (simp add: opensSensitive_def tagName_def TrimPrefix_def TrimSuffix_def hasPrefix_def hasSuffix_def SensitiveConfigKey_def Let_def
    keySeparator_def ToLower_def ascii_lower_def sensitiveConfigExact_def sensitiveConfigSubstrings_def)

theorem config_diff_redacted_witness:
  "\<forall>r. configChangeRecord (\<lambda>s. s) r ''-<prv>first</prv>'' = configChangeRecord (\<lambda>s. s) r ''-<prv>another one</prv>''"
proof -
  have "secretsOnly ''prv'' (''first'' @ closingTag ''prv'' @ []) (''another one'' @ closingTag ''prv'' @ []) []"
    by (rule so_closed) (simp_all add: closingTag_def hasPrefix_def so_end)
  then have "secretsOnly [] ([] @ CHR ''<'' # ''prv'' @ CHR ''>'' # ''first</prv>'') ([] @ CHR ''<'' # ''prv'' @ CHR ''>'' # ''another one</prv>'') []"
    by (intro so_tag) (simp_all add: demoSecret closingTag_def)
  then have "lineSecrets ([], []) ''-<prv>first</prv>'' ''-<prv>another one</prv>'' ([], [])" using ls_old [of "[]" _ _ "[]" "[]"] by simp
  then have d: "diffSecrets ([], []) [''-<prv>first</prv>''] [''-<prv>another one</prv>'']" by (rule ds_line) (rule ds_end)
  show ?thesis by (rule allI, rule config_diff_redacted [OF _ _ _ _ _ d]) (simp_all add: join_with_def)
qed

text \<open>A body never exceeds its cap.\<close>

lemma runeBoundary_le: "runeBoundary diff n \<le> n"
  by (induction n) auto

lemma config_body_bounded: "length (lr_Body (configChangeRecord unescape r d)) \<le> configChangeMaxBodyBytes"
proof -
  let ?d = "redactConfigChangeDiff (unescape d)"
  have m: "length configChangeTruncationMarker \<le> configChangeMaxBodyBytes"
    by (simp add: configChangeTruncationMarker_def configChangeMaxBodyBytes_def)
  have "length (take (runeBoundary ?d (configChangeMaxBodyBytes - length configChangeTruncationMarker)) ?d)
      \<le> configChangeMaxBodyBytes - length configChangeTruncationMarker"
    using runeBoundary_le [of ?d "configChangeMaxBodyBytes - length configChangeTruncationMarker"] by simp
  then show ?thesis using m by (auto simp: configChangeRecord_def truncateConfigChangeDiff_def)
qed

text \<open>The history as it grows, and polls that keep the cursor in view.\<close>

definition historyOk :: "ConfigChangeRevision list \<Rightarrow> bool" where
  "historyOk hist \<longleftrightarrow> sorted_wrt revisionLess hist \<and> distinct (map cv_ID hist) \<and> list_all (\<lambda>r. cv_ID r \<noteq> []) hist"

lemma revisionLess_ranks: "ranks revisionLess A" if "inj_on cv_ID A"
proof -
  have "transp_on A revisionLess" by (auto simp: transp_on_def revisionLess_def split: if_splits)
  moreover have "asymp_on A revisionLess" by (auto simp: asymp_on_def revisionLess_def split: if_splits)
  moreover have "totalp_on A revisionLess"
    using that by (auto simp: totalp_on_def revisionLess_def inj_on_def dest: neqE split: if_splits)
  ultimately show ?thesis by (simp add: ranks_def)
qed

lemma window_ordered:
  assumes "historyOk hist" "mset revs = mset (drop a (take b hist))"
  shows "sort_Slice revisionLess revs = drop a (take b hist)"
proof -
  let ?w = "drop a (take b hist)"
  have d: "distinct (map cv_ID ?w)" "sorted_wrt revisionLess ?w"
    using assms(1) by (simp_all add: historyOk_def drop_map [symmetric] take_map [symmetric] sorted_wrt_drop sorted_wrt_take)
  have set: "set revs = set ?w" using assms(2) by (metis set_mset_mset)
  have inj: "inj_on cv_ID (set revs)" using d(1) set by (simp add: distinct_map)
  have dist: "distinct revs" using d(1) assms(2) by (metis distinct_map mset_eq_imp_distinct_iff)
  show ?thesis
    by (rule sorted_wrt_unique [of revisionLess]) (use revisionLess_ranks [OF inj] dist d(2) set assms(2) in \<open>simp_all add: sorted_sort_Slice\<close>)
qed

fun configRun ::
  "(string \<Rightarrow> string) \<Rightarrow> (('e + ConfigChangeRevision list) \<times> (string \<Rightarrow> string \<Rightarrow> 'e + string)) list \<Rightarrow> ConfigChangeSource \<Rightarrow> LogRecord list \<times> ConfigChangeSource" where
  "configRun unescape [] s = ([], s)"
| "configRun unescape ((fetch, fetchDiff) # ops) s =
     (case config_Poll unescape fetch fetchDiff s of
        (Inl e, s') \<Rightarrow> configRun unescape ops s'
      | (Inr out, s') \<Rightarrow> (let (outs, s'') = configRun unescape ops s' in (out @ outs, s'')))"

fun retained ::
  "(string \<Rightarrow> string) \<Rightarrow> ConfigChangeRevision list \<Rightarrow> (('e + ConfigChangeRevision list) \<times> (string \<Rightarrow> string \<Rightarrow> 'e + string)) list \<Rightarrow> ConfigChangeSource \<Rightarrow> bool" where
  "retained unescape hist [] s = True"
| "retained unescape hist ((fetch, fetchDiff) # ops) s =
     ((case fetch of Inl e \<Rightarrow> True
       | Inr revs \<Rightarrow> revs = [] \<or> (\<exists>a b. mset revs = mset (drop a (take b hist))) \<and> cc_lastRevision s \<in> cv_ID ` set revs) \<and>
      retained unescape hist ops (snd (config_Poll unescape fetch fetchDiff s)))"

definition recordRevision :: "LogRecord \<Rightarrow> string" where
  "recordRevision r = (case lr_Attributes r of None \<Rightarrow> [] | Some m \<Rightarrow> (case map_of m ''revision'' of None \<Rightarrow> [] | Some v \<Rightarrow> v))"

lemma diffLoop_revisions: "diffLoop unescape fetchDiff previous revs = Inr records \<Longrightarrow> map recordRevision records = map cv_ID revs"
proof (induction revs arbitrary: previous records)
  case (Cons current revs)
  then show ?case by (auto simp: recordRevision_def configChangeRecord_def split: sum.splits)
qed simp

section \<open>Every revision once\<close>

lemma dropWhile_to: "distinct (map f xs) \<Longrightarrow> j < length xs \<Longrightarrow> dropWhile (\<lambda>x. f x \<noteq> f (xs ! j)) xs = drop j xs"
proof (induction xs arbitrary: j)
  case (Cons x xs)
  then show ?case by (cases j) (auto simp: image_iff)
qed simp

lemma window_from:
  assumes "historyOk hist" "k < length hist" "cv_ID (hist ! k) \<in> cv_ID ` set (drop a (take b hist))"
  shows "dropWhile (\<lambda>r. cv_ID r \<noteq> cv_ID (hist ! k)) (drop a (take b hist)) = hist ! k # drop (Suc k) (take b hist)"
    "last (drop a (take b hist)) = hist ! (min b (length hist) - 1)" "k < min b (length hist)"
proof -
  let ?w = "drop a (take b hist)"
  obtain j where j: "j < length ?w" "cv_ID (?w ! j) = cv_ID (hist ! k)" using assms(3) by (auto simp: in_set_conv_nth)
  have d: "distinct (map cv_ID hist)" using assms(1) by (simp add: historyOk_def)
  have len: "a + j < b" "a + j < length hist" using j(1) by auto
  then have "?w ! j = hist ! (a + j)" by simp
  then have "map cv_ID hist ! k = map cv_ID hist ! (a + j)" using j(2) assms(2) len(2) by simp
  then have k: "k = a + j" using nth_eq_iff_index_eq [OF d] assms(2) len(2) by simp
  show kb: "k < min b (length hist)" using k len by simp
  have dw: "distinct (map cv_ID ?w)" using d by (simp add: drop_map [symmetric] take_map [symmetric])
  have "dropWhile (\<lambda>r. cv_ID r \<noteq> cv_ID (hist ! k)) ?w = drop j ?w" using dropWhile_to [OF dw j(1)] j(2) by simp
  also have "\<dots> = drop k (take b hist)" using k by (simp add: add.commute)
  also have "\<dots> = hist ! k # drop (Suc k) (take b hist)" using kb by (simp add: Cons_nth_drop_Suc [symmetric] nth_take)
  finally show "dropWhile (\<lambda>r. cv_ID r \<noteq> cv_ID (hist ! k)) ?w = hist ! k # drop (Suc k) (take b hist)" .
  have "last ?w = last (take b hist)" using len by (intro last_drop) simp
  also have "\<dots> = take b hist ! (min b (length hist) - 1)" using len by (subst last_conv_nth) (auto simp: min.commute)
  finally show "last ?w = hist ! (min b (length hist) - 1)" using kb by simp
qed

lemma config_poll_step:
  assumes "historyOk hist" "k < length hist" "cc_lastRevision s = cv_ID (hist ! k)"
    and "case fetch of Inl e \<Rightarrow> True | Inr revs \<Rightarrow> revs = [] \<or> (\<exists>a b. mset revs = mset (drop a (take b hist))) \<and> cc_lastRevision s \<in> cv_ID ` set revs"
  shows "\<exists>k'. k \<le> k' \<and> k' < length hist \<and> cc_lastRevision (snd (config_Poll unescape fetch fetchDiff s)) = cv_ID (hist ! k') \<and>
    (case fst (config_Poll unescape fetch fetchDiff s) of Inl e \<Rightarrow> k' = k
     | Inr out \<Rightarrow> map recordRevision out = map cv_ID (drop (Suc k) (take (Suc k') hist)))"
proof (cases "\<exists>revs. fetch = Inr revs \<and> revs \<noteq> []")
  case False
  then show ?thesis using assms(2,3)
    by (cases fetch) (auto simp: config_Poll_def Let_def nextPollSequence_def observePoll_def intro!: exI [of _ k])
next
  case True
  then obtain revs a b where f: "fetch = Inr revs" "revs \<noteq> []" "mset revs = mset (drop a (take b hist))" "cv_ID (hist ! k) \<in> cv_ID ` set revs"
    using assms(3,4) by auto
  define w where "w = drop a (take b hist)"
  let ?k = "min b (length hist) - 1"
  have "set revs = set w" unfolding w_def using f(3) by (metis set_mset_mset)
  then have w: "dropWhile (\<lambda>r. cv_ID r \<noteq> cv_ID (hist ! k)) w = hist ! k # drop (Suc k) (take b hist)" "last w = hist ! ?k" "k < min b (length hist)"
    using window_from [OF assms(1,2), of a b] f(4) unfolding w_def by simp_all
  have ordered: "sort_Slice revisionLess revs = w" unfolding w_def by (rule window_ordered [OF assms(1) f(3)])
  have ne: "cv_ID (hist ! k) \<noteq> []" using assms(1,2) by (simp add: historyOk_def list_all_length)
  have all: "take (Suc ?k) hist = take b hist" using w(3) by (simp add: min_def)
  have poll: "config_Poll unescape fetch fetchDiff s =
      (case diffLoop unescape fetchDiff (hist ! k) (drop (Suc k) (take b hist)) of
         Inl e \<Rightarrow> (Inl e, nextPollSequence s)
       | Inr records \<Rightarrow> (Inr records, observeDiffs records (observePoll BranchEmitted (length records)
           ((nextPollSequence s)\<lparr>cc_lastRevision := cv_ID (hist ! ?k)\<rparr>))))"
    using f(1,2) ne assms(3) w(1,2) by (simp add: config_Poll_def Let_def ordered nextPollSequence_def split: sum.split)
  show ?thesis
  proof (cases "diffLoop unescape fetchDiff (hist ! k) (drop (Suc k) (take b hist))")
    case (Inl e)
    then show ?thesis using poll assms(2,3) by (auto simp: nextPollSequence_def)
  next
    case (Inr records)
    then show ?thesis using poll w(3) all diffLoop_revisions [OF Inr]
      by (auto simp: observeDiffs_def observePoll_def intro!: exI [of _ ?k])
  qed
qed

text \<open>
  (C31) The configuration lane ships every revision exactly once, in order. From a cursor at a revision of the
  history, over any polls (failed, empty, or whose diffs fail part-way) that keep the cursor within the window of
  history they read, the records shipped are those of the revisions after it up to the cursor where the polls end:
  none skipped, none repeated.
\<close>

theorem config_revisions_once:
  assumes "historyOk hist" "k < length hist" "cc_lastRevision s = cv_ID (hist ! k)" "retained unescape hist ops s"
    and "configRun unescape ops s = (out, s')"
  shows "\<exists>k'. k \<le> k' \<and> k' < length hist \<and> cc_lastRevision s' = cv_ID (hist ! k') \<and>
    map recordRevision out = map cv_ID (drop (Suc k) (take (Suc k') hist))"
  using assms(2-5)
proof (induction ops arbitrary: k s out)
  case Nil
  then show ?case by (auto intro!: exI [of _ k])
next
  case (Cons op ops)
  obtain fetch fetchDiff where op: "op = (fetch, fetchDiff)" by (cases op)
  obtain res s1 where p: "config_Poll unescape fetch fetchDiff s = (res, s1)" by (cases "config_Poll unescape fetch fetchDiff s")
  obtain k1 where k1: "k \<le> k1" "k1 < length hist" "cc_lastRevision s1 = cv_ID (hist ! k1)"
    "case res of Inl e \<Rightarrow> k1 = k | Inr out \<Rightarrow> map recordRevision out = map cv_ID (drop (Suc k) (take (Suc k1) hist))"
    using config_poll_step [OF assms(1) Cons.prems(1,2), of fetch unescape fetchDiff] Cons.prems(3) op p by auto
  obtain outs where r: "configRun unescape ops s1 = (outs, s')" using Cons.prems(4) op p by (auto split: sum.splits prod.splits)
  have "retained unescape hist ops s1" using Cons.prems(3) op p by simp
  from Cons.IH [OF k1(2,3) this r] obtain k2 where k2: "k1 \<le> k2" "k2 < length hist" "cc_lastRevision s' = cv_ID (hist ! k2)"
    "map recordRevision outs = map cv_ID (drop (Suc k1) (take (Suc k2) hist))" by blast
  have tail: "drop (Suc k) (take (Suc k1) hist) @ drop (Suc k1) (take (Suc k2) hist) = drop (Suc k) (take (Suc k2) hist)"
  proof -
    have "take (Suc k2) hist = take (Suc k1) hist @ drop (Suc k1) (take (Suc k2) hist)"
      using k2(1) by (metis append_take_drop_id min.absorb1 not_less_eq_eq take_take)
    then show ?thesis using k1(1,2) by (metis drop_append diff_is_0_eq' drop_0 length_take min.absorb2 Suc_leI Suc_le_mono)
  qed
  have "map recordRevision out = map cv_ID (drop (Suc k) (take (Suc k2) hist))"
  proof (cases res)
    case (Inl e)
    then show ?thesis using Cons.prems(4) op p r k1(4) k2(4) by simp
  next
    case (Inr b)
    then have "out = b @ outs" using Cons.prems(4) op p r by simp
    then have "map recordRevision out = map cv_ID (drop (Suc k) (take (Suc k1) hist) @ drop (Suc k1) (take (Suc k2) hist))"
      using Inr k1(4) k2(4) by simp
    then show ?thesis using tail by simp
  qed
  then show ?case using k1(1) k2(1-3) by (meson order_trans)
qed

section \<open>A history of two revisions\<close>

definition demoRevision :: "int \<Rightarrow> string \<Rightarrow> ConfigChangeRevision" where
  "demoRevision t i = \<lparr>cv_ID = i, cv_Timestamp = t, cv_User = ''root'', cv_Description = ''/ui made changes'', cv_URI = []\<rparr>"

theorem config_revisions_once_witness:
  "\<exists>k'. k' < 2 \<and> map recordRevision (fst (configRun (\<lambda>s. s)
      [(Inl (), \<lambda>a b. Inl ()), (Inr [demoRevision 2 ''b'', demoRevision 1 ''a''], \<lambda>a b. Inr ''+x'')]
      (NewConfigChangeSource\<lparr>cc_lastRevision := ''a''\<rparr>))) =
    map cv_ID (drop 1 (take (Suc k') [demoRevision 1 ''a'', demoRevision 2 ''b'']))"
proof -
  let ?h = "[demoRevision 1 ''a'', demoRevision 2 ''b'']"
  let ?ops = "[(Inl (), \<lambda>a b. Inl ()), (Inr [demoRevision 2 ''b'', demoRevision 1 ''a''], \<lambda>a b. Inr ''+x'')]"
  let ?s = "NewConfigChangeSource\<lparr>cc_lastRevision := ''a''\<rparr>"
  have h: "historyOk ?h" by (simp add: historyOk_def demoRevision_def revisionLess_def)
  have w: "mset [demoRevision 2 ''b'', demoRevision 1 ''a''] = mset (drop 0 (take 2 ?h))" by simp
  then have "\<exists>a b. mset [demoRevision 2 ''b'', demoRevision 1 ''a''] = mset (drop a (take b ?h))" by blast
  then have r: "retained (\<lambda>s. s) ?h ?ops ?s"
    by (simp add: config_Poll_def nextPollSequence_def Let_def demoRevision_def)
  obtain out s' where run: "configRun (\<lambda>s. s) ?ops ?s = (out, s')" by (cases "configRun (\<lambda>s. s) ?ops ?s")
  have "\<exists>k'. 0 \<le> k' \<and> k' < length ?h \<and> cc_lastRevision s' = cv_ID (?h ! k') \<and> map recordRevision out = map cv_ID (drop (Suc 0) (take (Suc k') ?h))"
    by (rule config_revisions_once [OF h _ _ r run]) (simp_all add: demoRevision_def)
  then obtain k' where "k' < length ?h" "map recordRevision out = map cv_ID (drop (Suc 0) (take (Suc k') ?h))" by blast
  then show ?thesis unfolding run by (intro exI [of _ k']) simp
qed

end
