(* ===== verification/RoutingChange.thy ===== *)
theory RoutingChange
  imports ConfigChange JsonText
begin

text \<open>
  The default-route lane (\<^verbatim>\<open>internal/logship/routingchange.go\<close>): a poll projects the route table and the gateways to
  a state, compares its fingerprint with that of the last poll, and ships one before/after event per cooldown,
  coalescing the changes in between. Marshalling of these values cannot fail. A body is marshalled, decoded, redacted
  and marshalled again, which on trees is: bytes that are not UTF-8 replaced, credentials deleted, keys in order.
\<close>

section \<open>State\<close>

datatype GatewayStatusType =
    GatewayStatusOffline | GatewayStatusOnline | GatewayStatusUnknown | GatewayStatusPeding | GatewayStatusLoss | GatewayStatusLatency
  | GatewayStatusForcedDown

record Gateway =
  gw_UUID :: string
  gw_Name :: string
  gw_Description :: string
  gw_HardwareInterface :: string
  gw_IPProtocol :: string
  gw_Gateway :: string
  gw_DefaultGateway :: bool
  gw_Enabled :: bool
  gw_FarGateway :: string
  gw_Interface :: string
  gw_InterfaceDescription :: string
  gw_Upstream :: bool
  gw_Status :: GatewayStatusType

record routeState =
  rs_Proto :: string
  rs_Device :: string
  rs_Interface :: string
  rs_Gateway :: string

record gatewayState =
  gs_UUID :: string
  gs_Name :: string
  gs_Description :: string
  gs_HardwareInterface :: string
  gs_IPProtocol :: string
  gs_Gateway :: string
  gs_DefaultGateway :: bool
  gs_Enabled :: bool
  gs_FarGateway :: string
  gs_Interface :: string
  gs_InterfaceDescription :: string
  gs_Upstream :: bool
  gs_Status :: string

record routeChangeState =
  rc_DefaultRoutes :: "routeState list"
  rc_Rows :: "gatewayState list"

record RoutingSnapshot =
  sn_DefaultRoutes :: "routeState list"
  sn_Gateways :: "Gateway list"

fun routingGatewayStatus :: "GatewayStatusType \<Rightarrow> string" where
  "routingGatewayStatus GatewayStatusOnline = ''online''"
| "routingGatewayStatus GatewayStatusOffline = ''offline''"
| "routingGatewayStatus GatewayStatusPeding = ''pending''"
| "routingGatewayStatus GatewayStatusLoss = ''packetloss''"
| "routingGatewayStatus GatewayStatusLatency = ''latency''"
| "routingGatewayStatus GatewayStatusForcedDown = ''forced_down''"
| "routingGatewayStatus GatewayStatusUnknown = ''unknown''"

definition routeLess :: "routeState \<Rightarrow> routeState \<Rightarrow> bool" where
  "routeLess a b =
     (if rs_Proto a \<noteq> rs_Proto b then rs_Proto a < rs_Proto b
      else if rs_Gateway a \<noteq> rs_Gateway b then rs_Gateway a < rs_Gateway b
      else if rs_Device a \<noteq> rs_Device b then rs_Device a < rs_Device b
      else rs_Interface a < rs_Interface b)"

definition gatewayLess :: "gatewayState \<Rightarrow> gatewayState \<Rightarrow> bool" where
  "gatewayLess a b =
     (if gs_UUID a \<noteq> gs_UUID b then gs_UUID a < gs_UUID b
      else if gs_Name a \<noteq> gs_Name b then gs_Name a < gs_Name b
      else if gs_IPProtocol a \<noteq> gs_IPProtocol b then gs_IPProtocol a < gs_IPProtocol b
      else gs_Gateway a < gs_Gateway b)"

definition gatewayStateOf :: "Gateway \<Rightarrow> gatewayState" where
  "gatewayStateOf g = \<lparr>gs_UUID = gw_UUID g, gs_Name = gw_Name g, gs_Description = gw_Description g, gs_HardwareInterface = gw_HardwareInterface g,
     gs_IPProtocol = gw_IPProtocol g, gs_Gateway = gw_Gateway g, gs_DefaultGateway = gw_DefaultGateway g, gs_Enabled = gw_Enabled g,
     gs_FarGateway = gw_FarGateway g, gs_Interface = gw_Interface g, gs_InterfaceDescription = gw_InterfaceDescription g,
     gs_Upstream = gw_Upstream g, gs_Status = routingGatewayStatus (gw_Status g)\<rparr>"

definition projectRoutingSnapshot :: "RoutingSnapshot \<Rightarrow> routeChangeState" where
  "projectRoutingSnapshot sn = \<lparr>rc_DefaultRoutes = sort_Slice routeLess (sn_DefaultRoutes sn),
     rc_Rows = sort_Slice gatewayLess (map gatewayStateOf (sn_Gateways sn))\<rparr>"

record gatewayRouteState =
  gf_UUID :: string
  gf_Name :: string
  gf_HardwareInterface :: string
  gf_IPProtocol :: string
  gf_Gateway :: string
  gf_DefaultGateway :: bool
  gf_Enabled :: bool
  gf_FarGateway :: string
  gf_Interface :: string
  gf_Upstream :: bool

definition gatewayRouteOf :: "gatewayState \<Rightarrow> gatewayRouteState" where
  "gatewayRouteOf g = \<lparr>gf_UUID = gs_UUID g, gf_Name = gs_Name g, gf_HardwareInterface = gs_HardwareInterface g, gf_IPProtocol = gs_IPProtocol g,
     gf_Gateway = gs_Gateway g, gf_DefaultGateway = gs_DefaultGateway g, gf_Enabled = gs_Enabled g, gf_FarGateway = gs_FarGateway g,
     gf_Interface = gs_Interface g, gf_Upstream = gs_Upstream g\<rparr>"

definition routingChangeFingerprintFor :: "routeChangeState \<Rightarrow> routeState list \<times> gatewayRouteState list" where
  "routingChangeFingerprintFor st = (rc_DefaultRoutes st, map gatewayRouteOf (rc_Rows st))"

definition routingStateChanged :: "routeChangeState \<Rightarrow> routeChangeState \<Rightarrow> bool" where
  "routingStateChanged before after \<longleftrightarrow> routingChangeFingerprintFor before \<noteq> routingChangeFingerprintFor after"

section \<open>The record of an event\<close>

definition routeJSON :: "routeState \<Rightarrow> json" where
  "routeJSON r = JObj [(''proto'', JStr (rs_Proto r)), (''device'', JStr (rs_Device r)), (''interface'', JStr (rs_Interface r)), (''gateway'', JStr (rs_Gateway r))]"

definition gatewayJSON :: "gatewayState \<Rightarrow> json" where
  "gatewayJSON g = JObj
     (omitStr ''uuid'' (gs_UUID g) @ omitStr ''name'' (gs_Name g) @ omitStr ''description'' (gs_Description g) @
      omitStr ''hardware_interface'' (gs_HardwareInterface g) @ omitStr ''ip_protocol'' (gs_IPProtocol g) @ omitStr ''gateway'' (gs_Gateway g) @
      [(''default_gateway'', JBool (gs_DefaultGateway g)), (''enabled'', JBool (gs_Enabled g))] @ omitStr ''far_gateway'' (gs_FarGateway g) @
      omitStr ''interface'' (gs_Interface g) @ omitStr ''interface_description'' (gs_InterfaceDescription g) @
      [(''upstream'', JBool (gs_Upstream g))] @ omitStr ''status'' (gs_Status g))"

definition stateJSON :: "routeChangeState \<Rightarrow> json" where
  "stateJSON st = JObj [(''routingTable'', JObj [(''default_routes'', JArr (map routeJSON (rc_DefaultRoutes st)))]),
     (''gatewaysStatus'', JObj [(''rows'', JArr (map gatewayJSON (rc_Rows st)))])]"

definition routingChangeSchema :: string where
  "routingChangeSchema = ''opnsense.routing.change.v1''"

definition routingChangeEvent :: string where
  "routingChangeEvent = ''default_route_change''"

definition routingChangeEventBody :: "routeChangeState \<Rightarrow> routeChangeState \<Rightarrow> nat \<Rightarrow> json" where
  "routingChangeEventBody before after nsup = JObj
     ([(''schema'', JStr routingChangeSchema), (''event'', JStr routingChangeEvent), (''family'', JStr ''default_route''),
       (''before'', stateJSON before), (''after'', stateJSON after)] @
      (if 0 < nsup then [(''flap'', JObj [(''kind'', JStr ''coalesced''), (''suppressed_changes'', JNum (int nsup))])] else []))"

text \<open>Decoding keeps text but for bytes that are not UTF-8, and a decoded object is marshalled with its keys in order.\<close>

function coerceUTF8 :: "string \<Rightarrow> string" where
  "coerceUTF8 [] = []"
| "coerceUTF8 (c # cs) =
     (if of_char c < (128::nat) then c # coerceUTF8 cs
      else (if runeWidth (c # cs) = 1 then [CHR 0xEF, CHR 0xBF, CHR 0xBD] else take (runeWidth (c # cs)) (c # cs)) @
        coerceUTF8 (drop (runeWidth (c # cs)) (c # cs)))"
  by pat_completeness auto

termination
  by (relation "measure length") (auto simp: runeWidth_pos)

fun redactRoutingChangeValue :: "json \<Rightarrow> json" where
  "redactRoutingChangeValue (JObj kvs) =
     JObj (map (\<lambda>kv. (fst kv, redactRoutingChangeValue (snd kv))) (filter (\<lambda>kv. \<not> SensitiveConfigKey (fst kv)) kvs))"
| "redactRoutingChangeValue (JArr xs) = JArr (map redactRoutingChangeValue xs)"
| "redactRoutingChangeValue v = v"

fun decodedJSON :: "json \<Rightarrow> json" where
  "decodedJSON (JStr s) = JStr (coerceUTF8 s)"
| "decodedJSON (JArr xs) = JArr (map decodedJSON xs)"
| "decodedJSON (JObj kvs) = JObj (sort_Slice (\<lambda>a b. fst a < fst b) (map (\<lambda>kv. (coerceUTF8 (fst kv), decodedJSON (snd kv))) kvs))"
| "decodedJSON v = v"

definition marshalRoutingChangeEvent :: "json \<Rightarrow> string" where
  "marshalRoutingChangeEvent event = marshal (redactRoutingChangeValue (decodedJSON event))"

definition routeFamilies :: "routeChangeState \<Rightarrow> string" where
  "routeFamilies st =
     (let families = {p \<in> set (map rs_Proto (rc_DefaultRoutes st)). p \<noteq> []};
          families = (if families = {} then {p \<in> set (map gs_IPProtocol (filter gs_DefaultGateway (rc_Rows st))). p \<noteq> []} else families)
      in join_with '','' (sorted_list_of_set families))"

definition routingChangeSubsystem :: string where
  "routingChangeSubsystem = ''routing''"

definition routingChangeRecord :: "routeChangeState \<Rightarrow> routeChangeState \<Rightarrow> time \<Rightarrow> nat \<Rightarrow> LogRecord" where
  "routingChangeRecord before after now nsup =
     (let m = [(AttrSubsystem, routingChangeSubsystem), (''event'', routingChangeEvent), (''change'', ''default_route''), (''route_family'', routeFamilies after)];
          m = (if 0 < nsup then m @ [(''change_kind'', ''flap''), (''flap_suppressed'', itoa nsup)] else m @ [(''change_kind'', ''move'')])
      in \<lparr>lr_Timestamp = now, lr_Body = marshalRoutingChangeEvent (routingChangeEventBody before after nsup), lr_Attributes = Some m,
          lr_Severity = SeverityInfo, lr_Source = []\<rparr>)"

section \<open>The poll\<close>

definition routingChangeMinInterval :: duration where
  "routingChangeMinInterval = 60 * second_ns"

definition routingChangeMaxSuppressed :: nat where
  "routingChangeMaxSuppressed = 2 ^ 32 - 1"

record routingChangePending =
  rp_Before :: routeChangeState
  rp_SuppressedChanges :: nat

record RoutingChangeSource =
  ro_cursorSet :: bool
  ro_lastSnapshot :: routeChangeState
  ro_lastEmittedAt :: time
  ro_lastEmissionSet :: bool
  ro_pending :: "routingChangePending option"
  ro_interval :: duration

definition newRoutingChangeSource :: "duration \<Rightarrow> RoutingChangeSource" where
  "newRoutingChangeSource interval = \<lparr>ro_cursorSet = False, ro_lastSnapshot = \<lparr>rc_DefaultRoutes = [], rc_Rows = []\<rparr>, ro_lastEmittedAt = 0,
     ro_lastEmissionSet = False, ro_pending = None, ro_interval = (if interval \<le> 0 then routingChangeMinInterval else interval)\<rparr>"

definition eventAllowed :: "time \<Rightarrow> RoutingChangeSource \<Rightarrow> bool" where
  "eventAllowed now s \<longleftrightarrow> \<not> ro_lastEmissionSet s \<or> ro_interval s \<le> time_Sub now (ro_lastEmittedAt s)"

text \<open>What an event says, and the poll with the events it ships.\<close>

record routingEvent =
  re_before :: routeChangeState
  re_after :: routeChangeState
  re_now :: time
  re_suppressed :: nat

definition routingPoll :: "routeChangeState \<Rightarrow> time \<Rightarrow> RoutingChangeSource \<Rightarrow> routingEvent list \<times> RoutingChangeSource" where
  "routingPoll current now s =
     (if \<not> ro_cursorSet s then ([], s\<lparr>ro_lastSnapshot := current, ro_cursorSet := True\<rparr>)
      else
        let previous = ro_lastSnapshot s;
            emitted = s\<lparr>ro_lastSnapshot := current, ro_pending := None, ro_lastEmittedAt := now, ro_lastEmissionSet := True\<rparr> in
        if routingStateChanged previous current then
          if eventAllowed now s then
            let (before, nsup) = (case ro_pending s of None \<Rightarrow> (previous, 0) | Some p \<Rightarrow> (rp_Before p, rp_SuppressedChanges p))
            in ([\<lparr>re_before = before, re_after = current, re_now = now, re_suppressed = nsup\<rparr>], emitted)
          else
            let p = (case ro_pending s of None \<Rightarrow> \<lparr>rp_Before = previous, rp_SuppressedChanges = 0\<rparr> | Some p \<Rightarrow> p);
                p = (if rp_SuppressedChanges p < routingChangeMaxSuppressed then p\<lparr>rp_SuppressedChanges := Suc (rp_SuppressedChanges p)\<rparr> else p)
            in ([], s\<lparr>ro_pending := Some p, ro_lastSnapshot := current\<rparr>)
        else case ro_pending s of
          Some p \<Rightarrow>
            if eventAllowed now s
            then ([\<lparr>re_before = rp_Before p, re_after = current, re_now = now, re_suppressed = rp_SuppressedChanges p\<rparr>], emitted)
            else ([], s\<lparr>ro_lastSnapshot := current\<rparr>)
        | None \<Rightarrow> ([], s\<lparr>ro_lastSnapshot := current\<rparr>))"

definition routing_Poll :: "'e + RoutingSnapshot \<Rightarrow> time \<Rightarrow> RoutingChangeSource \<Rightarrow> ('e + LogRecord list) \<times> RoutingChangeSource" where
  "routing_Poll fetch now s =
     (case fetch of
        Inl e \<Rightarrow> (Inl e, s)
      | Inr sn \<Rightarrow>
          (let (events, s') = routingPoll (projectRoutingSnapshot sn) now s
           in (Inr (map (\<lambda>e. routingChangeRecord (re_before e) (re_after e) (re_now e) (re_suppressed e)) events), s')))"

definition routingChangeStateSchema :: int where
  "routingChangeStateSchema = 1"

record routingChangePersistedState =
  ps_Schema :: int
  ps_CursorSet :: bool
  ps_LastSnapshot :: routeChangeState
  ps_LastEmittedAt :: time
  ps_LastEmissionSet :: bool
  ps_Pending :: "routingChangePending option"

definition routing_LoadState :: "routingChangePersistedState option \<Rightarrow> RoutingChangeSource \<Rightarrow> RoutingChangeSource" where
  "routing_LoadState blob s =
     (case blob of
        None \<Rightarrow> s
      | Some st \<Rightarrow>
          if ps_Schema st \<noteq> routingChangeStateSchema \<or> \<not> ps_CursorSet st then s
          else s\<lparr>ro_cursorSet := True, ro_lastSnapshot := ps_LastSnapshot st, ro_lastEmittedAt := ps_LastEmittedAt st,
            ro_lastEmissionSet := ps_LastEmissionSet st,
            ro_pending := map_option (\<lambda>p. p\<lparr>rp_SuppressedChanges := min routingChangeMaxSuppressed (rp_SuppressedChanges p)\<rparr>) (ps_Pending st)\<rparr>)"

definition routing_SaveState :: "RoutingChangeSource \<Rightarrow> routingChangePersistedState option" where
  "routing_SaveState s =
     (if \<not> ro_cursorSet s then None
      else Some \<lparr>ps_Schema = routingChangeStateSchema, ps_CursorSet = True, ps_LastSnapshot = ro_lastSnapshot s, ps_LastEmittedAt = ro_lastEmittedAt s,
        ps_LastEmissionSet = ro_lastEmissionSet s, ps_Pending = ro_pending s\<rparr>)"

section \<open>Events tell the whole story\<close>

text \<open>The life of the lane: polls with what they read and when, failed fetches, restarts through the state file.\<close>

datatype routingOp = RtPoll RoutingSnapshot time | RtFail | RtRestart

fun routingStep :: "routingOp \<Rightarrow> RoutingChangeSource \<Rightarrow> routingEvent list \<times> RoutingChangeSource" where
  "routingStep (RtPoll sn now) s = routingPoll (projectRoutingSnapshot sn) now s"
| "routingStep RtFail s = ([], s)"
| "routingStep RtRestart s = ([], routing_LoadState (routing_SaveState s) (newRoutingChangeSource (ro_interval s)))"

fun routingRun :: "routingOp list \<Rightarrow> RoutingChangeSource \<Rightarrow> routingEvent list \<times> RoutingChangeSource" where
  "routingRun [] s = ([], s)"
| "routingRun (op # ops) s = (let (es, s') = routingStep op s; (fs, s'') = routingRun ops s' in (es @ fs, s''))"

text \<open>The last state told: where the next event starts from.\<close>

definition toldState :: "RoutingChangeSource \<Rightarrow> routeState list \<times> gatewayRouteState list" where
  "toldState s = routingChangeFingerprintFor (case ro_pending s of None \<Rightarrow> ro_lastSnapshot s | Some p \<Rightarrow> rp_Before p)"

fun chained :: "routeState list \<times> gatewayRouteState list \<Rightarrow> routingEvent list \<Rightarrow> routeState list \<times> gatewayRouteState list \<Rightarrow> bool" where
  "chained f [] g \<longleftrightarrow> f = g"
| "chained f (e # es) g \<longleftrightarrow> routingChangeFingerprintFor (re_before e) = f \<and> chained (routingChangeFingerprintFor (re_after e)) es g"

fun spaced :: "duration \<Rightarrow> time option \<Rightarrow> routingEvent list \<Rightarrow> bool" where
  "spaced d lst [] \<longleftrightarrow> True"
| "spaced d lst (e # es) \<longleftrightarrow> (case lst of None \<Rightarrow> True | Some t \<Rightarrow> d \<le> re_now e - t) \<and> spaced d (Some (re_now e)) es"

definition lastEvent :: "RoutingChangeSource \<Rightarrow> time option" where
  "lastEvent s = (if ro_lastEmissionSet s then Some (ro_lastEmittedAt s) else None)"

lemma chained_append: "chained f es g \<Longrightarrow> chained g fs h \<Longrightarrow> chained f (es @ fs) h"
  by (induction es arbitrary: f) auto

lemma allowed_spaced:
  assumes "eventAllowed now s" "0 < ro_interval s"
  shows "case lastEvent s of None \<Rightarrow> True | Some t \<Rightarrow> ro_interval s \<le> now - t"
proof -
  have "ro_interval s \<le> now - t" if "ro_interval s \<le> time_Sub now t" for t
    using that assms(2) by (auto simp: time_Sub_def max_int64_def min_int64_def split: if_splits)
  then show ?thesis using assms(1) by (simp add: eventAllowed_def lastEvent_def)
qed

lemma routingPoll_told:
  assumes "ro_cursorSet s" "routingPoll current now s = (es, s')"
  shows "ro_cursorSet s' \<and> ro_interval s' = ro_interval s \<and> chained (toldState s) es (toldState s')"
  using assms by (auto simp: routingPoll_def toldState_def routingStateChanged_def Let_def split: if_splits option.splits prod.splits)

lemma routingPoll_spaced:
  assumes "ro_cursorSet s" "routingPoll current now s = (es, s')" "0 < ro_interval s"
  shows "(es = [] \<and> lastEvent s' = lastEvent s) \<or>
    (\<exists>e. es = [e] \<and> spaced (ro_interval s) (lastEvent s) es \<and> lastEvent s' = Some (re_now e))"
proof -
  have "\<not> (eventAllowed now s \<and> es \<noteq> []) \<Longrightarrow> es = [] \<and> lastEvent s' = lastEvent s"
    using assms(1,2) by (auto simp: routingPoll_def lastEvent_def Let_def split: if_splits option.splits prod.splits)
  moreover have "eventAllowed now s \<Longrightarrow> es \<noteq> [] \<Longrightarrow> \<exists>e. es = [e] \<and> re_now e = now \<and> lastEvent s' = Some now"
    using assms(1,2) by (auto simp: routingPoll_def lastEvent_def Let_def split: if_splits option.splits prod.splits)
  moreover have "eventAllowed now s \<Longrightarrow> case lastEvent s of None \<Rightarrow> True | Some t \<Rightarrow> ro_interval s \<le> now - t"
    using allowed_spaced assms(3) by blast
  ultimately show ?thesis by fastforce
qed

lemma restart_told:
  assumes "ro_cursorSet s" "0 < ro_interval s" "routingStep RtRestart s = (es, s')"
  shows "es = [] \<and> ro_cursorSet s' \<and> ro_interval s' = ro_interval s \<and> toldState s' = toldState s \<and> lastEvent s' = lastEvent s"
  using assms by (auto simp: routing_LoadState_def routing_SaveState_def newRoutingChangeSource_def toldState_def lastEvent_def split: option.split)

lemma routingRun_told:
  "ro_cursorSet s \<Longrightarrow> 0 < ro_interval s \<Longrightarrow> routingRun ops s = (es, s') \<Longrightarrow>
   ro_interval s' = ro_interval s \<and> chained (toldState s) es (toldState s') \<and> spaced (ro_interval s) (lastEvent s) es"
proof (induction ops arbitrary: s es)
  case (Cons op ops)
  obtain e1 s1 where 1: "routingStep op s = (e1, s1)" by (cases "routingStep op s")
  obtain e2 where 2: "routingRun ops s1 = (e2, s')" "es = e1 @ e2" using Cons.prems(3) 1 by (auto split: prod.splits)
  have k: "ro_cursorSet s1 \<and> ro_interval s1 = ro_interval s \<and> chained (toldState s) e1 (toldState s1)"
    using 1 Cons.prems(1,2) by (cases op) (auto dest: routingPoll_told restart_told)
  have sp: "(e1 = [] \<and> lastEvent s1 = lastEvent s) \<or>
      (\<exists>e. e1 = [e] \<and> spaced (ro_interval s) (lastEvent s) e1 \<and> lastEvent s1 = Some (re_now e))"
  proof (cases op)
    case (RtPoll sn now)
    then show ?thesis using routingPoll_spaced [OF Cons.prems(1), of _ now e1 s1] 1 Cons.prems(2) by simp
  next
    case RtRestart
    then show ?thesis using restart_told [OF Cons.prems(1,2)] 1 by blast
  qed (use 1 in simp)
  have "ro_interval s' = ro_interval s1 \<and> chained (toldState s1) e2 (toldState s') \<and> spaced (ro_interval s1) (lastEvent s1) e2"
    using Cons.IH [OF _ _ 2(1)] k Cons.prems(2) by simp
  then show ?case using k sp 2(2) chained_append by auto
qed simp

text \<open>
  (C35) The events of the route lane tell the whole story at a bounded rate. Over any life of the lane after its
  baseline poll, through failed fetches and restarts, every event starts from the state the one before ended with
  (the first from the baseline), the last told state is where the lane stands, and two events are never closer than
  the cooldown.
\<close>

theorem routing_events_chain:
  fixes ops :: "routingOp list" and sn :: RoutingSnapshot and t :: time and d :: duration
  defines "r \<equiv> routingRun (RtPoll sn t # ops) (newRoutingChangeSource d)"
  shows "chained (routingChangeFingerprintFor (projectRoutingSnapshot sn)) (fst r) (toldState (snd r)) \<and>
    spaced (if d \<le> 0 then routingChangeMinInterval else d) None (fst r)"
proof -
  define s where "s = (newRoutingChangeSource d)\<lparr>ro_lastSnapshot := projectRoutingSnapshot sn, ro_cursorSet := True\<rparr>"
  have s: "ro_cursorSet s" "ro_interval s = (if d \<le> 0 then routingChangeMinInterval else d)" "0 < ro_interval s"
    "toldState s = routingChangeFingerprintFor (projectRoutingSnapshot sn)" "lastEvent s = None"
    by (simp_all add: s_def newRoutingChangeSource_def routingChangeMinInterval_def second_ns_def toldState_def lastEvent_def)
  have "r = routingRun ops s" by (simp add: r_def s_def routingPoll_def newRoutingChangeSource_def)
  then show ?thesis using routingRun_told [OF s(1,3), of ops "fst r" "snd r"] s(2,4,5) by simp
qed

text \<open>A change held back is told by the first poll after the cooldown, even if nothing moves again.\<close>

lemma flap_flushed:
  assumes "ro_cursorSet s" "ro_pending s = Some p" "eventAllowed now s" "routingPoll current now s = (es, s')"
  shows "\<exists>e. es = [e] \<and> re_before e = rp_Before p \<and> re_after e = current \<and> re_suppressed e = rp_SuppressedChanges p \<and> ro_pending s' = None"
  using assms by (auto simp: routingPoll_def Let_def split: if_splits)

text \<open>No key that names a credential survives in a body.\<close>

fun keysOf :: "json \<Rightarrow> string set" where
  "keysOf (JObj kvs) = fst ` set kvs \<union> (\<Union>kv\<in>set kvs. keysOf (snd kv))"
| "keysOf (JArr xs) = (\<Union>x\<in>set xs. keysOf x)"
| "keysOf v = {}"

lemma routing_redacted: "k \<in> keysOf (redactRoutingChangeValue v) \<Longrightarrow> \<not> SensitiveConfigKey k"
proof (induction v rule: redactRoutingChangeValue.induct)
  case (1 kvs)
  then show ?case by fastforce
qed auto

end
