(* ===== verification/FlowLog.thy ===== *)
theory FlowLog
  imports LogShip Rollup
begin

text \<open>
  Flow records as log records: the attributes and the body of a record (\<^verbatim>\<open>internal/flow/logemit.go\<close>), the bridge that
  hands them to the pipeline under a budget per minute (\<^verbatim>\<open>internal/logship/flowlog/flowlog.go\<close>), and the histogram of
  the disagreement between the two sources (\<^verbatim>\<open>internal/flow/deltaratio.go\<close>). The attribute map is a table of the keys
  with the values that are set. Floating-point division, addition and comparison are arguments of the histogram;
  formatting of an instant is an argument.
\<close>

section \<open>Attributes\<close>

text \<open>A table of keys with the values that are set, and the map with those.\<close>

type_synonym attrTable = "(string \<times> string option) list"

fun setAttrs :: "attrTable \<Rightarrow> (string, string) gomap" where
  "setAttrs [] = []"
| "setAttrs ((k, None) # kvs) = setAttrs kvs"
| "setAttrs ((k, Some v) # kvs) = (k, v) # setAttrs kvs"

definition whenStr :: "string \<Rightarrow> string option" where
  "whenStr s = (if s = [] then None else Some s)"

definition whenTrue :: "bool \<Rightarrow> string option" where
  "whenTrue b = (if b then Some ''true'' else None)"

definition whenNum :: "'a::len word \<Rightarrow> string option" where
  "whenNum w = (if w = 0 then None else Some (itoa (unat w)))"

definition tcpFlagNames :: "string list" where
  "tcpFlagNames = [''FIN'', ''SYN'', ''RST'', ''PSH'', ''ACK'', ''URG'', ''ECE'', ''CWR'']"

definition tcpFlagsString :: "u8 \<Rightarrow> string" where
  "tcpFlagsString f =
     (if f = 0 then [] else join_with '','' (map snd (filter (\<lambda>(i, name). bit f i) (enumerate 0 tcpFlagNames))))"

definition dscpStandardNames :: "(u8, string) gomap" where
  "dscpStandardNames = [(8, ''CS1''), (16, ''CS2''), (24, ''CS3''), (32, ''CS4''), (40, ''CS5''), (48, ''CS6''), (56, ''CS7''),
     (10, ''AF11''), (12, ''AF12''), (14, ''AF13''), (18, ''AF21''), (20, ''AF22''), (22, ''AF23''), (26, ''AF31''), (28, ''AF32''),
     (30, ''AF33''), (34, ''AF41''), (36, ''AF42''), (38, ''AF43''), (46, ''EF'')]"

definition dscpClass :: "u8 \<Rightarrow> string" where
  "dscpClass d = (case map_of dscpStandardNames d of None \<Rightarrow> [] | Some n \<Rightarrow> n)"

definition ecnState :: "u8 \<Rightarrow> string" where
  "ecnState e = (if e = 1 then ''ECT(1)'' else if e = 2 then ''ECT(0)'' else if e = 3 then ''CE'' else [])"

definition flow_geoAttrs :: "string \<Rightarrow> GeoEndpoint \<Rightarrow> attrTable" where
  "flow_geoAttrs prefix g =
     [(prefix @ ''.geo.country'', whenStr (g_Country g)),
      (prefix @ ''.geo.country_source'', if g_Country g = [] then None else Some (g_CountrySource g)),
      (prefix @ ''.geo.continent'', whenStr (g_Continent g)),
      (prefix @ ''.geo.city'', whenStr (g_City g)),
      (prefix @ ''.geo.region'', whenStr (g_Region g)),
      (prefix @ ''.geo.city_source'', if g_City g \<noteq> [] \<or> g_Region g \<noteq> [] then Some (g_CitySource g) else None),
      (prefix @ ''.geo.asn'', if g_ASN g = 0 then None else Some (''AS'' @ itoa (g_ASN g))),
      (prefix @ ''.geo.as_org'', whenStr (g_ASOrg g)),
      (prefix @ ''.geo.zen_country'', if g_ZenCountry g \<noteq> [] \<and> g_ZenCountry g \<noteq> g_Country g then Some (g_ZenCountry g) else None)]"

definition numWhen :: "bool \<Rightarrow> 'a::len word \<Rightarrow> string option" where
  "numWhen b w = (if b then Some (itoa (unat w)) else None)"

definition addressTable :: "Record \<Rightarrow> attrTable" where
  "addressTable r =
     [(''src.ip'', if addr_IsValid (r_SrcAddr r) then Some (addr_String (r_SrcAddr r)) else None),
      (''dst.ip'', if addr_IsValid (r_DstAddr r) then Some (addr_String (r_DstAddr r)) else None),
      (''src.port'', whenNum (r_SrcPort r)), (''dst.port'', whenNum (r_DstPort r)),
      (''net.transport'', if transportName (r_Proto r) \<noteq> ''other'' \<or> r_Proto r \<noteq> 0 then Some (transportName (r_Proto r)) else None),
      (''flow.proto'', Some (itoa (unat (r_Proto r)))), (''flow.community_id'', whenStr (r_CommunityID r)),
      (''flow.direction'', if Direction_String (r_Direction r) = ''unknown'' then None else Some (Direction_String (r_Direction r)))]"

definition interfaceTable :: "Record \<Rightarrow> attrTable" where
  "interfaceTable r =
     [(''flow.interface'', whenStr (interfaceLabel r)), (''flow.in_interface'', whenStr (Iface_Label (r_In r))),
      (''flow.out_interface'', whenStr (Iface_Label (r_Out r))),
      (''flow.in_device'', if if_Unresolved (r_In r) then whenStr (if_Device (r_In r)) else None),
      (''flow.out_device'', if if_Unresolved (r_Out r) then whenStr (if_Device (r_Out r)) else None),
      (''flow.vlan'', whenStr (r_VLANID r)), (''flow.action'', whenStr (Verdict_String (r_Verdict r))),
      (''flow.egress_corrected'', whenTrue (if_Corrected (r_Out r))),
      (''flow.vlan_subnet_attributed'', whenTrue (rp_VLANSubnetAttributed (r_Repairs r))),
      (''flow.policy_route_corrected'', whenTrue (rp_PolicyRouteCorrected (r_Repairs r))),
      (''flow.zen_bytes_are_payload'', whenTrue (rp_ZenBytesArePayload (r_Repairs r))),
      (''flow.window_partial'', whenTrue (rp_WindowPartial (r_Repairs r))),
      (''flow.fragments'', if 1 < r_Fragments r then Some (itoa (r_Fragments r)) else None)]"

definition netflowTable :: "Record \<Rightarrow> attrTable" where
  "netflowTable r =
     [(''netflow.tcp_flags'', if r_TCPFlags r = 0 then None else Some (tcpFlagsString (r_TCPFlags r))),
      (''netflow.dscp'', whenNum (r_DSCP r)),
      (''netflow.dscp_class'', if r_DSCP r = 0 then None else whenStr (dscpClass (r_DSCP r))),
      (''netflow.ecn'', if r_ECN r = 0 then None else Some (ecnState (r_ECN r))),
      (''netflow.src_mask'', numWhen (c_Present (r_NF r)) (r_SrcMask r)),
      (''netflow.dst_mask'', numWhen (c_Present (r_NF r)) (r_DstMask r))]"

definition l7Table :: "Record \<Rightarrow> attrTable" where
  "l7Table r =
     [(''app.name'', whenStr (l7_AppName (r_L7 r))), (''app.proto'', whenStr (l7_AppProto (r_L7 r))),
      (''app.category'', whenStr (l7_AppCategory (r_L7 r))), (''app.domain_category'', whenStr (l7_DomainCat (r_L7 r))),
      (''zenarmor.encryption'', whenStr (l7_Encryption (r_L7 r))),
      (''src.hostname'', whenStr (en_SrcHostname (r_Enrich r))), (''dst.hostname'', whenStr (en_DstHostname (r_Enrich r))),
      (''src.scope'', whenStr (en_SrcScope (r_Enrich r))), (''dst.scope'', whenStr (en_DstScope (r_Enrich r))),
      (''dst.service'', whenStr (en_DstService (r_Enrich r))), (''dst.domain'', whenStr (en_DstDomain (r_Enrich r)))]"

definition volumeTable :: "Record \<Rightarrow> attrTable" where
  "volumeTable r =
     (let nf = c_Present (r_NF r); both = (nf \<and> r_Source r = SourceMerged); zen = c_Present (r_Zen r)
      in [(''flow.nf.bytes'', numWhen nf (Counters_Bytes (r_NF r))), (''flow.nf.packets'', numWhen nf (Counters_Packets (r_NF r))),
          (''flow.nf.tx_bytes'', numWhen both (c_TxBytes (r_NF r))), (''flow.nf.rx_bytes'', numWhen both (c_RxBytes (r_NF r))),
          (''flow.nf.tx_packets'', numWhen both (c_TxPackets (r_NF r))), (''flow.nf.rx_packets'', numWhen both (c_RxPackets (r_NF r))),
          (''flow.zen.bytes'', numWhen zen (Counters_Bytes (r_Zen r))), (''flow.zen.packets'', numWhen zen (Counters_Packets (r_Zen r)))])"

definition logTable :: "Record \<Rightarrow> attrTable" where
  "logTable r = addressTable r @ interfaceTable r @ netflowTable r @ l7Table r @
     flow_geoAttrs ''src'' (geo_Src (r_Geo r)) @ flow_geoAttrs ''dst'' (geo_Dst (r_Geo r)) @ volumeTable r"

definition LogAttributes :: "Record \<Rightarrow> (string, string) gomap" where
  "LogAttributes r = setAttrs (logTable r)"

definition flow_endpoint :: "string \<Rightarrow> u16 \<Rightarrow> string" where
  "flow_endpoint ip port = (if port = 0 then ip else ip @ '':'' @ itoa (unat port))"

definition LogBody :: "Record \<Rightarrow> string" where
  "LogBody r =
     flow_endpoint (addr_String (r_SrcAddr r)) (r_SrcPort r) @ '' -> '' @ flow_endpoint (addr_String (r_DstAddr r)) (r_DstPort r) @ '' '' @
     transportName (r_Proto r) @
     (if l7_AppName (r_L7 r) \<noteq> [] then '' '' @ l7_AppName (r_L7 r) else []) @
     (if Verdict_String (r_Verdict r) \<noteq> [] then '' '' @ Verdict_String (r_Verdict r) else [])"

definition LogSeverityBlocked :: "Record \<Rightarrow> bool" where
  "LogSeverityBlocked r \<longleftrightarrow> r_Verdict r = VerdictBlock"

section \<open>The bridge\<close>

definition flowSubsystem :: string where
  "flowSubsystem = ''flow''"

definition budgetWindow :: duration where
  "budgetWindow = 60 * second_ns"

record budget =
  bu_max :: int
  bu_window :: duration
  bu_curWin :: int
  bu_count :: int

definition windowOf :: "duration \<Rightarrow> time \<Rightarrow> int" where
  "windowOf window now = go_div (UnixNano now) window"

definition budget_allow :: "time \<Rightarrow> budget \<Rightarrow> bool \<times> budget" where
  "budget_allow now bu =
     (if bu_max bu \<le> 0 then (True, bu)
      else
        let w = windowOf (bu_window bu) now;
            bu = (if w \<noteq> bu_curWin bu then bu\<lparr>bu_curWin := w, bu_count := 0\<rparr> else bu)
        in if bu_max bu \<le> bu_count bu then (False, bu) else (True, bu\<lparr>bu_count := bu_count bu + 1\<rparr>))"

text \<open>The bridge with what it handed to the pipeline, each with the clock of its budget.\<close>

record Bridge =
  br_bound :: bool
  br_perFlow :: bool
  br_budget :: "budget option"
  br_emitted :: u64
  br_truncated :: u64
  br_dropped :: u64
  br_out :: "(time \<times> LogRecord) list"

definition NewBridge :: Bridge where
  "NewBridge = \<lparr>br_bound = False, br_perFlow = False, br_budget = None, br_emitted = 0, br_truncated = 0, br_dropped = 0, br_out = []\<rparr>"

definition LogModePerFlow :: string where
  "LogModePerFlow = ''per_flow''"

definition Bridge_Configure :: "string \<Rightarrow> int \<Rightarrow> Bridge \<Rightarrow> Bridge" where
  "Bridge_Configure mode maxPerWindow b =
     b\<lparr>br_perFlow := (mode = LogModePerFlow),
       br_budget := Some \<lparr>bu_max = maxPerWindow, bu_window = budgetWindow, bu_curWin = 0, bu_count = 0\<rparr>\<rparr>"

definition Bridge_Run :: "Bridge \<Rightarrow> Bridge" where
  "Bridge_Run b = b\<lparr>br_bound := True\<rparr>"

definition Unbind :: "Bridge \<Rightarrow> Bridge" where
  "Unbind b = b\<lparr>br_bound := False\<rparr>"

definition flowTimestamp :: "Record \<Rightarrow> time" where
  "flowTimestamp r =
     (if \<not> time_IsZero (r_End r) then r_End r
      else if \<not> time_IsZero (r_Start r) then r_Start r
      else if \<not> time_IsZero (r_Observed r) then r_Observed r
      else 0)"

definition addIntervalAttributes :: "(time \<Rightarrow> string) \<Rightarrow> Record \<Rightarrow> (string, string) gomap \<Rightarrow> (string, string) gomap" where
  "addIntervalAttributes rfc3339 r m =
     (let m = (if \<not> time_IsZero (r_Start r) then AList.update ''flow.start_time'' (rfc3339 (r_Start r)) m else m);
          m = (if \<not> time_IsZero (r_End r) then AList.update ''flow.end_time'' (rfc3339 (r_End r)) m else m);
          d = time_Sub (r_End r) (r_Start r)
      in if time_IsZero (r_Start r) \<or> time_IsZero (r_End r) then m
         else if 0 \<le> d then AList.update ''flow.duration_ms'' (itoa (nat (go_div d millisecond_ns))) m else m)"

definition flowLogRecord :: "(time \<Rightarrow> string) \<Rightarrow> Record \<Rightarrow> LogRecord" where
  "flowLogRecord rfc3339 r =
     \<lparr>lr_Timestamp = flowTimestamp r, lr_Body = LogBody r,
      lr_Attributes = Some (addIntervalAttributes rfc3339 r (AList.update AttrSubsystem flowSubsystem (LogAttributes r))),
      lr_Severity = (if LogSeverityBlocked r then SeverityWarn else SeverityInfo), lr_Source = Source_String (r_Source r)\<rparr>"

definition Bridge_Emit :: "(time \<Rightarrow> string) \<Rightarrow> time \<Rightarrow> Record \<Rightarrow> Bridge \<Rightarrow> Bridge" where
  "Bridge_Emit rfc3339 now r b =
     (if \<not> br_perFlow b then b
      else if \<not> br_bound b then b\<lparr>br_dropped := br_dropped b + 1\<rparr>
      else
        let (ok, bu) = (case br_budget b of None \<Rightarrow> (True, None) | Some bu \<Rightarrow> (let (ok, bu') = budget_allow now bu in (ok, Some bu')));
            b = b\<lparr>br_budget := bu\<rparr>
        in if \<not> ok then b\<lparr>br_truncated := br_truncated b + 1\<rparr>
           else b\<lparr>br_out := br_out b @ [(now, flowLogRecord rfc3339 r)], br_emitted := br_emitted b + 1\<rparr>)"

section \<open>The disagreement histogram\<close>

record 'f floatOps =
  fl_div :: "u64 \<Rightarrow> u64 \<Rightarrow> 'f"
  fl_add :: "'f \<Rightarrow> 'f \<Rightarrow> 'f"
  fl_le :: "'f \<Rightarrow> 'f \<Rightarrow> bool"
  fl_zero :: 'f
  fl_overflow :: 'f
  fl_bounds :: "'f list"

record 'f ratioCell =
  rx_counts :: "u64 list"
  rx_sum :: 'f
  rx_total :: u64

record 'f DeltaRatio =
  dr_cells :: "(string, 'f ratioCell) gomap"
  dr_excluded :: u64

definition NewDeltaRatio :: "'f DeltaRatio" where
  "NewDeltaRatio = \<lparr>dr_cells = [], dr_excluded = 0\<rparr>"

definition ratioOf :: "'f floatOps \<Rightarrow> u64 \<Rightarrow> u64 \<Rightarrow> 'f" where
  "ratioOf F nf zen = (if zen = 0 then fl_overflow F else fl_div F nf zen)"

fun bucketLoop :: "'f floatOps \<Rightarrow> 'f \<Rightarrow> 'f list \<Rightarrow> nat \<Rightarrow> nat" where
  "bucketLoop F x [] i = i"
| "bucketLoop F x (b # bs) i = (if fl_le F x b then i else bucketLoop F x bs (Suc i))"

definition bucketOf :: "'f floatOps \<Rightarrow> 'f \<Rightarrow> nat" where
  "bucketOf F x = bucketLoop F x (fl_bounds F) 0"

definition DeltaRatio_Observe :: "'f floatOps \<Rightarrow> Record \<Rightarrow> 'f DeltaRatio \<Rightarrow> 'f DeltaRatio" where
  "DeltaRatio_Observe F r d =
     (if \<not> c_Present (r_NF r) \<or> \<not> c_Present (r_Zen r) then d
      else if rp_WindowPartial (r_Repairs r) then d\<lparr>dr_excluded := dr_excluded d + 1\<rparr>
      else
        let ratio = ratioOf F (Counters_Bytes (r_NF r)) (Counters_Bytes (r_Zen r));
            iface = interfaceLabel r;
            c = (case map_of (dr_cells d) iface of
                   Some c \<Rightarrow> c
                 | None \<Rightarrow> \<lparr>rx_counts = replicate (length (fl_bounds F) + 1) 0, rx_sum = fl_zero F, rx_total = 0\<rparr>);
            i = bucketOf F ratio
        in d\<lparr>dr_cells := AList.update iface
             \<lparr>rx_counts = (rx_counts c)[i := rx_counts c ! i + 1], rx_sum = fl_add F (rx_sum c) ratio, rx_total = rx_total c + 1\<rparr> (dr_cells d)\<rparr>)"

record 'f HistogramData =
  hd_Count :: u64
  hd_Sum :: 'f
  hd_Buckets :: "('f \<times> u64) list"

fun cumulate :: "u64 \<Rightarrow> 'f list \<Rightarrow> u64 list \<Rightarrow> ('f \<times> u64) list" where
  "cumulate cum (b # bs) (c # cs) = (b, cum + c) # cumulate (cum + c) bs cs"
| "cumulate cum _ _ = []"

definition DeltaRatio_Snapshot :: "'f floatOps \<Rightarrow> 'f DeltaRatio \<Rightarrow> (string, 'f HistogramData) gomap" where
  "DeltaRatio_Snapshot F d =
     map (\<lambda>(iface, c). (iface, \<lparr>hd_Count = rx_total c, hd_Sum = rx_sum c, hd_Buckets = cumulate 0 (fl_bounds F) (rx_counts c)\<rparr>)) (dr_cells d)"

section \<open>Every flow is shipped or counted\<close>

datatype bridgeOp = BrRun | BrUnbind | BrEmit time Record

fun bridgeStep :: "(time \<Rightarrow> string) \<Rightarrow> bridgeOp \<Rightarrow> Bridge \<Rightarrow> Bridge" where
  "bridgeStep rfc3339 BrRun b = Bridge_Run b"
| "bridgeStep rfc3339 BrUnbind b = Unbind b"
| "bridgeStep rfc3339 (BrEmit now r) b = Bridge_Emit rfc3339 now r b"

definition bridgeRun :: "(time \<Rightarrow> string) \<Rightarrow> bridgeOp list \<Rightarrow> Bridge \<Rightarrow> Bridge" where
  "bridgeRun rfc3339 ops b = fold (bridgeStep rfc3339) ops b"

fun isEmit :: "bridgeOp \<Rightarrow> bool" where
  "isEmit (BrEmit now r) = True"
| "isEmit _ = False"

definition bridge_ok :: "Bridge \<Rightarrow> bool" where
  "bridge_ok b \<longleftrightarrow> br_emitted b = of_nat (length (br_out b))"

lemma bridgeStep_counts:
  assumes "br_perFlow b"
  shows "br_perFlow (bridgeStep f op b)"
    "br_emitted (bridgeStep f op b) + br_truncated (bridgeStep f op b) + br_dropped (bridgeStep f op b) =
      br_emitted b + br_truncated b + br_dropped b + (if isEmit op then 1 else 0)"
    "bridge_ok b \<Longrightarrow> bridge_ok (bridgeStep f op b)"
  using assms by (cases op; simp add: Bridge_Run_def Unbind_def Bridge_Emit_def bridge_ok_def Let_def split: option.split prod.split)+

lemma bridgeRun_counts:
  "br_perFlow b \<Longrightarrow> bridge_ok b \<Longrightarrow> br_perFlow (bridgeRun f ops b) \<and> bridge_ok (bridgeRun f ops b) \<and>
   br_emitted (bridgeRun f ops b) + br_truncated (bridgeRun f ops b) + br_dropped (bridgeRun f ops b) =
     br_emitted b + br_truncated b + br_dropped b + of_nat (length (filter isEmit ops))"
proof (induction ops arbitrary: b)
  case (Cons op ops)
  from Cons.IH [OF bridgeStep_counts(1) [OF Cons.prems(1)] bridgeStep_counts(3) [OF Cons.prems]] bridgeStep_counts(2) [OF Cons.prems(1), of f op]
  show ?case by (simp add: bridgeRun_def)
qed (simp add: bridgeRun_def)

text \<open>
  (C36) Every flow handed to the log bridge is shipped, or counted as truncated by the budget, or counted as
  dropped for want of a pipeline: over any binding, unbinding and emission in the per-flow mode the three counters
  add up to the flows, and the emitted counter is the number of records the pipeline got.
\<close>

theorem flow_logs_accounted:
  fixes ops :: "bridgeOp list" and mx :: int and f :: "time \<Rightarrow> string"
  defines "b \<equiv> bridgeRun f ops (Bridge_Configure LogModePerFlow mx NewBridge)"
  shows "br_emitted b + br_truncated b + br_dropped b = of_nat (length (filter isEmit ops)) \<and> br_emitted b = of_nat (length (br_out b))"
proof -
  define b0 where "b0 = Bridge_Configure LogModePerFlow mx NewBridge"
  have "br_perFlow b0" "bridge_ok b0" "br_emitted b0 + br_truncated b0 + br_dropped b0 = 0"
    by (simp_all add: b0_def Bridge_Configure_def NewBridge_def bridge_ok_def)
  then show ?thesis using bridgeRun_counts [of b0 f ops] unfolding b_def b0_def [symmetric] bridge_ok_def by (metis add_0)
qed

section \<open>The budget\<close>

text \<open>A clock that does not go back to an earlier window.\<close>

fun clock_windows :: "int \<Rightarrow> bridgeOp list \<Rightarrow> bool" where
  "clock_windows w [] \<longleftrightarrow> True"
| "clock_windows w (BrEmit now r # ops) \<longleftrightarrow> w \<le> windowOf budgetWindow now \<and> clock_windows (windowOf budgetWindow now) ops"
| "clock_windows w (_ # ops) \<longleftrightarrow> clock_windows w ops"

definition inWindow :: "int \<Rightarrow> Bridge \<Rightarrow> nat" where
  "inWindow w b = length (filter (\<lambda>(t, r). windowOf budgetWindow t = w) (br_out b))"

definition budget_inv :: "int \<Rightarrow> int \<Rightarrow> Bridge \<Rightarrow> bool" where
  "budget_inv mx w b \<longleftrightarrow> (\<exists>bu. br_budget b = Some bu \<and> bu_max bu = mx \<and> bu_window bu = budgetWindow \<and> bu_curWin bu \<le> w \<and>
     int (inWindow (bu_curWin bu) b) \<le> bu_count bu \<and> bu_count bu \<le> mx \<and>
     (\<forall>v. bu_curWin bu < v \<longrightarrow> inWindow v b = 0) \<and> (\<forall>v. int (inWindow v b) \<le> mx))"

lemma inWindow_out [simp]:
  "inWindow v (b\<lparr>br_out := br_out b @ [(t, r)], br_emitted := e, br_budget := bu\<rparr>) = inWindow v b + (if windowOf budgetWindow t = v then 1 else 0)"
  by (simp add: inWindow_def)

lemma inWindow_cong: "br_out b = br_out c \<Longrightarrow> inWindow v b = inWindow v c"
  by (simp add: inWindow_def)

lemma budget_emit:
  assumes "budget_inv mx w b" "0 < mx" "w \<le> windowOf budgetWindow now"
  shows "budget_inv mx (windowOf budgetWindow now) (Bridge_Emit f now r b)"
proof -
  define v where "v = windowOf budgetWindow now"
  obtain bu where bu: "br_budget b = Some bu" "bu_max bu = mx" "bu_window bu = budgetWindow" "bu_curWin bu \<le> w"
    "int (inWindow (bu_curWin bu) b) \<le> bu_count bu" "bu_count bu \<le> mx" "\<forall>v. bu_curWin bu < v \<longrightarrow> inWindow v b = 0" "\<forall>v. int (inWindow v b) \<le> mx"
    using assms(1) unfolding budget_inv_def by blast
  have le: "bu_curWin bu \<le> v" using bu(4) assms(3) by (simp add: v_def)
  define bu1 where "bu1 = (if v \<noteq> bu_curWin bu then bu\<lparr>bu_curWin := v, bu_count := 0\<rparr> else bu)"
  have b1: "bu_max bu1 = mx" "bu_window bu1 = budgetWindow" "bu_curWin bu1 = v" "int (inWindow v b) \<le> bu_count bu1" "bu_count bu1 \<le> mx"
    using bu le assms(2) by (auto simp: bu1_def)
  have later: "\<forall>u. v < u \<longrightarrow> inWindow u b = 0" using bu(7) le by auto
  have allow: "budget_allow now bu = (if mx \<le> bu_count bu1 then (False, bu1) else (True, bu1\<lparr>bu_count := bu_count bu1 + 1\<rparr>))"
    using assms(2) bu(2,3) b1(1) by (simp add: budget_allow_def Let_def v_def [symmetric] bu1_def [symmetric])
  have idle: "budget_inv mx v (b\<lparr>br_budget := Some bu1, br_truncated := t\<rparr>)" "budget_inv mx v (b\<lparr>br_budget := Some bu1\<rparr>)" for t
    using b1 later bu(8) by (auto simp: budget_inv_def inWindow_def)
  have stay: "budget_inv mx v (b\<lparr>br_dropped := t\<rparr>)" "budget_inv mx v b" for t
    using bu le by (auto simp: budget_inv_def inWindow_def)
  have sent: "budget_inv mx v (b\<lparr>br_budget := Some (bu1\<lparr>bu_count := bu_count bu1 + 1\<rparr>), br_out := br_out b @ [(now, x)], br_emitted := e\<rparr>)"
    if "bu_count bu1 < mx" for x e
    using b1 later bu(8) that by (auto simp: budget_inv_def inWindow_def v_def [symmetric])
  show ?thesis unfolding v_def [symmetric]
    using stay idle sent by (auto simp: Bridge_Emit_def Let_def bu(1) allow not_le)
qed

lemma budget_run:
  "budget_inv mx w b \<Longrightarrow> 0 < mx \<Longrightarrow> clock_windows w ops \<Longrightarrow> \<exists>w'. budget_inv mx w' (bridgeRun f ops b)"
proof (induction ops arbitrary: b w)
  case (Cons op ops)
  show ?case
  proof (cases op)
    case (BrEmit now r)
    then show ?thesis using Cons.IH [OF budget_emit [OF Cons.prems(1,2)]] Cons.prems(2,3) by (simp add: bridgeRun_def)
  next
    case BrRun
    have "budget_inv mx w (Bridge_Run b)" using Cons.prems(1) by (simp add: budget_inv_def Bridge_Run_def inWindow_def)
    then show ?thesis using Cons BrRun by (simp add: bridgeRun_def)
  next
    case BrUnbind
    have "budget_inv mx w (Unbind b)" using Cons.prems(1) by (simp add: budget_inv_def Unbind_def inWindow_def)
    then show ?thesis using Cons BrUnbind by (simp add: bridgeRun_def)
  qed
qed (auto simp: bridgeRun_def)

text \<open>Under such a clock no window gets more records than the budget.\<close>

lemma flow_budget_kept:
  assumes "0 < mx" "clock_windows 0 ops"
  shows "int (inWindow w (bridgeRun f ops (Bridge_Configure LogModePerFlow mx NewBridge))) \<le> mx"
proof -
  have "budget_inv mx 0 (Bridge_Configure LogModePerFlow mx NewBridge)"
    using assms(1) by (simp add: budget_inv_def Bridge_Configure_def NewBridge_def inWindow_def)
  from budget_run [OF this assms] show ?thesis by (auto simp: budget_inv_def)
qed

section \<open>No labels, no lost ratios\<close>

text \<open>
  The budget counts from zero again whenever the window differs from the last one seen, also when it is an earlier
  one: emissions whose clocks were read on both sides of a boundary and which reach the budget out of order get
  past it.
\<close>

lemma budget_passed_at_boundary:
  defines "at0 \<equiv> \<lambda>k. unix_epoch + k * 60000000000"
  shows "inWindow 1 (bridgeRun f [BrRun, BrEmit (at0 1) r, BrEmit (at0 2) r, BrEmit (at0 1) r] (Bridge_Configure LogModePerFlow 1 NewBridge)) = 2"
  by (simp add: at0_def inWindow_def bridgeRun_def Bridge_Run_def Bridge_Emit_def Bridge_Configure_def NewBridge_def budget_allow_def
    windowOf_def UnixNano_def unix_epoch_def budgetWindow_def second_ns_def go_div_def Let_def)

lemma setAttrs_None: "k \<notin> fst ` set kvs \<Longrightarrow> map_of (setAttrs kvs) k = None"
  by (induction kvs rule: setAttrs.induct) auto

lemma logTable_keys: "k \<in> set [AttrAction, AttrDeviceCategory, AttrInterface, AttrSubsystem] \<union> set reservedAttributeKeys \<Longrightarrow> k \<notin> fst ` set (logTable r)"
  by (auto simp: logTable_def addressTable_def interfaceTable_def netflowTable_def l7Table_def flow_geoAttrs_def volumeTable_def Let_def
    AttrAction_def AttrDeviceCategory_def AttrInterface_def AttrSubsystem_def reservedAttributeKeys_def attrSource_def attrServiceName_def attrServiceInstanceID_def)

section \<open>Resources and the histogram\<close>

lemma interval_keys:
  "k \<notin> {''flow.start_time'', ''flow.end_time'', ''flow.duration_ms''} \<Longrightarrow> map_of (addIntervalAttributes f r m) k = map_of m k"
  by (simp add: addIntervalAttributes_def Let_def map_of_update_conv)

lemma flowLog_attr:
  assumes "k \<in> set [AttrAction, AttrDeviceCategory, AttrInterface] \<union> set reservedAttributeKeys"
  shows "map_of (addIntervalAttributes f r (AList.update AttrSubsystem flowSubsystem (LogAttributes r))) k = None"
proof -
  have "k \<notin> {''flow.start_time'', ''flow.end_time'', ''flow.duration_ms''}" "k \<noteq> AttrSubsystem"
    using assms by (auto simp: AttrAction_def AttrDeviceCategory_def AttrInterface_def AttrSubsystem_def reservedAttributeKeys_def
      attrSource_def attrServiceName_def attrServiceInstanceID_def)
  moreover have "map_of (LogAttributes r) k = None" unfolding LogAttributes_def
    by (rule setAttrs_None, rule logTable_keys) (use assms in auto)
  ultimately show ?thesis by (simp add: interval_keys map_of_update_conv)
qed

text \<open>
  (C37) A flow log can never widen the set of resources, whatever traffic crosses the firewall: the resource its
  record is shipped under has the record's source and the constant subsystem and no other label, so the flow lane
  has at most as many resources as there are sources.
\<close>

theorem flow_logs_unlabelled:
  "keyOfEntry \<lparr>en_Source = pushSource flowSubsystem (flowLogRecord f r), en_Record = sanitized (flowLogRecord f r), en_Received = now\<rparr> =
   \<lparr>rk_source = Source_String (r_Source r), rk_subsystem = flowSubsystem, rk_action = [], rk_deviceCategory = [], rk_iface = []\<rparr>"
proof -
  let ?m = "addIntervalAttributes f r (AList.update AttrSubsystem flowSubsystem (LogAttributes r))"
  have s: "sanitized (flowLogRecord f r) = flowLogRecord f r"
    using flowLog_attr [of _ f r] by (simp add: sanitized_def sanitizeAttributes_def flowLogRecord_def list_ex_iff)
  have src: "pushSource flowSubsystem (flowLogRecord f r) = Source_String (r_Source r)"
    by (cases "r_Source r") (simp_all add: pushSource_def flowLogRecord_def flowSubsystem_def)
  have sub: "map_of ?m AttrSubsystem = Some flowSubsystem"
    by (simp add: interval_keys map_of_update_conv AttrSubsystem_def)
  show ?thesis unfolding s src
    using flowLog_attr [of AttrAction f r] flowLog_attr [of AttrDeviceCategory f r] flowLog_attr [of AttrInterface f r] sub
    by (simp add: keyOfEntry_def recordAttr_def flowLogRecord_def)
qed

definition comparable :: "Record \<Rightarrow> bool" where
  "comparable r \<longleftrightarrow> c_Present (r_NF r) \<and> c_Present (r_Zen r)"

definition ratio_ok :: "'f floatOps \<Rightarrow> 'f DeltaRatio \<Rightarrow> bool" where
  "ratio_ok F d \<longleftrightarrow> gomap_wf (dr_cells d) \<and>
     (\<forall>i c. map_of (dr_cells d) i = Some c \<longrightarrow> length (rx_counts c) = length (fl_bounds F) + 1 \<and> rx_total c = sum_list (rx_counts c))"

lemma bucketLoop_le: "bucketLoop F x bs i \<le> i + length bs"
proof (induction bs arbitrary: i)
  case (Cons b bs)
  then show ?case using Cons.IH [of "Suc i"] by simp
qed simp

lemma sum_list_bump:
  fixes xs :: "u64 list"
  shows "i < length xs \<Longrightarrow> sum_list (xs[i := xs ! i + 1]) = sum_list xs + 1"
proof (induction xs arbitrary: i)
  case (Cons x xs)
  then show ?case by (cases i) simp_all
qed simp

lemma observe_ratio:
  assumes "ratio_ok F d"
  shows "ratio_ok F (DeltaRatio_Observe F r d) \<and>
    msum (\<lambda>i c. rx_total c) (dr_cells (DeltaRatio_Observe F r d)) + dr_excluded (DeltaRatio_Observe F r d) =
      msum (\<lambda>i c. rx_total c) (dr_cells d) + dr_excluded d + (if comparable r then 1 else 0)"
proof (cases "comparable r \<and> \<not> rp_WindowPartial (r_Repairs r)")
  case False
  then show ?thesis using assms by (auto simp: DeltaRatio_Observe_def comparable_def ratio_ok_def)
next
  case True
  let ?k = "interfaceLabel r" and ?x = "ratioOf F (Counters_Bytes (r_NF r)) (Counters_Bytes (r_Zen r))"
  define c where "c = (case map_of (dr_cells d) ?k of Some c \<Rightarrow> c
      | None \<Rightarrow> \<lparr>rx_counts = replicate (length (fl_bounds F) + 1) 0, rx_sum = fl_zero F, rx_total = 0\<rparr>)"
  define c' where "c' = \<lparr>rx_counts = (rx_counts c)[bucketOf F ?x := rx_counts c ! bucketOf F ?x + 1], rx_sum = fl_add F (rx_sum c) ?x, rx_total = rx_total c + 1\<rparr>"
  have obs: "DeltaRatio_Observe F r d = d\<lparr>dr_cells := AList.update ?k c' (dr_cells d)\<rparr>"
    using True by (simp add: DeltaRatio_Observe_def comparable_def Let_def c_def c'_def)
  have c: "length (rx_counts c) = length (fl_bounds F) + 1" "rx_total c = sum_list (rx_counts c)"
    using assms by (auto simp: c_def ratio_ok_def sum_list_replicate split: option.split)
  have i: "bucketOf F ?x < length (rx_counts c)" using bucketLoop_le [of F ?x "fl_bounds F" 0] c(1) by (simp add: bucketOf_def)
  have "ratio_ok F (DeltaRatio_Observe F r d)"
    using assms c sum_list_bump [OF i] unfolding obs by (auto simp: ratio_ok_def map_of_update_conv c'_def)
  moreover have "msum (\<lambda>i c. rx_total c) (AList.update ?k c' (dr_cells d)) = msum (\<lambda>i c. rx_total c) (dr_cells d) + 1"
  proof (cases "map_of (dr_cells d) ?k")
    case None
    then show ?thesis by (simp add: msum_update_new c'_def c_def)
  next
    case (Some x)
    then show ?thesis using assms msum_update_old [of "dr_cells d" ?k x "\<lambda>i c. rx_total c" c'] by (simp add: ratio_ok_def c'_def c_def)
  qed
  ultimately show ?thesis using True unfolding obs by simp
qed

lemma cumulate_prefix:
  "length cs = length bs + 1 \<Longrightarrow> map snd (cumulate cum bs cs) = map (\<lambda>n. cum + sum_list (take (Suc n) cs)) [0..<length bs]"
proof (induction cum bs cs rule: cumulate.induct)
  case (1 cum b bs c cs)
  then show ?case by (simp add: upt_conv_Cons map_Suc_upt [symmetric] comp_def add.assoc del: upt_Suc)
qed auto

lemma fold_ratio:
  "ratio_ok F d \<Longrightarrow> ratio_ok F (fold (DeltaRatio_Observe F) rs d) \<and>
   msum (\<lambda>i c. rx_total c) (dr_cells (fold (DeltaRatio_Observe F) rs d)) + dr_excluded (fold (DeltaRatio_Observe F) rs d) =
     msum (\<lambda>i c. rx_total c) (dr_cells d) + dr_excluded d + of_nat (length (filter comparable rs))"
proof (induction rs arbitrary: d)
  case (Cons r rs)
  from Cons.IH [of "DeltaRatio_Observe F r d"] observe_ratio [OF Cons.prems, of r] show ?case by simp
qed simp

text \<open>
  The disagreement histogram loses nothing: whatever floating-point division does, the observations of all
  interfaces and the records excluded as not comparable add up to the records that carry both sources' counters, and
  the buckets of an interface are the running sums of counts that add up to its count, the rest being beyond the last
  bound.
\<close>

theorem delta_ratio_accounts:
  fixes F :: "'f floatOps" and rs :: "Record list"
  defines "d \<equiv> fold (DeltaRatio_Observe F) rs NewDeltaRatio"
  shows "msum (\<lambda>i h. hd_Count h) (DeltaRatio_Snapshot F d) + dr_excluded d = of_nat (length (filter comparable rs)) \<and>
    list_all (\<lambda>(i, h). \<exists>counts. hd_Count h = sum_list counts \<and> length counts = length (fl_bounds F) + 1 \<and>
      map snd (hd_Buckets h) = map (\<lambda>n. sum_list (take (Suc n) counts)) [0..<length (fl_bounds F)]) (DeltaRatio_Snapshot F d)"
proof -
  have "ratio_ok F (NewDeltaRatio :: 'f DeltaRatio)" by (simp add: ratio_ok_def NewDeltaRatio_def)
  from fold_ratio [OF this, of rs] have d: "ratio_ok F d"
    "msum (\<lambda>i c. rx_total c) (dr_cells d) + dr_excluded d = of_nat (length (filter comparable rs))"
    by (simp_all add: d_def NewDeltaRatio_def)
  have "msum (\<lambda>i h. hd_Count h) (DeltaRatio_Snapshot F d) = msum (\<lambda>i c. rx_total c) (dr_cells d)"
    by (simp add: DeltaRatio_Snapshot_def msum_def comp_def case_prod_unfold)
  moreover have "\<exists>counts. rx_total c = sum_list counts \<and> length counts = length (fl_bounds F) + 1 \<and>
      map snd (cumulate 0 (fl_bounds F) (rx_counts c)) = map (\<lambda>n. sum_list (take (Suc n) counts)) [0..<length (fl_bounds F)]"
    if "(i, c) \<in> set (dr_cells d)" for i c
  proof -
    have "map_of (dr_cells d) i = Some c" using that d(1) by (simp add: ratio_ok_def gomap_wf_def)
    then have "length (rx_counts c) = length (fl_bounds F) + 1" "rx_total c = sum_list (rx_counts c)" using d(1) by (auto simp: ratio_ok_def)
    then show ?thesis using cumulate_prefix [of "rx_counts c" "fl_bounds F" 0] by (intro exI [of _ "rx_counts c"]) simp
  qed
  ultimately show ?thesis using d(2) by (auto simp: DeltaRatio_Snapshot_def list_all_iff)
qed

end
