(* ===== verification/Annotations.thy ===== *)
theory Annotations
  imports SyslogDispatch Accumulator
begin

text \<open>
  The annotation writer (\<^verbatim>\<open>internal/annotations\<close>): a catalogue of metrics whose value is an instant
  (\<^verbatim>\<open>catalog.go\<close>), a watcher that gathers them, proposes an event for every instant it has not seen and
  posts it to Grafana (\<^verbatim>\<open>watcher.go\<close>), and the interpretation of Grafana's refusals (\<^verbatim>\<open>writer.go\<close>).

  A metric value is a \<^verbatim>\<open>float64\<close>; the four operations the code applies to it are the record \<open>valueOps\<close>,
  over which everything is generic. \<open>vo_positive\<close> is that the test \<^verbatim>\<open>value <= 0\<close> fails. Instants are range-checked before they are put in milliseconds, so
  \<^verbatim>\<open>UnixMilli\<close> does not wrap on them. The answers to the posts of a cycle are a function of the attempt's
  number. Log lines are left out. The order of two events of one kind and instant is left open by
  \<^verbatim>\<open>sort.Slice\<close> and by the iteration over a map; the theorems do not depend on it.
\<close>

section \<open>The catalogue\<close>

record Watch =
  wa_Metric :: string
  wa_Kind :: string
  wa_Text :: string
  wa_LabelKeys :: "string list"
  wa_DefaultOff :: bool
  wa_UptimeOffsetOf :: string
  wa_Coalesce :: bool

definition plainWatch :: "string \<Rightarrow> string \<Rightarrow> string \<Rightarrow> string list \<Rightarrow> Watch" where
  "plainWatch metric kind txt keys = \<lparr>wa_Metric = metric, wa_Kind = kind, wa_Text = txt, wa_LabelKeys = keys,
     wa_DefaultOff = False, wa_UptimeOffsetOf = [], wa_Coalesce = False\<rparr>"

definition BootMetric :: string where
  "BootMetric = ''opnsense_system_boot_timestamp_seconds''"

definition Watches :: "Watch list" where
  "Watches =
    [plainWatch BootMetric ''reboot'' ''OPNsense rebooted'' [],
     plainWatch ''opnsense_system_config_last_change_timestamp_seconds'' ''config-change'' ''OPNsense configuration changed'' [],
     (plainWatch ''opnsense_interfaces_attach_or_statistics_reset_uptime_seconds'' ''interface-reset''
        ''Interface %s attached or its counters were reset'' [''interface''])\<lparr>wa_UptimeOffsetOf := BootMetric\<rparr>,
     plainWatch ''opnsense_firewall_pf_counters_cleared_timestamp_seconds'' ''pf-counter-reset''
        ''pf counters cleared on %s (pfctl -z)'' [''interface''],
     plainWatch ''opnsense_snapshots_active_created_timestamp_seconds'' ''upgrade'' ''Boot environment created (OPNsense upgrade)'' [],
     plainWatch ''opnsense_acme_certificate_last_update_timestamp_seconds'' ''certificate-renewal''
        ''ACME certificate %s issued or renewed'' [''name''],
     plainWatch ''opnsense_firewall_geoip_last_update_timestamp_seconds'' ''geoip-update'' ''GeoIP database updated'' [],
     plainWatch ''opnsense_nginx_config_load_timestamp_seconds'' ''nginx-reload'' ''nginx configuration reloaded'' [],
     plainWatch ''opnsense_dyndns_account_last_update_timestamp_seconds'' ''public-ip-change''
        ''DynDNS updated the public address via %s'' [''service''],
     (plainWatch ''opnsense_ids_ruleset_last_updated_timestamp_seconds'' ''ids-ruleset-update''
        ''IDS rulesets updated (%d file%s)'' [''ruleset''])\<lparr>wa_Coalesce := True\<rparr>,
     (plainWatch ''opnsense_qfeeds_feed_last_update_timestamp_seconds'' ''threat-feed-update''
        ''Threat feed %s updated'' [''feed''])\<lparr>wa_DefaultOff := True\<rparr>]"

definition KnownKinds :: "string list" where
  "KnownKinds = map wa_Kind Watches"

definition DefaultOffKinds :: "string list" where
  "DefaultOffKinds = map wa_Kind (filter wa_DefaultOff Watches)"

definition DefaultKinds :: "string list" where
  "DefaultKinds = map wa_Kind (filter (\<lambda>w. \<not> wa_DefaultOff w) Watches)"

definition enabledKindSet :: "string list \<Rightarrow> (string, bool) gomap" where
  "enabledKindSet configured =
     fold (\<lambda>k. AList.update k True) (if configured = [] then DefaultKinds else configured) []"

definition BaseTag :: string where
  "BaseTag = ''opnsense2otel''"

section \<open>Keys and tags\<close>

definition instanceLabel :: string where
  "instanceLabel = ''opnsense_instance''"

definition dedupeKey :: "string \<Rightarrow> string \<Rightarrow> string list \<Rightarrow> int \<Rightarrow> string" where
  "dedupeKey kind inst detail atMillis =
     join_with ''|'' [kind, inst, join_with [CHR 0x1F] detail, FormatInt atMillis]"

definition decodeTag :: "string \<Rightarrow> string \<times> string \<times> string list \<Rightarrow> string \<times> string \<times> string list" where
  "decodeTag tag d =
     (case d of (kind, inst, detail) \<Rightarrow>
        if tag = BaseTag then d
        else if hasPrefix tag ''instance:'' then (kind, drop 9 tag, detail)
        else if CHR '':'' \<in> set tag then (kind, inst, detail @ [tl (dropWhile (\<lambda>c. c \<noteq> CHR '':'') tag)])
        else if kind = [] then (tag, inst, detail)
        else d)"

definition decodeTags :: "string list \<Rightarrow> string \<times> string \<times> string list" where
  "decodeTags ts = (case fold decodeTag ts ([], [], []) of (kind, inst, detail) \<Rightarrow> (kind, inst, sort detail))"

fun detailTags :: "string list \<Rightarrow> string list \<Rightarrow> string list" where
  "detailTags (key # keys) (v # detail) = (if v \<noteq> [] then (key @ '':'' @ v) # detailTags keys detail else detailTags keys detail)"
| "detailTags _ _ = []"

definition watcherTags :: "string list \<Rightarrow> Watch \<Rightarrow> string \<Rightarrow> string list \<Rightarrow> string list" where
  "watcherTags extra wa inst detail =
     [BaseTag, wa_Kind wa] @ (if inst \<noteq> [] then [''instance:'' @ inst] else []) @ detailTags (wa_LabelKeys wa) detail @ extra"

text \<open>\<^verbatim>\<open>fmt.Sprintf\<close> of the catalogue's texts, whose verbs are \<^verbatim>\<open>%s\<close> and \<^verbatim>\<open>%d\<close>.\<close>

fun fmtText :: "string \<Rightarrow> string list \<Rightarrow> string" where
  "fmtText [] args = []"
| "fmtText [c] args = [c]"
| "fmtText (c # v # cs) args =
     (if c = CHR ''%'' \<and> (v = CHR ''s'' \<or> v = CHR ''d'')
      then (case args of a # args' \<Rightarrow> a @ fmtText cs args' | [] \<Rightarrow> ''%!'' @ [v] @ ''(MISSING)'' @ fmtText cs [])
      else c # fmtText (v # cs) args)"

definition eventText :: "Watch \<Rightarrow> string list \<Rightarrow> string" where
  "eventText wa detail = (if detail = [] then wa_Text wa else fmtText (wa_Text wa) detail)"

definition coalescedText :: "Watch \<Rightarrow> nat \<Rightarrow> string" where
  "coalescedText wa n = fmtText (wa_Text wa) [itoa n, if n = 1 then [] else ''s'']"

section \<open>Reading the registry\<close>

record 'f valueOps =
  vo_zero :: 'f
  vo_positive :: "'f \<Rightarrow> bool"
  vo_add :: "'f \<Rightarrow> 'f \<Rightarrow> 'f"
  vo_int64 :: "'f \<Rightarrow> int"

record 'f Metric =
  mt_Label :: "(string \<times> string) list"
  mt_Gauge :: "'f option"
  mt_Untyped :: "'f option"

record 'f MetricFamily =
  mf_Name :: string
  mf_Metric :: "'f Metric list"

definition labelMap :: "'f Metric \<Rightarrow> (string, string) gomap" where
  "labelMap m = fold (\<lambda>(k, v). AList.update k v) (mt_Label m) []"

definition labelAt :: "(string, string) gomap \<Rightarrow> string \<Rightarrow> string" where
  "labelAt ls k = (case map_of ls k of Some v \<Rightarrow> v | None \<Rightarrow> [])"

definition metricValue :: "'f valueOps \<Rightarrow> 'f Metric \<Rightarrow> 'f" where
  "metricValue F m = (case mt_Gauge m of Some v \<Rightarrow> v | None \<Rightarrow> (case mt_Untyped m of Some v \<Rightarrow> v | None \<Rightarrow> vo_zero F))"

definition instanceOf :: "'f Metric \<Rightarrow> string" where
  "instanceOf m = labelAt (labelMap m) instanceLabel"

definition instantsByInstance :: "'f valueOps \<Rightarrow> 'f MetricFamily option \<Rightarrow> (string, 'f) gomap" where
  "instantsByInstance F fam =
     (case fam of
        None \<Rightarrow> []
      | Some f \<Rightarrow> fold (\<lambda>m. AList.update (instanceOf m) (metricValue F m)) (filter (\<lambda>m. vo_positive F (metricValue F m)) (mf_Metric f)) [])"

definition detailValues :: "Watch \<Rightarrow> 'f Metric \<Rightarrow> string list" where
  "detailValues wa m = map (labelAt (labelMap m)) (wa_LabelKeys wa)"

text \<open>The method \<^verbatim>\<open>Time.UnixMilli\<close>; the function of that name is \<open>UnixMilli\<close>.\<close>

definition toMillis :: "time \<Rightarrow> int" where
  "toMillis t = (t - unix_epoch) div 1000000"

section \<open>The watcher\<close>

record Event =
  ev_Kind :: string
  ev_Text :: string
  ev_At :: time
  ev_Tags :: "string list"

record AnnConfig =
  an_Lookback :: duration
  an_ExtraTags :: "string list"
  an_Kinds :: "string list"
  an_MaxPerCycle :: int

text \<open>The self-metrics are kept with the watcher; a counter is the number of its increments.\<close>

record Watcher =
  wt_cfg :: AnnConfig
  wt_enabledKinds :: "(string, bool) gomap"
  wt_seen :: "(string, int) gomap"
  wt_reconciled :: bool
  wt_seeded :: bool
  wt_backoffUntil :: time
  wt_backoffStreak :: nat
  wt_posted :: nat
  wt_failed :: nat
  wt_rateLimited :: nat
  wt_undeliverable :: nat
  wt_skipped :: int
  wt_lastSuccess :: time

definition NewWatcher :: "AnnConfig \<Rightarrow> Watcher" where
  "NewWatcher cfg = \<lparr>wt_cfg = cfg, wt_enabledKinds = enabledKindSet (an_Kinds cfg), wt_seen = [], wt_reconciled = False,
     wt_seeded = False, wt_backoffUntil = 0, wt_backoffStreak = 0, wt_posted = 0, wt_failed = 0, wt_rateLimited = 0,
     wt_undeliverable = 0, wt_skipped = 0, wt_lastSuccess = 0\<rparr>"

definition futureTolerance :: duration where
  "futureTolerance = 5 * 60 * second_ns"

definition isSeen :: "Watcher \<Rightarrow> string \<Rightarrow> bool" where
  "isSeen w key \<longleftrightarrow> map_of (wt_seen w) key \<noteq> None"

text \<open>Grafana's list of annotations, or that it could not be read.\<close>

record existingAnnotation =
  ea_Time :: int
  ea_Tags :: "string list"

definition seenExisting :: "existingAnnotation \<Rightarrow> (string, int) gomap \<Rightarrow> (string, int) gomap" where
  "seenExisting a sn =
     (case decodeTags (ea_Tags a) of (kind, inst, detail) \<Rightarrow>
        if kind = [] then sn else AList.update (dedupeKey kind inst detail (ea_Time a)) (ea_Time a) sn)"

definition reconcile :: "existingAnnotation list option \<Rightarrow> Watcher \<Rightarrow> Watcher" where
  "reconcile found w =
     (case found of
        None \<Rightarrow> w
      | Some as \<Rightarrow> w\<lparr>wt_seen := fold seenExisting as (wt_seen w), wt_reconciled := True\<rparr>)"

definition markSeen :: "Event \<Rightarrow> Watcher \<Rightarrow> Watcher" where
  "markSeen e w =
     (case decodeTags (ev_Tags e) of (kind, inst, detail) \<Rightarrow>
        w\<lparr>wt_seen := AList.update (dedupeKey kind inst detail (toMillis (ev_At e))) (toMillis (ev_At e)) (wt_seen w)\<rparr>)"

definition prune :: "time \<Rightarrow> Watcher \<Rightarrow> Watcher" where
  "prune now w =
     w\<lparr>wt_seen := filter (\<lambda>(key, at). \<not> at < toMillis (now - an_Lookback (wt_cfg w))) (wt_seen w)\<rparr>"

section \<open>Detection\<close>

text \<open>The instant of a series: positive, anchored at the boot epoch where the watch says so, and inside the window.\<close>

definition seriesInstant ::
  "'f valueOps \<Rightarrow> Watch \<Rightarrow> (string, 'f) gomap \<Rightarrow> time \<Rightarrow> time \<Rightarrow> 'f Metric \<Rightarrow> time option" where
  "seriesInstant F wa offsets oldest newest m =
     (let value = metricValue F m in
      if \<not> vo_positive F value then None
      else case (if wa_UptimeOffsetOf wa = [] then Some value else map_option (vo_add F value) (map_of offsets (instanceOf m))) of
        None \<Rightarrow> None
      | Some v \<Rightarrow> (let at = time_Unix (vo_int64 F v) 0 in if at < oldest \<or> newest < at then None else Some at))"

definition seriesEvent ::
  "'f valueOps \<Rightarrow> Watcher \<Rightarrow> Watch \<Rightarrow> (string, 'f) gomap \<Rightarrow> time \<Rightarrow> time \<Rightarrow> 'f Metric \<Rightarrow> Event option" where
  "seriesEvent F w wa offsets oldest newest m =
     (case seriesInstant F wa offsets oldest newest m of
        None \<Rightarrow> None
      | Some at \<Rightarrow>
         (if isSeen w (dedupeKey (wa_Kind wa) (instanceOf m) (detailValues wa m) (toMillis at)) then None
          else Some \<lparr>ev_Kind = wa_Kind wa, ev_Text = eventText wa (detailValues wa m), ev_At = at,
            ev_Tags = watcherTags (an_ExtraTags (wt_cfg w)) wa (instanceOf m) (detailValues wa m)\<rparr>))"

definition countInstants :: "time list \<Rightarrow> (int, nat) gomap" where
  "countInstants ats =
     fold (\<lambda>at c. AList.update (toMillis at) (Suc (case map_of c (toMillis at) of Some n \<Rightarrow> n | None \<Rightarrow> 0)) c) ats []"

definition coalescedEvents :: "Watcher \<Rightarrow> Watch \<Rightarrow> time list \<Rightarrow> Event list" where
  "coalescedEvents w wa ats =
     map (\<lambda>(ms, n). \<lparr>ev_Kind = wa_Kind wa, ev_Text = coalescedText wa n, ev_At = UnixMilli ms,
         ev_Tags = watcherTags (an_ExtraTags (wt_cfg w)) wa [] []\<rparr>)
       (filter (\<lambda>(ms, n). \<not> isSeen w (dedupeKey (wa_Kind wa) [] [] ms)) (countInstants ats))"

definition enabled :: "Watcher \<Rightarrow> string \<Rightarrow> bool" where
  "enabled w kind \<longleftrightarrow> map_of (wt_enabledKinds w) kind = Some True"

text \<open>The families by name: of two with one name the later one counts.\<close>

definition byName :: "'f MetricFamily list \<Rightarrow> (string, 'f MetricFamily) gomap" where
  "byName fams = fold (\<lambda>f. AList.update (mf_Name f) f) fams []"

definition watchEvents :: "'f valueOps \<Rightarrow> Watcher \<Rightarrow> (string, 'f MetricFamily) gomap \<Rightarrow> time \<Rightarrow> Watch \<Rightarrow> Event list" where
  "watchEvents F w fams now wa =
     (let oldest = now - an_Lookback (wt_cfg w); newest = now + futureTolerance in
      if \<not> enabled w (wa_Kind wa) then []
      else case map_of fams (wa_Metric wa) of
        None \<Rightarrow> []
      | Some fam \<Rightarrow>
         (let offsets = (if wa_UptimeOffsetOf wa = [] then [] else instantsByInstance F (map_of fams (wa_UptimeOffsetOf wa))) in
          if wa_UptimeOffsetOf wa \<noteq> [] \<and> offsets = [] then []
          else if wa_Coalesce wa then coalescedEvents w wa (List.map_filter (seriesInstant F wa offsets oldest newest) (mf_Metric fam))
          else List.map_filter (seriesEvent F w wa offsets oldest newest) (mf_Metric fam)))"

definition eventLess :: "Event \<Rightarrow> Event \<Rightarrow> bool" where
  "eventLess a b \<longleftrightarrow> (if ev_At a \<noteq> ev_At b then ev_At a < ev_At b else ev_Kind a < ev_Kind b)"

text \<open>A gather may fail and still bring families; only one that brings none is an error.\<close>

definition detect :: "'f valueOps \<Rightarrow> bool \<times> 'f MetricFamily list \<Rightarrow> time \<Rightarrow> Watcher \<Rightarrow> Event list option" where
  "detect F gathered now w =
     (case gathered of (failed, fams) \<Rightarrow>
        if failed \<and> fams = [] then None
        else Some (sort_Slice eventLess (concat (map (watchEvents F w (byName fams) now) Watches))))"

section \<open>Posting and backing off\<close>

text \<open>What a post comes back with: a success at a time, an answer outside 2xx with its \<^verbatim>\<open>RetryAfter\<close>, or no answer.\<close>

datatype postAnswer = PostOK time | PostRejected int duration | PostUnreachable

definition httpError_permanent :: "int \<Rightarrow> bool" where
  "httpError_permanent status \<longleftrightarrow> 400 \<le> status \<and> status < 500 \<and> status \<noteq> 429 \<and> status \<noteq> 408"

definition backoffBase :: duration where
  "backoffBase = 30 * second_ns"

definition backoffCeiling :: duration where
  "backoffCeiling = 15 * 60 * second_ns"

definition maxBackoffStreak :: nat where
  "maxBackoffStreak = 6"

text \<open>The product of the seconds and \<^verbatim>\<open>time.Second\<close> is taken in 64 bits.\<close>

definition clampBackoff :: "duration \<Rightarrow> duration" where
  "clampBackoff d = (if d \<le> 0 then 1 else if backoffCeiling < d then backoffCeiling else d)"

definition parseRetryAfter :: "(string \<Rightarrow> time option) \<Rightarrow> string \<Rightarrow> time \<Rightarrow> duration" where
  "parseRetryAfter parseTime header now =
     (let h = TrimSpace header in
      if h = [] then 0
      else case Atoi h of
        Some secs \<Rightarrow> clampBackoff (sint (word_of_int (secs * second_ns) :: 64 word))
      | None \<Rightarrow> (case parseTime h of Some t \<Rightarrow> clampBackoff (time_Sub t now) | None \<Rightarrow> 0))"

text \<open>
  A fifth of the wait on both sides; the waits this is applied to are whole seconds, on which the
  floating-point product with 0.2 is exact. \<open>rnd\<close> is the generator's raw value.
\<close>

definition jitter :: "int \<Rightarrow> duration \<Rightarrow> duration" where
  "jitter rnd delay = (let spread = delay div 5 in if spread \<le> 0 then delay else delay - spread + rnd mod (2 * spread + 1))"

definition armBackoff :: "int \<Rightarrow> duration \<Rightarrow> time \<Rightarrow> Watcher \<Rightarrow> Watcher" where
  "armBackoff rnd retryAfter now w =
     (let streak = (if wt_backoffStreak w < maxBackoffStreak then Suc (wt_backoffStreak w) else wt_backoffStreak w);
          delay = (if 0 < retryAfter then retryAfter
                   else jitter rnd (min backoffCeiling (backoffBase * 2 ^ (streak - 1))))
      in w\<lparr>wt_backoffStreak := streak, wt_backoffUntil := now + delay\<rparr>)"

definition postedEvent :: "Event \<Rightarrow> time \<Rightarrow> Watcher \<Rightarrow> Watcher" where
  "postedEvent e t w =
     (markSeen e w)\<lparr>wt_posted := Suc (wt_posted w), wt_lastSuccess := t, wt_backoffStreak := 0, wt_backoffUntil := 0\<rparr>"

text \<open>One answer settled: only a write and a permanent refusal mark the event as seen.\<close>

definition afterPost :: "Event \<Rightarrow> postAnswer \<Rightarrow> Watcher \<Rightarrow> Watcher" where
  "afterPost e a w =
     (case a of
        PostOK t \<Rightarrow> postedEvent e t w
      | PostRejected status ra \<Rightarrow>
          (let w1 = w\<lparr>wt_failed := Suc (wt_failed w)\<rparr> in
           if status = 429 then w1\<lparr>wt_rateLimited := Suc (wt_rateLimited w)\<rparr>
           else if httpError_permanent status then markSeen e (w1\<lparr>wt_undeliverable := Suc (wt_undeliverable w)\<rparr>)
           else w1)
      | PostUnreachable \<Rightarrow> w\<lparr>wt_failed := Suc (wt_failed w)\<rparr>)"

fun isLimited :: "postAnswer \<Rightarrow> bool" where
  "isLimited (PostRejected status ra) \<longleftrightarrow> status = 429"
| "isLimited (PostOK t) \<longleftrightarrow> False"
| "isLimited PostUnreachable \<longleftrightarrow> False"

fun firstWait :: "postAnswer \<Rightarrow> duration \<Rightarrow> duration" where
  "firstWait (PostRejected status ra) wait = (if status = 429 \<and> wait = 0 then ra else wait)"
| "firstWait (PostOK t) wait = wait"
| "firstWait PostUnreachable wait = wait"

text \<open>
  The loop over the events of a cycle: attempts so far, rate-limited answers and the first wait stated; it returns
  the watcher, the last two, and the events tried with their answers.
\<close>

fun postLoop ::
  "(nat \<Rightarrow> postAnswer) \<Rightarrow> nat \<Rightarrow> nat \<Rightarrow> duration \<Rightarrow> Watcher \<Rightarrow> Event list \<Rightarrow>
   Watcher \<times> nat \<times> duration \<times> (Event \<times> postAnswer) list" where
  "postLoop answers n limited wait w [] = (w, limited, wait, [])"
| "postLoop answers n limited wait w (e # es) =
     (if an_MaxPerCycle (wt_cfg w) \<le> int n then (w\<lparr>wt_skipped := wt_skipped w + int (Suc (length es))\<rparr>, limited, wait, [])
      else let a = answers n in
        case postLoop answers (Suc n) (if isLimited a then Suc limited else limited) (firstWait a wait) (afterPost e a w) es of
          (w', limited', wait', out) \<Rightarrow> (w', limited', wait', (e, a) # out))"

text \<open>One cycle with everything it reads: the clock at its start, in \<open>detect\<close> and when the backoff is armed.\<close>

record 'f cycle =
  cy_now :: time
  cy_detect :: time
  cy_arm :: time
  cy_gathered :: "bool \<times> 'f MetricFamily list"
  cy_answers :: "nat \<Rightarrow> postAnswer"
  cy_rnd :: int

definition tick :: "'f valueOps \<Rightarrow> 'f cycle \<Rightarrow> Watcher \<Rightarrow> Watcher \<times> (Event \<times> postAnswer) list" where
  "tick F c w0 =
     (let w = prune (cy_now c) w0 in
      if cy_now c < wt_backoffUntil w then (w, [])
      else case detect F (cy_gathered c) (cy_detect c) w of
        None \<Rightarrow> (w, [])
      | Some events \<Rightarrow>
         (if \<not> wt_seeded w \<and> \<not> wt_reconciled w then (w\<lparr>wt_seeded := True\<rparr>, [])
          else case postLoop (cy_answers c) 0 0 0 (w\<lparr>wt_seeded := True\<rparr>) events of
            (w', limited, wait, out) \<Rightarrow> (if 0 < limited then armBackoff (cy_rnd c) wait (cy_arm c) w' else w', out)))"

section \<open>Tags are read back\<close>

definition eventKey :: "Event \<Rightarrow> string" where
  "eventKey e = (case decodeTags (ev_Tags e) of (kind, inst, detail) \<Rightarrow> dedupeKey kind inst detail (toMillis (ev_At e)))"

definition isPlain :: "string \<Rightarrow> bool" where
  "isPlain t \<longleftrightarrow> t \<noteq> BaseTag \<and> CHR '':'' \<notin> set t"

definition isInst :: "string \<Rightarrow> bool" where
  "isInst t \<longleftrightarrow> hasPrefix t ''instance:''"

definition isDetail :: "string \<Rightarrow> bool" where
  "isDetail t \<longleftrightarrow> \<not> isInst t \<and> CHR '':'' \<in> set t"

lemma BaseTag_plain: "CHR '':'' \<notin> set BaseTag" "\<not> isInst BaseTag" "\<not> isDetail BaseTag" "\<not> isPlain BaseTag"
  by (simp_all add: BaseTag_def isInst_def hasPrefix_def isDetail_def isPlain_def)

lemma isInst_colon: "isInst t \<Longrightarrow> CHR '':'' \<in> set t"
proof -
  assume "isInst t"
  then have "take 9 t = ''instance:''" by (simp add: isInst_def hasPrefix_def eval_nat_numeral)
  then have "CHR '':'' \<in> set (take 9 t)" by simp
  then show "CHR '':'' \<in> set t" by (rule in_set_takeD)
qed

text \<open>Each part of a decoded tag list is a filter of the list.\<close>

lemma fold_decodeTag:
  "fold decodeTag ts (k, i, d) =
     (hd (filter (\<lambda>t. t \<noteq> []) (k # filter isPlain ts) @ [[]]), last (i # map (drop 9) (filter isInst ts)),
      d @ map (\<lambda>t. tl (dropWhile (\<lambda>c. c \<noteq> CHR '':'') t)) (filter isDetail ts))"
proof (induction ts arbitrary: k i d)
  case (Cons t ts)
  consider "t = BaseTag" | "t \<noteq> BaseTag" "isInst t" | "isDetail t" "\<not> isInst t" "t \<noteq> BaseTag" | "isPlain t" "\<not> isInst t" "\<not> isDetail t" "t \<noteq> BaseTag"
    using BaseTag_plain isInst_colon by (auto simp: isPlain_def isDetail_def)
  then show ?case
  proof cases
    case 1
    then show ?thesis using Cons.IH by (simp add: decodeTag_def BaseTag_plain)
  next
    case 2
    then show ?thesis using Cons.IH isInst_colon [of t] by (simp add: decodeTag_def isDetail_def isPlain_def isInst_def [symmetric])
  next
    case 3
    then show ?thesis using Cons.IH by (auto simp add: decodeTag_def isDetail_def isPlain_def isInst_def [symmetric])
  next
    case 4
    then show ?thesis using Cons.IH by (auto simp add: decodeTag_def isDetail_def isPlain_def isInst_def [symmetric])
  qed
qed simp

definition plainTags :: "string list \<Rightarrow> bool" where
  "plainTags ts \<longleftrightarrow> list_all (\<lambda>t. CHR '':'' \<notin> set t) ts"

text \<open>What the catalogue promises of every watch.\<close>

definition watch_ok :: "Watch \<Rightarrow> bool" where
  "watch_ok wa \<longleftrightarrow> wa_Kind wa \<noteq> [] \<and> isPlain (wa_Kind wa) \<and> length (wa_LabelKeys wa) \<le> 1 \<and>
     list_all (\<lambda>k. CHR '':'' \<notin> set k \<and> k \<noteq> ''instance'') (wa_LabelKeys wa)"

lemma Watches_ok: "\<forall>wa\<in>set Watches. watch_ok wa"
  by (simp add: Watches_def plainWatch_def watch_ok_def isPlain_def BaseTag_def)

lemma Watches_kinds: "distinct (map wa_Kind Watches)"
  by (simp add: Watches_def plainWatch_def)

lemma inst_tag: "isInst (''instance:'' @ i)" "\<not> isPlain (''instance:'' @ i)" "\<not> isDetail (''instance:'' @ i)" "drop 9 (''instance:'' @ i) = i"
  by (simp_all add: isInst_def hasPrefix_def isPlain_def isDetail_def eval_nat_numeral)

lemma key_colon_eq: "CHR '':'' \<notin> set k \<Longrightarrow> CHR '':'' \<notin> set k' \<Longrightarrow> k @ CHR '':'' # v = k' @ CHR '':'' # v' \<longleftrightarrow> k = k' \<and> v = v'"
proof (induction k arbitrary: k')
  case Nil
  then show ?case by (cases k') auto
next
  case (Cons c k)
  then show ?case by (cases k') auto
qed

lemma detail_tag:
  assumes "CHR '':'' \<notin> set k" "k \<noteq> ''instance''"
  shows "isDetail (k @ '':'' @ v)" "\<not> isInst (k @ '':'' @ v)" "\<not> isPlain (k @ '':'' @ v)"
    "tl (dropWhile (\<lambda>c. c \<noteq> CHR '':'') (k @ '':'' @ v)) = v"
proof -
  show i: "\<not> isInst (k @ '':'' @ v)"
  proof
    assume "isInst (k @ '':'' @ v)"
    then have "take 9 (k @ '':'' @ v) = ''instance:''" by (simp add: isInst_def hasPrefix_def eval_nat_numeral)
    then have "k @ '':'' @ v = ''instance:'' @ drop 9 (k @ '':'' @ v)" using append_take_drop_id [of 9 "k @ '':'' @ v"] by argo
    then have "k @ CHR '':'' # v = ''instance'' @ CHR '':'' # drop 9 (k @ '':'' @ v)" by simp
    then show False using key_colon_eq [of k "''instance''"] assms by simp
  qed
  show "isDetail (k @ '':'' @ v)" using i by (simp add: isDetail_def)
  show "\<not> isPlain (k @ '':'' @ v)" by (simp add: isPlain_def)
  have "dropWhile (\<lambda>c. c \<noteq> CHR '':'') (k @ '':'' @ v) = '':'' @ v" using assms(1) by (subst dropWhile_append2) auto
  then show "tl (dropWhile (\<lambda>c. c \<noteq> CHR '':'') (k @ '':'' @ v)) = v" by simp
qed


text \<open>The shape of an event's tags: the detail is at most one value, and an empty value leaves no tag.\<close>

lemma tags_parts:
  assumes "watch_ok wa" "length detail = length (wa_LabelKeys wa) \<or> detail = []"
  shows "filter isPlain (watcherTags [] wa inst detail) = [wa_Kind wa]"
    "filter isInst (watcherTags [] wa inst detail) = (if inst = [] then [] else [''instance:'' @ inst])"
    "map (\<lambda>t. tl (dropWhile (\<lambda>c. c \<noteq> CHR '':'') t)) (filter isDetail (watcherTags [] wa inst detail)) = filter (\<lambda>v. v \<noteq> []) detail"
    "length (filter (\<lambda>v. v \<noteq> []) detail) \<le> 1"
proof -
  have k: "isPlain (wa_Kind wa)" "\<not> isInst (wa_Kind wa)" "\<not> isDetail (wa_Kind wa)"
    using assms(1) isInst_colon by (auto simp: watch_ok_def isDetail_def isPlain_def)
  have d: "filter isPlain (detailTags (wa_LabelKeys wa) detail) = []" "filter isInst (detailTags (wa_LabelKeys wa) detail) = []"
    "map (\<lambda>t. tl (dropWhile (\<lambda>c. c \<noteq> CHR '':'') t)) (filter isDetail (detailTags (wa_LabelKeys wa) detail)) = filter (\<lambda>v. v \<noteq> []) detail"
    "length (filter (\<lambda>v. v \<noteq> []) detail) \<le> 1"
    using assms detail_tag by (cases "wa_LabelKeys wa"; cases detail; auto simp: watch_ok_def)+
  show "filter isPlain (watcherTags [] wa inst detail) = [wa_Kind wa]"
    using k d(1) inst_tag(2) by (simp add: watcherTags_def BaseTag_plain)
  show "filter isInst (watcherTags [] wa inst detail) = (if inst = [] then [] else [''instance:'' @ inst])"
    using k d(2) inst_tag(1) by (simp add: watcherTags_def BaseTag_plain)
  show "map (\<lambda>t. tl (dropWhile (\<lambda>c. c \<noteq> CHR '':'') t)) (filter isDetail (watcherTags [] wa inst detail)) = filter (\<lambda>v. v \<noteq> []) detail"
    using k d(3) inst_tag(3) by (simp add: watcherTags_def BaseTag_plain)
  show "length (filter (\<lambda>v. v \<noteq> []) detail) \<le> 1" by (rule d(4))
qed

lemma tags_extra: "watcherTags extra wa inst detail = watcherTags [] wa inst detail @ extra"
  by (simp add: watcherTags_def)

lemma plain_extra: "plainTags extra \<Longrightarrow> filter isInst extra = [] \<and> filter isDetail extra = []"
  using isInst_colon by (auto simp: plainTags_def list_all_iff filter_empty_conv isDetail_def)

lemma decode_tags:
  assumes "watch_ok wa" "length detail = length (wa_LabelKeys wa) \<or> detail = []" "plainTags extra"
  shows "decodeTags (watcherTags extra wa inst detail) = (wa_Kind wa, inst, filter (\<lambda>v. v \<noteq> []) detail)"
proof -
  have "sort (filter (\<lambda>v. v \<noteq> []) detail) = filter (\<lambda>v. v \<noteq> []) detail"
    using tags_parts(4) [OF assms(1,2)] by (cases "filter (\<lambda>v. v \<noteq> []) detail") auto
  moreover have "drop 9 (''instance:'' @ inst) = inst" by (rule inst_tag(4))
  ultimately show ?thesis
    using tags_parts(1-3) [OF assms(1,2), of inst] plain_extra [OF assms(3)] assms(1)
    by (auto simp: decodeTags_def fold_decodeTag tags_extra [of extra] watch_ok_def)
qed

text \<open>Without extra tags the parts do not depend on the order of the tags.\<close>

lemma decode_tags_any_order:
  assumes "watch_ok wa" "length detail = length (wa_LabelKeys wa) \<or> detail = []" "mset ts = mset (watcherTags [] wa inst detail)"
  shows "decodeTags ts = (wa_Kind wa, inst, filter (\<lambda>v. v \<noteq> []) detail)"
proof -
  note p = tags_parts(1-3) [OF assms(1,2), of inst] tags_parts(4) [OF assms(1,2)]
  have one: "length ys \<le> 1 \<Longrightarrow> mset xs = mset ys \<Longrightarrow> xs = ys" for xs ys :: "string list"
    by (cases ys; cases xs) (auto simp: add_eq_conv_ex dest: mset_eq_length)
  have f: "length (filter P (watcherTags [] wa inst detail)) \<le> 1 \<Longrightarrow> filter P ts = filter P (watcherTags [] wa inst detail)" for P
    using assms(3) by (intro one) simp_all
  have "length (filter isDetail (watcherTags [] wa inst detail)) \<le> 1" using p(3,4) by (metis length_map)
  then have "filter isPlain ts = filter isPlain (watcherTags [] wa inst detail)" "filter isInst ts = filter isInst (watcherTags [] wa inst detail)"
    "filter isDetail ts = filter isDetail (watcherTags [] wa inst detail)"
    using f [of isPlain] f [of isInst] f [of isDetail] p(1,2) by simp_all
  then have "decodeTags ts = decodeTags (watcherTags [] wa inst detail)" by (simp add: decodeTags_def fold_decodeTag)
  then show ?thesis using decode_tags [OF assms(1,2)] by (simp add: plainTags_def)
qed

lemma dedupeKey_empty: "length detail \<le> 1 \<Longrightarrow> dedupeKey k i (filter (\<lambda>v. v \<noteq> []) detail) ms = dedupeKey k i detail ms"
  by (cases detail) (auto simp: dedupeKey_def join_with_def)

section \<open>What a cycle proposes\<close>

lemma toMillis_mono: "a \<le> b \<Longrightarrow> toMillis a \<le> toMillis b"
  by (simp add: toMillis_def zdiv_mono1)

lemma toMillis_UnixMilli [simp]: "toMillis (UnixMilli ms) = ms"
  by (simp add: toMillis_def UnixMilli_def millisecond_ns_def)

lemma FormatInt_no_bar: "CHR ''|'' \<notin> set (FormatInt v)"
proof -
  have "CHR ''|'' \<notin> set (itoa n)" for n
    using itoa_digits [of n] by (auto simp: list_all_iff is_digit_def)
  then show ?thesis by (simp add: FormatInt_def)
qed

lemma FormatInt_inj: "FormatInt a = FormatInt b \<Longrightarrow> a = b"
proof -
  assume e: "FormatInt a = FormatInt b"
  have i: "itoa m = itoa n \<Longrightarrow> m = n" for m n by (metis itoa_digits of_nat_eq_iff)
  have n: "itoa m \<noteq> CHR ''-'' # itoa n" for m n using itoa_digits [of m] by (auto simp: is_digit_def)
  show "a = b" using e n [of "nat a" "nat (- b)"] n [of "nat b" "nat (- a)"] i by (auto simp: FormatInt_def split: if_splits dest: i)
qed

lemma last_field: "CHR ''|'' \<notin> set a \<Longrightarrow> takeWhile (\<lambda>c. c \<noteq> CHR ''|'') (rev (xs @ CHR ''|'' # a)) = rev a"
  by (simp add: takeWhile_append)

lemma dedupeKey_millis: "dedupeKey k i d a = dedupeKey k' i' d' b \<Longrightarrow> a = b"
proof -
  assume e: "dedupeKey k i d a = dedupeKey k' i' d' b"
  have f: "\<exists>xs. dedupeKey k i d a = xs @ CHR ''|'' # FormatInt a" for k i d a
    by (rule exI [of _ "k @ ''|'' @ i @ ''|'' @ join_with [CHR 0x1F] d"]) (simp add: dedupeKey_def join_with_def)
  obtain xs ys where "dedupeKey k i d a = xs @ CHR ''|'' # FormatInt a" "dedupeKey k' i' d' b = ys @ CHR ''|'' # FormatInt b"
    using f [of k i d a] f [of k' i' d' b] by blast
  then have "rev (FormatInt a) = rev (FormatInt b)"
    using e last_field [OF FormatInt_no_bar] by metis
  then show "a = b" using FormatInt_inj by simp
qed

lemma eventKey_tags:
  assumes "watch_ok wa" "length detail = length (wa_LabelKeys wa) \<or> detail = []" "plainTags extra"
    "ev_Tags e = watcherTags extra wa inst detail"
  shows "eventKey e = dedupeKey (wa_Kind wa) inst detail (toMillis (ev_At e))"
  using decode_tags [OF assms(1-3), of inst] assms by (auto simp: eventKey_def watch_ok_def dedupeKey_empty)

text \<open>A proposed event is unseen under its own tags and not older than the window.\<close>

definition proposes :: "Watcher \<Rightarrow> time \<Rightarrow> Watch \<Rightarrow> Event \<Rightarrow> bool" where
  "proposes w now wa e \<longleftrightarrow> \<not> isSeen w (eventKey e) \<and> toMillis (now - an_Lookback (wt_cfg w)) \<le> toMillis (ev_At e) \<and>
     (\<exists>inst detail. (length detail = length (wa_LabelKeys wa) \<or> detail = []) \<and> ev_Tags e = watcherTags (an_ExtraTags (wt_cfg w)) wa inst detail)"

lemma seriesInstant_window: "seriesInstant F wa offsets oldest newest m = Some at \<Longrightarrow> oldest \<le> at"
  by (auto simp: seriesInstant_def Let_def split: if_splits option.splits)

lemma countInstants_keys: "gomap_wf (countInstants ats) \<and> fst ` set (countInstants ats) = toMillis ` set ats"
proof -
  let ?f = "\<lambda>at c. AList.update (toMillis at) (Suc (case map_of c (toMillis at) of Some n \<Rightarrow> n | None \<Rightarrow> 0)) c"
  have "gomap_wf c \<Longrightarrow> gomap_wf (fold ?f ats c) \<and> fst ` set (fold ?f ats c) = fst ` set c \<union> toMillis ` set ats" for c :: "(int, nat) gomap"
    by (induction ats arbitrary: c) (auto simp: fst_set_update)
  from this [of "[]"] show ?thesis by (simp add: countInstants_def)
qed

lemma seriesEvent_proposed:
  assumes "seriesEvent F w wa offsets (now - an_Lookback (wt_cfg w)) newest m = Some e" "watch_ok wa" "plainTags (an_ExtraTags (wt_cfg w))"
  shows "proposes w now wa e \<and> ev_Tags e = watcherTags (an_ExtraTags (wt_cfg w)) wa (instanceOf m) (detailValues wa m)"
proof -
  obtain at where at: "seriesInstant F wa offsets (now - an_Lookback (wt_cfg w)) newest m = Some at" "ev_At e = at"
    "\<not> isSeen w (dedupeKey (wa_Kind wa) (instanceOf m) (detailValues wa m) (toMillis at))"
    "ev_Tags e = watcherTags (an_ExtraTags (wt_cfg w)) wa (instanceOf m) (detailValues wa m)"
    using assms(1) by (auto simp: seriesEvent_def split: option.splits if_splits)
  have l: "length (detailValues wa m) = length (wa_LabelKeys wa) \<or> detailValues wa m = []" by (simp add: detailValues_def)
  show ?thesis using at(2-4) toMillis_mono [OF seriesInstant_window [OF at(1)]] l
    eventKey_tags [OF assms(2) l assms(3) at(4)] unfolding proposes_def by auto
qed

lemma coalesced_proposed:
  assumes "e \<in> set (coalescedEvents w wa ats)" "\<forall>at\<in>set ats. now - an_Lookback (wt_cfg w) \<le> at" "watch_ok wa" "plainTags (an_ExtraTags (wt_cfg w))"
  shows "proposes w now wa e"
proof -
  obtain ms where ms: "ms \<in> fst ` set (countInstants ats)" "ev_At e = UnixMilli ms" "\<not> isSeen w (dedupeKey (wa_Kind wa) [] [] ms)"
    "ev_Tags e = watcherTags (an_ExtraTags (wt_cfg w)) wa [] []"
    using assms(1) by (force simp: coalescedEvents_def)
  then have "toMillis (now - an_Lookback (wt_cfg w)) \<le> toMillis (ev_At e)"
    using assms(2) countInstants_keys [of ats] toMillis_mono by auto
  then show ?thesis using ms eventKey_tags [OF assms(3) _ assms(4) ms(4)] unfolding proposes_def by auto
qed

lemma set_map_filter: "y \<in> set (List.map_filter f xs) \<longleftrightarrow> (\<exists>x\<in>set xs. f x = Some y)"
  by (induction xs) (auto simp: map_filter_simps split: option.splits)

lemma watchEvents_proposed:
  assumes "e \<in> set (watchEvents F w fams now wa)" "watch_ok wa" "plainTags (an_ExtraTags (wt_cfg w))"
  shows "proposes w now wa e"
  using assms seriesEvent_proposed coalesced_proposed [of e w wa _ now] seriesInstant_window
  by (fastforce simp: watchEvents_def Let_def set_map_filter split: if_splits option.splits)

section \<open>An annotation is written once\<close>

definition place :: "Event \<Rightarrow> string list \<times> time" where
  "place e = (ev_Tags e, ev_At e)"

lemma eventKey_place: "place a = place b \<Longrightarrow> eventKey a = eventKey b"
  by (simp add: place_def eventKey_def)

text \<open>The series of a watched family are told apart by the appliance and the label the watch names.\<close>

definition seriesApart :: "'f MetricFamily list \<Rightarrow> bool" where
  "seriesApart fams \<longleftrightarrow> (\<forall>f\<in>set fams. \<forall>wa\<in>set Watches. mf_Name f = wa_Metric wa \<longrightarrow>
     distinct (map (\<lambda>m. (instanceOf m, detailValues wa m)) (mf_Metric f)))"

lemma distinct_map_filter_option:
  assumes "distinct (map g xs)" "\<And>x y a b. x \<in> set xs \<Longrightarrow> y \<in> set xs \<Longrightarrow> f x = Some a \<Longrightarrow> f y = Some b \<Longrightarrow> h a = h b \<Longrightarrow> g x = g y"
  shows "distinct (map h (List.map_filter f xs))"
  using assms
proof (induction xs)
  case (Cons x xs)
  then have "distinct (map h (List.map_filter f xs))" by simp
  moreover have "f x = Some a \<Longrightarrow> h a \<notin> h ` set (List.map_filter f xs)" for a
  proof
    assume a: "f x = Some a" "h a \<in> h ` set (List.map_filter f xs)"
    then obtain y b where y: "y \<in> set xs" "f y = Some b" "h a = h b" by (auto simp: set_map_filter)
    then have "g x = g y" using Cons.prems(2) [of x y] a(1) by simp
    then show False using Cons.prems(1) y(1) by auto
  qed
  ultimately show ?case by (auto simp: map_filter_simps split: option.splits)
qed (simp add: map_filter_simps)

lemma watcherTags_inj:
  assumes "watch_ok wa" "watcherTags extra wa i d = watcherTags extra wa j d'" "length d = length (wa_LabelKeys wa)" "length d' = length (wa_LabelKeys wa)"
  shows "i = j \<and> d = d'"
proof -
  have "watcherTags [] wa i d = watcherTags [] wa j d'" using assms(2) unfolding tags_extra [of extra] by simp
  then have e: "i = j" "filter (\<lambda>v. v \<noteq> []) d = filter (\<lambda>v. v \<noteq> []) d'"
    using decode_tags [OF assms(1) disjI1 [OF assms(3)], of "[]" i] decode_tags [OF assms(1) disjI1 [OF assms(4)], of "[]" j] by (auto simp: plainTags_def)
  have "length d \<le> 1" "length d' = length d" using assms(1,3,4) by (auto simp: watch_ok_def)
  then have "d = d'" using e(2) by (cases d; cases d') (auto split: if_splits)
  then show ?thesis using e(1) by simp
qed

lemma detailValues_length: "length (detailValues wa m) = length (wa_LabelKeys wa)"
  by (simp add: detailValues_def)

lemma fold_named:
  "map_of (fold (\<lambda>f. AList.update (mf_Name f) f) fs m) n = Some g \<Longrightarrow> (mf_Name g = n \<and> g \<in> set fs) \<or> map_of m n = Some g"
proof (induction fs arbitrary: m)
  case (Cons f fs)
  then show ?case by (fastforce simp: map_of_update_conv split: if_splits)
qed simp

lemma byName_named: "map_of (byName fams) n = Some f \<Longrightarrow> mf_Name f = n \<and> f \<in> set fams"
  using fold_named [of fams "[]" n f] by (simp add: byName_def)

lemma watchEvents_distinct:
  assumes "seriesApart fams" "wa \<in> set Watches" "plainTags (an_ExtraTags (wt_cfg w))"
  shows "distinct (map place (watchEvents F w (byName fams) now wa))"
proof -
  have ok: "watch_ok wa" using Watches_ok assms(2) by blast
  have c: "distinct (map place (coalescedEvents w wa ats))" for ats
  proof -
    have "distinct (map fst (countInstants ats))" using countInstants_keys [of ats] by (simp add: gomap_wf_def)
    then have "distinct (map fst (filter (\<lambda>(ms, n). \<not> isSeen w (dedupeKey (wa_Kind wa) [] [] ms)) (countInstants ats)))"
      by (rule distinct_map_filter)
    then show ?thesis
      by (simp add: coalescedEvents_def comp_def case_prod_unfold place_def distinct_map)
        (auto simp: inj_on_def UnixMilli_def millisecond_ns_def)
  qed
  have s: "distinct (map place (List.map_filter (seriesEvent F w wa offsets (now - an_Lookback (wt_cfg w)) newest) (mf_Metric fam)))"
    if "map_of (byName fams) (wa_Metric wa) = Some fam" for fam offsets newest
  proof (rule distinct_map_filter_option)
    have "mf_Name fam = wa_Metric wa \<and> fam \<in> set fams" using byName_named [OF that] .
    then show "distinct (map (\<lambda>m. (instanceOf m, detailValues wa m)) (mf_Metric fam))" using assms(1,2) by (auto simp: seriesApart_def)
  next
    fix x y a b
    assume "seriesEvent F w wa offsets (now - an_Lookback (wt_cfg w)) newest x = Some a" "seriesEvent F w wa offsets (now - an_Lookback (wt_cfg w)) newest y = Some b" "place a = place b"
    then have "watcherTags (an_ExtraTags (wt_cfg w)) wa (instanceOf x) (detailValues wa x) = watcherTags (an_ExtraTags (wt_cfg w)) wa (instanceOf y) (detailValues wa y)"
      using seriesEvent_proposed [OF _ ok assms(3)] unfolding place_def by (metis prod.inject)
    then show "(instanceOf x, detailValues wa x) = (instanceOf y, detailValues wa y)"
      using watcherTags_inj [OF ok] detailValues_length by metis
  qed
  show ?thesis using c s by (auto simp: watchEvents_def Let_def split: option.splits)
qed

lemma proposed_kind: "proposes w now wa e \<Longrightarrow> ev_Tags e ! 1 = wa_Kind wa"
  by (auto simp: proposes_def watcherTags_def)

lemma detect_events:
  assumes "detect F (failed, fams) now w = Some es" "plainTags (an_ExtraTags (wt_cfg w))"
  shows "\<forall>e\<in>set es. \<exists>wa\<in>set Watches. proposes w now wa e"
    "seriesApart fams \<Longrightarrow> distinct (map place es)"
proof -
  let ?we = "watchEvents F w (byName fams) now"
  have es: "mset es = mset (concat (map ?we Watches))"
    using assms(1) by (auto simp: detect_def split: if_splits)
  then have "set es = set (concat (map ?we Watches))" by (metis set_mset_mset)
  then show "\<forall>e\<in>set es. \<exists>wa\<in>set Watches. proposes w now wa e"
    using watchEvents_proposed [OF _ _ assms(2)] Watches_ok by fastforce
  assume ap: "seriesApart fams"
  have "set ws \<subseteq> set Watches \<Longrightarrow> distinct (map wa_Kind ws) \<Longrightarrow> distinct (map place (concat (map ?we ws)))" for ws
  proof (induction ws)
    case (Cons wa ws)
    have k: "e \<in> set (?we v) \<Longrightarrow> v \<in> set Watches \<Longrightarrow> ev_Tags e ! 1 = wa_Kind v" for e v
      using watchEvents_proposed [OF _ _ assms(2)] Watches_ok proposed_kind by blast
    have "place ` set (?we wa) \<inter> place ` set (concat (map ?we ws)) = {}"
    proof (rule ccontr)
      assume "place ` set (?we wa) \<inter> place ` set (concat (map ?we ws)) \<noteq> {}"
      then obtain a b v where ab: "a \<in> set (?we wa)" "v \<in> set ws" "b \<in> set (?we v)" "place a = place b" by fastforce
      then have "wa_Kind wa = wa_Kind v" using k [of a wa] k [of b v] Cons.prems(1) by (auto simp: place_def)
      then show False using Cons.prems(2) ab(2) by (auto simp: image_iff)
    qed
    then show ?case using Cons watchEvents_distinct [OF ap _ assms(2), of wa F now] by auto
  qed simp
  from this [of Watches] have "distinct (map place (concat (map ?we Watches)))" using Watches_kinds by simp
  then show "distinct (map place es)" using es by (metis mset_eq_imp_distinct_iff mset_map)
qed

section \<open>The life of a watcher\<close>

fun annRun :: "'f valueOps \<Rightarrow> 'f cycle list \<Rightarrow> Watcher \<Rightarrow> Watcher \<times> (Event \<times> postAnswer) list" where
  "annRun F [] w = (w, [])"
| "annRun F (c # cs) w = (case tick F c w of (w1, out) \<Rightarrow> case annRun F cs w1 of (w2, out') \<Rightarrow> (w2, out @ out'))"

fun isPosted :: "Event \<times> postAnswer \<Rightarrow> bool" where
  "isPosted (e, PostOK t) \<longleftrightarrow> True"
| "isPosted (e, PostRejected status ra) \<longleftrightarrow> False"
| "isPosted (e, PostUnreachable) \<longleftrightarrow> False"

definition posted :: "(Event \<times> postAnswer) list \<Rightarrow> Event list" where
  "posted out = map fst (filter isPosted out)"

text \<open>The instant of a dedupe entry is the one its key was made from.\<close>

definition seenOk :: "Watcher \<Rightarrow> bool" where
  "seenOk w \<longleftrightarrow> gomap_wf (wt_seen w) \<and> (\<forall>(key, at)\<in>set (wt_seen w). \<exists>k i d. key = dedupeKey k i d at)"

lemma seenOk_update: "seenOk w \<Longrightarrow> seenOk (w\<lparr>wt_seen := AList.update (dedupeKey k i d at) at (wt_seen w)\<rparr>)"
  unfolding seenOk_def by (auto dest!: set_update_subset [THEN subsetD])

lemma markSeen_props:
  "wt_cfg (markSeen e w) = wt_cfg w" "isSeen w key \<Longrightarrow> isSeen (markSeen e w) key" "isSeen (markSeen e w) (eventKey e)" "seenOk w \<Longrightarrow> seenOk (markSeen e w)"
  using seenOk_update by (auto simp: markSeen_def isSeen_def eventKey_def map_of_update_conv split: prod.split)

lemma afterPost_props:
  "wt_cfg (afterPost e a w) = wt_cfg w" "isSeen w key \<Longrightarrow> isSeen (afterPost e a w) key" "isPosted (e, a) \<Longrightarrow> isSeen (afterPost e a w) (eventKey e)"
  "seenOk w \<Longrightarrow> seenOk (afterPost e a w)"
proof -
  have upd: "isSeen (w\<lparr>wt_failed := f\<rparr>) = isSeen w" "isSeen (w\<lparr>wt_failed := f, wt_undeliverable := u\<rparr>) = isSeen w"
    "seenOk (w\<lparr>wt_failed := f\<rparr>) = seenOk w" "seenOk (w\<lparr>wt_failed := f, wt_undeliverable := u\<rparr>) = seenOk w"
    "isSeen (w\<lparr>wt_failed := f, wt_rateLimited := u\<rparr>) = isSeen w" "seenOk (w\<lparr>wt_failed := f, wt_rateLimited := u\<rparr>) = seenOk w"
    "isSeen (w\<lparr>wt_posted := p, wt_lastSuccess := t, wt_backoffStreak := 0, wt_backoffUntil := 0\<rparr>) = isSeen w"
    "seenOk (w\<lparr>wt_posted := p, wt_lastSuccess := t, wt_backoffStreak := 0, wt_backoffUntil := 0\<rparr>) = seenOk w" for w f u p t
    by (auto simp: isSeen_def seenOk_def fun_eq_iff)
  show "wt_cfg (afterPost e a w) = wt_cfg w" "isSeen w key \<Longrightarrow> isSeen (afterPost e a w) key" "isPosted (e, a) \<Longrightarrow> isSeen (afterPost e a w) (eventKey e)"
  "seenOk w \<Longrightarrow> seenOk (afterPost e a w)"
    by (cases a; simp add: afterPost_def postedEvent_def Let_def upd markSeen_props)+
qed

lemma postLoop_props:
  "postLoop answers n limited wait w es = (w', limited', wait', out) \<Longrightarrow>
   wt_cfg w' = wt_cfg w \<and> (\<forall>key. isSeen w key \<longrightarrow> isSeen w' key) \<and> (\<forall>e\<in>set (posted out). isSeen w' (eventKey e)) \<and> (seenOk w \<longrightarrow> seenOk w') \<and>
   map fst out = take (length out) es \<and> int n + int (length out) \<le> max (int n) (an_MaxPerCycle (wt_cfg w))"
proof (induction es arbitrary: n limited wait w out)
  case Nil
  then show ?case by (simp add: posted_def)
next
  case (Cons x es)
  show ?case
  proof (cases "an_MaxPerCycle (wt_cfg w) \<le> int n")
    case True
    then show ?thesis using Cons.prems by (auto simp: isSeen_def seenOk_def posted_def)
  next
    case False
    then obtain out1 where r: "postLoop answers (Suc n) (if isLimited (answers n) then Suc limited else limited) (firstWait (answers n) wait)
        (afterPost x (answers n) w) es = (w', limited', wait', out1)" "out = (x, answers n) # out1"
      using Cons.prems by (auto simp: Let_def split: prod.splits)
    show ?thesis using Cons.IH [OF r(1)] False afterPost_props [where e = x and a = "answers n" and w = w]
      by (auto simp: r(2) posted_def)
  qed
qed


text \<open>Every event written so far is in the dedupe set, or so old that no later cycle can propose it.\<close>

definition remembers :: "time \<Rightarrow> Event list \<Rightarrow> Watcher \<Rightarrow> bool" where
  "remembers T log w \<longleftrightarrow> seenOk w \<and>
     (\<forall>e\<in>set log. isSeen w (eventKey e) \<or> toMillis (ev_At e) < toMillis (T - an_Lookback (wt_cfg w)))"

lemma prune_isSeen:
  assumes "seenOk w" "isSeen w (eventKey e)"
  shows "isSeen (prune now w) (eventKey e) \<or> toMillis (ev_At e) < toMillis (now - an_Lookback (wt_cfg w))"
proof -
  obtain at where at: "map_of (wt_seen w) (eventKey e) = Some at" using assms(2) by (auto simp: isSeen_def)
  then have m: "(eventKey e, at) \<in> set (wt_seen w)" by (rule map_of_SomeD)
  then obtain k i d where "eventKey e = dedupeKey k i d at" using assms(1) by (fastforce simp: seenOk_def)
  then have "at = toMillis (ev_At e)" by (auto simp: eventKey_def split: prod.splits dest!: dedupeKey_millis)
  then show ?thesis using m by (force simp: isSeen_def prune_def map_of_eq_None_iff)
qed

lemma prune_remembers:
  assumes "remembers T log w" "T \<le> now"
  shows "remembers now log (prune now w)"
proof -
  have "seenOk (prune now w)" using assms(1) by (auto simp: remembers_def seenOk_def prune_def)
  moreover have "isSeen (prune now w) (eventKey e) \<or> toMillis (ev_At e) < toMillis (now - an_Lookback (wt_cfg w))" if "e \<in> set log" for e
    using that assms prune_isSeen [of w e now] toMillis_mono [of "T - an_Lookback (wt_cfg w)" "now - an_Lookback (wt_cfg w)"]
    by (fastforce simp: remembers_def)
  ultimately show ?thesis by (simp add: remembers_def prune_def)
qed

lemma posted_distinct:
  assumes "map fst out = take k es" "distinct (map place es)"
  shows "distinct (map place (posted out))" "set (posted out) \<subseteq> set es"
proof -
  have "distinct (map place (map fst out))" unfolding assms(1) take_map [symmetric] using assms(2) by (rule distinct_take)
  then show "distinct (map place (posted out))" unfolding posted_def map_map by (rule distinct_map_filter)
  have "set (map fst out) \<subseteq> set es" unfolding assms(1) by (rule set_take_subset)
  then show "set (posted out) \<subseteq> set es" by (auto simp: posted_def)
qed

lemma armBackoff_same: "wt_cfg (armBackoff rnd ra t w) = wt_cfg w" "isSeen (armBackoff rnd ra t w) = isSeen w" "seenOk (armBackoff rnd ra t w) = seenOk w"
  by (auto simp: armBackoff_def Let_def isSeen_def seenOk_def fun_eq_iff)

lemma tick_once:
  assumes "tick F c w0 = (w', out)" "remembers T log w0" "distinct (map place log)" "plainTags (an_ExtraTags (wt_cfg w0))"
    "T \<le> cy_now c" "cy_now c \<le> cy_detect c" "seriesApart (snd (cy_gathered c))"
  shows "remembers (cy_now c) (log @ posted out) w' \<and> distinct (map place (log @ posted out)) \<and> wt_cfg w' = wt_cfg w0"
proof -
  define w where "w = prune (cy_now c) w0"
  have w: "remembers (cy_now c) log w" "wt_cfg w = wt_cfg w0" using prune_remembers [OF assms(2,5)] by (simp_all add: w_def prune_def)
  then have ws: "remembers (cy_now c) log (w\<lparr>wt_seeded := True\<rparr>)" by (simp add: remembers_def seenOk_def isSeen_def)
  consider "w' = w" "out = []" | "w' = w\<lparr>wt_seeded := True\<rparr>" "out = []" | es w1 limited wait where
      "detect F (cy_gathered c) (cy_detect c) w = Some es" "postLoop (cy_answers c) 0 0 0 (w\<lparr>wt_seeded := True\<rparr>) es = (w1, limited, wait, out)"
      "w' = (if 0 < limited then armBackoff (cy_rnd c) wait (cy_arm c) w1 else w1)"
    using assms(1) unfolding tick_def w_def [symmetric] by (auto simp: Let_def split: if_splits option.splits prod.splits)
  then show ?thesis
  proof cases
    case 3
    have pt: "plainTags (an_ExtraTags (wt_cfg w))" using assms(4) w(2) by simp
    have d: "\<forall>e\<in>set es. \<exists>wa\<in>set Watches. proposes w (cy_detect c) wa e" "distinct (map place es)"
      using detect_events [OF _ pt, of F "fst (cy_gathered c)" "snd (cy_gathered c)" "cy_detect c" es] 3(1) assms(7) by simp_all
    note l = postLoop_props [OF 3(2)]
    have out: "distinct (map place (posted out))" "set (posted out) \<subseteq> set es" using posted_distinct [OF _ d(2), of out "length out"] l by simp_all
    have fresh: "place e \<noteq> place e'" if old: "e \<in> set log" and new: "e' \<in> set es" for e e'
    proof
      assume p: "place e = place e'"
      obtain wa where pr: "proposes w (cy_detect c) wa e'" using d(1) new by blast
      have "\<not> isSeen w (eventKey e)" using pr eventKey_place [OF p] by (simp add: proposes_def)
      then have "toMillis (ev_At e) < toMillis (cy_now c - an_Lookback (wt_cfg w))" using w(1) old by (auto simp: remembers_def)
      moreover have "toMillis (cy_now c - an_Lookback (wt_cfg w)) \<le> toMillis (cy_detect c - an_Lookback (wt_cfg w))" using assms(6) by (intro toMillis_mono) simp
      ultimately show False using pr p by (simp add: proposes_def place_def)
    qed
    have "remembers (cy_now c) (log @ posted out) w1" using ws l by (fastforce simp: remembers_def)
    then have "remembers (cy_now c) (log @ posted out) w'" unfolding 3(3) by (simp add: remembers_def armBackoff_same)
    moreover have "place ` set log \<inter> place ` set (posted out) = {}" 
    proof (rule equals0I, elim IntE imageE)
      fix p e e'
      assume "p = place e" "e \<in> set log" "p = place e'" "e' \<in> set (posted out)"
      then show False using subsetD [OF out(2)] fresh [of e e'] by simp
    qed
    then have "distinct (map place (log @ posted out))" using assms(3) out(1) by simp
    moreover have "wt_cfg w' = wt_cfg w0" using l w(2) by (simp add: 3(3) armBackoff_same)
    ultimately show ?thesis by simp
  qed (use w ws assms(3) in \<open>simp_all add: posted_def\<close>)
qed

text \<open>A clock that does not go back, from a time on.\<close>

fun clockFrom :: "time \<Rightarrow> 'f cycle list \<Rightarrow> bool" where
  "clockFrom T [] \<longleftrightarrow> True"
| "clockFrom T (c # cs) \<longleftrightarrow> T \<le> cy_now c \<and> cy_now c \<le> cy_detect c \<and> clockFrom (cy_now c) cs"

lemma annRun_once:
  assumes "remembers T log w" "distinct (map place log)" "plainTags (an_ExtraTags (wt_cfg w))" "clockFrom T cs"
    "\<forall>c\<in>set cs. seriesApart (snd (cy_gathered c))"
  shows "distinct (map place (log @ posted (snd (annRun F cs w))))"
  using assms
proof (induction cs arbitrary: T log w)
  case (Cons c cs)
  obtain w1 out where t: "tick F c w = (w1, out)" by (cases "tick F c w")
  from tick_once [OF t Cons.prems(1-3)] Cons.prems(4,5)
  have "remembers (cy_now c) (log @ posted out) w1 \<and> distinct (map place (log @ posted out)) \<and> wt_cfg w1 = wt_cfg w" by simp
  with Cons.IH [of "cy_now c" "log @ posted out" w1] Cons.prems(3-5)
  have "distinct (map place ((log @ posted out) @ posted (snd (annRun F cs w1))))" by simp
  then show ?case by (cases "annRun F cs w1") (simp add: t posted_def)
qed (simp add: posted_def)


lemma reconcile_ok:
  "seenOk w \<Longrightarrow> seenOk (reconcile found w)" "wt_cfg (reconcile found w) = wt_cfg w"
proof -
  have "seenOk (w\<lparr>wt_seen := m\<rparr>) \<Longrightarrow> seenOk (w\<lparr>wt_seen := fold seenExisting as m\<rparr>)" for m as
  proof (induction as arbitrary: m)
    case (Cons a as)
    have "seenOk (w\<lparr>wt_seen := seenExisting a m\<rparr>)"
      using Cons.prems seenOk_update [of "w\<lparr>wt_seen := m\<rparr>"] by (auto simp: seenExisting_def split: prod.split)
    then show ?case using Cons.IH by simp
  qed simp
  from this [of "wt_seen w"] show "seenOk w \<Longrightarrow> seenOk (reconcile found w)"
    by (simp add: reconcile_def seenOk_def split: option.split)
qed (simp add: reconcile_def split: option.split)


section \<open>Concrete lives\<close>

definition intOps :: "int valueOps" where
  "intOps = \<lparr>vo_zero = 0, vo_positive = (\<lambda>v. 0 < v), vo_add = (+), vo_int64 = (\<lambda>v. v)\<rparr>"

definition bootFamily :: "int MetricFamily" where
  "bootFamily = \<lparr>mf_Name = BootMetric, mf_Metric = [\<lparr>mt_Label = [(instanceLabel, ''fw'')], mt_Gauge = Some 1000, mt_Untyped = None\<rparr>]\<rparr>"

definition bootNow :: time where
  "bootNow = time_Unix 2000 0"

definition bootCycle :: "int cycle" where
  "bootCycle = \<lparr>cy_now = bootNow, cy_detect = bootNow, cy_arm = bootNow, cy_gathered = (False, [bootFamily]), cy_answers = (\<lambda>n. PostOK bootNow), cy_rnd = 0\<rparr>"

definition demoConfig :: "string list \<Rightarrow> AnnConfig" where
  "demoConfig extra = \<lparr>an_Lookback = 3600 * second_ns, an_ExtraTags = extra, an_Kinds = [], an_MaxPerCycle = 20\<rparr>"

definition bootEvent :: "string list \<Rightarrow> Event" where
  "bootEvent extra = \<lparr>ev_Kind = ''reboot'', ev_Text = ''OPNsense rebooted'', ev_At = time_Unix 1000 0,
     ev_Tags = [BaseTag, ''reboot'', ''instance:fw''] @ extra\<rparr>"

lemma boot_labels: "labelMap \<lparr>mt_Label = [(instanceLabel, ''fw'')], mt_Gauge = g, mt_Untyped = u\<rparr> = [(instanceLabel, ''fw'')]"
  by (simp add: labelMap_def)

lemma bootNow_props: "0 < bootNow" "\<not> bootNow < 0" "toMillis (bootNow - 3600 * second_ns) \<le> 1000000"
  "bootNow - 3600 * second_ns \<le> time_Unix 1000 0" "time_Unix 1000 0 \<le> bootNow + futureTolerance" "toMillis (time_Unix 1000 0) = 1000000"
  by (simp_all add: bootNow_def time_Unix_def unix_epoch_def toMillis_def second_ns_def futureTolerance_def)

lemma itoa_million: "itoa 1000000 = ''1000000''"
  by (simp add: itoa.simps char_of_def bit_0)

lemma boot_key: "dedupeKey ''reboot'' ''fw'' [] 1000000 = ''reboot|fw||1000000''"
  by (simp add: dedupeKey_def join_with_def FormatInt_def itoa_million)

lemma boot_detect:
  assumes "wt_cfg w = demoConfig extra" "wt_enabledKinds w = enabledKindSet []"
  shows "detect intOps (False, [bootFamily]) bootNow w =
    Some (if isSeen w ''reboot|fw||1000000'' then [] else [bootEvent extra])"
proof -
  have b: "map_of (byName [bootFamily]) m = (if m = BootMetric then Some bootFamily else None)" for m
    by (simp add: byName_def bootFamily_def)
  have fm: "mf_Metric bootFamily = [\<lparr>mt_Label = [(instanceLabel, ''fw'')], mt_Gauge = Some 1000, mt_Untyped = None\<rparr>]" by (simp add: bootFamily_def)
  have none: "wa_Metric wa \<noteq> BootMetric \<Longrightarrow> watchEvents intOps w (byName [bootFamily]) bootNow wa = []" for wa
    by (simp add: watchEvents_def b Let_def)
  have en: "enabled w ''reboot''"
    unfolding enabled_def assms(2) by code_simp
  have some: "watchEvents intOps w (byName [bootFamily]) bootNow (plainWatch BootMetric ''reboot'' ''OPNsense rebooted'' []) =
      (if isSeen w ''reboot|fw||1000000'' then [] else [bootEvent extra])"
    using bootNow_props by (simp add: watchEvents_def b en plainWatch_def fm map_filter_simps seriesEvent_def seriesInstant_def metricValue_def
      intOps_def instanceOf_def boot_labels labelAt_def detailValues_def boot_key assms(1) demoConfig_def bootEvent_def eventText_def watcherTags_def Let_def)
  have "concat (map (watchEvents intOps w (byName [bootFamily]) bootNow) Watches) = (if isSeen w ''reboot|fw||1000000'' then [] else [bootEvent extra])"
    unfolding Watches_def list.map concat.simps some by (simp add: none plainWatch_def BootMetric_def)
  then show ?thesis by (simp add: detect_def sort_Slice_def)
qed


definition bootRun :: "string list \<Rightarrow> existingAnnotation list option \<Rightarrow> nat \<Rightarrow> Event list" where
  "bootRun extra found n = posted (snd (annRun intOps (replicate n bootCycle) (reconcile found (NewWatcher (demoConfig extra)))))"

text \<open>A cycle that finds the boot instant unseen writes it.\<close>

lemma boot_tick:
  assumes "wt_cfg w = demoConfig extra" "wt_enabledKinds w = enabledKindSet []" "wt_seeded w \<or> wt_reconciled w" "wt_backoffUntil w = 0"
    "\<not> isSeen w ''reboot|fw||1000000''"
  shows "tick intOps bootCycle w = (postedEvent (bootEvent extra) bootNow ((prune bootNow w)\<lparr>wt_seeded := True\<rparr>),
    [(bootEvent extra, PostOK bootNow)])"
proof -
  let ?w = "prune bootNow w"
  have p: "wt_cfg ?w = demoConfig extra" "wt_enabledKinds ?w = enabledKindSet []" "wt_seeded ?w \<or> wt_reconciled ?w" "wt_backoffUntil ?w = 0"
    using assms(1-4) by (simp_all add: prune_def)
  have s: "\<not> isSeen ?w ''reboot|fw||1000000''"
    using assms(5) by (force simp: isSeen_def prune_def map_of_eq_None_iff)
  show ?thesis
    using boot_detect [OF p(1,2)] s p(3) bootNow_props(2) by (auto simp: tick_def bootCycle_def Let_def p(1,4) demoConfig_def afterPost_def)
qed

text \<open>One that has seen it writes nothing.\<close>

lemma boot_tick_seen:
  assumes "wt_cfg w = demoConfig extra" "wt_enabledKinds w = enabledKindSet []" "wt_seeded w" "wt_backoffUntil w = 0"
    "map_of (wt_seen w) ''reboot|fw||1000000'' = Some 1000000"
  shows "snd (tick intOps bootCycle w) = []"
proof -
  let ?w = "prune bootNow w"
  have p: "wt_cfg ?w = demoConfig extra" "wt_enabledKinds ?w = enabledKindSet []" "wt_seeded ?w" "wt_backoffUntil ?w = 0"
    using assms(1-4) by (simp_all add: prune_def)
  have "isSeen ?w ''reboot|fw||1000000''"
    using map_of_SomeD [OF assms(5)] bootNow_props(3)
    by (force simp: isSeen_def prune_def map_of_eq_None_iff assms(1) demoConfig_def)
  then show ?thesis
    using boot_detect [OF p(1,2)] p(3) bootNow_props(2) by (simp add: tick_def bootCycle_def Let_def p(4))
qed

lemma boot_posted:
  "wt_cfg (postedEvent e t w) = wt_cfg w" "wt_enabledKinds (postedEvent e t w) = wt_enabledKinds w" "wt_seeded (postedEvent e t w) = wt_seeded w"
  "wt_reconciled (postedEvent e t w) = wt_reconciled w" "wt_backoffUntil (postedEvent e t w) = 0"
  "map_of (wt_seen (postedEvent e t w)) = (map_of (wt_seen w))(eventKey e \<mapsto> toMillis (ev_At e))"
  by (simp_all add: postedEvent_def markSeen_def eventKey_def map_of_update_conv fun_eq_iff split: prod.split)

lemma boot_eventKey:
  "eventKey (bootEvent [''prod'']) = ''reboot|fw||1000000''" "eventKey (bootEvent [''env:prod'']) = ''reboot|fw|prod|1000000''"
  by (simp_all add: eventKey_def bootEvent_def decodeTags_def decodeTag_def BaseTag_def hasPrefix_def dedupeKey_def join_with_def
    bootNow_props(6) FormatInt_def itoa_million)

lemma bootEvent_At [simp]: "ev_At (bootEvent extra) = time_Unix 1000 0"
  by (simp add: bootEvent_def)

lemma bootCycles_ok: "clockFrom 0 (replicate n bootCycle)" "\<forall>c\<in>set (replicate n bootCycle). seriesApart (snd (cy_gathered c))"
proof -
  have "clockFrom (cy_now bootCycle) (replicate m bootCycle)" for m by (induction m) (simp_all add: bootCycle_def Let_def)
  then show "clockFrom 0 (replicate n bootCycle)" by (cases n) (use bootNow_props(1) in \<open>simp_all add: bootCycle_def\<close>)
  show "\<forall>c\<in>set (replicate n bootCycle). seriesApart (snd (cy_gathered c))" by (auto simp: bootCycle_def seriesApart_def bootFamily_def)
qed



text \<open>
  (C39) The dedupe set does not recognise events written under an extra tag that has a colon, such as the
  \<^verbatim>\<open>env:prod\<close> of the flag's own help: the part after the colon is read back as a detail, and the same reboot is
  written again by every cycle.
\<close>

theorem extra_tag_reposts: "bootRun [''env:prod''] (Some []) n = replicate n (bootEvent [''env:prod''])"
proof -
  let ?e = "bootEvent [''env:prod'']"
  have "posted (snd (annRun intOps (replicate n bootCycle) w)) = replicate n ?e"
    if "wt_cfg w = demoConfig [''env:prod'']" "wt_enabledKinds w = enabledKindSet []" "wt_seeded w \<or> wt_reconciled w" "wt_backoffUntil w = 0"
      "\<not> isSeen w ''reboot|fw||1000000''" for w
    using that
  proof (induction n arbitrary: w)
    case (Suc n)
    let ?v = "postedEvent ?e bootNow ((prune bootNow w)\<lparr>wt_seeded := True\<rparr>)"
    have "posted (snd (annRun intOps (replicate n bootCycle) ?v)) = replicate n ?e"
      by (rule Suc.IH) (use Suc.prems in \<open>force simp: boot_posted prune_def isSeen_def boot_eventKey map_of_eq_None_iff\<close>)+
    then show ?case using boot_tick [OF Suc.prems] by (cases "annRun intOps (replicate n bootCycle) ?v") (simp add: posted_def)
  qed (simp add: posted_def)
  note run = this
  show ?thesis unfolding bootRun_def by (rule run) (simp_all add: reconcile_def NewWatcher_def isSeen_def demoConfig_def)
qed

text \<open>
  Nor does the pass that is to seed the set silently after a failed read-back: it records nothing, so the
  cycle after it writes the whole recent timeline.
\<close>

theorem failed_readback_posts_late: "bootRun [] None 1 = [] \<and> bootRun [] None 2 = [bootEvent []]"
proof -
  let ?w = "reconcile None (NewWatcher (demoConfig []))"
  have t: "tick intOps bootCycle ?w = ((prune bootNow ?w)\<lparr>wt_seeded := True\<rparr>, [])"
    using boot_detect [of "prune bootNow ?w" "[]"] bootNow_props(2)
    by (simp add: tick_def bootCycle_def Let_def prune_def reconcile_def NewWatcher_def demoConfig_def)
  have "tick intOps bootCycle ((prune bootNow ?w)\<lparr>wt_seeded := True\<rparr>) = (postedEvent (bootEvent []) bootNow
      ((prune bootNow ((prune bootNow ?w)\<lparr>wt_seeded := True\<rparr>))\<lparr>wt_seeded := True\<rparr>), [(bootEvent [], PostOK bootNow)])"
    by (rule boot_tick) (simp_all add: prune_def reconcile_def NewWatcher_def demoConfig_def isSeen_def)
  then show ?thesis using t by (simp add: bootRun_def numeral_2_eq_2 posted_def split: prod.split)
qed


section \<open>Restarts, limits and waits\<close>

text \<open>
  (C40) A restart writes nothing twice. Without extra tags, an event that Grafana lists, with its tags in
  whatever order, is not proposed by the first cycle that reads the list back, whatever else the list holds.
\<close>

theorem restart_writes_nothing_twice:
  assumes "an_ExtraTags cfg = []" "detect F gathered now (NewWatcher cfg) = Some es" "e \<in> set es"
    and "a \<in> set found" "ea_Time a = toMillis (ev_At e)" "mset (ea_Tags a) = mset (ev_Tags e)"
    and "detect F gathered now (reconcile (Some found) (NewWatcher cfg)) = Some es'"
  shows "\<forall>e'\<in>set es'. place e' \<noteq> place e"
proof
  fix e'
  assume e': "e' \<in> set es'"
  let ?w = "reconcile (Some found) (NewWatcher cfg)"
  have cfg: "wt_cfg (NewWatcher cfg) = cfg" "wt_cfg ?w = cfg" by (simp_all add: NewWatcher_def reconcile_def)
  have pt: "plainTags (an_ExtraTags cfg)" by (simp add: assms(1) plainTags_def)
  obtain failed fams where g: "gathered = (failed, fams)" by (cases gathered)
  obtain wa where wa: "wa \<in> set Watches" "proposes (NewWatcher cfg) now wa e"
    using detect_events(1) [of F failed fams now "NewWatcher cfg" es] assms(2,3) pt cfg g by auto
  have ok: "watch_ok wa" using Watches_ok wa(1) by blast
  obtain inst detail where t: "length detail = length (wa_LabelKeys wa) \<or> detail = []" "ev_Tags e = watcherTags [] wa inst detail"
    using wa(2) cfg assms(1) by (auto simp: proposes_def)
  have "decodeTags (ea_Tags a) = decodeTags (ev_Tags e)"
    using decode_tags_any_order [OF ok t(1), of "ea_Tags a" inst] decode_tags_any_order [OF ok t(1) refl] assms(6) t(2) by simp
  moreover have "wa_Kind wa \<noteq> []" using ok by (simp add: watch_ok_def)
  ultimately have k: "\<exists>kind i d. decodeTags (ea_Tags a) = (kind, i, d) \<and> kind \<noteq> [] \<and> dedupeKey kind i d (ea_Time a) = eventKey e"
    using decode_tags [OF ok t(1), of "[]" inst] t(2) assms(5) by (simp add: eventKey_def plainTags_def)
  have keep: "map_of m key \<noteq> None \<Longrightarrow> map_of (fold seenExisting as m) key \<noteq> None" for m as key
    by (induction as arbitrary: m) (auto simp: seenExisting_def map_of_update_conv split: prod.split)
  have "a \<in> set as \<Longrightarrow> map_of (fold seenExisting as m) (eventKey e) \<noteq> None" for as m
  proof (induction as arbitrary: m)
    case (Cons b as)
    have "map_of (seenExisting a m) (eventKey e) \<noteq> None" using k by (auto simp: seenExisting_def map_of_update_conv)
    then show ?case using Cons keep by auto
  qed simp
  then have seen: "isSeen ?w (eventKey e)" using assms(4) by (simp add: isSeen_def reconcile_def)
  have "\<exists>wa. proposes ?w now wa e'" using detect_events(1) [of F failed fams now ?w es'] assms(7) e' pt cfg g by auto
  then have "\<not> isSeen ?w (eventKey e')" by (auto simp: proposes_def)
  then show "place e' \<noteq> place e" using seen eventKey_place [of e' e] by auto
qed

theorem restart_writes_nothing_twice_witness:
  "\<exists>es'. detect intOps (False, [bootFamily]) bootNow
      (reconcile (Some [\<lparr>ea_Time = 1000000, ea_Tags = [''instance:fw'', ''reboot'', BaseTag]\<rparr>]) (NewWatcher (demoConfig []))) = Some es' \<and>
    (\<forall>e'\<in>set es'. place e' \<noteq> place (bootEvent []))"
proof -
  let ?a = "\<lparr>ea_Time = 1000000, ea_Tags = [''instance:fw'', ''reboot'', BaseTag]\<rparr>"
  let ?w = "reconcile (Some [?a]) (NewWatcher (demoConfig []))"
  have d: "detect intOps (False, [bootFamily]) bootNow (NewWatcher (demoConfig [])) = Some [bootEvent []]"
    using boot_detect [of "NewWatcher (demoConfig [])" "[]"] by (simp add: NewWatcher_def demoConfig_def isSeen_def)
  obtain es' where e: "detect intOps (False, [bootFamily]) bootNow ?w = Some es'" by (simp add: detect_def)
  have "\<forall>e'\<in>set es'. place e' \<noteq> place (bootEvent [])"
    by (rule restart_writes_nothing_twice [OF _ d _ _ _ _ e, where a = ?a])
      (simp_all add: demoConfig_def bootNow_props(6), simp add: bootEvent_def)
  then show ?thesis using e by blast
qed

text \<open>A cycle tries at most \<^verbatim>\<open>MaxPerCycle\<close> posts, and none while it backs off.\<close>

lemma cycle_bounded:
  assumes "tick F c w = (w', out)" "0 \<le> an_MaxPerCycle (wt_cfg w)"
  shows "int (length out) \<le> an_MaxPerCycle (wt_cfg w)" "cy_now c < wt_backoffUntil w \<Longrightarrow> out = []"
proof -
  have p: "wt_cfg (prune t w) = wt_cfg w" "wt_backoffUntil (prune t w) = wt_backoffUntil w" for t by (simp_all add: prune_def)
  show "cy_now c < wt_backoffUntil w \<Longrightarrow> out = []" using assms(1) by (simp add: tick_def Let_def p)
  have l: "postLoop ans 0 0 0 (prune t w\<lparr>wt_seeded := True\<rparr>) es = (w1, limited, wait, out) \<Longrightarrow> int (length out) \<le> an_MaxPerCycle (wt_cfg w)"
    for ans t es w1 limited wait using postLoop_props [of ans 0 0 0 "prune t w\<lparr>wt_seeded := True\<rparr>" es w1 limited wait out] assms(2) p by simp
  show "int (length out) \<le> an_MaxPerCycle (wt_cfg w)"
    using assms l by (auto simp: tick_def Let_def split: if_splits option.splits prod.splits)
qed

text \<open>A wait is never longer than the ceiling with its jitter, and grows at most six times.\<close>

lemma backoff_bounded:
  assumes "ra \<le> backoffCeiling"
  shows "now < wt_backoffUntil (armBackoff rnd ra now w) \<and> 5 * (wt_backoffUntil (armBackoff rnd ra now w) - now) \<le> 6 * backoffCeiling"
proof -
  have j: "0 < jitter rnd d \<and> 5 * jitter rnd d \<le> 6 * backoffCeiling" if "0 < d" "d \<le> backoffCeiling" for d
  proof -
    define q where "q = d div 5"
    have q: "0 \<le> q" "5 * q \<le> d" using that(1) by (simp_all add: q_def)
    then have m: "0 \<le> rnd mod (2 * q + 1)" "rnd mod (2 * q + 1) < 2 * q + 1" by (intro pos_mod_sign pos_mod_bound; linarith)+
    show ?thesis unfolding jitter_def Let_def q_def [symmetric] using that q m by (simp split: if_split)
  qed
  have "0 < min backoffCeiling (backoffBase * 2 ^ n)" for n by (simp add: backoffCeiling_def backoffBase_def second_ns_def)
  then show ?thesis using assms j [of "min backoffCeiling (backoffBase * 2 ^ n)" for n] by (auto simp: armBackoff_def Let_def)
qed

lemma parseRetryAfter_bounded: "parseRetryAfter parseTime h now \<le> backoffCeiling"
  by (auto simp: parseRetryAfter_def clampBackoff_def backoffCeiling_def second_ns_def Let_def split: option.split)

text \<open>The seconds of a header are multiplied in 64 bits: a wait of three centuries is read as \<^verbatim>\<open>retry now\<close>.\<close>

lemma retry_after_header_wraps: "parseRetryAfter parseTime ''9223372037'' now = 1"
proof -
  have "TrimSpace ''9223372037'' = ''9223372037''" by (simp add: TrimSpace_def ascii_space_def)
  moreover have "Atoi ''9223372037'' = Some 9223372037" by (simp add: Atoi_def ParseUint_def is_digit_def digit_val_def)
  ultimately show ?thesis by (simp add: parseRetryAfter_def clampBackoff_def backoffCeiling_def second_ns_def)
qed


text \<open>
  With a plain extra tag the kind read back does depend on the order of the tags: the first tag without a colon
  other than the base tag is taken for it.
\<close>

lemma kind_read_back_by_order:
  "fst (decodeTags [BaseTag, ''reboot'', ''instance:fw'', ''lab'']) = ''reboot''" "fst (decodeTags [''instance:fw'', ''lab'', BaseTag, ''reboot'']) = ''lab''"
  by (simp_all add: decodeTags_def decodeTag_def BaseTag_def hasPrefix_def)

end
