(* ===== verification/Spec2Isabelle.thy ===== *)
theory Spec2Isabelle
  imports Listener Processor Talkers Correlator LogQueue ZenExclude ZenFlow SyslogSource SyslogListener LogShip PolledLanes RoutingChange FlowLog Annotations
begin

text \<open>
  \<^bold>\<open>The program.\<close> The exporter receives NetFlow datagrams, syslog lines and Zenarmor documents from an
  OPNsense firewall, polls the firewall's API for alerts, queries, configuration and routes, turns
  all of it into metrics and log records, and delivers the records. This development models the data
  plane: everything between the bytes of a datagram, a connection or the rows of an answer and the
  series and records handed to the exporters.

  \<^bold>\<open>The parts and how they interact.\<close>

  \<^item> \<^verbatim>\<open>internal/flow/netflow\<close>: \<open>Listener\<close> (read loop, bounded channel, workers) calls the decoder of
    \<open>NetflowDecode\<close>, which keeps version 9 templates in the cache of \<open>TemplateCache\<close>; the wire types
    and the checked slice accesses are in \<open>NetflowTypes\<close>.
  \<^item> \<^verbatim>\<open>internal/flow\<close>: \<open>Processor\<close> normalizes a decoded record (\<open>FlowRecord\<close>), names its interfaces by
    the map of \<open>IfMap\<close>, gives it to the repair stage (\<open>Repair\<close>, with the route and NAT tables of
    \<open>PfTables\<close> and the index of \<open>OrderQueue\<close>), enriches it (\<open>Enrich\<close>, \<open>DNSCache\<close>) and hands it to the
    sinks: \<open>Rollup\<close>, \<open>Talkers\<close> and, where the two lanes are correlated, \<open>Correlator\<close>.
  \<^item> \<^verbatim>\<open>internal/logship\<close>: every lane makes records (\<open>LogRecord\<close>) and hands them to the ingest gate of
    \<open>LogShip\<close>, which keeps them in the bounded queue of \<open>LogQueue\<close> and ships them in batches, with
    retry, splitting and pacing, through the sinks of \<open>LogSink\<close>.
  \<^item> \<^verbatim>\<open>internal/logship/zenarmor\<close>: \<open>ZenParse\<close> makes the record of a document, \<open>ZenExclude\<close> the exclude rules,
    \<open>ZenFlow\<close> the flow record and the feed of the DNS cache.
  \<^item> \<^verbatim>\<open>internal/logship/syslog\<close>: \<open>SyslogListener\<close> has the sockets, their goroutines and budgets;
    \<open>SyslogFraming\<close> and \<open>SyslogAssemble\<close> turn the bytes of a connection into messages, \<open>SyslogEnvelope\<close>
    reads their header (times by \<open>CivilTime\<close>), \<open>Filterlog\<close> the firewall's rows; \<open>SyslogDispatch\<close> has the
    registry of parsers and the redactions, \<open>SyslogDerive\<close> the counters and the sampling, and
    \<open>SyslogSource\<close> composes them into the handler of a line. \<open>CaptureShape\<close> is the shape limiter of
    \<^verbatim>\<open>internal/logship/capture\<close>.
  \<^item> The polled lanes of \<^verbatim>\<open>internal/logship\<close>: \<open>PolledLanes\<close> (\<^verbatim>\<open>ids.go\<close>, \<^verbatim>\<open>unbound.go\<close>, \<^verbatim>\<open>crowdsec.go\<close>),
    \<open>ConfigChange\<close> and \<open>RoutingChange\<close>, with \<^verbatim>\<open>json.Marshal\<close> in \<open>JsonText\<close>. \<open>FlowLog\<close> joins the flow side
    to the log side: it renders a flow record as a log record (\<^verbatim>\<open>flow/logemit.go\<close>), has the budgeted
    bridge of \<^verbatim>\<open>logship/flowlog\<close>, and the disagreement histogram of \<^verbatim>\<open>flow/deltaratio.go\<close>.
  \<^item> \<^verbatim>\<open>internal/annotations\<close>: \<open>Annotations\<close> has the watcher that turns instant-valued metrics into Grafana
    annotations, with its dedupe set, its read-back at the start, its cap per cycle and its backoff.

  \<^bold>\<open>How the code is translated.\<close> A struct is a record with a short prefix before each field, a
  constant or function keeps its Go name (with the receiver's type before it where the bare name
  clashes), and a function that changes its receiver takes and returns it. A Go map is an
  association list with distinct keys (\<open>gomap\<close> of \<open>Prelude\<close>), a nil pointer is \<open>None\<close>, an error is
  the left side of a sum. Wire integers and byte counters are words of their width; event counters
  are naturals. A time is the number of nanoseconds since Go's zero instant, and what the code does
  in 64-bit arithmetic on it (\<^verbatim>\<open>Sub\<close>, \<^verbatim>\<open>UnixNano\<close>) is written out. A slice access that would panic is
  \<open>None\<close> of the option monad in \<open>NetflowTypes\<close> and \<open>NetflowDecode\<close>, so a theorem that a decode is
  \<open>Some\<close> says that it neither panics nor runs for ever. A mutex makes the section it protects one
  step; the interleaving of goroutines is explicit where it is the subject (\<open>Listener\<close>, \<open>SyslogListener\<close>), and
  elsewhere a history is an arbitrary sequence of calls. Iteration over a Go map is iteration over
  the list; the theorems hold for every list. \<^verbatim>\<open>strings.ToLower\<close> and \<^verbatim>\<open>TrimSpace\<close> are modelled on
  ASCII.

  \<^bold>\<open>Shared structure.\<close> \<open>Prelude\<close> has the lemmas on maps, sums over maps, time and words; \<open>NetAddr\<close> is
  \<^verbatim>\<open>net/netip\<close> with its parsing and printing. \<open>Accumulator\<close> has the two contracts every stateful
  component meets: \<open>stepping\<close> (an invariant every operation keeps) and \<open>conserving\<close> (a total every
  operation raises by its weight), interpreted for the rollup, the talkers, the correlator, the
  repair stage and the processor; \<open>PfTables\<close> has \<open>rolling\<close>, what a table rebuilt on every poll with
  retention promises; \<open>RepairLaws\<close> has \<open>vlan_topology\<close>, what the VLAN repairs need of an interface map,
  interpreted for the maps \<open>BuildIfMap\<close> makes; \<open>LogQueue\<close> has \<open>fifo\<close>, interpreted for the bounded queue;
  \<open>LogSink\<close> has \<open>sink\<close>, what the emitter relies on of a sink; \<open>PolledLanes\<close> has \<open>window_cursor\<close>, a cursor
  over a window of newest rows, and \<open>resumable_cursor\<close>, one that also survives its state file, both
  interpreted for the alert and for the query lane.

  \<^bold>\<open>What is shown.\<close>

  \<^item> The decoder: every call returns whatever the bytes, keeps the template cache within its bounds
    and its order a least-recently-used order, isolates exporters from each other, counts each
    datagram under one outcome, reads each element from its own bytes, and is inverse to an encoder
    of templates and of version 5.
  \<^item> The receiver: in every reachable interleaving each accepted datagram is accounted for; shutdown
    terminates and finishes what was accepted.
  \<^item> The repair stage: every record is emitted, counted as suppressed or held; a translated copy is
    suppressed only with the untranslated one emitted; of a trunk and a VLAN copy the VLAN copy
    survives in both orders of arrival; the egress follows the evidence; the tables are bounded.
  \<^item> The processor: its published identity holds over every history, and what its gauge of held
    records really counts. \<open>held_gauge_leaks\<close> is the history on which the gauge and the buffer differ.
  \<^item> The sinks: rollup, talkers and correlator lose no volume over any history; the correlator's
    output does not depend on which half of a conversation arrives first; all stay bounded.
  \<^item> Tables and enrichment: what a lookup answers after any sequence of polls or puts, in both
    directions of a translated conversation, within retention and time to live; private addresses
    are never geolocated; the conversation tuple and the community id do not depend on direction.
  \<^item> The log lane: the queue refines a FIFO within both its bounds and is emptied after a close;
    attributes of a document stay in their closed vocabularies; exclude rules parse all or nothing;
    the suggestion table is the edit distance; a domain fed from a dns document comes back on flows.
  \<^item> Delivery: over any run of polls, pushes and emitter turns, shipped, dropped and queued records are
    those the sources brought; a batch is settled whatever the wire answers; resources are bounded.
  \<^item> The syslog lane: framing does not depend on how a stream falls into reads; every message of a
    stream is settled once; headers are read back as written; identities and keys do not leave; slot
    budgets, shutdown and the gauge of slots in every interleaving.
  \<^item> The polled lanes: alerts, queries and configuration revisions are shipped exactly once through
    failures and restarts, and lost alerts are announced; route events form a chain at a bounded rate;
    credentials in a diff or a route are redacted.
  \<^item> Flow logs: shipped, truncated and dropped flows add up; a flow log never widens the resources; the
    disagreement histogram loses nothing. \<open>budget_passed_at_boundary\<close> is a history that passes the cap.
  \<^item> Annotations: an annotation is written at most once over any life of the watcher, and a restart
    recognises what Grafana already has. \<open>extra_tag_reposts\<close> and \<open>failed_readback_posts_late\<close> are lives in
    which the code does write again what it meant to remember.
  \<^item> Here: the lane end to end, from the records the decoder counts to the flows the rollup shows.

  \<^bold>\<open>Fuel and bounds.\<close> The decoder's loops are recursive on the bytes left, with termination proofs;
  \<open>evictToCap\<close> of the queue is a partial function that the theorems show total on every constructed
  queue; \<open>v6_loop\<close> of \<open>NetAddr\<close> has as fuel the eight groups an address has room for;
  the delivery of a batch takes the list of what the wire answers, and \<open>batch_always_settled\<close> shows that
  as many answers as the batch has records and attempts are enough.

  \<^bold>\<open>What is not modelled.\<close> The MaxMind database is an argument with its documented contract as a
  hypothesis; \<^verbatim>\<open>encoding/json\<close> and \<^verbatim>\<open>regexp\<close> enter as the results of their calls. Sockets, files, HTTP,
  the OpenTelemetry SDK, the console, flags and wiring (\<^verbatim>\<open>main.go\<close>, \<^verbatim>\<open>internal/options\<close>, \<^verbatim>\<open>internal/server\<close>,
  \<^verbatim>\<open>internal/webui\<close>, \<^verbatim>\<open>internal/telemetry\<close>) are input and output. The collectors and the API client
  (\<^verbatim>\<open>internal/collector\<close>, \<^verbatim>\<open>opnsense\<close>) map JSON fields to metrics. The thirty other message
  parsers of \<^verbatim>\<open>internal/logship/syslog\<close> are tables of regular expressions and enter as the registry argument
  of \<open>SyslogDispatch\<close>; the HTTP endpoint of the Zenarmor receiver, the enrichment poller, debug capture
  files, shared fetches, metric budgets and the CPU stream are left out.
\<close>

section \<open>The NetFlow lane end to end\<close>

text \<open>
  The lane as \<^verbatim>\<open>main.go\<close> wires it: the receiver hands every decoded datagram to the processor, whose
  sink is the metric rollup; pollers publish tables, maps and snapshots at any point in between.
\<close>

fun datagramsOf :: "procOp list \<Rightarrow> Datagram list" where
  "datagramsOf [] = []"
| "datagramsOf (PDatagram (Some dg) now # ops) = dg # datagramsOf ops"
| "datagramsOf (op # ops) = datagramsOf ops"

definition observedFlows :: "GeoEnricher option \<Rightarrow> int \<Rightarrow> int \<Rightarrow> Record list \<Rightarrow> RollupEntry list" where
  "observedFlows geo topN maxKeys log = snd (Rollup_Snapshot (fold (Rollup_Observe geo) log (NewRollup topN maxKeys)))"

lemma recordsOf_datagrams: "(\<Sum>op\<leftarrow>ops. recordsOf op) = (\<Sum>dg\<leftarrow>datagramsOf ops. length (dg_Records dg))"
  by (induction ops rule: datagramsOf.induct) simp_all

lemma Source_String_cases: "Source_String s \<in> {''unknown'', ''netflow'', ''zenarmor'', ''merged''}"
  by (cases s) simp_all

lemma sum_weights:
  "(\<Sum>src\<leftarrow>[''unknown'', ''netflow'', ''zenarmor'', ''merged'']. \<Sum>op\<leftarrow>map (RObserve geo) log. rollup_weight QFlows src op) = of_nat (length log)"
proof (induction log)
  case (Cons r log)
  then show ?case using Source_String_cases [of "r_Source r"] by auto
qed simp

lemma observedFlows_count:
  "(\<Sum>src\<leftarrow>[''unknown'', ''netflow'', ''zenarmor'', ''merged'']. shown QFlows src (observedFlows geo topN maxKeys log)) = of_nat (length log)"
proof -
  let ?ops = "map (RObserve geo) log"
  have f: "fold (Rollup_Observe geo) log r = fold rollup_step ?ops r" for r by (induction log arbitrary: r) simp_all
  have "shown QFlows src (observedFlows geo topN maxKeys log) = (\<Sum>op\<leftarrow>?ops. rollup_weight QFlows src op)" for src
    using Snapshot_shows_total [OF rollup.run_inv [OF rollup_inv_New], of QFlows src ?ops topN maxKeys]
      rollup.run_total [OF rollup_inv_New, where q = QFlows and src = src and ops = ?ops]
    by (simp add: observedFlows_def f)
  then show ?thesis using sum_weights [of geo log] by simp
qed

text \<open>
  (C1) From the wire to the metrics nothing is lost silently. In any state the receiver can reach, and for
  any processing of the datagrams it handed on, interleaved with any polls, the records its decoder
  counted are exactly the flows the rollup shows over all sources plus the records dropped as
  duplicates, without address and held, each of these a published counter.
\<close>

theorem pipeline_accounts:
  assumes "listening cfg l" and "datagramsOf ops = li_handled l" and "procRunOf maxE maxH cache geo ops = (p, log)"
  shows "int (st_Records (d_stats (li_dec l))) =
      int (ps_RecordsEmitted (Processor_Stats p)) + int (ps_RecordsDropped (Processor_Stats p)) +
      int (ps_RecordsNoAddr (Processor_Stats p)) + ps_RecordsHeld (Processor_Stats p) \<and>
    (\<Sum>src\<leftarrow>[''unknown'', ''netflow'', ''zenarmor'', ''merged'']. shown QFlows src (observedFlows g topN maxKeys log)) =
      of_nat (ps_RecordsEmitted (Processor_Stats p))"
proof -
  have inv: "procInv (p, log)" using procRunOf_inv [of maxE maxH cache geo ops] assms(3) by simp
  have "pr_recordsIn p = (\<Sum>op\<leftarrow>ops. recordsOf op)"
    using proc.run_total [OF procInv_New, of ops maxE maxH cache geo] assms(3)
    by (simp add: procRunOf_def procIn_def) (simp add: NewProcessor_def)
  then have "pr_recordsIn p = st_Records (d_stats (li_dec l))"
    using listening_inv [OF assms(1)] assms(2) by (simp add: recordsOf_datagrams listener_inv_def recordsIn_def)
  then show ?thesis using inv observedFlows_count [of g topN maxKeys log]
    by (auto simp: procInv_def proc_inv_def Processor_Stats_def)
qed

text \<open>A receiver that has decoded and handed on one version 5 datagram of one record.\<close>

lemma oneRecord_listening:
  "\<exists>l dg. listening \<lparr>lc_AllowedPeers = [], lc_Workers = 1, lc_QueueSize = 1\<rparr> l \<and> li_handled l = [dg] \<and> length (dg_Records dg) = 1"
proof -
  let ?b = "encodeV5 100 60 0 7 [sample_v5]"
  let ?j = "\<lparr>jb_payload = ?b, jb_peer = AddrV4 1\<rparr>"
  define l0 where "l0 = NewListener \<lparr>lc_AllowedPeers = [], lc_Workers = 1, lc_QueueSize = 1\<rparr> Decoder_New"
  define l1 where "l1 = receive ?b (AddrV4 1) l0"
  define l2 where "l2 = l1\<lparr>li_work := [], li_busy := li_busy l1 @ [?j]\<rparr>"
  have l1: "li_work l1 = [?j]" "li_busy l1 = []" "lc_Workers (li_cfg l1) = 1" "li_dec l1 = Decoder_New" "li_handled l1 = []"
    by (simp_all add: l1_def l0_def receive_def NewListener_def allowed_def Let_def)
  obtain d dg where d: "Decode ?b (AddrV4 1) 0 Decoder_New = Some (d, Inr dg)" "length (dg_Records dg) = 1"
    using decodeV5_encode [of "[sample_v5]" 100 60 0 7 "[]" "AddrV4 1" 0 Decoder_New] by (auto simp: Let_def)
  let ?l3 = "l2\<lparr>li_dec := d, li_busy := [], li_handled := [dg]\<rparr>"
  have "runJob ?j 0 l2 = Some ?l3" using d(1) l1 by (simp add: runJob_def l2_def)
  moreover have "lstep l0 l1" unfolding l1_def by (rule lstep.Receive) (simp add: l0_def NewListener_def)
  moreover have "lstep l1 l2" unfolding l2_def using lstep.Take [OF l1(1)] l1(2,3) by simp
  moreover have "?j \<in> set (li_busy l2)" by (simp add: l2_def)
  ultimately have "listening \<lparr>lc_AllowedPeers = [], lc_Workers = 1, lc_QueueSize = 1\<rparr> ?l3"
    unfolding listening_def l0_def [symmetric] by (meson lstep.Finish converse_rtranclp_into_rtranclp rtranclp.rtrancl_refl)
  then show ?thesis using d(2) by (intro exI [of _ ?l3] exI [of _ dg]) simp
qed

theorem pipeline_accounts_witness:
  "\<exists>dg. length (dg_Records dg) = 1 \<and> (case procRunOf 10 10 None None [PNATs None, PDatagram (Some dg) 1, PRelease 2] of (p, log) \<Rightarrow>
     int (ps_RecordsEmitted (Processor_Stats p)) + int (ps_RecordsDropped (Processor_Stats p)) +
       int (ps_RecordsNoAddr (Processor_Stats p)) + ps_RecordsHeld (Processor_Stats p) = 1)"
proof -
  obtain l dg where l: "listening \<lparr>lc_AllowedPeers = [], lc_Workers = 1, lc_QueueSize = 1\<rparr> l" "li_handled l = [dg]" "length (dg_Records dg) = 1"
    using oneRecord_listening by blast
  obtain p log where r: "procRunOf 10 10 None None [PNATs None, PDatagram (Some dg) 1, PRelease 2] = (p, log)" by fastforce
  have "st_Records (d_stats (li_dec l)) = 1" using listening_inv [OF l(1)] l(2,3) by (simp add: listener_inv_def recordsIn_def)
  with pipeline_accounts [OF l(1) _ r] l(2) have "int (ps_RecordsEmitted (Processor_Stats p)) + int (ps_RecordsDropped (Processor_Stats p)) +
       int (ps_RecordsNoAddr (Processor_Stats p)) + ps_RecordsHeld (Processor_Stats p) = 1" by simp
  then show ?thesis using l(3) r by (intro exI [of _ dg]) simp
qed

end
